(* ===== verification/Prelude.thy ===== *)
theory Prelude
  imports Complex_Main "HOL-Library.Word" "HOL-Library.Log_Nat"
begin

text \<open>
  What every theory of the development shares: the ways a C++ operation can go
  wrong as values of one datatype, the result type of fallible operations with
  its sequencing operator, the names of the machine integers, and generic
  lemmas on lists that the component proofs use.
\<close>

unbundle bit_operations_syntax

section \<open>Failures of the C++ code as values\<close>

text \<open>
  A constructor per way the code can fail.  Undefined stands for the
  undefined behaviour of the C++ standard (a float-to-integer conversion out of
  range, an index past the end, use of an indeterminate value); the others are
  the failures the sources raise themselves or inherit from the standard
  library.
\<close>

datatype cpp_error =
    Undefined
  | NullDeref
  | UseAfterFree
  | DoubleFree
  | DivByZero
  | OutOfBounds
  | LengthError
  | RuntimeError
  | AssertFail
  | Terminate

type_synonym 'a res = "cpp_error + 'a"

definition bindR :: "'a res \<Rightarrow> ('a \<Rightarrow> 'b res) \<Rightarrow> 'b res" where
  "bindR m f = (case m of Inl e \<Rightarrow> Inl e | Inr x \<Rightarrow> f x)"

definition isOk :: "'a res \<Rightarrow> bool" where
  "isOk m = (case m of Inl _ \<Rightarrow> False | Inr _ \<Rightarrow> True)"

lemma bindR_simps [simp]:
  "bindR (Inl e) f = Inl e"
  "bindR (Inr x) f = f x"
  by (simp_all add: bindR_def)

lemma bindR_eq_Inr: "bindR m f = Inr y \<longleftrightarrow> (\<exists>x. m = Inr x \<and> f x = Inr y)"
  by (cases m) auto

lemma isOk_simps [simp]:
  "isOk (Inl e) = False"
  "isOk (Inr x) = True"
  by (simp_all add: isOk_def)

lemma isOk_iff: "isOk m \<longleftrightarrow> (\<exists>x. m = Inr x)"
  by (cases m) auto

lemma bindR_cong [fundef_cong]:
  "m = m' \<Longrightarrow> (\<And>x. m' = Inr x \<Longrightarrow> f x = f' x) \<Longrightarrow> bindR m f = bindR m' f'"
  by (cases m') auto

section \<open>Machine integers\<close>

type_synonym u8 = "8 word"
type_synonym u16 = "16 word"
type_synonym u32 = "32 word"
type_synonym u64 = "64 word"

lemma unat_pow2: "k < LENGTH('w) \<Longrightarrow> unat (2 ^ k :: ('w::len) word) = 2 ^ k"
proof -
  assume "k < LENGTH('w)"
  then have "(2::nat) ^ k < 2 ^ LENGTH('w)" by (intro power_strict_increasing) auto
  then show ?thesis using unat_of_nat[of "2 ^ k", where 'a='w] by simp
qed

section \<open>Collections of rewrite rules\<close>

text \<open>
  inv_intros collects the preservation lemmas of the component
  invariants.
\<close>

named_theorems inv_intros

section \<open>Lists\<close>

lemma nth_list_update_ne [simp]: "i \<noteq> j \<Longrightarrow> (xs[j := x]) ! i = xs ! i"
  by simp

lemma map_upt_cong:
  "(\<And>i. i < n \<Longrightarrow> f i = g i) \<Longrightarrow> map f [0..<n] = map g [0..<n]"
  by simp

lemma map_upt_shift: "map f [0..<Suc n] = f 0 # map (\<lambda>i. f (Suc i)) [0..<n]"
  using map_upt_Suc by blast

lemma take_append_drop_update:
  "i < length d \<Longrightarrow> (take i d @ [x]) @ drop (Suc i) d = d[i := x]"
  by (simp add: upd_conv_take_nth_drop)

end
