(* ===== verification/Ring_Index.thy ===== *)
theory Ring_Index
  imports Prelude
begin

text \<open>
  Ring buffers with free-running indices, as both drivers use them: the
  indices are unsigned machine integers that are only ever incremented and
  wrap around, a slot is the index masked with 2 ^ k - 1, and the
  fill level is the wrapped difference of the two indices.  The lemmas here
  hold at every index width; they reduce a push and a pop to appending to and
  taking from a list.  The second half states the interface of a FIFO queue as
  a locale, which the queue components interpret.
\<close>

section \<open>Slots\<close>

definition slot :: "nat \<Rightarrow> ('w::len) word \<Rightarrow> nat" where
  "slot k i = unat (i AND mask k)"

definition ring_contents :: "nat \<Rightarrow> 'a list \<Rightarrow> ('w::len) word \<Rightarrow> 'w word \<Rightarrow> 'a list" where
  "ring_contents k buf r w = map (\<lambda>i. buf ! slot k (r + of_nat i)) [0..<unat (w - r)]"

definition ring_ok :: "nat \<Rightarrow> 'a list \<Rightarrow> ('w::len) word \<Rightarrow> 'w word \<Rightarrow> bool" where
  "ring_ok k buf r w \<longleftrightarrow> k < LENGTH('w) \<and> length buf = 2 ^ k \<and> unat (w - r) \<le> 2 ^ k"

lemma slot_mod: "slot k i = unat i mod 2 ^ k"
  by (simp only: slot_def take_bit_eq_mask[symmetric] unsigned_take_bit_eq)
    (simp only: take_bit_eq_mod)

lemma slot_less: "slot k i < 2 ^ k"
  by (simp add: slot_mod)

lemma slot_add:
  fixes r :: "('w::len) word"
  assumes "k < LENGTH('w)"
  shows "slot k (r + of_nat n) = (unat r + n) mod 2 ^ k"
proof -
  have "(2::nat) ^ k dvd 2 ^ LENGTH('w)"
    using assms by (simp add: le_imp_power_dvd)
  then show ?thesis
    by (simp add: slot_mod unat_word_ariths unat_of_nat mod_add_right_eq mod_mod_cancel)
qed

lemma slot_add_neq:
  fixes r :: "('w::len) word"
  assumes "k < LENGTH('w)" "i < n" "n < i + 2 ^ k"
  shows "slot k (r + of_nat i) \<noteq> slot k (r + of_nat n)"
proof
  assume "slot k (r + of_nat i) = slot k (r + of_nat n)"
  then have "(unat r + n) mod 2 ^ k = (unat r + i) mod 2 ^ k"
    using assms(1) by (simp add: slot_add)
  then have "2 ^ k dvd (unat r + n) - (unat r + i)"
    using assms(2) mod_eq_dvd_iff_nat[of "unat r + i" "unat r + n" "2 ^ k"] by simp
  then have "2 ^ k \<le> n - i" using assms(2) by (intro dvd_imp_le) auto
  then show False using assms by linarith
qed

lemma length_ring_contents [simp]: "length (ring_contents k buf r w) = unat (w - r)"
  by (simp add: ring_contents_def)

lemma ring_contents_empty: "ring_contents k buf r r = []"
  by (simp add: ring_contents_def)

lemma ring_contents_nil_iff: "ring_contents k buf r w = [] \<longleftrightarrow> r = w"
  by (metis length_0_conv length_ring_contents right_minus_eq unat_eq_0)

section \<open>Push and pop\<close>

lemma unat_succ_diff:
  fixes r w :: "('w::len) word"
  assumes "k < LENGTH('w)" "unat (w - r) < 2 ^ k"
  shows "unat (w + 1 - r) = Suc (unat (w - r))"
proof -
  have "(2::nat) ^ k < 2 ^ LENGTH('w)" using assms(1) by simp
  then have "Suc (unat (w - r)) < 2 ^ LENGTH('w)" using assms(2) by linarith
  moreover have "w + 1 - r = (w - r) + 1" by simp
  ultimately show ?thesis by (simp only: unat_word_ariths) simp
qed

lemma ring_push:
  fixes r w :: "('w::len) word"
  assumes "ring_ok k buf r w" "unat (w - r) < 2 ^ k"
  shows "ring_contents k (buf[slot k w := x]) r (w + 1) = ring_contents k buf r w @ [x]"
    and "ring_ok k (buf[slot k w := x]) r (w + 1)"
proof -
  have k: "k < LENGTH('w)" and l: "length buf = 2 ^ k" using assms by (auto simp: ring_ok_def)
  let ?n = "unat (w - r)"
  have w: "w = r + of_nat ?n" by simp
  have suc: "unat (w + 1 - r) = Suc ?n" by (rule unat_succ_diff[OF k assms(2)])
  have ne: "slot k (r + of_nat i) \<noteq> slot k w" if "i < ?n" for i
    using slot_add_neq[OF k that, of r] that assms(2) w by simp
  have "ring_contents k (buf[slot k w := x]) r (w + 1)
      = map (\<lambda>i. buf[slot k w := x] ! slot k (r + of_nat i)) [0..<?n] @ [buf[slot k w := x] ! slot k w]"
    using suc w by (simp add: ring_contents_def)
  also have "\<dots> = ring_contents k buf r w @ [x]"
    using ne slot_less[of k w] l by (simp add: ring_contents_def)
  finally show "ring_contents k (buf[slot k w := x]) r (w + 1) = ring_contents k buf r w @ [x]" .
  show "ring_ok k (buf[slot k w := x]) r (w + 1)"
    using k l suc assms(2) by (simp add: ring_ok_def)
qed

lemma unat_pred_diff:
  fixes r w :: "('w::len) word"
  assumes "r \<noteq> w"
  shows "unat (w - r) = Suc (unat (w - (r + 1)))"
proof -
  have "w - r \<noteq> 0" using assms by auto
  then have "unat (w - r - 1) = unat (w - r) - 1" "unat (w - r) \<noteq> 0"
    by (simp_all add: unat_minus_one unat_eq_zero)
  then show ?thesis by (simp add: diff_diff_eq)
qed

lemma ring_pop:
  fixes r w :: "('w::len) word"
  assumes "ring_ok k buf r w" "r \<noteq> w"
  shows "ring_contents k buf r w = buf ! slot k r # ring_contents k buf (r + 1) w"
    and "ring_ok k buf (r + 1) w"
proof -
  have n: "unat (w - r) = Suc (unat (w - (r + 1)))" by (rule unat_pred_diff[OF assms(2)])
  show "ring_contents k buf r w = buf ! slot k r # ring_contents k buf (r + 1) w"
    by (simp only: ring_contents_def n map_upt_shift) (simp add: ac_simps)
  show "ring_ok k buf (r + 1) w"
    using assms n by (simp add: ring_ok_def)
qed

lemma ring_contents_nth:
  "i < unat (w - r) \<Longrightarrow> ring_contents k buf r w ! i = buf ! slot k (r + of_nat i)"
  by (simp add: ring_contents_def)

section \<open>The interface of a FIFO queue\<close>

text \<open>
  A queue gives its clients a push that may refuse and a pop that may find
  nothing.  contents reads the queue as a list, oldest element first.
\<close>

datatype 'a queue_event = Push 'a | Pop

fun queue_run :: "('a \<Rightarrow> 'q \<Rightarrow> 'q option) \<Rightarrow> ('q \<Rightarrow> ('a \<times> 'q) option) \<Rightarrow>
    'a queue_event list \<Rightarrow> 'q \<Rightarrow> 'a list \<times> 'a list \<times> 'q" where
  "queue_run push pop [] q = ([], [], q)"
| "queue_run push pop (Push x # es) q = (case push x q of
      None \<Rightarrow> queue_run push pop es q
    | Some q' \<Rightarrow> (case queue_run push pop es q' of (ins, outs, q'') \<Rightarrow> (x # ins, outs, q'')))"
| "queue_run push pop (Pop # es) q = (case pop q of
      None \<Rightarrow> queue_run push pop es q
    | Some (x, q') \<Rightarrow> (case queue_run push pop es q' of (ins, outs, q'') \<Rightarrow> (ins, x # outs, q'')))"

text \<open>Draining, at most n elements.\<close>

fun queue_drain :: "('q \<Rightarrow> ('a \<times> 'q) option) \<Rightarrow> nat \<Rightarrow> 'q \<Rightarrow> 'a list \<times> 'q" where
  "queue_drain pop 0 q = ([], q)"
| "queue_drain pop (Suc n) q = (case pop q of
      None \<Rightarrow> ([], q)
    | Some (x, q') \<Rightarrow> (case queue_drain pop n q' of (xs, q'') \<Rightarrow> (x # xs, q'')))"

locale fifo =
  fixes qinv :: "'q \<Rightarrow> bool"
    and contents :: "'q \<Rightarrow> 'a list"
    and accepts :: "'q \<Rightarrow> bool"
    and push :: "'a \<Rightarrow> 'q \<Rightarrow> 'q option"
    and pop :: "'q \<Rightarrow> ('a \<times> 'q) option"
  assumes push_accepts: "qinv q \<Longrightarrow> accepts q \<Longrightarrow>
      \<exists>q'. push x q = Some q' \<and> qinv q' \<and> contents q' = contents q @ [x]"
    and push_refuses: "qinv q \<Longrightarrow> \<not> accepts q \<Longrightarrow> push x q = None"
    and pop_nil: "qinv q \<Longrightarrow> contents q = [] \<Longrightarrow> pop q = None"
    and pop_cons: "qinv q \<Longrightarrow> contents q = x # xs \<Longrightarrow>
      \<exists>q'. pop q = Some (x, q') \<and> qinv q' \<and> contents q' = xs"
begin

lemma push_cases:
  assumes "qinv q"
  obtains "push x q = None" "\<not> accepts q"
  | q' where "push x q = Some q'" "qinv q'" "contents q' = contents q @ [x]" "accepts q"
  using push_accepts[OF assms, of x] push_refuses[OF assms, of x] that
  by (cases "accepts q") blast+

lemma pop_cases:
  assumes "qinv q"
  obtains "pop q = None" "contents q = []"
  | x q' where "pop q = Some (x, q')" "qinv q'" "contents q = x # contents q'"
proof (cases "contents q")
  case Nil
  then show ?thesis using pop_nil[OF assms] that(1) by simp
next
  case (Cons x xs)
  then obtain q' where "pop q = Some (x, q')" "qinv q'" "contents q' = xs"
    using pop_cons[OF assms] by blast
  then show ?thesis using that(2) Cons by simp
qed

text \<open>
  Whatever the interleaving of pushes and pops, what was taken out followed by
  what is still queued is what was queued followed by what was accepted:
  nothing is lost, duplicated or reordered.
\<close>

lemma run_fifo:
  "qinv q \<Longrightarrow> queue_run push pop es q = (ins, outs, q') \<Longrightarrow>
     qinv q' \<and> outs @ contents q' = contents q @ ins"
proof (induction es arbitrary: q ins outs)
  case Nil
  then show ?case by simp
next
  case (Cons e es)
  show ?case
  proof (cases e)
    case (Push x)
    show ?thesis
      using Cons.prems Cons.IH Push
      by (cases rule: push_cases[OF Cons.prems(1), of x]) (fastforce split: prod.splits)+
  next
    case Pop
    show ?thesis
      using Cons.prems Cons.IH Pop
      by (cases rule: pop_cases[OF Cons.prems(1)]) (fastforce split: prod.splits)+
  qed
qed

lemma drain_spec:
  "qinv q \<Longrightarrow> queue_drain pop n q = (xs, q') \<Longrightarrow>
     qinv q' \<and> xs = take n (contents q) \<and> contents q' = drop n (contents q)"
proof (induction n arbitrary: q xs)
  case 0
  then show ?case by simp
next
  case (Suc n)
  show ?case
    using Suc.prems Suc.IH
    by (cases rule: pop_cases[OF Suc.prems(1)]) (fastforce split: prod.splits)+
qed

lemma drain_all:
  assumes "qinv q" "length (contents q) \<le> n"
  shows "fst (queue_drain pop n q) = contents q"
  using drain_spec[OF assms(1), of n] assms(2)
  by (cases "queue_drain pop n q") simp

end

text \<open>A bounded queue accepts exactly while it holds less than its capacity.\<close>

locale bounded_fifo = fifo qinv contents accepts push pop
  for qinv :: "'q \<Rightarrow> bool" and contents :: "'q \<Rightarrow> 'a list" and accepts push pop +
  fixes capacity :: "'q \<Rightarrow> nat"
  assumes accepts_iff: "qinv q \<Longrightarrow> accepts q \<longleftrightarrow> length (contents q) < capacity q"
    and inv_capacity: "qinv q \<Longrightarrow> length (contents q) \<le> capacity q"
    and push_capacity: "qinv q \<Longrightarrow> push x q = Some q' \<Longrightarrow> capacity q' = capacity q"
    and pop_capacity: "qinv q \<Longrightarrow> pop q = Some (x, q') \<Longrightarrow> capacity q' = capacity q"
begin

lemma run_bounded:
  "qinv q \<Longrightarrow> queue_run push pop es q = (ins, outs, q') \<Longrightarrow>
     capacity q' = capacity q \<and> length (contents q') \<le> capacity q"
proof (induction es arbitrary: q ins outs)
  case Nil
  then show ?case using inv_capacity by simp
next
  case (Cons e es)
  show ?case
  proof (cases e)
    case (Push x)
    show ?thesis
      using Cons.prems Cons.IH Push push_capacity[OF Cons.prems(1), of x]
      by (cases rule: push_cases[OF Cons.prems(1), of x]) (fastforce split: prod.splits)+
  next
    case Pop
    show ?thesis
      using Cons.prems Cons.IH Pop pop_capacity[OF Cons.prems(1)]
      by (cases rule: pop_cases[OF Cons.prems(1)]) (fastforce split: prod.splits)+
  qed
qed

end

end
