(* ===== verification/Ring_Buffer.thy ===== *)
theory Ring_Buffer
  imports Ring_Index
begin

text \<open>
  The ring buffer of the serial and CAN ports
  (edge/src/ugv_sdk/include/ugv_sdk/details/async_port/ring_buffer.hpp):
  the record of its fields, its operations with 64-bit indices that wrap, and
  the refinement of each operation to a list.  The loop counter int i
  of Read, Peek and Write is a natural number here: the
  loops stop at the buffer size at the latest, so the counter fits for every
  buffer of at most 2 ^ 30 elements (the only instance in the
  program has 8192).
\<close>

section \<open>State and operations\<close>

record 'a ring_buffer =
  buffer :: "'a list"
  size_n :: u64
  size_mask :: u64
  write_index :: u64
  read_index :: u64

text \<open>
  The constructor; the contents of the array are indeterminate, so they are an
  argument.  The static assertion requires the size to be a power of two.
\<close>

definition is_pow2 :: "u64 \<Rightarrow> bool" where
  "is_pow2 n \<longleftrightarrow> n \<noteq> 0 \<and> n AND (n - 1) = 0"

definition rb_init :: "'a list \<Rightarrow> u64 \<Rightarrow> 'a ring_buffer" where
  "rb_init mem n = \<lparr>buffer = mem, size_n = n, size_mask = n - 1,
     write_index = 0, read_index = 0\<rparr>"

definition rb_reset :: "'a ring_buffer \<Rightarrow> 'a ring_buffer" where
  "rb_reset rb = rb\<lparr>write_index := 0, read_index := 0\<rparr>"

definition rb_is_empty :: "'a ring_buffer \<Rightarrow> bool" where
  "rb_is_empty rb \<longleftrightarrow> read_index rb = write_index rb"

definition rb_occupied :: "'a ring_buffer \<Rightarrow> u64" where
  "rb_occupied rb = write_index rb - read_index rb"

definition rb_free :: "'a ring_buffer \<Rightarrow> u64" where
  "rb_free rb = size_n rb - rb_occupied rb"

definition rb_is_full :: "'a ring_buffer \<Rightarrow> bool" where
  "rb_is_full rb \<longleftrightarrow> size_n rb = rb_occupied rb"

definition rb_read_byte :: "'a ring_buffer \<Rightarrow> ('a \<times> 'a ring_buffer) option" where
  "rb_read_byte rb = (if rb_is_empty rb then None
     else Some (buffer rb ! unat (read_index rb AND size_mask rb),
                rb\<lparr>read_index := read_index rb + 1\<rparr>))"

definition rb_peek_at :: "'a ring_buffer \<Rightarrow> u64 \<Rightarrow> 'a option" where
  "rb_peek_at rb n = (if rb_occupied rb \<le> n then None
     else Some (buffer rb ! unat ((read_index rb + n) AND size_mask rb)))"

definition rb_write_byte :: "'a \<Rightarrow> 'a ring_buffer \<Rightarrow> 'a ring_buffer option" where
  "rb_write_byte x rb = (if rb_occupied rb = size_n rb then None
     else Some (rb\<lparr>buffer := (buffer rb)[unat (write_index rb AND size_mask rb) := x],
                   write_index := write_index rb + 1\<rparr>))"

text \<open>
  The bulk operations: the first argument counts the iterations left, i
  is the loop counter, d the caller's array.  They return the number of
  elements transferred, the array and the buffer.
\<close>

fun rb_read_loop :: "nat \<Rightarrow> nat \<Rightarrow> 'a list \<Rightarrow> 'a ring_buffer \<Rightarrow> (nat \<times> 'a list \<times> 'a ring_buffer) res" where
  "rb_read_loop 0 i d rb = Inr (i, d, rb)"
| "rb_read_loop (Suc n) i d rb = (case rb_read_byte rb of
      None \<Rightarrow> Inr (i, d, rb)
    | Some (x, rb') \<Rightarrow> if i < length d then rb_read_loop n (Suc i) (d[i := x]) rb'
                       else Inl OutOfBounds)"

definition rb_read :: "'a list \<Rightarrow> nat \<Rightarrow> 'a ring_buffer \<Rightarrow> (nat \<times> 'a list \<times> 'a ring_buffer) res" where
  "rb_read d btr rb = rb_read_loop btr 0 d rb"

fun rb_peek_loop :: "nat \<Rightarrow> nat \<Rightarrow> 'a list \<Rightarrow> 'a ring_buffer \<Rightarrow> (nat \<times> 'a list) res" where
  "rb_peek_loop 0 i d rb = Inr (i, d)"
| "rb_peek_loop (Suc n) i d rb = (case rb_peek_at rb (of_nat i) of
      None \<Rightarrow> Inr (i, d)
    | Some x \<Rightarrow> if i < length d then rb_peek_loop n (Suc i) (d[i := x]) rb
                else Inl OutOfBounds)"

definition rb_peek :: "'a list \<Rightarrow> nat \<Rightarrow> 'a ring_buffer \<Rightarrow> (nat \<times> 'a list) res" where
  "rb_peek d btp rb = rb_peek_loop btp 0 d rb"

fun rb_write_loop :: "nat \<Rightarrow> nat \<Rightarrow> 'a list \<Rightarrow> 'a ring_buffer \<Rightarrow> (nat \<times> 'a ring_buffer) res" where
  "rb_write_loop 0 i d rb = Inr (i, rb)"
| "rb_write_loop (Suc n) i d rb = (if i < length d then
      (case rb_write_byte (d ! i) rb of
         None \<Rightarrow> Inr (i, rb)
       | Some rb' \<Rightarrow> rb_write_loop n (Suc i) d rb')
     else Inl OutOfBounds)"

definition rb_write :: "'a list \<Rightarrow> nat \<Rightarrow> 'a ring_buffer \<Rightarrow> (nat \<times> 'a ring_buffer) res" where
  "rb_write d btw rb = rb_write_loop btw 0 d rb"

section \<open>Invariant and abstraction\<close>

definition rb_inv :: "'a ring_buffer \<Rightarrow> bool" where
  "rb_inv rb \<longleftrightarrow> (\<exists>k. ring_ok k (buffer rb) (read_index rb) (write_index rb)
     \<and> size_n rb = 2 ^ k \<and> size_mask rb = mask k)"

definition rb_contents :: "'a ring_buffer \<Rightarrow> 'a list" where
  "rb_contents rb = map (\<lambda>i. buffer rb ! unat ((read_index rb + of_nat i) AND size_mask rb))
     [0..<unat (write_index rb - read_index rb)]"

definition rb_capacity :: "'a ring_buffer \<Rightarrow> nat" where
  "rb_capacity rb = unat (size_n rb)"

lemma rb_invE:
  assumes "rb_inv rb"
  obtains k where "ring_ok k (buffer rb) (read_index rb) (write_index rb)"
    "size_n rb = 2 ^ k" "size_mask rb = mask k" "k < 64"
    "rb_contents rb = ring_contents k (buffer rb) (read_index rb) (write_index rb)"
    "rb_capacity rb = 2 ^ k"
proof -
  obtain k where k: "ring_ok k (buffer rb) (read_index rb) (write_index rb)"
    "size_n rb = 2 ^ k" "size_mask rb = mask k" using assms by (auto simp: rb_inv_def)
  have "k < 64" using k(1) by (simp add: ring_ok_def)
  moreover have "rb_contents rb = ring_contents k (buffer rb) (read_index rb) (write_index rb)"
    by (simp add: rb_contents_def ring_contents_def slot_def k)
  moreover have "rb_capacity rb = 2 ^ k"
    using \<open>k < 64\<close> by (simp add: rb_capacity_def k unat_pow2)
  ultimately show ?thesis using that k by blast
qed

lemma length_rb_contents: "length (rb_contents rb) = unat (rb_occupied rb)"
  by (simp add: rb_contents_def rb_occupied_def)

lemma rb_empty_iff: "rb_is_empty rb \<longleftrightarrow> rb_contents rb = []"
  by (metis length_0_conv length_rb_contents rb_is_empty_def rb_occupied_def right_minus_eq
      unat_eq_0)

lemma rb_length_capacity: "rb_inv rb \<Longrightarrow> length (rb_contents rb) \<le> rb_capacity rb"
  by (erule rb_invE) (simp add: ring_ok_def)

lemma rb_full_iff: "rb_inv rb \<Longrightarrow> rb_occupied rb = size_n rb \<longleftrightarrow> length (rb_contents rb) = rb_capacity rb"
  by (simp add: length_rb_contents rb_capacity_def word_unat_eq_iff)

lemma rb_free_spec: "rb_inv rb \<Longrightarrow> unat (rb_free rb) = rb_capacity rb - length (rb_contents rb)"
  using rb_length_capacity[of rb]
  by (simp add: rb_free_def rb_capacity_def length_rb_contents unat_sub word_le_nat_alt)

section \<open>The byte operations refine the list operations\<close>

lemma rb_write_byte_room:
  assumes "rb_inv rb" "length (rb_contents rb) < rb_capacity rb"
  shows "\<exists>rb'. rb_write_byte x rb = Some rb' \<and> rb_inv rb' \<and> rb_contents rb' = rb_contents rb @ [x]
    \<and> rb_capacity rb' = rb_capacity rb \<and> length (buffer rb') = length (buffer rb)"
proof -
  obtain k where k: "ring_ok k (buffer rb) (read_index rb) (write_index rb)"
    "size_n rb = 2 ^ k" "size_mask rb = mask k" "k < 64"
    "rb_contents rb = ring_contents k (buffer rb) (read_index rb) (write_index rb)"
    "rb_capacity rb = 2 ^ k" by (rule rb_invE[OF assms(1)])
  have lt: "unat (write_index rb - read_index rb) < 2 ^ k"
    using assms(2) k(6) by (simp add: length_rb_contents rb_occupied_def)
  have ne: "rb_occupied rb \<noteq> size_n rb"
    using assms rb_full_iff[OF assms(1)] by auto
  let ?rb = "rb\<lparr>buffer := (buffer rb)[slot k (write_index rb) := x],
    write_index := write_index rb + 1\<rparr>"
  have w: "rb_write_byte x rb = Some ?rb" using ne by (simp add: rb_write_byte_def slot_def k(3))
  have c: "rb_contents ?rb = ring_contents k (buffer ?rb) (read_index ?rb) (write_index ?rb)"
    by (simp add: rb_contents_def ring_contents_def slot_def k(3))
  show ?thesis
    using ring_push[OF k(1) lt, of x] k w c
    by (intro exI[of _ ?rb]) (auto simp: rb_inv_def rb_capacity_def)
qed

lemma rb_write_byte_full:
  "rb_inv rb \<Longrightarrow> length (rb_contents rb) = rb_capacity rb \<Longrightarrow> rb_write_byte x rb = None"
  using rb_full_iff[of rb] by (simp add: rb_write_byte_def)

lemma rb_read_byte_nil: "rb_contents rb = [] \<Longrightarrow> rb_read_byte rb = None"
  by (simp add: rb_read_byte_def rb_empty_iff)

lemma rb_read_byte_cons:
  assumes "rb_inv rb" "rb_contents rb = x # xs"
  shows "\<exists>rb'. rb_read_byte rb = Some (x, rb') \<and> rb_inv rb' \<and> rb_contents rb' = xs
    \<and> rb_capacity rb' = rb_capacity rb"
proof -
  obtain k where k: "ring_ok k (buffer rb) (read_index rb) (write_index rb)"
    "size_n rb = 2 ^ k" "size_mask rb = mask k" "k < 64"
    "rb_contents rb = ring_contents k (buffer rb) (read_index rb) (write_index rb)"
    "rb_capacity rb = 2 ^ k" by (rule rb_invE[OF assms(1)])
  have ne: "read_index rb \<noteq> write_index rb"
    using assms(2) k(5) by (auto simp: ring_contents_empty)
  let ?rb = "rb\<lparr>read_index := read_index rb + 1\<rparr>"
  have c: "rb_contents ?rb = ring_contents k (buffer ?rb) (read_index ?rb) (write_index ?rb)"
    by (simp add: rb_contents_def ring_contents_def slot_def k(3))
  show ?thesis
    using ring_pop[OF k(1) ne] k c assms(2) ne
    by (intro exI[of _ ?rb])
      (auto simp: rb_inv_def rb_capacity_def rb_read_byte_def rb_is_empty_def slot_def)
qed

definition rb_accepts :: "'a ring_buffer \<Rightarrow> bool" where
  "rb_accepts rb \<longleftrightarrow> 0 < rb_free rb"

lemma rb_accepts_iff:
  "rb_inv rb \<Longrightarrow> rb_accepts rb \<longleftrightarrow> length (rb_contents rb) < rb_capacity rb"
  using rb_free_spec[of rb] by (simp add: rb_accepts_def word_less_nat_alt)

interpretation rbq: bounded_fifo rb_inv rb_contents rb_accepts rb_write_byte rb_read_byte rb_capacity
proof unfold_locales
  fix q :: "'a ring_buffer" and x
  assume i: "rb_inv q"
  show "rb_accepts q \<Longrightarrow>
      \<exists>q'. rb_write_byte x q = Some q' \<and> rb_inv q' \<and> rb_contents q' = rb_contents q @ [x]"
    using rb_write_byte_room[OF i, of x] rb_accepts_iff[OF i] by blast
  show "\<not> rb_accepts q \<Longrightarrow> rb_write_byte x q = None"
    using rb_write_byte_full[OF i] rb_accepts_iff[OF i] rb_length_capacity[OF i] by force
  show "rb_contents q = [] \<Longrightarrow> rb_read_byte q = None" by (rule rb_read_byte_nil)
  show "rb_accepts q \<longleftrightarrow> length (rb_contents q) < rb_capacity q" by (rule rb_accepts_iff[OF i])
  show "length (rb_contents q) \<le> rb_capacity q" by (rule rb_length_capacity[OF i])
  fix q'
  show "rb_write_byte x q = Some q' \<Longrightarrow> rb_capacity q' = rb_capacity q"
    by (auto simp: rb_write_byte_def rb_capacity_def split: if_splits)
  show "rb_read_byte q = Some (x, q') \<Longrightarrow> rb_capacity q' = rb_capacity q"
    by (auto simp: rb_read_byte_def rb_capacity_def split: if_splits)
next
  fix q :: "'a ring_buffer" and x xs
  assume "rb_inv q" "rb_contents q = x # xs"
  then show "\<exists>q'. rb_read_byte q = Some (x, q') \<and> rb_inv q' \<and> rb_contents q' = xs"
    using rb_read_byte_cons[of q x xs] by blast
qed

section \<open>The bulk operations\<close>

lemma rb_read_loop_spec:
  assumes "rb_inv rb" "i + n \<le> length d"
  shows "\<exists>rb'. rb_read_loop n i d rb = Inr (i + min n (length (rb_contents rb)),
      take i d @ take n (rb_contents rb) @ drop (i + min n (length (rb_contents rb))) d, rb')
    \<and> rb_inv rb' \<and> rb_contents rb' = drop n (rb_contents rb) \<and> rb_capacity rb' = rb_capacity rb"
  using assms
proof (induction n arbitrary: i d rb)
  case 0
  then show ?case by simp
next
  case (Suc n)
  show ?case
  proof (cases "rb_contents rb")
    case Nil
    then show ?thesis using Suc.prems by (simp add: rb_read_byte_nil)
  next
    case (Cons x xs)
    then obtain rb1 where r: "rb_read_byte rb = Some (x, rb1)" "rb_inv rb1"
      "rb_contents rb1 = xs" "rb_capacity rb1 = rb_capacity rb"
      using rb_read_byte_cons[OF Suc.prems(1)] by blast
    have d: "take (Suc i) (d[i := x]) = take i d @ [x]"
      using Suc.prems(2) by (simp add: take_Suc_conv_app_nth)
    show ?thesis
      using Suc.IH[OF r(2), of "Suc i" "d[i := x]"] Suc.prems(2) r Cons d by auto
  qed
qed

lemma rb_read_spec:
  assumes "rb_inv rb" "btr \<le> length d"
  shows "\<exists>rb'. rb_read d btr rb = Inr (min btr (length (rb_contents rb)),
      take btr (rb_contents rb) @ drop (min btr (length (rb_contents rb))) d, rb')
    \<and> rb_inv rb' \<and> rb_contents rb' = drop btr (rb_contents rb) \<and> rb_capacity rb' = rb_capacity rb"
  using rb_read_loop_spec[OF assms(1), of 0 btr d] assms(2) by (simp add: rb_read_def)

lemma rb_peek_at_spec:
  assumes "rb_inv rb" "i < 2 ^ 64"
  shows "rb_peek_at rb (of_nat i) =
    (if i < length (rb_contents rb) then Some (rb_contents rb ! i) else None)"
proof -
  have "unat (of_nat i :: u64) = i" using assms(2) by (simp add: unat_of_nat)
  then have "rb_occupied rb \<le> of_nat i \<longleftrightarrow> \<not> i < length (rb_contents rb)"
    by (simp add: length_rb_contents word_le_nat_alt not_less)
  then show ?thesis
    by (auto simp: rb_peek_at_def rb_contents_def)
qed

lemma rb_peek_loop_spec:
  assumes "rb_inv rb" "i + n \<le> length d" "i + n \<le> 2 ^ 64"
  shows "rb_peek_loop n i d rb = Inr (i + min n (length (rb_contents rb) - i),
      take i d @ take n (drop i (rb_contents rb)) @ drop (i + min n (length (rb_contents rb) - i)) d)"
  using assms
proof (induction n arbitrary: i d)
  case 0
  then show ?case by simp
next
  case (Suc n)
  have p: "rb_peek_at rb (of_nat i) =
    (if i < length (rb_contents rb) then Some (rb_contents rb ! i) else None)"
    using Suc.prems by (intro rb_peek_at_spec) auto
  show ?case
  proof (cases "i < length (rb_contents rb)")
    case False
    then show ?thesis using p Suc.prems by simp
  next
    case True
    have m: "i + min (Suc n) (length (rb_contents rb) - i)
        = Suc (i + min n (length (rb_contents rb) - Suc i))" using True by linarith
    have t: "take (Suc n) (drop i (rb_contents rb))
        = rb_contents rb ! i # take n (drop (Suc i) (rb_contents rb))"
      using True by (simp add: Cons_nth_drop_Suc[symmetric])
    have d: "take (Suc i) (d[i := rb_contents rb ! i]) = take i d @ [rb_contents rb ! i]"
      using Suc.prems(2) by (simp add: take_Suc_conv_app_nth)
    show ?thesis
      using Suc.IH[of "Suc i" "d[i := rb_contents rb ! i]"] Suc.prems True p t d m by auto
  qed
qed

lemma rb_write_loop_spec:
  assumes "rb_inv rb" "i + n \<le> length d"
  shows "\<exists>rb'. rb_write_loop n i d rb =
      Inr (i + min n (rb_capacity rb - length (rb_contents rb)), rb')
    \<and> rb_inv rb' \<and> rb_capacity rb' = rb_capacity rb
    \<and> rb_contents rb' = rb_contents rb @
        take (min n (rb_capacity rb - length (rb_contents rb))) (drop i d)"
  using assms
proof (induction n arbitrary: i rb)
  case 0
  then show ?case by simp
next
  case (Suc n)
  show ?case
  proof (cases "length (rb_contents rb) < rb_capacity rb")
    case False
    then have "length (rb_contents rb) = rb_capacity rb"
      using rb_length_capacity[OF Suc.prems(1)] by simp
    then show ?thesis using rb_write_byte_full[OF Suc.prems(1)] Suc.prems by simp
  next
    case True
    then obtain rb1 where r: "rb_write_byte (d ! i) rb = Some rb1" "rb_inv rb1"
      "rb_contents rb1 = rb_contents rb @ [d ! i]" "rb_capacity rb1 = rb_capacity rb"
      using rb_write_byte_room[OF Suc.prems(1)] by blast
    let ?m = "rb_capacity rb - length (rb_contents rb)"
    have m: "min (Suc n) ?m = Suc (min n (?m - 1))" using True by simp
    have t: "take (Suc (min n (?m - 1))) (drop i d) = d ! i # take (min n (?m - 1)) (drop (Suc i) d)"
      using Suc.prems(2) by (simp add: Cons_nth_drop_Suc[symmetric])
    show ?thesis
      using Suc.IH[OF r(2), of "Suc i"] Suc.prems(2) r unfolding m t by auto
  qed
qed

lemma rb_write_spec:
  assumes "rb_inv rb" "btw \<le> length d"
  shows "\<exists>rb'. rb_write d btw rb =
      Inr (min btw (rb_capacity rb - length (rb_contents rb)), rb')
    \<and> rb_inv rb' \<and> rb_capacity rb' = rb_capacity rb
    \<and> rb_contents rb' = rb_contents rb @ take (min btw (rb_capacity rb - length (rb_contents rb))) d"
  using rb_write_loop_spec[OF assms(1), of 0 btw d] assms(2) by (simp add: rb_write_def)

section \<open>Construction\<close>

lemma mask_pow2_64: "k < 64 \<Longrightarrow> (mask k :: u64) = 2 ^ k - 1"
  by (simp add: mask_eq_decr_exp)

lemma rb_init_spec:
  assumes "k < 64" "length mem = 2 ^ k"
  shows "rb_inv (rb_init mem (2 ^ k))" "rb_contents (rb_init mem (2 ^ k)) = []"
    "rb_capacity (rb_init mem (2 ^ k)) = 2 ^ k"
  using assms by (auto simp: rb_inv_def rb_init_def ring_ok_def mask_pow2_64 rb_contents_def
      rb_capacity_def unat_pow2)

lemma rb_reset_spec:
  assumes "rb_inv rb"
  shows "rb_inv (rb_reset rb)" "rb_contents (rb_reset rb) = []"
  using assms by (auto simp: rb_inv_def rb_reset_def ring_ok_def rb_contents_def)

section \<open>Properties\<close>


text \<open>A buffer of four bytes whose write index has just wrapped to zero.\<close>

definition rb_example :: "u8 ring_buffer" where
  "rb_example = \<lparr>buffer = [10, 11, 12, 13], size_n = 4, size_mask = 3,
     write_index = 0, read_index = - 2\<rparr>"

lemma rb_example_inv: "rb_inv rb_example"
  by (auto simp: rb_inv_def rb_example_def ring_ok_def mask_numeral intro!: exI[of _ 2])


text \<open>
  ring_buffer_bulk: Write stores exactly as many leading bytes as there is room for and
  reports the number, and a Read of n bytes afterwards returns the first n of
  all stored bytes and leaves the rest, whatever the caller's array held.
\<close>
theorem ring_buffer_bulk:
  assumes "rb_inv rb" "btw \<le> length d" "btr \<le> length buf"
  shows "\<exists>m rb1 rb2. m = min btw (rb_capacity rb - length (rb_contents rb))
    \<and> rb_write d btw rb = Inr (m, rb1)
    \<and> (let all = rb_contents rb @ take m d; k = min btr (length all) in
        rb_read buf btr rb1 = Inr (k, take btr all @ drop k buf, rb2)
        \<and> rb_contents rb2 = drop btr all \<and> rb_inv rb2)"
proof -
  obtain rb1 where 1: "rb_write d btw rb = Inr (min btw (rb_capacity rb - length (rb_contents rb)), rb1)"
    "rb_inv rb1"
    "rb_contents rb1 = rb_contents rb @ take (min btw (rb_capacity rb - length (rb_contents rb))) d"
    using rb_write_spec[OF assms(1,2)] by blast
  show ?thesis using rb_read_spec[OF 1(2) assms(3)] 1 by (auto simp: Let_def)
qed

theorem ring_buffer_bulk_witness:
  "\<exists>m rb1. rb_write [1, 2, 3] 3 rb_example = Inr (m, rb1) \<and> m = 2"
  using ring_buffer_bulk[OF rb_example_inv, of 3 "[1, 2, 3]" 0 "[]"]
  by (auto simp: rb_example_def rb_capacity_def rb_contents_def)

end
