(* ===== verification/Async_Serial.thy ===== *)
theory Async_Serial
  imports Ring_Buffer
begin

text \<open>
  The asynchronous serial port (edge/src/ugv_sdk/src/async_port/async_serial.cpp):
  its transmit path from SendBytes through the ring buffer to the
  overlapped writes, opening and closing, as a state machine.  Every handler of
  the io thread is one operation; the step relation interleaves them with the
  calls of the user's threads.  The device and the asio library are the
  environment: a step carries what they report (how many bytes a write moved,
  whether it failed).

  The buffer handed to async_write_some is a reference to
  tx_buf_, so a pending write is kept as its length, and the bytes are
  read out of tx_buf when it completes.
\<close>

section \<open>State\<close>

record as_state =
  port_opened :: bool
  port_is_open :: bool
  io_joinable :: bool
  io_running :: bool
  tx_in_progress :: bool
  tx_rbuf :: "u8 ring_buffer"
  tx_buf :: "u8 list"
  rd_posted :: nat
  posted :: nat
  in_flight :: "nat list"
  reading :: bool
  cancelled :: nat
  wire :: "u8 list"
  received :: "u8 list list"

text \<open>
  posted and rd_posted count the queued calls of
  WriteToPort(true) and ReadFromPort, in_flight holds
  the lengths of the pending writes, reading a pending read,
  cancelled the handlers of cancelled operations that have not run yet.
  wire is what the device has taken, received the chunks the
  receive callback was given.
\<close>

definition rxtx_buffer_size :: nat where
  "rxtx_buffer_size = 8192"

definition as_init :: "u8 list \<Rightarrow> u8 list \<Rightarrow> as_state" where
  "as_init mem buf = \<lparr>port_opened = False, port_is_open = False, io_joinable = False,
     io_running = False, tx_in_progress = False, tx_rbuf = rb_init mem 8192,
     tx_buf = buf, rd_posted = 0, posted = 0, in_flight = [], reading = False,
     cancelled = 0, wire = [], received = []\<rparr>"

section \<open>Operations\<close>

definition as_write_to_port :: "bool \<Rightarrow> as_state \<Rightarrow> as_state res" where
  "as_write_to_port check_if_busy s =
     (if check_if_busy \<and> tx_in_progress s then Inr s
      else if rb_is_empty (tx_rbuf s) then Inr s
      else bindR (rb_read (tx_buf s) (unat (rb_occupied (tx_rbuf s))) (tx_rbuf s))
        (\<lambda>(len, d, rb). Inr (s\<lparr>tx_in_progress := True, tx_buf := d, tx_rbuf := rb,
                                in_flight := in_flight s @ [len]\<rparr>)))"

text \<open>ndebug says whether assertions are compiled out.\<close>

definition as_send_bytes :: "bool \<Rightarrow> u8 list \<Rightarrow> nat \<Rightarrow> as_state \<Rightarrow> as_state res" where
  "as_send_bytes ndebug bytes len s =
     (if \<not> port_is_open s then Inr s
      else if \<not> ndebug \<and> \<not> len < rxtx_buffer_size then Inl AssertFail
      else if unat (rb_free (tx_rbuf s)) < len then Inl LengthError
      else bindR (rb_write bytes len (tx_rbuf s))
        (\<lambda>(_, rb). Inr (s\<lparr>tx_rbuf := rb, posted := Suc (posted s)\<rparr>)))"

text \<open>
  Close, called by a user's thread or (on_io) by a handler on
  the io thread.  Joining the own thread raises a std::system_error;
  nothing on the io thread catches it.  Cancelling completes the pending
  operations with an error: their handlers wait for the io context to run.
\<close>

definition as_close :: "bool \<Rightarrow> as_state \<Rightarrow> as_state res" where
  "as_close on_io s =
     (if io_joinable s \<and> on_io then Inl Terminate
      else let s1 = s\<lparr>io_running := False, io_joinable := False\<rparr>;
               s2 = (if port_is_open s1
                     then s1\<lparr>cancelled := cancelled s1 + length (in_flight s1)
                               + (if reading s1 then 1 else 0),
                             in_flight := [], reading := False, port_is_open := False\<rparr>
                     else s1)
           in Inr (s2\<lparr>port_opened := False\<rparr>))"

text \<open>What the operating system answers to open and to the options.\<close>

datatype open_result = OpenFails | OptionFails | OpenOk

definition as_open :: "open_result \<Rightarrow> as_state \<Rightarrow> (bool \<times> as_state) res" where
  "as_open r s =
     (if port_is_open s \<or> r = OpenFails then Inr (False, s)
      else if r = OptionFails then Inr (False, s\<lparr>port_is_open := True\<rparr>)
      else if io_joinable s then Inl Terminate
      else Inr (True, s\<lparr>port_is_open := True, port_opened := True,
                         rd_posted := Suc (rd_posted s),
                         io_running := True, io_joinable := True\<rparr>))"

text \<open>The completion handler of a write that moved n bytes.\<close>

definition as_write_done :: "nat \<Rightarrow> as_state \<Rightarrow> as_state res" where
  "as_write_done n s =
     (let s1 = s\<lparr>wire := wire s @ take n (tx_buf s), in_flight := tl (in_flight s)\<rparr> in
      if rb_is_empty (tx_rbuf s1) then Inr (s1\<lparr>tx_in_progress := False\<rparr>)
      else as_write_to_port False s1)"

definition as_write_failed :: "as_state \<Rightarrow> as_state res" where
  "as_write_failed s = as_close True (s\<lparr>in_flight := tl (in_flight s)\<rparr>)"

definition as_read_from_port :: "as_state \<Rightarrow> as_state" where
  "as_read_from_port s = s\<lparr>reading := True\<rparr>"

definition as_read_done :: "u8 list \<Rightarrow> as_state \<Rightarrow> as_state" where
  "as_read_done d s = as_read_from_port (s\<lparr>received := received s @ [d]\<rparr>)"

definition as_read_failed :: "as_state \<Rightarrow> as_state res" where
  "as_read_failed s = as_close True (s\<lparr>reading := False\<rparr>)"

definition as_run_cancelled :: "as_state \<Rightarrow> as_state res" where
  "as_run_cancelled s = as_close True (s\<lparr>cancelled := cancelled s - 1\<rparr>)"

section \<open>Steps\<close>

text \<open>
  The labels name the calls and handlers; a label is enabled where the step
  relation has a rule for it.  Write carries the number of bytes the
  device took.
\<close>

datatype as_label =
    LSend "u8 list" | LPosted | LRdPosted | LWriteDone nat | LWriteFailed
  | LReadDone "u8 list" | LReadFailed | LCancelled | LClose | LOpen open_result

inductive as_step :: "bool \<Rightarrow> as_label \<Rightarrow> as_state \<Rightarrow> as_state res \<Rightarrow> bool" for ndebug where
  step_send: "as_step ndebug (LSend bs) s (as_send_bytes ndebug bs (length bs) s)"
| step_posted: "io_running s \<Longrightarrow> 0 < posted s \<Longrightarrow>
    as_step ndebug LPosted s (as_write_to_port True (s\<lparr>posted := posted s - 1\<rparr>))"
| step_rd_posted: "io_running s \<Longrightarrow> 0 < rd_posted s \<Longrightarrow>
    as_step ndebug LRdPosted s (Inr (as_read_from_port (s\<lparr>rd_posted := rd_posted s - 1\<rparr>)))"
| step_write_done: "io_running s \<Longrightarrow> in_flight s = len # ls \<Longrightarrow> 0 < n \<Longrightarrow> n \<le> len \<Longrightarrow>
    as_step ndebug (LWriteDone n) s (as_write_done n s)"
| step_write_failed: "io_running s \<Longrightarrow> in_flight s \<noteq> [] \<Longrightarrow>
    as_step ndebug LWriteFailed s (as_write_failed s)"
| step_read_done: "io_running s \<Longrightarrow> reading s \<Longrightarrow> d \<noteq> [] \<Longrightarrow> length d \<le> rxtx_buffer_size \<Longrightarrow>
    as_step ndebug (LReadDone d) s (Inr (as_read_done d (s\<lparr>reading := False\<rparr>)))"
| step_read_failed: "io_running s \<Longrightarrow> reading s \<Longrightarrow>
    as_step ndebug LReadFailed s (as_read_failed s)"
| step_cancelled: "io_running s \<Longrightarrow> 0 < cancelled s \<Longrightarrow>
    as_step ndebug LCancelled s (as_run_cancelled s)"
| step_close: "as_step ndebug LClose s (as_close False s)"
| step_open: "as_step ndebug (LOpen r) s (bindR (as_open r s) (\<lambda>(_, s'). Inr s'))"

inductive_cases as_sendE: "as_step ndebug (LSend bs) s r"
inductive_cases as_doneE: "as_step ndebug (LWriteDone n) s r"

text \<open>
  The states reachable from a fresh port.  A call whose exception the caller
  catches (LengthError) leaves the state as it was.
\<close>

inductive as_reach :: "bool \<Rightarrow> as_state \<Rightarrow> bool" for ndebug where
  reach_init: "length mem = rxtx_buffer_size \<Longrightarrow> length buf = rxtx_buffer_size \<Longrightarrow>
    as_reach ndebug (as_init mem buf)"
| reach_step: "as_reach ndebug s \<Longrightarrow> as_step ndebug l s (Inr s') \<Longrightarrow> as_reach ndebug s'"

section \<open>Invariant\<close>

definition as_inv :: "as_state \<Rightarrow> bool" where
  "as_inv s \<longleftrightarrow> rb_inv (tx_rbuf s) \<and> rb_capacity (tx_rbuf s) = rxtx_buffer_size
     \<and> length (tx_buf s) = rxtx_buffer_size
     \<and> length (in_flight s) \<le> 1
     \<and> (\<forall>l \<in> set (in_flight s). l \<le> rxtx_buffer_size)
     \<and> (in_flight s \<noteq> [] \<longrightarrow> tx_in_progress s)
     \<and> (tx_in_progress s \<longrightarrow> in_flight s \<noteq> [] \<or> 0 < cancelled s)
     \<and> (rb_contents (tx_rbuf s) \<noteq> [] \<longrightarrow> 0 < posted s \<or> in_flight s \<noteq> [] \<or> 0 < cancelled s)
     \<and> io_running s = io_joinable s \<and> (io_running s \<longrightarrow> port_is_open s)"

text \<open>What is on the wire, in a pending write and still buffered, in this order.\<close>

definition pending :: "as_state \<Rightarrow> u8 list" where
  "pending s = (if in_flight s = [] then [] else take (hd (in_flight s)) (tx_buf s))"

definition outgoing :: "as_state \<Rightarrow> u8 list" where
  "outgoing s = wire s @ pending s @ rb_contents (tx_rbuf s)"

lemma as_init_inv [inv_intros]:
  "length mem = rxtx_buffer_size \<Longrightarrow> length buf = rxtx_buffer_size \<Longrightarrow> as_inv (as_init mem buf)"
  using rb_init_spec[of 13 mem]
  by (simp add: as_inv_def as_init_def rxtx_buffer_size_def)

lemma as_write_to_port_result:
  assumes "rb_inv (tx_rbuf s)" "rb_capacity (tx_rbuf s) = rxtx_buffer_size"
    "length (tx_buf s) = rxtx_buffer_size" "in_flight s = []" "\<not> (check \<and> tx_in_progress s)"
    "rb_contents (tx_rbuf s) \<noteq> []"
  shows "\<exists>rb d. as_write_to_port check s = Inr (s\<lparr>tx_in_progress := True, tx_buf := d,
        tx_rbuf := rb, in_flight := [length (rb_contents (tx_rbuf s))]\<rparr>)
    \<and> rb_inv rb \<and> rb_contents rb = [] \<and> rb_capacity rb = rxtx_buffer_size
    \<and> length d = rxtx_buffer_size
    \<and> take (length (rb_contents (tx_rbuf s))) d = rb_contents (tx_rbuf s)"
proof -
  have i: "rb_inv (tx_rbuf s)" "length (rb_contents (tx_rbuf s)) \<le> length (tx_buf s)"
    using assms rb_length_capacity[of "tx_rbuf s"] by auto
  obtain rb where r: "rb_read (tx_buf s) (unat (rb_occupied (tx_rbuf s))) (tx_rbuf s) =
      Inr (length (rb_contents (tx_rbuf s)),
        rb_contents (tx_rbuf s) @ drop (length (rb_contents (tx_rbuf s))) (tx_buf s), rb)"
    "rb_inv rb" "rb_contents rb = []" "rb_capacity rb = rb_capacity (tx_rbuf s)"
    using rb_read_spec[OF i] by (auto simp: length_rb_contents)
  show ?thesis
    using assms r i
    by (intro exI[of _ rb] exI[of _ "rb_contents (tx_rbuf s) @
          drop (length (rb_contents (tx_rbuf s))) (tx_buf s)"])
      (auto simp: as_write_to_port_def rb_empty_iff)
qed

lemma as_write_to_port_idle:
  "check \<and> tx_in_progress s \<or> rb_contents (tx_rbuf s) = [] \<Longrightarrow> as_write_to_port check s = Inr s"
  by (auto simp: as_write_to_port_def rb_empty_iff)

lemma as_send_result:
  assumes "as_inv s" "as_send_bytes ndebug bs (length bs) s = Inr s'"
  shows "if port_is_open s
    then \<exists>rb. s' = s\<lparr>tx_rbuf := rb, posted := Suc (posted s)\<rparr> \<and> rb_inv rb
      \<and> rb_capacity rb = rxtx_buffer_size \<and> rb_contents rb = rb_contents (tx_rbuf s) @ bs
    else s' = s"
proof (cases "port_is_open s")
  case True
  have i: "rb_inv (tx_rbuf s)" "rb_capacity (tx_rbuf s) = rxtx_buffer_size"
    using assms(1) by (auto simp: as_inv_def)
  have room: "length bs \<le> rb_capacity (tx_rbuf s) - length (rb_contents (tx_rbuf s))"
    using assms(2) True rb_free_spec[OF i(1)]
    by (auto simp: as_send_bytes_def split: if_splits)
  obtain rb where "rb_write bs (length bs) (tx_rbuf s) = Inr (length bs, rb)" "rb_inv rb"
      "rb_capacity rb = rb_capacity (tx_rbuf s)" "rb_contents rb = rb_contents (tx_rbuf s) @ bs"
    using rb_write_spec[OF i(1), of "length bs" bs] room by (auto simp: min_absorb1)
  then show ?thesis using True assms(2) i(2)
    by (auto simp: as_send_bytes_def split: if_splits)
next
  case False
  then show ?thesis using assms(2) by (simp add: as_send_bytes_def)
qed

lemma as_write_done_result:
  assumes "as_inv s" "in_flight s = len # ls" "as_write_done n s = Inr s'"
  shows "as_inv s'" "outgoing s' = wire s @ take n (tx_buf s) @ rb_contents (tx_rbuf s)"
    "wire s' = wire s @ take n (tx_buf s)"
proof -
  have ls: "ls = []" using assms by (simp add: as_inv_def)
  let ?s1 = "s\<lparr>wire := wire s @ take n (tx_buf s), in_flight := []\<rparr>"
  show "as_inv s'" "outgoing s' = wire s @ take n (tx_buf s) @ rb_contents (tx_rbuf s)"
    "wire s' = wire s @ take n (tx_buf s)"
  proof (atomize (full), cases "rb_contents (tx_rbuf s) = []")
    case True
    then have "s' = ?s1\<lparr>tx_in_progress := False\<rparr>"
      using assms(2,3) ls by (simp add: as_write_done_def rb_empty_iff)
    then show "as_inv s' \<and> outgoing s' = wire s @ take n (tx_buf s) @ rb_contents (tx_rbuf s)
      \<and> wire s' = wire s @ take n (tx_buf s)"
      using assms(1,2) ls True by (simp add: as_inv_def outgoing_def pending_def)
  next
    case False
    have w: "as_write_to_port False ?s1 = Inr s'"
      using assms(2,3) ls False by (simp add: as_write_done_def rb_empty_iff Let_def)
    have "\<exists>rb d. as_write_to_port False ?s1 = Inr (?s1\<lparr>tx_in_progress := True, tx_buf := d,
        tx_rbuf := rb, in_flight := [length (rb_contents (tx_rbuf ?s1))]\<rparr>)
      \<and> rb_inv rb \<and> rb_contents rb = [] \<and> rb_capacity rb = rxtx_buffer_size
      \<and> length d = rxtx_buffer_size
      \<and> take (length (rb_contents (tx_rbuf ?s1))) d = rb_contents (tx_rbuf ?s1)"
      using assms(1) False by (intro as_write_to_port_result) (simp_all add: as_inv_def)
    then obtain rb d where e: "s' = ?s1\<lparr>tx_in_progress := True, tx_buf := d,
        tx_rbuf := rb, in_flight := [length (rb_contents (tx_rbuf ?s1))]\<rparr>"
      and r: "rb_inv rb" "rb_contents rb = []" "rb_capacity rb = rxtx_buffer_size"
        "length d = rxtx_buffer_size"
        "take (length (rb_contents (tx_rbuf s))) d = rb_contents (tx_rbuf s)"
      using w by auto
    show "as_inv s' \<and> outgoing s' = wire s @ take n (tx_buf s) @ rb_contents (tx_rbuf s)
      \<and> wire s' = wire s @ take n (tx_buf s)"
      using assms(1,2) r rb_length_capacity[of "tx_rbuf s"] unfolding e
      by (simp add: as_inv_def outgoing_def pending_def)
  qed
qed

lemma as_posted_result:
  assumes "as_inv s" "0 < posted s"
    "as_write_to_port True (s\<lparr>posted := posted s - 1\<rparr>) = Inr s'"
  shows "as_inv s'" "outgoing s' = outgoing s" "wire s' = wire s"
proof -
  let ?s1 = "s\<lparr>posted := posted s - 1\<rparr>"
  show "as_inv s'" "outgoing s' = outgoing s" "wire s' = wire s"
  proof (atomize (full), cases "tx_in_progress s \<or> rb_contents (tx_rbuf s) = []")
    case True
    then have e: "?s1 = s'" using assms(3) as_write_to_port_idle[of True ?s1] by simp
    have "rb_contents (tx_rbuf s) \<noteq> [] \<Longrightarrow> in_flight s \<noteq> [] \<or> 0 < cancelled s"
      using True assms(1) unfolding as_inv_def by metis
    then show "as_inv s' \<and> outgoing s' = outgoing s \<and> wire s' = wire s"
      using assms(1) unfolding e[symmetric]
      by (simp add: as_inv_def outgoing_def pending_def)
  next
    case False
    have nf: "in_flight s = []" using assms(1) False by (auto simp: as_inv_def)
    then obtain rb d where e: "s' = ?s1\<lparr>tx_in_progress := True, tx_buf := d,
        tx_rbuf := rb, in_flight := [length (rb_contents (tx_rbuf s))]\<rparr>"
      and r: "rb_inv rb" "rb_contents rb = []" "rb_capacity rb = rxtx_buffer_size"
        "length d = rxtx_buffer_size"
        "take (length (rb_contents (tx_rbuf s))) d = rb_contents (tx_rbuf s)"
      using as_write_to_port_result[of ?s1 True] assms(1,3) False
      unfolding as_inv_def by force
    show "as_inv s' \<and> outgoing s' = outgoing s \<and> wire s' = wire s"
      using assms(1) nf r rb_length_capacity[of "tx_rbuf s"] unfolding e
      by (simp add: as_inv_def outgoing_def pending_def)
  qed
qed

lemma as_send_inv [inv_intros]:
  assumes "as_inv s" "as_send_bytes ndebug bs (length bs) s = Inr s'"
  shows "as_inv s'"
proof (cases "port_is_open s")
  case True
  then obtain rb where e: "s' = s\<lparr>tx_rbuf := rb, posted := Suc (posted s)\<rparr>"
    and rb: "rb_inv rb" "rb_capacity rb = rxtx_buffer_size"
    using as_send_result[OF assms] by auto
  show ?thesis using assms(1) rb unfolding e as_inv_def by simp
next
  case False
  then show ?thesis using as_send_result[OF assms] assms(1) by simp
qed

lemma as_send_outgoing:
  assumes "as_inv s" "as_send_bytes ndebug bs (length bs) s = Inr s'"
  shows "outgoing s' = outgoing s @ (if port_is_open s then bs else [])"
proof (cases "port_is_open s")
  case True
  then obtain rb where e: "s' = s\<lparr>tx_rbuf := rb, posted := Suc (posted s)\<rparr>"
    and rb: "rb_contents rb = rb_contents (tx_rbuf s) @ bs"
    using as_send_result[OF assms] by auto
  show ?thesis using True rb unfolding e by (simp add: outgoing_def pending_def)
next
  case False
  then show ?thesis using as_send_result[OF assms] by simp
qed

lemma as_close_user:
  "as_close False s = Inr (if port_is_open s
     then s\<lparr>io_running := False, io_joinable := False,
            cancelled := cancelled s + length (in_flight s) + (if reading s then 1 else 0),
            in_flight := [], reading := False, port_is_open := False, port_opened := False\<rparr>
     else s\<lparr>io_running := False, io_joinable := False, port_opened := False\<rparr>)"
  by (simp add: as_close_def)

lemma as_close_inv [inv_intros]:
  assumes "as_inv s" "as_close False s = Inr s'"
  shows "as_inv s'"
proof (cases "port_is_open s")
  case True
  show ?thesis
    using assms(1) True unfolding assms(2)[unfolded as_close_user, simplified True, simplified, symmetric]
    by (cases "in_flight s") (simp_all add: as_inv_def)
next
  case False
  show ?thesis
    using assms(1) False unfolding assms(2)[unfolded as_close_user, simplified False, simplified, symmetric]
    by (simp add: as_inv_def)
qed

lemma as_open_cases:
  assumes "as_open r s = Inr (b, s')"
  obtains "s' = s" | "s' = s\<lparr>port_is_open := True\<rparr>" "\<not> port_is_open s"
  | "s' = s\<lparr>port_is_open := True, port_opened := True, rd_posted := Suc (rd_posted s),
            io_running := True, io_joinable := True\<rparr>"
proof -
  consider "port_is_open s \<or> r = OpenFails" | "\<not> port_is_open s" "r = OptionFails"
    | "\<not> port_is_open s" "r = OpenOk" by (cases r) auto
  then show ?thesis
  proof cases
    case 1
    then show ?thesis using assms that(1) by (simp add: as_open_def)
  next
    case 2
    then show ?thesis using assms that(2) by (simp add: as_open_def)
  next
    case 3
    then show ?thesis using assms that(3) by (cases "io_joinable s") (simp_all add: as_open_def)
  qed
qed

lemma as_open_inv [inv_intros]:
  assumes "as_inv s" "as_open r s = Inr (b, s')"
  shows "as_inv s'"
  using assms(2)
proof (cases rule: as_open_cases)
  case 2
  show ?thesis using assms(1) unfolding 2(1) by (simp add: as_inv_def)
next
  case 3
  show ?thesis using assms(1) unfolding 3 by (simp add: as_inv_def)
qed (use assms(1) in simp)

lemma as_open_outgoing:
  assumes "as_open r s = Inr (b, s')"
  shows "outgoing s' = outgoing s"
  using assms by (cases rule: as_open_cases) (simp_all add: outgoing_def pending_def)

text \<open>On the io thread every close ends the program.\<close>

lemma as_failed_terminates:
  assumes "as_inv s" "io_running s"
  shows "as_write_failed s = Inl Terminate" "as_read_failed s = Inl Terminate"
    "as_run_cancelled s = Inl Terminate"
  using assms by (simp_all add: as_write_failed_def as_read_failed_def as_run_cancelled_def
      as_close_def as_inv_def)

lemma as_step_inv [inv_intros]:
  assumes "as_inv s" "as_step ndebug l s (Inr s')"
  shows "as_inv s'"
  using assms(2)
proof (cases rule: as_step.cases)
  case (step_send bs)
  then show ?thesis using as_send_inv[OF assms(1)] by metis
next
  case step_posted
  then show ?thesis using as_posted_result[OF assms(1)] by metis
next
  case step_rd_posted
  then show ?thesis using assms(1) by (simp add: as_inv_def as_read_from_port_def)
next
  case (step_write_done len ls n)
  then show ?thesis using as_write_done_result[OF assms(1)] by metis
next
  case step_write_failed
  then show ?thesis using as_failed_terminates(1)[OF assms(1)] by simp
next
  case (step_read_done d)
  then show ?thesis using assms(1) by (simp add: as_inv_def as_read_done_def as_read_from_port_def)
next
  case step_read_failed
  then show ?thesis using as_failed_terminates(2)[OF assms(1)] by simp
next
  case step_cancelled
  then show ?thesis using as_failed_terminates(3)[OF assms(1)] by simp
next
  case step_close
  then show ?thesis using as_close_inv[OF assms(1)] by metis
next
  case (step_open r)
  then obtain b where "as_open r s = Inr (b, s')" by (cases "as_open r s") auto
  then show ?thesis by (rule as_open_inv[OF assms(1)])
qed

lemma as_reach_inv: "as_reach ndebug s \<Longrightarrow> as_inv s"
  by (induction rule: as_reach.induct) (auto intro: inv_intros)

section \<open>Runs without lost bytes\<close>

text \<open>
  A run is lossless if every write moves all its bytes and nobody closes the
  port; acc collects what SendBytes accepted.
\<close>

inductive as_run :: "bool \<Rightarrow> as_state \<Rightarrow> u8 list \<Rightarrow> as_state \<Rightarrow> bool" for ndebug s0 where
  run_refl: "as_run ndebug s0 [] s0"
| run_send: "as_run ndebug s0 acc s \<Longrightarrow> as_step ndebug (LSend bs) s (Inr s') \<Longrightarrow>
    as_run ndebug s0 (acc @ (if port_is_open s then bs else [])) s'"
| run_done: "as_run ndebug s0 acc s \<Longrightarrow> as_step ndebug (LWriteDone n) s (Inr s') \<Longrightarrow>
    n = hd (in_flight s) \<Longrightarrow> as_run ndebug s0 acc s'"
| run_other: "as_run ndebug s0 acc s \<Longrightarrow> as_step ndebug l s (Inr s') \<Longrightarrow>
    l \<in> {LPosted, LRdPosted, LOpen r, LReadDone d} \<Longrightarrow> as_run ndebug s0 acc s'"

lemma as_other_outgoing:
  assumes "as_inv s" "as_step ndebug l s (Inr s')" "l \<in> {LPosted, LRdPosted, LOpen r, LReadDone d}"
  shows "outgoing s' = outgoing s"
  using assms(2)
proof (cases rule: as_step.cases)
  case step_posted
  then show ?thesis using as_posted_result[OF assms(1)] by metis
next
  case (step_open r)
  then obtain b where "as_open r s = Inr (b, s')" by (cases "as_open r s") auto
  then show ?thesis by (rule as_open_outgoing)
qed (use assms(3) in \<open>auto simp: outgoing_def pending_def as_read_done_def as_read_from_port_def\<close>)

lemma as_write_to_port_cancelled:
  "as_write_to_port c s = Inr s' \<Longrightarrow> cancelled s' = cancelled s"
  by (auto simp: as_write_to_port_def bindR_eq_Inr split: if_splits)

lemma as_step_cancelled:
  assumes "as_inv s" "as_step ndebug l s (Inr s')" "l \<noteq> LClose"
  shows "cancelled s' = cancelled s"
  using assms(2)
proof (cases rule: as_step.cases)
  case (step_send bs)
  then show ?thesis using as_send_result[OF assms(1), of ndebug bs s']
    by (cases "port_is_open s") auto
next
  case step_posted
  then show ?thesis using as_write_to_port_cancelled[of True "s\<lparr>posted := posted s - 1\<rparr>" s'] by simp
next
  case (step_write_done len ls n)
  then show ?thesis
    using as_write_to_port_cancelled[of False
        "s\<lparr>wire := wire s @ take n (tx_buf s), in_flight := tl (in_flight s)\<rparr>" s']
    by (cases "rb_is_empty (tx_rbuf s)") (simp_all add: as_write_done_def)
next
  case (step_open r)
  then obtain b where "as_open r s = Inr (b, s')" by (cases "as_open r s") auto
  then show ?thesis by (cases rule: as_open_cases) simp_all
qed (use assms as_failed_terminates[OF assms(1)] in
  \<open>simp_all add: as_read_from_port_def as_read_done_def\<close>)

lemma as_run_outgoing:
  assumes "as_run ndebug s0 acc s" "as_inv s0"
  shows "as_inv s \<and> outgoing s = outgoing s0 @ acc \<and> cancelled s = cancelled s0"
  using assms
proof (induction rule: as_run.induct)
  case run_refl
  then show ?case by simp
next
  case (run_send acc s bs s')
  then have i: "as_inv s" "outgoing s = outgoing s0 @ acc" by auto
  from run_send(2) have "as_send_bytes ndebug bs (length bs) s = Inr s'"
    by (auto elim: as_sendE)
  then show ?case using i as_send_inv as_send_outgoing run_send as_step_cancelled by auto
next
  case (run_done acc s n s')
  then have i: "as_inv s" "outgoing s = outgoing s0 @ acc" by auto
  from run_done(2) obtain len ls where "in_flight s = len # ls" "as_write_done n s = Inr s'"
    by (auto elim: as_doneE)
  then show ?case
    using i as_write_done_result[OF i(1)] run_done as_step_cancelled[OF i(1) run_done(2)]
    by (auto simp: outgoing_def pending_def)
next
  case (run_other acc s l s' r d)
  then show ?case using as_step_inv as_other_outgoing as_step_cancelled
    by (metis as_label.distinct(15) as_label.simps insert_iff empty_iff)
qed

section \<open>Properties\<close>

text \<open>
  C4 serial_delivery: in every run from a fresh port in which the port is not closed and
  every write moves all the bytes it was given, the bytes on the wire, in the
  pending write and in the ring buffer are in this order exactly the bytes
  SendBytes accepted; and whenever no posted call and no write is pending,
  all of them are on the wire, so no interleaving of posts and completions
  strands bytes in the buffer.
\<close>
theorem serial_delivery:
  assumes "length mem = rxtx_buffer_size" "length buf = rxtx_buffer_size"
    "as_run ndebug (as_init mem buf) acc s"
  shows "wire s @ pending s @ rb_contents (tx_rbuf s) = acc
    \<and> (posted s = 0 \<and> in_flight s = [] \<longrightarrow> wire s = acc)"
proof -
  have i: "as_inv s" "outgoing s = acc" "cancelled s = 0"
    using as_run_outgoing[OF assms(3) as_init_inv[OF assms(1,2)]] rb_init_spec[of 13 mem] assms(1)
    by (simp_all add: outgoing_def pending_def as_init_def rxtx_buffer_size_def)
  then show ?thesis by (auto simp: outgoing_def pending_def as_inv_def)
qed

definition as_opened :: "as_state" where
  "as_opened = (as_init (replicate 8192 0) (replicate 8192 0))\<lparr>port_is_open := True,
     port_opened := True, rd_posted := 1, io_running := True, io_joinable := True\<rparr>"

lemma as_opened_run:
  "as_run True (as_init (replicate 8192 0) (replicate 8192 0)) [] as_opened"
proof -
  have "as_step True (LOpen OpenOk) (as_init (replicate 8192 0) (replicate 8192 0)) (Inr as_opened)"
    using step_open[of True OpenOk "as_init (replicate 8192 0) (replicate 8192 0)"]
    by (simp add: as_open_def as_opened_def as_init_def)
  then show ?thesis by (rule run_other[OF run_refl]) auto
qed

lemma as_opened_inv: "as_inv as_opened" "rb_contents (tx_rbuf as_opened) = []"
proof -
  show "as_inv as_opened"
    using as_run_outgoing[OF as_opened_run as_init_inv] by (simp add: rxtx_buffer_size_def)
  show "rb_contents (tx_rbuf as_opened) = []"
    using rb_init_spec(2)[of 13 "replicate 8192 (0 :: u8)"]
    by (simp add: as_opened_def as_init_def)
qed

lemma as_opened_send:
  "\<exists>rb. as_step True (LSend [1, 2, 3]) as_opened (Inr (as_opened\<lparr>tx_rbuf := rb, posted := 1\<rparr>))
     \<and> rb_contents rb = [1, 2, 3]"
proof -
  have r: "rb_inv (tx_rbuf as_opened)" "rb_capacity (tx_rbuf as_opened) = 8192"
    using as_opened_inv(1) by (simp_all add: as_inv_def rxtx_buffer_size_def)
  then have "unat (rb_free (tx_rbuf as_opened)) = 8192"
    using rb_free_spec[of "tx_rbuf as_opened"] as_opened_inv(2) by simp
  moreover obtain rb where "rb_write [1, 2, 3] 3 (tx_rbuf as_opened) = Inr (3, rb)"
      "rb_contents rb = [1, 2, 3]"
    using rb_write_spec[OF r(1), of 3 "[1, 2, 3]"] r(2) as_opened_inv(2) by auto
  moreover have "port_is_open as_opened" "posted as_opened = 0"
    by (simp_all add: as_opened_def as_init_def)
  ultimately have "as_send_bytes True [1, 2, 3] 3 as_opened =
      Inr (as_opened\<lparr>tx_rbuf := rb, posted := 1\<rparr>)"
    by (simp add: as_send_bytes_def)
  then show ?thesis
    using step_send[of True "[1, 2, 3]" as_opened] \<open>rb_contents rb = [1, 2, 3]\<close>
    by (intro exI[of _ rb]) (simp add: eval_nat_numeral)
qed

lemma as_opened_run_send:
  "\<exists>s. as_run True (as_init (replicate 8192 0) (replicate 8192 0)) [1, 2, 3] s"
  using as_opened_send run_send[OF as_opened_run, of "[1, 2, 3]"]
  by (auto simp: as_opened_def)

theorem serial_delivery_witness:
  "\<exists>s. wire s @ pending s @ rb_contents (tx_rbuf s) = [1, 2, 3]"
  using as_opened_run_send serial_delivery[of "replicate 8192 0" "replicate 8192 0" True "[1, 2, 3]"]
  by (auto simp: rxtx_buffer_size_def)

text \<open>
  serial_partial_write: if the device takes only n of the bytes of a write, the remaining
  bytes of that write are dropped: the wire is continued with the bytes that
  were still in the ring buffer.
\<close>
theorem serial_partial_write:
  assumes "as_reach ndebug s" "as_step ndebug (LWriteDone n) s (Inr s')"
  shows "wire s' = wire s @ take n (pending s)
    \<and> outgoing s' = wire s @ take n (pending s) @ rb_contents (tx_rbuf s)
    \<and> length (outgoing s') + (length (pending s) - n) = length (outgoing s)"
proof -
  have i: "as_inv s" by (rule as_reach_inv[OF assms(1)])
  obtain len ls where d: "in_flight s = len # ls" "n \<le> len" "as_write_done n s = Inr s'"
    using assms(2) by (auto elim: as_doneE)
  have "take n (tx_buf s) = take n (pending s)" using d by (simp add: pending_def)
  moreover have "length (pending s) = len" using d i by (simp add: pending_def as_inv_def)
  ultimately show ?thesis using as_write_done_result[OF i d(1,3)] d(2)
    by (simp add: outgoing_def)
qed

text \<open>A reachable state with a write of three bytes pending, of which the device takes one.\<close>

lemma as_writing_reach:
  "\<exists>s s'. as_reach True s \<and> in_flight s = [3] \<and> pending s = [1, 2, 3] \<and> io_running s
     \<and> rb_contents (tx_rbuf s) = [] \<and> wire s = [] \<and> as_step True (LWriteDone 1) s (Inr s')"
proof -
  obtain rb where st: "as_step True (LSend [1, 2, 3]) as_opened
      (Inr (as_opened\<lparr>tx_rbuf := rb, posted := 1\<rparr>))" and c: "rb_contents rb = [1, 2, 3]"
    using as_opened_send by blast
  let ?s = "as_opened\<lparr>tx_rbuf := rb, posted := 1\<rparr>"
  have r0: "as_reach True (as_init (replicate 8192 0) (replicate 8192 0))"
    by (rule reach_init) (simp_all add: rxtx_buffer_size_def)
  have "as_reach True as_opened"
    by (rule reach_step[OF r0, of "LOpen OpenOk"])
      (use step_open[of True OpenOk "as_init (replicate 8192 0) (replicate 8192 0)"] in
        \<open>simp add: as_open_def as_opened_def as_init_def\<close>)
  then have r1: "as_reach True ?s" by (rule reach_step[OF _ st])
  have i: "rb_inv rb" "rb_capacity rb = rxtx_buffer_size"
    using as_reach_inv[OF r1] by (simp_all add: as_inv_def)
  have o: "in_flight as_opened = []" "\<not> tx_in_progress as_opened" "io_running as_opened"
      "length (tx_buf as_opened) = rxtx_buffer_size" "wire as_opened = []"
    by (simp_all add: as_opened_def as_init_def rxtx_buffer_size_def)
  let ?s1 = "?s\<lparr>posted := posted ?s - 1\<rparr>"
  have "\<exists>rb2 d. as_write_to_port True ?s1 = Inr (?s1\<lparr>tx_in_progress := True, tx_buf := d,
        tx_rbuf := rb2, in_flight := [length (rb_contents (tx_rbuf ?s1))]\<rparr>)
    \<and> rb_inv rb2 \<and> rb_contents rb2 = [] \<and> rb_capacity rb2 = rxtx_buffer_size
    \<and> length d = rxtx_buffer_size
    \<and> take (length (rb_contents (tx_rbuf ?s1))) d = rb_contents (tx_rbuf ?s1)"
    by (rule as_write_to_port_result) (simp_all add: i c o)
  then obtain rb2 d where w: "as_write_to_port True ?s1 =
      Inr (as_opened\<lparr>posted := 0, tx_in_progress := True, tx_buf := d, tx_rbuf := rb2, in_flight := [3]\<rparr>)"
      "rb_contents rb2 = []" "take 3 d = [1, 2, 3]"
    by (auto simp: c numeral_3_eq_3)
  let ?s2 = "as_opened\<lparr>posted := 0, tx_in_progress := True, tx_buf := d, tx_rbuf := rb2, in_flight := [3]\<rparr>"
  have "as_step True LPosted ?s (Inr ?s2)"
    using step_posted[of ?s True] unfolding w(1) by (simp add: o)
  then have r2: "as_reach True ?s2" by (rule reach_step[OF r1])
  moreover have "\<exists>s'. as_step True (LWriteDone 1) ?s2 (Inr s')"
    using step_write_done[of ?s2 3 "[]" 1 True] w(2)
    by (simp add: as_write_done_def rb_empty_iff o) blast
  moreover have "pending ?s2 = [1, 2, 3]" using w(3) by (simp add: pending_def)
  moreover have "in_flight ?s2 = [3]" "io_running ?s2" "rb_contents (tx_rbuf ?s2) = []" "wire ?s2 = []"
    using w(2) o by simp_all
  ultimately show ?thesis by blast
qed

theorem serial_partial_write_witness:
  "\<exists>s s'. outgoing s = [1, 2, 3] \<and> wire s' = [1] \<and> outgoing s' = [1]"
proof -
  obtain s s' where s: "as_reach True s" "in_flight s = [3]" "pending s = [1, 2, 3]"
    "rb_contents (tx_rbuf s) = []" "as_step True (LWriteDone 1) s (Inr s')" "wire s = []"
    using as_writing_reach by blast
  have "outgoing s = [1, 2, 3]" using s by (simp add: outgoing_def)
  moreover have "wire s' = [1] \<and> outgoing s' = [1]"
    using serial_partial_write[OF s(1,5)] s(3,4,6) by simp
  ultimately show ?thesis by blast
qed

text \<open>
  serial_io_error_terminates: once the port has been opened, an error reported to a handler of the
  io thread (a failed write, a failed read, or an operation cancelled by an
  earlier Close whose handler runs after the port was opened again) makes
  the handler call Close, which joins the thread it runs on: the resulting
  exception ends the program, in every reachable state.
\<close>
theorem serial_io_error_terminates:
  assumes "as_reach ndebug s" "as_step ndebug l s r" "l \<in> {LWriteFailed, LReadFailed, LCancelled}"
  shows "r = Inl Terminate"
  using assms(2,3) as_failed_terminates[OF as_reach_inv[OF assms(1)]]
  by (cases rule: as_step.cases) auto

theorem serial_io_error_terminates_witness:
  "\<exists>s. as_step True LWriteFailed s (Inl Terminate)"
proof -
  obtain s where s: "as_reach True s" "in_flight s = [3]" "io_running s"
    using as_writing_reach by blast
  have "as_step True LWriteFailed s (as_write_failed s)"
    by (rule step_write_failed) (use s in simp_all)
  then show ?thesis using serial_io_error_terminates[OF s(1)] by fastforce
qed

end
