(* ===== verification/Floats.thy ===== *)
theory Floats
  imports Prelude
begin

text \<open>
  The floating-point types of the program.  A value is a rational number, an
  infinity or not-a-number; an operation computes exactly and rounds the result
  to the nearest number of the format, ties to even, as IEEE 754 prescribes and
  the C++ code inherits.  The sign of zero is not kept (no modelled code reads
  it).  f32 rounds to the single format (24 significant bits, exponents
  -126 to 127), f64 to the double format (53 bits, -1022 to 1023).
  Conversions to integers truncate and are undefined out of range, as in the
  C++ standard.
\<close>

section \<open>Rounding\<close>

definition ilog2 :: "rat \<Rightarrow> int" where
  "ilog2 x = (case quotient_of x of (n, d) \<Rightarrow>
     let k = bitlen n - bitlen d in
     if 2 powi k \<le> x then k else k - 1)"

definition rne :: "rat \<Rightarrow> int" where
  "rne y = (let f = \<lfloor>y\<rfloor>; r = y - of_int f in
     if r < 1 / 2 then f else if r > 1 / 2 then f + 1
     else if even f then f else f + 1)"

definition ulp :: "int \<Rightarrow> int \<Rightarrow> rat \<Rightarrow> rat" where
  "ulp p emin x = 2 powi (max (ilog2 \<bar>x\<bar>) emin - p + 1)"

definition rnd :: "int \<Rightarrow> int \<Rightarrow> rat \<Rightarrow> rat" where
  "rnd p emin x = (if x = 0 then 0 else ulp p emin x * of_int (rne (x / ulp p emin x)))"

section \<open>Values and operations\<close>

datatype fp = Fin rat | PInf | MInf | NaN

text \<open>A rounded value whose exponent exceeds emax overflows to an infinity.\<close>

definition fp_of :: "int \<Rightarrow> int \<Rightarrow> int \<Rightarrow> rat \<Rightarrow> fp" where
  "fp_of p emin emax x = (let y = rnd p emin x in
     if y = 0 then Fin 0 else if ilog2 \<bar>y\<bar> \<le> emax then Fin y
     else if 0 < y then PInf else MInf)"

definition f32 :: "rat \<Rightarrow> fp" where "f32 x = fp_of 24 (-126) 127 x"
definition f64 :: "rat \<Rightarrow> fp" where "f64 x = fp_of 53 (-1022) 1023 x"

definition fp_neg :: "fp \<Rightarrow> fp" where
  "fp_neg a = (case a of Fin x \<Rightarrow> Fin (- x) | PInf \<Rightarrow> MInf | MInf \<Rightarrow> PInf | NaN \<Rightarrow> NaN)"

definition fp_pos :: "fp \<Rightarrow> bool" where
  "fp_pos a = (case a of Fin x \<Rightarrow> 0 < x | PInf \<Rightarrow> True | _ \<Rightarrow> False)"

definition fp_isneg :: "fp \<Rightarrow> bool" where
  "fp_isneg a = (case a of Fin x \<Rightarrow> x < 0 | MInf \<Rightarrow> True | _ \<Rightarrow> False)"

text \<open>Addition, multiplication and division in a format, given by its rounding.\<close>

fun fp_add :: "(rat \<Rightarrow> fp) \<Rightarrow> fp \<Rightarrow> fp \<Rightarrow> fp" where
  "fp_add r (Fin x) (Fin y) = r (x + y)"
| "fp_add r NaN b = NaN"
| "fp_add r a NaN = NaN"
| "fp_add r PInf MInf = NaN"
| "fp_add r MInf PInf = NaN"
| "fp_add r PInf b = PInf"
| "fp_add r MInf b = MInf"
| "fp_add r (Fin x) b = b"

definition inf_mul :: "fp \<Rightarrow> fp \<Rightarrow> fp" where
  "inf_mul a b = (if fp_pos a \<and> fp_pos b \<or> fp_isneg a \<and> fp_isneg b then PInf
     else if fp_pos a \<and> fp_isneg b \<or> fp_isneg a \<and> fp_pos b then MInf else NaN)"

fun fp_mul :: "(rat \<Rightarrow> fp) \<Rightarrow> fp \<Rightarrow> fp \<Rightarrow> fp" where
  "fp_mul r (Fin x) (Fin y) = r (x * y)"
| "fp_mul r a b = inf_mul a b"

fun fp_div :: "(rat \<Rightarrow> fp) \<Rightarrow> fp \<Rightarrow> fp \<Rightarrow> fp" where
  "fp_div r (Fin x) (Fin y) = (if y = 0 then
      (if 0 < x then PInf else if x < 0 then MInf else NaN) else r (x / y))"
| "fp_div r (Fin x) NaN = NaN"
| "fp_div r (Fin x) b = Fin 0"
| "fp_div r PInf (Fin y) = (if y < 0 then MInf else PInf)"
| "fp_div r MInf (Fin y) = (if y < 0 then PInf else MInf)"
| "fp_div r a b = NaN"

text \<open>Comparisons are false on not-a-number.\<close>

fun fp_lt :: "fp \<Rightarrow> fp \<Rightarrow> bool" where
  "fp_lt (Fin x) (Fin y) = (x < y)"
| "fp_lt NaN b = False"
| "fp_lt a NaN = False"
| "fp_lt MInf b = (b \<noteq> MInf)"
| "fp_lt a PInf = (a \<noteq> PInf)"
| "fp_lt a b = False"

definition fp_le :: "fp \<Rightarrow> fp \<Rightarrow> bool" where
  "fp_le a b \<longleftrightarrow> fp_lt a b \<or> a = b \<and> a \<noteq> NaN"

text \<open>A double stored into a float; the way back is exact.\<close>

definition to_f32 :: "fp \<Rightarrow> fp" where
  "to_f32 a = (case a of Fin x \<Rightarrow> f32 x | _ \<Rightarrow> a)"

text \<open>Truncating conversion to a signed or an unsigned integer of the given width.\<close>

definition rat_trunc :: "rat \<Rightarrow> int" where
  "rat_trunc x = (if 0 \<le> x then \<lfloor>x\<rfloor> else - \<lfloor>- x\<rfloor>)"

definition fp_to_signed :: "fp \<Rightarrow> ('w::len) word res" where
  "fp_to_signed a = (case a of
     Fin x \<Rightarrow> (let t = rat_trunc x in
       if - (2 ^ (LENGTH('w) - 1)) \<le> t \<and> t < 2 ^ (LENGTH('w) - 1)
       then Inr (word_of_int t) else Inl Undefined)
   | _ \<Rightarrow> Inl Undefined)"

definition fp_to_unsigned :: "fp \<Rightarrow> ('w::len) word res" where
  "fp_to_unsigned a = (case a of
     Fin x \<Rightarrow> (let t = rat_trunc x in
       if 0 \<le> t \<and> t < 2 ^ LENGTH('w) then Inr (word_of_int t) else Inl Undefined)
   | _ \<Rightarrow> Inl Undefined)"

section \<open>The exponent of a positive number\<close>

lemma powi_add_2: "(2::rat) powi (a + b) = 2 powi a * 2 powi b"
  by (simp add: power_int_add)

lemma powi_nat_2: "0 \<le> k \<Longrightarrow> (2::rat) powi k = 2 ^ nat k"
  by (simp add: power_int_def)

lemma bitlen_rat_bounds:
  assumes "0 < n"
  shows "2 powi (bitlen n - 1) \<le> (of_int n :: rat)" "(of_int n :: rat) < 2 powi bitlen n"
proof -
  have b: "2 ^ nat (bitlen n - 1) \<le> n" "n < 2 ^ nat (bitlen n)"
    using bitlen_bounds[OF assms] by simp_all
  have "bitlen n \<noteq> 0" using b(2) assms by (intro notI) simp
  then have b3: "0 < bitlen n" using bitlen_nonneg[of n] by linarith
  show "2 powi (bitlen n - 1) \<le> (of_int n :: rat)"
    using b(1) b3 of_int_le_iff[of "2 ^ nat (bitlen n - 1)" n, where 'a=rat]
    by (simp add: powi_nat_2)
  show "(of_int n :: rat) < 2 powi bitlen n"
    using b(2) b3 of_int_less_iff[of n "2 ^ nat (bitlen n)", where 'a=rat]
    by (simp add: powi_nat_2)
qed

lemma ilog2_lower: "0 < x \<Longrightarrow> 2 powi ilog2 x \<le> x"
proof -
  assume x: "0 < x"
  obtain n d where q: "quotient_of x = (n, d)" by (cases "quotient_of x")
  have d: "0 < d" and e: "x = of_int n / of_int d"
    using q quotient_of_denom_pos quotient_of_div by blast+
  have n: "0 < n" using x e d by (simp add: zero_less_divide_iff)
  have "2 powi (bitlen n - 1 - bitlen d) = (2 powi (bitlen n - 1) / 2 powi bitlen d :: rat)"
    by (simp add: power_int_diff)
  also have "\<dots> \<le> of_int n / of_int d"
    using bitlen_rat_bounds[OF n] bitlen_rat_bounds[OF d] d n
    by (intro frac_le) auto
  finally have "2 powi (bitlen n - bitlen d - 1) \<le> x"
    by (simp add: e algebra_simps)
  then show ?thesis by (simp add: ilog2_def q Let_def)
qed

section \<open>The error of rounding\<close>

lemma rne_error: "\<bar>of_int (rne y) - y\<bar> \<le> 1 / 2"
proof -
  have "of_int \<lfloor>y\<rfloor> \<le> y" "y < of_int \<lfloor>y\<rfloor> + 1" by linarith+
  then show ?thesis by (auto simp: rne_def Let_def abs_le_iff)
qed

lemma rne_of_int [simp]: "rne (of_int k) = k"
  by (simp add: rne_def)

lemma ulp_pos [simp]: "0 < ulp p emin x"
  by (simp add: ulp_def)

lemma rnd_ulp_error: "x \<noteq> 0 \<Longrightarrow> \<bar>rnd p emin x - x\<bar> \<le> ulp p emin x / 2"
proof -
  assume x: "x \<noteq> 0"
  let ?u = "ulp p emin x"
  have u: "0 < ?u" by simp
  have eq: "rnd p emin x - x = ?u * (of_int (rne (x / ?u)) - x / ?u)"
    using x u less_imp_neq[OF u] by (simp add: rnd_def right_diff_distrib)
  have "\<bar>rnd p emin x - x\<bar> = ?u * \<bar>of_int (rne (x / ?u)) - x / ?u\<bar>"
    unfolding eq abs_mult using abs_of_pos[OF u] by simp
  also have "\<dots> \<le> ?u * (1 / 2)"
    by (rule mult_left_mono[OF rne_error less_imp_le[OF u]])
  finally show ?thesis by simp
qed

text \<open>The relative error of a normal number is at most half a unit.\<close>

lemma rnd_rel_error:
  assumes "2 powi (emin + 1) \<le> \<bar>x\<bar>"
  shows "\<bar>rnd p emin x - x\<bar> \<le> \<bar>x\<bar> * 2 powi (- p)"
proof -
  have p: "(0::rat) < 2 powi (emin + 1)" by simp
  have x: "x \<noteq> 0" using assms p by (metis abs_zero not_le)
  have lo: "2 powi ilog2 \<bar>x\<bar> \<le> \<bar>x\<bar>" using ilog2_lower[of "\<bar>x\<bar>"] x by simp
  have em: "(2::rat) powi emin \<le> \<bar>x\<bar>"
    using assms power_int_increasing[of emin "emin + 1" "2::rat"] by simp
  have m: "2 powi (max (ilog2 \<bar>x\<bar>) emin) \<le> \<bar>x\<bar>"
    using lo em by (simp add: max_def)
  have "ulp p emin x / 2 = 2 powi (max (ilog2 \<bar>x\<bar>) emin) * 2 powi (- p)"
    by (simp add: ulp_def power_int_add power_int_diff power_int_minus field_simps)
  also have "\<dots> \<le> \<bar>x\<bar> * 2 powi (- p)" using m by (intro mult_right_mono) auto
  finally show ?thesis using rnd_ulp_error[OF x, of p emin] by simp
qed

lemma rnd_zero [simp]: "rnd p emin 0 = 0"
  by (simp add: rnd_def)

lemma fp_of_rel:
  assumes "2 powi (emin + 1) \<le> \<bar>x\<bar>" "\<bar>x\<bar> < 2 powi emax" "0 \<le> p"
  shows "\<exists>y. fp_of p emin emax x = Fin y \<and> \<bar>y - x\<bar> \<le> \<bar>x\<bar> * 2 powi (- p)"
proof -
  let ?y = "rnd p emin x"
  have e: "\<bar>?y - x\<bar> \<le> \<bar>x\<bar> * 2 powi (- p)" by (rule rnd_rel_error[OF assms(1)])
  have "(2::rat) powi (- p) \<le> 1" using assms(3) by (simp add: power_int_minus powi_nat_2 inverse_le_1_iff)
  then have "\<bar>x\<bar> * 2 powi (- p) \<le> \<bar>x\<bar>" by (simp add: mult_left_le)
  then have "\<bar>?y\<bar> < 2 * 2 powi emax" using e assms(2) by linarith
  then have "\<bar>?y\<bar> < 2 powi (emax + 1)" by (simp add: power_int_add)
  then have lt: "ilog2 \<bar>?y\<bar> \<le> emax" if "?y \<noteq> 0"
  proof -
    have "2 powi ilog2 \<bar>?y\<bar> \<le> \<bar>?y\<bar>" by (rule ilog2_lower) (simp add: that)
    then have p: "2 powi ilog2 \<bar>?y\<bar> < (2 :: rat) powi (emax + 1)"
      using \<open>\<bar>?y\<bar> < 2 powi (emax + 1)\<close> by (rule le_less_trans)
    show ?thesis
    proof (rule ccontr)
      assume "\<not> ilog2 \<bar>?y\<bar> \<le> emax"
      then have "(2 :: rat) powi (emax + 1) \<le> 2 powi ilog2 \<bar>?y\<bar>"
        by (intro power_int_increasing) simp_all
      then show False using p by (simp add: not_less[symmetric])
    qed
  qed
  have "fp_of p emin emax x = Fin ?y" by (auto simp: fp_of_def Let_def lt)
  then show ?thesis using e by blast
qed

lemma pow_100: "1 / 2 ^ 100 = (2::rat) powi (- 100)" "2 ^ 100 = (2::rat) powi 100"
  by (simp_all add: power_int_def divide_simps)

lemma f32_rel:
  assumes "1 / 2 ^ 100 \<le> \<bar>x\<bar>" "\<bar>x\<bar> \<le> 2 ^ 100"
  shows "\<exists>y. f32 x = Fin y \<and> \<bar>y - x\<bar> \<le> \<bar>x\<bar> / 2 ^ 24"
proof -
  have "(2::rat) powi (- 126 + 1) \<le> 2 powi (- 100)" "(2::rat) powi 100 < 2 powi 127"
    by (rule power_int_increasing power_int_strict_increasing; simp)+
  note p = this
  have lo: "2 powi (- 126 + 1) \<le> \<bar>x\<bar>"
    using p(1) assms(1)[unfolded pow_100(1)] by (rule order_trans)
  have hi: "\<bar>x\<bar> < 2 powi 127"
    using assms(2)[unfolded pow_100(2)] p(2) by (rule le_less_trans)
  have "\<exists>y. fp_of 24 (- 126) 127 x = Fin y \<and> \<bar>y - x\<bar> \<le> \<bar>x\<bar> * 2 powi (- 24)"
    by (rule fp_of_rel[OF lo hi]) simp
  moreover have "(2::rat) powi (- 24) = 1 / 2 ^ 24" by (simp add: power_int_def divide_simps)
  ultimately show ?thesis unfolding f32_def by (simp only: times_divide_eq_right mult_1_right)
qed

lemma f64_rel:
  assumes "1 / 2 ^ 100 \<le> \<bar>x\<bar>" "\<bar>x\<bar> \<le> 2 ^ 100"
  shows "\<exists>y. f64 x = Fin y \<and> \<bar>y - x\<bar> \<le> \<bar>x\<bar> / 2 ^ 53"
proof -
  have "(2::rat) powi (- 1022 + 1) \<le> 2 powi (- 100)" "(2::rat) powi 100 < 2 powi 1023"
    by (rule power_int_increasing power_int_strict_increasing; simp)+
  note p = this
  have lo: "2 powi (- 1022 + 1) \<le> \<bar>x\<bar>"
    using p(1) assms(1)[unfolded pow_100(1)] by (rule order_trans)
  have hi: "\<bar>x\<bar> < 2 powi 1023"
    using assms(2)[unfolded pow_100(2)] p(2) by (rule le_less_trans)
  have "\<exists>y. fp_of 53 (- 1022) 1023 x = Fin y \<and> \<bar>y - x\<bar> \<le> \<bar>x\<bar> * 2 powi (- 53)"
    by (rule fp_of_rel[OF lo hi]) simp
  moreover have "(2::rat) powi (- 53) = 1 / 2 ^ 53" by (simp add: power_int_def divide_simps)
  ultimately show ?thesis unfolding f64_def by (simp only: times_divide_eq_right mult_1_right)
qed

lemma f32_zero [simp]: "f32 0 = Fin 0" and f64_zero [simp]: "f64 0 = Fin 0"
  by (simp_all add: f32_def f64_def fp_of_def)

section \<open>Scaling back and truncating\<close>

lemma rat_trunc_near:
  assumes "\<bar>z - of_int v\<bar> < 1"
  shows "rat_trunc z = v \<or> rat_trunc z = v - sgn v"
proof -
  have f: "\<lfloor>z\<rfloor> = v \<or> \<lfloor>z\<rfloor> = v - 1" "\<lfloor>- z\<rfloor> = - v \<or> \<lfloor>- z\<rfloor> = - v - 1"
    using assms by linarith+
  consider "0 < v" | "v < 0" | "v = 0" by linarith
  then show ?thesis
  proof cases
    case 1
    then have "(1::rat) \<le> of_int v" by simp
    then have "0 \<le> z" using assms by linarith
    then show ?thesis using f(1) 1 by (auto simp: rat_trunc_def)
  next
    case 2
    then have "v \<le> - 1" by simp
    then have "of_int v \<le> (of_int (- 1) :: rat)" by (simp only: of_int_le_iff)
    then have "\<not> 0 \<le> z" using assms by linarith
    then show ?thesis using f(2) 2 by (auto simp: rat_trunc_def)
  next
    case 3
    then have "0 \<le> z \<longrightarrow> \<lfloor>z\<rfloor> = 0" "\<not> 0 \<le> z \<longrightarrow> \<lfloor>- z\<rfloor> = 0" using assms by linarith+
    then show ?thesis using 3 by (auto simp: rat_trunc_def)
  qed
qed

lemma scaled_enc:
  fixes v :: int
  assumes v: "v \<noteq> 0" "\<bar>v\<bar> \<le> 2 ^ 20" and s: "1 \<le> s" "s \<le> 1000"
    and y: "\<bar>y - of_int v / s\<bar> \<le> \<bar>of_int v\<bar> / s / 2 ^ 22"
  shows "\<exists>z. fp_mul f32 (Fin y) (Fin s) = Fin z \<and> \<bar>z - of_int v\<bar> \<le> \<bar>of_int v\<bar> / 2 ^ 21"
proof -
  have av: "(1::rat) \<le> \<bar>of_int v\<bar>" "\<bar>of_int v\<bar> \<le> (2 ^ 20 :: rat)"
    using v by (simp_all flip: of_int_abs)
  have "\<bar>y * s - of_int v\<bar> = \<bar>y - of_int v / s\<bar> * s"
    using s by (simp add: field_simps flip: abs_mult_pos)
  also have "\<dots> \<le> \<bar>of_int v\<bar> / s / 2 ^ 22 * s" using y s by (intro mult_right_mono) auto
  also have "\<dots> = \<bar>of_int v\<bar> / 2 ^ 22" using s by simp
  finally have e: "\<bar>y * s - of_int v\<bar> \<le> \<bar>of_int v\<bar> / 2 ^ 22" .
  have t: "\<bar>y * s\<bar> \<le> \<bar>of_int v\<bar> + \<bar>of_int v\<bar> / 2 ^ 22"
    "\<bar>of_int v\<bar> - \<bar>of_int v\<bar> / 2 ^ 22 \<le> \<bar>y * s\<bar>" using e by linarith+
  have h: "1 / 2 \<le> \<bar>y * s\<bar>" "\<bar>y * s\<bar> \<le> 2 ^ 21" "\<bar>y * s\<bar> \<le> 2 * \<bar>of_int v\<bar>"
    using t av by simp_all
  have b: "1 / 2 ^ 100 \<le> \<bar>y * s\<bar>" "\<bar>y * s\<bar> \<le> 2 ^ 100"
    by (rule order_trans[OF _ h(1)], simp) (rule order_trans[OF h(2)], simp)
  obtain z where z: "f32 (y * s) = Fin z" "\<bar>z - y * s\<bar> \<le> \<bar>y * s\<bar> / 2 ^ 24"
    using f32_rel[OF b] by blast
  have "\<bar>z - of_int v\<bar> \<le> \<bar>z - y * s\<bar> + \<bar>y * s - of_int v\<bar>" by linarith
  then have "\<bar>z - of_int v\<bar> \<le> \<bar>of_int v\<bar> / 2 ^ 21" using z(2) e h(3) av(1) by simp
  then show ?thesis using z(1) by simp
qed
section \<open>Absolute bounds, subnormal numbers included\<close>

lemma rnd_abs_error: "\<bar>rnd p emin x - x\<bar> \<le> (\<bar>x\<bar> + 2 powi emin) * 2 powi (- p)"
proof (cases "x = 0")
  case True
  then show ?thesis by simp
next
  case False
  have lo: "2 powi ilog2 \<bar>x\<bar> \<le> \<bar>x\<bar>" using ilog2_lower[of "\<bar>x\<bar>"] False by simp
  have em: "(0 :: rat) \<le> 2 powi emin" by simp
  have m: "2 powi (max (ilog2 \<bar>x\<bar>) emin) \<le> \<bar>x\<bar> + 2 powi emin"
    using add_mono[OF lo em] by (cases "ilog2 \<bar>x\<bar> \<le> emin") (auto simp: max_def)
  have "ulp p emin x / 2 = 2 powi (max (ilog2 \<bar>x\<bar>) emin) * 2 powi (- p)"
    by (simp add: ulp_def power_int_add power_int_diff power_int_minus field_simps)
  also have "\<dots> \<le> (\<bar>x\<bar> + 2 powi emin) * 2 powi (- p)" using m by (intro mult_right_mono) auto
  finally show ?thesis using rnd_ulp_error[OF False, of p emin] by simp
qed

lemma fp_of_small:
  assumes "\<bar>x\<bar> \<le> 2 powi (emax - 1)" "emin \<le> emax - 1" "1 \<le> p"
  shows "fp_of p emin emax x = Fin (rnd p emin x)"
proof (cases "rnd p emin x = 0")
  case True
  then show ?thesis by (simp add: fp_of_def)
next
  case False
  let ?y = "rnd p emin x"
  have "(2::rat) powi (- p) \<le> 2 powi (- 1)" using assms(3) by (intro power_int_increasing) auto
  then have h: "(2::rat) powi (- p) \<le> 1 / 2" by (simp add: power_int_def)
  have em: "(2::rat) powi emin \<le> 2 powi (emax - 1)" using assms(2) by (intro power_int_increasing) auto
  have "(\<bar>x\<bar> + 2 powi emin) * 2 powi (- p) \<le> (\<bar>x\<bar> + 2 powi emin) * (1 / 2)"
    using h by (intro mult_left_mono) (auto simp: add_nonneg_nonneg)
  with rnd_abs_error[of p emin x] have "\<bar>?y - x\<bar> \<le> (\<bar>x\<bar> + 2 powi emin) * (1 / 2)"
    by (rule order_trans)
  also have "\<dots> \<le> (2 powi (emax - 1) + 2 powi (emax - 1)) * (1 / 2)"
    by (rule mult_right_mono[OF add_mono[OF assms(1) em]]) simp
  finally have "\<bar>?y - x\<bar> \<le> 2 powi (emax - 1)" by simp
  then have "\<bar>?y\<bar> \<le> 2 powi (emax - 1) * 2" using assms(1) by linarith
  then have "\<bar>?y\<bar> \<le> 2 powi emax" by (simp add: power_int_diff)
  moreover have "2 powi ilog2 \<bar>?y\<bar> \<le> \<bar>?y\<bar>" by (rule ilog2_lower) (simp add: False)
  ultimately have p: "2 powi ilog2 \<bar>?y\<bar> \<le> (2 :: rat) powi emax" by linarith
  have "ilog2 \<bar>?y\<bar> \<le> emax"
  proof (rule ccontr)
    assume "\<not> ilog2 \<bar>?y\<bar> \<le> emax"
    then have "(2 :: rat) powi emax < 2 powi ilog2 \<bar>?y\<bar>"
      by (intro power_int_strict_increasing) simp_all
    then show False using p by simp
  qed
  then show ?thesis using False by (simp add: fp_of_def Let_def)
qed

lemma f32_abs:
  assumes "\<bar>x\<bar> \<le> 2 ^ 100"
  shows "\<exists>y. f32 x = Fin y \<and> \<bar>y - x\<bar> \<le> \<bar>x\<bar> / 2 ^ 24 + 1 / 2 ^ 100"
proof -
  have hi: "(2::rat) powi 100 \<le> 2 powi (127 - 1)" by (rule power_int_increasing) simp_all
  have e: "(2::rat) powi (- 24) = 1 / 2 ^ 24" by (simp add: power_int_def divide_simps)
  have t: "(2::rat) powi (- 126) * 2 powi (- 24) \<le> 1 / 2 ^ 100"
    unfolding pow_100(1) power_int_add[symmetric, OF disjI1[OF zero_neq_numeral[symmetric]]]
    by (rule power_int_increasing) simp_all
  have "f32 x = Fin (rnd 24 (- 126) x)" unfolding f32_def
    using order_trans[OF assms[unfolded pow_100(2)] hi] by (rule fp_of_small) simp_all
  moreover have "\<bar>rnd 24 (- 126) x - x\<bar> \<le> \<bar>x\<bar> / 2 ^ 24 + 1 / 2 ^ 100"
    using rnd_abs_error[of 24 "- 126" x] t by (simp only: distrib_right e) (simp only: times_divide_eq_right mult_1_right)
  ultimately show ?thesis by blast
qed

lemma f64_abs:
  assumes "\<bar>x\<bar> \<le> 2 ^ 100"
  shows "\<exists>y. f64 x = Fin y \<and> \<bar>y - x\<bar> \<le> \<bar>x\<bar> / 2 ^ 53 + 1 / 2 ^ 100"
proof -
  have hi: "(2::rat) powi 100 \<le> 2 powi (1023 - 1)" by (rule power_int_increasing) simp_all
  have e: "(2::rat) powi (- 53) = 1 / 2 ^ 53" by (simp add: power_int_def divide_simps)
  have t: "(2::rat) powi (- 1022) * 2 powi (- 53) \<le> 1 / 2 ^ 100"
    unfolding pow_100(1) power_int_add[symmetric, OF disjI1[OF zero_neq_numeral[symmetric]]]
    by (rule power_int_increasing) simp_all
  have "f64 x = Fin (rnd 53 (- 1022) x)" unfolding f64_def
    using order_trans[OF assms[unfolded pow_100(2)] hi] by (rule fp_of_small) simp_all
  moreover have "\<bar>rnd 53 (- 1022) x - x\<bar> \<le> \<bar>x\<bar> / 2 ^ 53 + 1 / 2 ^ 100"
    using rnd_abs_error[of 53 "- 1022" x] t by (simp only: distrib_right e) (simp only: times_divide_eq_right mult_1_right)
  ultimately show ?thesis by blast
qed

text \<open>A rounded value exceeds a bound by a relative 2^-22 at most (for bounds that are not tiny).\<close>

lemma f32_bound:
  assumes "\<bar>x\<bar> \<le> b" "1 / 1000 \<le> b" "b \<le> 1000000"
  shows "\<exists>y. f32 x = Fin y \<and> \<bar>y\<bar> \<le> b * (1 + 1 / 2 ^ 22)"
proof -
  have "\<bar>x\<bar> \<le> 2 ^ 100" using assms by simp
  then obtain y where y: "f32 x = Fin y" "\<bar>y - x\<bar> \<le> \<bar>x\<bar> / 2 ^ 24 + 1 / 2 ^ 100" using f32_abs by blast
  have "\<bar>y\<bar> \<le> \<bar>x\<bar> + \<bar>y - x\<bar>" by linarith
  moreover have "1 / 2 ^ 100 \<le> b / 2 ^ 23" using assms(2) by simp
  moreover have "\<bar>x\<bar> / 2 ^ 24 \<le> b / 2 ^ 24" using assms(1) by simp
  ultimately have "\<bar>y\<bar> \<le> b + b / 2 ^ 24 + b / 2 ^ 23" using y(2) assms(1) by linarith
  also have "\<dots> \<le> b * (1 + 1 / 2 ^ 22)" using assms(2) by (simp add: distrib_left)
  finally show ?thesis using y(1) by blast
qed

lemma f64_bound:
  assumes "\<bar>x\<bar> \<le> b" "1 / 1000 \<le> b" "b \<le> 1000000"
  shows "\<exists>y. f64 x = Fin y \<and> \<bar>y\<bar> \<le> b * (1 + 1 / 2 ^ 22)"
proof -
  have "\<bar>x\<bar> \<le> 2 ^ 100" using assms by simp
  then obtain y where y: "f64 x = Fin y" "\<bar>y - x\<bar> \<le> \<bar>x\<bar> / 2 ^ 53 + 1 / 2 ^ 100" using f64_abs by blast
  have "\<bar>y\<bar> \<le> \<bar>x\<bar> + \<bar>y - x\<bar>" by linarith
  moreover have "1 / 2 ^ 100 \<le> b / 2 ^ 23" using assms(2) by simp
  moreover have "\<bar>x\<bar> / 2 ^ 53 \<le> b / 2 ^ 24" using assms(1) abs_ge_zero[of x] by simp
  ultimately have "\<bar>y\<bar> \<le> b + b / 2 ^ 24 + b / 2 ^ 23" using y(2) assms(1) by linarith
  also have "\<dots> \<le> b * (1 + 1 / 2 ^ 22)" using assms(2) by (simp add: distrib_left)
  finally show ?thesis using y(1) by blast
qed
end
