(* ===== verification/Agx_Messages.thy ===== *)
theory Agx_Messages
  imports Floats
begin

text \<open>
  The messages of the robot SDK (agilex_message.h and agilex_types.h under
  edge/src/ugv_sdk/include/ugv_sdk/details/interface): one record per C
  struct, the message type enumeration, and the union of message bodies as a
  datatype with a constructor per member.  C enumerations are 32-bit words,
  because the decoders store whatever byte arrives.  A CAN frame is its
  identifier, its length and its eight data bytes.
\<close>

section \<open>Enumerations\<close>

definition CONST_OFF :: u32 where "CONST_OFF = 0"
definition CONST_ON :: u32 where "CONST_ON = 1"
definition BREATH :: u32 where "BREATH = 2"
definition CUSTOM :: u32 where "CUSTOM = 3"

definition CONTROL_MODE_STANDBY :: u32 where "CONTROL_MODE_STANDBY = 0"
definition CONTROL_MODE_CAN :: u32 where "CONTROL_MODE_CAN = 1"

definition BRAKE_MODE_UNLOCK :: u32 where "BRAKE_MODE_UNLOCK = 0"
definition BRAKE_MODE_LOCK :: u32 where "BRAKE_MODE_LOCK = 1"

definition RC_SWITCH_UP :: u32 where "RC_SWITCH_UP = 0"
definition RC_SWITCH_MIDDLE :: u32 where "RC_SWITCH_MIDDLE = 1"
definition RC_SWITCH_DOWN :: u32 where "RC_SWITCH_DOWN = 2"

lemmas rc_switch_defs = RC_SWITCH_UP_def RC_SWITCH_MIDDLE_def RC_SWITCH_DOWN_def

datatype msg_type =
    AgxMsgUnkonwn
  | AgxMsgMotionCommand | AgxMsgLightCommand | AgxMsgBrakingCommand
  | AgxMsgSetMotionModeCommand
  | AgxMsgSystemState | AgxMsgMotionState | AgxMsgLightState
  | AgxMsgMotionModeState | AgxMsgRcState
  | AgxMsgActuatorHSState | AgxMsgActuatorLSState | AgxMsgMotorAngle | AgxMsgMotorSpeed
  | AgxMsgOdometry | AgxMsgImuAccel | AgxMsgImuGyro | AgxMsgImuEuler
  | AgxMsgSafetyBumper | AgxMsgUltrasonic | AgxMsgUwb | AgxMsgBmsBasic | AgxMsgBmsExtended
  | AgxMsgVersionRequest | AgxMsgVersionResponse | AgxMsgControlModeConfig
  | AgxMsgSteerNeutralRequest | AgxMsgSteerNeutralResponse | AgxMsgStateResetConfig
  | AgxMsgBrakeModeConfig
  | AgxMsgMotionCommandV1 | AgxMsgValueSetCommandV1 | AgxMsgValueSetStateV1
  | AgxMsgActuatorStateV1

section \<open>Message bodies\<close>

record motion_command_message =
  linear_velocity :: fp
  angular_velocity :: fp
  lateral_velocity :: fp
  steering_angle :: fp

type_synonym motion_state_message = motion_command_message

record light_operation =
  mode :: u32
  custom_value :: u8

record light_command_message =
  enable_cmd_ctrl :: bool
  front_light :: light_operation
  rear_light :: light_operation

record motion_command_message_v1 =
  v1_control_mode :: u32
  clear_all_error :: bool
  linear :: fp
  angular :: fp
  lateral :: fp

record system_state_message =
  vehicle_state :: u32
  control_mode :: u32
  battery_voltage :: fp
  error_code :: u16

record rc_state_message =
  swa :: u32
  swb :: u32
  swc :: u32
  swd :: u32
  stick_right_v :: u8
  stick_right_h :: u8
  stick_left_v :: u8
  stick_left_h :: u8
  var_a :: u8

record actuator_hs_state_message =
  hs_motor_id :: u8
  hs_rpm :: u16
  hs_current :: fp
  pulse_count :: u32

record actuator_ls_state_message =
  ls_motor_id :: u8
  driver_voltage :: fp
  ls_driver_temp :: fp
  ls_motor_temp :: fp
  driver_state :: u8

record motion_mode_state_message =
  motion_mode :: u8
  mode_changing :: u8

record actuator_state_message_v1 =
  v1_motor_id :: u8
  v1_current :: fp
  v1_rpm :: u16
  v1_driver_temp :: fp
  v1_motor_temp :: fp

record odometry_message =
  left_wheel :: fp
  right_wheel :: fp

record bms_basic_message =
  battery_soc :: u8
  battery_soh :: u8
  voltage :: fp
  bms_current :: fp
  temperature :: fp

record motor_angle_message =
  angle_5 :: fp
  angle_6 :: fp
  angle_7 :: fp
  angle_8 :: fp

record motor_speed_message =
  speed_1 :: fp
  speed_2 :: fp
  speed_3 :: fp
  speed_4 :: fp

record bms_extended_message =
  alarm_status_1 :: u8
  alarm_status_2 :: u8
  warn_status_1 :: u8
  warn_status_2 :: u8

text \<open>
  The union.  BUnset stands for a body the code did not write; the
  sensor members that no decoder fills carry the sensor number only.
\<close>

datatype msg_body =
    BUnset
  | BMotionCommand motion_command_message
  | BLight light_command_message
  | BMotionMode u8
  | BSystemState system_state_message
  | BMotionState motion_state_message
  | BMotionModeState motion_mode_state_message
  | BRcState rc_state_message
  | BActuatorHS actuator_hs_state_message
  | BActuatorLS actuator_ls_state_message
  | BOdometry odometry_message
  | BUltrasonic u8
  | BUwb u8
  | BBmsBasic bms_basic_message
  | BBmsExtended bms_extended_message
  | BVersionResponse "u8 list"
  | BControlModeConfig u32
  | BBrakeModeConfig u32
  | BStateReset u8
  | BMotionCommandV1 motion_command_message_v1
  | BValueSetV1 bool
  | BActuatorV1 actuator_state_message_v1
  | BMotorAngle motor_angle_message
  | BMotorSpeed motor_speed_message

record agx_message =
  mtype :: msg_type
  body :: msg_body

record can_frame =
  can_id :: u32
  can_dlc :: u8
  cdata :: "u8 list"

section \<open>Big-endian integers\<close>

text \<open>
  struct16_t and struct32_t hold the most significant byte first; the code
  assembles them with shifts and takes them apart with shifts and masks.
\<close>

definition be16 :: "u8 \<Rightarrow> u8 \<Rightarrow> u16" where
  "be16 high_byte low_byte = ucast low_byte OR push_bit 8 (ucast high_byte)"

definition be32 :: "u8 \<Rightarrow> u8 \<Rightarrow> u8 \<Rightarrow> u8 \<Rightarrow> u32" where
  "be32 msb high_byte low_byte lsb = ucast lsb OR push_bit 8 (ucast low_byte)
     OR push_bit 16 (ucast high_byte) OR push_bit 24 (ucast msb)"

definition hi8 :: "u16 \<Rightarrow> u8" where "hi8 v = ucast (drop_bit 8 v)"
definition lo8 :: "u16 \<Rightarrow> u8" where "lo8 v = ucast (v AND 0x00ff)"

definition byte32 :: "nat \<Rightarrow> u32 \<Rightarrow> u8" where
  "byte32 n v = ucast (drop_bit n v AND 0x000000ff)"

lemma ff_mask: "(0xff :: u16) = mask 8" "(0xff :: u32) = mask 8"
  by (simp_all add: mask_eq_decr_exp)

lemma be16_hi8_lo8 [simp]: "be16 (hi8 v) (lo8 v) = v"
  by (rule bit_word_eqI) (auto simp: be16_def hi8_def lo8_def ff_mask bit_simps)

lemma hi8_be16 [simp]: "hi8 (be16 h l) = h"
  by (rule bit_word_eqI) (auto simp: be16_def hi8_def bit_simps dest: bit_imp_le_length)

lemma lo8_be16 [simp]: "lo8 (be16 h l) = l"
  by (rule bit_word_eqI) (auto simp: be16_def lo8_def ff_mask bit_simps dest: bit_imp_le_length)

lemma bit_byte32: "bit (byte32 k v) n \<longleftrightarrow> n < 8 \<and> bit v (k + n)"
  unfolding byte32_def ff_mask by (auto simp: bit_simps)

lemma be32_bytes [simp]: "be32 (byte32 24 v) (byte32 16 v) (byte32 8 v) (byte32 0 v) = v"
proof (rule bit_word_eqI)
  fix n assume "n < LENGTH(32)"
  then have "n < 32" by simp
  then consider "n < 8" | "8 \<le> n" "n < 16" | "16 \<le> n" "n < 24" | "24 \<le> n" "n < 32" by linarith
  then show "bit (be32 (byte32 24 v) (byte32 16 v) (byte32 8 v) (byte32 0 v)) n = bit v n"
    by cases (auto simp: be32_def bit_or_iff bit_push_bit_iff bit_ucast_iff bit_byte32)
qed

end
