(* ===== verification/Agx_Protocol_V2.thy ===== *)
theory Agx_Protocol_V2
  imports Agx_Messages
begin

text \<open>
  The second protocol version (edge/src/ugv_sdk/src/protocol_v2/:
  agilex_protocol_v2.h and agilex_msg_parser_v2.c): the frame identifiers, a
  decoder and an encoder per frame layout, the two dispatching functions and
  the checksum.  Indeterminate memory is explicit: the decoder receives what
  the remote-control member of the caller's union held before (stale), the
  encoder what its uninitialised frame struct held (junk) and the static
  frame counter of the light command.
\<close>

section \<open>Identifiers\<close>

definition CAN_MSG_MOTION_COMMAND_ID :: u32 where "CAN_MSG_MOTION_COMMAND_ID = 0x111"
definition CAN_MSG_LIGHT_COMMAND_ID :: u32 where "CAN_MSG_LIGHT_COMMAND_ID = 0x121"
definition CAN_MSG_BRAKING_COMMAND_ID :: u32 where "CAN_MSG_BRAKING_COMMAND_ID = 0x131"
definition CAN_MSG_SET_MOTION_MODE_ID :: u32 where "CAN_MSG_SET_MOTION_MODE_ID = 0x141"
definition CAN_MSG_SYSTEM_STATE_ID :: u32 where "CAN_MSG_SYSTEM_STATE_ID = 0x211"
definition CAN_MSG_MOTION_STATE_ID :: u32 where "CAN_MSG_MOTION_STATE_ID = 0x221"
definition CAN_MSG_LIGHT_STATE_ID :: u32 where "CAN_MSG_LIGHT_STATE_ID = 0x231"
definition CAN_MSG_RC_STATE_ID :: u32 where "CAN_MSG_RC_STATE_ID = 0x241"
definition CAN_MSG_ACTUATOR1_HS_STATE_ID :: u32 where "CAN_MSG_ACTUATOR1_HS_STATE_ID = 0x251"
definition CAN_MSG_ACTUATOR8_HS_STATE_ID :: u32 where "CAN_MSG_ACTUATOR8_HS_STATE_ID = 0x258"
definition CAN_MSG_ACTUATOR1_LS_STATE_ID :: u32 where "CAN_MSG_ACTUATOR1_LS_STATE_ID = 0x261"
definition CAN_MSG_ACTUATOR8_LS_STATE_ID :: u32 where "CAN_MSG_ACTUATOR8_LS_STATE_ID = 0x268"
definition CAN_MSG_MOTOR_ANGLE_INFO :: u32 where "CAN_MSG_MOTOR_ANGLE_INFO = 0x271"
definition CAN_MSG_MOTOR_SPEED_INFO :: u32 where "CAN_MSG_MOTOR_SPEED_INFO = 0x281"
definition CAN_MSG_CURRENT_CTRL_MODE :: u32 where "CAN_MSG_CURRENT_CTRL_MODE = 0x291"
definition CAN_MSG_ODOMETRY_ID :: u32 where "CAN_MSG_ODOMETRY_ID = 0x311"
definition CAN_MSG_IMU_ACCEL_ID :: u32 where "CAN_MSG_IMU_ACCEL_ID = 0x321"
definition CAN_MSG_IMU_GYRO_ID :: u32 where "CAN_MSG_IMU_GYRO_ID = 0x322"
definition CAN_MSG_IMU_EULER_ID :: u32 where "CAN_MSG_IMU_EULER_ID = 0x323"
definition CAN_MSG_SAFETY_BUMPER_ID :: u32 where "CAN_MSG_SAFETY_BUMPER_ID = 0x331"
definition CAN_MSG_ULTRASONIC_1_ID :: u32 where "CAN_MSG_ULTRASONIC_1_ID = 0x341"
definition CAN_MSG_ULTRASONIC_8_ID :: u32 where "CAN_MSG_ULTRASONIC_8_ID = 0x348"
definition CAN_MSG_UWB_1_ID :: u32 where "CAN_MSG_UWB_1_ID = 0x351"
definition CAN_MSG_UWB_4_ID :: u32 where "CAN_MSG_UWB_4_ID = 0x354"
definition CAN_MSG_BMS_BASIC_ID :: u32 where "CAN_MSG_BMS_BASIC_ID = 0x361"
definition CAN_MSG_BMS_EXTENDED_ID :: u32 where "CAN_MSG_BMS_EXTENDED_ID = 0x362"
definition CAN_MSG_VERSION_REQUEST_ID :: u32 where "CAN_MSG_VERSION_REQUEST_ID = 0x411"
definition CAN_MSG_VERSION_RESPONSE_ID :: u32 where "CAN_MSG_VERSION_RESPONSE_ID = 0x4a1"
definition CAN_MSG_CTRL_MODE_CONFIG_ID :: u32 where "CAN_MSG_CTRL_MODE_CONFIG_ID = 0x421"
definition CAN_MSG_STEER_NEUTRAL_REQUEST_ID :: u32 where "CAN_MSG_STEER_NEUTRAL_REQUEST_ID = 0x431"
definition CAN_MSG_STEER_NEUTRAL_RESPONSE_ID :: u32 where "CAN_MSG_STEER_NEUTRAL_RESPONSE_ID = 0x43a"
definition CAN_MSG_STATE_RESET_CONFIG_ID :: u32 where "CAN_MSG_STATE_RESET_CONFIG_ID = 0x441"

lemmas v2_id_defs =
  CAN_MSG_MOTION_COMMAND_ID_def CAN_MSG_LIGHT_COMMAND_ID_def CAN_MSG_BRAKING_COMMAND_ID_def
  CAN_MSG_SET_MOTION_MODE_ID_def CAN_MSG_SYSTEM_STATE_ID_def CAN_MSG_MOTION_STATE_ID_def
  CAN_MSG_LIGHT_STATE_ID_def CAN_MSG_RC_STATE_ID_def CAN_MSG_ACTUATOR1_HS_STATE_ID_def
  CAN_MSG_ACTUATOR8_HS_STATE_ID_def CAN_MSG_ACTUATOR1_LS_STATE_ID_def
  CAN_MSG_ACTUATOR8_LS_STATE_ID_def CAN_MSG_MOTOR_ANGLE_INFO_def CAN_MSG_MOTOR_SPEED_INFO_def
  CAN_MSG_CURRENT_CTRL_MODE_def CAN_MSG_ODOMETRY_ID_def CAN_MSG_IMU_ACCEL_ID_def
  CAN_MSG_IMU_GYRO_ID_def CAN_MSG_IMU_EULER_ID_def CAN_MSG_SAFETY_BUMPER_ID_def
  CAN_MSG_ULTRASONIC_1_ID_def CAN_MSG_ULTRASONIC_8_ID_def CAN_MSG_UWB_1_ID_def
  CAN_MSG_UWB_4_ID_def CAN_MSG_BMS_BASIC_ID_def CAN_MSG_BMS_EXTENDED_ID_def
  CAN_MSG_VERSION_REQUEST_ID_def CAN_MSG_VERSION_RESPONSE_ID_def
  CAN_MSG_CTRL_MODE_CONFIG_ID_def CAN_MSG_STEER_NEUTRAL_REQUEST_ID_def
  CAN_MSG_STEER_NEUTRAL_RESPONSE_ID_def CAN_MSG_STATE_RESET_CONFIG_ID_def

section \<open>Scaled numbers\<close>

text \<open>
  A 16-bit reading divided by 1000.0, or multiplied by 0.1, 0.1f or 0.001, and
  stored in a float; and the conversions back, which truncate.
\<close>

definition milli_dec :: "u16 \<Rightarrow> fp" where
  "milli_dec v = to_f32 (fp_div f64 (Fin (of_int (sint v))) (Fin 1000))"

definition deci_dec :: "int \<Rightarrow> fp" where
  "deci_dec v = to_f32 (fp_mul f64 (Fin (of_int v)) (f64 (1 / 10)))"

definition decif_dec :: "u16 \<Rightarrow> fp" where
  "decif_dec v = fp_mul f32 (Fin (of_int (sint v))) (f32 (1 / 10))"

definition millim_dec :: "u16 \<Rightarrow> fp" where
  "millim_dec v = to_f32 (fp_mul f64 (Fin (of_int (sint v))) (f64 (1 / 1000)))"

definition milli_enc :: "fp \<Rightarrow> u16 res" where
  "milli_enc x = fp_to_signed (fp_mul f32 x (Fin 1000))"

definition deci_enc :: "fp \<Rightarrow> u16 res" where
  "deci_enc x = fp_to_signed (fp_mul f32 x (Fin 10))"

definition deciu_enc :: "fp \<Rightarrow> u16 res" where
  "deciu_enc x = fp_to_unsigned (fp_mul f32 x (Fin 10))"

definition at16 :: "u8 list \<Rightarrow> nat \<Rightarrow> u16" where
  "at16 d i = be16 (d ! i) (d ! (i + 1))"

definition at32 :: "u8 list \<Rightarrow> nat \<Rightarrow> u32" where
  "at32 d i = be32 (d ! i) (d ! (i + 1)) (d ! (i + 2)) (d ! (i + 3))"

definition put16 :: "u16 \<Rightarrow> u8 list" where
  "put16 v = [hi8 v, lo8 v]"

definition put32 :: "u32 \<Rightarrow> u8 list" where
  "put32 v = [byte32 24 v, byte32 16 v, byte32 8 v, byte32 0 v]"

section \<open>Decoding\<close>

definition dec_motion :: "u8 list \<Rightarrow> motion_command_message" where
  "dec_motion d = \<lparr>linear_velocity = milli_dec (at16 d 0), angular_velocity = milli_dec (at16 d 2),
     lateral_velocity = milli_dec (at16 d 4), steering_angle = milli_dec (at16 d 6)\<rparr>"

definition dec_light :: "u8 list \<Rightarrow> light_command_message" where
  "dec_light d = \<lparr>enable_cmd_ctrl = (d ! 0 \<noteq> 0),
     front_light = \<lparr>mode = ucast (d ! 1), custom_value = d ! 2\<rparr>,
     rear_light = \<lparr>mode = ucast (d ! 3), custom_value = d ! 4\<rparr>\<rparr>"

definition dec_system_state :: "u8 list \<Rightarrow> system_state_message" where
  "dec_system_state d = \<lparr>vehicle_state = ucast (d ! 0), control_mode = ucast (d ! 1),
     battery_voltage = deci_dec (sint (at16 d 2)), error_code = at16 d 4\<rparr>"

definition dec_two_way :: "u8 \<Rightarrow> u8 \<Rightarrow> u8 \<Rightarrow> u8 \<Rightarrow> u32 \<Rightarrow> u32" where
  "dec_two_way sws msk up down old = (if sws AND msk = up then RC_SWITCH_UP
     else if sws AND msk = down then RC_SWITCH_DOWN else old)"

definition dec_three_way :: "u8 \<Rightarrow> u8 \<Rightarrow> u8 \<Rightarrow> u8 \<Rightarrow> u8 \<Rightarrow> u32 \<Rightarrow> u32" where
  "dec_three_way sws msk up middle down old = (if sws AND msk = up then RC_SWITCH_UP
     else if sws AND msk = middle then RC_SWITCH_MIDDLE
     else if sws AND msk = down then RC_SWITCH_DOWN else old)"

definition dec_rc_state :: "rc_state_message \<Rightarrow> u8 list \<Rightarrow> rc_state_message" where
  "dec_rc_state stale d = \<lparr>
     swa = dec_two_way (d ! 0) 0b00000011 0b00000010 0b00000011 (swa stale),
     swb = dec_three_way (d ! 0) 0b00001100 0b00001000 0b00000100 0b00001100 (swb stale),
     swc = dec_three_way (d ! 0) 0b00110000 0b00100000 0b00010000 0b00110000 (swc stale),
     swd = dec_two_way (d ! 0) 0b11000000 0b10000000 0b11000000 (swd stale),
     stick_right_v = d ! 2, stick_right_h = d ! 1,
     stick_left_v = d ! 3, stick_left_h = d ! 4, var_a = d ! 5\<rparr>"

definition dec_hs_state :: "u32 \<Rightarrow> u8 list \<Rightarrow> actuator_hs_state_message" where
  "dec_hs_state cid d = \<lparr>hs_motor_id = ucast (cid - CAN_MSG_ACTUATOR1_HS_STATE_ID),
     hs_rpm = at16 d 0, hs_current = deci_dec (sint (at16 d 2)), pulse_count = at32 d 4\<rparr>"

definition dec_ls_state :: "u32 \<Rightarrow> u8 list \<Rightarrow> actuator_ls_state_message" where
  "dec_ls_state cid d = \<lparr>ls_motor_id = ucast (cid - CAN_MSG_ACTUATOR1_LS_STATE_ID),
     driver_voltage = deci_dec (uint (at16 d 0)),
     ls_driver_temp = f32 (of_int (sint (at16 d 2))),
     ls_motor_temp = f32 (of_int (sint (d ! 4))), driver_state = d ! 5\<rparr>"

definition dec_motion_mode_state :: "u8 list \<Rightarrow> motion_mode_state_message" where
  "dec_motion_mode_state d = \<lparr>motion_mode = d ! 0, mode_changing = d ! 1\<rparr>"

definition dec_odometry :: "u8 list \<Rightarrow> odometry_message" where
  "dec_odometry d = \<lparr>left_wheel = f32 (of_int (sint (at32 d 0))),
     right_wheel = f32 (of_int (sint (at32 d 4)))\<rparr>"

definition dec_bms_basic :: "u8 list \<Rightarrow> bms_basic_message" where
  "dec_bms_basic d = \<lparr>battery_soc = d ! 0, battery_soh = d ! 1, voltage = decif_dec (at16 d 2),
     bms_current = decif_dec (at16 d 4), temperature = decif_dec (at16 d 6)\<rparr>"

definition dec_bms_extended :: "u8 list \<Rightarrow> bms_extended_message" where
  "dec_bms_extended d = \<lparr>alarm_status_1 = d ! 0, alarm_status_2 = d ! 1,
     warn_status_1 = d ! 2, warn_status_2 = d ! 3\<rparr>"

definition dec_version_response :: "u8 list \<Rightarrow> u8 list" where
  "dec_version_response d = map (\<lambda>i. d ! i) [0..<8]"

definition dec_motor_angle :: "u8 list \<Rightarrow> motor_angle_message" where
  "dec_motor_angle d = \<lparr>angle_5 = millim_dec (at16 d 0), angle_6 = millim_dec (at16 d 2),
     angle_7 = millim_dec (at16 d 4), angle_8 = millim_dec (at16 d 6)\<rparr>"

definition dec_motor_speed :: "u8 list \<Rightarrow> motor_speed_message" where
  "dec_motor_speed d = \<lparr>speed_1 = millim_dec (at16 d 0), speed_2 = millim_dec (at16 d 2),
     speed_3 = millim_dec (at16 d 4), speed_4 = millim_dec (at16 d 6)\<rparr>"

definition DecodeCanFrameV2 :: "rc_state_message \<Rightarrow> can_frame \<Rightarrow> bool \<times> agx_message" where
  "DecodeCanFrameV2 stale rx = (let cid = can_id rx; d = cdata rx;
       ok = (\<lambda>t b. (True, \<lparr>mtype = t, body = b\<rparr>)) in
     if cid = CAN_MSG_MOTION_COMMAND_ID then ok AgxMsgMotionCommand (BMotionCommand (dec_motion d))
     else if cid = CAN_MSG_SET_MOTION_MODE_ID then ok AgxMsgSetMotionModeCommand (BMotionMode (d ! 0))
     else if cid = CAN_MSG_LIGHT_COMMAND_ID then ok AgxMsgLightCommand (BLight (dec_light d))
     else if cid = CAN_MSG_BRAKING_COMMAND_ID then ok AgxMsgBrakingCommand BUnset
     else if cid = CAN_MSG_SYSTEM_STATE_ID then ok AgxMsgSystemState (BSystemState (dec_system_state d))
     else if cid = CAN_MSG_MOTION_STATE_ID then ok AgxMsgMotionState (BMotionState (dec_motion d))
     else if cid = CAN_MSG_LIGHT_STATE_ID then ok AgxMsgLightState (BLight (dec_light d))
     else if cid = CAN_MSG_RC_STATE_ID then ok AgxMsgRcState (BRcState (dec_rc_state stale d))
     else if CAN_MSG_ACTUATOR1_HS_STATE_ID \<le> cid \<and> cid \<le> CAN_MSG_ACTUATOR8_HS_STATE_ID
       then ok AgxMsgActuatorHSState (BActuatorHS (dec_hs_state cid d))
     else if CAN_MSG_ACTUATOR1_LS_STATE_ID \<le> cid \<and> cid \<le> CAN_MSG_ACTUATOR8_LS_STATE_ID
       then ok AgxMsgActuatorLSState (BActuatorLS (dec_ls_state cid d))
     else if cid = CAN_MSG_CURRENT_CTRL_MODE
       then ok AgxMsgMotionModeState (BMotionModeState (dec_motion_mode_state d))
     else if cid = CAN_MSG_ODOMETRY_ID then ok AgxMsgOdometry (BOdometry (dec_odometry d))
     else if cid = CAN_MSG_IMU_ACCEL_ID then ok AgxMsgImuAccel BUnset
     else if cid = CAN_MSG_IMU_GYRO_ID then ok AgxMsgImuGyro BUnset
     else if cid = CAN_MSG_IMU_EULER_ID then ok AgxMsgImuEuler BUnset
     else if cid = CAN_MSG_SAFETY_BUMPER_ID then ok AgxMsgSafetyBumper BUnset
     else if CAN_MSG_ULTRASONIC_1_ID \<le> cid \<and> cid \<le> CAN_MSG_ULTRASONIC_8_ID
       then ok AgxMsgUltrasonic BUnset
     else if CAN_MSG_UWB_1_ID \<le> cid \<and> cid \<le> CAN_MSG_UWB_4_ID then ok AgxMsgUwb BUnset
     else if cid = CAN_MSG_BMS_BASIC_ID then ok AgxMsgBmsBasic (BBmsBasic (dec_bms_basic d))
     else if cid = CAN_MSG_BMS_EXTENDED_ID then ok AgxMsgBmsExtended (BBmsExtended (dec_bms_extended d))
     else if cid = CAN_MSG_VERSION_REQUEST_ID then ok AgxMsgVersionRequest BUnset
     else if cid = CAN_MSG_VERSION_RESPONSE_ID
       then ok AgxMsgVersionResponse (BVersionResponse (dec_version_response d))
     else if cid = CAN_MSG_CTRL_MODE_CONFIG_ID
       then ok AgxMsgControlModeConfig (BControlModeConfig (ucast (d ! 0)))
     else if cid = CAN_MSG_STEER_NEUTRAL_REQUEST_ID then ok AgxMsgSteerNeutralRequest BUnset
     else if cid = CAN_MSG_STEER_NEUTRAL_RESPONSE_ID then ok AgxMsgSteerNeutralResponse BUnset
     else if cid = CAN_MSG_STATE_RESET_CONFIG_ID
       then ok AgxMsgStateResetConfig (BStateReset (d ! 0))
     else if cid = CAN_MSG_MOTOR_ANGLE_INFO then ok AgxMsgMotorAngle (BMotorAngle (dec_motor_angle d))
     else if cid = CAN_MSG_MOTOR_SPEED_INFO then ok AgxMsgMotorSpeed (BMotorSpeed (dec_motor_speed d))
     else (False, \<lparr>mtype = AgxMsgUnkonwn, body = BUnset\<rparr>))"

section \<open>Encoding\<close>

text \<open>memcpy of the frame struct into the first can_dlc bytes of the data.\<close>

definition put_frame :: "u32 \<Rightarrow> u8 list \<Rightarrow> can_frame \<Rightarrow> can_frame" where
  "put_frame cid bs tx = tx\<lparr>can_id := cid, can_dlc := of_nat (length bs),
     cdata := bs @ drop (length bs) (cdata tx)\<rparr>"

definition enc_motion :: "motion_command_message \<Rightarrow> u8 list res" where
  "enc_motion m = bindR (milli_enc (linear_velocity m)) (\<lambda>lin.
     bindR (milli_enc (angular_velocity m)) (\<lambda>ang.
     bindR (milli_enc (lateral_velocity m)) (\<lambda>lat.
     bindR (milli_enc (steering_angle m)) (\<lambda>ste.
     Inr (put16 lin @ put16 ang @ put16 lat @ put16 ste)))))"

definition enc_light :: "u8 \<Rightarrow> light_command_message \<Rightarrow> u8 list" where
  "enc_light count m = (if enable_cmd_ctrl m
     then [0x01, ucast (mode (front_light m)), custom_value (front_light m),
           ucast (mode (rear_light m)), custom_value (rear_light m), 0, 0, count]
     else [0x00, 0, 0, 0, 0, 0, 0, count])"

definition enc_system_state :: "u8 list \<Rightarrow> system_state_message \<Rightarrow> u8 list res" where
  "enc_system_state junk m = bindR (deciu_enc (battery_voltage m)) (\<lambda>battery.
     Inr ([ucast (vehicle_state m), ucast (control_mode m)] @ put16 battery
          @ put16 (error_code m) @ [junk ! 6, junk ! 7]))"

definition enc_two_way :: "u8 \<Rightarrow> u8 \<Rightarrow> u32 \<Rightarrow> u8 \<Rightarrow> u8" where
  "enc_two_way up down sw sws = (if sw = RC_SWITCH_UP then sws OR up
     else if sw = RC_SWITCH_DOWN then sws OR down else sws)"

definition enc_three_way :: "u8 \<Rightarrow> u8 \<Rightarrow> u8 \<Rightarrow> u32 \<Rightarrow> u8 \<Rightarrow> u8" where
  "enc_three_way up middle down sw sws = (if sw = RC_SWITCH_UP then sws OR up
     else if sw = RC_SWITCH_MIDDLE then sws OR middle
     else if sw = RC_SWITCH_DOWN then sws OR down else sws)"

definition enc_rc_switches :: "rc_state_message \<Rightarrow> u8" where
  "enc_rc_switches m =
     enc_two_way 0b10000000 0b11000000 (swd m)
      (enc_three_way 0b00100000 0b00010000 0b00110000 (swc m)
        (enc_three_way 0b00001000 0b00000100 0b00001100 (swb m)
          (enc_two_way 0b00000010 0b00000011 (swa m) 0)))"

definition enc_rc_state :: "u8 list \<Rightarrow> rc_state_message \<Rightarrow> u8 list" where
  "enc_rc_state junk m = [enc_rc_switches m, stick_right_h m, stick_right_v m,
     stick_left_v m, stick_left_h m, var_a m, junk ! 6, junk ! 7]"

definition enc_hs_state :: "actuator_hs_state_message \<Rightarrow> u8 list res" where
  "enc_hs_state m = bindR (deci_enc (hs_current m)) (\<lambda>current.
     Inr (put16 (hs_rpm m) @ put16 current @ put32 (pulse_count m)))"

definition enc_ls_state :: "u8 list \<Rightarrow> actuator_ls_state_message \<Rightarrow> u8 list res" where
  "enc_ls_state junk m = bindR (deci_enc (driver_voltage m)) (\<lambda>volt.
     bindR (fp_to_signed (ls_driver_temp m)) (\<lambda>temp.
     bindR (fp_to_signed (ls_motor_temp m)) (\<lambda>mtemp.
     Inr (put16 volt @ put16 temp @ [mtemp, driver_state m, junk ! 6, junk ! 7]))))"

definition enc_bms_basic :: "bms_basic_message \<Rightarrow> u8 list res" where
  "enc_bms_basic m = bindR (deci_enc (voltage m)) (\<lambda>volt.
     bindR (deci_enc (bms_current m)) (\<lambda>current.
     bindR (deci_enc (temperature m)) (\<lambda>temp.
     Inr ([battery_soc m, battery_soh m] @ put16 volt @ put16 current @ put16 temp))))"

text \<open>
  The encoder: the result flag, the frame and the light counter.  A body that
  is not the member the branch reads is outside the behaviour the program
  relies on and counted as undefined.
\<close>

definition EncodeCanFrameV2 ::
  "u8 list \<Rightarrow> u8 \<Rightarrow> agx_message \<Rightarrow> can_frame \<Rightarrow> (bool \<times> can_frame \<times> u8) res" where
  "EncodeCanFrameV2 junk count msg tx = (let
       send = (\<lambda>cid bs. Inr (True, put_frame cid bs tx, count));
       todo = (\<lambda>cid n. Inr (True, put_frame cid (take n junk) tx, count));
       sendR = (\<lambda>cid r. bindR r (\<lambda>bs. Inr (True, put_frame cid bs tx, count))) in
     case mtype msg of
       AgxMsgMotionCommand \<Rightarrow> (case body msg of
           BMotionCommand m \<Rightarrow> sendR CAN_MSG_MOTION_COMMAND_ID (enc_motion m) | _ \<Rightarrow> Inl Undefined)
     | AgxMsgLightCommand \<Rightarrow> (case body msg of
           BLight m \<Rightarrow> Inr (True, put_frame CAN_MSG_LIGHT_COMMAND_ID (enc_light count m) tx, count + 1)
         | _ \<Rightarrow> Inl Undefined)
     | AgxMsgBrakingCommand \<Rightarrow> todo CAN_MSG_BRAKING_COMMAND_ID 2
     | AgxMsgSetMotionModeCommand \<Rightarrow> (case body msg of
           BMotionMode m \<Rightarrow> send CAN_MSG_SET_MOTION_MODE_ID [m, 0, 0, 0, 0, 0, 0, 0]
         | _ \<Rightarrow> Inl Undefined)
     | AgxMsgSystemState \<Rightarrow> (case body msg of
           BSystemState m \<Rightarrow> sendR CAN_MSG_SYSTEM_STATE_ID (enc_system_state junk m)
         | _ \<Rightarrow> Inl Undefined)
     | AgxMsgMotionState \<Rightarrow> (case body msg of
           BMotionState m \<Rightarrow> sendR CAN_MSG_MOTION_STATE_ID (enc_motion m) | _ \<Rightarrow> Inl Undefined)
     | AgxMsgMotionModeState \<Rightarrow> (case body msg of
           BMotionModeState m \<Rightarrow> send CAN_MSG_CURRENT_CTRL_MODE [motion_mode m, mode_changing m]
         | _ \<Rightarrow> Inl Undefined)
     | AgxMsgLightState \<Rightarrow> todo CAN_MSG_LIGHT_STATE_ID 8
     | AgxMsgRcState \<Rightarrow> (case body msg of
           BRcState m \<Rightarrow> send CAN_MSG_RC_STATE_ID (enc_rc_state junk m) | _ \<Rightarrow> Inl Undefined)
     | AgxMsgActuatorHSState \<Rightarrow> (case body msg of
           BActuatorHS m \<Rightarrow> sendR (ucast (hs_motor_id m) + CAN_MSG_ACTUATOR1_HS_STATE_ID) (enc_hs_state m)
         | _ \<Rightarrow> Inl Undefined)
     | AgxMsgActuatorLSState \<Rightarrow> (case body msg of
           BActuatorLS m \<Rightarrow>
             sendR (ucast (ls_motor_id m) + CAN_MSG_ACTUATOR1_LS_STATE_ID) (enc_ls_state junk m)
         | _ \<Rightarrow> Inl Undefined)
     | AgxMsgOdometry \<Rightarrow> todo CAN_MSG_ODOMETRY_ID 8
     | AgxMsgImuAccel \<Rightarrow> todo CAN_MSG_IMU_ACCEL_ID 8
     | AgxMsgImuGyro \<Rightarrow> todo CAN_MSG_IMU_GYRO_ID 8
     | AgxMsgImuEuler \<Rightarrow> todo CAN_MSG_IMU_EULER_ID 8
     | AgxMsgSafetyBumper \<Rightarrow> todo CAN_MSG_SAFETY_BUMPER_ID 8
     | AgxMsgUltrasonic \<Rightarrow> (case body msg of
           BUltrasonic n \<Rightarrow> todo (ucast n + CAN_MSG_ULTRASONIC_1_ID) 8 | _ \<Rightarrow> Inl Undefined)
     | AgxMsgUwb \<Rightarrow> (case body msg of
           BUwb n \<Rightarrow> todo (ucast n + CAN_MSG_UWB_1_ID) 8 | _ \<Rightarrow> Inl Undefined)
     | AgxMsgBmsBasic \<Rightarrow> (case body msg of
           BBmsBasic m \<Rightarrow> sendR CAN_MSG_BMS_BASIC_ID (enc_bms_basic m) | _ \<Rightarrow> Inl Undefined)
     | AgxMsgBmsExtended \<Rightarrow> todo CAN_MSG_BMS_EXTENDED_ID 8
     | AgxMsgVersionRequest \<Rightarrow> todo CAN_MSG_VERSION_REQUEST_ID 8
     | AgxMsgVersionResponse \<Rightarrow> todo CAN_MSG_VERSION_RESPONSE_ID 8
     | AgxMsgControlModeConfig \<Rightarrow> (case body msg of
           BControlModeConfig m \<Rightarrow> send CAN_MSG_CTRL_MODE_CONFIG_ID [ucast m, 0, 0, 0, 0, 0, 0, 0]
         | _ \<Rightarrow> Inl Undefined)
     | AgxMsgBrakeModeConfig \<Rightarrow> (case body msg of
           BBrakeModeConfig m \<Rightarrow> send CAN_MSG_BRAKING_COMMAND_ID [ucast m, 0, 0, 0, 0, 0, 0, 0]
         | _ \<Rightarrow> Inl Undefined)
     | AgxMsgSteerNeutralRequest \<Rightarrow> todo CAN_MSG_STEER_NEUTRAL_REQUEST_ID 8
     | AgxMsgSteerNeutralResponse \<Rightarrow> todo CAN_MSG_STEER_NEUTRAL_RESPONSE_ID 8
     | AgxMsgStateResetConfig \<Rightarrow> todo CAN_MSG_STATE_RESET_CONFIG_ID 8
     | _ \<Rightarrow> Inr (False, tx, count))"

section \<open>Checksum\<close>

definition CalcCanFrameChecksumV2 :: "u16 \<Rightarrow> u8 list \<Rightarrow> u8 \<Rightarrow> u8 res" where
  "CalcCanFrameChecksumV2 cid d dlc = (if length d < unat dlc - 1 then Inl OutOfBounds
     else Inr (fold (\<lambda>b c. c + b) (take (unat dlc - 1) d)
            (ucast (cid AND 0x00ff) + ucast (drop_bit 8 cid) + dlc)))"

section \<open>Accuracy of the scaled numbers\<close>

lemma sint16_bounds: "- 32768 \<le> sint (v :: u16)" "sint (v :: u16) \<le> 32767"
  using sint_ge[of v] sint_lt[of v] by simp_all

lemma abs_of_int_le: "\<bar>k\<bar> \<le> n \<Longrightarrow> \<bar>of_int k\<bar> \<le> (of_int n :: rat)"
  by (metis of_int_abs of_int_le_iff)

lemma fp_to_signed_16:
  "rat_trunc z = t \<Longrightarrow> - 32768 \<le> t \<Longrightarrow> t \<le> 32767 \<Longrightarrow>
     \<exists>w. fp_to_signed (Fin z) = Inr (w :: u16) \<and> sint w = t"
  by (auto simp: fp_to_signed_def sint_sbintrunc' signed_take_bit_int_eq_self_iff)

text \<open>A reading that is off by a relative 2^-22 at most comes back within one unit.\<close>

lemma scaled_roundtrip:
  fixes v :: u16
  assumes s: "1 \<le> s" "s \<le> 1000"
    and y: "\<bar>y - of_int (sint v) / s\<bar> \<le> \<bar>of_int (sint v)\<bar> / s / 2 ^ 22"
  shows "\<exists>w. fp_to_signed (fp_mul f32 (Fin y) (Fin s)) = Inr (w :: u16)
    \<and> (sint w = sint v \<or> sint w = sint v - sgn (sint v))"
proof (cases "sint v = 0")
  case True
  then have "y = 0" using y by simp
  then show ?thesis using True fp_to_signed_16[of 0 0] by (auto simp: rat_trunc_def)
next
  case False
  have "\<bar>sint v\<bar> \<le> 2 ^ 20" using sint16_bounds[of v] by simp
  then obtain z where z: "fp_mul f32 (Fin y) (Fin s) = Fin z"
    "\<bar>z - of_int (sint v)\<bar> \<le> \<bar>of_int (sint v)\<bar> / 2 ^ 21"
    using scaled_enc[OF False _ s y] by blast
  have "\<bar>sint v\<bar> \<le> 32768" using sint16_bounds[of v] by linarith
  then have "\<bar>of_int (sint v)\<bar> \<le> (of_int 32768 :: rat)" by (rule abs_of_int_le)
  then have "\<bar>z - of_int (sint v)\<bar> < 1" using z(2) by simp
  then have t: "rat_trunc z = sint v \<or> rat_trunc z = sint v - sgn (sint v)" by (rule rat_trunc_near)
  moreover have "- 32768 \<le> rat_trunc z" "rat_trunc z \<le> 32767"
    using t False sint16_bounds[of v] by (auto simp: sgn_if split: if_splits)
  ultimately show ?thesis using fp_to_signed_16[of z "rat_trunc z"] z(1) by auto
qed

lemma to_f32_f64_near:
  assumes "1 / 2 ^ 50 \<le> \<bar>x\<bar>" "\<bar>x\<bar> \<le> 2 ^ 50"
  shows "\<exists>y. to_f32 (f64 x) = Fin y \<and> \<bar>y - x\<bar> \<le> \<bar>x\<bar> / 2 ^ 23"
proof -
  have "1 / 2 ^ 100 \<le> \<bar>x\<bar>" "\<bar>x\<bar> \<le> 2 ^ 100"
    by (rule order_trans[OF _ assms(1)], simp) (rule order_trans[OF assms(2)], simp)
  then obtain y where y: "f64 x = Fin y" "\<bar>y - x\<bar> \<le> \<bar>x\<bar> / 2 ^ 53" using f64_rel by blast
  have t: "\<bar>y\<bar> \<le> \<bar>x\<bar> + \<bar>y - x\<bar>" "\<bar>x\<bar> - \<bar>y - x\<bar> \<le> \<bar>y\<bar>" by linarith+
  have b: "\<bar>x\<bar> / 2 \<le> \<bar>y\<bar>" "\<bar>y\<bar> \<le> 2 * \<bar>x\<bar>" using t y(2) abs_ge_zero[of x] by simp_all
  have h: "1 / 2 ^ 51 \<le> \<bar>y\<bar>" "\<bar>y\<bar> \<le> 2 ^ 51" using assms b by simp_all
  have "1 / 2 ^ 100 \<le> \<bar>y\<bar>" "\<bar>y\<bar> \<le> 2 ^ 100"
    by (rule order_trans[OF _ h(1)], simp) (rule order_trans[OF h(2)], simp)
  then obtain z where z: "f32 y = Fin z" "\<bar>z - y\<bar> \<le> \<bar>y\<bar> / 2 ^ 24" using f32_rel by blast
  have "\<bar>z - x\<bar> \<le> \<bar>z - y\<bar> + \<bar>y - x\<bar>" by linarith
  moreover have "\<bar>y\<bar> \<le> \<bar>x\<bar> + \<bar>x\<bar> / 2 ^ 53" using t(1) y(2) by linarith
  ultimately have "\<bar>z - x\<bar> \<le> \<bar>x\<bar> / 2 ^ 23"
    using z(2) y(2) assms(1) by simp
  then show ?thesis using y(1) z(1) by (simp add: to_f32_def)
qed

lemma of_int_lower: "k \<noteq> 0 \<Longrightarrow> 1 \<le> \<bar>of_int k :: rat\<bar>"
  by (metis of_int_abs of_int_1_le_iff zero_less_abs_iff int_one_le_iff_zero_less)

lemma milli_dec_near:
  "\<exists>y. milli_dec v = Fin y \<and> \<bar>y - of_int (sint v) / 1000\<bar> \<le> \<bar>of_int (sint v)\<bar> / 1000 / 2 ^ 22"
proof (cases "sint v = 0")
  case True
  then show ?thesis by (simp add: milli_dec_def to_f32_def del: of_int_sint)
next
  case False
  let ?x = "of_int (sint v) / 1000 :: rat"
  have a: "1 \<le> \<bar>of_int (sint v) :: rat\<bar>" "\<bar>of_int (sint v)\<bar> \<le> (of_int 32768 :: rat)"
    using of_int_lower[OF False] abs_of_int_le[of "sint v" 32768] sint16_bounds[of v]
    by (simp_all add: abs_le_iff del: of_int_sint)
  obtain y where "to_f32 (f64 ?x) = Fin y" "\<bar>y - ?x\<bar> \<le> \<bar>?x\<bar> / 2 ^ 23"
    using to_f32_f64_near[of ?x] a by (auto simp del: of_int_sint)
  moreover have "\<bar>?x\<bar> / 2 ^ 23 \<le> \<bar>of_int (sint v)\<bar> / 1000 / 2 ^ 22" by (simp del: of_int_sint)
  ultimately show ?thesis by (auto simp: milli_dec_def simp del: of_int_sint intro: order_trans)
qed

lemma milli_roundtrip:
  "\<exists>w. milli_enc (milli_dec v) = Inr w \<and> (sint w = sint v \<or> sint w = sint v - sgn (sint v))"
  using milli_dec_near[of v] scaled_roundtrip[of 1000 _ v] by (auto simp: milli_enc_def)

text \<open>The product with the double nearest to 0.1.\<close>

lemma tenth_f64: "\<exists>d. f64 (1 / 10) = Fin d \<and> \<bar>d - 1 / 10\<bar> \<le> 1 / 2 ^ 56"
proof -
  obtain d where "f64 (1 / 10) = Fin d" "\<bar>d - 1 / 10\<bar> \<le> \<bar>1 / 10\<bar> / 2 ^ 53"
    using f64_rel[of "1 / 10"] by auto
  then show ?thesis by (intro exI[of _ d]) (auto intro: order_trans)
qed

lemma deci_dec_near:
  assumes "\<bar>k\<bar> \<le> 65536"
  shows "\<exists>y. deci_dec k = Fin y \<and> \<bar>y - of_int k / 10\<bar> \<le> \<bar>of_int k\<bar> / 10 / 2 ^ 22"
proof (cases "k = 0")
  case True
  then show ?thesis using tenth_f64 by (auto simp: deci_dec_def to_f32_def)
next
  case False
  obtain d where d: "f64 (1 / 10) = Fin d" "\<bar>d - 1 / 10\<bar> \<le> 1 / 2 ^ 56" using tenth_f64 by blast
  let ?x = "of_int k * d :: rat" and ?k = "\<bar>of_int k\<bar> :: rat"
  have a: "1 \<le> ?k" "?k \<le> of_int 65536"
    using of_int_lower[OF False] abs_of_int_le[OF assms] by simp_all
  have "?x - of_int k / 10 = of_int k * (d - 1 / 10)" by (simp add: algebra_simps)
  then have "\<bar>?x - of_int k / 10\<bar> = ?k * \<bar>d - 1 / 10\<bar>" by (simp only: abs_mult)
  also have "\<dots> \<le> ?k * (1 / 2 ^ 56)" by (rule mult_left_mono[OF d(2)]) simp
  finally have e: "\<bar>?x - of_int k / 10\<bar> \<le> ?k / 2 ^ 56" by simp
  have t: "\<bar>?x\<bar> \<le> ?k / 10 + ?k / 2 ^ 56" "?k / 10 - ?k / 2 ^ 56 \<le> \<bar>?x\<bar>"
    using e by linarith+
  have "1 / 2 ^ 50 \<le> \<bar>?x\<bar>" "\<bar>?x\<bar> \<le> 2 ^ 50" using t a by simp_all
  then obtain y where y: "to_f32 (f64 ?x) = Fin y" "\<bar>y - ?x\<bar> \<le> \<bar>?x\<bar> / 2 ^ 23"
    using to_f32_f64_near by blast
  have "\<bar>y - of_int k / 10\<bar> \<le> \<bar>y - ?x\<bar> + \<bar>?x - of_int k / 10\<bar>" by linarith
  then have "\<bar>y - of_int k / 10\<bar> \<le> ?k / 10 / 2 ^ 22" using y(2) e t(1) a by simp
  then show ?thesis using y(1) d(1) by (simp add: deci_dec_def)
qed

lemma deci_roundtrip:
  fixes v :: u16
  shows "\<exists>w. deci_enc (deci_dec (sint v)) = Inr w \<and> (sint w = sint v \<or> sint w = sint v - sgn (sint v))"
proof -
  have "\<bar>sint v\<bar> \<le> 65536" using sint16_bounds[of v] by linarith
  then show ?thesis
    using deci_dec_near scaled_roundtrip[of 10 _ v] by (fastforce simp: deci_enc_def)
qed

section \<open>Frames\<close>

lemma put_frame_simps [simp]:
  "can_id (put_frame c bs tx) = c" "can_dlc (put_frame c bs tx) = of_nat (length bs)"
  "cdata (put_frame c bs tx) = bs @ drop (length bs) (cdata tx)"
  by (simp_all add: put_frame_def)

lemma length_puts [simp]: "length (put16 v) = 2" "length (put32 w) = 4"
  by (simp_all add: put16_def put32_def)

lemma at16_put [simp]:
  "at16 (put16 v @ r) 0 = v" "at16 (a # b # r) (Suc (Suc i)) = at16 r i"
  by (simp_all add: at16_def put16_def)

text \<open>Reading a union member succeeds for that member only.\<close>

lemma body_case_Inr:
  "(case b of BMotionCommand m \<Rightarrow> f1 m | _ \<Rightarrow> Inl e) = Inr x \<longleftrightarrow> (\<exists>m. b = BMotionCommand m \<and> f1 m = Inr x)"
  "(case b of BLight m \<Rightarrow> f2 m | _ \<Rightarrow> Inl e) = Inr x \<longleftrightarrow> (\<exists>m. b = BLight m \<and> f2 m = Inr x)"
  "(case b of BMotionMode m \<Rightarrow> f3 m | _ \<Rightarrow> Inl e) = Inr x \<longleftrightarrow> (\<exists>m. b = BMotionMode m \<and> f3 m = Inr x)"
  "(case b of BSystemState m \<Rightarrow> f4 m | _ \<Rightarrow> Inl e) = Inr x \<longleftrightarrow> (\<exists>m. b = BSystemState m \<and> f4 m = Inr x)"
  "(case b of BMotionState m \<Rightarrow> f5 m | _ \<Rightarrow> Inl e) = Inr x \<longleftrightarrow> (\<exists>m. b = BMotionState m \<and> f5 m = Inr x)"
  "(case b of BMotionModeState m \<Rightarrow> f6 m | _ \<Rightarrow> Inl e) = Inr x \<longleftrightarrow> (\<exists>m. b = BMotionModeState m \<and> f6 m = Inr x)"
  "(case b of BRcState m \<Rightarrow> f7 m | _ \<Rightarrow> Inl e) = Inr x \<longleftrightarrow> (\<exists>m. b = BRcState m \<and> f7 m = Inr x)"
  "(case b of BActuatorHS m \<Rightarrow> f8 m | _ \<Rightarrow> Inl e) = Inr x \<longleftrightarrow> (\<exists>m. b = BActuatorHS m \<and> f8 m = Inr x)"
  "(case b of BActuatorLS m \<Rightarrow> f9 m | _ \<Rightarrow> Inl e) = Inr x \<longleftrightarrow> (\<exists>m. b = BActuatorLS m \<and> f9 m = Inr x)"
  "(case b of BUltrasonic m \<Rightarrow> f10 m | _ \<Rightarrow> Inl e) = Inr x \<longleftrightarrow> (\<exists>m. b = BUltrasonic m \<and> f10 m = Inr x)"
  "(case b of BUwb m \<Rightarrow> f11 m | _ \<Rightarrow> Inl e) = Inr x \<longleftrightarrow> (\<exists>m. b = BUwb m \<and> f11 m = Inr x)"
  "(case b of BBmsBasic m \<Rightarrow> f12 m | _ \<Rightarrow> Inl e) = Inr x \<longleftrightarrow> (\<exists>m. b = BBmsBasic m \<and> f12 m = Inr x)"
  "(case b of BControlModeConfig m \<Rightarrow> f13 m | _ \<Rightarrow> Inl e) = Inr x \<longleftrightarrow> (\<exists>m. b = BControlModeConfig m \<and> f13 m = Inr x)"
  "(case b of BBrakeModeConfig m \<Rightarrow> f14 m | _ \<Rightarrow> Inl e) = Inr x \<longleftrightarrow> (\<exists>m. b = BBrakeModeConfig m \<and> f14 m = Inr x)"
  "(case b of BMotionCommandV1 m \<Rightarrow> f15 m | _ \<Rightarrow> Inl e) = Inr x \<longleftrightarrow> (\<exists>m. b = BMotionCommandV1 m \<and> f15 m = Inr x)"
  "(case b of BValueSetV1 m \<Rightarrow> f16 m | _ \<Rightarrow> Inl e) = Inr x \<longleftrightarrow> (\<exists>m. b = BValueSetV1 m \<and> f16 m = Inr x)"
  by (cases b; auto)+

text \<open>Which identifiers the decoder knows, and the type each is given.\<close>

definition v2_type_of :: "u32 \<Rightarrow> msg_type option" where
  "v2_type_of cid = (
     if cid = CAN_MSG_MOTION_COMMAND_ID then Some AgxMsgMotionCommand else
     if cid = CAN_MSG_SET_MOTION_MODE_ID then Some AgxMsgSetMotionModeCommand else
     if cid = CAN_MSG_LIGHT_COMMAND_ID then Some AgxMsgLightCommand else
     if cid = CAN_MSG_BRAKING_COMMAND_ID then Some AgxMsgBrakingCommand else
     if cid = CAN_MSG_SYSTEM_STATE_ID then Some AgxMsgSystemState else
     if cid = CAN_MSG_MOTION_STATE_ID then Some AgxMsgMotionState else
     if cid = CAN_MSG_LIGHT_STATE_ID then Some AgxMsgLightState else
     if cid = CAN_MSG_RC_STATE_ID then Some AgxMsgRcState else
     if CAN_MSG_ACTUATOR1_HS_STATE_ID \<le> cid \<and> cid \<le> CAN_MSG_ACTUATOR8_HS_STATE_ID then Some AgxMsgActuatorHSState else
     if CAN_MSG_ACTUATOR1_LS_STATE_ID \<le> cid \<and> cid \<le> CAN_MSG_ACTUATOR8_LS_STATE_ID then Some AgxMsgActuatorLSState else
     if cid = CAN_MSG_CURRENT_CTRL_MODE then Some AgxMsgMotionModeState else
     if cid = CAN_MSG_ODOMETRY_ID then Some AgxMsgOdometry else
     if cid = CAN_MSG_IMU_ACCEL_ID then Some AgxMsgImuAccel else
     if cid = CAN_MSG_IMU_GYRO_ID then Some AgxMsgImuGyro else
     if cid = CAN_MSG_IMU_EULER_ID then Some AgxMsgImuEuler else
     if cid = CAN_MSG_SAFETY_BUMPER_ID then Some AgxMsgSafetyBumper else
     if CAN_MSG_ULTRASONIC_1_ID \<le> cid \<and> cid \<le> CAN_MSG_ULTRASONIC_8_ID then Some AgxMsgUltrasonic else
     if CAN_MSG_UWB_1_ID \<le> cid \<and> cid \<le> CAN_MSG_UWB_4_ID then Some AgxMsgUwb else
     if cid = CAN_MSG_BMS_BASIC_ID then Some AgxMsgBmsBasic else
     if cid = CAN_MSG_BMS_EXTENDED_ID then Some AgxMsgBmsExtended else
     if cid = CAN_MSG_VERSION_REQUEST_ID then Some AgxMsgVersionRequest else
     if cid = CAN_MSG_VERSION_RESPONSE_ID then Some AgxMsgVersionResponse else
     if cid = CAN_MSG_CTRL_MODE_CONFIG_ID then Some AgxMsgControlModeConfig else
     if cid = CAN_MSG_STEER_NEUTRAL_REQUEST_ID then Some AgxMsgSteerNeutralRequest else
     if cid = CAN_MSG_STEER_NEUTRAL_RESPONSE_ID then Some AgxMsgSteerNeutralResponse else
     if cid = CAN_MSG_STATE_RESET_CONFIG_ID then Some AgxMsgStateResetConfig else
     if cid = CAN_MSG_MOTOR_ANGLE_INFO then Some AgxMsgMotorAngle else
     if cid = CAN_MSG_MOTOR_SPEED_INFO then Some AgxMsgMotorSpeed else
     None)"

definition decoded_type :: "bool \<times> agx_message \<Rightarrow> msg_type option" where
  "decoded_type r = (if fst r then Some (mtype (snd r)) else None)"

lemma decoded_type_simps:
  "decoded_type (True, m) = Some (mtype m)" "decoded_type (False, m) = None"
  by (simp_all add: decoded_type_def)

lemma decode_v2_type: "decoded_type (DecodeCanFrameV2 stale rx) = v2_type_of (can_id rx)"
  unfolding DecodeCanFrameV2_def v2_type_of_def Let_def
  by (simp only: if_distrib[of decoded_type] decoded_type_simps agx_message.select_convs)

lemma decoded_type_Some: "decoded_type r = Some t \<longleftrightarrow> (\<exists>m. r = (True, m) \<and> mtype m = t)"
  by (cases r) (auto simp: decoded_type_def)

lemma u8_small: "(n :: u8) < 8 \<Longrightarrow> n \<in> {0, 1, 2, 3, 4, 5, 6, 7}"
proof -
  assume "n < 8"
  then have "unat n < 8" by (simp add: word_less_nat_alt)
  then have "unat n \<in> {0, 1, 2, 3, 4, 5, 6, 7}" by auto
  then show ?thesis by (simp add: word_unat_eq_iff)
qed

lemma u8_small4: "(n :: u8) < 4 \<Longrightarrow> n \<in> {0, 1, 2, 3}"
proof -
  assume "n < 4"
  then have "unat n < 4" by (simp add: word_less_nat_alt)
  then have "unat n \<in> {0, 1, 2, 3}" by auto
  then show ?thesis by (simp add: word_unat_eq_iff)
qed


lemma numbered_types:
  "\<forall>n \<in> set [0, 1, 2, 3, 4, 5, 6, 7 :: u8].
     v2_type_of (ucast n + CAN_MSG_ACTUATOR1_HS_STATE_ID) = Some AgxMsgActuatorHSState
   \<and> v2_type_of (ucast n + CAN_MSG_ACTUATOR1_LS_STATE_ID) = Some AgxMsgActuatorLSState
   \<and> v2_type_of (ucast n + CAN_MSG_ULTRASONIC_1_ID) = Some AgxMsgUltrasonic"
  "\<forall>n \<in> set [0, 1, 2, 3 :: u8].
     v2_type_of (ucast n + CAN_MSG_UWB_1_ID) = Some AgxMsgUwb"
  by code_simp+

text \<open>The identifier an encoded frame carries, for the types that have a single one.\<close>

definition fixed_ids :: "(msg_type \<times> u32) list" where
  "fixed_ids = [
     (AgxMsgMotionCommand, CAN_MSG_MOTION_COMMAND_ID),
     (AgxMsgLightCommand, CAN_MSG_LIGHT_COMMAND_ID),
     (AgxMsgBrakingCommand, CAN_MSG_BRAKING_COMMAND_ID),
     (AgxMsgSetMotionModeCommand, CAN_MSG_SET_MOTION_MODE_ID),
     (AgxMsgSystemState, CAN_MSG_SYSTEM_STATE_ID),
     (AgxMsgMotionState, CAN_MSG_MOTION_STATE_ID),
     (AgxMsgMotionModeState, CAN_MSG_CURRENT_CTRL_MODE),
     (AgxMsgLightState, CAN_MSG_LIGHT_STATE_ID),
     (AgxMsgRcState, CAN_MSG_RC_STATE_ID),
     (AgxMsgOdometry, CAN_MSG_ODOMETRY_ID),
     (AgxMsgImuAccel, CAN_MSG_IMU_ACCEL_ID),
     (AgxMsgImuGyro, CAN_MSG_IMU_GYRO_ID),
     (AgxMsgImuEuler, CAN_MSG_IMU_EULER_ID),
     (AgxMsgSafetyBumper, CAN_MSG_SAFETY_BUMPER_ID),
     (AgxMsgBmsBasic, CAN_MSG_BMS_BASIC_ID),
     (AgxMsgBmsExtended, CAN_MSG_BMS_EXTENDED_ID),
     (AgxMsgVersionRequest, CAN_MSG_VERSION_REQUEST_ID),
     (AgxMsgVersionResponse, CAN_MSG_VERSION_RESPONSE_ID),
     (AgxMsgControlModeConfig, CAN_MSG_CTRL_MODE_CONFIG_ID),
     (AgxMsgBrakeModeConfig, CAN_MSG_BRAKING_COMMAND_ID),
     (AgxMsgSteerNeutralRequest, CAN_MSG_STEER_NEUTRAL_REQUEST_ID),
     (AgxMsgSteerNeutralResponse, CAN_MSG_STEER_NEUTRAL_RESPONSE_ID),
     (AgxMsgStateResetConfig, CAN_MSG_STATE_RESET_CONFIG_ID)]"

lemma fixed_ids_type:
  "\<forall>(t, c) \<in> set fixed_ids. v2_type_of c =
     Some (if t = AgxMsgBrakeModeConfig then AgxMsgBrakingCommand else t)"
  by code_simp

lemma encode_v2_fixed:
  "EncodeCanFrameV2 junk count msg tx = Inr (True, tx', count') \<Longrightarrow>
   mtype msg \<notin> {AgxMsgActuatorHSState, AgxMsgActuatorLSState, AgxMsgUltrasonic, AgxMsgUwb} \<Longrightarrow>
   map_of fixed_ids (mtype msg) = Some (can_id tx')"
  unfolding EncodeCanFrameV2_def fixed_ids_def Let_def
  by (cases "mtype msg") (auto simp: bindR_eq_Inr body_case_Inr)

lemma encode_v2_numbered:
  assumes "EncodeCanFrameV2 junk count msg tx = Inr (True, tx', count')"
  shows
    "mtype msg = AgxMsgActuatorHSState \<Longrightarrow> \<exists>m. body msg = BActuatorHS m
       \<and> can_id tx' = ucast (hs_motor_id m) + CAN_MSG_ACTUATOR1_HS_STATE_ID"
    "mtype msg = AgxMsgActuatorLSState \<Longrightarrow> \<exists>m. body msg = BActuatorLS m
       \<and> can_id tx' = ucast (ls_motor_id m) + CAN_MSG_ACTUATOR1_LS_STATE_ID"
    "mtype msg = AgxMsgUltrasonic \<Longrightarrow> \<exists>n. body msg = BUltrasonic n
       \<and> can_id tx' = ucast n + CAN_MSG_ULTRASONIC_1_ID"
    "mtype msg = AgxMsgUwb \<Longrightarrow> \<exists>n. body msg = BUwb n \<and> can_id tx' = ucast n + CAN_MSG_UWB_1_ID"
  using assms by (auto simp: EncodeCanFrameV2_def bindR_eq_Inr body_case_Inr)

lemma numbered_type:
  "n < 8 \<Longrightarrow> v2_type_of (ucast (n :: u8) + CAN_MSG_ACTUATOR1_HS_STATE_ID) = Some AgxMsgActuatorHSState"
  "n < 8 \<Longrightarrow> v2_type_of (ucast n + CAN_MSG_ACTUATOR1_LS_STATE_ID) = Some AgxMsgActuatorLSState"
  "n < 8 \<Longrightarrow> v2_type_of (ucast n + CAN_MSG_ULTRASONIC_1_ID) = Some AgxMsgUltrasonic"
  "n < 4 \<Longrightarrow> v2_type_of (ucast n + CAN_MSG_UWB_1_ID) = Some AgxMsgUwb"
  using numbered_types u8_small[of n] u8_small4[of n] unfolding list.set by blast+

lemma encode_v2_id:
  assumes "EncodeCanFrameV2 junk count msg tx = Inr (True, tx', count')"
    "\<And>m. body msg = BActuatorHS m \<Longrightarrow> hs_motor_id m < 8"
    "\<And>m. body msg = BActuatorLS m \<Longrightarrow> ls_motor_id m < 8"
    "\<And>n. body msg = BUltrasonic n \<Longrightarrow> n < 8" "\<And>n. body msg = BUwb n \<Longrightarrow> n < 4"
  shows "v2_type_of (can_id tx') = Some
    (if mtype msg = AgxMsgBrakeModeConfig then AgxMsgBrakingCommand else mtype msg)"
proof (cases "mtype msg \<in> {AgxMsgActuatorHSState, AgxMsgActuatorLSState, AgxMsgUltrasonic, AgxMsgUwb}")
  case True
  then consider "mtype msg = AgxMsgActuatorHSState" | "mtype msg = AgxMsgActuatorLSState"
    | "mtype msg = AgxMsgUltrasonic" | "mtype msg = AgxMsgUwb" by blast
  then show ?thesis
  proof cases
    case 1
    then obtain m where m: "body msg = BActuatorHS m" "can_id tx' = ucast (hs_motor_id m) + CAN_MSG_ACTUATOR1_HS_STATE_ID"
      using encode_v2_numbered(1)[OF assms(1)] by blast
    show ?thesis unfolding m(2) numbered_type(1)[OF assms(2)[OF m(1)]] 1 by simp
  next
    case 2
    then obtain m where m: "body msg = BActuatorLS m" "can_id tx' = ucast (ls_motor_id m) + CAN_MSG_ACTUATOR1_LS_STATE_ID"
      using encode_v2_numbered(2)[OF assms(1)] by blast
    show ?thesis unfolding m(2) numbered_type(2)[OF assms(3)[OF m(1)]] 2 by simp
  next
    case 3
    then obtain n where m: "body msg = BUltrasonic n" "can_id tx' = ucast n + CAN_MSG_ULTRASONIC_1_ID"
      using encode_v2_numbered(3)[OF assms(1)] by blast
    show ?thesis unfolding m(2) numbered_type(3)[OF assms(4)[OF m(1)]] 3 by simp
  next
    case 4
    then obtain n where m: "body msg = BUwb n" "can_id tx' = ucast n + CAN_MSG_UWB_1_ID"
      using encode_v2_numbered(4)[OF assms(1)] by blast
    show ?thesis unfolding m(2) numbered_type(4)[OF assms(5)[OF m(1)]] 4 by simp
  qed
next
  case False
  then have "(mtype msg, can_id tx') \<in> set fixed_ids"
    by (rule map_of_SomeD[OF encode_v2_fixed[OF assms(1)]])
  then show ?thesis using fixed_ids_type by blast
qed

text \<open>
  v2_type_roundtrip: a frame the encoder produced (with an actuator or sensor number in range)
  is accepted by the decoder and gets the type it was encoded from, whatever
  stack memory the encoder copied and the decoder found; the brake-mode
  configuration alone comes back as the braking command whose identifier it
  shares.
\<close>
theorem v2_type_roundtrip:
  assumes "EncodeCanFrameV2 junk count msg tx = Inr (True, tx', count')"
    "\<And>m. body msg = BActuatorHS m \<Longrightarrow> hs_motor_id m < 8"
    "\<And>m. body msg = BActuatorLS m \<Longrightarrow> ls_motor_id m < 8"
    "\<And>n. body msg = BUltrasonic n \<Longrightarrow> n < 8" "\<And>n. body msg = BUwb n \<Longrightarrow> n < 4"
  shows "\<exists>m. DecodeCanFrameV2 stale tx' = (True, m) \<and> mtype m =
    (if mtype msg = AgxMsgBrakeModeConfig then AgxMsgBrakingCommand else mtype msg)"
  using encode_v2_id[OF assms] unfolding decode_v2_type[of stale, symmetric] decoded_type_Some .

definition example_msg :: agx_message where
  "example_msg = \<lparr>mtype = AgxMsgSetMotionModeCommand, body = BMotionMode 2\<rparr>"

definition empty_frame :: can_frame where
  "empty_frame = \<lparr>can_id = 0, can_dlc = 0, cdata = replicate 8 0\<rparr>"

definition no_stale :: rc_state_message where
  "no_stale = \<lparr>swa = 0, swb = 0, swc = 0, swd = 0, stick_right_v = 0, stick_right_h = 0,
     stick_left_v = 0, stick_left_h = 0, var_a = 0\<rparr>"

theorem v2_type_roundtrip_witness:
  "\<exists>tx' m. EncodeCanFrameV2 (replicate 8 0xcc) 0 example_msg empty_frame = Inr (True, tx', 0)
     \<and> DecodeCanFrameV2 no_stale tx' = (True, m) \<and> mtype m = AgxMsgSetMotionModeCommand"
proof -
  obtain tx' where e: "EncodeCanFrameV2 (replicate 8 0xcc) 0 example_msg empty_frame = Inr (True, tx', 0)"
    by (simp add: EncodeCanFrameV2_def example_msg_def)
  show ?thesis using v2_type_roundtrip[OF e, of no_stale] e by (auto simp: example_msg_def)
qed

lemma list8: "length d = 8 \<Longrightarrow> \<exists>a b c e f g h i. d = [a, b, c, e, f, g, h, i]"
  by (auto simp: length_Suc_conv eval_nat_numeral)

lemma enc_dec_motion:
  "\<exists>a b c e. enc_motion (dec_motion d) = Inr (put16 a @ put16 b @ put16 c @ put16 e)
    \<and> (sint a = sint (at16 d 0) \<or> sint a = sint (at16 d 0) - sgn (sint (at16 d 0)))
    \<and> (sint b = sint (at16 d 2) \<or> sint b = sint (at16 d 2) - sgn (sint (at16 d 2)))
    \<and> (sint c = sint (at16 d 4) \<or> sint c = sint (at16 d 4) - sgn (sint (at16 d 4)))
    \<and> (sint e = sint (at16 d 6) \<or> sint e = sint (at16 d 6) - sgn (sint (at16 d 6)))"
proof -
  obtain a where a: "milli_enc (milli_dec (at16 d 0)) = Inr a"
    "sint a = sint (at16 d 0) \<or> sint a = sint (at16 d 0) - sgn (sint (at16 d 0))"
    using milli_roundtrip by blast
  obtain b where b: "milli_enc (milli_dec (at16 d 2)) = Inr b"
    "sint b = sint (at16 d 2) \<or> sint b = sint (at16 d 2) - sgn (sint (at16 d 2))"
    using milli_roundtrip by blast
  obtain c where c: "milli_enc (milli_dec (at16 d 4)) = Inr c"
    "sint c = sint (at16 d 4) \<or> sint c = sint (at16 d 4) - sgn (sint (at16 d 4))"
    using milli_roundtrip by blast
  obtain e where e: "milli_enc (milli_dec (at16 d 6)) = Inr e"
    "sint e = sint (at16 d 6) \<or> sint e = sint (at16 d 6) - sgn (sint (at16 d 6))"
    using milli_roundtrip by blast
  have "enc_motion (dec_motion d) = Inr (put16 a @ put16 b @ put16 c @ put16 e)"
    by (simp add: enc_motion_def dec_motion_def a(1) b(1) c(1) e(1))
  then show ?thesis using a(2) b(2) c(2) e(2) by blast
qed

lemma at16_four:
  "at16 (put16 a @ put16 b @ put16 c @ put16 e @ r) 0 = a"
  "at16 (put16 a @ put16 b @ put16 c @ put16 e @ r) 2 = b"
  "at16 (put16 a @ put16 b @ put16 c @ put16 e @ r) 4 = c"
  "at16 (put16 a @ put16 b @ put16 c @ put16 e @ r) 6 = e"
  by (simp_all add: put16_def at16_def)

text \<open>
  v2_motion_relay: decoding a motion command frame and encoding the message again
  succeeds for every payload, and changes each of the four 16-bit readings
  by at most one unit, towards zero.
\<close>
theorem v2_motion_relay:
  assumes "can_id rx = CAN_MSG_MOTION_COMMAND_ID"
  shows "\<exists>m tx'. DecodeCanFrameV2 stale rx = (True, m)
    \<and> EncodeCanFrameV2 junk count m tx = Inr (True, tx', count) \<and> can_id tx' = can_id rx
    \<and> (\<forall>i \<in> {0, 2, 4, 6}. sint (at16 (cdata tx') i) = sint (at16 (cdata rx) i)
        \<or> sint (at16 (cdata tx') i) = sint (at16 (cdata rx) i) - sgn (sint (at16 (cdata rx) i)))"
proof -
  let ?m = "\<lparr>mtype = AgxMsgMotionCommand, body = BMotionCommand (dec_motion (cdata rx))\<rparr>"
  have "DecodeCanFrameV2 stale rx = (True, ?m)" using assms by (simp add: DecodeCanFrameV2_def)
  moreover obtain a b c e where e: "enc_motion (dec_motion (cdata rx)) =
      Inr (put16 a @ put16 b @ put16 c @ put16 e)"
    "sint a = sint (at16 (cdata rx) 0) \<or> sint a = sint (at16 (cdata rx) 0) - sgn (sint (at16 (cdata rx) 0))"
    "sint b = sint (at16 (cdata rx) 2) \<or> sint b = sint (at16 (cdata rx) 2) - sgn (sint (at16 (cdata rx) 2))"
    "sint c = sint (at16 (cdata rx) 4) \<or> sint c = sint (at16 (cdata rx) 4) - sgn (sint (at16 (cdata rx) 4))"
    "sint e = sint (at16 (cdata rx) 6) \<or> sint e = sint (at16 (cdata rx) 6) - sgn (sint (at16 (cdata rx) 6))"
    using enc_dec_motion by blast
  ultimately show ?thesis using assms
    by (intro exI[of _ ?m] exI[of _ "put_frame CAN_MSG_MOTION_COMMAND_ID
        (put16 a @ put16 b @ put16 c @ put16 e) tx"])
      (simp add: EncodeCanFrameV2_def at16_four)
qed

theorem v2_motion_relay_witness:
  "\<exists>m. DecodeCanFrameV2 no_stale \<lparr>can_id = CAN_MSG_MOTION_COMMAND_ID, can_dlc = 8,
     cdata = [0x00, 0xfb, 0xff, 0x05, 0, 0, 0, 0]\<rparr> = (True, m)"
  using v2_motion_relay[of "\<lparr>can_id = CAN_MSG_MOTION_COMMAND_ID, can_dlc = 8,
     cdata = [0x00, 0xfb, 0xff, 0x05, 0, 0, 0, 0]\<rparr>" no_stale] by fastforce

text \<open>
  v2_motion_truncated: the truncation does happen: a commanded speed of 0.251 m/s goes onto
  the bus as 250 mm/s, and the reading 251 decoded from the bus is relayed
  as 250.
\<close>
theorem v2_motion_truncated:
  "milli_enc (to_f32 (f64 (251 / 1000))) = Inr 250 \<and> milli_enc (milli_dec 251) = Inr 250"
  by code_simp

lemma rc_switches:
  "\<forall>a \<in> set [0, 2]. \<forall>b \<in> set [0, 1, 2]. \<forall>c \<in> set [0, 1, 2]. \<forall>d \<in> set [0, 2].
     (let s = enc_two_way 0b10000000 0b11000000 d
      (enc_three_way 0b00100000 0b00010000 0b00110000 c
        (enc_three_way 0b00001000 0b00000100 0b00001100 b
          (enc_two_way 0b00000010 0b00000011 a 0))) in
      dec_two_way s 0b00000011 0b00000010 0b00000011 o1 = a
    \<and> dec_three_way s 0b00001100 0b00001000 0b00000100 0b00001100 o2 = b
    \<and> dec_three_way s 0b00110000 0b00100000 0b00010000 0b00110000 o3 = c
    \<and> dec_two_way s 0b11000000 0b10000000 0b11000000 o4 = d)"
  by code_simp
definition rc_valid :: "rc_state_message \<Rightarrow> bool" where
  "rc_valid m \<longleftrightarrow> swa m \<in> {RC_SWITCH_UP, RC_SWITCH_DOWN}
     \<and> swb m \<in> {RC_SWITCH_UP, RC_SWITCH_MIDDLE, RC_SWITCH_DOWN}
     \<and> swc m \<in> {RC_SWITCH_UP, RC_SWITCH_MIDDLE, RC_SWITCH_DOWN}
     \<and> swd m \<in> {RC_SWITCH_UP, RC_SWITCH_DOWN}"

lemma dec_enc_rc:
  assumes "rc_valid m"
  shows "dec_rc_state stale (enc_rc_state junk m @ r) = m"
proof -
  have "swa m \<in> set [0, 2]" "swb m \<in> set [0, 1, 2]" "swc m \<in> set [0, 1, 2]" "swd m \<in> set [0, 2]"
    using assms by (auto simp: rc_valid_def rc_switch_defs)
  then show ?thesis
    using rc_switches[of "swa stale" "swb stale" "swc stale" "swd stale"]
    by (cases m) (simp add: dec_rc_state_def enc_rc_state_def enc_rc_switches_def Let_def del: list.set)
qed

text \<open>
  C29 v2_rc_roundtrip: a remote-control state with every switch in a position the switch has
  survives encoding and decoding unchanged, whatever the encoder's stack and
  the decoder's message held before.
\<close>
theorem v2_rc_roundtrip:
  assumes "rc_valid m"
  shows "\<exists>tx'. EncodeCanFrameV2 junk count \<lparr>mtype = AgxMsgRcState, body = BRcState m\<rparr> tx
      = Inr (True, tx', count)
    \<and> DecodeCanFrameV2 stale tx' = (True, \<lparr>mtype = AgxMsgRcState, body = BRcState m\<rparr>)"
  using dec_enc_rc[OF assms] by (simp add: EncodeCanFrameV2_def DecodeCanFrameV2_def v2_id_defs)

theorem v2_rc_roundtrip_witness:
  "\<exists>tx'. DecodeCanFrameV2 (no_stale\<lparr>swa := 9\<rparr>) tx' = (True, \<lparr>mtype = AgxMsgRcState, body = BRcState no_stale\<rparr>)"
proof -
  have "rc_valid no_stale" by (simp add: rc_valid_def no_stale_def rc_switch_defs)
  from v2_rc_roundtrip[OF this] show ?thesis by blast
qed

text \<open>
  v2_rc_stale: a switch pattern that names no position leaves the switch at what the caller's
  message held before: the two-position switches keep the old value for half
  of the bit patterns, the three-position ones for the all-zero pattern.
\<close>
theorem v2_rc_stale:
  assumes "can_id rx = CAN_MSG_RC_STATE_ID" "cdata rx ! 0 = 0"
  shows "\<exists>m. DecodeCanFrameV2 stale rx = (True, \<lparr>mtype = AgxMsgRcState, body = BRcState m\<rparr>)
    \<and> swa m = swa stale \<and> swb m = swb stale \<and> swc m = swc stale \<and> swd m = swd stale"
  using assms by (simp add: DecodeCanFrameV2_def v2_id_defs dec_rc_state_def dec_two_way_def
      dec_three_way_def Let_def)

theorem v2_rc_stale_witness:
  "\<exists>m. DecodeCanFrameV2 (no_stale\<lparr>swa := 77\<rparr>) (empty_frame\<lparr>can_id := CAN_MSG_RC_STATE_ID\<rparr>)
    = (True, \<lparr>mtype = AgxMsgRcState, body = BRcState m\<rparr>) \<and> swa m = 77"
  using v2_rc_stale[of "empty_frame\<lparr>can_id := CAN_MSG_RC_STATE_ID\<rparr>" "no_stale\<lparr>swa := 77\<rparr>"]
  by (fastforce simp: empty_frame_def)

text \<open>
  v2_actuator_relay: relaying a high-speed actuator frame (decode, then encode) keeps the
  identifier, the motor's speed and its pulse counter bit for bit and changes
  the current by at most one tenth of an ampere, towards zero.
\<close>
theorem v2_actuator_relay:
  assumes "n < 8" "can_id rx = CAN_MSG_ACTUATOR1_HS_STATE_ID + ucast (n :: u8)" "length (cdata rx) = 8"
  shows "\<exists>m tx'. DecodeCanFrameV2 stale rx = (True, \<lparr>mtype = AgxMsgActuatorHSState, body = BActuatorHS m\<rparr>)
    \<and> hs_motor_id m = n
    \<and> EncodeCanFrameV2 junk count \<lparr>mtype = AgxMsgActuatorHSState, body = BActuatorHS m\<rparr> tx
        = Inr (True, tx', count)
    \<and> can_id tx' = can_id rx \<and> at16 (cdata tx') 0 = at16 (cdata rx) 0
    \<and> at32 (cdata tx') 4 = at32 (cdata rx) 4
    \<and> (sint (at16 (cdata tx') 2) = sint (at16 (cdata rx) 2)
       \<or> sint (at16 (cdata tx') 2) = sint (at16 (cdata rx) 2) - sgn (sint (at16 (cdata rx) 2)))"
proof -
  have r: "CAN_MSG_ACTUATOR1_HS_STATE_ID \<le> can_id rx" "can_id rx \<le> CAN_MSG_ACTUATOR8_HS_STATE_ID"
    using u8_small[OF assms(1)] by (auto simp: assms(2) v2_id_defs)
  have d: "DecodeCanFrameV2 stale rx = (True, \<lparr>mtype = AgxMsgActuatorHSState,
     body = BActuatorHS (dec_hs_state (can_id rx) (cdata rx))\<rparr>)"
    using r by (auto simp: DecodeCanFrameV2_def v2_id_defs Let_def)
  let ?m = "dec_hs_state (can_id rx) (cdata rx)"
  have i: "hs_motor_id ?m = n" using u8_small[OF assms(1)] by (auto simp: assms(2) dec_hs_state_def)
  obtain w where w: "deci_enc (hs_current ?m) = Inr w"
    "sint w = sint (at16 (cdata rx) 2) \<or> sint w = sint (at16 (cdata rx) 2) - sgn (sint (at16 (cdata rx) 2))"
    using deci_roundtrip[of "at16 (cdata rx) 2"] by (auto simp: dec_hs_state_def)
  let ?bs = "put16 (hs_rpm ?m) @ put16 w @ put32 (pulse_count ?m)"
  let ?tx = "put_frame (ucast n + CAN_MSG_ACTUATOR1_HS_STATE_ID) ?bs tx"
  have e: "EncodeCanFrameV2 junk count \<lparr>mtype = AgxMsgActuatorHSState, body = BActuatorHS ?m\<rparr> tx
        = Inr (True, ?tx, count)"
    by (simp add: EncodeCanFrameV2_def enc_hs_state_def w(1) i)
  have c: "at16 (cdata ?tx) 0 = hs_rpm ?m" "at16 (cdata ?tx) 2 = w" "at32 (cdata ?tx) 4 = pulse_count ?m"
    by (simp_all add: put16_def put32_def at16_def at32_def)
  show ?thesis
    using d i e c w(2) assms(2)
    by (intro exI[of _ ?m] exI[of _ ?tx]) (simp add: dec_hs_state_def add.commute)
qed

theorem v2_actuator_relay_witness:
  "\<exists>m. DecodeCanFrameV2 no_stale \<lparr>can_id = 0x253, can_dlc = 8, cdata = [1, 2, 3, 4, 5, 6, 7, 8]\<rparr>
     = (True, \<lparr>mtype = AgxMsgActuatorHSState, body = BActuatorHS m\<rparr>) \<and> hs_motor_id m = 2"
  using v2_actuator_relay[of 2 "\<lparr>can_id = 0x253, can_dlc = 8, cdata = [1, 2, 3, 4, 5, 6, 7, 8]\<rparr>" no_stale]
  by (fastforce simp: v2_id_defs)

text \<open>
  v2_commands_defined: no byte of uninitialised memory reaches the bus in a motion, light,
  motion-mode, control-mode or brake-mode command: the encoded frame is the
  same for every content of the encoder's stack.
\<close>
theorem v2_commands_defined:
  assumes "mtype msg \<in> {AgxMsgMotionCommand, AgxMsgLightCommand, AgxMsgSetMotionModeCommand,
     AgxMsgControlModeConfig, AgxMsgBrakeModeConfig, AgxMsgMotionState, AgxMsgMotionModeState}"
  shows "EncodeCanFrameV2 junk count msg tx = EncodeCanFrameV2 junk' count msg tx"
  using assms by (auto simp: EncodeCanFrameV2_def)

theorem v2_commands_defined_witness:
  "EncodeCanFrameV2 (replicate 8 0) 0 example_msg empty_frame
     = EncodeCanFrameV2 (replicate 8 0xff) 0 example_msg empty_frame"
  by (rule v2_commands_defined) (simp add: example_msg_def)

text \<open>
  v2_stack_leak: the other encoders do put stack memory on the bus: in a system state or
  remote-control frame the last two bytes are the indeterminate bytes of the
  frame struct, in the braking command both bytes are.
\<close>
theorem v2_stack_leak:
  assumes "EncodeCanFrameV2 junk count msg tx = Inr (True, tx', count')" "length junk = 8"
  shows "(mtype msg \<in> {AgxMsgSystemState, AgxMsgRcState} \<longrightarrow>
      cdata tx' ! 6 = junk ! 6 \<and> cdata tx' ! 7 = junk ! 7)
    \<and> (mtype msg = AgxMsgBrakingCommand \<longrightarrow> take 2 (cdata tx') = take 2 junk)"
proof (intro conjI impI)
  assume "mtype msg \<in> {AgxMsgSystemState, AgxMsgRcState}"
  then show "cdata tx' ! 6 = junk ! 6" "cdata tx' ! 7 = junk ! 7"
    using assms by (auto simp: EncodeCanFrameV2_def body_case_Inr bindR_eq_Inr enc_system_state_def
        enc_rc_state_def put16_def)
next
  assume "mtype msg = AgxMsgBrakingCommand"
  then show "take 2 (cdata tx') = take 2 junk" using assms by (auto simp: EncodeCanFrameV2_def)
qed

theorem v2_stack_leak_witness:
  "\<exists>tx'. EncodeCanFrameV2 (replicate 8 0xcc) 0 \<lparr>mtype = AgxMsgBrakingCommand, body = BUnset\<rparr> empty_frame
     = Inr (True, tx', 0) \<and> take 2 (cdata tx') = [0xcc, 0xcc]"
proof -
  obtain tx' where e: "EncodeCanFrameV2 (replicate 8 0xcc) 0
      \<lparr>mtype = AgxMsgBrakingCommand, body = BUnset\<rparr> empty_frame = Inr (True, tx', 0)"
    by (simp add: EncodeCanFrameV2_def)
  show ?thesis using v2_stack_leak[OF e] e by (auto simp: eval_nat_numeral)
qed
end
