(* ===== verification/Agx_Protocol_V1.thy ===== *)
theory Agx_Protocol_V1
  imports Agx_Protocol_V2
begin

text \<open>
  The first protocol version (edge/src/ugv_sdk/src/protocol_v1/ and
  include/ugv_sdk/details/protocol_v1/): the frame codec with its checksum,
  the velocity limits of the robots, and the parser class that turns
  velocities into percentages of the limits.  As in the second version,
  indeterminate memory and the static frame counters are explicit.
\<close>

section \<open>Identifiers\<close>

definition V1_MOTION_COMMAND_ID :: u32 where "V1_MOTION_COMMAND_ID = 0x130"
definition V1_LIGHT_COMMAND_ID :: u32 where "V1_LIGHT_COMMAND_ID = 0x140"
definition V1_VALUE_SET_COMMAND_ID :: u32 where "V1_VALUE_SET_COMMAND_ID = 0x210"
definition V1_MOTION_STATE_ID :: u32 where "V1_MOTION_STATE_ID = 0x131"
definition V1_LIGHT_STATE_ID :: u32 where "V1_LIGHT_STATE_ID = 0x141"
definition V1_SYSTEM_STATE_ID :: u32 where "V1_SYSTEM_STATE_ID = 0x151"
definition V1_VALUE_SET_STATE_ID :: u32 where "V1_VALUE_SET_STATE_ID = 0x211"
definition V1_ACTUATOR1_STATE_ID :: u32 where "V1_ACTUATOR1_STATE_ID = 0x200"
definition V1_ACTUATOR4_STATE_ID :: u32 where "V1_ACTUATOR4_STATE_ID = 0x203"

lemmas v1_id_defs = V1_MOTION_COMMAND_ID_def V1_LIGHT_COMMAND_ID_def V1_VALUE_SET_COMMAND_ID_def
  V1_MOTION_STATE_ID_def V1_LIGHT_STATE_ID_def V1_SYSTEM_STATE_ID_def V1_VALUE_SET_STATE_ID_def
  V1_ACTUATOR1_STATE_ID_def V1_ACTUATOR4_STATE_ID_def

section \<open>Checksum\<close>

definition CalcCanFrameChecksumV1 :: "u16 \<Rightarrow> u8 list \<Rightarrow> u8 \<Rightarrow> u8 res" where
  "CalcCanFrameChecksumV1 cid d dlc = (if length d < unat dlc - 1 then Inl OutOfBounds
     else Inr (fold (\<lambda>b c. c + b) (take (unat dlc - 1) d)
            (ucast (cid AND 0x00ff) + ucast (drop_bit 8 cid) + dlc)))"

section \<open>Decoding\<close>

definition dec_v1_system_state :: "u8 list \<Rightarrow> system_state_message" where
  "dec_v1_system_state d = \<lparr>vehicle_state = ucast (d ! 0), control_mode = ucast (d ! 1),
     battery_voltage = fp_div f32 (Fin (of_int (uint (at16 d 2)))) (Fin 10),
     error_code = at16 d 4\<rparr>"

definition dec_v1_milli :: "u16 \<Rightarrow> fp" where
  "dec_v1_milli v = fp_div f32 (Fin (of_int (sint v))) (Fin 1000)"

text \<open>The steering angle is not in the frame; the member keeps what it held.\<close>

definition dec_v1_motion_state :: "fp \<Rightarrow> u8 list \<Rightarrow> motion_state_message" where
  "dec_v1_motion_state stale_steering d = \<lparr>linear_velocity = dec_v1_milli (at16 d 0),
     angular_velocity = dec_v1_milli (at16 d 2), lateral_velocity = dec_v1_milli (at16 d 4),
     steering_angle = stale_steering\<rparr>"

definition dec_v1_actuator :: "u32 \<Rightarrow> u8 list \<Rightarrow> actuator_state_message_v1" where
  "dec_v1_actuator cid d = \<lparr>v1_motor_id = ucast (cid - V1_ACTUATOR1_STATE_ID),
     v1_current = deci_dec (sint (at16 d 0)), v1_rpm = at16 d 2,
     v1_driver_temp = f32 (of_int (uint (d ! 4))), v1_motor_temp = f32 (of_int (uint (d ! 5)))\<rparr>"

definition DecodeCanFrameV1 :: "fp \<Rightarrow> can_frame \<Rightarrow> (bool \<times> agx_message) res" where
  "DecodeCanFrameV1 stale_steering rx = (let cid = can_id rx; d = cdata rx;
       no = Inr (False, \<lparr>mtype = AgxMsgUnkonwn, body = BUnset\<rparr>);
       ok = (\<lambda>t b. Inr (True, \<lparr>mtype = t, body = b\<rparr>)) in
     bindR (CalcCanFrameChecksumV1 (ucast cid) d (can_dlc rx)) (\<lambda>c.
     if c = 0 then no
     else if cid = V1_SYSTEM_STATE_ID then ok AgxMsgSystemState (BSystemState (dec_v1_system_state d))
     else if cid = V1_MOTION_STATE_ID
       then ok AgxMsgMotionState (BMotionState (dec_v1_motion_state stale_steering d))
     else if cid = V1_LIGHT_STATE_ID then ok AgxMsgLightState (BLight (dec_light d))
     else if cid = V1_VALUE_SET_STATE_ID then ok AgxMsgValueSetStateV1 (BValueSetV1 (d ! 0 = 0xaa))
     else if V1_ACTUATOR1_STATE_ID \<le> cid \<and> cid \<le> V1_ACTUATOR4_STATE_ID
       then ok AgxMsgActuatorStateV1 (BActuatorV1 (dec_v1_actuator cid d))
     else no))"

section \<open>Encoding\<close>

record v1_counts =
  motion_count :: u8
  value_count :: u8
  light_count :: u8

text \<open>
  Seven payload bytes go into the frame, then the checksum over them is put
  into the eighth.
\<close>

definition put_frame_v1 :: "u32 \<Rightarrow> u8 list \<Rightarrow> can_frame \<Rightarrow> can_frame res" where
  "put_frame_v1 cid bs tx = (let tx1 = put_frame cid (bs @ [0]) tx in
     bindR (CalcCanFrameChecksumV1 (ucast cid) (cdata tx1) (can_dlc tx1)) (\<lambda>c.
       Inr (tx1\<lparr>cdata := (cdata tx1)[7 := c]\<rparr>)))"

definition EncodeCanFrameV1 ::
  "v1_counts \<Rightarrow> agx_message \<Rightarrow> can_frame \<Rightarrow> (bool \<times> can_frame \<times> v1_counts) res" where
  "EncodeCanFrameV1 n msg tx = (case mtype msg of
       AgxMsgMotionCommandV1 \<Rightarrow> (case body msg of
           BMotionCommandV1 m \<Rightarrow>
             bindR (fp_to_signed (linear m)) (\<lambda>lin.
             bindR (fp_to_signed (angular m)) (\<lambda>ang.
             bindR (fp_to_signed (lateral m)) (\<lambda>lat.
             bindR (put_frame_v1 V1_MOTION_COMMAND_ID
                 [0x01, 0x00, lin, ang, lat, 0, motion_count n] tx) (\<lambda>tx'.
             Inr (True, tx', n\<lparr>motion_count := motion_count n + 1\<rparr>)))))
         | _ \<Rightarrow> Inl Undefined)
     | AgxMsgValueSetCommandV1 \<Rightarrow> (case body msg of
           BValueSetV1 b \<Rightarrow>
             bindR (put_frame_v1 V1_VALUE_SET_COMMAND_ID
                 [if b then 0xaa else 0, 0, 0, 0, 0, 0, value_count n] tx) (\<lambda>tx'.
             Inr (True, tx', n\<lparr>value_count := value_count n + 1\<rparr>))
         | _ \<Rightarrow> Inl Undefined)
     | AgxMsgLightCommand \<Rightarrow> (case body msg of
           BLight m \<Rightarrow>
             bindR (put_frame_v1 V1_LIGHT_COMMAND_ID
                 ((if enable_cmd_ctrl m
                   then [0x01, ucast (mode (front_light m)), custom_value (front_light m),
                         ucast (mode (rear_light m)), custom_value (rear_light m)]
                   else [0, 0, 0, 0, 0]) @ [0, light_count n]) tx) (\<lambda>tx'.
             Inr (True, tx', n\<lparr>light_count := light_count n + 1\<rparr>))
         | _ \<Rightarrow> Inl Undefined)
     | _ \<Rightarrow> Inr (False, tx, n))"

section \<open>Limits and the parser\<close>

record robot_limits =
  max_linear :: fp
  min_linear :: fp
  max_angular :: fp
  min_angular :: fp
  max_lateral :: fp
  min_lateral :: fp

definition ScoutV2Limits :: robot_limits where
  "ScoutV2Limits = \<lparr>max_linear = f64 (3 / 2), min_linear = fp_neg (f64 (3 / 2)),
     max_angular = f64 (5235 / 10000), min_angular = fp_neg (f64 (5235 / 10000)),
     max_lateral = Fin 0, min_lateral = Fin 0\<rparr>"

definition ScoutMiniLimits :: robot_limits where
  "ScoutMiniLimits = \<lparr>max_linear = f64 3, min_linear = fp_neg (f64 3),
     max_angular = f64 (25235 / 10000), min_angular = fp_neg (f64 (25235 / 10000)),
     max_lateral = f64 2, min_lateral = fp_neg (f64 2)\<rparr>"

definition BunkerLimits :: robot_limits where
  "BunkerLimits = \<lparr>max_linear = f64 3, min_linear = fp_neg (f64 3),
     max_angular = f64 (25235 / 10000), min_angular = fp_neg (f64 (25235 / 10000)),
     max_lateral = Fin 0, min_lateral = Fin 0\<rparr>"

definition HunterV1Limits :: robot_limits where
  "HunterV1Limits = \<lparr>max_linear = f64 (3 / 2), min_linear = fp_neg (f64 (3 / 2)),
     max_angular = f64 (444 / 1000), min_angular = fp_neg (f64 (444 / 1000)),
     max_lateral = Fin 0, min_lateral = Fin 0\<rparr>"

definition v1_clamp :: "fp \<Rightarrow> fp \<Rightarrow> fp \<Rightarrow> fp" where
  "v1_clamp mx mn x = (if fp_lt mx x then to_f32 mx else if fp_lt x mn then to_f32 mn else x)"

definition v1_percent :: "fp \<Rightarrow> fp \<Rightarrow> fp" where
  "v1_percent mx x = to_f32 (fp_mul f64 (fp_div f64 x mx) (Fin 100))"

definition v1_scale :: "robot_limits \<Rightarrow> motion_command_message_v1 \<Rightarrow> motion_command_message_v1" where
  "v1_scale l m = m\<lparr>
     linear := v1_percent (max_linear l) (v1_clamp (max_linear l) (min_linear l) (linear m)),
     angular := v1_percent (max_angular l) (v1_clamp (max_angular l) (min_angular l) (angular m)),
     lateral := v1_percent (max_lateral l) (v1_clamp (max_lateral l) (min_lateral l) (lateral m))\<rparr>"

definition EncodeMessageV1 ::
  "robot_limits \<Rightarrow> v1_counts \<Rightarrow> agx_message \<Rightarrow> can_frame \<Rightarrow> (bool \<times> can_frame \<times> v1_counts) res" where
  "EncodeMessageV1 l n msg tx = (if mtype msg = AgxMsgMotionCommandV1
     then (case body msg of
         BMotionCommandV1 m \<Rightarrow> EncodeCanFrameV1 n (msg\<lparr>body := BMotionCommandV1 (v1_scale l m)\<rparr>) tx
       | _ \<Rightarrow> Inl Undefined)
     else EncodeCanFrameV1 n msg tx)"

section \<open>Percentages\<close>

text \<open>Symmetric limits of a sensible size.\<close>

definition limit_ok :: "fp \<Rightarrow> fp \<Rightarrow> bool" where
  "limit_ok mx mn \<longleftrightarrow> (case mx of Fin m \<Rightarrow> 1 / 10 \<le> m \<and> m \<le> 100 \<and> mn = Fin (- m) | _ \<Rightarrow> False)"

lemma limit_ok_f64:
  assumes "2 / 10 \<le> m" "m \<le> 50"
  shows "limit_ok (f64 m) (fp_neg (f64 m))"
proof -
  obtain y where "f64 m = Fin y" "\<bar>y - m\<bar> \<le> \<bar>m\<bar> / 2 ^ 53"
    using f64_rel[of m] assms by auto
  moreover have "\<bar>m\<bar> / 2 ^ 53 \<le> 1 / 10" using assms by simp
  ultimately have "f64 m = Fin y" "\<bar>y - m\<bar> \<le> 1 / 10" by linarith+
  then have "f64 m = Fin y" "1 / 10 \<le> y" "y \<le> 100" using assms by linarith+
  then show ?thesis by (simp add: limit_ok_def fp_neg_def)
qed

lemma v1_clamp_bound:
  assumes "1 / 10 \<le> m" "m \<le> 100" "x \<noteq> NaN"
  shows "\<exists>c. v1_clamp (Fin m) (Fin (- m)) x = Fin c \<and> \<bar>c\<bar> \<le> m * (1 + 1 / 2 ^ 22)"
proof -
  have m: "\<exists>c. to_f32 (Fin m) = Fin c \<and> \<bar>c\<bar> \<le> m * (1 + 1 / 2 ^ 22)"
    using f32_bound[of m m] assms by (simp add: to_f32_def)
  have m': "\<exists>c. to_f32 (Fin (- m)) = Fin c \<and> \<bar>c\<bar> \<le> m * (1 + 1 / 2 ^ 22)"
    using f32_bound[of "- m" m] assms by (simp add: to_f32_def)
  show ?thesis
  proof (cases x)
    case (Fin a)
    have "m \<le> m * (1 + 1 / 2 ^ 22)" using assms(1) by simp
    then show ?thesis using Fin m m' by (auto simp: v1_clamp_def abs_le_iff)
  qed (use assms(3) m m' in \<open>auto simp: v1_clamp_def\<close>)
qed

lemma v1_percent_bound:
  assumes "1 / 10 \<le> m" "m \<le> 100" "\<bar>c\<bar> \<le> m * (1 + 1 / 2 ^ 22)"
  shows "\<exists>r. v1_percent (Fin m) (Fin c) = Fin r \<and> \<bar>r\<bar> < 101"
proof -
  have "\<bar>c / m\<bar> = \<bar>c\<bar> / m" using assms(1) by (simp add: abs_divide)
  also have "\<dots> \<le> m * (1 + 1 / 2 ^ 22) / m" using assms(1,3) by (intro divide_right_mono) auto
  also have "\<dots> = 1 + 1 / 2 ^ 22" using assms(1) by simp
  finally obtain q where q: "f64 (c / m) = Fin q" "\<bar>q\<bar> \<le> (1 + 1 / 2 ^ 22) * (1 + 1 / 2 ^ 22)"
    using f64_bound[of "c / m" "1 + 1 / 2 ^ 22"] by auto
  then have "\<bar>q * 100\<bar> \<le> 100 + 1 / 10" by (simp add: abs_mult)
  then obtain p where p: "f64 (q * 100) = Fin p" "\<bar>p\<bar> \<le> (100 + 1 / 10) * (1 + 1 / 2 ^ 22)"
    using f64_bound[of "q * 100" "100 + 1 / 10"] by auto
  then have "\<bar>p\<bar> \<le> 100 + 2 / 10" by simp
  then obtain r where r: "f32 p = Fin r" "\<bar>r\<bar> \<le> (100 + 2 / 10) * (1 + 1 / 2 ^ 22)"
    using f32_bound[of p "100 + 2 / 10"] by auto
  then have "\<bar>r\<bar> < 101" by simp
  moreover have "m \<noteq> 0" using assms(1) by auto
  ultimately show ?thesis using q(1) p(1) r(1) by (simp add: v1_percent_def to_f32_def)
qed

lemma fp_to_signed_8:
  assumes "\<bar>r\<bar> < 101"
  shows "\<exists>w. fp_to_signed (Fin r) = Inr (w :: u8) \<and> \<bar>sint w\<bar> \<le> 100"
proof -
  have t: "- 100 \<le> rat_trunc r \<and> rat_trunc r \<le> 100"
  proof (cases "0 \<le> r")
    case True
    then have "0 \<le> \<lfloor>r\<rfloor>" "\<lfloor>r\<rfloor> \<le> 100" using assms by linarith+
    then show ?thesis using True by (simp add: rat_trunc_def)
  next
    case False
    then have "0 \<le> \<lfloor>- r\<rfloor>" "\<lfloor>- r\<rfloor> \<le> 100" using assms by linarith+
    then show ?thesis unfolding rat_trunc_def if_not_P[OF False] by linarith
  qed
  then have "sint (word_of_int (rat_trunc r) :: u8) = rat_trunc r"
    by (simp add: sint_sbintrunc' signed_take_bit_int_eq_self_iff)
  then show ?thesis using t by (auto simp: fp_to_signed_def Let_def)
qed

lemma v1_field:
  assumes "limit_ok mx mn" "x \<noteq> NaN"
  shows "\<exists>w. fp_to_signed (v1_percent mx (v1_clamp mx mn x)) = Inr (w :: u8) \<and> \<bar>sint w\<bar> \<le> 100"
proof -
  obtain m where m: "mx = Fin m" "mn = Fin (- m)" "1 / 10 \<le> m" "m \<le> 100"
    using assms(1) by (auto simp: limit_ok_def split: fp.splits)
  obtain c where c: "v1_clamp (Fin m) (Fin (- m)) x = Fin c" "\<bar>c\<bar> \<le> m * (1 + 1 / 2 ^ 22)"
    using v1_clamp_bound[OF m(3,4) assms(2)] by blast
  obtain r where r: "v1_percent (Fin m) (Fin c) = Fin r" "\<bar>r\<bar> < 101"
    using v1_percent_bound[OF m(3,4) c(2)] by blast
  show ?thesis using fp_to_signed_8[OF r(2)] by (simp add: m(1,2) c(1) r(1))
qed

lemma list7: "length bs = 7 \<Longrightarrow> \<exists>a b c d e f g. bs = [a, b, c, d, e, f, g]"
  by (auto simp: length_Suc_conv eval_nat_numeral)

lemma put_frame_v1_ok:
  assumes "length bs = 7"
  shows "\<exists>c. CalcCanFrameChecksumV1 (ucast cid) (bs @ [c] @ drop 8 (cdata tx)) 8 = Inr c
    \<and> put_frame_v1 cid bs tx = Inr (tx\<lparr>can_id := cid, can_dlc := 8, cdata := bs @ [c] @ drop 8 (cdata tx)\<rparr>)"
proof -
  let ?c = "fold (\<lambda>b c. c + b) bs (ucast (ucast cid AND 0x00ff :: u16) + ucast (drop_bit 8 (ucast cid :: u16)) + 8)"
  show ?thesis using assms
    by (intro exI[of _ ?c]) (simp add: put_frame_v1_def put_frame_def CalcCanFrameChecksumV1_def
        list_update_append)
qed

text \<open>
  v1_percentages: under limits that allow motion in every direction the velocity
  percentages sent on the bus are within -100 and 100 for every command that
  is not NaN, infinite ones included; no conversion is undefined, the frame
  has the motion identifier and a checksum that matches its bytes, and the
  frame counter advances by one, modulo 256.
\<close>
theorem v1_percentages:
  assumes "limit_ok (max_linear l) (min_linear l)" "limit_ok (max_angular l) (min_angular l)"
    "limit_ok (max_lateral l) (min_lateral l)"
    "linear m \<noteq> NaN" "angular m \<noteq> NaN" "lateral m \<noteq> NaN"
  shows "\<exists>tx'. EncodeMessageV1 l n \<lparr>mtype = AgxMsgMotionCommandV1, body = BMotionCommandV1 m\<rparr> tx
      = Inr (True, tx', n\<lparr>motion_count := motion_count n + 1\<rparr>)
    \<and> can_id tx' = V1_MOTION_COMMAND_ID
    \<and> (\<forall>i \<in> {2, 3, 4}. \<bar>sint (cdata tx' ! i)\<bar> \<le> 100)
    \<and> CalcCanFrameChecksumV1 (ucast (can_id tx')) (cdata tx') 8 = Inr (cdata tx' ! 7)"
proof -
  obtain a where a: "fp_to_signed (v1_percent (max_linear l)
      (v1_clamp (max_linear l) (min_linear l) (linear m))) = Inr (a :: u8)" "\<bar>sint a\<bar> \<le> 100"
    using v1_field[OF assms(1,4)] by blast
  obtain b where b: "fp_to_signed (v1_percent (max_angular l)
      (v1_clamp (max_angular l) (min_angular l) (angular m))) = Inr (b :: u8)" "\<bar>sint b\<bar> \<le> 100"
    using v1_field[OF assms(2,5)] by blast
  obtain c where c: "fp_to_signed (v1_percent (max_lateral l)
      (v1_clamp (max_lateral l) (min_lateral l) (lateral m))) = Inr (c :: u8)" "\<bar>sint c\<bar> \<le> 100"
    using v1_field[OF assms(3,6)] by blast
  let ?bs = "[0x01, 0x00, a, b, c, 0, motion_count n]"
  obtain k where k: "CalcCanFrameChecksumV1 (ucast V1_MOTION_COMMAND_ID) (?bs @ [k] @ drop 8 (cdata tx)) 8 = Inr k"
    "put_frame_v1 V1_MOTION_COMMAND_ID ?bs tx = Inr (tx\<lparr>can_id := V1_MOTION_COMMAND_ID, can_dlc := 8,
       cdata := ?bs @ [k] @ drop 8 (cdata tx)\<rparr>)"
    using put_frame_v1_ok[of ?bs V1_MOTION_COMMAND_ID tx] by auto
  have e: "EncodeMessageV1 l n \<lparr>mtype = AgxMsgMotionCommandV1, body = BMotionCommandV1 m\<rparr> tx
      = Inr (True, tx\<lparr>can_id := V1_MOTION_COMMAND_ID, can_dlc := 8,
         cdata := ?bs @ [k] @ drop 8 (cdata tx)\<rparr>, n\<lparr>motion_count := motion_count n + 1\<rparr>)"
    by (simp add: EncodeMessageV1_def EncodeCanFrameV1_def v1_scale_def a(1) b(1) c(1) k(2))
  show ?thesis unfolding e using k(1) a(2) b(2) c(2) by simp
qed

theorem v1_percentages_witness:
  "\<exists>tx'. EncodeMessageV1 ScoutMiniLimits \<lparr>motion_count = 255, value_count = 0, light_count = 0\<rparr>
      \<lparr>mtype = AgxMsgMotionCommandV1, body = BMotionCommandV1
        \<lparr>v1_control_mode = 1, clear_all_error = False, linear = PInf, angular = Fin (- 7), lateral = Fin 1\<rparr>\<rparr>
      empty_frame = Inr (True, tx', \<lparr>motion_count = 0, value_count = 0, light_count = 0\<rparr>)
    \<and> \<bar>sint (cdata tx' ! 2)\<bar> \<le> 100"
proof -
  have l: "limit_ok (max_linear ScoutMiniLimits) (min_linear ScoutMiniLimits)"
    "limit_ok (max_angular ScoutMiniLimits) (min_angular ScoutMiniLimits)"
    "limit_ok (max_lateral ScoutMiniLimits) (min_lateral ScoutMiniLimits)"
    unfolding ScoutMiniLimits_def by (simp_all add: limit_ok_f64)
  show ?thesis
    using v1_percentages[OF l, of "\<lparr>v1_control_mode = 1, clear_all_error = False, linear = PInf,
        angular = Fin (- 7), lateral = Fin 1\<rparr>" "\<lparr>motion_count = 255, value_count = 0, light_count = 0\<rparr>"
        empty_frame] by auto
qed

lemma v1_zero_limit_undefined:
  assumes "l \<in> {ScoutV2Limits, BunkerLimits, HunterV1Limits}"
  shows "EncodeMessageV1 l n \<lparr>mtype = AgxMsgMotionCommandV1, body = BMotionCommandV1 m\<rparr> tx = Inl Undefined"
proof -
  have l: "max_lateral l = Fin 0" "min_lateral l = Fin 0"
    using assms by (auto simp: ScoutV2Limits_def BunkerLimits_def HunterV1Limits_def)
  have c: "v1_clamp (Fin 0) (Fin 0) x \<in> {Fin 0, NaN}" for x
    by (cases x) (auto simp: v1_clamp_def to_f32_def)
  have "v1_percent (Fin 0) (v1_clamp (Fin 0) (Fin 0) (lateral m)) = NaN"
    using c[of "lateral m"] by (auto simp: v1_percent_def to_f32_def inf_mul_def fp_pos_def fp_isneg_def)
  then have u: "(fp_to_signed (lateral (v1_scale l m)) :: u8 res) = Inl Undefined"
    by (simp add: v1_scale_def l fp_to_signed_def)
  have e: "\<exists>w. fp_to_signed a = Inr (w :: u8) \<or> (fp_to_signed a :: u8 res) = Inl Undefined" for a
    by (cases a) (auto simp: fp_to_signed_def Let_def)
  show ?thesis
    using e[of "linear (v1_scale l m)"] e[of "angular (v1_scale l m)"] u
    by (auto simp: EncodeMessageV1_def EncodeCanFrameV1_def)
qed

text \<open>
  v1_no_lateral_undefined: for the robots whose lateral limit is zero (Scout V2, Bunker, Hunter V1)
  every velocity command is undefined behaviour: the clamped lateral speed 0
  is divided by the limit 0.0 and the resulting NaN converted to int8_t.
\<close>
theorem v1_no_lateral_undefined:
  assumes "l \<in> {ScoutV2Limits, BunkerLimits, HunterV1Limits}"
  shows "EncodeMessageV1 l n \<lparr>mtype = AgxMsgMotionCommandV1, body = BMotionCommandV1 m\<rparr> tx = Inl Undefined"
  using v1_zero_limit_undefined[OF assms] .

theorem v1_no_lateral_undefined_witness:
  "EncodeMessageV1 BunkerLimits \<lparr>motion_count = 0, value_count = 0, light_count = 0\<rparr>
      \<lparr>mtype = AgxMsgMotionCommandV1, body = BMotionCommandV1
        \<lparr>v1_control_mode = 1, clear_all_error = False, linear = Fin 1, angular = Fin 0, lateral = Fin 0\<rparr>\<rparr>
      empty_frame = Inl Undefined"
  by (rule v1_no_lateral_undefined) simp

text \<open>
  v1_checksum_ignored: the decoder never looks at the checksum byte: replacing the last byte of
  a frame of eight changes nothing about whether or how it is decoded.
\<close>
theorem v1_checksum_ignored:
  assumes "length (cdata rx) = 8" "can_dlc rx = 8"
  shows "DecodeCanFrameV1 s (rx\<lparr>cdata := (cdata rx)[7 := x]\<rparr>) = DecodeCanFrameV1 s rx"
proof -
  obtain a b c e f g h i where d: "cdata rx = [a, b, c, e, f, g, h, i]"
    using list8[OF assms(1)] by blast
  show ?thesis unfolding DecodeCanFrameV1_def Let_def
    by (simp add: d assms(2) CalcCanFrameChecksumV1_def dec_v1_system_state_def at16_def
        dec_v1_motion_state_def dec_light_def dec_v1_actuator_def)
qed

theorem v1_checksum_ignored_witness:
  "DecodeCanFrameV1 NaN \<lparr>can_id = 0x151, can_dlc = 8, cdata = [0, 1, 0, 250, 0, 0, 7, 0x99]\<rparr>
   = DecodeCanFrameV1 NaN \<lparr>can_id = 0x151, can_dlc = 8, cdata = [0, 1, 0, 250, 0, 0, 7, 0x00]\<rparr>"
  using v1_checksum_ignored[where s = NaN and x = "0x99" and rx = "\<lparr>can_id = 0x151, can_dlc = 8, cdata = [0, 1, 0, 250, 0, 0, 7, 0x00]\<rparr>"]
  by simp

end
