(* ===== verification/Agx_Base.thy ===== *)
theory Agx_Base
  imports Agx_Protocol_V1
begin

text \<open>
  The CAN port (edge/src/ugv_sdk/src/async_port/async_can.cpp) and the base
  class of all robots (include/ugv_sdk/details/robot_base/agilex_base.hpp).
  AgilexBase is a template over its parser; here the parser's two functions
  are arguments of the operations, the locale agx_parser states what the base
  class relies on, and it is interpreted for both protocol versions.  Times are
  natural numbers, handed in where the code reads the clock.
\<close>

section \<open>The CAN port\<close>

record can_port =
  can_port_opened :: bool
  can_fd :: int
  can_joinable :: bool
  can_reading :: bool
  can_sent :: "can_frame list"

definition can_new :: can_port where
  "can_new = \<lparr>can_port_opened = False, can_fd = -1, can_joinable = False,
     can_reading = False, can_sent = []\<rparr>"

text \<open>Joining the own thread raises an exception that nothing catches.\<close>

definition can_close :: "bool \<Rightarrow> can_port \<Rightarrow> can_port res" where
  "can_close on_io p = (if can_joinable p \<and> on_io then Inl Terminate
     else Inr (p\<lparr>can_joinable := False, can_fd := -1, can_port_opened := False\<rparr>))"

text \<open>The operating system answers with a socket, and whether ioctl and bind succeed.\<close>

definition can_open :: "string \<Rightarrow> int \<Rightarrow> bool \<Rightarrow> bool \<Rightarrow> can_port \<Rightarrow> (bool \<times> can_port) res" where
  "can_open name fd ioctl_ok bind_ok p =
     (if 16 < length name + 1 then Inr (False, p)
      else let p1 = p\<lparr>can_fd := fd\<rparr> in
        if fd < 0 then Inr (False, p1)
        else if \<not> ioctl_ok \<or> \<not> bind_ok then bindR (can_close False p1) (\<lambda>p2. Inr (False, p2))
        else if can_joinable p1 then Inl Terminate
        else Inr (True, p1\<lparr>can_port_opened := True, can_joinable := True, can_reading := True\<rparr>))"

definition can_send_frame :: "can_frame \<Rightarrow> can_port \<Rightarrow> can_port" where
  "can_send_frame f p = p\<lparr>can_sent := can_sent p @ [f]\<rparr>"

section \<open>State groups\<close>

record core_state_msg_group =
  core_time :: nat
  system_state :: system_state_message
  motion_state :: motion_state_message
  light_state :: light_command_message
  motion_mode_state :: motion_mode_state_message
  rc_state :: rc_state_message

record actuator_state_msg_group =
  actuator_time :: nat
  actuator_hs_state :: "actuator_hs_state_message list"
  actuator_ls_state :: "actuator_ls_state_message list"
  actuator_state :: "actuator_state_message_v1 list"
  motor_angles :: motor_angle_message
  motor_speeds :: motor_speed_message

record common_sensor_state_msg_group =
  sensor_time :: nat
  bms_basic_state :: bms_basic_message
  bms_extend_state :: bms_extended_message

definition AGX_MAX_ACTUATOR_NUM :: nat where "AGX_MAX_ACTUATOR_NUM = 8"

text \<open>The encoder's static counters of both versions belong to the program's state.\<close>

record encoder_counts =
  v2_light_count :: u8
  v1_counters :: v1_counts

record agx_robot =
  core_state_msgs :: core_state_msg_group
  actuator_state_msgs :: actuator_state_msg_group
  common_sensor_state_msgs :: common_sensor_state_msg_group
  version_string_buffer :: "u8 list"
  can :: "can_port option"
  counts :: encoder_counts

text \<open>What an operation finds in memory it does not initialise.\<close>

record stack_memory =
  junk_bytes :: "u8 list"
  junk_frame :: can_frame
  stale_rc :: rc_state_message
  stale_steering :: fp

section \<open>Receiving\<close>

definition UpdateRobotCoreState ::
  "nat \<Rightarrow> agx_message \<Rightarrow> core_state_msg_group \<Rightarrow> core_state_msg_group res" where
  "UpdateRobotCoreState now msg g = (case mtype msg of
       AgxMsgSystemState \<Rightarrow> (case body msg of
         BSystemState m \<Rightarrow> Inr (g\<lparr>core_time := now, system_state := m\<rparr>) | _ \<Rightarrow> Inl Undefined)
     | AgxMsgMotionState \<Rightarrow> (case body msg of
         BMotionState m \<Rightarrow> Inr (g\<lparr>core_time := now, motion_state := m\<rparr>) | _ \<Rightarrow> Inl Undefined)
     | AgxMsgLightState \<Rightarrow> (case body msg of
         BLight m \<Rightarrow> Inr (g\<lparr>core_time := now, light_state := m\<rparr>) | _ \<Rightarrow> Inl Undefined)
     | AgxMsgMotionModeState \<Rightarrow> (case body msg of
         BMotionModeState m \<Rightarrow> Inr (g\<lparr>core_time := now, motion_mode_state := m\<rparr>)
       | _ \<Rightarrow> Inl Undefined)
     | AgxMsgRcState \<Rightarrow> (case body msg of
         BRcState m \<Rightarrow> Inr (g\<lparr>core_time := now, rc_state := m\<rparr>) | _ \<Rightarrow> Inl Undefined)
     | _ \<Rightarrow> Inr g)"

text \<open>Assignment to an element of an array member.\<close>

definition set_actuator :: "'a list \<Rightarrow> u8 \<Rightarrow> 'a \<Rightarrow> 'a list res" where
  "set_actuator xs i x = (if unat i < length xs then Inr (xs[unat i := x]) else Inl OutOfBounds)"

definition UpdateActuatorState ::
  "nat \<Rightarrow> agx_message \<Rightarrow> actuator_state_msg_group \<Rightarrow> actuator_state_msg_group res" where
  "UpdateActuatorState now msg g0 = (let g = g0\<lparr>actuator_time := now\<rparr> in case mtype msg of
       AgxMsgMotorAngle \<Rightarrow> (case body msg of
         BMotorAngle m \<Rightarrow> Inr (g\<lparr>motor_angles := m\<rparr>) | _ \<Rightarrow> Inl Undefined)
     | AgxMsgMotorSpeed \<Rightarrow> (case body msg of
         BMotorSpeed m \<Rightarrow> Inr (g\<lparr>motor_speeds := m\<rparr>) | _ \<Rightarrow> Inl Undefined)
     | AgxMsgActuatorHSState \<Rightarrow> (case body msg of
         BActuatorHS m \<Rightarrow> bindR (set_actuator (actuator_hs_state g) (hs_motor_id m) m)
           (\<lambda>xs. Inr (g\<lparr>actuator_hs_state := xs\<rparr>))
       | _ \<Rightarrow> Inl Undefined)
     | AgxMsgActuatorLSState \<Rightarrow> (case body msg of
         BActuatorLS m \<Rightarrow> bindR (set_actuator (actuator_ls_state g) (ls_motor_id m) m)
           (\<lambda>xs. Inr (g\<lparr>actuator_ls_state := xs\<rparr>))
       | _ \<Rightarrow> Inl Undefined)
     | AgxMsgActuatorStateV1 \<Rightarrow> (case body msg of
         BActuatorV1 m \<Rightarrow> bindR (set_actuator (actuator_state g) (v1_motor_id m) m)
           (\<lambda>xs. Inr (g\<lparr>actuator_state := xs\<rparr>))
       | _ \<Rightarrow> Inl Undefined)
     | _ \<Rightarrow> Inr g)"

text \<open>The case of the extended BMS message sets no time stamp.\<close>

definition UpdateCommonSensorState ::
  "nat \<Rightarrow> agx_message \<Rightarrow> common_sensor_state_msg_group \<Rightarrow> common_sensor_state_msg_group res" where
  "UpdateCommonSensorState now msg g = (case mtype msg of
       AgxMsgBmsBasic \<Rightarrow> (case body msg of
         BBmsBasic m \<Rightarrow> Inr (g\<lparr>sensor_time := now, bms_basic_state := m\<rparr>) | _ \<Rightarrow> Inl Undefined)
     | AgxMsgBmsExtended \<Rightarrow> (case body msg of
         BBmsExtended m \<Rightarrow> Inr (g\<lparr>bms_extend_state := m\<rparr>) | _ \<Rightarrow> Inl Undefined)
     | _ \<Rightarrow> Inr g)"

definition version_char :: "u8 \<Rightarrow> u8" where
  "version_char d = (if d < 32 \<or> 126 < d then 32 else d)"

definition UpdateResponseVersion :: "agx_message \<Rightarrow> u8 list \<Rightarrow> u8 list res" where
  "UpdateResponseVersion msg buf = (case mtype msg of
       AgxMsgVersionResponse \<Rightarrow> (case body msg of
         BVersionResponse bs \<Rightarrow> Inr (buf @ map (\<lambda>i. version_char (bs ! i)) [0..<8])
       | _ \<Rightarrow> Inl Undefined)
     | _ \<Rightarrow> Inr buf)"

text \<open>The three groups read the clock one after the other.\<close>

type_synonym decoder = "stack_memory \<Rightarrow> can_frame \<Rightarrow> (bool \<times> agx_message) res"
type_synonym encoder = "stack_memory \<Rightarrow> encoder_counts \<Rightarrow> agx_message \<Rightarrow> can_frame \<Rightarrow>
  (bool \<times> can_frame \<times> encoder_counts) res"

definition ParseCANFrame ::
  "decoder \<Rightarrow> stack_memory \<Rightarrow> nat \<times> nat \<times> nat \<Rightarrow> can_frame \<Rightarrow> agx_robot \<Rightarrow> agx_robot res" where
  "ParseCANFrame decode mem t rx r = bindR (decode mem rx) (\<lambda>(ok, msg).
     if \<not> ok then Inr r else
     bindR (UpdateRobotCoreState (fst t) msg (core_state_msgs r)) (\<lambda>c.
     bindR (UpdateActuatorState (fst (snd t)) msg (actuator_state_msgs r)) (\<lambda>a.
     bindR (UpdateCommonSensorState (snd (snd t)) msg (common_sensor_state_msgs r)) (\<lambda>s.
     bindR (UpdateResponseVersion msg (version_string_buffer r)) (\<lambda>v.
     Inr (r\<lparr>core_state_msgs := c, actuator_state_msgs := a, common_sensor_state_msgs := s,
            version_string_buffer := v\<rparr>))))))"

section \<open>Sending\<close>

definition robot_opened :: "agx_robot \<Rightarrow> bool" where
  "robot_opened r = (case can r of None \<Rightarrow> False | Some p \<Rightarrow> can_port_opened p)"

definition send_frame :: "can_frame \<Rightarrow> agx_robot \<Rightarrow> agx_robot res" where
  "send_frame f r = (case can r of None \<Rightarrow> Inl NullDeref
     | Some p \<Rightarrow> Inr (r\<lparr>can := Some (can_send_frame f p)\<rparr>))"

text \<open>The body all commands share: encode into a fresh frame and send it.\<close>

definition send_message :: "encoder \<Rightarrow> stack_memory \<Rightarrow> agx_message \<Rightarrow> agx_robot \<Rightarrow> agx_robot res" where
  "send_message encode mem msg r = (if \<not> robot_opened r then Inr r else
     bindR (encode mem (counts r) msg (junk_frame mem)) (\<lambda>(ok, f, n).
       if ok then send_frame f (r\<lparr>counts := n\<rparr>) else Inr (r\<lparr>counts := n\<rparr>)))"

definition EnableCommandedMode :: "encoder \<Rightarrow> stack_memory \<Rightarrow> agx_robot \<Rightarrow> agx_robot res" where
  "EnableCommandedMode encode mem r = send_message encode mem
     \<lparr>mtype = AgxMsgControlModeConfig, body = BControlModeConfig CONTROL_MODE_CAN\<rparr> r"

datatype protocol_version = UNKONWN | AGX_V1 | AGX_V2

definition fp_abs :: "fp \<Rightarrow> fp" where
  "fp_abs a = (case a of Fin x \<Rightarrow> Fin \<bar>x\<bar> | MInf \<Rightarrow> PInf | _ \<Rightarrow> a)"

definition SendMotionCommand :: "protocol_version \<Rightarrow> encoder \<Rightarrow> stack_memory \<Rightarrow>
    fp \<Rightarrow> fp \<Rightarrow> fp \<Rightarrow> fp \<Rightarrow> agx_robot \<Rightarrow> agx_robot res" where
  "SendMotionCommand v encode mem linear_vel angular_vel lateral_vel steering r =
     send_message encode mem (if v = AGX_V1
       then \<lparr>mtype = AgxMsgMotionCommandV1, body = BMotionCommandV1
          \<lparr>v1_control_mode = CONTROL_MODE_CAN, clear_all_error = False, linear = to_f32 linear_vel,
           angular = to_f32 (if fp_lt (fp_abs steering) (fp_abs angular_vel)
                             then angular_vel else steering),
           lateral = to_f32 lateral_vel\<rparr>\<rparr>
       else \<lparr>mtype = AgxMsgMotionCommand, body = BMotionCommand
          \<lparr>linear_velocity = to_f32 linear_vel, angular_velocity = to_f32 angular_vel,
           lateral_velocity = to_f32 lateral_vel, steering_angle = to_f32 steering\<rparr>\<rparr>) r"

definition SendLightCommand :: "encoder \<Rightarrow> stack_memory \<Rightarrow> u32 \<Rightarrow> u8 \<Rightarrow> u32 \<Rightarrow> u8 \<Rightarrow>
    agx_robot \<Rightarrow> agx_robot res" where
  "SendLightCommand encode mem f_mode f_value r_mode r_value r = send_message encode mem
     \<lparr>mtype = AgxMsgLightCommand, body = BLight \<lparr>enable_cmd_ctrl = True,
        front_light = \<lparr>mode = f_mode, custom_value = f_value\<rparr>,
        rear_light = \<lparr>mode = r_mode, custom_value = r_value\<rparr>\<rparr>\<rparr> r"

text \<open>The light settings of the disabling message are never written; the encoders do not read them.\<close>

definition DisableLightControl ::
  "encoder \<Rightarrow> stack_memory \<Rightarrow> light_operation \<times> light_operation \<Rightarrow> agx_robot \<Rightarrow> agx_robot res" where
  "DisableLightControl encode mem stale_lights r = send_message encode mem
     \<lparr>mtype = AgxMsgLightCommand, body = BLight \<lparr>enable_cmd_ctrl = False,
        front_light = fst stale_lights, rear_light = snd stale_lights\<rparr>\<rparr> r"

definition SetMotionMode :: "encoder \<Rightarrow> stack_memory \<Rightarrow> u8 \<Rightarrow> agx_robot \<Rightarrow> agx_robot res" where
  "SetMotionMode encode mem m r = send_message encode mem
     \<lparr>mtype = AgxMsgSetMotionModeCommand, body = BMotionMode m\<rparr> r"

definition SetBrakeMode :: "encoder \<Rightarrow> stack_memory \<Rightarrow> u32 \<Rightarrow> agx_robot \<Rightarrow> agx_robot res" where
  "SetBrakeMode encode mem m r = send_message encode mem
     \<lparr>mtype = AgxMsgBrakeModeConfig, body = BBrakeModeConfig m\<rparr> r"

definition ConnectPort ::
  "string \<Rightarrow> int \<Rightarrow> bool \<Rightarrow> bool \<Rightarrow> agx_robot \<Rightarrow> (bool \<times> agx_robot) res" where
  "ConnectPort name fd ioctl_ok bind_ok r = bindR (can_open name fd ioctl_ok bind_ok can_new)
     (\<lambda>(ok, p). Inr (ok, r\<lparr>can := Some p\<rparr>))"

definition DisconnectPort :: "agx_robot \<Rightarrow> agx_robot res" where
  "DisconnectPort r = (case can r of None \<Rightarrow> Inr r
     | Some p \<Rightarrow> if can_port_opened p then bindR (can_close False p) (\<lambda>p'. Inr (r\<lparr>can := Some p'\<rparr>))
                 else Inr r)"

text \<open>
  Asking for the version: the request, then polling the buffer; snaps are the
  copies of the buffer the successive polls see before the timeout.
\<close>

fun poll_version :: "u8 list \<Rightarrow> u8 list list \<Rightarrow> u8 list" where
  "poll_version v [] = v"
| "poll_version v (s # ss) = (if 80 \<le> length s then s else poll_version s ss)"

definition RequestVersion ::
  "stack_memory \<Rightarrow> u8 list list \<Rightarrow> agx_robot \<Rightarrow> (u8 list \<times> agx_robot) res" where
  "RequestVersion mem snaps r =
     bindR (send_frame ((junk_frame mem)\<lparr>can_id := 0x4a1, can_dlc := 1,
              cdata := (cdata (junk_frame mem))[0 := 0x01]\<rparr>)
            (r\<lparr>version_string_buffer := []\<rparr>)) (\<lambda>r'.
     let s = poll_version [] snaps in
     Inr (if length s < 80 then [] else s, r'))"

section \<open>The parser interface\<close>

text \<open>A decoded message whose body is the member its type names, with indices in range.\<close>

definition status_ok :: "agx_message \<Rightarrow> bool" where
  "status_ok msg = (case mtype msg of
       AgxMsgSystemState \<Rightarrow> (case body msg of BSystemState _ \<Rightarrow> True | _ \<Rightarrow> False)
     | AgxMsgMotionState \<Rightarrow> (case body msg of BMotionState _ \<Rightarrow> True | _ \<Rightarrow> False)
     | AgxMsgLightState \<Rightarrow> (case body msg of BLight _ \<Rightarrow> True | _ \<Rightarrow> False)
     | AgxMsgMotionModeState \<Rightarrow> (case body msg of BMotionModeState _ \<Rightarrow> True | _ \<Rightarrow> False)
     | AgxMsgRcState \<Rightarrow> (case body msg of BRcState _ \<Rightarrow> True | _ \<Rightarrow> False)
     | AgxMsgMotorAngle \<Rightarrow> (case body msg of BMotorAngle _ \<Rightarrow> True | _ \<Rightarrow> False)
     | AgxMsgMotorSpeed \<Rightarrow> (case body msg of BMotorSpeed _ \<Rightarrow> True | _ \<Rightarrow> False)
     | AgxMsgActuatorHSState \<Rightarrow> (case body msg of BActuatorHS m \<Rightarrow> hs_motor_id m < 8 | _ \<Rightarrow> False)
     | AgxMsgActuatorLSState \<Rightarrow> (case body msg of BActuatorLS m \<Rightarrow> ls_motor_id m < 8 | _ \<Rightarrow> False)
     | AgxMsgActuatorStateV1 \<Rightarrow> (case body msg of BActuatorV1 m \<Rightarrow> v1_motor_id m < 8 | _ \<Rightarrow> False)
     | AgxMsgBmsBasic \<Rightarrow> (case body msg of BBmsBasic _ \<Rightarrow> True | _ \<Rightarrow> False)
     | AgxMsgBmsExtended \<Rightarrow> (case body msg of BBmsExtended _ \<Rightarrow> True | _ \<Rightarrow> False)
     | AgxMsgVersionResponse \<Rightarrow> (case body msg of BVersionResponse _ \<Rightarrow> True | _ \<Rightarrow> False)
     | _ \<Rightarrow> True)"

definition frame_ok :: "can_frame \<Rightarrow> bool" where
  "frame_ok f \<longleftrightarrow> length (cdata f) = 8 \<and> can_dlc f \<le> 8"

definition memory_ok :: "stack_memory \<Rightarrow> bool" where
  "memory_ok mem \<longleftrightarrow> length (junk_bytes mem) = 8 \<and> length (cdata (junk_frame mem)) = 8"

definition robot_ok :: "agx_robot \<Rightarrow> bool" where
  "robot_ok r \<longleftrightarrow> length (actuator_hs_state (actuator_state_msgs r)) = AGX_MAX_ACTUATOR_NUM
     \<and> length (actuator_ls_state (actuator_state_msgs r)) = AGX_MAX_ACTUATOR_NUM
     \<and> length (actuator_state (actuator_state_msgs r)) = AGX_MAX_ACTUATOR_NUM
     \<and> (\<forall>c \<in> set (version_string_buffer r). 32 \<le> c \<and> c \<le> 126)
     \<and> (\<forall>p. can r = Some p \<longrightarrow> (\<forall>f \<in> set (can_sent p). frame_ok f))"

lemma update_core_ok: "status_ok msg \<Longrightarrow> \<exists>g'. UpdateRobotCoreState now msg g = Inr g'"
  by (cases "mtype msg") (auto simp: status_ok_def UpdateRobotCoreState_def split: msg_body.splits)

lemma set_actuator_ok:
  "length xs = AGX_MAX_ACTUATOR_NUM \<Longrightarrow> i < 8 \<Longrightarrow>
   \<exists>ys. set_actuator xs i x = Inr ys \<and> length ys = AGX_MAX_ACTUATOR_NUM"
  by (simp add: set_actuator_def AGX_MAX_ACTUATOR_NUM_def word_less_nat_alt)

lemma update_sensor_ok: "status_ok msg \<Longrightarrow> \<exists>g'. UpdateCommonSensorState now msg g = Inr g'"
  by (cases "mtype msg") (auto simp: status_ok_def UpdateCommonSensorState_def split: msg_body.splits)

lemma version_char_printable: "32 \<le> version_char c \<and> version_char c \<le> 126"
  by (auto simp: version_char_def not_less)

lemma update_version_ok:
  assumes "status_ok msg" "\<forall>c \<in> set buf. 32 \<le> c \<and> c \<le> 126"
  shows "\<exists>b. UpdateResponseVersion msg buf = Inr b \<and> (\<forall>c \<in> set b. 32 \<le> c \<and> c \<le> 126)"
proof (cases "mtype msg = AgxMsgVersionResponse")
  case True
  then obtain bs where "body msg = BVersionResponse bs"
    using assms(1) by (cases "body msg") (auto simp: status_ok_def)
  then show ?thesis using True assms(2) version_char_printable by (auto simp: UpdateResponseVersion_def)
next
  case False
  then show ?thesis using assms(2) by (cases "mtype msg") (auto simp: UpdateResponseVersion_def)
qed

lemma update_actuator_ok:
  assumes "status_ok msg" "length (actuator_hs_state g) = AGX_MAX_ACTUATOR_NUM"
    "length (actuator_ls_state g) = AGX_MAX_ACTUATOR_NUM" "length (actuator_state g) = AGX_MAX_ACTUATOR_NUM"
  shows "\<exists>g'. UpdateActuatorState now msg g = Inr g'
    \<and> length (actuator_hs_state g') = AGX_MAX_ACTUATOR_NUM
    \<and> length (actuator_ls_state g') = AGX_MAX_ACTUATOR_NUM \<and> length (actuator_state g') = AGX_MAX_ACTUATOR_NUM"
proof (cases "mtype msg \<in> {AgxMsgActuatorHSState, AgxMsgActuatorLSState, AgxMsgActuatorStateV1}")
  case True
  then consider m where "mtype msg = AgxMsgActuatorHSState" "body msg = BActuatorHS m" "hs_motor_id m < 8"
    | m where "mtype msg = AgxMsgActuatorLSState" "body msg = BActuatorLS m" "ls_motor_id m < 8"
    | m where "mtype msg = AgxMsgActuatorStateV1" "body msg = BActuatorV1 m" "v1_motor_id m < 8"
    using assms(1) by (cases "body msg") (auto simp: status_ok_def)
  then show ?thesis
  proof cases
    case 1
    then show ?thesis using set_actuator_ok[OF assms(2) 1(3), of m] assms by (auto simp: UpdateActuatorState_def)
  next
    case 2
    then show ?thesis using set_actuator_ok[OF assms(3) 2(3), of m] assms by (auto simp: UpdateActuatorState_def)
  next
    case 3
    then show ?thesis using set_actuator_ok[OF assms(4) 3(3), of m] assms by (auto simp: UpdateActuatorState_def)
  qed
next
  case False
  then show ?thesis using assms
    by (cases "mtype msg") (auto simp: status_ok_def UpdateActuatorState_def split: msg_body.splits)
qed

locale agx_parser =
  fixes decode :: decoder and encode :: encoder
  assumes decode_status: "frame_ok rx \<Longrightarrow>
      \<exists>ok msg. decode mem rx = Inr (ok, msg) \<and> (ok \<longrightarrow> status_ok msg)"
    and encode_frame: "memory_ok mem \<Longrightarrow> length (cdata tx) = 8 \<Longrightarrow>
      encode mem n msg tx = Inr (True, f, n') \<Longrightarrow> frame_ok f"
begin

lemma parse_ok:
  assumes "robot_ok r" "frame_ok rx"
  shows "\<exists>r'. ParseCANFrame decode mem t rx r = Inr r' \<and> robot_ok r'"
proof -
  obtain ok msg where d: "decode mem rx = Inr (ok, msg)" "ok \<Longrightarrow> status_ok msg"
    using decode_status[OF assms(2)] by blast
  show ?thesis
  proof (cases ok)
    case False
    then show ?thesis using d assms(1) by (simp add: ParseCANFrame_def)
  next
    case True
    note s = d(2)[OF True]
    obtain c where c: "UpdateRobotCoreState (fst t) msg (core_state_msgs r) = Inr c"
      using update_core_ok[OF s] by blast
    obtain a where a: "UpdateActuatorState (fst (snd t)) msg (actuator_state_msgs r) = Inr a"
      "length (actuator_hs_state a) = AGX_MAX_ACTUATOR_NUM"
      "length (actuator_ls_state a) = AGX_MAX_ACTUATOR_NUM" "length (actuator_state a) = AGX_MAX_ACTUATOR_NUM"
      using update_actuator_ok[OF s, of "actuator_state_msgs r" "fst (snd t)"] assms(1)
      by (auto simp: robot_ok_def)
    obtain g where g: "UpdateCommonSensorState (snd (snd t)) msg (common_sensor_state_msgs r) = Inr g"
      using update_sensor_ok[OF s] by blast
    obtain v where v: "UpdateResponseVersion msg (version_string_buffer r) = Inr v"
      "\<forall>c \<in> set v. 32 \<le> c \<and> c \<le> 126"
      using update_version_ok[OF s, of "version_string_buffer r"] assms(1) by (auto simp: robot_ok_def)
    show ?thesis using d(1) True c a g v assms(1)
      by (auto simp: ParseCANFrame_def robot_ok_def)
  qed
qed

lemma send_ok:
  assumes "robot_ok r" "memory_ok mem" "send_message encode mem msg r = Inr r'"
  shows "robot_ok r'"
proof (cases "robot_opened r")
  case False
  then show ?thesis using assms by (simp add: send_message_def)
next
  case True
  then obtain p where p: "can r = Some p" by (auto simp: robot_opened_def split: option.splits)
  obtain ok f n where e: "encode mem (counts r) msg (junk_frame mem) = Inr (ok, f, n)"
    using assms(3) True by (auto simp: send_message_def bindR_eq_Inr)
  show ?thesis
  proof (cases ok)
    case False
    then show ?thesis using assms True e by (auto simp: send_message_def robot_ok_def)
  next
    case ok: True
    have "length (cdata (junk_frame mem)) = 8" using assms(2) by (simp add: memory_ok_def)
    then have "frame_ok f" using encode_frame[OF assms(2), of "junk_frame mem" "counts r" msg f n] e ok by simp
    then show ?thesis using assms True e ok p
      by (auto simp: send_message_def send_frame_def robot_ok_def can_send_frame_def)
  qed
qed

end

section \<open>Both protocol versions provide the interface\<close>

definition decode_v2 :: decoder where
  "decode_v2 mem rx = Inr (DecodeCanFrameV2 (stale_rc mem) rx)"

definition encode_v2 :: encoder where
  "encode_v2 mem n msg tx = bindR (EncodeCanFrameV2 (junk_bytes mem) (v2_light_count n) msg tx)
     (\<lambda>(ok, f, c). Inr (ok, f, n\<lparr>v2_light_count := c\<rparr>))"

definition decode_v1 :: decoder where
  "decode_v1 mem rx = DecodeCanFrameV1 (stale_steering mem) rx"

definition encode_v1 :: "robot_limits \<Rightarrow> encoder" where
  "encode_v1 l mem n msg tx = bindR (EncodeMessageV1 l (v1_counters n) msg tx)
     (\<lambda>(ok, f, c). Inr (ok, f, n\<lparr>v1_counters := c\<rparr>))"

lemma motor_id_range:
  fixes c :: u32
  assumes "a \<le> c" "unat c \<le> unat a + 7"
  shows "(ucast (c - a) :: u8) < 8"
proof -
  have "unat (c - a) = unat c - unat a" using assms(1) by (simp add: unat_sub)
  then have "unat (c - a) \<le> 7" using assms(2) by simp
  then show ?thesis by (simp add: word_less_nat_alt unsigned_ucast_eq take_bit_eq_mod)
qed

lemma motor_ids:
  fixes c :: u32
  shows "CAN_MSG_ACTUATOR1_HS_STATE_ID \<le> c \<Longrightarrow> c \<le> CAN_MSG_ACTUATOR8_HS_STATE_ID \<Longrightarrow>
      hs_motor_id (dec_hs_state c d) < 8"
    "CAN_MSG_ACTUATOR1_LS_STATE_ID \<le> c \<Longrightarrow> c \<le> CAN_MSG_ACTUATOR8_LS_STATE_ID \<Longrightarrow>
      ls_motor_id (dec_ls_state c d) < 8"
    "V1_ACTUATOR1_STATE_ID \<le> c \<Longrightarrow> c \<le> V1_ACTUATOR4_STATE_ID \<Longrightarrow>
      v1_motor_id (dec_v1_actuator c d) < 8"
  unfolding dec_hs_state_def dec_ls_state_def dec_v1_actuator_def
  by (simp_all, (rule motor_id_range, assumption, simp add: v2_id_defs v1_id_defs word_le_nat_alt)+)

definition decoded_ok :: "bool \<times> agx_message \<Rightarrow> bool" where
  "decoded_ok r \<longleftrightarrow> (fst r \<longrightarrow> status_ok (snd r))"

lemma decode_v2_status: "decoded_ok (DecodeCanFrameV2 stale rx)"
  unfolding DecodeCanFrameV2_def Let_def if_distrib[of decoded_ok]
  by (simp add: decoded_ok_def status_ok_def motor_ids cong: if_cong)

definition decoded_res_ok :: "(bool \<times> agx_message) res \<Rightarrow> bool" where
  "decoded_res_ok r \<longleftrightarrow> (\<exists>x. r = Inr x \<and> decoded_ok x)"

lemma decode_v1_status:
  assumes "frame_ok rx"
  shows "decoded_res_ok (DecodeCanFrameV1 s rx)"
proof -
  have "unat (can_dlc rx) \<le> 8" using assms by (simp add: frame_ok_def word_le_nat_alt)
  then have "unat (can_dlc rx) - 1 \<le> length (cdata rx)" using assms by (simp add: frame_ok_def)
  then have "\<exists>c. CalcCanFrameChecksumV1 (ucast (can_id rx)) (cdata rx) (can_dlc rx) = Inr c"
    unfolding CalcCanFrameChecksumV1_def by (simp add: not_less[symmetric])
  then obtain c where "CalcCanFrameChecksumV1 (ucast (can_id rx)) (cdata rx) (can_dlc rx) = Inr c" ..
  then show ?thesis unfolding DecodeCanFrameV1_def Let_def
    by (simp add: if_distrib[of decoded_res_ok] decoded_res_ok_def decoded_ok_def status_ok_def motor_ids ex_bool_eq
        cong: if_cong)
qed

lemma put_frame_ok: "length bs \<le> 8 \<Longrightarrow> length (cdata tx) = 8 \<Longrightarrow> frame_ok (put_frame c bs tx)"
proof -
  assume a: "length bs \<le> 8" "length (cdata tx) = 8"
  then have "of_nat (length bs) \<le> (8 :: u8)" by (simp add: word_le_nat_alt unat_of_nat)
  then show ?thesis using a by (simp add: frame_ok_def)
qed

lemma enc_lengths:
  "enc_motion m = Inr bs \<Longrightarrow> length bs = 8"
  "length (enc_light c l) = 8"
  "enc_system_state j ss = Inr bs \<Longrightarrow> length bs = 8"
  "length (enc_rc_state j rc) = 8"
  "enc_hs_state hs = Inr bs \<Longrightarrow> length bs = 8"
  "enc_ls_state j ls = Inr bs \<Longrightarrow> length bs = 8"
  "enc_bms_basic bb = Inr bs \<Longrightarrow> length bs = 8"
  by (auto simp: enc_motion_def enc_light_def enc_system_state_def enc_rc_state_def enc_hs_state_def
      enc_ls_state_def enc_bms_basic_def bindR_eq_Inr)

lemma encode_v2_frame:
  assumes "length junk = 8" "length (cdata tx) = 8" "EncodeCanFrameV2 junk c msg tx = Inr (True, f, c')"
  shows "frame_ok f"
  using assms unfolding EncodeCanFrameV2_def Let_def
  by (cases "mtype msg") (auto simp: body_case_Inr bindR_eq_Inr enc_lengths intro!: put_frame_ok)

lemma put_frame_v1_frame:
  assumes "length bs = 7" "length (cdata tx) = 8" "put_frame_v1 cid bs tx = Inr f"
  shows "frame_ok f"
  using put_frame_v1_ok[OF assms(1), of cid tx] assms by (auto simp: frame_ok_def)

lemma encode_v1_frame:
  assumes "length (cdata tx) = 8" "EncodeCanFrameV1 n msg tx = Inr (True, f, n')"
  shows "frame_ok f"
  using assms(2) unfolding EncodeCanFrameV1_def
  by (cases "mtype msg") (auto simp: body_case_Inr bindR_eq_Inr intro!: put_frame_v1_frame[OF _ assms(1)])

interpretation v2_parser: agx_parser decode_v2 encode_v2
proof unfold_locales
  fix rx mem
  show "\<exists>ok msg. decode_v2 mem rx = Inr (ok, msg) \<and> (ok \<longrightarrow> status_ok msg)"
    using decode_v2_status[of "stale_rc mem" rx]
    by (cases "DecodeCanFrameV2 (stale_rc mem) rx") (simp add: decode_v2_def decoded_ok_def)
next
  fix mem tx n msg f n'
  assume "memory_ok mem" "length (cdata tx) = 8" "encode_v2 mem n msg tx = Inr (True, f, n')"
  then show "frame_ok f"
    by (auto simp: encode_v2_def bindR_eq_Inr memory_ok_def intro: encode_v2_frame)
qed

interpretation v1_parser: agx_parser decode_v1 "encode_v1 l" for l
proof unfold_locales
  fix rx mem
  assume "frame_ok rx"
  then show "\<exists>ok msg. decode_v1 mem rx = Inr (ok, msg) \<and> (ok \<longrightarrow> status_ok msg)"
    using decode_v1_status[of rx "stale_steering mem"]
    by (auto simp: decode_v1_def decoded_res_ok_def decoded_ok_def)
next
  fix mem tx n msg f n'
  assume "memory_ok mem" "length (cdata tx) = 8" "encode_v1 l mem n msg tx = Inr (True, f, n')"
  then show "frame_ok f"
    by (auto simp: encode_v1_def EncodeMessageV1_def bindR_eq_Inr body_case_Inr
        intro: encode_v1_frame split: if_splits)
qed

section \<open>Receiving and sending are safe\<close>

text \<open>A run of the receive callback over the frames as they arrive.\<close>

fun parse_frames :: "decoder \<Rightarrow> (stack_memory \<times> (nat \<times> nat \<times> nat) \<times> can_frame) list \<Rightarrow>
    agx_robot \<Rightarrow> agx_robot res" where
  "parse_frames decode [] r = Inr r"
| "parse_frames decode ((mem, t, rx) # fs) r =
     bindR (ParseCANFrame decode mem t rx r) (parse_frames decode fs)"

lemma parser_cases:
  assumes "decode \<in> {decode_v1, decode_v2}" "robot_ok r" "frame_ok rx"
  shows "\<exists>r'. ParseCANFrame decode mem t rx r = Inr r' \<and> robot_ok r'"
  using assms v1_parser.parse_ok[OF assms(2,3)] v2_parser.parse_ok[OF assms(2,3)] by blast

text \<open>
  agx_parse_safe: whatever frames the bus delivers, in either protocol version, the base class
  parses all of them without an access outside its actuator arrays or a read
  of the wrong union member, and the version buffer holds printable characters
  only.
\<close>
theorem agx_parse_safe:
  assumes "decode \<in> {decode_v1, decode_v2}" "robot_ok r" "\<forall>f \<in> set fs. frame_ok (snd (snd f))"
  shows "\<exists>r'. parse_frames decode fs r = Inr r' \<and> robot_ok r'"
  using assms(2,3)
proof (induction fs arbitrary: r)
  case Nil
  then show ?case by simp
next
  case (Cons f fs)
  obtain mem t rx where f: "f = (mem, t, rx)" by (cases f)
  obtain r1 where r1: "ParseCANFrame decode mem t rx r = Inr r1" "robot_ok r1"
    using parser_cases[OF assms(1) Cons.prems(1), of rx mem t] Cons.prems(2) f by auto
  then show ?case using Cons.IH[OF r1(2)] Cons.prems(2) f by simp
qed

text \<open>A robot whose message groups are all zero, connected to an opened port or not, for the examples.\<close>

definition zero_robot :: "can_port option \<Rightarrow> agx_robot" where
  "zero_robot p = (let z = Fin 0; light = \<lparr>mode = 0, custom_value = 0\<rparr> in
     \<lparr>core_state_msgs = \<lparr>core_time = 0,
        system_state = \<lparr>vehicle_state = 0, control_mode = 0, battery_voltage = z, error_code = 0\<rparr>,
        motion_state = \<lparr>linear_velocity = z, angular_velocity = z, lateral_velocity = z, steering_angle = z\<rparr>,
        light_state = \<lparr>enable_cmd_ctrl = False, front_light = light, rear_light = light\<rparr>,
        motion_mode_state = \<lparr>motion_mode = 0, mode_changing = 0\<rparr>, rc_state = no_stale\<rparr>,
      actuator_state_msgs = \<lparr>actuator_time = 0,
        actuator_hs_state = replicate 8 \<lparr>hs_motor_id = 0, hs_rpm = 0, hs_current = z, pulse_count = 0\<rparr>,
        actuator_ls_state = replicate 8 \<lparr>ls_motor_id = 0, driver_voltage = z, ls_driver_temp = z,
          ls_motor_temp = z, driver_state = 0\<rparr>,
        actuator_state = replicate 8 \<lparr>v1_motor_id = 0, v1_current = z, v1_rpm = 0,
          v1_driver_temp = z, v1_motor_temp = z\<rparr>,
        motor_angles = \<lparr>angle_5 = z, angle_6 = z, angle_7 = z, angle_8 = z\<rparr>,
        motor_speeds = \<lparr>speed_1 = z, speed_2 = z, speed_3 = z, speed_4 = z\<rparr>\<rparr>,
      common_sensor_state_msgs = \<lparr>sensor_time = 0,
        bms_basic_state = \<lparr>battery_soc = 0, battery_soh = 0, voltage = z, bms_current = z, temperature = z\<rparr>,
        bms_extend_state = \<lparr>alarm_status_1 = 0, alarm_status_2 = 0, warn_status_1 = 0, warn_status_2 = 0\<rparr>\<rparr>,
      version_string_buffer = [], can = p,
      counts = \<lparr>v2_light_count = 0,
        v1_counters = \<lparr>motion_count = 0, value_count = 0, light_count = 0\<rparr>\<rparr>\<rparr>)"

definition some_memory :: stack_memory where
  "some_memory = \<lparr>junk_bytes = replicate 8 0xcc, junk_frame = empty_frame, stale_rc = no_stale,
     stale_steering = NaN\<rparr>"

lemma zero_robot_ok: "(\<And>p. c = Some p \<Longrightarrow> can_sent p = []) \<Longrightarrow> robot_ok (zero_robot c)"
  by (simp add: zero_robot_def Let_def robot_ok_def AGX_MAX_ACTUATOR_NUM_def)

lemma some_memory_ok: "memory_ok some_memory"
  by (simp add: some_memory_def memory_ok_def empty_frame_def)

theorem agx_parse_safe_witness:
  "\<exists>r'. parse_frames decode_v2
      [(some_memory, (1, 2, 3), \<lparr>can_id = 0x258, can_dlc = 8, cdata = [0xff, 0, 0, 0, 0, 0, 0, 0]\<rparr>),
       (some_memory, (4, 5, 6), \<lparr>can_id = 0x4a1, can_dlc = 8, cdata = [0, 65, 200, 66, 32, 31, 127, 1]\<rparr>)]
      (zero_robot None) = Inr r' \<and> robot_ok r'"
  by (rule agx_parse_safe) (auto intro: zero_robot_ok simp: frame_ok_def)

text \<open>
  agx_time_stamps: what a decoded frame does to the groups' time stamps: the actuator group is
  stamped by every frame, whatever it carries; the sensor group is stamped by
  the basic battery message only, and the extended battery message, although it
  changes the group, leaves the old stamp; the core group is left alone by
  every message that is not one of its five.
\<close>
theorem agx_time_stamps:
  assumes "decode mem rx = Inr (True, msg)" "ParseCANFrame decode mem (t1, t2, t3) rx r = Inr r'"
  shows "actuator_time (actuator_state_msgs r') = t2
    \<and> sensor_time (common_sensor_state_msgs r') = (if mtype msg = AgxMsgBmsBasic then t3
        else sensor_time (common_sensor_state_msgs r))
    \<and> (if mtype msg \<in> {AgxMsgSystemState, AgxMsgMotionState, AgxMsgLightState,
            AgxMsgMotionModeState, AgxMsgRcState}
       then core_time (core_state_msgs r') = t1 else core_state_msgs r' = core_state_msgs r)"
proof -
  have a: "UpdateActuatorState t2 msg g = Inr g' \<Longrightarrow> actuator_time g' = t2" for g g'
    by (cases "mtype msg") (auto simp: UpdateActuatorState_def Let_def bindR_eq_Inr split: msg_body.splits)
  have s: "UpdateCommonSensorState t3 msg g = Inr g' \<Longrightarrow>
      sensor_time g' = (if mtype msg = AgxMsgBmsBasic then t3 else sensor_time g)" for g g'
    by (cases "mtype msg") (auto simp: UpdateCommonSensorState_def split: msg_body.splits)
  have c: "UpdateRobotCoreState t1 msg g = Inr g' \<Longrightarrow> if mtype msg \<in> {AgxMsgSystemState,
        AgxMsgMotionState, AgxMsgLightState, AgxMsgMotionModeState, AgxMsgRcState}
      then core_time g' = t1 else g' = g" for g g'
    by (cases "mtype msg") (auto simp: UpdateRobotCoreState_def body_case_Inr)
  show ?thesis using assms a s c[of "core_state_msgs r" "core_state_msgs r'"]
    by (auto simp: ParseCANFrame_def bindR_eq_Inr)
qed

theorem agx_time_stamps_witness:
  "\<exists>r'. ParseCANFrame decode_v2 some_memory (1, 2, 3) \<lparr>can_id = 0x362, can_dlc = 8,
        cdata = [1, 2, 3, 4, 5, 6, 7, 8]\<rparr> (zero_robot None) = Inr r'
      \<and> actuator_time (actuator_state_msgs r') = 2 \<and> sensor_time (common_sensor_state_msgs r') = 0
      \<and> alarm_status_1 (bms_extend_state (common_sensor_state_msgs r')) = 1"
proof -
  let ?rx = "\<lparr>can_id = 0x362, can_dlc = 8, cdata = [1, 2, 3, 4, 5, 6, 7, 8]\<rparr> :: can_frame"
  let ?msg = "\<lparr>mtype = AgxMsgBmsExtended, body = BBmsExtended \<lparr>alarm_status_1 = 1, alarm_status_2 = 2,
     warn_status_1 = 3, warn_status_2 = 4\<rparr>\<rparr>"
  have d: "decode_v2 some_memory ?rx = Inr (True, ?msg)"
    by (simp add: decode_v2_def DecodeCanFrameV2_def v2_id_defs Let_def dec_bms_extended_def)
  have p: "ParseCANFrame decode_v2 some_memory (1, 2, 3) ?rx (zero_robot None) = Inr r' \<Longrightarrow>
      alarm_status_1 (bms_extend_state (common_sensor_state_msgs r')) = 1" for r'
    using d by (auto simp: ParseCANFrame_def bindR_eq_Inr UpdateCommonSensorState_def)
  obtain r' where r: "ParseCANFrame decode_v2 some_memory (1, 2, 3) ?rx (zero_robot None) = Inr r'"
    using v2_parser.parse_ok[of "zero_robot None" ?rx some_memory "(1, 2, 3)"]
    by (auto intro: zero_robot_ok simp: frame_ok_def)
  show ?thesis using agx_time_stamps[OF d r] p[OF r] r by (simp add: zero_robot_def Let_def)
qed

section \<open>A velocity command on the bus\<close>

lemma milli_command:
  assumes "\<bar>x\<bar> \<le> 32"
  shows "\<exists>w. milli_enc (to_f32 (Fin x)) = Inr w \<and> \<bar>of_int (sint w) - 1000 * x\<bar> \<le> 1 + 1 / 64"
proof -
  obtain y where y: "f32 x = Fin y" "\<bar>y - x\<bar> \<le> \<bar>x\<bar> / 2 ^ 24 + 1 / 2 ^ 100"
    using f32_abs[of x] assms by auto
  have y32: "\<bar>y\<bar> \<le> 33" using y(2) assms by simp
  then have "\<bar>y * 1000\<bar> \<le> 2 ^ 100" by (simp add: abs_mult)
  then obtain z where z: "f32 (y * 1000) = Fin z" "\<bar>z - y * 1000\<bar> \<le> \<bar>y * 1000\<bar> / 2 ^ 24 + 1 / 2 ^ 100"
    using f32_abs by blast
  have "\<bar>y * 1000\<bar> \<le> 33000" using y32 by (simp add: abs_mult)
  then have "\<bar>z - y * 1000\<bar> \<le> 1 / 256" "\<bar>y - x\<bar> \<le> 1 / 256000" using y(2) z(2) assms by simp_all
  then have d: "\<bar>z - 1000 * x\<bar> \<le> 1 / 64" by linarith
  have t: "\<bar>of_int (rat_trunc z) - z\<bar> \<le> 1" "\<bar>of_int (rat_trunc z)\<bar> \<le> \<bar>z\<bar>"
    using of_int_floor_le[of z] of_int_floor_le[of "- z"] floor_correct[of z] floor_correct[of "- z"]
    unfolding rat_trunc_def by (cases "0 \<le> z"; simp add: abs_le_iff; linarith)+
  have "\<bar>z\<bar> \<le> 32001" using d assms by linarith
  then have "\<bar>of_int (rat_trunc z)\<bar> \<le> (32001 :: rat)" using t(2) by linarith
  then have "\<bar>rat_trunc z\<bar> \<le> 32001" by linarith
  then obtain w where w: "fp_to_signed (Fin z) = Inr (w :: u16)" "sint w = rat_trunc z"
    using fp_to_signed_16[of z "rat_trunc z"] by (auto simp: abs_le_iff)
  have "\<bar>of_int (rat_trunc z) - 1000 * x\<bar> \<le> 1 + 1 / 64" using d t(1) by linarith
  then show ?thesis using w y(1) z(1) by (simp add: milli_enc_def to_f32_def del: of_int_sint)
qed


definition sent_frames :: "agx_robot \<Rightarrow> can_frame list" where
  "sent_frames r = (case can r of None \<Rightarrow> [] | Some p \<Rightarrow> can_sent p)"

lemma send_message_sent:
  assumes "robot_opened r" "encode mem (counts r) msg (junk_frame mem) = Inr (True, f, n)"
  shows "\<exists>r'. send_message encode mem msg r = Inr r' \<and> sent_frames r' = sent_frames r @ [f]"
  using assms by (auto simp: send_message_def robot_opened_def send_frame_def sent_frames_def
      can_send_frame_def split: option.splits)

lemma send_motion_v2:
  assumes "robot_opened r" "\<bar>x\<bar> \<le> 32" "\<bar>y\<bar> \<le> 32" "\<bar>z\<bar> \<le> 32" "\<bar>s\<bar> \<le> 32"
  shows "\<exists>r' f. SendMotionCommand AGX_V2 encode_v2 mem (Fin x) (Fin y) (Fin z) (Fin s) r = Inr r'
    \<and> sent_frames r' = sent_frames r @ [f] \<and> can_id f = CAN_MSG_MOTION_COMMAND_ID \<and> can_dlc f = 8
    \<and> \<bar>of_int (sint (at16 (cdata f) 0)) - 1000 * x\<bar> \<le> 1 + 1 / 64
    \<and> \<bar>of_int (sint (at16 (cdata f) 2)) - 1000 * y\<bar> \<le> 1 + 1 / 64
    \<and> \<bar>of_int (sint (at16 (cdata f) 4)) - 1000 * z\<bar> \<le> 1 + 1 / 64
    \<and> \<bar>of_int (sint (at16 (cdata f) 6)) - 1000 * s\<bar> \<le> 1 + 1 / 64"
proof -
  obtain a b c d where w:
    "milli_enc (to_f32 (Fin x)) = Inr a" "\<bar>of_int (sint a) - 1000 * x\<bar> \<le> 1 + 1 / 64"
    "milli_enc (to_f32 (Fin y)) = Inr b" "\<bar>of_int (sint b) - 1000 * y\<bar> \<le> 1 + 1 / 64"
    "milli_enc (to_f32 (Fin z)) = Inr c" "\<bar>of_int (sint c) - 1000 * z\<bar> \<le> 1 + 1 / 64"
    "milli_enc (to_f32 (Fin s)) = Inr d" "\<bar>of_int (sint d) - 1000 * s\<bar> \<le> 1 + 1 / 64"
    using milli_command[OF assms(2)] milli_command[OF assms(3)] milli_command[OF assms(4)]
      milli_command[OF assms(5)] by blast
  let ?f = "put_frame CAN_MSG_MOTION_COMMAND_ID (put16 a @ put16 b @ put16 c @ put16 d) (junk_frame mem)"
  let ?msg = "\<lparr>mtype = AgxMsgMotionCommand, body = BMotionCommand
    \<lparr>linear_velocity = to_f32 (Fin x), angular_velocity = to_f32 (Fin y),
     lateral_velocity = to_f32 (Fin z), steering_angle = to_f32 (Fin s)\<rparr>\<rparr>"
  have "encode_v2 mem (counts r) ?msg (junk_frame mem) = Inr (True, ?f, counts r)"
    by (simp add: encode_v2_def EncodeCanFrameV2_def enc_motion_def w)
  from send_message_sent[of r encode_v2 mem ?msg, OF assms(1) this] obtain r' where
    r: "send_message encode_v2 mem ?msg r = Inr r'" "sent_frames r' = sent_frames r @ [?f]" by blast
  show ?thesis
    using r w by (intro exI[of _ r'] exI[of _ ?f])
      (simp add: SendMotionCommand_def at16_four del: of_int_sint)
qed

text \<open>
  agx_motion_command: on an open port a velocity command of at most 32 m/s (rad/s, rad) in each
  component puts exactly one frame on the bus, with the motion command's
  identifier and eight bytes, and each of its four fields is the commanded
  value in thousandths up to 1 + 1/64 units.
\<close>
theorem agx_motion_command:
  assumes "robot_opened r" "\<bar>x\<bar> \<le> 32" "\<bar>y\<bar> \<le> 32" "\<bar>z\<bar> \<le> 32" "\<bar>s\<bar> \<le> 32"
  shows "\<exists>r' f. SendMotionCommand AGX_V2 encode_v2 mem (Fin x) (Fin y) (Fin z) (Fin s) r = Inr r'
    \<and> sent_frames r' = sent_frames r @ [f] \<and> can_id f = CAN_MSG_MOTION_COMMAND_ID \<and> can_dlc f = 8
    \<and> \<bar>of_int (sint (at16 (cdata f) 0)) - 1000 * x\<bar> \<le> 1 + 1 / 64
    \<and> \<bar>of_int (sint (at16 (cdata f) 2)) - 1000 * y\<bar> \<le> 1 + 1 / 64
    \<and> \<bar>of_int (sint (at16 (cdata f) 4)) - 1000 * z\<bar> \<le> 1 + 1 / 64
    \<and> \<bar>of_int (sint (at16 (cdata f) 6)) - 1000 * s\<bar> \<le> 1 + 1 / 64"
  using send_motion_v2[OF assms] .

definition open_port :: can_port where
  "open_port = \<lparr>can_port_opened = True, can_fd = 5, can_joinable = True, can_reading = True, can_sent = []\<rparr>"

theorem agx_motion_command_witness:
  "\<exists>r' f. SendMotionCommand AGX_V2 encode_v2 some_memory (Fin (3 / 2)) (Fin (- 1 / 4)) (Fin 0) (Fin 0)
      (zero_robot (Some open_port)) = Inr r' \<and> sent_frames r' = [f] \<and> can_id f = 0x111
      \<and> \<bar>of_int (sint (at16 (cdata f) 0)) - (1500 :: rat)\<bar> \<le> 1 + 1 / 64"
proof -
  have o: "robot_opened (zero_robot (Some open_port))" "sent_frames (zero_robot (Some open_port)) = []"
    by (simp_all add: robot_opened_def sent_frames_def zero_robot_def Let_def open_port_def)
  show ?thesis
    using agx_motion_command[OF o(1), of "3 / 2" "- 1 / 4" 0 0 some_memory] o(2)
    by (auto simp: CAN_MSG_MOTION_COMMAND_ID_def simp del: of_int_sint)
qed

text \<open>
  agx_commands_safe: every command of the base class, in either protocol version, keeps the
  robot well formed (all frames on the bus are eight bytes with a length of at
  most eight), sends at most one frame, and does nothing on a closed port.
\<close>
theorem agx_commands_safe:
  assumes "encode = encode_v2 \<or> encode = encode_v1 l" "robot_ok r" "memory_ok mem"
    and "cmd \<in> {EnableCommandedMode encode mem, SendMotionCommand v encode mem a b c d,
      SendLightCommand encode mem fm fv rm rv, DisableLightControl encode mem lights,
      SetMotionMode encode mem mm, SetBrakeMode encode mem bm}"
    and "cmd r = Inr r'"
  shows "robot_ok r' \<and> (\<exists>fs. sent_frames r' = sent_frames r @ fs \<and> length fs \<le> 1)
    \<and> (\<not> robot_opened r \<longrightarrow> r' = r)"
proof -
  obtain msg where m: "send_message encode mem msg r = Inr r'"
    using assms(4,5) by (auto simp: EnableCommandedMode_def SendMotionCommand_def SendLightCommand_def
        DisableLightControl_def SetMotionMode_def SetBrakeMode_def)
  have "robot_ok r'"
    using assms(1) v2_parser.send_ok[OF assms(2,3), of msg r'] v1_parser.send_ok[OF assms(2,3), of l msg r'] m
    by blast
  moreover have "\<not> robot_opened r \<Longrightarrow> r' = r" using m by (simp add: send_message_def)
  moreover have "\<exists>fs. sent_frames r' = sent_frames r @ fs \<and> length fs \<le> 1"
    using m by (auto simp: send_message_def bindR_eq_Inr sent_frames_def send_frame_def can_send_frame_def
        robot_opened_def split: option.splits if_splits)
  ultimately show ?thesis by blast
qed

theorem agx_commands_safe_witness:
  "robot_ok (zero_robot None) \<and> SendLightCommand (encode_v1 BunkerLimits) some_memory 1 2 3 4
     (zero_robot None) = Inr (zero_robot None)"
proof -
  have e: "SendLightCommand (encode_v1 BunkerLimits) some_memory 1 2 3 4 (zero_robot None)
      = Inr (zero_robot None)"
    by (simp add: SendLightCommand_def send_message_def robot_opened_def zero_robot_def Let_def)
  have k: "robot_ok (zero_robot None)" by (rule zero_robot_ok) simp
  have "robot_ok (zero_robot None) \<and> (\<exists>fs. sent_frames (zero_robot None) = sent_frames (zero_robot None) @ fs
      \<and> length fs \<le> 1) \<and> (\<not> robot_opened (zero_robot None) \<longrightarrow> zero_robot None = zero_robot None)"
    by (rule agx_commands_safe[where encode = "encode_v1 BunkerLimits" and l = BunkerLimits and mem = some_memory
          and cmd = "SendLightCommand (encode_v1 BunkerLimits) some_memory 1 2 3 4" and fm = 1 and fv = 2
          and rm = 3 and rv = 4])
      (simp_all add: k some_memory_ok e)
  then show ?thesis using e by blast
qed

text \<open>
  agx_enable_mode: asking for commanded mode.  Under protocol version 2 one frame 0x421 with the
  first byte 1 is sent; under version 1 nothing at all is sent, on whatever
  robot and port, since the version 1 encoder has no such message.
\<close>
theorem agx_enable_mode:
  "EnableCommandedMode (encode_v1 l) mem r = Inr r
   \<and> (robot_opened r \<longrightarrow> (\<exists>r' f. EnableCommandedMode encode_v2 mem r = Inr r'
        \<and> sent_frames r' = sent_frames r @ [f] \<and> can_id f = 0x421 \<and> can_dlc f = 8 \<and> cdata f ! 0 = 1))"
proof (intro conjI impI)
  show "EnableCommandedMode (encode_v1 l) mem r = Inr r"
    by (simp add: EnableCommandedMode_def send_message_def encode_v1_def EncodeMessageV1_def
        EncodeCanFrameV1_def)
  assume o: "robot_opened r"
  let ?msg = "\<lparr>mtype = AgxMsgControlModeConfig, body = BControlModeConfig CONTROL_MODE_CAN\<rparr>"
  let ?f = "put_frame CAN_MSG_CTRL_MODE_CONFIG_ID [1, 0, 0, 0, 0, 0, 0, 0] (junk_frame mem)"
  have e: "encode_v2 mem (counts r) ?msg (junk_frame mem) = Inr (True, ?f, counts r)"
    "can_id ?f = 0x421" "can_dlc ?f = 8" "cdata ?f ! 0 = 1"
    by (simp_all add: encode_v2_def EncodeCanFrameV2_def CAN_MSG_CTRL_MODE_CONFIG_ID_def CONTROL_MODE_CAN_def)
  show "\<exists>r' f. EnableCommandedMode encode_v2 mem r = Inr r'
        \<and> sent_frames r' = sent_frames r @ [f] \<and> can_id f = 0x421 \<and> can_dlc f = 8 \<and> cdata f ! 0 = 1"
    using send_message_sent[of r encode_v2 mem ?msg, OF o e(1)] e(2-) by (auto simp: EnableCommandedMode_def)
qed

theorem agx_enable_mode_witness:
  "\<exists>r' f. EnableCommandedMode encode_v2 some_memory (zero_robot (Some open_port)) = Inr r'
     \<and> sent_frames r' = [f] \<and> can_id f = 0x421"
proof -
  have o: "robot_opened (zero_robot (Some open_port))" "sent_frames (zero_robot (Some open_port)) = []"
    by (simp_all add: robot_opened_def sent_frames_def zero_robot_def Let_def open_port_def)
  show ?thesis using agx_enable_mode[of BunkerLimits some_memory "zero_robot (Some open_port)"] o by auto
qed

text \<open>
  agx_request_version: RequestVersion needs a port (without one it dereferences a null pointer);
  it clears the buffer, sends one frame with the identifier 0x4a1, which is the
  one the version response is decoded from, and returns either nothing or a
  snapshot of the buffer of at least eighty characters.
\<close>
theorem agx_request_version:
  "(can r = None \<longrightarrow> RequestVersion mem snaps r = Inl NullDeref)
   \<and> (\<forall>p. can r = Some p \<longrightarrow> (\<exists>v r' f. RequestVersion mem snaps r = Inr (v, r')
        \<and> version_string_buffer r' = [] \<and> sent_frames r' = sent_frames r @ [f]
        \<and> can_id f = CAN_MSG_VERSION_RESPONSE_ID \<and> (v = [] \<or> v \<in> set snaps \<and> 80 \<le> length v)))"
proof -
  have "poll_version v snaps = v \<or> poll_version v snaps \<in> set snaps" for v
    by (induction snaps arbitrary: v) force+
  from this[of "[]"] show ?thesis
    by (auto simp: RequestVersion_def send_frame_def Let_def sent_frames_def can_send_frame_def
        CAN_MSG_VERSION_RESPONSE_ID_def split: option.splits)
qed

theorem agx_request_version_witness:
  "\<exists>v r'. RequestVersion some_memory [[65], replicate 80 66] (zero_robot (Some open_port)) = Inr (v, r')
     \<and> version_string_buffer r' = [] \<and> (v = [] \<or> v \<in> {[65], replicate 80 66} \<and> 80 \<le> length v)"
proof -
  have "can (zero_robot (Some open_port)) = Some open_port" by (simp add: zero_robot_def Let_def)
  then show ?thesis
    using agx_request_version[of "zero_robot (Some open_port)" some_memory "[[65], replicate 80 66]"] by auto
qed

end
