(* ===== verification/Agx_Robots.thy ===== *)
theory Agx_Robots
  imports Agx_Base
begin

text \<open>
  The robot classes (edge/src/ugv_sdk/include/ugv_sdk/details/robot_base/), the
  objects users hold (src/mobile_robot/) and the protocol detector
  (src/utilities/protocol_detector.cpp).  A robot class is a constructor of one
  datatype; the pointer robot_ of a user object is None where no constructor
  assigned it, since the member has no initialiser.  Virtual calls and dynamic
  casts are case distinctions on the class.  Structs the code declares without
  an initialiser arrive as an argument (called stale) and are updated.
\<close>

section \<open>Views of the state\<close>

text \<open>The loop that copies the first n elements of a member array.\<close>

primrec copy_actuators :: "nat \<Rightarrow> 'a list \<Rightarrow> 'a list \<Rightarrow> 'a list" where
  "copy_actuators 0 src dst = dst"
| "copy_actuators (Suc n) src dst = (copy_actuators n src dst)[n := src ! n]"

record robot_core_state =
  rcs_time :: nat
  rcs_system :: system_state_message
  rcs_motion :: motion_state_message
  rcs_light :: light_command_message
  rcs_mode :: motion_mode_state_message
  rcs_rc :: rc_state_message

record robot_actuator_state =
  ras_time :: nat
  ras_angles :: motor_angle_message
  ras_speeds :: motor_speed_message
  ras_hs :: "actuator_hs_state_message list"
  ras_ls :: "actuator_ls_state_message list"
  ras_v1 :: "actuator_state_message_v1 list"

record robot_sensor_state =
  rss_time :: nat
  rss_bms :: bms_basic_message
  rss_ext :: bms_extended_message

definition ScoutBase_GetRobotState :: "robot_core_state \<Rightarrow> agx_robot \<Rightarrow> robot_core_state" where
  "ScoutBase_GetRobotState stale r = (let s = core_state_msgs r in
     stale\<lparr>rcs_time := core_time s, rcs_system := system_state s, rcs_motion := motion_state s,
       rcs_light := light_state s, rcs_rc := rc_state s\<rparr>)"

definition HunterBase_GetRobotState :: "robot_core_state \<Rightarrow> agx_robot \<Rightarrow> robot_core_state" where
  "HunterBase_GetRobotState stale r = (let s = core_state_msgs r in
     stale\<lparr>rcs_time := core_time s, rcs_system := system_state s, rcs_motion := motion_state s,
       rcs_rc := rc_state s\<rparr>)"

definition BunkerBase_GetRobotState :: "robot_core_state \<Rightarrow> agx_robot \<Rightarrow> robot_core_state" where
  "BunkerBase_GetRobotState stale r = (let s = core_state_msgs r in
     stale\<lparr>rcs_time := core_time s, rcs_system := system_state s, rcs_motion := motion_state s,
       rcs_rc := rc_state s\<rparr>)"

definition TracerBase_GetRobotState :: "robot_core_state \<Rightarrow> agx_robot \<Rightarrow> robot_core_state" where
  "TracerBase_GetRobotState stale r = (let s = core_state_msgs r in
     stale\<lparr>rcs_time := core_time s, rcs_system := system_state s, rcs_motion := motion_state s,
       rcs_light := light_state s, rcs_rc := rc_state s\<rparr>)"

definition TitanBase_GetRobotState :: "robot_core_state \<Rightarrow> agx_robot \<Rightarrow> robot_core_state" where
  "TitanBase_GetRobotState stale r = (let s = core_state_msgs r in
     stale\<lparr>rcs_time := core_time s, rcs_system := system_state s, rcs_motion := motion_state s,
       rcs_rc := rc_state s, rcs_mode := motion_mode_state s\<rparr>)"

definition RangerBase_GetRobotState :: "robot_core_state \<Rightarrow> agx_robot \<Rightarrow> robot_core_state" where
  "RangerBase_GetRobotState stale r = (let s = core_state_msgs r in
     stale\<lparr>rcs_time := core_time s, rcs_system := system_state s, rcs_motion := motion_state s,
       rcs_light := light_state s, rcs_rc := rc_state s, rcs_mode := motion_mode_state s\<rparr>)"

definition copy_v2_actuators ::
  "nat \<Rightarrow> actuator_state_msg_group \<Rightarrow> robot_actuator_state \<Rightarrow> robot_actuator_state" where
  "copy_v2_actuators n a st = st\<lparr>ras_time := actuator_time a,
     ras_hs := copy_actuators n (actuator_hs_state a) (ras_hs st),
     ras_ls := copy_actuators n (actuator_ls_state a) (ras_ls st)\<rparr>"

definition copy_all_actuators ::
  "nat \<Rightarrow> actuator_state_msg_group \<Rightarrow> robot_actuator_state \<Rightarrow> robot_actuator_state" where
  "copy_all_actuators n a st =
     (copy_v2_actuators n a st)\<lparr>ras_v1 := copy_actuators n (actuator_state a) (ras_v1 st)\<rparr>"

definition ScoutBase_GetActuatorState ::
  "robot_actuator_state \<Rightarrow> agx_robot \<Rightarrow> robot_actuator_state" where
  "ScoutBase_GetActuatorState stale r = copy_all_actuators 4 (actuator_state_msgs r) stale"

definition HunterBase_GetActuatorState ::
  "robot_actuator_state \<Rightarrow> agx_robot \<Rightarrow> robot_actuator_state" where
  "HunterBase_GetActuatorState stale r = copy_all_actuators 3 (actuator_state_msgs r) stale"

definition BunkerBase_GetActuatorState ::
  "robot_actuator_state \<Rightarrow> agx_robot \<Rightarrow> robot_actuator_state" where
  "BunkerBase_GetActuatorState stale r = copy_all_actuators 2 (actuator_state_msgs r) stale"

definition TracerBase_GetActuatorState ::
  "robot_actuator_state \<Rightarrow> agx_robot \<Rightarrow> robot_actuator_state" where
  "TracerBase_GetActuatorState stale r = copy_v2_actuators 2 (actuator_state_msgs r) stale"

definition TitanBase_GetActuatorState ::
  "robot_actuator_state \<Rightarrow> agx_robot \<Rightarrow> robot_actuator_state" where
  "TitanBase_GetActuatorState stale r = copy_v2_actuators 4 (actuator_state_msgs r) stale"

definition RangerBase_GetActuatorState ::
  "robot_actuator_state \<Rightarrow> agx_robot \<Rightarrow> robot_actuator_state" where
  "RangerBase_GetActuatorState stale r = (let a = actuator_state_msgs r in
     copy_v2_actuators 8 a (stale\<lparr>ras_speeds := motor_speeds a, ras_angles := motor_angles a\<rparr>))"

text \<open>The first Ranger Mini reports angles in tenths of a degree, with the sign reversed.\<close>

definition M_PI :: fp where "M_PI = f64 (314159265358979323846 / 100000000000000000000)"

definition mini_v1_angle :: "fp \<Rightarrow> fp" where
  "mini_v1_angle x = to_f32 (fp_mul f64 (fp_div f64 (fp_neg x) (Fin 18)) M_PI)"

definition RangerMiniV1_GetActuatorState ::
  "robot_actuator_state \<Rightarrow> agx_robot \<Rightarrow> robot_actuator_state" where
  "RangerMiniV1_GetActuatorState stale r = (let a = actuator_state_msgs r; g = motor_angles a in
     copy_v2_actuators 8 a (stale\<lparr>ras_speeds := motor_speeds a,
       ras_angles := \<lparr>angle_5 = mini_v1_angle (angle_5 g), angle_6 = mini_v1_angle (angle_6 g),
         angle_7 = mini_v1_angle (angle_7 g), angle_8 = mini_v1_angle (angle_8 g)\<rparr>\<rparr>))"

definition ScoutBase_GetCommonSensorState ::
  "robot_sensor_state \<Rightarrow> agx_robot \<Rightarrow> robot_sensor_state" where
  "ScoutBase_GetCommonSensorState stale r = (let s = common_sensor_state_msgs r in
     stale\<lparr>rss_time := sensor_time s, rss_bms := bms_basic_state s\<rparr>)"

definition RangerBase_GetCommonSensorState ::
  "robot_sensor_state \<Rightarrow> agx_robot \<Rightarrow> robot_sensor_state" where
  "RangerBase_GetCommonSensorState stale r = (let s = common_sensor_state_msgs r in
     stale\<lparr>rss_time := sensor_time s, rss_bms := bms_basic_state s\<rparr>)"

definition BunkerMini_GetCommonSensorState ::
  "robot_sensor_state \<Rightarrow> agx_robot \<Rightarrow> robot_sensor_state" where
  "BunkerMini_GetCommonSensorState stale r = (let s = common_sensor_state_msgs r in
     stale\<lparr>rss_time := sensor_time s, rss_bms := bms_basic_state s\<rparr>)"

text \<open>The robots whose battery reports hundredths of a volt.\<close>

definition tenth_voltage :: "bms_basic_message \<Rightarrow> bms_basic_message" where
  "tenth_voltage b = b\<lparr>voltage := fp_mul f32 (voltage b) (f32 (1 / 10))\<rparr>"

definition RangerMiniV2_GetCommonSensorState ::
  "robot_sensor_state \<Rightarrow> agx_robot \<Rightarrow> robot_sensor_state" where
  "RangerMiniV2_GetCommonSensorState stale r = (let s = common_sensor_state_msgs r in
     stale\<lparr>rss_time := sensor_time s, rss_bms := tenth_voltage (bms_basic_state s)\<rparr>)"

definition TitanBase_GetCommonSensorState ::
  "robot_sensor_state \<Rightarrow> agx_robot \<Rightarrow> robot_sensor_state" where
  "TitanBase_GetCommonSensorState stale r = (let s = common_sensor_state_msgs r in
     stale\<lparr>rss_time := sensor_time s, rss_bms := tenth_voltage (bms_basic_state s)\<rparr>)"

definition HunterBase_GetCommonSensorState ::
  "robot_sensor_state \<Rightarrow> agx_robot \<Rightarrow> robot_sensor_state" where
  "HunterBase_GetCommonSensorState stale r = (let s = common_sensor_state_msgs r in
     stale\<lparr>rss_time := sensor_time s, rss_bms := tenth_voltage (bms_basic_state s),
       rss_ext := bms_extend_state s\<rparr>)"

text \<open>The value-initialised battery state of the larger Bunkers: all zero.\<close>

definition BunkerBase_GetCommonSensorState :: "agx_robot \<Rightarrow> robot_sensor_state" where
  "BunkerBase_GetCommonSensorState r = \<lparr>rss_time = 0,
     rss_bms = \<lparr>battery_soc = 0, battery_soh = 0, voltage = Fin 0, bms_current = Fin 0,
       temperature = Fin 0\<rparr>,
     rss_ext = \<lparr>alarm_status_1 = 0, alarm_status_2 = 0, warn_status_1 = 0, warn_status_2 = 0\<rparr>\<rparr>"

section \<open>The first Ranger Mini\<close>

definition kParallel :: u8 where "kParallel = 1"
definition kSpinning :: u8 where "kSpinning = 2"
definition kPark :: u8 where "kPark = 3"
definition kSideSlip :: u8 where "kSideSlip = 4"

definition spin_scale :: fp where "spin_scale = f64 (254558 / 1000000)"
definition pi_approx :: fp where "pi_approx = f64 (314 / 100)"

definition mini_v1_steering :: "fp \<Rightarrow> fp" where
  "mini_v1_steering x = to_f32 (fp_mul f64 (fp_div f64 (fp_mul f32 (fp_neg x) (Fin 10)) (Fin 180)) pi_approx)"

definition RangerMiniV1_GetRobotState :: "robot_core_state \<Rightarrow> agx_robot \<Rightarrow> robot_core_state" where
  "RangerMiniV1_GetRobotState stale r = (let s = core_state_msgs r; m = motion_state s;
       st = stale\<lparr>rcs_time := core_time s, rcs_system := system_state s, rcs_light := light_state s,
              rcs_rc := rc_state s, rcs_mode := motion_mode_state s\<rparr>;
       md = motion_mode (motion_mode_state s) in
     if md = kSpinning then
       st\<lparr>rcs_motion := \<lparr>linear_velocity = Fin 0,
            angular_velocity = to_f32 (fp_div f64 (fp_neg (linear_velocity m)) spin_scale),
            lateral_velocity = lateral_velocity m,
            steering_angle = mini_v1_steering (steering_angle m)\<rparr>\<rparr>
     else if md = kSideSlip then
       st\<lparr>rcs_motion := (rcs_motion st)\<lparr>linear_velocity := fp_neg (linear_velocity m),
            lateral_velocity := lateral_velocity m,
            steering_angle := mini_v1_steering (steering_angle m)\<rparr>\<rparr>
     else
       st\<lparr>rcs_motion := \<lparr>linear_velocity = linear_velocity m,
            angular_velocity = fp_neg (angular_velocity m),
            lateral_velocity = lateral_velocity m,
            steering_angle = mini_v1_steering (steering_angle m)\<rparr>\<rparr>)"

definition RangerMiniV1_SetMotionMode :: "stack_memory \<Rightarrow> u8 \<Rightarrow> agx_robot \<Rightarrow> agx_robot res" where
  "RangerMiniV1_SetMotionMode mem m r = (if m = kPark then Inr r
     else SetMotionMode encode_v2 mem (if m = kSideSlip then 3 else m) r)"

definition RangerMiniV1_SetMotionCommand ::
  "stack_memory \<Rightarrow> robot_core_state \<Rightarrow> fp \<Rightarrow> fp \<Rightarrow> fp \<Rightarrow> agx_robot \<Rightarrow> agx_robot res" where
  "RangerMiniV1_SetMotionCommand mem stale linear_vel steer_angle angular_vel r =
     (let state = RangerMiniV1_GetRobotState stale r;
          av = (if motion_mode (rcs_mode state) = kSpinning then fp_mul f64 angular_vel spin_scale
                else angular_vel) in
      SendMotionCommand AGX_V2 encode_v2 mem linear_vel (Fin 0) (fp_neg av)
        (fp_mul f64 (fp_div f64 (fp_div f64 (fp_neg steer_angle) (Fin 10)) pi_approx) (Fin 180)) r)"

section \<open>Classes and virtual calls\<close>

datatype robot_class =
    ScoutBaseV1 | ScoutBaseV2 | ScoutMiniBaseV1 | ScoutMiniBaseV2
  | ScoutMiniOmniBaseV1 | ScoutMiniOmniBaseV2
  | HunterBaseV1 | HunterBaseV2
  | BunkerBaseV1 | BunkerBaseV2 | BunkerPro | BunkerMini
  | TracerBaseV2
  | RangerBase | RangerMiniV1Base | RangerMiniV2Base
  | TitanBase

datatype robot_interface =
    ScoutInterface | ScoutOmniInterface | HunterInterface | BunkerInterface | TracerInterface
  | RangerInterface | TitanInterface

text \<open>The template argument of the class.\<close>

definition encoder_of :: "robot_class \<Rightarrow> encoder" where
  "encoder_of c = (case c of
       ScoutBaseV1 \<Rightarrow> encode_v1 ScoutV2Limits
     | ScoutMiniBaseV1 \<Rightarrow> encode_v1 ScoutMiniLimits
     | ScoutMiniOmniBaseV1 \<Rightarrow> encode_v1 ScoutMiniLimits
     | HunterBaseV1 \<Rightarrow> encode_v1 HunterV1Limits
     | BunkerBaseV1 \<Rightarrow> encode_v1 BunkerLimits
     | _ \<Rightarrow> encode_v2)"

definition version_of :: "robot_class \<Rightarrow> protocol_version" where
  "version_of c = (if c \<in> {ScoutBaseV1, ScoutMiniBaseV1, ScoutMiniOmniBaseV1, HunterBaseV1, BunkerBaseV1}
     then AGX_V1 else AGX_V2)"

definition ScoutBase_SetMotionCommand ::
  "robot_class \<Rightarrow> stack_memory \<Rightarrow> fp \<Rightarrow> fp \<Rightarrow> agx_robot \<Rightarrow> agx_robot res" where
  "ScoutBase_SetMotionCommand c mem linear_vel angular_vel =
     SendMotionCommand (version_of c) (encoder_of c) mem linear_vel angular_vel (Fin 0) (Fin 0)"

definition ScoutMiniOmniBase_SetMotionCommand ::
  "robot_class \<Rightarrow> stack_memory \<Rightarrow> fp \<Rightarrow> fp \<Rightarrow> fp \<Rightarrow> agx_robot \<Rightarrow> agx_robot res" where
  "ScoutMiniOmniBase_SetMotionCommand c mem linear_vel angular_vel lateral_vel =
     SendMotionCommand (version_of c) (encoder_of c) mem linear_vel angular_vel lateral_vel (Fin 0)"

definition HunterBase_SetMotionCommand ::
  "robot_class \<Rightarrow> stack_memory \<Rightarrow> fp \<Rightarrow> fp \<Rightarrow> agx_robot \<Rightarrow> agx_robot res" where
  "HunterBase_SetMotionCommand c mem linear_vel angular_vel =
     SendMotionCommand (version_of c) (encoder_of c) mem linear_vel (Fin 0) (Fin 0) angular_vel"

definition BunkerBase_SetMotionCommand ::
  "robot_class \<Rightarrow> stack_memory \<Rightarrow> fp \<Rightarrow> fp \<Rightarrow> agx_robot \<Rightarrow> agx_robot res" where
  "BunkerBase_SetMotionCommand c mem linear_vel angular_vel =
     SendMotionCommand (version_of c) (encoder_of c) mem linear_vel angular_vel (Fin 0) (Fin 0)"

definition TracerBase_SetMotionCommand ::
  "stack_memory \<Rightarrow> fp \<Rightarrow> fp \<Rightarrow> agx_robot \<Rightarrow> agx_robot res" where
  "TracerBase_SetMotionCommand mem linear_vel angular_vel =
     SendMotionCommand AGX_V2 encode_v2 mem linear_vel angular_vel (Fin 0) (Fin 0)"

definition TracerBase_SetLightCommand ::
  "stack_memory \<Rightarrow> u32 \<Rightarrow> u8 \<Rightarrow> agx_robot \<Rightarrow> agx_robot res" where
  "TracerBase_SetLightCommand mem f_mode f_value = SendLightCommand encode_v2 mem f_mode f_value CONST_OFF 0"

definition TitanBase_SetMotionCommand ::
  "stack_memory \<Rightarrow> fp \<Rightarrow> fp \<Rightarrow> agx_robot \<Rightarrow> agx_robot res" where
  "TitanBase_SetMotionCommand mem linear_vel steer_angle =
     SendMotionCommand AGX_V2 encode_v2 mem linear_vel (Fin 0) (Fin 0) steer_angle"

definition RangerBase_SetMotionCommand ::
  "stack_memory \<Rightarrow> fp \<Rightarrow> fp \<Rightarrow> fp \<Rightarrow> agx_robot \<Rightarrow> agx_robot res" where
  "RangerBase_SetMotionCommand mem linear_vel steer_angle angular_vel =
     SendMotionCommand AGX_V2 encode_v2 mem linear_vel angular_vel (Fin 0) steer_angle"

definition HunterBase_ActivateBrake :: "robot_class \<Rightarrow> stack_memory \<Rightarrow> agx_robot \<Rightarrow> agx_robot res" where
  "HunterBase_ActivateBrake c mem = SetBrakeMode (encoder_of c) mem BRAKE_MODE_LOCK"

definition HunterBase_ReleaseBrake :: "robot_class \<Rightarrow> stack_memory \<Rightarrow> agx_robot \<Rightarrow> agx_robot res" where
  "HunterBase_ReleaseBrake c mem = SetBrakeMode (encoder_of c) mem BRAKE_MODE_UNLOCK"

definition TitanBase_ActivateBrake :: "stack_memory \<Rightarrow> agx_robot \<Rightarrow> agx_robot res" where
  "TitanBase_ActivateBrake mem = SetBrakeMode encode_v2 mem BRAKE_MODE_UNLOCK"

definition TitanBase_ReleaseBrake :: "stack_memory \<Rightarrow> agx_robot \<Rightarrow> agx_robot res" where
  "TitanBase_ReleaseBrake mem = SetBrakeMode encode_v2 mem BRAKE_MODE_LOCK"

definition interfaces_of :: "robot_class \<Rightarrow> robot_interface list" where
  "interfaces_of c = (case c of
       HunterBaseV1 \<Rightarrow> [HunterInterface] | HunterBaseV2 \<Rightarrow> [HunterInterface]
     | BunkerBaseV1 \<Rightarrow> [BunkerInterface] | BunkerBaseV2 \<Rightarrow> [BunkerInterface]
     | BunkerPro \<Rightarrow> [BunkerInterface] | BunkerMini \<Rightarrow> [BunkerInterface]
     | TracerBaseV2 \<Rightarrow> [TracerInterface]
     | RangerBase \<Rightarrow> [RangerInterface] | RangerMiniV1Base \<Rightarrow> [RangerInterface]
     | RangerMiniV2Base \<Rightarrow> [RangerInterface] | TitanBase \<Rightarrow> [TitanInterface]
     | ScoutMiniOmniBaseV1 \<Rightarrow> [ScoutInterface, ScoutOmniInterface]
     | ScoutMiniOmniBaseV2 \<Rightarrow> [ScoutInterface, ScoutOmniInterface]
     | _ \<Rightarrow> [ScoutInterface])"

section \<open>The objects users hold\<close>

record robot_object =
  robot_ptr :: "robot_class option"
  robot_base :: agx_robot

text \<open>A call through robot_, directly or after a dynamic_cast to an interface.\<close>

definition robot_call :: "(robot_class \<Rightarrow> agx_robot \<Rightarrow> agx_robot res) \<Rightarrow> robot_object \<Rightarrow> robot_object res" where
  "robot_call f ob = (case robot_ptr ob of None \<Rightarrow> Inl Undefined
     | Some c \<Rightarrow> bindR (f c (robot_base ob)) (\<lambda>b. Inr (ob\<lparr>robot_base := b\<rparr>)))"

definition cast_call :: "robot_interface \<Rightarrow> (robot_class \<Rightarrow> agx_robot \<Rightarrow> agx_robot res) \<Rightarrow>
    robot_object \<Rightarrow> robot_object res" where
  "cast_call i f ob = (case robot_ptr ob of None \<Rightarrow> Inl Undefined
     | Some c \<Rightarrow> if i \<in> set (interfaces_of c) then robot_call f ob else Inl NullDeref)"

definition ScoutRobot :: "protocol_version \<Rightarrow> bool \<Rightarrow> agx_robot \<Rightarrow> robot_object" where
  "ScoutRobot protocol is_mini_model b = \<lparr>robot_ptr =
      (if \<not> is_mini_model then
         (if protocol = AGX_V1 then Some ScoutBaseV1
          else if protocol = AGX_V2 then Some ScoutBaseV2 else None)
       else
         (if protocol = AGX_V1 then Some ScoutMiniBaseV1
          else if protocol = AGX_V2 then Some ScoutMiniBaseV2 else None)), robot_base = b\<rparr>"

definition ScoutMiniOmniRobot :: "protocol_version \<Rightarrow> agx_robot \<Rightarrow> robot_object" where
  "ScoutMiniOmniRobot protocol b = (let ob = ScoutRobot UNKONWN False b in
     if protocol = AGX_V1 then ob\<lparr>robot_ptr := Some ScoutMiniOmniBaseV1\<rparr>
     else if protocol = AGX_V2 then ob\<lparr>robot_ptr := Some ScoutMiniOmniBaseV2\<rparr> else ob)"

definition HunterRobot :: "protocol_version \<Rightarrow> agx_robot \<Rightarrow> robot_object" where
  "HunterRobot protocol b = \<lparr>robot_ptr = (if protocol = AGX_V1 then Some HunterBaseV1
      else if protocol = AGX_V2 then Some HunterBaseV2 else None), robot_base = b\<rparr>"

datatype bunker_variant = kBunkerV1 | kBunkerV2 | kBunkerPro | kBunkerMini

definition BunkerRobot :: "bunker_variant \<Rightarrow> agx_robot \<Rightarrow> robot_object" where
  "BunkerRobot variant b = \<lparr>robot_ptr = Some (case variant of kBunkerV1 \<Rightarrow> BunkerBaseV1
      | kBunkerV2 \<Rightarrow> BunkerBaseV2 | kBunkerPro \<Rightarrow> BunkerPro | kBunkerMini \<Rightarrow> BunkerMini), robot_base = b\<rparr>"

datatype ranger_variant = kRanger | kRangerMiniV1 | kRangerMiniV2 | kRangerMiniV3

definition RangerRobot :: "ranger_variant \<Rightarrow> agx_robot \<Rightarrow> robot_object" where
  "RangerRobot variant b = \<lparr>robot_ptr = Some (case variant of kRangerMiniV1 \<Rightarrow> RangerMiniV1Base
      | kRangerMiniV2 \<Rightarrow> RangerMiniV2Base | kRangerMiniV3 \<Rightarrow> RangerBase | kRanger \<Rightarrow> RangerBase),
     robot_base = b\<rparr>"

definition TitanRobot :: "agx_robot \<Rightarrow> robot_object" where
  "TitanRobot b = \<lparr>robot_ptr = Some TitanBase, robot_base = b\<rparr>"

text \<open>Deleting the robot runs the destructor of the base class, which disconnects the port.\<close>

definition robot_delete :: "robot_object \<Rightarrow> agx_robot res" where
  "robot_delete ob = (case robot_ptr ob of None \<Rightarrow> Inl Undefined | Some _ \<Rightarrow> DisconnectPort (robot_base ob))"

definition ScoutRobot_EnableCommandedMode :: "stack_memory \<Rightarrow> robot_object \<Rightarrow> robot_object res" where
  "ScoutRobot_EnableCommandedMode mem = robot_call (\<lambda>c. EnableCommandedMode (encoder_of c) mem)"

definition ScoutRobot_SetMotionCommand :: "stack_memory \<Rightarrow> fp \<Rightarrow> fp \<Rightarrow> robot_object \<Rightarrow> robot_object res" where
  "ScoutRobot_SetMotionCommand mem linear_vel angular_vel =
     cast_call ScoutInterface (\<lambda>c. ScoutBase_SetMotionCommand c mem linear_vel angular_vel)"

definition ScoutRobot_SetLightCommand ::
  "stack_memory \<Rightarrow> u32 \<Rightarrow> u8 \<Rightarrow> u32 \<Rightarrow> u8 \<Rightarrow> robot_object \<Rightarrow> robot_object res" where
  "ScoutRobot_SetLightCommand mem f_mode f_value r_mode r_value =
     cast_call ScoutInterface (\<lambda>c. SendLightCommand (encoder_of c) mem f_mode f_value r_mode r_value)"

definition ScoutRobot_DisableLightControl ::
  "stack_memory \<Rightarrow> light_operation \<times> light_operation \<Rightarrow> robot_object \<Rightarrow> robot_object res" where
  "ScoutRobot_DisableLightControl mem stale =
     cast_call ScoutInterface (\<lambda>c. DisableLightControl (encoder_of c) mem stale)"

definition ScoutMiniOmniRobot_SetMotionCommand ::
  "stack_memory \<Rightarrow> fp \<Rightarrow> fp \<Rightarrow> fp \<Rightarrow> robot_object \<Rightarrow> robot_object res" where
  "ScoutMiniOmniRobot_SetMotionCommand mem linear_vel angular_vel lateral_vel =
     cast_call ScoutOmniInterface
       (\<lambda>c. ScoutMiniOmniBase_SetMotionCommand c mem linear_vel angular_vel lateral_vel)"

definition HunterRobot_SetMotionCommand :: "stack_memory \<Rightarrow> fp \<Rightarrow> fp \<Rightarrow> robot_object \<Rightarrow> robot_object res" where
  "HunterRobot_SetMotionCommand mem linear_vel angular_vel =
     cast_call HunterInterface (\<lambda>c. HunterBase_SetMotionCommand c mem linear_vel angular_vel)"

definition HunterRobot_ActivateBrake :: "stack_memory \<Rightarrow> robot_object \<Rightarrow> robot_object res" where
  "HunterRobot_ActivateBrake mem = cast_call HunterInterface (\<lambda>c. HunterBase_ActivateBrake c mem)"

definition HunterRobot_ReleaseBrake :: "stack_memory \<Rightarrow> robot_object \<Rightarrow> robot_object res" where
  "HunterRobot_ReleaseBrake mem = cast_call HunterInterface (\<lambda>c. HunterBase_ReleaseBrake c mem)"

definition BunkerRobot_SetMotionCommand :: "stack_memory \<Rightarrow> fp \<Rightarrow> fp \<Rightarrow> robot_object \<Rightarrow> robot_object res" where
  "BunkerRobot_SetMotionCommand mem linear_vel angular_vel =
     cast_call BunkerInterface (\<lambda>c. BunkerBase_SetMotionCommand c mem linear_vel angular_vel)"

definition RangerRobot_SetMotionMode :: "stack_memory \<Rightarrow> u8 \<Rightarrow> robot_object \<Rightarrow> robot_object res" where
  "RangerRobot_SetMotionMode mem m = cast_call RangerInterface (\<lambda>c.
     if c = RangerMiniV1Base then RangerMiniV1_SetMotionMode mem m else SetMotionMode encode_v2 mem m)"

definition RangerRobot_SetMotionCommand ::
  "stack_memory \<Rightarrow> robot_core_state \<Rightarrow> fp \<Rightarrow> fp \<Rightarrow> fp \<Rightarrow> robot_object \<Rightarrow> robot_object res" where
  "RangerRobot_SetMotionCommand mem stale linear_vel steer_angle angular_vel =
     cast_call RangerInterface (\<lambda>c. if c = RangerMiniV1Base
       then RangerMiniV1_SetMotionCommand mem stale linear_vel steer_angle angular_vel
       else RangerBase_SetMotionCommand mem linear_vel steer_angle angular_vel)"

definition RangerRobot_SetLightCommand ::
  "stack_memory \<Rightarrow> u32 \<Rightarrow> u8 \<Rightarrow> u32 \<Rightarrow> u8 \<Rightarrow> robot_object \<Rightarrow> robot_object res" where
  "RangerRobot_SetLightCommand mem f_mode f_value r_mode r_value =
     cast_call RangerInterface (\<lambda>c. SendLightCommand encode_v2 mem f_mode f_value r_mode r_value)"

definition TitanRobot_SetMotionCommand :: "stack_memory \<Rightarrow> fp \<Rightarrow> fp \<Rightarrow> robot_object \<Rightarrow> robot_object res" where
  "TitanRobot_SetMotionCommand mem linear_vel steer_angle =
     cast_call TitanInterface (\<lambda>c. TitanBase_SetMotionCommand mem linear_vel steer_angle)"

definition TitanRobot_ActivateBrake :: "stack_memory \<Rightarrow> robot_object \<Rightarrow> robot_object res" where
  "TitanRobot_ActivateBrake mem = cast_call TitanInterface (\<lambda>c. TitanBase_ActivateBrake mem)"

definition TitanRobot_ReleaseBrake :: "stack_memory \<Rightarrow> robot_object \<Rightarrow> robot_object res" where
  "TitanRobot_ReleaseBrake mem = cast_call TitanInterface (\<lambda>c. TitanBase_ReleaseBrake mem)"

section \<open>The protocol detector\<close>

record detector =
  msg_v1_detected :: bool
  msg_v2_detected :: bool

definition detector_ParseCANFrame :: "can_frame \<Rightarrow> detector \<Rightarrow> detector" where
  "detector_ParseCANFrame rx d =
     (if can_id rx = 0x151 then d\<lparr>msg_v1_detected := True\<rparr>
      else if can_id rx = 0x221 \<or> can_id rx = 0x241 then d\<lparr>msg_v2_detected := True\<rparr>
      else d)"

text \<open>
  The polling loop: each element of polls is what the receive thread
  handles during one round; the list ends with the timeout.
\<close>

primrec detect_loop :: "can_frame list list \<Rightarrow> detector \<Rightarrow> detector" where
  "detect_loop [] d = d"
| "detect_loop (fs # polls) d = (if msg_v1_detected d \<or> msg_v2_detected d then d
     else detect_loop polls (fold detector_ParseCANFrame fs d))"

definition detector_result :: "detector \<Rightarrow> protocol_version" where
  "detector_result d = (if msg_v1_detected d \<and> msg_v2_detected d then UNKONWN
     else if msg_v1_detected d then AGX_V1 else if msg_v2_detected d then AGX_V2 else UNKONWN)"

text \<open>Frames that arrive between the loop's last test and the final reads count as well.\<close>

definition DetectProtocolVersion :: "can_frame list list \<Rightarrow> can_frame list \<Rightarrow> detector \<Rightarrow>
    protocol_version \<times> detector" where
  "DetectProtocolVersion polls late d =
     (let d1 = fold detector_ParseCANFrame late
            (detect_loop polls (d\<lparr>msg_v1_detected := False, msg_v2_detected := False\<rparr>))
      in (detector_result d1, d1))"

section \<open>From detection to commands\<close>

lemma detector_fold:
  "msg_v1_detected (fold detector_ParseCANFrame fs d) \<longleftrightarrow>
     msg_v1_detected d \<or> (\<exists>f \<in> set fs. can_id f = 0x151)"
  "msg_v2_detected (fold detector_ParseCANFrame fs d) \<longleftrightarrow>
     msg_v2_detected d \<or> (\<exists>f \<in> set fs. can_id f \<in> {0x221, 0x241})"
  by (induction fs arbitrary: d) (auto simp: detector_ParseCANFrame_def)

definition v1_marked :: "can_frame list \<Rightarrow> bool" where
  "v1_marked fs \<longleftrightarrow> (\<exists>f \<in> set fs. can_id f = 0x151)"

definition v2_marked :: "can_frame list \<Rightarrow> bool" where
  "v2_marked fs \<longleftrightarrow> (\<exists>f \<in> set fs. can_id f \<in> {0x221, 0x241})"

lemma detect_loop_sound:
  "msg_v1_detected (detect_loop polls d) \<Longrightarrow> msg_v1_detected d \<or> v1_marked (concat polls)"
  "msg_v2_detected (detect_loop polls d) \<Longrightarrow> msg_v2_detected d \<or> v2_marked (concat polls)"
proof (atomize (full), induction polls arbitrary: d)
  case (Cons fs polls)
  show ?case using Cons.IH[of "fold detector_ParseCANFrame fs d"]
    by (auto simp: v1_marked_def v2_marked_def detector_fold)
qed simp

lemma detect_loop_complete:
  "v1_marked (concat polls) \<or> v2_marked (concat polls) \<Longrightarrow>
     msg_v1_detected (detect_loop polls d) \<or> msg_v2_detected (detect_loop polls d)"
proof (induction polls arbitrary: d)
  case Nil
  then show ?case by (simp add: v1_marked_def v2_marked_def)
next
  case (Cons fs polls)
  let ?d = "fold detector_ParseCANFrame fs d"
  have k: "msg_v1_detected e \<or> msg_v2_detected e \<Longrightarrow> detect_loop ps e = e" for e ps
    by (cases ps) auto
  show ?case
  proof (cases "v1_marked fs \<or> v2_marked fs")
    case True
    then have "msg_v1_detected ?d \<or> msg_v2_detected ?d"
      by (auto simp: v1_marked_def v2_marked_def detector_fold)
    then show ?thesis using k[of ?d polls] by auto
  next
    case False
    then have "v1_marked (concat polls) \<or> v2_marked (concat polls)"
      using Cons.prems by (auto simp: v1_marked_def v2_marked_def)
    then show ?thesis using Cons.IH[of ?d] by auto
  qed
qed

text \<open>
  C23 detector_verdict: the detector never names a version whose mark was not received, whatever it
  had seen before; on a bus with the marks of one version only it names that
  version exactly when a mark arrives before the timeout.
\<close>
theorem detector_verdict:
  assumes "DetectProtocolVersion polls [] d = (v, d')"
  shows "(v = AGX_V1 \<longrightarrow> v1_marked (concat polls)) \<and> (v = AGX_V2 \<longrightarrow> v2_marked (concat polls))
    \<and> (\<not> v2_marked (concat polls) \<longrightarrow> v = (if v1_marked (concat polls) then AGX_V1 else UNKONWN))
    \<and> (\<not> v1_marked (concat polls) \<longrightarrow> v = (if v2_marked (concat polls) then AGX_V2 else UNKONWN))"
proof -
  let ?d0 = "d\<lparr>msg_v1_detected := False, msg_v2_detected := False\<rparr>"
  have v: "v = detector_result (detect_loop polls ?d0)"
    using assms by (auto simp: DetectProtocolVersion_def Let_def)
  show ?thesis
    using detect_loop_sound[of polls ?d0] detect_loop_complete[of polls ?d0]
    unfolding v detector_result_def by auto
qed

theorem detector_verdict_witness:
  "fst (DetectProtocolVersion [[], [\<lparr>can_id = 0x151, can_dlc = 8, cdata = []\<rparr>], []] []
     \<lparr>msg_v1_detected = False, msg_v2_detected = True\<rparr>) = AGX_V1"
  using detector_verdict[OF prod.collapse[symmetric], of
      "[[], [\<lparr>can_id = 0x151, can_dlc = 8, cdata = []\<rparr>], []]" "\<lparr>msg_v1_detected = False, msg_v2_detected = True\<rparr>"]
  by (simp add: v1_marked_def v2_marked_def)

text \<open>
  undetected_robot_undefined: a robot object constructed from the verdict UNKONWN holds an
  indeterminate pointer: every call on it and its destruction are undefined
  behaviour, for the Scout, the Scout Mini Omni and the Hunter.
\<close>
theorem undetected_robot_undefined:
  assumes "ob \<in> {ScoutRobot UNKONWN mini b, ScoutMiniOmniRobot UNKONWN b, HunterRobot UNKONWN b}"
  shows "robot_call f ob = Inl Undefined \<and> cast_call i f ob = Inl Undefined \<and> robot_delete ob = Inl Undefined"
  using assms by (auto simp: ScoutRobot_def ScoutMiniOmniRobot_def HunterRobot_def robot_call_def
      cast_call_def robot_delete_def)

theorem undetected_robot_undefined_witness:
  "robot_delete (ScoutRobot UNKONWN True (zero_robot None)) = Inl Undefined"
  using undetected_robot_undefined[of "ScoutRobot UNKONWN True (zero_robot None)" True "zero_robot None"]
  by blast

text \<open>
  v1_robots_cannot_move: on an open port every velocity command of the version 1 Scout, Hunter
  and Bunker objects is undefined behaviour.
\<close>
theorem v1_robots_cannot_move:
  assumes "robot_opened b"
  shows "ScoutRobot_SetMotionCommand mem x y (ScoutRobot AGX_V1 False b) = Inl Undefined
    \<and> HunterRobot_SetMotionCommand mem x y (HunterRobot AGX_V1 b) = Inl Undefined
    \<and> BunkerRobot_SetMotionCommand mem x y (BunkerRobot kBunkerV1 b) = Inl Undefined"
proof -
  have s: "SendMotionCommand AGX_V1 (encode_v1 l) mem x y z t b = Inl Undefined"
    if "l \<in> {ScoutV2Limits, BunkerLimits, HunterV1Limits}" for l y z t
    using assms v1_zero_limit_undefined[OF that] by (simp add: SendMotionCommand_def send_message_def encode_v1_def)
  show ?thesis
    by (simp add: s ScoutRobot_SetMotionCommand_def ScoutRobot_def HunterRobot_SetMotionCommand_def
        HunterRobot_def BunkerRobot_SetMotionCommand_def BunkerRobot_def cast_call_def robot_call_def
        interfaces_of_def ScoutBase_SetMotionCommand_def HunterBase_SetMotionCommand_def
        BunkerBase_SetMotionCommand_def version_of_def encoder_of_def)
qed

theorem v1_robots_cannot_move_witness:
  "ScoutRobot_SetMotionCommand some_memory (Fin 0) (Fin 0)
     (ScoutRobot AGX_V1 False (zero_robot (Some open_port))) = Inl Undefined"
proof -
  have "robot_opened (zero_robot (Some open_port))"
    by (simp add: robot_opened_def zero_robot_def Let_def open_port_def)
  then show ?thesis using v1_robots_cannot_move by blast
qed

lemma field_zero: "\<bar>of_int (sint (w :: u16)) - 1000 * (0 :: rat)\<bar> \<le> 1 + 1 / 64 \<Longrightarrow> \<bar>sint w\<bar> \<le> 1"
proof -
  assume "\<bar>of_int (sint w) - 1000 * (0 :: rat)\<bar> \<le> 1 + 1 / 64"
  then have "\<bar>of_int (sint w) :: rat\<bar> < of_int 2" by (simp del: of_int_sint)
  then have "\<bar>sint w\<bar> < 2" unfolding of_int_abs[symmetric] of_int_less_iff .
  then show ?thesis by simp
qed

lemma cast_motion:
  assumes "robot_opened b" "\<bar>x\<bar> \<le> 32" "\<bar>a\<bar> \<le> 32" "\<bar>s\<bar> \<le> 32" "i \<in> set (interfaces_of k)"
    and c: "c k = SendMotionCommand AGX_V2 encode_v2 mem (Fin x) (Fin a) (Fin 0) (Fin s)"
  shows "\<exists>ob f. cast_call i c \<lparr>robot_ptr = Some k, robot_base = b\<rparr> = Inr ob
    \<and> sent_frames (robot_base ob) = sent_frames b @ [f] \<and> can_id f = CAN_MSG_MOTION_COMMAND_ID
    \<and> \<bar>of_int (sint (at16 (cdata f) 0)) - 1000 * x\<bar> \<le> 1 + 1 / 64
    \<and> \<bar>of_int (sint (at16 (cdata f) 2)) - 1000 * a\<bar> \<le> 1 + 1 / 64
    \<and> \<bar>sint (at16 (cdata f) 4)\<bar> \<le> 1
    \<and> \<bar>of_int (sint (at16 (cdata f) 6)) - 1000 * s\<bar> \<le> 1 + 1 / 64"
proof -
  obtain r' f where r: "SendMotionCommand AGX_V2 encode_v2 mem (Fin x) (Fin a) (Fin 0) (Fin s) b = Inr r'"
    "sent_frames r' = sent_frames b @ [f]" "can_id f = CAN_MSG_MOTION_COMMAND_ID"
    "\<bar>of_int (sint (at16 (cdata f) 0)) - 1000 * x\<bar> \<le> 1 + 1 / 64"
    "\<bar>of_int (sint (at16 (cdata f) 2)) - 1000 * a\<bar> \<le> 1 + 1 / 64"
    "\<bar>of_int (sint (at16 (cdata f) 4)) - 1000 * (0 :: rat)\<bar> \<le> 1 + 1 / 64"
    "\<bar>of_int (sint (at16 (cdata f) 6)) - 1000 * s\<bar> \<le> 1 + 1 / 64"
    using send_motion_v2[OF assms(1,2,3) _ assms(4), of 0 mem] by (auto simp del: of_int_sint)
  show ?thesis using r assms(5) field_zero[OF r(6)]
    by (intro exI[of _ "\<lparr>robot_ptr = Some k, robot_base = r'\<rparr>"] exI[of _ f])
      (simp add: cast_call_def robot_call_def c del: of_int_sint)
qed

lemmas robot_object_defs =
  ScoutRobot_SetMotionCommand_def ScoutRobot_def HunterRobot_SetMotionCommand_def HunterRobot_def
  BunkerRobot_SetMotionCommand_def BunkerRobot_def TitanRobot_SetMotionCommand_def TitanRobot_def

text \<open>
  v2_robot_motion: the version 2 robots put the components of a velocity command into the
  fields of the motion frame their kinematics need: the Scout and the Bunker
  linear and angular velocity, the Hunter and the Titan linear velocity and
  steering angle; the other fields are zero up to one unit.
\<close>
theorem v2_robot_motion:
  assumes "robot_opened b" "\<bar>x\<bar> \<le> 32" "\<bar>y\<bar> \<le> 32"
    and "(call, field, other) \<in>
      {(ScoutRobot_SetMotionCommand mem (Fin x) (Fin y) (ScoutRobot AGX_V2 mini b), 2, 6),
      (BunkerRobot_SetMotionCommand mem (Fin x) (Fin y) (BunkerRobot kBunkerV2 b), 2, 6),
      (HunterRobot_SetMotionCommand mem (Fin x) (Fin y) (HunterRobot AGX_V2 b), 6, 2),
      (TitanRobot_SetMotionCommand mem (Fin x) (Fin y) (TitanRobot b), 6, 2)}"
  shows "\<exists>ob f. call = Inr ob \<and> sent_frames (robot_base ob) = sent_frames b @ [f]
    \<and> can_id f = CAN_MSG_MOTION_COMMAND_ID
    \<and> \<bar>of_int (sint (at16 (cdata f) 0)) - 1000 * x\<bar> \<le> 1 + 1 / 64
    \<and> \<bar>of_int (sint (at16 (cdata f) field)) - 1000 * y\<bar> \<le> 1 + 1 / 64
    \<and> \<bar>sint (at16 (cdata f) 4)\<bar> \<le> 1 \<and> \<bar>sint (at16 (cdata f) other)\<bar> \<le> 1"
proof -
  have z: "\<bar>0 :: rat\<bar> \<le> 32" by simp
  consider (ang) i k c where "call = cast_call i c \<lparr>robot_ptr = Some k, robot_base = b\<rparr>" "field = 2" "other = 6"
      "i \<in> set (interfaces_of k)" "c k = SendMotionCommand AGX_V2 encode_v2 mem (Fin x) (Fin y) (Fin 0) (Fin 0)"
    | (steer) i k c where "call = cast_call i c \<lparr>robot_ptr = Some k, robot_base = b\<rparr>" "field = 6" "other = 2"
      "i \<in> set (interfaces_of k)" "c k = SendMotionCommand AGX_V2 encode_v2 mem (Fin x) (Fin 0) (Fin 0) (Fin y)"
    using assms(4) by (cases mini) (auto simp: robot_object_defs interfaces_of_def version_of_def encoder_of_def
        ScoutBase_SetMotionCommand_def BunkerBase_SetMotionCommand_def HunterBase_SetMotionCommand_def
        TitanBase_SetMotionCommand_def)
  then show ?thesis
  proof cases
    case ang
    then show ?thesis using cast_motion[where k = k and c = c, OF assms(1,2,3) z ang(4,5)] field_zero by fastforce
  next
    case steer
    then show ?thesis using cast_motion[where k = k and c = c, OF assms(1,2) z assms(3) steer(4,5)] field_zero by fastforce
  qed
qed

theorem v2_robot_motion_witness:
  "\<exists>ob f. HunterRobot_SetMotionCommand some_memory (Fin 1) (Fin (1 / 2))
      (HunterRobot AGX_V2 (zero_robot (Some open_port))) = Inr ob
    \<and> sent_frames (robot_base ob) = [f] \<and> \<bar>sint (at16 (cdata f) 2)\<bar> \<le> 1"
proof -
  have o: "robot_opened (zero_robot (Some open_port))" "sent_frames (zero_robot (Some open_port)) = []"
    by (simp_all add: robot_opened_def sent_frames_def zero_robot_def Let_def open_port_def)
  show ?thesis
    using v2_robot_motion[OF o(1), of 1 "1 / 2" "HunterRobot_SetMotionCommand some_memory (Fin 1) (Fin (1 / 2))
      (HunterRobot AGX_V2 (zero_robot (Some open_port)))" 6 2 some_memory False] o(2) by auto
qed

text \<open>
  brakes_opposite: on an open port the brake calls of the Hunter and of the Titan send opposite
  commands: what activates the Hunter's brake (mode 1, lock) is what the Titan
  sends to release its brake, and activating the Titan's brake sends unlock.
\<close>
theorem brakes_opposite:
  assumes "robot_opened b"
  shows "\<exists>ha hr ta tr fh. 
      HunterRobot_ActivateBrake mem (HunterRobot AGX_V2 b) = Inr ha
    \<and> HunterRobot_ReleaseBrake mem (HunterRobot AGX_V2 b) = Inr hr
    \<and> TitanRobot_ActivateBrake mem (TitanRobot b) = Inr ta
    \<and> TitanRobot_ReleaseBrake mem (TitanRobot b) = Inr tr
    \<and> sent_frames (robot_base ha) = sent_frames b @ [fh 1] \<and> sent_frames (robot_base hr) = sent_frames b @ [fh 0]
    \<and> sent_frames (robot_base ta) = sent_frames b @ [fh 0] \<and> sent_frames (robot_base tr) = sent_frames b @ [fh 1]
    \<and> (\<forall>m. can_id (fh m) = CAN_MSG_BRAKING_COMMAND_ID \<and> cdata (fh m) ! 0 = m)"
proof -
  let ?fh = "\<lambda>m. put_frame CAN_MSG_BRAKING_COMMAND_ID [m, 0, 0, 0, 0, 0, 0, 0] (junk_frame mem)"
  have s: "\<exists>r'. SetBrakeMode encode_v2 mem m b = Inr r' \<and> sent_frames r' = sent_frames b @ [?fh (ucast m)]" for m
    using send_message_sent[of b encode_v2 mem "\<lparr>mtype = AgxMsgBrakeModeConfig, body = BBrakeModeConfig m\<rparr>"
        "?fh (ucast m)" "counts b", OF assms]
    by (simp add: SetBrakeMode_def encode_v2_def EncodeCanFrameV2_def)
  obtain l u where lu: "SetBrakeMode encode_v2 mem BRAKE_MODE_LOCK b = Inr l" "sent_frames l = sent_frames b @ [?fh 1]"
    "SetBrakeMode encode_v2 mem BRAKE_MODE_UNLOCK b = Inr u" "sent_frames u = sent_frames b @ [?fh 0]"
    using s[of BRAKE_MODE_LOCK] s[of BRAKE_MODE_UNLOCK] by (auto simp: BRAKE_MODE_LOCK_def BRAKE_MODE_UNLOCK_def)
  show ?thesis
    using lu by (intro exI[of _ "\<lparr>robot_ptr = Some HunterBaseV2, robot_base = l\<rparr>"]
        exI[of _ "\<lparr>robot_ptr = Some HunterBaseV2, robot_base = u\<rparr>"]
        exI[of _ "\<lparr>robot_ptr = Some TitanBase, robot_base = u\<rparr>"]
        exI[of _ "\<lparr>robot_ptr = Some TitanBase, robot_base = l\<rparr>"] exI[of _ ?fh])
      (simp add: HunterRobot_ActivateBrake_def HunterRobot_ReleaseBrake_def TitanRobot_ActivateBrake_def
        TitanRobot_ReleaseBrake_def HunterBase_ActivateBrake_def HunterBase_ReleaseBrake_def
        TitanBase_ActivateBrake_def TitanBase_ReleaseBrake_def robot_object_defs cast_call_def robot_call_def
        interfaces_of_def encoder_of_def)
qed

theorem brakes_opposite_witness:
  "\<exists>ta f. TitanRobot_ActivateBrake some_memory (TitanRobot (zero_robot (Some open_port))) = Inr ta
     \<and> sent_frames (robot_base ta) = [f] \<and> cdata f ! 0 = 0"
proof -
  have o: "robot_opened (zero_robot (Some open_port))" "sent_frames (zero_robot (Some open_port)) = []"
    by (simp_all add: robot_opened_def sent_frames_def zero_robot_def Let_def open_port_def)
  show ?thesis using brakes_opposite[OF o(1), of some_memory] o(2) by auto
qed

text \<open>
  ranger_mini_state: the first Ranger Mini reports motion that does not depend on the
  uninitialised result struct, except when its mode is side slip: there the
  angular velocity is the indeterminate one, whatever the robot sent.
\<close>
theorem ranger_mini_state:
  "if motion_mode (motion_mode_state (core_state_msgs r)) = kSideSlip
   then angular_velocity (rcs_motion (RangerMiniV1_GetRobotState stale r)) = angular_velocity (rcs_motion stale)
   else RangerMiniV1_GetRobotState stale r = RangerMiniV1_GetRobotState stale' r"
  by (auto simp: RangerMiniV1_GetRobotState_def Let_def kSideSlip_def kSpinning_def)

lemma copy_actuators_take:
  "n \<le> length src \<Longrightarrow> n \<le> length dst \<Longrightarrow> copy_actuators n src dst = take n src @ drop n dst"
proof (induction n)
  case (Suc n)
  then have "copy_actuators n src dst = take n src @ drop n dst" by simp
  moreover have "drop n dst = dst ! n # drop (Suc n) dst" using Suc.prems by (simp add: Cons_nth_drop_Suc)
  ultimately show ?case using Suc.prems by (simp add: list_update_append take_Suc_conv_app_nth)
qed simp

text \<open>
  actuator_views: the actuator states handed to the user are the first slots of the robot's
  arrays: four for the Scout and the Titan, three for the Hunter, two for the
  Bunker and the Tracer, all eight for the Ranger.
\<close>
theorem actuator_views:
  assumes "robot_ok r" "length (ras_hs stale) = n"
    and "(n, view) \<in> {(4, ScoutBase_GetActuatorState), (4, TitanBase_GetActuatorState),
       (3, HunterBase_GetActuatorState), (2, BunkerBase_GetActuatorState),
       (2, TracerBase_GetActuatorState), (8, RangerBase_GetActuatorState)}"
  shows "ras_hs (view stale r) = take n (actuator_hs_state (actuator_state_msgs r))
    \<and> ras_time (view stale r) = actuator_time (actuator_state_msgs r)"
  using assms by (auto simp: ScoutBase_GetActuatorState_def TitanBase_GetActuatorState_def
      HunterBase_GetActuatorState_def BunkerBase_GetActuatorState_def TracerBase_GetActuatorState_def
      RangerBase_GetActuatorState_def copy_all_actuators_def copy_v2_actuators_def Let_def
      copy_actuators_take robot_ok_def AGX_MAX_ACTUATOR_NUM_def)

theorem actuator_views_witness:
  "ras_hs (HunterBase_GetActuatorState \<lparr>ras_time = 7,
      ras_angles = motor_angles (actuator_state_msgs (zero_robot None)),
      ras_speeds = motor_speeds (actuator_state_msgs (zero_robot None)),
      ras_hs = replicate 3 \<lparr>hs_motor_id = 9, hs_rpm = 9, hs_current = NaN, pulse_count = 9\<rparr>,
      ras_ls = [], ras_v1 = []\<rparr> (zero_robot None))
    = replicate 3 \<lparr>hs_motor_id = 0, hs_rpm = 0, hs_current = Fin 0, pulse_count = 0\<rparr>"
proof -
  have "robot_ok (zero_robot None)" by (rule zero_robot_ok) simp
  then show ?thesis
    using actuator_views[of "zero_robot None" "\<lparr>ras_time = 7,
      ras_angles = motor_angles (actuator_state_msgs (zero_robot None)),
      ras_speeds = motor_speeds (actuator_state_msgs (zero_robot None)),
      ras_hs = replicate 3 \<lparr>hs_motor_id = 9, hs_rpm = 9, hs_current = NaN, pulse_count = 9\<rparr>,
      ras_ls = [], ras_v1 = []\<rparr>" 3 HunterBase_GetActuatorState]
    by (simp add: zero_robot_def Let_def)
qed

end
