(* ===== verification/Livox_Queue.thy ===== *)
theory Livox_Queue
  imports Ring_Index Floats
begin

text \<open>
  The queues between the lidar SDK and the publishing threads of the driver
  (edge/src/livox_ros_driver2/src/comm): the packet queue of ldq.cpp, the IMU
  queue of lidar_imu_data_queue.cpp and the counting semaphore.  The packet
  queue owns an array on the heap; the pointer to it is null, live or, after
  DeInitQueue, dangling.  The element operations are stated for any element
  type; QueuePushAny and QueuePrePop copy packets into and out of the array.
\<close>

section \<open>Packets\<close>

record point_xyzlt =
  pt_x :: fp
  pt_y :: fp
  pt_z :: fp
  pt_intensity :: fp
  pt_tag :: u8
  pt_line :: u8
  pt_offset_time :: u64

record point_packet =
  pp_handle :: u32
  pp_lidar_type :: u8
  pp_points_num :: u32
  pp_points :: "point_xyzlt list"

record storage_packet =
  sp_base_time :: u64
  sp_points_num :: u32
  sp_points :: "point_xyzlt list"

section \<open>The packet queue\<close>

datatype 'a heap_ptr = Nullptr | Live "'a list" | Freed

record 'a lidar_queue =
  storage :: "'a heap_ptr"
  rd_idx :: u32
  wr_idx :: u32
  q_mask :: u32
  q_size :: u32

definition IsPowerOf2 :: "u32 \<Rightarrow> bool" where
  "IsPowerOf2 sz \<longleftrightarrow> sz \<noteq> 0 \<and> sz AND (sz - 1) = 0"

text \<open>The loop runs over the exponents 0 to 31 and leaves at the first power that is large enough.\<close>

fun roundup_loop :: "u32 \<Rightarrow> u32 \<Rightarrow> nat list \<Rightarrow> u32" where
  "roundup_loop sz power2_val [] = power2_val"
| "roundup_loop sz power2_val (i # is) =
     (let p = push_bit i 1 in if sz \<le> p then p else roundup_loop sz p is)"

definition RoundupPowerOf2 :: "u32 \<Rightarrow> u32" where
  "RoundupPowerOf2 sz = roundup_loop sz 0 [0..<32]"

definition delete_storage :: "'a lidar_queue \<Rightarrow> unit res" where
  "delete_storage q = (if storage q = Freed then Inl DoubleFree else Inr ())"

text \<open>fresh yields the elements of the new array, of the length asked for.\<close>

definition InitQueue :: "(u32 \<Rightarrow> 'a list) \<Rightarrow> u32 \<Rightarrow> 'a lidar_queue \<Rightarrow> 'a lidar_queue res" where
  "InitQueue fresh queue_size q =
     (let n = (if IsPowerOf2 queue_size then queue_size else RoundupPowerOf2 queue_size) in
      bindR (delete_storage q) (\<lambda>_.
        Inr \<lparr>storage = Live (fresh n), rd_idx = 0, wr_idx = 0, q_mask = n - 1, q_size = n\<rparr>))"

text \<open>DeInitQueue leaves the pointer as it is: a live array becomes a dangling one.\<close>

definition DeInitQueue :: "'a lidar_queue \<Rightarrow> 'a lidar_queue res" where
  "DeInitQueue q = bindR (delete_storage q) (\<lambda>_.
     Inr \<lparr>storage = (if storage q = Nullptr then Nullptr else Freed),
          rd_idx = 0, wr_idx = 0, q_mask = 0, q_size = 0\<rparr>)"

definition ResetQueue :: "'a lidar_queue \<Rightarrow> 'a lidar_queue" where
  "ResetQueue q = q\<lparr>rd_idx := 0, wr_idx := 0\<rparr>"

definition QueueUsedSize :: "'a lidar_queue \<Rightarrow> u32" where
  "QueueUsedSize q = wr_idx q - rd_idx q"

definition QueueUnusedSize :: "'a lidar_queue \<Rightarrow> u32" where
  "QueueUnusedSize q = q_size q - QueueUsedSize q"

definition QueueIsFull :: "'a lidar_queue \<Rightarrow> bool" where
  "QueueIsFull q \<longleftrightarrow> q_mask q < wr_idx q - rd_idx q"

definition QueueIsEmpty :: "'a lidar_queue \<Rightarrow> bool" where
  "QueueIsEmpty q \<longleftrightarrow> rd_idx q = wr_idx q"

text \<open>Access to the element of an index.\<close>

definition queue_at :: "'a lidar_queue \<Rightarrow> u32 \<Rightarrow> 'a res" where
  "queue_at q i = (case storage q of Nullptr \<Rightarrow> Inl NullDeref | Freed \<Rightarrow> Inl UseAfterFree
     | Live b \<Rightarrow> if unat (i AND q_mask q) < length b then Inr (b ! unat (i AND q_mask q))
                 else Inl OutOfBounds)"

definition queue_put :: "'a \<Rightarrow> 'a lidar_queue \<Rightarrow> 'a lidar_queue res" where
  "queue_put x q = (case storage q of Nullptr \<Rightarrow> Inl NullDeref | Freed \<Rightarrow> Inl UseAfterFree
     | Live b \<Rightarrow> if unat (wr_idx q AND q_mask q) < length b
         then Inr (q\<lparr>storage := Live (b[unat (wr_idx q AND q_mask q) := x]), wr_idx := wr_idx q + 1\<rparr>)
         else Inl OutOfBounds)"

definition QueuePopUpdate :: "'a lidar_queue \<Rightarrow> 'a lidar_queue" where
  "QueuePopUpdate q = q\<lparr>rd_idx := rd_idx q + 1\<rparr>"

text \<open>The packet the pop copies out, None when the queue is empty.\<close>

definition QueuePrePop :: "storage_packet lidar_queue \<Rightarrow> storage_packet option res" where
  "QueuePrePop q = (if QueueIsEmpty q then Inr None
     else bindR (queue_at q (rd_idx q)) (\<lambda>p.
       if length (sp_points p) < unat (sp_points_num p) then Inl OutOfBounds
       else Inr (Some (p\<lparr>sp_points := take (unat (sp_points_num p)) (sp_points p)\<rparr>))))"

definition QueuePop :: "storage_packet lidar_queue \<Rightarrow>
    (storage_packet option \<times> storage_packet lidar_queue) res" where
  "QueuePop q = bindR (QueuePrePop q) (\<lambda>p. case p of None \<Rightarrow> Inr (None, q)
     | Some x \<Rightarrow> Inr (Some x, QueuePopUpdate q))"

definition QueuePushAny :: "point_packet \<Rightarrow> u64 \<Rightarrow> storage_packet lidar_queue \<Rightarrow>
    storage_packet lidar_queue res" where
  "QueuePushAny pk base_time q =
     (if length (pp_points pk) < unat (pp_points_num pk) then Inl OutOfBounds
      else queue_put \<lparr>sp_base_time = base_time, sp_points_num = pp_points_num pk,
             sp_points = take (unat (pp_points_num pk)) (pp_points pk)\<rparr> q)"

section \<open>The IMU queue\<close>

record imu_data =
  imu_lidar_type :: u8
  imu_handle :: u32
  imu_time_stamp :: u64
  gyro_x :: fp
  gyro_y :: fp
  gyro_z :: fp
  acc_x :: fp
  acc_y :: fp
  acc_z :: fp

definition imu_Push :: "imu_data \<Rightarrow> imu_data list \<Rightarrow> imu_data list" where
  "imu_Push d q = q @ [d]"

definition imu_Pop :: "imu_data list \<Rightarrow> (imu_data \<times> imu_data list) option" where
  "imu_Pop q = (case q of [] \<Rightarrow> None | d # q' \<Rightarrow> Some (d, q'))"

definition imu_Empty :: "imu_data list \<Rightarrow> bool" where
  "imu_Empty q \<longleftrightarrow> q = []"

definition imu_Clear :: "imu_data list \<Rightarrow> imu_data list" where
  "imu_Clear q = []"

section \<open>The semaphore\<close>

text \<open>Wait blocks at a count of zero: no step is possible.\<close>

definition sem_Signal :: "int \<Rightarrow> int" where
  "sem_Signal c = c + 1"

definition sem_Wait :: "int \<Rightarrow> int option" where
  "sem_Wait c = (if 0 < c then Some (c - 1) else None)"

section \<open>Rounding up\<close>

lemma roundup_from:
  assumes "i \<le> 32" "\<forall>j < i. 2 ^ j < unat sz" "i = 0 \<or> unat p = 2 ^ (i - 1)"
  shows "if unat sz \<le> 2 ^ 31 \<and> i < 32
    then \<exists>k < 32. unat (roundup_loop sz p [i..<32]) = 2 ^ k \<and> unat sz \<le> 2 ^ k
       \<and> (\<forall>j < k. 2 ^ j < unat sz)
    else True"
  using assms
proof (induction "32 - i" arbitrary: i p)
  case 0
  then show ?case by simp
next
  case (Suc n)
  then have i: "i < 32" by simp
  have l: "[i..<32] = i # [Suc i..<32]" using i by (simp add: upt_rec)
  show ?case
  proof (cases "sz \<le> push_bit i 1")
    case True
    then show ?thesis using i Suc.prems(2)
      by (auto simp: l word_le_nat_alt unat_pow2 intro!: exI[of _ i])
  next
    case False
    then have s: "2 ^ i < unat sz" using i by (simp add: word_le_nat_alt unat_pow2)
    have n: "n = 32 - Suc i" using Suc.hyps by simp
    have m: "\<forall>j < Suc i. 2 ^ j < unat sz" using s Suc.prems(2) less_Suc_eq by auto
    have "unat sz \<le> 2 ^ 31 \<Longrightarrow> Suc i < 32"
    proof (rule ccontr)
      assume "unat sz \<le> 2 ^ 31" "\<not> Suc i < 32"
      then have "i = 31" using i by simp
      then show False using s \<open>unat sz \<le> 2 ^ 31\<close> by simp
    qed
    then show ?thesis
      using Suc.hyps(1)[OF n _ m, of "push_bit i 1"] i False by (auto simp: l unat_pow2)
  qed
qed

lemma RoundupPowerOf2_least:
  assumes "unat sz \<le> 2 ^ 31"
  shows "\<exists>k < 32. unat (RoundupPowerOf2 sz) = 2 ^ k \<and> unat sz \<le> 2 ^ k
    \<and> (\<forall>j < k. 2 ^ j < unat sz)"
  using roundup_from[of 0 sz 0] assms by (simp add: RoundupPowerOf2_def)

section \<open>Invariant and contents\<close>

definition lq_inv :: "'a lidar_queue \<Rightarrow> bool" where
  "lq_inv q \<longleftrightarrow> (\<exists>k b. storage q = Live b \<and> ring_ok k b (rd_idx q) (wr_idx q)
     \<and> q_size q = 2 ^ k \<and> q_mask q = mask k)"

definition lq_contents :: "'a lidar_queue \<Rightarrow> 'a list" where
  "lq_contents q = (case storage q of
      Live b \<Rightarrow> map (\<lambda>i. b ! unat ((rd_idx q + of_nat i) AND q_mask q)) [0..<unat (QueueUsedSize q)]
    | _ \<Rightarrow> [])"

definition lq_capacity :: "'a lidar_queue \<Rightarrow> nat" where
  "lq_capacity q = unat (q_size q)"

text \<open>Pushing as the driver does it, guarded by the test for a full queue.\<close>

definition lq_offer :: "'a \<Rightarrow> 'a lidar_queue \<Rightarrow> 'a lidar_queue option" where
  "lq_offer x q = (if QueueIsFull q then None
     else case queue_put x q of Inr q' \<Rightarrow> Some q' | Inl _ \<Rightarrow> None)"

definition lq_take :: "'a lidar_queue \<Rightarrow> ('a \<times> 'a lidar_queue) option" where
  "lq_take q = (if QueueIsEmpty q then None
     else case queue_at q (rd_idx q) of Inr x \<Rightarrow> Some (x, QueuePopUpdate q) | Inl _ \<Rightarrow> None)"

lemma lq_invE:
  assumes "lq_inv q"
  obtains k b where "storage q = Live b" "ring_ok k b (rd_idx q) (wr_idx q)"
    "q_size q = 2 ^ k" "q_mask q = mask k" "k < 32" "length b = 2 ^ k"
    "lq_contents q = ring_contents k b (rd_idx q) (wr_idx q)" "lq_capacity q = 2 ^ k"
proof -
  obtain k b where k: "storage q = Live b" "ring_ok k b (rd_idx q) (wr_idx q)"
    "q_size q = 2 ^ k" "q_mask q = mask k" using assms by (auto simp: lq_inv_def)
  have l: "k < 32" "length b = 2 ^ k" using k(2) by (auto simp: ring_ok_def)
  have c: "lq_contents q = ring_contents k b (rd_idx q) (wr_idx q)"
    by (simp add: lq_contents_def ring_contents_def slot_def k QueueUsedSize_def)
  have "lq_capacity q = 2 ^ k" using l by (simp add: lq_capacity_def k unat_pow2)
  then show ?thesis using that[OF k l c] by blast
qed

lemma lq_full_iff: "lq_inv q \<Longrightarrow> QueueIsFull q \<longleftrightarrow> lq_capacity q \<le> length (lq_contents q)"
proof (elim lq_invE)
  fix k b
  assume a: "q_mask q = mask k" "k < 32" "lq_contents q = ring_contents k b (rd_idx q) (wr_idx q)"
    "lq_capacity q = 2 ^ k"
  have "unat (mask k :: u32) = 2 ^ k - 1"
    using a(2) unat_pow2[of k, where 'w=32] by (simp add: mask_eq_decr_exp unat_minus_one)
  moreover have "2 ^ k - 1 < n \<longleftrightarrow> 2 ^ k \<le> n" for n :: nat
    using zero_less_power[of "2::nat" k] by linarith
  ultimately show ?thesis using a(1,3,4) by (simp add: QueueIsFull_def word_less_nat_alt)
qed

lemma lq_empty_iff: "lq_inv q \<Longrightarrow> QueueIsEmpty q \<longleftrightarrow> lq_contents q = []"
  by (elim lq_invE) (simp add: QueueIsEmpty_def ring_contents_nil_iff)

lemma queue_put_spec:
  assumes "lq_inv q" "\<not> QueueIsFull q"
  shows "\<exists>q'. queue_put x q = Inr q' \<and> lq_inv q' \<and> lq_contents q' = lq_contents q @ [x]
    \<and> lq_capacity q' = lq_capacity q"
proof -
  obtain k b where k: "storage q = Live b" "ring_ok k b (rd_idx q) (wr_idx q)"
    "q_size q = 2 ^ k" "q_mask q = mask k" "k < 32" "length b = 2 ^ k"
    "lq_contents q = ring_contents k b (rd_idx q) (wr_idx q)" "lq_capacity q = 2 ^ k"
    using lq_invE[OF assms(1)] by blast
  have room: "unat (wr_idx q - rd_idx q) < 2 ^ k"
    using assms(2) lq_full_iff[OF assms(1)] k(7,8) by simp
  have s: "unat (wr_idx q AND mask k) = slot k (wr_idx q)" by (simp add: slot_def)
  let ?q = "q\<lparr>storage := Live (b[slot k (wr_idx q) := x]), wr_idx := wr_idx q + 1\<rparr>"
  have p: "queue_put x q = Inr ?q"
    using slot_less[of k "wr_idx q"] by (simp add: queue_put_def k s)
  have i: "lq_inv ?q" using ring_push(2)[OF k(2) room, of x] k by (auto simp: lq_inv_def)
  have "lq_contents ?q = lq_contents q @ [x]"
    using ring_push(1)[OF k(2) room, of x] k(7)
    by (simp add: lq_contents_def ring_contents_def slot_def k(1,4) QueueUsedSize_def)
  then show ?thesis using p i by (auto simp: lq_capacity_def)
qed

lemma queue_at_spec:
  assumes "lq_inv q" "lq_contents q = x # xs"
  shows "queue_at q (rd_idx q) = Inr x \<and> lq_inv (QueuePopUpdate q) \<and> lq_contents (QueuePopUpdate q) = xs
    \<and> lq_capacity (QueuePopUpdate q) = lq_capacity q"
proof -
  obtain k b where k: "storage q = Live b" "ring_ok k b (rd_idx q) (wr_idx q)"
    "q_size q = 2 ^ k" "q_mask q = mask k" "k < 32" "length b = 2 ^ k"
    "lq_contents q = ring_contents k b (rd_idx q) (wr_idx q)" "lq_capacity q = 2 ^ k"
    using lq_invE[OF assms(1)] by blast
  have ne: "rd_idx q \<noteq> wr_idx q" using assms(2) k(7) by (auto simp: ring_contents_empty)
  note p = ring_pop[OF k(2) ne]
  have "lq_contents (QueuePopUpdate q) = ring_contents k b (rd_idx q + 1) (wr_idx q)"
    by (simp add: lq_contents_def QueuePopUpdate_def k(1,4) ring_contents_def slot_def QueueUsedSize_def)
  moreover have "b ! slot k (rd_idx q) = x" "ring_contents k b (rd_idx q + 1) (wr_idx q) = xs"
    using p(1) assms(2) k(7) by auto
  moreover have "lq_inv (QueuePopUpdate q)"
    using p(2) k by (auto simp: lq_inv_def QueuePopUpdate_def)
  ultimately show ?thesis
    using slot_less[of k "rd_idx q"] k(1,4,6)
    by (simp add: queue_at_def slot_def lq_capacity_def QueuePopUpdate_def)
qed

interpretation lqq: bounded_fifo lq_inv lq_contents "\<lambda>q. \<not> QueueIsFull q" lq_offer lq_take lq_capacity
proof unfold_locales
  fix q :: "'a lidar_queue" and x
  assume i: "lq_inv q"
  show "\<not> QueueIsFull q \<Longrightarrow> \<exists>q'. lq_offer x q = Some q' \<and> lq_inv q' \<and> lq_contents q' = lq_contents q @ [x]"
    using queue_put_spec[OF i, of x] by (auto simp: lq_offer_def)
  show "\<not> \<not> QueueIsFull q \<Longrightarrow> lq_offer x q = None" by (simp add: lq_offer_def)
  show "lq_contents q = [] \<Longrightarrow> lq_take q = None" using lq_empty_iff[OF i] by (simp add: lq_take_def)
  show "(\<not> QueueIsFull q) = (length (lq_contents q) < lq_capacity q)" using lq_full_iff[OF i] by auto
  show "length (lq_contents q) \<le> lq_capacity q"
    using lq_invE[OF i] by (metis length_ring_contents ring_ok_def)
  fix q'
  show "lq_offer x q = Some q' \<Longrightarrow> lq_capacity q' = lq_capacity q"
    using queue_put_spec[OF i, of x] by (auto simp: lq_offer_def split: if_splits)
  show "lq_take q = Some (x, q') \<Longrightarrow> lq_capacity q' = lq_capacity q"
    by (auto simp: lq_take_def lq_capacity_def QueuePopUpdate_def split: if_splits sum.splits)
next
  fix q :: "'a lidar_queue" and x xs
  assume a: "lq_inv q" "lq_contents q = x # xs"
  then show "\<exists>q'. lq_take q = Some (x, q') \<and> lq_inv q' \<and> lq_contents q' = xs"
    using queue_at_spec[OF a] lq_empty_iff[OF a(1)] by (auto simp: lq_take_def)
qed

text \<open>The IMU queue is a FIFO that accepts everything.\<close>

interpretation imuq: fifo "\<lambda>_. True" "\<lambda>q. q" "\<lambda>_. True" "\<lambda>d q. Some (imu_Push d q)" imu_Pop
  by unfold_locales (simp_all add: imu_Push_def imu_Pop_def)

lemma nat_and_pred: "0 < n \<Longrightarrow> n AND (n - 1) = 0 \<Longrightarrow> \<exists>k. n = 2 ^ k" for n :: nat
proof (induction n rule: less_induct)
  case (less n)
  show ?case
  proof (cases "even n")
    case True
    then obtain m where m: "n = 2 * m" by blast
    have h: "(n - 1) div 2 = m - 1" using m less.prems(1) by (cases m) auto
    have "odd (n - 1)" using m less.prems(1) by simp
    then have "n AND (n - 1) = 2 * (m AND (m - 1))"
      using m h and_rec[of n "n - 1"] by simp
    then have "m AND (m - 1) = 0" using less.prems(2) by simp
    then obtain k where "m = 2 ^ k" using less.IH[of m] m less.prems(1) by auto
    then show ?thesis using m by (intro exI[of _ "Suc k"]) simp
  next
    case False
    then obtain m where m: "n = 2 * m + 1" by (meson oddE)
    have "n AND (n - 1) = 2 * m" using m by (simp add: and_rec[of "Suc (2 * m)"])
    then show ?thesis using less.prems(2) m by (intro exI[of _ 0]) simp
  qed
qed

lemma word_and_pred:
  fixes n :: "('w::len) word"
  assumes "n \<noteq> 0" "n AND (n - 1) = 0"
  shows "\<exists>k < LENGTH('w). n = 2 ^ k"
proof -
  have u: "unat n AND (unat n - 1) = 0"
    using arg_cong[OF assms(2), of unat] assms(1) by (simp add: unsigned_and_eq unat_minus_one)
  obtain k where k: "unat n = 2 ^ k" using nat_and_pred[OF _ u] assms(1) by (auto simp: unat_gt_0)
  have "(2::nat) ^ k < 2 ^ LENGTH('w)" using unsigned_less[of n, where 'a=nat] k by simp
  then have l: "k < LENGTH('w)" by simp
  have "n = 2 ^ k" using k l by (simp add: word_unat_eq_iff unat_pow2)
  then show ?thesis using l by blast
qed

text \<open>The queue size InitQueue really uses.\<close>

lemma queue_size_least:
  assumes "unat n \<le> 2 ^ 31"
  shows "\<exists>k < 32. (if IsPowerOf2 n then n else RoundupPowerOf2 n) = 2 ^ k
    \<and> unat n \<le> 2 ^ k \<and> (\<forall>j < k. 2 ^ j < unat n)"
proof (cases "IsPowerOf2 n")
  case True
  then obtain k where k: "k < 32" "n = 2 ^ k" using word_and_pred[of n] by (auto simp: IsPowerOf2_def)
  have "(2::nat) ^ j < 2 ^ k" if "j < k" for j using that by simp
  then show ?thesis using True k by (auto simp: unat_pow2)
next
  case False
  obtain k where k: "k < 32" "unat (RoundupPowerOf2 n) = 2 ^ k" "unat n \<le> 2 ^ k" "\<forall>j < k. 2 ^ j < unat n"
    using RoundupPowerOf2_least[OF assms] by blast
  have "RoundupPowerOf2 n = 2 ^ k"
    using k(1,2) by (simp add: word_unat_eq_iff unat_pow2)
  then show ?thesis using False k by auto
qed

lemma InitQueue_spec:
  assumes "storage q \<noteq> Freed" "unat n \<le> 2 ^ 31" "\<And>m. length (fresh m) = unat m"
  shows "\<exists>q' k. InitQueue fresh n q = Inr q' \<and> lq_inv q' \<and> lq_contents q' = []
    \<and> lq_capacity q' = 2 ^ k \<and> unat n \<le> 2 ^ k \<and> (\<forall>j < k. 2 ^ j < unat n)"
proof -
  obtain k where k: "k < 32" "(if IsPowerOf2 n then n else RoundupPowerOf2 n) = 2 ^ k"
    "unat n \<le> 2 ^ k" "\<forall>j < k. 2 ^ j < unat n"
    using queue_size_least[OF assms(2)] by blast
  let ?q = "\<lparr>storage = Live (fresh (2 ^ k)), rd_idx = 0, wr_idx = 0, q_mask = 2 ^ k - 1, q_size = 2 ^ k\<rparr>"
  have "InitQueue fresh n q = Inr ?q"
    using assms(1) by (simp add: InitQueue_def k(2) delete_storage_def Let_def)
  moreover have "lq_inv ?q"
    using k(1) assms(3) by (auto simp: lq_inv_def ring_ok_def unat_pow2 mask_eq_decr_exp intro!: exI[of _ k])
  moreover have "lq_contents ?q = []" by (simp add: lq_contents_def QueueUsedSize_def)
  moreover have "lq_capacity ?q = 2 ^ k" using k(1) by (simp add: lq_capacity_def unat_pow2)
  ultimately show ?thesis using k(3,4) by blast
qed

section \<open>The queue the driver relies on\<close>

text \<open>
  C8 lidar_queue_fifo: a packet queue initialised for n elements, n at most 2^31, holds the least
  power of two that is at least n; whatever sequence of guarded pushes and pops
  follows, across any number of index wrap-arounds, the elements come out in
  the order they were accepted, none lost or doubled, and the queue never holds
  more than its capacity.
\<close>
theorem lidar_queue_fifo:
  assumes "storage q0 \<noteq> Freed" "unat n \<le> 2 ^ 31" "\<And>m. length (fresh m) = unat m"
    and "InitQueue fresh n q0 = Inr q" "queue_run lq_offer lq_take es q = (ins, outs, q')"
  shows "outs @ lq_contents q' = ins \<and> length (lq_contents q') \<le> lq_capacity q
    \<and> (\<exists>k. lq_capacity q = 2 ^ k \<and> unat n \<le> 2 ^ k \<and> (\<forall>j < k. 2 ^ j < unat n))"
proof -
  obtain k where k: "lq_inv q" "lq_contents q = []" "lq_capacity q = 2 ^ k" "unat n \<le> 2 ^ k"
    "\<forall>j < k. 2 ^ j < unat n"
    using InitQueue_spec[OF assms(1,2,3)] assms(4) by auto
  show ?thesis using lqq.run_fifo[OF k(1) assms(5)] lqq.run_bounded[OF k(1) assms(5)] k by auto
qed

theorem lidar_queue_fifo_witness:
  "\<exists>q q'. InitQueue (\<lambda>m. replicate (unat m) ''x'') 1 \<lparr>storage = Nullptr, rd_idx = 9, wr_idx = 4, q_mask = 1, q_size = 7\<rparr> = Inr q
    \<and> queue_run lq_offer lq_take [Push ''a'', Push ''b'', Pop] q = ([''a''], [''a''], q') \<and> lq_contents q' = []"
proof -
  let ?before = "\<lparr>storage = Nullptr, rd_idx = 9, wr_idx = 4, q_mask = 1, q_size = 7\<rparr> :: string lidar_queue"
  let ?q = "\<lparr>storage = Live [''x''], rd_idx = 0, wr_idx = 0, q_mask = 0, q_size = 1\<rparr> :: string lidar_queue"
  let ?q' = "\<lparr>storage = Live [''a''], rd_idx = 1, wr_idx = 1, q_mask = 0, q_size = 1\<rparr> :: string lidar_queue"
  have i: "InitQueue (\<lambda>m. replicate (unat m) ''x'') 1 ?before = Inr ?q"
    by (simp add: InitQueue_def IsPowerOf2_def delete_storage_def)
  have r: "queue_run lq_offer lq_take [Push ''a'', Push ''b'', Pop] ?q = ([''a''], [''a''], ?q')"
    by (simp add: lq_offer_def lq_take_def QueueIsFull_def QueueIsEmpty_def queue_put_def queue_at_def QueuePopUpdate_def)
  have "lq_contents ?q' = []" using lidar_queue_fifo[OF _ _ _ i r] by simp
  then show ?thesis using i r by blast
qed

text \<open>
  lidar_queue_packets: QueuePushAny appends exactly the points_num points and the base time it
  is given to a queue that is not full, and QueuePop hands out the oldest
  packet with all its points; only a source with fewer points than it
  announces is an out-of-range read.
\<close>
theorem lidar_queue_packets:
  assumes "lq_inv q" "\<not> QueueIsFull q"
    and "\<forall>p \<in> set (lq_contents q). length (sp_points p) = unat (sp_points_num p)"
  shows "(if length (pp_points pk) < unat (pp_points_num pk) then QueuePushAny pk t q = Inl OutOfBounds
     else \<exists>q' q'' p ps. QueuePushAny pk t q = Inr q' \<and> lq_inv q' \<and> lq_contents q' = p # ps
       \<and> p # ps = lq_contents q @ [\<lparr>sp_base_time = t, sp_points_num = pp_points_num pk,
            sp_points = take (unat (pp_points_num pk)) (pp_points pk)\<rparr>]
       \<and> QueuePop q' = Inr (Some p, q'') \<and> lq_contents q'' = ps)"
proof (cases "length (pp_points pk) < unat (pp_points_num pk)")
  case True
  then show ?thesis by (simp add: QueuePushAny_def)
next
  case False
  let ?x = "\<lparr>sp_base_time = t, sp_points_num = pp_points_num pk,
            sp_points = take (unat (pp_points_num pk)) (pp_points pk)\<rparr>"
  obtain q' where q': "QueuePushAny pk t q = Inr q'" "lq_inv q'" "lq_contents q' = lq_contents q @ [?x]"
    using queue_put_spec[OF assms(1,2), of ?x] False by (auto simp: QueuePushAny_def)
  obtain p ps where p: "lq_contents q @ [?x] = p # ps" by (cases "lq_contents q @ [?x]") auto
  have l: "length (sp_points p) = unat (sp_points_num p)"
    using p assms(3) False by (cases "lq_contents q") auto
  have c: "lq_contents q' = p # ps" using q'(3) p by simp
  have "QueuePop q' = Inr (Some p, QueuePopUpdate q')"
    using queue_at_spec[OF q'(2) c] lq_empty_iff[OF q'(2)] c l
    by (simp add: QueuePop_def QueuePrePop_def)
  then show ?thesis using q' p c False queue_at_spec[OF q'(2) c] by auto
qed

text \<open>
  lidar_queue_deinit: DeInitQueue leaves a dangling pointer behind: after it, initialising or
  deinitialising the queue again frees the array twice, and a push, which the
  test for a full queue does not prevent, writes to freed memory.
\<close>
theorem lidar_queue_deinit:
  assumes "lq_inv q"
  shows "\<exists>q'. DeInitQueue q = Inr q' \<and> \<not> QueueIsFull q' \<and> InitQueue fresh n q' = Inl DoubleFree
    \<and> DeInitQueue q' = Inl DoubleFree \<and> queue_put x q' = Inl UseAfterFree"
proof -
  obtain b where "storage q = Live b" using lq_invE[OF assms] by blast
  then show ?thesis
    by (simp add: DeInitQueue_def delete_storage_def QueueIsFull_def InitQueue_def Let_def queue_put_def)
qed

theorem lidar_queue_deinit_witness:
  "\<exists>q'. DeInitQueue \<lparr>storage = Live [''x''], rd_idx = 0, wr_idx = 1, q_mask = 0, q_size = 1\<rparr> = Inr q'
     \<and> DeInitQueue q' = Inl DoubleFree"
proof -
  have "lq_inv \<lparr>storage = Live [''x''], rd_idx = 0, wr_idx = 1, q_mask = 0, q_size = 1\<rparr>"
    by (auto simp: lq_inv_def ring_ok_def intro!: exI[of _ 0])
  then show ?thesis using lidar_queue_deinit[where fresh = "\<lambda>_. []" and n = 1 and x = "''y''"] by blast
qed

theorem lidar_queue_packets_witness:
  "\<exists>q' q'' p. QueuePushAny \<lparr>pp_handle = 1, pp_lidar_type = 8, pp_points_num = 0, pp_points = []\<rparr> 77
      \<lparr>storage = Live [\<lparr>sp_base_time = 1, sp_points_num = 0, sp_points = []\<rparr>], rd_idx = 5, wr_idx = 5,
        q_mask = 0, q_size = 1\<rparr> = Inr q' \<and> QueuePop q' = Inr (Some p, q'') \<and> sp_base_time p = 77"
proof -
  let ?q = "\<lparr>storage = Live [\<lparr>sp_base_time = 1, sp_points_num = 0, sp_points = []\<rparr>], rd_idx = 5, wr_idx = 5,
        q_mask = 0, q_size = 1\<rparr> :: storage_packet lidar_queue"
  have i: "lq_inv ?q" by (auto simp: lq_inv_def ring_ok_def intro!: exI[of _ 0])
  have f: "\<not> QueueIsFull ?q" "lq_contents ?q = []"
    by (simp_all add: QueueIsFull_def lq_contents_def QueueUsedSize_def)
  show ?thesis
    using lidar_queue_packets[OF i f(1), of "\<lparr>pp_handle = 1, pp_lidar_type = 8, pp_points_num = 0, pp_points = []\<rparr>" 77] f(2)
    by auto
qed

end
