(* ===== verification/Livox_Lds.thy ===== *)
theory Livox_Lds
  imports Livox_Queue
begin

text \<open>
  The lidar data source of the driver (edge/src/livox_ros_driver2/src): the
  table that gives a device one of 32 slots (comm/cache_index.cpp), the devices
  with their queues, and the routines that store incoming packets (lds.cpp).
\<close>

section \<open>Slots of devices\<close>

definition kMaxSourceLidar :: nat where "kMaxSourceLidar = 32"
definition kLivoxLidarType :: u8 where "kLivoxLidarType = 8"

text \<open>std::to_string of an unsigned number.\<close>

fun dec_string :: "nat \<Rightarrow> string" where
  "dec_string n = (if n < 10 then [char_of (48 + n)]
     else dec_string (n div 10) @ [char_of (48 + n mod 10)])"

declare dec_string.simps [simp del]

record cache_index =
  map_index :: "string \<rightharpoonup> u8"
  index_cache :: "bool list"

definition CacheIndex :: cache_index where
  "CacheIndex = \<lparr>map_index = Map.empty, index_cache = replicate kMaxSourceLidar False\<rparr>"

definition GenerateIndexKey :: "u8 \<Rightarrow> u32 \<Rightarrow> string option" where
  "GenerateIndexKey livox_lidar_type handle =
     (if livox_lidar_type = kLivoxLidarType then Some (''livox_lidar_'' @ dec_string (unat handle)) else None)"

text \<open>The first free slot.\<close>

fun free_slot :: "bool list \<Rightarrow> nat \<Rightarrow> nat option" where
  "free_slot used 0 = None"
| "free_slot used (Suc n) = (let i = kMaxSourceLidar - Suc n in
     if \<not> used ! i then Some i else free_slot used n)"

text \<open>A result of None is the return value -1, which leaves the index unwritten.\<close>

definition GetFreeIndex :: "u8 \<Rightarrow> u32 \<Rightarrow> cache_index \<Rightarrow> u8 option \<times> cache_index" where
  "GetFreeIndex livox_lidar_type handle c = (case GenerateIndexKey livox_lidar_type handle of
      None \<Rightarrow> (None, c)
    | Some key \<Rightarrow> (case map_index c key of
        Some i \<Rightarrow> (Some i, c)
      | None \<Rightarrow> (case free_slot (index_cache c) kMaxSourceLidar of
          Some i \<Rightarrow> (Some (of_nat i), c\<lparr>index_cache := (index_cache c)[i := True],
                       map_index := (map_index c)(key \<mapsto> of_nat i)\<rparr>)
        | None \<Rightarrow> (None, c))))"

definition GetIndex :: "u8 \<Rightarrow> u32 \<Rightarrow> cache_index \<Rightarrow> u8 option" where
  "GetIndex livox_lidar_type handle c = (case GenerateIndexKey livox_lidar_type handle of
      None \<Rightarrow> None | Some key \<Rightarrow> map_index c key)"

definition LvxGetIndex :: "u8 \<Rightarrow> u32 \<Rightarrow> cache_index \<Rightarrow> u8 option \<times> cache_index" where
  "LvxGetIndex livox_lidar_type handle c = (case GenerateIndexKey livox_lidar_type handle of
      None \<Rightarrow> (None, c)
    | Some key \<Rightarrow> (case map_index c key of Some i \<Rightarrow> (Some i, c)
        | None \<Rightarrow> GetFreeIndex livox_lidar_type handle c))"

definition ResetIndex :: "u8 \<Rightarrow> u32 \<Rightarrow> cache_index \<Rightarrow> cache_index" where
  "ResetIndex lidar_type handle c = (case GenerateIndexKey lidar_type handle of
      None \<Rightarrow> c
    | Some key \<Rightarrow> (case map_index c key of None \<Rightarrow> c
        | Some i \<Rightarrow> c\<lparr>map_index := (map_index c)(key := None),
                       index_cache := (index_cache c)[unat i := False]\<rparr>))"

section \<open>Devices\<close>

datatype connect_state = kConnectStateOff | kConnectStateOn | kConnectStateConfig | kConnectStateSampling

text \<open>The mounting of a device: angles in degrees, translation in millimetres.\<close>

record ext_parameter =
  roll :: fp
  pitch :: fp
  yaw :: fp
  ext_x :: int
  ext_y :: int
  ext_z :: int

text \<open>The bits of a pending configuration and the values to set; -1 leaves a setting alone.\<close>

record livox_config =
  cfg_handle :: u32
  pcl_data_type :: int
  pattern_mode :: int
  blind_spot_set :: int
  dual_emit_en :: int
  extrinsic_param :: ext_parameter
  set_bits :: u32

record lidar_device =
  lidar_type :: u8
  handle :: u32
  data_src :: u8
  connect_state :: connect_state
  pcd_data :: "storage_packet lidar_queue"
  imu_queue :: "imu_data list"
  livox_config :: livox_config

record lds =
  lidar_count :: nat
  lidars :: "lidar_device list"
  pcd_semaphore :: int
  imu_semaphore :: int
  cache :: cache_index
  publish_freq :: fp
  request_exit :: bool

section \<open>The data source\<close>

definition CalculatePacketQueueSize :: "fp \<Rightarrow> u32 res" where
  "CalculatePacketQueueSize freq = (if fp_lt (Fin 10) freq
     then bindR (fp_to_unsigned freq) (\<lambda>n. Inr (n + 1)) else Inr 10)"

definition ResetLidar :: "u8 \<Rightarrow> lidar_device \<Rightarrow> lidar_device res" where
  "ResetLidar src d = bindR (DeInitQueue (pcd_data d)) (\<lambda>q.
     Inr (d\<lparr>pcd_data := q, imu_queue := imu_Clear (imu_queue d), data_src := src,
            connect_state := kConnectStateOff\<rparr>))"

fun reset_all :: "u8 \<Rightarrow> lidar_device list \<Rightarrow> lidar_device list res" where
  "reset_all src [] = Inr []"
| "reset_all src (d # ds) = bindR (ResetLidar src d) (\<lambda>d'.
     bindR (reset_all src ds) (\<lambda>ds'. Inr (d' # ds')))"

definition ResetLds :: "u8 \<Rightarrow> lds \<Rightarrow> lds res" where
  "ResetLds src s = bindR (reset_all src (lidars s)) (\<lambda>ds.
     Inr (s\<lparr>lidar_count := kMaxSourceLidar, lidars := ds\<rparr>))"

definition RequestExit :: "lds \<Rightarrow> lds" where
  "RequestExit s = s\<lparr>request_exit := True\<rparr>"

definition IsAllQueueEmpty :: "lds \<Rightarrow> bool" where
  "IsAllQueueEmpty s \<longleftrightarrow> (\<forall>d \<in> set (take (lidar_count s) (lidars s)). QueueIsEmpty (pcd_data d))"

definition IsAllQueueReadStop :: "lds \<Rightarrow> bool" where
  "IsAllQueueReadStop s \<longleftrightarrow> (\<forall>d \<in> set (take (lidar_count s) (lidars s)). QueueUsedSize (pcd_data d) = 0)"

text \<open>A semaphore is signalled only while its count is not positive.\<close>

definition signal_if_zero :: "int \<Rightarrow> int" where
  "signal_if_zero c = (if c \<le> 0 then sem_Signal c else c)"

definition StorageImuData :: "imu_data \<Rightarrow> lds \<Rightarrow> lds res" where
  "StorageImuData d s = (if imu_lidar_type d \<noteq> kLivoxLidarType then Inr s
     else case GetIndex (imu_lidar_type d) (imu_handle d) (cache s) of
       None \<Rightarrow> Inr s
     | Some i \<Rightarrow> if unat i < length (lidars s) then
         let dev = lidars s ! unat i; q = imu_Push d (imu_queue dev) in
         Inr (s\<lparr>lidars := (lidars s)[unat i := dev\<lparr>imu_queue := q\<rparr>],
           imu_semaphore := (if imu_Empty q then imu_semaphore s else signal_if_zero (imu_semaphore s))\<rparr>)
       else Inl OutOfBounds)"

text \<open>The queue of a device is created with its first packet.\<close>

definition PushLidarData :: "(u32 \<Rightarrow> storage_packet list) \<Rightarrow> point_packet \<Rightarrow> u8 \<Rightarrow> u64 \<Rightarrow> lds \<Rightarrow> lds res" where
  "PushLidarData fresh pk i base_time s = (if unat i < length (lidars s) then
     let dev = lidars s ! unat i in
     bindR (if storage (pcd_data dev) = Nullptr
            then bindR (CalculatePacketQueueSize (publish_freq s)) (\<lambda>n. InitQueue fresh n (pcd_data dev))
            else Inr (pcd_data dev)) (\<lambda>q.
     if \<not> QueueIsFull q then
       bindR (QueuePushAny pk base_time q) (\<lambda>q'.
         Inr (s\<lparr>lidars := (lidars s)[unat i := dev\<lparr>pcd_data := q'\<rparr>],
           pcd_semaphore := (if QueueIsEmpty q' then pcd_semaphore s else signal_if_zero (pcd_semaphore s))\<rparr>))
     else Inr (s\<lparr>lidars := (lidars s)[unat i := dev\<lparr>pcd_data := q\<rparr>],
           pcd_semaphore := signal_if_zero (pcd_semaphore s)\<rparr>))
   else Inl OutOfBounds)"

text \<open>The packets of a frame with their base times; packets of devices without a slot are skipped.\<close>

fun StoragePointData :: "(u32 \<Rightarrow> storage_packet list) \<Rightarrow> (u64 \<times> point_packet) list \<Rightarrow> lds \<Rightarrow> lds res" where
  "StoragePointData fresh [] s = Inr s"
| "StoragePointData fresh ((t, pk) # ps) s = (case GetIndex (pp_lidar_type pk) (pp_handle pk) (cache s) of
      None \<Rightarrow> StoragePointData fresh ps s
    | Some i \<Rightarrow> bindR (PushLidarData fresh pk i t s) (StoragePointData fresh ps))"

fun StorageLvxPointData :: "(u32 \<Rightarrow> storage_packet list) \<Rightarrow> (u64 \<times> point_packet) list \<Rightarrow> lds \<Rightarrow> lds res" where
  "StorageLvxPointData fresh [] s = Inr s"
| "StorageLvxPointData fresh ((t, pk) # ps) s =
     (case LvxGetIndex (pp_lidar_type pk) (pp_handle pk) (cache s) of
      (None, c) \<Rightarrow> StorageLvxPointData fresh ps (s\<lparr>cache := c\<rparr>)
    | (Some i, c) \<Rightarrow>
        bindR (PushLidarData fresh pk i t
            (s\<lparr>cache := c, lidars := (lidars s)[unat i := (lidars s ! unat i)\<lparr>connect_state := kConnectStateSampling\<rparr>]\<rparr>))
          (StorageLvxPointData fresh ps))"

section \<open>The slot table\<close>

lemma dec_string_inj: "dec_string m = dec_string n \<Longrightarrow> m = n"
proof (induction m arbitrary: n rule: less_induct)
  case (less m)
  have c: "char_of (48 + a) = char_of (48 + b) \<Longrightarrow> a < 10 \<Longrightarrow> b < 10 \<Longrightarrow> a = b" for a b :: nat
    by (drule arg_cong[of _ _ "of_char :: char \<Rightarrow> nat"]) simp
  have ne: "dec_string k \<noteq> []" for k by (subst dec_string.simps) simp
  show ?case
  proof (cases "m < 10 \<or> n < 10")
    case True
    then show ?thesis using less.prems ne ne[symmetric]
      by (subst (asm) (2) dec_string.simps, subst (asm) (1) dec_string.simps) (auto dest: c split: if_splits)
  next
    case False
    then have "dec_string m = dec_string (m div 10) @ [char_of (48 + m mod 10)]"
      "dec_string n = dec_string (n div 10) @ [char_of (48 + n mod 10)]"
      by (subst dec_string.simps, simp)+
    then have "dec_string (m div 10) = dec_string (n div 10)" "char_of (48 + m mod 10) = (char_of (48 + n mod 10) :: char)"
      using less.prems by simp_all
    then have "m div 10 = n div 10" "m mod 10 = n mod 10" using less.IH[of "m div 10"] False c[of "m mod 10" "n mod 10"] by auto
    then show ?thesis by (metis div_mult_mod_eq)
  qed
qed

lemma key_inj:
  "GenerateIndexKey t h = Some k \<Longrightarrow> GenerateIndexKey t' h' = Some k \<Longrightarrow> t = t' \<and> h = h'"
  by (auto simp: GenerateIndexKey_def word_unat_eq_iff dest!: dec_string_inj split: if_splits)

definition ci_inv :: "cache_index \<Rightarrow> bool" where
  "ci_inv c \<longleftrightarrow> length (index_cache c) = kMaxSourceLidar
     \<and> (\<forall>k i. map_index c k = Some i \<longrightarrow> unat i < kMaxSourceLidar \<and> index_cache c ! unat i)
     \<and> (\<forall>k k' i. map_index c k = Some i \<and> map_index c k' = Some i \<longrightarrow> k = k')
     \<and> (\<forall>i < kMaxSourceLidar. index_cache c ! i \<longrightarrow> of_nat i \<in> ran (map_index c))"

lemma free_slot_Some: "free_slot used n = Some i \<Longrightarrow> n \<le> kMaxSourceLidar \<Longrightarrow> i < kMaxSourceLidar \<and> \<not> used ! i"
  by (induction n) (auto simp: Let_def kMaxSourceLidar_def split: if_splits)

lemma free_slot_None: "free_slot used n = None \<Longrightarrow> n \<le> kMaxSourceLidar \<Longrightarrow>
    kMaxSourceLidar - n \<le> i \<Longrightarrow> i < kMaxSourceLidar \<Longrightarrow> used ! i"
proof (induction n)
  case 0
  then show ?case by simp
next
  case (Suc n)
  show ?case
    by (cases "i = kMaxSourceLidar - Suc n") (use Suc in \<open>auto simp: Let_def split: if_splits\<close>)
qed

lemma ci_empty: "ci_inv CacheIndex"
  by (simp add: ci_inv_def CacheIndex_def)

lemma GetFreeIndex_spec:
  assumes "ci_inv c" "GetFreeIndex t h c = (Some i, c')"
  shows "ci_inv c' \<and> unat i < kMaxSourceLidar \<and> GetIndex t h c' = Some i
    \<and> (\<forall>t' h'. (t', h') \<noteq> (t, h) \<longrightarrow> GetIndex t' h' c' = GetIndex t' h' c \<and> GetIndex t' h' c' \<noteq> Some i)"
proof -
  obtain key where key: "GenerateIndexKey t h = Some key"
    using assms(2) by (auto simp: GetFreeIndex_def split: option.splits)
  show ?thesis
  proof (cases "map_index c key")
    case (Some j)
    then have "j = i" "c' = c" using assms(2) key by (auto simp: GetFreeIndex_def)
    moreover have "GetIndex t' h' c = Some i \<Longrightarrow> (t', h') = (t, h)" for t' h'
      using assms(1) Some \<open>j = i\<close> key key_inj[of t' h'] unfolding ci_inv_def GetIndex_def
      by (metis (no_types, lifting) option.case_eq_if option.collapse option.discI)
    ultimately show ?thesis using assms(1) Some key by (auto simp: ci_inv_def GetIndex_def)
  next
    case None
    then obtain n where n: "free_slot (index_cache c) kMaxSourceLidar = Some n" "i = of_nat n"
      "c' = c\<lparr>index_cache := (index_cache c)[n := True], map_index := (map_index c)(key \<mapsto> of_nat n)\<rparr>"
      using assms(2) key by (auto simp: GetFreeIndex_def split: option.splits)
    have f: "n < kMaxSourceLidar" "\<not> index_cache c ! n" using free_slot_Some[OF n(1)] by simp_all
    then have u: "unat i = n" by (simp add: n(2) kMaxSourceLidar_def unat_of_nat)
    have new: "map_index c k \<noteq> Some i" for k using assms(1) f(2) u by (auto simp: ci_inv_def)
    have "ci_inv c'"
      unfolding ci_inv_def n(3)
    proof (intro conjI allI impI)
      fix m assume m: "m < kMaxSourceLidar"
        "index_cache (c\<lparr>index_cache := (index_cache c)[n := True], map_index := (map_index c)(key \<mapsto> of_nat n)\<rparr>) ! m"
      show "of_nat m \<in> ran (map_index (c\<lparr>index_cache := (index_cache c)[n := True],
          map_index := (map_index c)(key \<mapsto> of_nat n)\<rparr>))"
      proof (cases "m = n")
        case True
        then show ?thesis by (auto simp: ran_def)
      next
        case False
        then have "of_nat m \<in> ran (map_index c)" using m assms(1) by (auto simp: ci_inv_def)
        then obtain k where k: "map_index c k = Some (of_nat m)" by (auto simp: ran_def)
        then have "k \<noteq> key" using None by auto
        then show ?thesis using k by (auto simp: ran_def)
      qed
    qed (use assms(1) f u new n(2) in \<open>auto simp: ci_inv_def nth_list_update split: if_splits\<close>)
    moreover have "GetIndex t h c' = Some i" using key n(2,3) by (simp add: GetIndex_def)
    moreover have "GetIndex t' h' c' = GetIndex t' h' c \<and> GetIndex t' h' c' \<noteq> Some i" if "(t', h') \<noteq> (t, h)" for t' h'
      using that key_inj[of t' h' key t h] key new n(3)
      by (auto simp: GetIndex_def split: option.splits)
    ultimately show ?thesis using f(1) u by blast
  qed
qed

lemma GetFreeIndex_None:
  assumes "ci_inv c" "GetFreeIndex kLivoxLidarType h c = (None, c')"
  shows "c' = c \<and> (\<forall>i < kMaxSourceLidar. \<exists>k. map_index c k = Some (of_nat i)) \<and> GetIndex kLivoxLidarType h c = None"
proof -
  obtain key where key: "GenerateIndexKey kLivoxLidarType h = Some key" by (simp add: GenerateIndexKey_def)
  then have f: "free_slot (index_cache c) kMaxSourceLidar = None" "map_index c key = None" "c' = c"
    using assms(2) by (auto simp: GetFreeIndex_def split: option.splits)
  have "index_cache c ! i" if "i < kMaxSourceLidar" for i using free_slot_None[OF f(1)] that by simp
  then show ?thesis using f key assms(1) by (auto simp: ci_inv_def GetIndex_def ran_def)
qed

text \<open>
  device_slots: the slot table gives every device a slot of its own: a device that gets a slot
  is found under it from then on, the slot is below 32 and held by no other
  device, and the slots of the other devices do not change.  A device is
  refused only when it has no slot and all 32 are taken.
\<close>
theorem device_slots:
  assumes "ci_inv c" "GetFreeIndex kLivoxLidarType h c = (r, c')"
  shows "ci_inv c' \<and> (case r of
      Some i \<Rightarrow> unat i < 32 \<and> GetIndex kLivoxLidarType h c' = Some i
        \<and> (\<forall>h'. h' \<noteq> h \<longrightarrow> GetIndex kLivoxLidarType h' c' = GetIndex kLivoxLidarType h' c
             \<and> GetIndex kLivoxLidarType h' c' \<noteq> Some i)
    | None \<Rightarrow> GetIndex kLivoxLidarType h c = None \<and> (\<forall>i < 32. \<exists>k. map_index c k = Some (of_nat i)))"
proof (cases r)
  case None
  then show ?thesis using GetFreeIndex_None[OF assms(1), of h c'] assms by (auto simp: kMaxSourceLidar_def)
next
  case (Some i)
  have g: "GetFreeIndex kLivoxLidarType h c = (Some i, c')" using assms(2) Some by simp
  note sp = GetFreeIndex_spec[OF assms(1) g]
  have "GetIndex kLivoxLidarType h' c' = GetIndex kLivoxLidarType h' c
      \<and> GetIndex kLivoxLidarType h' c' \<noteq> Some i" if "h' \<noteq> h" for h' using sp that by blast
  then show ?thesis using sp Some by (simp add: kMaxSourceLidar_def)
qed

theorem device_slots_witness:
  "\<exists>c'. GetFreeIndex kLivoxLidarType 7 CacheIndex = (Some 0, c') \<and> GetIndex kLivoxLidarType 7 c' = Some 0"
proof -
  obtain r c' where g: "GetFreeIndex kLivoxLidarType 7 CacheIndex = (r, c')" by fastforce
  have "r = Some 0" using g
    by (auto simp: GetFreeIndex_def GenerateIndexKey_def CacheIndex_def kMaxSourceLidar_def eval_nat_numeral)
  then show ?thesis using device_slots[OF ci_empty g] g by simp
qed

lemma ResetIndex_inv [inv_intros]: "ci_inv c \<Longrightarrow> ci_inv (ResetIndex t h c)"
proof -
  assume i: "ci_inv c"
  show ?thesis
  proof (cases "\<exists>k j. GenerateIndexKey t h = Some k \<and> map_index c k = Some j")
    case True
    then obtain k j where k: "GenerateIndexKey t h = Some k" "map_index c k = Some j" by blast
    have e: "ResetIndex t h c = c\<lparr>map_index := (map_index c)(k := None),
        index_cache := (index_cache c)[unat j := False]\<rparr>" by (simp add: ResetIndex_def k)
    have o: "unat i \<noteq> unat j" if "map_index c k' = Some i" "k' \<noteq> k" for i k'
    proof
      assume "unat i = unat j"
      then have "i = j" by (simp add: word_unat_eq_iff)
      then show False using i that k(2) by (auto simp: ci_inv_def)
    qed
    have s: "of_nat m \<in> ran ((map_index c)(k := None))"
      if mk: "m < kMaxSourceLidar" "(index_cache c)[unat j := False] ! m" for m
    proof -
      have j: "unat j < length (index_cache c)" using i k(2) by (auto simp: ci_inv_def)
      then have m: "m \<noteq> unat j" "index_cache c ! m" using mk(2) by (auto simp: nth_list_update split: if_splits)
      then obtain k' where "map_index c k' = Some (of_nat m)" using i mk(1) by (auto simp: ci_inv_def ran_def)
      moreover have "k' \<noteq> k" using calculation k(2) m(1) mk(1)
        by (auto simp: kMaxSourceLidar_def unat_of_nat)
      ultimately show ?thesis by (auto simp: ran_def)
    qed
    show ?thesis using i o s unfolding e ci_inv_def
      by (auto simp: nth_list_update split: if_splits)
  next
    case False
    then show ?thesis using i by (auto simp: ResetIndex_def split: option.splits)
  qed
qed

section \<open>Storing packets is safe\<close>

definition queue_ready :: "'a lidar_queue \<Rightarrow> bool" where
  "queue_ready q \<longleftrightarrow> storage q = Nullptr \<or> lq_inv q"

definition lds_ok :: "lds \<Rightarrow> bool" where
  "lds_ok s \<longleftrightarrow> length (lidars s) = kMaxSourceLidar \<and> ci_inv (cache s)
     \<and> (\<forall>d \<in> set (lidars s). queue_ready (pcd_data d)) \<and> 0 \<le> pcd_semaphore s
     \<and> (\<exists>n. CalculatePacketQueueSize (publish_freq s) = Inr n \<and> unat n \<le> 2 ^ 31)"

definition packet_ok :: "point_packet \<Rightarrow> bool" where
  "packet_ok p \<longleftrightarrow> length (pp_points p) = unat (pp_points_num p)"

text \<open>The queue a packet is offered to.\<close>

lemma ready_queue:
  assumes "queue_ready q" "CalculatePacketQueueSize f = Inr n" "unat n \<le> 2 ^ 31"
    "\<And>m. length (fresh m) = unat m"
  shows "\<exists>q'. (if storage q = Nullptr then bindR (CalculatePacketQueueSize f) (\<lambda>n. InitQueue fresh n q)
      else Inr q) = Inr q' \<and> lq_inv q' \<and> (storage q \<noteq> Nullptr \<longrightarrow> q' = q)
      \<and> (storage q = Nullptr \<longrightarrow> lq_contents q' = [])"
proof (cases "storage q = Nullptr")
  case True
  then show ?thesis using InitQueue_spec[of q n fresh] assms(2,3,4) by auto
next
  case False
  then show ?thesis using assms(1) by (auto simp: queue_ready_def)
qed

lemma PushLidarData_ok:
  assumes "lds_ok s" "unat i < kMaxSourceLidar" "packet_ok pk" "\<And>m. length (fresh m) = unat m"
  shows "\<exists>s'. PushLidarData fresh pk i t s = Inr s' \<and> lds_ok s' \<and> cache s' = cache s
    \<and> 0 < pcd_semaphore s'"
proof -
  let ?d = "lidars s ! unat i"
  have i: "unat i < length (lidars s)" using assms(1,2) by (simp add: lds_ok_def)
  then have r: "queue_ready (pcd_data ?d)" using assms(1) by (auto simp: lds_ok_def)
  obtain n where n: "CalculatePacketQueueSize (publish_freq s) = Inr n" "unat n \<le> 2 ^ 31"
    using assms(1) by (auto simp: lds_ok_def)
  obtain q where q: "(if storage (pcd_data ?d) = Nullptr
      then bindR (CalculatePacketQueueSize (publish_freq s)) (\<lambda>n. InitQueue fresh n (pcd_data ?d))
      else Inr (pcd_data ?d)) = Inr q" "lq_inv q"
    using ready_queue[OF r n assms(4)] by blast
  have k: "lds_ok (s\<lparr>lidars := (lidars s)[unat i := ?d\<lparr>pcd_data := q'\<rparr>], pcd_semaphore := c\<rparr>)"
    if "lq_inv q'" "0 \<le> c" for q' c
    using assms(1) that by (auto simp: lds_ok_def queue_ready_def dest!: set_update_subset_insert[THEN subsetD])
  have c: "0 < signal_if_zero (pcd_semaphore s)"
    using assms(1) by (auto simp: lds_ok_def signal_if_zero_def sem_Signal_def)
  show ?thesis
  proof (cases "QueueIsFull q")
    case True
    then show ?thesis using i q k[OF q(2)] c by (simp add: PushLidarData_def)
  next
    case False
    let ?x = "\<lparr>sp_base_time = t, sp_points_num = pp_points_num pk,
            sp_points = take (unat (pp_points_num pk)) (pp_points pk)\<rparr>"
    obtain q' where q': "QueuePushAny pk t q = Inr q'" "lq_inv q'" "lq_contents q' = lq_contents q @ [?x]"
      using queue_put_spec[OF q(2) False, of ?x] assms(3) by (auto simp: QueuePushAny_def packet_ok_def)
    then have "\<not> QueueIsEmpty q'" using lq_empty_iff[OF q'(2)] by simp
    then show ?thesis using i q(1) q'(1) False k[OF q'(2)] c by (simp add: PushLidarData_def)
  qed
qed

lemma GetIndex_bound: "ci_inv c \<Longrightarrow> GetIndex t h c = Some i \<Longrightarrow> unat i < kMaxSourceLidar"
  by (auto simp: GetIndex_def ci_inv_def split: option.splits)

text \<open>
  lds_store_safe: storing any frames, whatever devices they come from, never fails: every access
  stays in bounds, no queue is used before it is created, the source stays well
  formed, and if one packet belongs to a device with a slot the publishing
  thread can be woken up afterwards.
\<close>
theorem lds_store_safe:
  assumes "lds_ok s" "\<forall>x \<in> set ps. packet_ok (snd x)" "\<And>m. length (fresh m) = unat m"
  shows "\<exists>s'. StoragePointData fresh ps s = Inr s' \<and> lds_ok s' \<and> cache s' = cache s
    \<and> (0 < pcd_semaphore s \<or> (\<exists>x \<in> set ps. GetIndex (pp_lidar_type (snd x)) (pp_handle (snd x)) (cache s) \<noteq> None)
        \<longrightarrow> 0 < pcd_semaphore s')"
  using assms(1,2)
proof (induction ps arbitrary: s)
  case Nil
  then show ?case by simp
next
  case (Cons x ps)
  obtain t pk where x: "x = (t, pk)" by (cases x)
  show ?case
  proof (cases "GetIndex (pp_lidar_type pk) (pp_handle pk) (cache s)")
    case None
    then show ?thesis using Cons x by auto
  next
    case (Some i)
    have i: "unat i < kMaxSourceLidar" using GetIndex_bound[OF _ Some] Cons.prems(1) by (simp add: lds_ok_def)
    obtain s1 where s1: "PushLidarData fresh pk i t s = Inr s1" "lds_ok s1" "cache s1 = cache s" "0 < pcd_semaphore s1"
      using PushLidarData_ok[OF Cons.prems(1) i _ assms(3), of pk t] Cons.prems(2) x by auto
    show ?thesis using Cons.IH[OF s1(2)] Cons.prems(2) s1 Some x by auto
  qed
qed

definition idle_device :: lidar_device where
  "idle_device = \<lparr>lidar_type = 8, handle = 0, data_src = 0, connect_state = kConnectStateSampling,
     pcd_data = \<lparr>storage = Nullptr, rd_idx = 0, wr_idx = 0, q_mask = 0, q_size = 0\<rparr>, imu_queue = [],
     livox_config = \<lparr>cfg_handle = 0, pcl_data_type = - 1, pattern_mode = - 1, blind_spot_set = - 1,
       dual_emit_en = - 1, extrinsic_param = \<lparr>roll = Fin 0, pitch = Fin 0, yaw = Fin 0, ext_x = 0, ext_y = 0, ext_z = 0\<rparr>,
       set_bits = 0\<rparr>\<rparr>"

definition idle_lds :: lds where
  "idle_lds = \<lparr>lidar_count = 32, lidars = replicate 32 idle_device, pcd_semaphore = 0, imu_semaphore = 0,
     cache = CacheIndex, publish_freq = Fin 10, request_exit = False\<rparr>"

lemma idle_lds_ok: "ci_inv c \<Longrightarrow> lds_ok (idle_lds\<lparr>cache := c\<rparr>)"
  by (simp add: lds_ok_def idle_lds_def idle_device_def kMaxSourceLidar_def queue_ready_def CalculatePacketQueueSize_def)

theorem lds_store_safe_witness:
  "\<exists>s'. StoragePointData (\<lambda>m. replicate (unat m) \<lparr>sp_base_time = 0, sp_points_num = 0, sp_points = []\<rparr>)
      [(5, \<lparr>pp_handle = 7, pp_lidar_type = 8, pp_points_num = 0, pp_points = []\<rparr>)]
      (idle_lds\<lparr>cache := snd (GetFreeIndex kLivoxLidarType 7 CacheIndex)\<rparr>) = Inr s' \<and> 0 < pcd_semaphore s'"
proof -
  obtain r c where g: "GetFreeIndex kLivoxLidarType 7 CacheIndex = (r, c)" by fastforce
  have r: "r = Some 0" using g
    by (auto simp: GetFreeIndex_def GenerateIndexKey_def CacheIndex_def kMaxSourceLidar_def eval_nat_numeral)
  have c: "ci_inv c" "GetIndex kLivoxLidarType 7 c = Some 0"
    using GetFreeIndex_spec[OF ci_empty, of kLivoxLidarType 7 0 c] g r by simp_all
  show ?thesis
    using lds_store_safe[OF idle_lds_ok[OF c(1)],
      of "[(5, \<lparr>pp_handle = 7, pp_lidar_type = 8, pp_points_num = 0, pp_points = []\<rparr>)]"
        "\<lambda>m. replicate (unat m) \<lparr>sp_base_time = 0, sp_points_num = 0, sp_points = []\<rparr>"] c g
    by (auto simp: packet_ok_def kLivoxLidarType_def)
qed

end
