(* ===== verification/Livox_Lddc.thy ===== *)
theory Livox_Lddc
  imports Livox_Lds
begin

text \<open>
  The publishing side of the driver in its ROS 2 build
  (edge/src/livox_ros_driver2/src/lddc.cpp): messages made from stored packets,
  publishers created on demand, the loops that drain a queue, and the two
  threads around the point cloud semaphore.  A message that is published is
  appended to a log together with its publisher.  What the operating system
  answers when the shared time stamp file is opened is an argument.
\<close>

section \<open>Messages\<close>

record cloud_point =
  cp_x :: fp
  cp_y :: fp
  cp_z :: fp
  cp_reflectivity :: fp
  cp_tag :: u8
  cp_line :: u8
  cp_timestamp :: fp

datatype field_type = FLOAT32 | UINT8 | FLOAT64

text \<open>A field of the point layout: name, offset and type.\<close>

type_synonym point_field = "string \<times> nat \<times> field_type"

definition cloud_fields :: "point_field list" where
  "cloud_fields = [(''x'', 0, FLOAT32), (''y'', 4, FLOAT32), (''z'', 8, FLOAT32),
     (''intensity'', 12, FLOAT32), (''tag'', 16, UINT8), (''line'', 17, UINT8),
     (''timestamp'', 18, FLOAT64)]"

text \<open>The size of the packed struct LivoxPointXyzrtlt: four floats, two bytes, a double.\<close>

definition sizeof_cloud_point :: u32 where "sizeof_cloud_point = 4 * 4 + 2 * 1 + 8"

record cloud_msg =
  cl_frame_id :: string
  cl_stamp :: u64
  cl_height :: u32
  cl_width :: u32
  cl_fields :: "point_field list"
  cl_point_step :: u32
  cl_row_step :: u32
  cl_points :: "cloud_point list"

record custom_point =
  cu_offset_time :: u32
  cu_x :: fp
  cu_y :: fp
  cu_z :: fp
  cu_reflectivity :: u8
  cu_tag :: u8
  cu_line :: u8

record custom_msg =
  cu_frame_id :: string
  cu_stamp :: u64
  cu_timebase :: u64
  cu_point_num :: u32
  cu_lidar_id :: u8
  cu_points :: "custom_point list"

record imu_msg =
  im_frame_id :: string
  im_stamp :: u64
  im_angular :: "fp \<times> fp \<times> fp"
  im_linear :: "fp \<times> fp \<times> fp"

datatype ros_msg = CloudMsg cloud_msg | CustomMsg custom_msg | ImuMsg imu_msg

definition InitPointcloud2MsgHeader :: "string \<Rightarrow> cloud_msg" where
  "InitPointcloud2MsgHeader frame = \<lparr>cl_frame_id = frame, cl_stamp = 0, cl_height = 1, cl_width = 0,
     cl_fields = cloud_fields, cl_point_step = sizeof_cloud_point, cl_row_step = 0, cl_points = []\<rparr>"

definition cloud_point_of :: "point_xyzlt \<Rightarrow> cloud_point" where
  "cloud_point_of p = \<lparr>cp_x = pt_x p, cp_y = pt_y p, cp_z = pt_z p, cp_reflectivity = pt_intensity p,
     cp_tag = pt_tag p, cp_line = pt_line p, cp_timestamp = f64 (of_nat (unat (pt_offset_time p)))\<rparr>"

definition InitPointcloud2Msg :: "string \<Rightarrow> storage_packet \<Rightarrow> (cloud_msg \<times> u64) res" where
  "InitPointcloud2Msg frame pkg =
     (if length (sp_points pkg) < unat (sp_points_num pkg) then Inl OutOfBounds
      else let ts = (if sp_points pkg \<noteq> [] then sp_base_time pkg else 0) in
        Inr ((InitPointcloud2MsgHeader frame)\<lparr>cl_width := sp_points_num pkg,
          cl_row_step := sp_points_num pkg * sizeof_cloud_point, cl_stamp := ts,
          cl_points := map cloud_point_of (take (unat (sp_points_num pkg)) (sp_points pkg))\<rparr>, ts))"

text \<open>
  The custom message narrows the device's handle, an IP address, to a byte.
\<close>

definition InitCustomMsg :: "string \<Rightarrow> lds \<Rightarrow> storage_packet \<Rightarrow> nat \<Rightarrow> custom_msg" where
  "InitCustomMsg frame s pkg i = (let ts = (if sp_points pkg \<noteq> [] then sp_base_time pkg else 0) in
     \<lparr>cu_frame_id = frame, cu_stamp = ts, cu_timebase = ts, cu_point_num = sp_points_num pkg,
      cu_lidar_id = (if lidar_type (lidars s ! i) = kLivoxLidarType
                     then ucast (handle (lidars s ! i)) else 0),
      cu_points = []\<rparr>)"

definition custom_point_of :: "u64 \<Rightarrow> point_xyzlt \<Rightarrow> custom_point res" where
  "custom_point_of base p = bindR (fp_to_unsigned (pt_intensity p)) (\<lambda>r.
     Inr \<lparr>cu_offset_time = ucast (pt_offset_time p - base), cu_x = pt_x p, cu_y = pt_y p, cu_z = pt_z p,
       cu_reflectivity = r, cu_tag = pt_tag p, cu_line = pt_line p\<rparr>)"

fun custom_points :: "u64 \<Rightarrow> point_xyzlt list \<Rightarrow> custom_point list res" where
  "custom_points base [] = Inr []"
| "custom_points base (p # ps) = bindR (custom_point_of base p) (\<lambda>c.
     bindR (custom_points base ps) (\<lambda>cs. Inr (c # cs)))"

definition FillPointsToCustomMsg :: "custom_msg \<Rightarrow> storage_packet \<Rightarrow> custom_msg res" where
  "FillPointsToCustomMsg msg pkg =
     (if length (sp_points pkg) < unat (sp_points_num pkg) then Inl OutOfBounds
      else bindR (custom_points (sp_base_time pkg) (take (unat (sp_points_num pkg)) (sp_points pkg)))
        (\<lambda>cs. Inr (msg\<lparr>cu_points := cu_points msg @ cs\<rparr>)))"

definition InitImuMsg :: "imu_data \<Rightarrow> imu_msg" where
  "InitImuMsg d = \<lparr>im_frame_id = ''livox_frame'', im_stamp = imu_time_stamp d, im_angular = (gyro_x d, gyro_y d, gyro_z d),
     im_linear = (acc_x d, acc_y d, acc_z d)\<rparr>"

section \<open>Publishers\<close>

text \<open>The values of transfer_format and output_type.\<close>

definition kPointCloud2Msg :: u8 where "kPointCloud2Msg = 0"
definition kLivoxCustomMsg :: u8 where "kLivoxCustomMsg = 1"
definition kPclPxyziMsg :: u8 where "kPclPxyziMsg = 2"
definition kLivoxImuMsg :: u8 where "kLivoxImuMsg = 3"
definition kOutputToRos :: u8 where "kOutputToRos = 0"
definition kMinEthPacketQueueSize :: nat where "kMinEthPacketQueueSize = 32"

record publisher =
  pub_type :: u8
  pub_topic :: string
  pub_depth :: nat

text \<open>The mapping of the shared time stamp: not there, failed, or at an address.\<close>

datatype shm = ShmNull | ShmFailed | ShmAt u64

record lddc =
  transfer_format :: u8
  use_multi_topic :: bool
  output_type :: u8
  frame_id :: string
  pointt :: shm
  timeshare_initialized :: bool
  timeshare_fd :: int
  private_pub :: "publisher option list"
  global_pub :: "publisher option"
  private_imu_pub :: "publisher option list"
  global_imu_pub :: "publisher option"
  published :: "(publisher \<times> ros_msg) list"

definition CreatePublisher :: "u8 \<Rightarrow> string \<Rightarrow> nat \<Rightarrow> publisher option" where
  "CreatePublisher msg_type topic depth =
     (if msg_type = kPointCloud2Msg \<or> msg_type = kLivoxCustomMsg \<or> msg_type = kLivoxImuMsg
      then Some \<lparr>pub_type = msg_type, pub_topic = topic, pub_depth = depth\<rparr> else None)"

text \<open>The address in network order, so its lowest byte is the first number.\<close>

definition IpNumToString :: "u32 \<Rightarrow> string" where
  "IpNumToString ip = dec_string (unat (ucast ip :: u8)) @ ''.'' @ dec_string (unat (ucast (drop_bit 8 ip) :: u8))
     @ ''.'' @ dec_string (unat (ucast (drop_bit 16 ip) :: u8)) @ ''.'' @ dec_string (unat (ucast (drop_bit 24 ip) :: u8))"

text \<open>find and replace the first period until there is none.\<close>

fun replace_first :: "string \<Rightarrow> string option" where
  "replace_first [] = None"
| "replace_first (c # cs) = (if c = CHR ''.'' then Some (CHR ''_'' # cs)
     else map_option (\<lambda>r. c # r) (replace_first cs))"

lemma replace_first_count: "replace_first s = Some r \<Longrightarrow> count_list r CHR ''.'' < count_list s CHR ''.''"
  by (induction s arbitrary: r) (auto split: if_splits)

function ReplacePeriodByUnderline :: "string \<Rightarrow> string" where
  "ReplacePeriodByUnderline s = (case replace_first s of None \<Rightarrow> s
     | Some r \<Rightarrow> ReplacePeriodByUnderline r)"
  by pat_completeness auto
termination
  by (relation "measure (\<lambda>s. count_list s CHR ''.'')") (simp_all add: replace_first_count)

declare ReplacePeriodByUnderline.simps [simp del]

text \<open>The publisher of a device and the state in which it is remembered.\<close>

definition GetCurrentPublisher :: "lds \<Rightarrow> nat \<Rightarrow> lddc \<Rightarrow> (publisher option \<times> lddc) res" where
  "GetCurrentPublisher s i l = (if use_multi_topic l then
      if length (private_pub l) \<le> i \<or> length (lidars s) \<le> i then Inl OutOfBounds else
      (case private_pub l ! i of Some p \<Rightarrow> Inr (Some p, l)
       | None \<Rightarrow> let p = CreatePublisher (transfer_format l)
             (''livox/lidar_'' @ ReplacePeriodByUnderline (IpNumToString (handle (lidars s ! i))))
             (kMinEthPacketQueueSize * 2)
           in Inr (p, l\<lparr>private_pub := (private_pub l)[i := p]\<rparr>))
    else (case global_pub l of Some p \<Rightarrow> Inr (Some p, l)
       | None \<Rightarrow> let p = CreatePublisher (transfer_format l) ''livox/lidar'' (kMinEthPacketQueueSize * 8)
           in Inr (p, l\<lparr>global_pub := p\<rparr>)))"

definition GetCurrentImuPublisher :: "lds \<Rightarrow> nat \<Rightarrow> lddc \<Rightarrow> (publisher option \<times> lddc) res" where
  "GetCurrentImuPublisher s i l = (if use_multi_topic l then
      if length (private_imu_pub l) \<le> i \<or> length (lidars s) \<le> i then Inl OutOfBounds else
      (case private_imu_pub l ! i of Some p \<Rightarrow> Inr (Some p, l)
       | None \<Rightarrow> let p = CreatePublisher kLivoxImuMsg
             (''livox/imu_'' @ ReplacePeriodByUnderline (IpNumToString (handle (lidars s ! i))))
             (kMinEthPacketQueueSize * 2)
           in Inr (p, l\<lparr>private_imu_pub := (private_imu_pub l)[i := p]\<rparr>))
    else (case global_imu_pub l of Some p \<Rightarrow> Inr (Some p, l)
       | None \<Rightarrow> let p = CreatePublisher kLivoxImuMsg ''livox/imu'' (kMinEthPacketQueueSize * 8)
           in Inr (p, l\<lparr>global_imu_pub := p\<rparr>)))"

text \<open>Publishing through a pointer cast to the publisher of the message's type.\<close>

definition publish_as :: "u8 \<Rightarrow> ros_msg \<Rightarrow> (publisher option \<times> lddc) \<Rightarrow> lddc res" where
  "publish_as t msg pl = (case pl of (p, l) \<Rightarrow>
     if output_type l = kOutputToRos then
       (case p of Some pub \<Rightarrow> if pub_type pub = t then Inr (l\<lparr>published := published l @ [(pub, msg)]\<rparr>)
            else Inl NullDeref
        | None \<Rightarrow> Inl NullDeref)
     else Inr l)"

definition PublishPointcloud2Data :: "lds \<Rightarrow> nat \<Rightarrow> cloud_msg \<Rightarrow> lddc \<Rightarrow> lddc res" where
  "PublishPointcloud2Data s i cloud l =
     bindR (GetCurrentPublisher s i l) (publish_as kPointCloud2Msg (CloudMsg cloud))"

definition PublishCustomPointData :: "lds \<Rightarrow> nat \<Rightarrow> custom_msg \<Rightarrow> lddc \<Rightarrow> lddc res" where
  "PublishCustomPointData s i msg l =
     bindR (GetCurrentPublisher s i l) (publish_as kLivoxCustomMsg (CustomMsg msg))"

text \<open>Writing the shared time stamp; the failed mapping is not a null pointer.\<close>

definition write_timestamp :: "u64 \<Rightarrow> lddc \<Rightarrow> lddc res" where
  "write_timestamp t l = (case pointt l of ShmNull \<Rightarrow> Inr l | ShmFailed \<Rightarrow> Inl Undefined
     | ShmAt _ \<Rightarrow> Inr (l\<lparr>pointt := ShmAt t\<rparr>))"

section \<open>Draining a queue\<close>

lemma pop_update_decreases:
  assumes "\<not> QueueIsEmpty q"
  shows "unat (QueueUsedSize (QueuePopUpdate q)) < unat (QueueUsedSize q)"
  using unat_pred_diff[of "rd_idx q" "wr_idx q"] assms
  by (simp add: QueueUsedSize_def QueuePopUpdate_def QueueIsEmpty_def)

lemma QueuePop_nonempty:
  "QueuePop q = Inr (p, q') \<Longrightarrow> \<not> QueueIsEmpty q \<Longrightarrow> (\<exists>x. p = Some x) \<and> q' = QueuePopUpdate q"
  by (auto simp: QueuePop_def QueuePrePop_def bindR_eq_Inr split: if_splits)

text \<open>What the loops of both formats share: take packets and hand the non-empty ones on.\<close>

function drain_queue :: "(storage_packet \<Rightarrow> lddc \<Rightarrow> lddc res) \<Rightarrow> lddc \<Rightarrow> storage_packet lidar_queue \<Rightarrow>
    (lddc \<times> storage_packet lidar_queue) res" where
  "drain_queue f l q = (if QueueIsEmpty q then Inr (l, q)
     else bindR (QueuePop q) (\<lambda>r. case fst r of
         None \<Rightarrow> Inr (l, q)
       | Some pkg \<Rightarrow> if sp_points pkg = [] then drain_queue f l (snd r)
           else bindR (f pkg l) (\<lambda>l'. drain_queue f l' (snd r))))"
  by pat_completeness auto
termination
  by (relation "measure (\<lambda>(f, l, q). unat (QueueUsedSize q))")
    (auto dest!: QueuePop_nonempty simp: pop_update_decreases)

declare drain_queue.simps [simp del]

definition publish_cloud :: "lds \<Rightarrow> nat \<Rightarrow> storage_packet \<Rightarrow> lddc \<Rightarrow> lddc res" where
  "publish_cloud s i pkg l = bindR (InitPointcloud2Msg (frame_id l) pkg) (\<lambda>(cloud, ts).
     bindR (PublishPointcloud2Data s i cloud l) (write_timestamp ts))"

definition PublishPointcloud2 :: "lds \<Rightarrow> nat \<Rightarrow> lddc \<Rightarrow> storage_packet lidar_queue \<Rightarrow>
    (lddc \<times> storage_packet lidar_queue) res" where
  "PublishPointcloud2 s i = drain_queue (publish_cloud s i)"

definition publish_custom :: "lds \<Rightarrow> nat \<Rightarrow> storage_packet \<Rightarrow> lddc \<Rightarrow> lddc res" where
  "publish_custom s i pkg l = bindR (FillPointsToCustomMsg (InitCustomMsg (frame_id l) s pkg i) pkg) (\<lambda>msg.
     bindR (write_timestamp (if sp_points pkg \<noteq> [] then sp_base_time pkg else 0) l)
       (PublishCustomPointData s i msg))"

definition PublishCustomPointcloud :: "lds \<Rightarrow> nat \<Rightarrow> lddc \<Rightarrow> storage_packet lidar_queue \<Rightarrow>
    (lddc \<times> storage_packet lidar_queue) res" where
  "PublishCustomPointcloud s i = drain_queue (publish_custom s i)"

text \<open>In the ROS 2 build the third format only logs an error and returns.\<close>

definition PublishPclMsg :: "lddc \<Rightarrow> storage_packet lidar_queue \<Rightarrow> (lddc \<times> storage_packet lidar_queue) res" where
  "PublishPclMsg l q = Inr (l, q)"

definition init_timeshare :: "int \<Rightarrow> bool \<Rightarrow> lddc \<Rightarrow> lddc" where
  "init_timeshare fd mapped l = (if timeshare_initialized l then l
     else if fd = - 1 then l\<lparr>timeshare_fd := - 1, timeshare_initialized := False\<rparr>
     else if \<not> mapped then l\<lparr>pointt := ShmFailed, timeshare_fd := - 1, timeshare_initialized := False\<rparr>
     else l\<lparr>pointt := ShmAt 0, timeshare_fd := fd, timeshare_initialized := True\<rparr>)"

text \<open>The polling loop, at most n iterations; None when it has not ended by then.\<close>

fun poll_loop :: "nat \<Rightarrow> lds \<Rightarrow> nat \<Rightarrow> lddc \<Rightarrow> storage_packet lidar_queue \<Rightarrow>
    (lddc \<times> storage_packet lidar_queue) res option" where
  "poll_loop 0 s i l q = None"
| "poll_loop (Suc n) s i l q = (if request_exit s \<or> QueueIsEmpty q then Some (Inr (l, q))
     else case (if transfer_format l = kPointCloud2Msg then PublishPointcloud2 s i l q
                else if transfer_format l = kLivoxCustomMsg then PublishCustomPointcloud s i l q
                else if transfer_format l = kPclPxyziMsg then PublishPclMsg l q
                else Inr (l, q)) of
       Inl e \<Rightarrow> Some (Inl e)
     | Inr (l', q') \<Rightarrow> poll_loop n s i l' q')"

definition PollingLidarPointCloudData :: "nat \<Rightarrow> int \<Rightarrow> bool \<Rightarrow> lds \<Rightarrow> nat \<Rightarrow> lddc \<Rightarrow>
    (lddc \<times> lds) res option" where
  "PollingLidarPointCloudData n fd mapped s i l = (if length (lidars s) \<le> i then Some (Inl OutOfBounds) else
     let d = lidars s ! i in
     if storage (pcd_data d) = Nullptr then Some (Inr (l, s))
     else map_option (\<lambda>r. bindR r (\<lambda>(l', q). Inr (l', s\<lparr>lidars := (lidars s)[i := d\<lparr>pcd_data := q\<rparr>]\<rparr>)))
       (poll_loop n s i (init_timeshare fd mapped l) (pcd_data d)))"

definition PublishImuData :: "lds \<Rightarrow> nat \<Rightarrow> lddc \<Rightarrow> imu_data list \<Rightarrow> (lddc \<times> imu_data list) res" where
  "PublishImuData s i l q = (case imu_Pop q of None \<Rightarrow> Inr (l, q)
     | Some (d, q') \<Rightarrow> bindR (GetCurrentImuPublisher s i l) (\<lambda>pl.
         bindR (publish_as kLivoxImuMsg (ImuMsg (InitImuMsg d)) pl) (\<lambda>l'. Inr (l', q'))))"

section \<open>Publishing in order\<close>

definition pub_ready :: "u8 \<Rightarrow> lds \<Rightarrow> nat \<Rightarrow> lddc \<Rightarrow> bool" where
  "pub_ready fmt s i l \<longleftrightarrow> transfer_format l = fmt \<and> fmt \<in> {kPointCloud2Msg, kLivoxCustomMsg}
     \<and> output_type l = kOutputToRos \<and> pointt l \<noteq> ShmFailed
     \<and> (if use_multi_topic l then i < length (private_pub l) \<and> i < length (lidars s)
          \<and> (\<forall>p. private_pub l ! i = Some p \<longrightarrow> pub_type p = fmt)
        else (\<forall>p. global_pub l = Some p \<longrightarrow> pub_type p = fmt))"

lemma GetCurrentPublisher_ready:
  assumes "pub_ready fmt s i l"
  shows "\<exists>p l'. GetCurrentPublisher s i l = Inr (Some p, l') \<and> pub_type p = fmt \<and> pub_ready fmt s i l'
    \<and> published l' = published l \<and> frame_id l' = frame_id l \<and> pointt l' = pointt l"
proof -
  have fmt: "CreatePublisher fmt t n = Some \<lparr>pub_type = fmt, pub_topic = t, pub_depth = n\<rparr>" for t n
    using assms by (auto simp: pub_ready_def CreatePublisher_def)
  show ?thesis
  proof (cases "use_multi_topic l")
    case True
    note b = assms[unfolded pub_ready_def] True
    show ?thesis
    proof (cases "private_pub l ! i")
      case None
      then show ?thesis using b by (simp add: GetCurrentPublisher_def fmt Let_def pub_ready_def)
    next
      case (Some p)
      then show ?thesis using b by (simp add: GetCurrentPublisher_def pub_ready_def)
    qed
  next
    case False
    note b = assms[unfolded pub_ready_def] False
    show ?thesis
    proof (cases "global_pub l")
      case None
      then show ?thesis using b by (simp add: GetCurrentPublisher_def fmt Let_def pub_ready_def)
    next
      case (Some p)
      then show ?thesis using b by (simp add: GetCurrentPublisher_def pub_ready_def)
    qed
  qed
qed

lemma publish_ready:
  assumes "pub_ready fmt s i l"
  shows "\<exists>l' p. bindR (GetCurrentPublisher s i l) (publish_as fmt msg) = Inr l' \<and> pub_ready fmt s i l'
    \<and> published l' = published l @ [(p, msg)] \<and> frame_id l' = frame_id l \<and> pointt l' = pointt l"
proof -
  obtain p l1 where p: "GetCurrentPublisher s i l = Inr (Some p, l1)" "pub_type p = fmt" "pub_ready fmt s i l1"
    "published l1 = published l" "frame_id l1 = frame_id l" "pointt l1 = pointt l"
    using GetCurrentPublisher_ready[OF assms] by blast
  have "output_type l1 = kOutputToRos" using p(3) by (simp add: pub_ready_def)
  then have "publish_as fmt msg (Some p, l1) = Inr (l1\<lparr>published := published l1 @ [(p, msg)]\<rparr>)"
    using p(2) by (simp add: publish_as_def)
  then show ?thesis using p by (auto simp: pub_ready_def)
qed

lemma write_ready:
  "pub_ready fmt s i l \<Longrightarrow> \<exists>l'. write_timestamp t l = Inr l' \<and> pub_ready fmt s i l'
     \<and> published l' = published l \<and> frame_id l' = frame_id l"
  by (cases "pointt l") (auto simp: write_timestamp_def pub_ready_def)

definition complete :: "storage_packet \<Rightarrow> bool" where
  "complete p \<longleftrightarrow> length (sp_points p) = unat (sp_points_num p)"

lemma QueuePop_complete:
  assumes "lq_inv q" "lq_contents q = p # ps" "complete p"
  shows "QueuePop q = Inr (Some p, QueuePopUpdate q)"
  using queue_at_spec[OF assms(1,2)] lq_empty_iff[OF assms(1)] assms(2,3)
  by (simp add: QueuePop_def QueuePrePop_def complete_def)

lemma drain_queue_spec:
  assumes "lq_inv q" "\<forall>p \<in> set (lq_contents q). complete p" "I l"
    and step: "\<And>p l. p \<in> set (lq_contents q) \<Longrightarrow> sp_points p \<noteq> [] \<Longrightarrow> I l \<Longrightarrow> \<exists>l'. f p l = Inr l' \<and> I l' \<and> out l' = out l @ [g p]"
  shows "\<exists>l' q'. drain_queue f l q = Inr (l', q') \<and> lq_inv q' \<and> lq_contents q' = [] \<and> I l'
    \<and> out l' = out l @ map g (filter (\<lambda>p. sp_points p \<noteq> []) (lq_contents q))"
  using assms
proof (induction "lq_contents q" arbitrary: q l)
  case Nil
  then show ?case using lq_empty_iff[OF Nil.prems(1)] by (simp add: drain_queue.simps)
next
  case (Cons p ps)
  note c = Cons.hyps(2)[symmetric]
  have pop: "QueuePop q = Inr (Some p, QueuePopUpdate q)"
    using QueuePop_complete[OF Cons.prems(1) c] Cons.prems(2) c by simp
  have r: "lq_inv (QueuePopUpdate q)" "lq_contents (QueuePopUpdate q) = ps"
    using queue_at_spec[OF Cons.prems(1) c] by simp_all
  have ne: "\<not> QueueIsEmpty q" using lq_empty_iff[OF Cons.prems(1)] c by simp
  have ih: "\<exists>l'' q''. drain_queue f l' (QueuePopUpdate q) = Inr (l'', q'') \<and> lq_inv q'' \<and> lq_contents q'' = [] \<and> I l''
      \<and> out l'' = out l' @ map g (filter (\<lambda>p. sp_points p \<noteq> []) ps)" if "I l'" for l'
    using Cons.hyps(1)[OF r(2)[symmetric] r(1) _ that] Cons.prems(2,4) r(2) c by simp
  show ?case
  proof (cases "sp_points p = []")
    case True
    then show ?thesis using ih[OF Cons.prems(3)] pop ne c by (subst drain_queue.simps) simp
  next
    case False
    obtain l1 where l1: "f p l = Inr l1" "I l1" "out l1 = out l @ [g p]"
      using Cons.prems(4)[of p l] Cons.prems(3) c False by auto
    show ?thesis using ih[OF l1(2)] pop ne c l1 False by (subst drain_queue.simps) simp
  qed
qed

definition cloud_of :: "string \<Rightarrow> storage_packet \<Rightarrow> cloud_msg" where
  "cloud_of frame p = (InitPointcloud2MsgHeader frame)\<lparr>cl_width := sp_points_num p,
     cl_row_step := sp_points_num p * sizeof_cloud_point, cl_stamp := sp_base_time p,
     cl_points := map cloud_point_of (sp_points p)\<rparr>"

lemma publish_cloud_ready:
  assumes "pub_ready kPointCloud2Msg s i l" "complete p" "sp_points p \<noteq> []"
  shows "\<exists>l'. publish_cloud s i p l = Inr l' \<and> pub_ready kPointCloud2Msg s i l' \<and> frame_id l' = frame_id l
    \<and> map snd (published l') = map snd (published l) @ [CloudMsg (cloud_of (frame_id l) p)]"
proof -
  have m: "InitPointcloud2Msg (frame_id l) p = Inr (cloud_of (frame_id l) p, sp_base_time p)"
    using assms(2,3) by (simp add: InitPointcloud2Msg_def cloud_of_def complete_def Let_def)
  obtain l1 x where l1: "PublishPointcloud2Data s i (cloud_of (frame_id l) p) l = Inr l1"
    "pub_ready kPointCloud2Msg s i l1" "published l1 = published l @ [(x, CloudMsg (cloud_of (frame_id l) p))]"
    "frame_id l1 = frame_id l"
    using publish_ready[OF assms(1)] unfolding PublishPointcloud2Data_def by blast
  show ?thesis using write_ready[OF l1(2), of "sp_base_time p"] l1 m
    by (auto simp: publish_cloud_def)
qed

lemma cloud_drain:
  assumes "lq_inv q" "\<forall>p \<in> set (lq_contents q). complete p" "pub_ready kPointCloud2Msg s i l"
  shows "\<exists>l' q'. PublishPointcloud2 s i l q = Inr (l', q') \<and> lq_inv q' \<and> lq_contents q' = []
    \<and> pub_ready kPointCloud2Msg s i l'
    \<and> map snd (published l') = map snd (published l)
        @ map (\<lambda>p. CloudMsg (cloud_of (frame_id l) p)) (filter (\<lambda>p. sp_points p \<noteq> []) (lq_contents q))"
proof -
  let ?I = "\<lambda>m. pub_ready kPointCloud2Msg s i m \<and> frame_id m = frame_id l"
  have "\<exists>l' q'. drain_queue (publish_cloud s i) l q = Inr (l', q') \<and> lq_inv q' \<and> lq_contents q' = [] \<and> ?I l'
    \<and> map snd (published l') = map snd (published l)
        @ map (\<lambda>p. CloudMsg (cloud_of (frame_id l) p)) (filter (\<lambda>p. sp_points p \<noteq> []) (lq_contents q))"
  proof (rule drain_queue_spec[OF assms(1,2), where I = ?I and out = "\<lambda>l. map snd (published l)"])
    fix p m assume p: "p \<in> set (lq_contents q)" "sp_points p \<noteq> []" "?I m"
    then show "\<exists>l'. publish_cloud s i p m = Inr l' \<and> ?I l'
        \<and> map snd (published l') = map snd (published m) @ [CloudMsg (cloud_of (frame_id l) p)]"
      using publish_cloud_ready[of s i m p] assms(2) by auto
  qed (use assms(3) in simp)
  then show ?thesis unfolding PublishPointcloud2_def by blast
qed

lemma custom_points_total:
  "(\<forall>p \<in> set ps. \<exists>r :: u8. fp_to_unsigned (pt_intensity p) = Inr r) \<Longrightarrow>
    \<exists>cs. custom_points base ps = Inr cs \<and> length cs = length ps
      \<and> (\<forall>i < length ps. cu_offset_time (cs ! i) = ucast (pt_offset_time (ps ! i) - base))"
proof (induction ps)
  case (Cons p ps)
  obtain r :: u8 where r: "fp_to_unsigned (pt_intensity p) = Inr r" using Cons.prems by auto
  obtain cs where cs: "custom_points base ps = Inr cs" "length cs = length ps"
    "\<forall>i < length ps. cu_offset_time (cs ! i) = ucast (pt_offset_time (ps ! i) - base)"
    using Cons by auto
  show ?case using r cs by (auto simp: custom_point_of_def nth_Cons split: nat.splits)
qed simp

text \<open>
  C17 publish_in_order: in point cloud format the driver publishes one message per stored packet
  that has points, in the order the packets were stored, and leaves the queue
  empty; the polling loop ends after at most two rounds.
\<close>
theorem publish_in_order:
  assumes "lq_inv q" "\<forall>p \<in> set (lq_contents q). complete p" "pub_ready kPointCloud2Msg s i l"
    "\<not> request_exit s"
  shows "\<exists>l' q'. poll_loop (Suc (Suc n)) s i l q = Some (Inr (l', q')) \<and> lq_contents q' = []
    \<and> map snd (published l') = map snd (published l)
        @ map (\<lambda>p. CloudMsg (cloud_of (frame_id l) p)) (filter (\<lambda>p. sp_points p \<noteq> []) (lq_contents q))"
proof (cases "QueueIsEmpty q")
  case True
  then show ?thesis using lq_empty_iff[OF assms(1)] by auto
next
  case False
  obtain l' q' where d: "PublishPointcloud2 s i l q = Inr (l', q')" "lq_inv q'" "lq_contents q' = []"
    "map snd (published l') = map snd (published l)
        @ map (\<lambda>p. CloudMsg (cloud_of (frame_id l) p)) (filter (\<lambda>p. sp_points p \<noteq> []) (lq_contents q))"
    using cloud_drain[OF assms(1,2,3)] by blast
  have "transfer_format l = kPointCloud2Msg" using assms(3) by (simp add: pub_ready_def)
  then show ?thesis using d False assms(4) lq_empty_iff[OF d(2)] by simp
qed

definition new_lddc :: "u8 \<Rightarrow> lddc" where
  "new_lddc fmt = \<lparr>transfer_format = fmt, use_multi_topic = False, output_type = 0, frame_id = ''livox_frame'',
     pointt = ShmNull, timeshare_initialized = False, timeshare_fd = - 1, private_pub = replicate 32 None,
     global_pub = None, private_imu_pub = replicate 32 None, global_imu_pub = None, published = []\<rparr>"

definition one_packet_queue :: "storage_packet lidar_queue" where
  "one_packet_queue = \<lparr>storage = Live [\<lparr>sp_base_time = 9, sp_points_num = 1, sp_points = [\<lparr>pt_x = Fin 1,
      pt_y = Fin 2, pt_z = Fin 3, pt_intensity = Fin 4, pt_tag = 5, pt_line = 6, pt_offset_time = 9\<rparr>]\<rparr>],
     rd_idx = 3, wr_idx = 4, q_mask = 0, q_size = 1\<rparr>"

theorem publish_in_order_witness:
  "\<exists>l' q'. poll_loop 2 idle_lds 0 (new_lddc 0) one_packet_queue = Some (Inr (l', q'))
     \<and> lq_contents q' = [] \<and> length (published l') = 1"
proof -
  have i: "lq_inv one_packet_queue"
    by (auto simp: lq_inv_def ring_ok_def one_packet_queue_def intro!: exI[of _ 0])
  have c: "lq_contents one_packet_queue = [\<lparr>sp_base_time = 9, sp_points_num = 1, sp_points = [\<lparr>pt_x = Fin 1,
      pt_y = Fin 2, pt_z = Fin 3, pt_intensity = Fin 4, pt_tag = 5, pt_line = 6, pt_offset_time = 9\<rparr>]\<rparr>]"
    by (simp add: lq_contents_def one_packet_queue_def QueueUsedSize_def)
  have r: "pub_ready kPointCloud2Msg idle_lds 0 (new_lddc 0)" "\<not> request_exit idle_lds" "published (new_lddc 0) = []"
    by (simp_all add: pub_ready_def new_lddc_def kPointCloud2Msg_def kOutputToRos_def idle_lds_def)
  obtain l' q' where p: "poll_loop (Suc (Suc 0)) idle_lds 0 (new_lddc 0) one_packet_queue = Some (Inr (l', q'))"
    "lq_contents q' = []" "length (map snd (published l')) = 1"
    using publish_in_order[OF i _ r(1,2), of 0] c r(3) by (auto simp: complete_def)
  then show ?thesis by (auto simp: numeral_2_eq_2)
qed

text \<open>
  poll_never_ends: with any transfer format other than the two supported ones the polling loop
  never returns once a packet is queued: no number of rounds is enough.
\<close>
theorem poll_never_ends:
  assumes "transfer_format l \<notin> {kPointCloud2Msg, kLivoxCustomMsg}" "\<not> request_exit s" "\<not> QueueIsEmpty q"
  shows "poll_loop n s i l q = None"
proof (induction n)
  case (Suc n)
  then show ?case using assms by (simp add: PublishPclMsg_def)
qed simp

theorem poll_never_ends_witness:
  "poll_loop 1000 idle_lds 0 (new_lddc 2) one_packet_queue = None"
  by (rule poll_never_ends)
    (simp_all add: new_lddc_def kPointCloud2Msg_def kLivoxCustomMsg_def idle_lds_def QueueIsEmpty_def one_packet_queue_def)

text \<open>
  custom_offsets: the custom message holds, for every point of a packet whose intensities fit a
  byte, the time since the packet's base time, exact as long as it is below
  2^32 nanoseconds; its lidar_id is only the first number of the device's IP
  address.
\<close>
theorem custom_offsets:
  assumes "complete pkg" "\<forall>p \<in> set (sp_points pkg). \<exists>r :: u8. fp_to_unsigned (pt_intensity p) = Inr r"
    and "\<forall>p \<in> set (sp_points pkg). sp_base_time pkg \<le> pt_offset_time p
          \<and> unat (pt_offset_time p) - unat (sp_base_time pkg) < 2 ^ 32"
    and "lidar_type (lidars s ! i) = kLivoxLidarType"
  shows "\<exists>msg. FillPointsToCustomMsg (InitCustomMsg frame s pkg i) pkg = Inr msg
    \<and> length (cu_points msg) = unat (cu_point_num msg) \<and> cu_lidar_id msg = ucast (handle (lidars s ! i))
    \<and> (\<forall>k < length (cu_points msg). unat (cu_offset_time (cu_points msg ! k))
          = unat (pt_offset_time (sp_points pkg ! k)) - unat (sp_base_time pkg))"
proof -
  obtain cs where cs: "custom_points (sp_base_time pkg) (sp_points pkg) = Inr cs" "length cs = length (sp_points pkg)"
    "\<forall>k < length (sp_points pkg). cu_offset_time (cs ! k) = ucast (pt_offset_time (sp_points pkg ! k) - sp_base_time pkg)"
    using custom_points_total[OF assms(2)] by blast
  have "unat (cu_offset_time (cs ! k)) = unat (pt_offset_time (sp_points pkg ! k)) - unat (sp_base_time pkg)"
    if k: "k < length (sp_points pkg)" for k
  proof -
    have b: "sp_base_time pkg \<le> pt_offset_time (sp_points pkg ! k)"
      "unat (pt_offset_time (sp_points pkg ! k)) - unat (sp_base_time pkg) < 2 ^ 32"
      using assms(3) k by auto
    then show ?thesis using cs(3) k
      by (simp add: unsigned_ucast_eq unat_sub take_bit_nat_eq_self_iff)
  qed
  then show ?thesis using cs(1,2) assms(1,4)
    by (simp add: FillPointsToCustomMsg_def InitCustomMsg_def complete_def Let_def)
qed

theorem custom_offsets_witness:
  "\<exists>msg. FillPointsToCustomMsg (InitCustomMsg ''f'' (idle_lds\<lparr>lidars := [idle_device\<lparr>handle := 0x3201a8c0\<rparr>]\<rparr>)
      \<lparr>sp_base_time = 9, sp_points_num = 1, sp_points = [\<lparr>pt_x = Fin 1, pt_y = Fin 2, pt_z = Fin 3,
        pt_intensity = Fin 4, pt_tag = 5, pt_line = 6, pt_offset_time = 11\<rparr>]\<rparr> 0)
      \<lparr>sp_base_time = 9, sp_points_num = 1, sp_points = [\<lparr>pt_x = Fin 1, pt_y = Fin 2, pt_z = Fin 3,
        pt_intensity = Fin 4, pt_tag = 5, pt_line = 6, pt_offset_time = 11\<rparr>]\<rparr> = Inr msg
    \<and> cu_lidar_id msg = 192 \<and> unat (cu_offset_time (cu_points msg ! 0)) = 2"
proof -
  let ?p = "\<lparr>sp_base_time = 9, sp_points_num = 1, sp_points = [\<lparr>pt_x = Fin 1, pt_y = Fin 2, pt_z = Fin 3,
        pt_intensity = Fin 4, pt_tag = 5, pt_line = 6, pt_offset_time = 11\<rparr>]\<rparr> :: storage_packet"
  have a: "complete ?p" "\<forall>p \<in> set (sp_points ?p). \<exists>r :: u8. fp_to_unsigned (pt_intensity p) = Inr r"
    "\<forall>p \<in> set (sp_points ?p). sp_base_time ?p \<le> pt_offset_time p
          \<and> unat (pt_offset_time p) - unat (sp_base_time ?p) < 2 ^ 32"
    "lidar_type (lidars (idle_lds\<lparr>lidars := [idle_device\<lparr>handle := 0x3201a8c0\<rparr>]\<rparr>) ! 0) = kLivoxLidarType"
    by (simp_all add: complete_def fp_to_unsigned_def rat_trunc_def idle_device_def kLivoxLidarType_def)
  show ?thesis using custom_offsets[OF a, of "''f''"] by (auto simp: InitCustomMsg_def FillPointsToCustomMsg_def bindR_eq_Inr Let_def)
qed

end
