(* ===== verification/Livox_Wakeup.thy ===== *)
theory Livox_Wakeup
  imports Livox_Lddc
begin

text \<open>
  The threads of the driver (edge/src/livox_ros_driver2/src): the publishing
  thread, which waits for the point cloud semaphore and then polls every
  device, and the thread that stores packets.  The first part models the
  distributing functions of lddc.cpp as they run alone; the second part runs
  the packet queues, PushLidarData and the polling loop of lddc.cpp in
  interleaved steps: a push writes the slot, advances the index and then signals
  the semaphore, a pop copies the packet and then advances the other index.
  Steps are atomic and seen in program order by the other thread.
\<close>

section \<open>The distributing functions\<close>

function PollingLidarImuData :: "lds \<Rightarrow> nat \<Rightarrow> lddc \<Rightarrow> imu_data list \<Rightarrow> (lddc \<times> imu_data list) res" where
  "PollingLidarImuData s i l q = (if request_exit s \<or> imu_Empty q then Inr (l, q)
     else bindR (PublishImuData s i l q) (\<lambda>(l', q'). PollingLidarImuData s i l' q'))"
  by pat_completeness auto
termination
  by (relation "measure (\<lambda>(s, i, l, q). length q)")
    (auto simp: PublishImuData_def imu_Pop_def imu_Empty_def bindR_eq_Inr split: list.splits)

declare PollingLidarImuData.simps [simp del]

text \<open>
  The devices from slot i on, those that are sampling.  None means that the
  polling of one of them has not ended within n rounds.
\<close>

fun distribute_clouds :: "nat \<Rightarrow> int \<Rightarrow> bool \<Rightarrow> nat list \<Rightarrow> lddc \<Rightarrow> lds \<Rightarrow> (lddc \<times> lds) res option" where
  "distribute_clouds n fd mapped [] l s = Some (Inr (l, s))"
| "distribute_clouds n fd mapped (i # is) l s = (if length (lidars s) \<le> i then Some (Inl OutOfBounds)
     else if connect_state (lidars s ! i) \<noteq> kConnectStateSampling then distribute_clouds n fd mapped is l s
     else case PollingLidarPointCloudData n fd mapped s i l of
         None \<Rightarrow> None
       | Some (Inl e) \<Rightarrow> Some (Inl e)
       | Some (Inr (l', s')) \<Rightarrow> distribute_clouds n fd mapped is l' s')"

text \<open>A call that waits for a semaphore at zero does not return: the result is None.\<close>

definition DistributePointCloudData :: "nat \<Rightarrow> int \<Rightarrow> bool \<Rightarrow> lddc \<Rightarrow> lds \<Rightarrow> (lddc \<times> lds) res option" where
  "DistributePointCloudData n fd mapped l s = (if request_exit s then Some (Inr (l, s))
     else case sem_Wait (pcd_semaphore s) of None \<Rightarrow> None
       | Some c \<Rightarrow> distribute_clouds n fd mapped [0..<lidar_count s] l (s\<lparr>pcd_semaphore := c\<rparr>))"

fun distribute_imu :: "nat list \<Rightarrow> lddc \<Rightarrow> lds \<Rightarrow> (lddc \<times> lds) res" where
  "distribute_imu [] l s = Inr (l, s)"
| "distribute_imu (i # is) l s = (if length (lidars s) \<le> i then Inl OutOfBounds
     else let d = lidars s ! i in
       if connect_state d \<noteq> kConnectStateSampling then distribute_imu is l s
       else bindR (PollingLidarImuData s i l (imu_queue d)) (\<lambda>(l', q).
         distribute_imu is l' (s\<lparr>lidars := (lidars s)[i := d\<lparr>imu_queue := q\<rparr>]\<rparr>)))"

definition DistributeImuData :: "lddc \<Rightarrow> lds \<Rightarrow> (lddc \<times> lds) res option" where
  "DistributeImuData l s = (if request_exit s then Some (Inr (l, s))
     else case sem_Wait (imu_semaphore s) of None \<Rightarrow> None
       | Some c \<Rightarrow> Some (distribute_imu [0..<lidar_count s] l (s\<lparr>imu_semaphore := c\<rparr>)))"

section \<open>The two threads\<close>

text \<open>A push in two parts: storing the packet and advancing the index.\<close>

definition queue_write :: "'a \<Rightarrow> 'a lidar_queue \<Rightarrow> 'a lidar_queue res" where
  "queue_write x q = (case storage q of Nullptr \<Rightarrow> Inl NullDeref | Freed \<Rightarrow> Inl UseAfterFree
     | Live b \<Rightarrow> if unat (wr_idx q AND q_mask q) < length b
         then Inr (q\<lparr>storage := Live (b[unat (wr_idx q AND q_mask q) := x])\<rparr>) else Inl OutOfBounds)"

definition queue_advance :: "'a lidar_queue \<Rightarrow> 'a lidar_queue" where
  "queue_advance q = q\<lparr>wr_idx := wr_idx q + 1\<rparr>"

lemma queue_put_steps: "queue_put x q = bindR (queue_write x q) (\<lambda>q'. Inr (queue_advance q'))"
  by (simp add: queue_put_def queue_write_def queue_advance_def split: heap_ptr.splits)

text \<open>Where the storing thread is: idle, in slot i with the packet stored, or before the signal.\<close>

datatype producer = Idle | Stored nat storage_packet | Unsignalled

text \<open>
  Where the publishing thread is: waiting for the semaphore, about to look at
  slot i, or in slot i with a packet copied that is still in the queue.
\<close>

datatype consumer = Waiting | At nat | Copied nat storage_packet

record driver =
  source :: lds
  producer :: producer
  consumer :: consumer
  accepted :: "nat \<Rightarrow> storage_packet list"
  taken :: "nat \<Rightarrow> storage_packet list"

definition device_queue :: "driver \<Rightarrow> nat \<Rightarrow> storage_packet lidar_queue" where
  "device_queue d i = pcd_data (lidars (source d) ! i)"

definition set_queue :: "nat \<Rightarrow> storage_packet lidar_queue \<Rightarrow> lds \<Rightarrow> lds" where
  "set_queue i q s = s\<lparr>lidars := (lidars s)[i := (lidars s ! i)\<lparr>pcd_data := q\<rparr>]\<rparr>"

text \<open>The queue a packet is offered to, created with the first packet.\<close>

definition offered_queue :: "(u32 \<Rightarrow> storage_packet list) \<Rightarrow> nat \<Rightarrow> lds \<Rightarrow> storage_packet lidar_queue res" where
  "offered_queue fresh i s = (if storage (pcd_data (lidars s ! i)) = Nullptr
     then bindR (CalculatePacketQueueSize (publish_freq s)) (\<lambda>n. InitQueue fresh n (pcd_data (lidars s ! i)))
     else Inr (pcd_data (lidars s ! i)))"

definition packet_of :: "point_packet \<Rightarrow> u64 \<Rightarrow> storage_packet" where
  "packet_of pk t = \<lparr>sp_base_time = t, sp_points_num = pp_points_num pk,
     sp_points = take (unat (pp_points_num pk)) (pp_points pk)\<rparr>"

inductive store_step :: "(u32 \<Rightarrow> storage_packet list) \<Rightarrow> driver \<Rightarrow> driver \<Rightarrow> bool" for fresh where
  store: "producer d = Idle \<Longrightarrow> i < length (lidars (source d)) \<Longrightarrow> packet_ok pk \<Longrightarrow>
    offered_queue fresh i (source d) = Inr q \<Longrightarrow> \<not> QueueIsFull q \<Longrightarrow> queue_write (packet_of pk t) q = Inr q' \<Longrightarrow>
    store_step fresh d (d\<lparr>source := set_queue i q' (source d), producer := Stored i (packet_of pk t)\<rparr>)"
| refuse: "producer d = Idle \<Longrightarrow> i < length (lidars (source d)) \<Longrightarrow>
    offered_queue fresh i (source d) = Inr q \<Longrightarrow> QueueIsFull q \<Longrightarrow>
    store_step fresh d (d\<lparr>source := set_queue i q (source d), producer := Unsignalled\<rparr>)"
| advance: "producer d = Stored i p \<Longrightarrow>
    store_step fresh d (d\<lparr>source := set_queue i (queue_advance (device_queue d i)) (source d),
      producer := Unsignalled, accepted := (accepted d)(i := accepted d i @ [p])\<rparr>)"
| signal: "producer d = Unsignalled \<Longrightarrow>
    store_step fresh d (d\<lparr>source := (source d)\<lparr>pcd_semaphore := signal_if_zero (pcd_semaphore (source d))\<rparr>,
      producer := Idle\<rparr>)"

definition pollable :: "driver \<Rightarrow> nat \<Rightarrow> bool" where
  "pollable d i \<longleftrightarrow> connect_state (lidars (source d) ! i) = kConnectStateSampling
     \<and> storage (device_queue d i) \<noteq> Nullptr \<and> \<not> QueueIsEmpty (device_queue d i)"

inductive publish_step :: "driver \<Rightarrow> driver \<Rightarrow> bool" where
  wait: "consumer d = Waiting \<Longrightarrow> sem_Wait (pcd_semaphore (source d)) = Some c \<Longrightarrow>
    publish_step d (d\<lparr>source := (source d)\<lparr>pcd_semaphore := c\<rparr>, consumer := At 0\<rparr>)"
| skip: "consumer d = At i \<Longrightarrow> i < lidar_count (source d) \<Longrightarrow> \<not> pollable d i \<Longrightarrow>
    publish_step d (d\<lparr>consumer := At (Suc i)\<rparr>)"
| copy: "consumer d = At i \<Longrightarrow> i < lidar_count (source d) \<Longrightarrow> pollable d i \<Longrightarrow>
    QueuePrePop (device_queue d i) = Inr (Some p) \<Longrightarrow> publish_step d (d\<lparr>consumer := Copied i p\<rparr>)"
| pop: "consumer d = Copied i p \<Longrightarrow>
    publish_step d (d\<lparr>source := set_queue i (QueuePopUpdate (device_queue d i)) (source d), consumer := At i,
      taken := (taken d)(i := taken d i @ [p])\<rparr>)"
| return: "consumer d = At i \<Longrightarrow> lidar_count (source d) \<le> i \<Longrightarrow> publish_step d (d\<lparr>consumer := Waiting\<rparr>)"

inductive reachable :: "(u32 \<Rightarrow> storage_packet list) \<Rightarrow> driver \<Rightarrow> driver \<Rightarrow> bool" for fresh d0 where
  start: "reachable fresh d0 d0"
| storing: "reachable fresh d0 d \<Longrightarrow> store_step fresh d d' \<Longrightarrow> reachable fresh d0 d'"
| publishing: "reachable fresh d0 d \<Longrightarrow> publish_step d d' \<Longrightarrow> reachable fresh d0 d'"

inductive_cases store_stepE: "store_step fresh d d'"
inductive_cases publish_stepE: "publish_step d d'"

text \<open>A driver at rest: queues not created yet, nobody inside a call.\<close>

definition at_rest :: "driver \<Rightarrow> bool" where
  "at_rest d \<longleftrightarrow> lds_ok (source d) \<and> lidar_count (source d) = kMaxSourceLidar
     \<and> (\<forall>i < kMaxSourceLidar. storage (device_queue d i) = Nullptr) \<and> producer d = Idle \<and> consumer d = Waiting
     \<and> (\<forall>i. accepted d i = [] \<and> taken d i = [])"

section \<open>The queue under split operations\<close>

lemma queue_write_spec:
  assumes "lq_inv q" "\<not> QueueIsFull q"
  shows "\<exists>q'. queue_write x q = Inr q' \<and> lq_inv q' \<and> lq_contents q' = lq_contents q \<and> \<not> QueueIsFull q'
    \<and> queue_at q' (wr_idx q') = Inr x"
proof -
  obtain k b where k: "storage q = Live b" "ring_ok k b (rd_idx q) (wr_idx q)"
    "q_size q = 2 ^ k" "q_mask q = mask k" "k < 32" "length b = 2 ^ k"
    "lq_contents q = ring_contents k b (rd_idx q) (wr_idx q)" "lq_capacity q = 2 ^ k"
    using lq_invE[OF assms(1)] by blast
  have room: "unat (wr_idx q - rd_idx q) < 2 ^ k"
    using assms(2) lq_full_iff[OF assms(1)] k(7,8) by simp
  have s: "unat (wr_idx q AND mask k) = slot k (wr_idx q)" by (simp add: slot_def)
  have ne: "slot k (rd_idx q + of_nat i) \<noteq> slot k (wr_idx q)" if "i < unat (wr_idx q - rd_idx q)" for i
    using slot_add_neq[of k i "unat (wr_idx q - rd_idx q)" "rd_idx q"] k(5) that room by simp
  let ?q = "q\<lparr>storage := Live (b[slot k (wr_idx q) := x])\<rparr>"
  have "queue_write x q = Inr ?q" using slot_less[of k "wr_idx q"] by (simp add: queue_write_def k s)
  moreover have "lq_inv ?q" using k(2-6) by (auto simp: lq_inv_def ring_ok_def)
  moreover have "lq_contents ?q = lq_contents q"
    using ne by (simp add: lq_contents_def k(1,4) QueueUsedSize_def slot_def)
  moreover have "\<not> QueueIsFull ?q" using assms(2) by (simp add: QueueIsFull_def)
  moreover have "queue_at ?q (wr_idx ?q) = Inr x"
    using slot_less[of k "wr_idx q"] by (simp add: queue_at_def k s)
  ultimately show ?thesis by blast
qed

lemma queue_advance_spec:
  assumes "lq_inv q" "\<not> QueueIsFull q" "queue_at q (wr_idx q) = Inr x"
  shows "lq_inv (queue_advance q)" "lq_contents (queue_advance q) = lq_contents q @ [x]"
proof -
  have "queue_put x q = Inr (queue_advance q)"
    using assms(3) by (auto simp: queue_put_def queue_at_def queue_advance_def split: heap_ptr.splits if_splits)
  then show "lq_inv (queue_advance q)" "lq_contents (queue_advance q) = lq_contents q @ [x]"
    using queue_put_spec[OF assms(1,2), of x] by auto
qed

lemma queue_pop_keeps_stored:
  assumes "lq_inv q" "lq_contents q = p # ps"
  shows "\<not> QueueIsFull q \<Longrightarrow> \<not> QueueIsFull (QueuePopUpdate q)"
    and "queue_at (QueuePopUpdate q) (wr_idx (QueuePopUpdate q)) = queue_at q (wr_idx q)"
proof -
  show "\<not> QueueIsFull q \<Longrightarrow> \<not> QueueIsFull (QueuePopUpdate q)"
    using queue_at_spec[OF assms] lq_full_iff[OF assms(1)] assms(2) lq_full_iff[of "QueuePopUpdate q"] by auto
  show "queue_at (QueuePopUpdate q) (wr_idx (QueuePopUpdate q)) = queue_at q (wr_idx q)"
    by (cases "storage q") (simp_all add: queue_at_def QueuePopUpdate_def)
qed

lemma device_queue_set [simp]:
  "i < length (lidars (source d)) \<Longrightarrow> device_queue (d\<lparr>source := set_queue i q (source d)\<rparr>) j
     = (if j = i then q else device_queue d j)"
  by (simp add: device_queue_def set_queue_def nth_list_update)

lemma device_queue_frame [simp]:
  "device_queue (d\<lparr>producer := p\<rparr>) = device_queue d"
  "device_queue (d\<lparr>consumer := c\<rparr>) = device_queue d"
  "device_queue (d\<lparr>accepted := a\<rparr>) = device_queue d"
  "device_queue (d\<lparr>taken := a\<rparr>) = device_queue d"
  "device_queue (d\<lparr>source := (source d)\<lparr>pcd_semaphore := k\<rparr>\<rparr>) = device_queue d"
  by (simp_all add: device_queue_def fun_eq_iff)

lemma set_queue_frame [simp]:
  "length (lidars (set_queue i q s)) = length (lidars s)"
  "lidar_count (set_queue i q s) = lidar_count s"
  "pcd_semaphore (set_queue i q s) = pcd_semaphore s"
  "publish_freq (set_queue i q s) = publish_freq s"
  "connect_state (lidars (set_queue i q s) ! j) = connect_state (lidars s ! j)"
  by (simp_all add: set_queue_def) (cases "i < length (lidars s)"; cases "i = j"; simp add: list_update_beyond)

section \<open>The invariant of the two threads\<close>

definition shape_ok :: "driver \<Rightarrow> bool" where
  "shape_ok d \<longleftrightarrow> length (lidars (source d)) = kMaxSourceLidar \<and> lidar_count (source d) = kMaxSourceLidar
     \<and> 0 \<le> pcd_semaphore (source d)
     \<and> (\<exists>n. CalculatePacketQueueSize (publish_freq (source d)) = Inr n \<and> unat n \<le> 2 ^ 31)"

definition slot_ok :: "driver \<Rightarrow> nat \<Rightarrow> bool" where
  "slot_ok d i \<longleftrightarrow> queue_ready (device_queue d i) \<and> (\<forall>p \<in> set (lq_contents (device_queue d i)). complete p)
     \<and> accepted d i = taken d i @ lq_contents (device_queue d i)"

definition stored_ok :: "driver \<Rightarrow> bool" where
  "stored_ok d \<longleftrightarrow> (\<forall>i p. producer d = Stored i p \<longrightarrow> i < kMaxSourceLidar \<and> complete p \<and> lq_inv (device_queue d i)
     \<and> \<not> QueueIsFull (device_queue d i) \<and> queue_at (device_queue d i) (wr_idx (device_queue d i)) = Inr p)"

definition copied_ok :: "driver \<Rightarrow> bool" where
  "copied_ok d \<longleftrightarrow> (\<forall>i. consumer d = At i \<longrightarrow> i \<le> kMaxSourceLidar)
     \<and> (\<forall>i p. consumer d = Copied i p \<longrightarrow> i < kMaxSourceLidar \<and> storage (device_queue d i) \<noteq> Nullptr
          \<and> (\<exists>ps. lq_contents (device_queue d i) = p # ps))"

definition awake :: "driver \<Rightarrow> nat \<Rightarrow> bool" where
  "awake d i \<longleftrightarrow> producer d = Unsignalled \<or> 0 < pcd_semaphore (source d)
     \<or> (\<exists>j \<le> i. consumer d = At j \<or> (\<exists>p. consumer d = Copied j p))"

definition driver_inv :: "driver \<Rightarrow> bool" where
  "driver_inv d \<longleftrightarrow> shape_ok d \<and> (\<forall>i < kMaxSourceLidar. slot_ok d i \<and> (pollable d i \<longrightarrow> awake d i))
     \<and> stored_ok d \<and> copied_ok d"

lemma at_rest_inv: "at_rest d \<Longrightarrow> driver_inv d"
  by (auto simp: at_rest_def driver_inv_def shape_ok_def slot_ok_def pollable_def stored_ok_def copied_ok_def
      lds_ok_def queue_ready_def lq_contents_def)

lemma offered_queue_ok:
  assumes "driver_inv d" "i < kMaxSourceLidar" "\<And>m. length (fresh m) = unat m" "offered_queue fresh i (source d) = Inr q"
  shows "lq_inv q" "lq_contents q = lq_contents (device_queue d i)"
    "storage (device_queue d i) \<noteq> Nullptr \<Longrightarrow> q = device_queue d i"
proof -
  obtain n where n: "CalculatePacketQueueSize (publish_freq (source d)) = Inr n" "unat n \<le> 2 ^ 31"
    using assms(1) by (auto simp: driver_inv_def shape_ok_def)
  have "queue_ready (device_queue d i)" using assms(1,2) by (auto simp: driver_inv_def slot_ok_def)
  from ready_queue[OF this n assms(3)] show "lq_inv q" "lq_contents q = lq_contents (device_queue d i)"
    "storage (device_queue d i) \<noteq> Nullptr \<Longrightarrow> q = device_queue d i"
    using assms(4) by (auto simp: offered_queue_def device_queue_def lq_contents_def split: if_splits)
qed

lemma packet_of_complete: "packet_ok pk \<Longrightarrow> complete (packet_of pk t)"
  by (simp add: packet_ok_def packet_of_def complete_def)

lemma pollable_iff:
  assumes "driver_inv d" "i < kMaxSourceLidar"
  shows "pollable d i \<longleftrightarrow> connect_state (lidars (source d) ! i) = kConnectStateSampling \<and> lq_contents (device_queue d i) \<noteq> []"
proof -
  have "queue_ready (device_queue d i)" using assms by (auto simp: driver_inv_def slot_ok_def)
  then show ?thesis
    using lq_empty_iff[of "device_queue d i"] by (auto simp: pollable_def queue_ready_def lq_contents_def lq_inv_def)
qed


lemma signal_positive: "0 \<le> c \<Longrightarrow> 0 < signal_if_zero c"
  by (auto simp: signal_if_zero_def sem_Signal_def)

text \<open>A step that gives slot i a queue with the same contents and leaves the logs alone.\<close>

lemma slot_ok_set:
  assumes "i < length (lidars (source d))" "j < kMaxSourceLidar" "slot_ok d j"
    and "i = j \<Longrightarrow> lq_inv q \<and> lq_contents q = lq_contents (device_queue d i)"
  shows "slot_ok (d\<lparr>source := set_queue i q (source d), producer := p\<rparr>) j"
  using assms by (auto simp: slot_ok_def queue_ready_def)

lemma driver_shape: "driver_inv d \<Longrightarrow> length (lidars (source d)) = kMaxSourceLidar \<and> lidar_count (source d) = kMaxSourceLidar"
  by (simp add: driver_inv_def shape_ok_def)

lemma store_inv:
  assumes inv: "driver_inv d" and fresh: "\<And>m. length (fresh m) = unat m"
    and idle: "producer d = Idle" and i: "i < length (lidars (source d))"
    and q: "offered_queue fresh i (source d) = Inr q"
    and q': "lq_inv q'" "lq_contents q' = lq_contents q" "QueueIsEmpty q' \<longleftrightarrow> QueueIsEmpty q"
    and pr: "pr = Unsignalled \<or> pr = Stored i p \<and> complete p \<and> \<not> QueueIsFull q' \<and> queue_at q' (wr_idx q') = Inr p"
  shows "driver_inv (d\<lparr>source := set_queue i q' (source d), producer := pr\<rparr>)"
proof -
  let ?d = "d\<lparr>source := set_queue i q' (source d), producer := pr\<rparr>"
  note sh = driver_shape[OF inv]
  have k: "i < kMaxSourceLidar" using i sh by simp
  note o = offered_queue_ok[OF inv k fresh q]
  have s: "slot_ok ?d j" if "j < kMaxSourceLidar" for j
    using slot_ok_set[OF i that, of q' pr] inv that o(2) q' by (auto simp: driver_inv_def)
  have pl: "pollable ?d j \<Longrightarrow> pollable d j" if "j < kMaxSourceLidar" for j
    using pollable_iff[OF inv that] that i o(2) q' lq_empty_iff[OF q'(1)]
    by (auto simp: pollable_def split: if_splits)
  have a: "awake d j \<Longrightarrow> awake ?d j" for j
    using idle by (simp add: awake_def)
  have c: "copied_ok ?d"
    using inv i o(2) q' by (auto simp: driver_inv_def copied_ok_def lq_inv_def)
  have st: "stored_ok ?d" using pr q'(1) k i by (auto simp: stored_ok_def)
  have "shape_ok ?d" using inv by (simp add: driver_inv_def shape_ok_def)
  then show ?thesis using s pl a c st inv by (auto simp: driver_inv_def)
qed

lemma store_step_inv:
  assumes "store_step fresh d d'" "driver_inv d" "\<And>m. length (fresh m) = unat m"
  shows "driver_inv d'"
  using assms(1)
proof (cases rule: store_step.cases)
  case (store i pk q t q')
  have k: "i < kMaxSourceLidar" using store(3) driver_shape[OF assms(2)] by simp
  note o = offered_queue_ok[OF assms(2) k assms(3) store(5)]
  obtain r where r: "queue_write (packet_of pk t) q = Inr r" "lq_inv r" "lq_contents r = lq_contents q"
    "\<not> QueueIsFull r" "queue_at r (wr_idx r) = Inr (packet_of pk t)"
    using queue_write_spec[OF o(1) store(6)] by blast
  have "r = q'" using r(1) store(7) by simp
  moreover have "QueueIsEmpty r \<longleftrightarrow> QueueIsEmpty q" using lq_empty_iff r(2,3) o(1) by metis
  ultimately show ?thesis
    using store_inv[OF assms(2,3) store(2,3,5), of q' "Stored i (packet_of pk t)" "packet_of pk t"]
      r packet_of_complete[OF store(4), of t] store(1) by simp
next
  case (refuse i q)
  have k: "i < kMaxSourceLidar" using refuse(3) driver_shape[OF assms(2)] by simp
  note o = offered_queue_ok[OF assms(2) k assms(3) refuse(4)]
  show ?thesis using store_inv[OF assms(2,3) refuse(2,3,4), of q Unsignalled] o(1) refuse(1) by simp
next
  case (advance i p)
  have st: "i < kMaxSourceLidar" "complete p" "lq_inv (device_queue d i)" "\<not> QueueIsFull (device_queue d i)"
    "queue_at (device_queue d i) (wr_idx (device_queue d i)) = Inr p"
    using assms(2) advance(2) by (auto simp: driver_inv_def stored_ok_def)
  note ad = queue_advance_spec[OF st(3,4,5)]
  have i: "i < length (lidars (source d))" using st(1) driver_shape[OF assms(2)] by simp
  have s: "slot_ok d' j" if "j < kMaxSourceLidar" for j
    using assms(2) that i ad st(2) by (auto simp: advance(1) driver_inv_def slot_ok_def queue_ready_def)
  have c: "copied_ok d'"
    using assms(2) i ad by (auto simp: advance(1) driver_inv_def copied_ok_def lq_inv_def)
  have "shape_ok d'" using assms(2) by (simp add: advance(1) driver_inv_def shape_ok_def)
  then show ?thesis using s c by (simp add: driver_inv_def awake_def stored_ok_def advance(1))
next
  case signal
  have "0 < pcd_semaphore (source d')"
    using assms(2) signal_positive by (simp add: signal(1) driver_inv_def shape_ok_def)
  moreover have "shape_ok d'" "copied_ok d'" "\<forall>j < kMaxSourceLidar. slot_ok d' j"
    using assms(2) calculation by (auto simp: signal(1) driver_inv_def shape_ok_def copied_ok_def slot_ok_def)
  ultimately show ?thesis by (simp add: driver_inv_def awake_def stored_ok_def signal(1))
qed

lemma publish_step_inv:
  assumes "publish_step d d'" "driver_inv d"
  shows "driver_inv d'"
  using assms(1)
proof (cases rule: publish_step.cases)
  case (wait c)
  have p: "pollable d' j = pollable d j" "slot_ok d' j = slot_ok d j" for j
    by (simp_all add: wait(1) pollable_def slot_ok_def)
  have "0 \<le> c" using wait(3) by (auto simp: sem_Wait_def split: if_splits)
  then show ?thesis using assms(2) p
    by (auto simp: driver_inv_def shape_ok_def stored_ok_def copied_ok_def awake_def wait(1))
next
  case (skip i)
  have p: "pollable d' j = pollable d j" "slot_ok d' j = slot_ok d j" for j
    by (simp_all add: skip(1) pollable_def slot_ok_def)
  have a: "awake d' j" if "pollable d j" "awake d j" for j
  proof -
    have "j \<noteq> i" using that skip(4) by auto
    then show ?thesis using that(2) by (auto simp: awake_def skip(1,2))
  qed
  show ?thesis using assms(2) p a skip(3)
    by (auto simp: driver_inv_def shape_ok_def stored_ok_def copied_ok_def skip(1))
next
  case (copy i p)
  have i: "i < kMaxSourceLidar" using copy(3) driver_shape[OF assms(2)] by simp
  have e: "pollable d' j = pollable d j" "slot_ok d' j = slot_ok d j" for j
    by (simp_all add: copy(1) pollable_def slot_ok_def)
  have s: "slot_ok d i" using assms(2) i by (simp add: driver_inv_def)
  then have l: "lq_inv (device_queue d i)" using copy(4) by (auto simp: pollable_def slot_ok_def queue_ready_def)
  obtain x xs where x: "lq_contents (device_queue d i) = x # xs"
    using pollable_iff[OF assms(2) i] copy(4) by (cases "lq_contents (device_queue d i)") auto
  have "complete x" using s x by (simp add: slot_ok_def)
  then have "p = x" using QueuePop_complete[OF l x] copy(5) by (simp add: QueuePop_def)
  then have c: "copied_ok d'" using i x copy(4) by (auto simp: copied_ok_def copy(1) pollable_def)
  have a: "awake d j \<Longrightarrow> awake d' j" for j by (auto simp: awake_def copy(1,2))
  show ?thesis using assms(2) e c a
    by (auto simp: driver_inv_def shape_ok_def stored_ok_def copy(1))
next
  case (pop i p)
  obtain ps where i: "i < kMaxSourceLidar" "lq_contents (device_queue d i) = p # ps" "storage (device_queue d i) \<noteq> Nullptr"
    using assms(2) pop(2) by (auto simp: driver_inv_def copied_ok_def)
  have l: "lq_inv (device_queue d i)" using assms(2) i by (auto simp: driver_inv_def slot_ok_def queue_ready_def)
  note q = queue_at_spec[OF l i(2)] and k = queue_pop_keeps_stored[OF l i(2)]
  have n: "i < length (lidars (source d))" using i(1) driver_shape[OF assms(2)] by simp
  have s: "slot_ok d' j" if "j < kMaxSourceLidar" for j
    using assms(2) that n i(2) q by (auto simp: pop(1) driver_inv_def slot_ok_def queue_ready_def)
  have st: "stored_ok d'" using assms(2) n q k by (auto simp: pop(1) driver_inv_def stored_ok_def)
  have a: "awake d j \<Longrightarrow> awake d' j" for j by (auto simp: awake_def pop(1,2))
  have p: "pollable d' j \<Longrightarrow> pollable d j" if "j < kMaxSourceLidar" for j
    using pollable_iff[OF assms(2) that] n i(2,3) lq_empty_iff[OF l] that
    by (auto simp: pollable_def pop(1) split: if_splits)
  have "shape_ok d'" using assms(2) by (simp add: pop(1) driver_inv_def shape_ok_def)
  moreover have "copied_ok d'" using i(1) by (auto simp: copied_ok_def pop(1))
  ultimately show ?thesis using s st a p assms(2) by (auto simp: driver_inv_def)
next
  case (return i)
  have p: "pollable d' j = pollable d j" "slot_ok d' j = slot_ok d j" for j
    by (simp_all add: return(1) pollable_def slot_ok_def)
  have a: "awake d' j" if "j < kMaxSourceLidar" "awake d j" for j
    using that return(2,3) driver_shape[OF assms(2)] by (auto simp: awake_def return(1))
  show ?thesis using assms(2) p a
    by (auto simp: driver_inv_def shape_ok_def stored_ok_def copied_ok_def return(1))
qed

lemma reachable_inv:
  assumes "reachable fresh d0 d" "at_rest d0" "\<And>m. length (fresh m) = unat m"
  shows "driver_inv d"
  using assms(1) by induction (use at_rest_inv[OF assms(2)] store_step_inv publish_step_inv assms(3) in blast)+


section \<open>No lost wakeup\<close>

lemma blocked_iff:
  assumes "driver_inv d" "\<nexists>d'. publish_step d d'"
  shows "consumer d = Waiting \<and> pcd_semaphore (source d) = 0"
proof (cases "consumer d")
  case Waiting
  then have "sem_Wait (pcd_semaphore (source d)) = None"
    using assms(2) publish_step.wait[OF Waiting] by (cases "sem_Wait (pcd_semaphore (source d))") blast+
  then show ?thesis using Waiting assms(1) by (auto simp: sem_Wait_def driver_inv_def shape_ok_def split: if_splits)
next
  case (At i)
  show ?thesis
  proof (cases "i < lidar_count (source d) \<and> pollable d i")
    case True
    then have i: "i < kMaxSourceLidar" using driver_shape[OF assms(1)] by simp
    have s: "slot_ok d i" using assms(1) i by (simp add: driver_inv_def)
    then have l: "lq_inv (device_queue d i)" using True by (auto simp: pollable_def slot_ok_def queue_ready_def)
    obtain x xs where x: "lq_contents (device_queue d i) = x # xs"
      using pollable_iff[OF assms(1) i] True by (cases "lq_contents (device_queue d i)") auto
    have "complete x" using s x by (simp add: slot_ok_def)
    from QueuePop_complete[OF l x this] have "QueuePrePop (device_queue d i) = Inr (Some x)"
      by (auto simp: QueuePop_def bindR_eq_Inr split: option.splits)
    then show ?thesis using publish_step.copy[OF At] True assms(2) by blast
  next
    case False
    then show ?thesis using publish_step.skip[OF At] publish_step.return[OF At] assms(2) by (meson not_le)
  qed
next
  case (Copied i p)
  then show ?thesis using publish_step.pop[OF Copied] assms(2) by blast
qed

text \<open>
  C11 no_lost_wakeup: from a driver at rest, in every interleaving of the storing and the publishing
  thread, each device's packets are taken in the order they were accepted, none
  lost, doubled or overwritten while it is copied.  And the publishing thread
  never sleeps on data: when it cannot go on and no push is under way it waits
  for the semaphore, and every packet accepted for a sampling device has been
  taken.
\<close>
theorem no_lost_wakeup:
  assumes "at_rest d0" "\<And>m. length (fresh m) = unat m" "reachable fresh d0 d"
  shows "(\<forall>i < 32. \<exists>waiting. accepted d i = taken d i @ waiting)
    \<and> (producer d = Idle \<and> (\<nexists>d'. publish_step d d') \<longrightarrow> consumer d = Waiting
        \<and> (\<forall>i < 32. connect_state (lidars (source d) ! i) = kConnectStateSampling \<longrightarrow> accepted d i = taken d i))"
proof -
  have inv: "driver_inv d" using reachable_inv[OF assms(3,1,2)] .
  have a: "accepted d i = taken d i @ lq_contents (device_queue d i)" if "i < 32" for i
    using inv that by (simp add: driver_inv_def slot_ok_def kMaxSourceLidar_def)
  have "accepted d i = taken d i"
    if "producer d = Idle" "\<nexists>d'. publish_step d d'" "i < 32" "connect_state (lidars (source d) ! i) = kConnectStateSampling" for i
  proof -
    have i: "i < kMaxSourceLidar" using that(3) by (simp add: kMaxSourceLidar_def)
    have "\<not> awake d i" using blocked_iff[OF inv that(2)] that(1) by (simp add: awake_def)
    then have "lq_contents (device_queue d i) = []"
      using inv i that(4) pollable_iff[OF inv i] by (auto simp: driver_inv_def)
    then show ?thesis using a[OF that(3)] by simp
  qed
  then show ?thesis using a blocked_iff[OF inv] by blast
qed

definition resting_driver :: driver where
  "resting_driver = \<lparr>source = idle_lds, producer = Idle, consumer = Waiting, accepted = \<lambda>_. [], taken = \<lambda>_. []\<rparr>"

lemma resting_driver_rest: "at_rest resting_driver"
proof -
  have "lds_ok idle_lds" using idle_lds_ok[OF ci_empty] by (simp add: idle_lds_def)
  then show ?thesis
    by (simp add: at_rest_def resting_driver_def device_queue_def idle_lds_def idle_device_def kMaxSourceLidar_def)
qed

definition blank_storage :: "u32 \<Rightarrow> storage_packet list" where
  "blank_storage n = replicate (unat n) \<lparr>sp_base_time = 0, sp_points_num = 0, sp_points = []\<rparr>"

lemma length_blank [simp]: "length (blank_storage n) = unat n"
  by (simp add: blank_storage_def)

theorem no_lost_wakeup_witness:
  "consumer resting_driver = Waiting \<and> accepted resting_driver 3 = taken resting_driver 3"
proof -
  have "\<nexists>d'. publish_step resting_driver d'"
    by (auto simp: resting_driver_def idle_lds_def sem_Wait_def elim: publish_stepE)
  then show ?thesis
    using no_lost_wakeup[OF resting_driver_rest length_blank reachable.start]
    by (simp add: resting_driver_def idle_lds_def idle_device_def)
qed

section \<open>The publishing thread alone comes to rest\<close>

definition work :: "driver \<Rightarrow> nat \<times> nat \<times> nat \<times> nat" where
  "work d = (nat (pcd_semaphore (source d)), (case consumer d of
       Waiting \<Rightarrow> (0, 0, 0)
     | At i \<Rightarrow> (Suc (lidar_count (source d)) - i, length (lq_contents (device_queue d i)), 1)
     | Copied i p \<Rightarrow> (Suc (lidar_count (source d)) - i, length (lq_contents (device_queue d i)), 0)))"

abbreviation work_order :: "((nat \<times> nat \<times> nat \<times> nat) \<times> (nat \<times> nat \<times> nat \<times> nat)) set" where
  "work_order \<equiv> less_than <*lex*> less_than <*lex*> less_than <*lex*> less_than"

lemma publish_step_work:
  assumes "publish_step d d'" "driver_inv d"
  shows "(work d', work d) \<in> work_order"
  using assms(1)
proof (cases rule: publish_step.cases)
  case (pop i p)
  obtain ps where i: "i < kMaxSourceLidar" "lq_contents (device_queue d i) = p # ps" "storage (device_queue d i) \<noteq> Nullptr"
    using assms(2) pop(2) by (auto simp: driver_inv_def copied_ok_def)
  have l: "lq_inv (device_queue d i)" using assms(2) i by (auto simp: driver_inv_def slot_ok_def queue_ready_def)
  show ?thesis using queue_at_spec[OF l i(2)] i driver_shape[OF assms(2)] by (simp add: work_def pop(1,2))
qed (use driver_shape[OF assms(2)] assms(2) in
    \<open>auto simp: work_def sem_Wait_def driver_inv_def shape_ok_def copied_ok_def split: if_splits\<close>)

text \<open>
  publisher_comes_to_rest: the publishing thread on its own never runs forever: from every
  reachable state it makes finitely many steps until it waits for the semaphore
  with nothing left that it could take.
\<close>
theorem publisher_comes_to_rest:
  assumes "at_rest d0" "\<And>m. length (fresh m) = unat m" "reachable fresh d0 d"
  shows "(\<nexists>f. f 0 = d \<and> (\<forall>n. publish_step (f n) (f (Suc n))))
    \<and> (\<exists>d'. publish_step\<^sup>*\<^sup>* d d' \<and> (\<nexists>d''. publish_step d' d'') \<and> consumer d' = Waiting)"
proof
  have inv: "driver_inv d" using reachable_inv[OF assms(3,1,2)] .
  show "\<nexists>f. f 0 = d \<and> (\<forall>n. publish_step (f n) (f (Suc n)))"
  proof (rule notI, elim exE conjE)
    fix f assume f: "f 0 = d" "\<forall>n. publish_step (f n) (f (Suc n))"
    have "driver_inv (f n)" for n
      by (induction n) (use f inv publish_step_inv in auto)
    then have "(work (f (Suc n)), work (f n)) \<in> work_order" for n using f(2) publish_step_work by blast
    moreover have "wf work_order" by (intro wf_lex_prod wf_less_than)
    ultimately show False using wf_no_infinite_down_chainE[of work_order "\<lambda>n. work (f n)"] by blast
  qed
  have "wf (inv_image work_order work)" by (intro wf_inv_image wf_lex_prod wf_less_than)
  then show "\<exists>d'. publish_step\<^sup>*\<^sup>* d d' \<and> (\<nexists>d''. publish_step d' d'') \<and> consumer d' = Waiting"
    using inv
  proof (induction d rule: wf_induct_rule)
    case (less d)
    show ?case
    proof (cases "\<exists>d'. publish_step d d'")
      case True
      then obtain d1 where d1: "publish_step d d1" by blast
      then have "driver_inv d1" "(d1, d) \<in> inv_image work_order work"
        using publish_step_inv publish_step_work less.prems by auto
      from less.IH[OF this(2,1)] show ?thesis using d1 by (meson converse_rtranclp_into_rtranclp)
    next
      case False
      then show ?thesis using blocked_iff[OF less.prems] by blast
    qed
  qed
qed

theorem publisher_comes_to_rest_witness:
  "\<nexists>f. f 0 = resting_driver \<and> (\<forall>n. publish_step (f n) (f (Suc n)))"
  using publisher_comes_to_rest[OF resting_driver_rest length_blank reachable.start] by blast

section \<open>A push in steps is PushLidarData\<close>

text \<open>
  push_steps_refine: storing a packet in the three steps the other thread can see amounts to
  PushLidarData: run one after the other from an idle state they lead to the
  state that PushLidarData computes, in one of two ways - the packet is accepted,
  or the queue was full and only the semaphore is signalled.
\<close>
theorem push_steps_refine:
  assumes "lds_ok (source d)" "unat i < 32" "packet_ok pk" "\<And>m. length (fresh m) = unat m" "producer d = Idle"
  shows "\<exists>s' acc. PushLidarData fresh pk i t (source d) = Inr s'
    \<and> (store_step fresh)\<^sup>*\<^sup>* d (d\<lparr>source := s', accepted := acc\<rparr>)
    \<and> (acc = accepted d \<or> acc = (accepted d)(unat i := accepted d (unat i) @ [packet_of pk t]))"
proof -
  let ?i = "unat i" let ?s = "source d"
  have i: "?i < length (lidars ?s)" "?i < kMaxSourceLidar" using assms(1,2) by (simp_all add: lds_ok_def kMaxSourceLidar_def)
  have r: "queue_ready (pcd_data (lidars ?s ! ?i))" using assms(1) i by (auto simp: lds_ok_def)
  obtain n where n: "CalculatePacketQueueSize (publish_freq ?s) = Inr n" "unat n \<le> 2 ^ 31"
    using assms(1) by (auto simp: lds_ok_def)
  obtain q where q: "offered_queue fresh ?i ?s = Inr q" "lq_inv q"
    using ready_queue[OF r n assms(4)] by (auto simp: offered_queue_def)
  show ?thesis
  proof (cases "QueueIsFull q")
    case True
    have p: "PushLidarData fresh pk i t ?s = Inr ((set_queue ?i q ?s)\<lparr>pcd_semaphore := signal_if_zero (pcd_semaphore ?s)\<rparr>)"
      using i(1) q(1) True by (simp add: PushLidarData_def offered_queue_def set_queue_def Let_def)
    let ?d1 = "d\<lparr>source := set_queue ?i q ?s, producer := Unsignalled\<rparr>"
    let ?s' = "(set_queue ?i q ?s)\<lparr>pcd_semaphore := signal_if_zero (pcd_semaphore ?s)\<rparr>"
    have s1: "store_step fresh d ?d1" by (rule store_step.refuse[OF assms(5) i(1) q(1) True])
    have s2: "store_step fresh ?d1 (d\<lparr>source := ?s', accepted := accepted d\<rparr>)"
      using store_step.signal[of ?d1 fresh] assms(5) by (cases d) simp
    have "(store_step fresh)\<^sup>*\<^sup>* d (d\<lparr>source := ?s', accepted := accepted d\<rparr>)"
      using s1 s2 by (meson converse_rtranclp_into_rtranclp rtranclp.rtrancl_refl)
    then show ?thesis using p by blast
  next
    case False
    obtain q1 where q1: "queue_write (packet_of pk t) q = Inr q1" "lq_inv q1" "lq_contents q1 = lq_contents q"
      "\<not> QueueIsFull q1" "queue_at q1 (wr_idx q1) = Inr (packet_of pk t)"
      using queue_write_spec[OF q(2) False] by blast
    let ?q2 = "queue_advance q1"
    have q2: "lq_inv ?q2" "lq_contents ?q2 \<noteq> []" using queue_advance_spec[OF q1(2,4,5)] by simp_all
    have push: "QueuePushAny pk t q = Inr ?q2"
      using q1(1) assms(3) by (simp add: QueuePushAny_def queue_put_steps packet_of_def packet_ok_def)
    have ne: "\<not> QueueIsEmpty ?q2" using lq_empty_iff[OF q2(1)] q2(2) by simp
    let ?s' = "(set_queue ?i ?q2 ?s)\<lparr>pcd_semaphore := signal_if_zero (pcd_semaphore ?s)\<rparr>"
    let ?a = "(accepted d)(?i := accepted d ?i @ [packet_of pk t])"
    have p: "PushLidarData fresh pk i t ?s = Inr ?s'"
      using i(1) q(1) False push ne by (simp add: PushLidarData_def offered_queue_def set_queue_def Let_def)
    let ?d1 = "d\<lparr>source := set_queue ?i q1 ?s, producer := Stored ?i (packet_of pk t)\<rparr>"
    let ?d2 = "d\<lparr>source := set_queue ?i ?q2 ?s, producer := Unsignalled, accepted := ?a\<rparr>"
    have s1: "store_step fresh d ?d1" by (rule store_step.store[OF assms(5) i(1) assms(3) q(1) False q1(1)])
    have s2: "store_step fresh ?d1 ?d2"
      using store_step.advance[of ?d1 ?i "packet_of pk t" fresh] i(1) by (simp add: set_queue_def device_queue_def)
    have s3: "store_step fresh ?d2 (d\<lparr>source := ?s', accepted := ?a\<rparr>)"
      using store_step.signal[of ?d2 fresh] assms(5) by (cases d) simp
    have "(store_step fresh)\<^sup>*\<^sup>* d (d\<lparr>source := ?s', accepted := ?a\<rparr>)"
      using s1 s2 s3 by (meson converse_rtranclp_into_rtranclp rtranclp.rtrancl_refl)
    then show ?thesis using p by blast
  qed
qed

theorem push_steps_refine_witness:
  "\<exists>s' acc. PushLidarData blank_storage \<lparr>pp_handle = 7, pp_lidar_type = 8, pp_points_num = 0, pp_points = []\<rparr> 4 5 idle_lds = Inr s'
     \<and> (store_step blank_storage)\<^sup>*\<^sup>* resting_driver (resting_driver\<lparr>source := s', accepted := acc\<rparr>)"
  using push_steps_refine[of resting_driver 4 "\<lparr>pp_handle = 7, pp_lidar_type = 8, pp_points_num = 0, pp_points = []\<rparr>" blank_storage 5]
    resting_driver_rest
  by (auto simp: at_rest_def packet_ok_def) (auto simp: resting_driver_def)

end
