(* ===== verification/Livox_Callback.thy ===== *)
theory Livox_Callback
  imports Livox_Lds "HOL-Library.Signed_Division"
begin

text \<open>
  Configuring the lidars (edge/src/livox_ros_driver2/src): the user
  configuration of parse_livox_lidar_cfg.cpp, the start-up of lds_lidar.cpp and
  the callbacks of livox_lidar_callback.cpp, which ask the SDK to apply the
  settings of a device and let it deliver points once all are confirmed.
  Calls into the SDK are returned as a list, in the order they are made.
\<close>

section \<open>The user configuration\<close>

text \<open>What HasMember and the getters of a JSON object yield: a member of the right type or none.\<close>

record json_extrinsics =
  j_roll :: "fp option"
  j_pitch :: "fp option"
  j_yaw :: "fp option"
  j_x :: "int option"
  j_y :: "int option"
  j_z :: "int option"

record json_config =
  j_ip :: "string option"
  j_pcl_data_type :: "int option"
  j_pattern_mode :: "int option"
  j_blind_spot_set :: "int option"
  j_dual_emit_en :: "int option"
  j_extrinsic_parameter :: "json_extrinsics option"

definition ParseExtrinsics :: "json_extrinsics \<Rightarrow> ext_parameter" where
  "ParseExtrinsics v = \<lparr>
     roll = (case j_roll v of None \<Rightarrow> Fin 0 | Some r \<Rightarrow> to_f32 r),
     pitch = (case j_pitch v of None \<Rightarrow> Fin 0 | Some r \<Rightarrow> to_f32 r),
     yaw = (case j_yaw v of None \<Rightarrow> Fin 0 | Some r \<Rightarrow> to_f32 r),
     ext_x = (case j_x v of None \<Rightarrow> 0 | Some i \<Rightarrow> i),
     ext_y = (case j_y v of None \<Rightarrow> 0 | Some i \<Rightarrow> i),
     ext_z = (case j_z v of None \<Rightarrow> 0 | Some i \<Rightarrow> i)\<rparr>"

text \<open>The conversion to int8_t; dual_emit_en goes through uint8_t first, with the same result.\<close>

definition as_int8 :: "int \<Rightarrow> int" where
  "as_int8 i = signed_take_bit 7 i"

definition setting_of :: "int option \<Rightarrow> int" where
  "setting_of v = (case v of None \<Rightarrow> - 1 | Some i \<Rightarrow> as_int8 i)"

definition no_extrinsics :: ext_parameter where
  "no_extrinsics = \<lparr>roll = Fin 0, pitch = Fin 0, yaw = Fin 0, ext_x = 0, ext_y = 0, ext_z = 0\<rparr>"

definition user_config_of :: "u32 \<Rightarrow> json_config \<Rightarrow> livox_config" where
  "user_config_of h j = \<lparr>cfg_handle = h, pcl_data_type = setting_of (j_pcl_data_type j),
     pattern_mode = setting_of (j_pattern_mode j), blind_spot_set = setting_of (j_blind_spot_set j),
     dual_emit_en = setting_of (j_dual_emit_en j),
     extrinsic_param = (case j_extrinsic_parameter j of None \<Rightarrow> no_extrinsics | Some v \<Rightarrow> ParseExtrinsics v),
     set_bits = 0\<rparr>"

text \<open>inet_addr is an argument; entries without an address are skipped.\<close>

fun ParseUserConfigs :: "(string \<Rightarrow> u32) \<Rightarrow> json_config list \<Rightarrow> livox_config list" where
  "ParseUserConfigs inet_addr [] = []"
| "ParseUserConfigs inet_addr (j # js) = (case j_ip j of None \<Rightarrow> ParseUserConfigs inet_addr js
     | Some ip \<Rightarrow> user_config_of (inet_addr ip) j # ParseUserConfigs inet_addr js)"

section \<open>Start-up\<close>

record lidar_source =
  devices :: lds
  lidar_extrinsics :: "u32 \<rightharpoonup> ext_parameter"
  summary_lidar_type :: u8
  is_initialized :: bool
  observers_set :: bool
  info_callback_set :: bool

text \<open>
  The codes of the SDK's data types and device types, which its headers define:
  they are an argument.
\<close>

record sdk_codes =
  kLivoxLidarImuData :: u8
  kLivoxLidarCartesianCoordinateHighData :: u8
  kLivoxLidarCartesianCoordinateLowData :: u8
  kLivoxLidarSphericalCoordinateData :: u8
  kLivoxLidarTypeIndustrialHAP :: u8
  kLivoxLidarTypeMid360 :: u8

text \<open>Low precision points come in centimetres, and so does the translation for them.\<close>

definition published_extrinsics :: "sdk_codes \<Rightarrow> livox_config \<Rightarrow> ext_parameter" where
  "published_extrinsics k c = (if pcl_data_type c = uint (kLivoxLidarCartesianCoordinateLowData k)
     then (extrinsic_param c)\<lparr>ext_x := ext_x (extrinsic_param c) sdiv 10,
        ext_y := ext_y (extrinsic_param c) sdiv 10, ext_z := ext_z (extrinsic_param c) sdiv 10\<rparr>
     else extrinsic_param c)"

definition fill_device :: "sdk_codes \<Rightarrow> livox_config \<Rightarrow> lidar_source \<Rightarrow> lidar_source" where
  "fill_device k c g = (case GetFreeIndex kLivoxLidarType (cfg_handle c) (cache (devices g)) of
      (None, t) \<Rightarrow> g\<lparr>devices := (devices g)\<lparr>cache := t\<rparr>\<rparr>
    | (Some i, t) \<Rightarrow> g\<lparr>devices := (devices g)\<lparr>cache := t,
        lidars := (lidars (devices g))[unat i := (lidars (devices g) ! unat i)\<lparr>lidar_type := kLivoxLidarType,
          livox_config := c, handle := cfg_handle c\<rparr>]\<rparr>,
        lidar_extrinsics := (lidar_extrinsics g)(cfg_handle c \<mapsto> published_extrinsics k c)\<rparr>)"

text \<open>A failure to parse the configuration is only reported: the devices parsed so far are used.\<close>

definition InitLivoxLidar :: "sdk_codes \<Rightarrow> livox_config list \<Rightarrow> bool \<Rightarrow> lidar_source \<Rightarrow> bool \<times> lidar_source" where
  "InitLivoxLidar k configs sdk_init g = (if \<not> sdk_init then (False, g)
     else (True, (fold (fill_device k) configs g)\<lparr>info_callback_set := True\<rparr>))"

definition InitLidars :: "sdk_codes \<Rightarrow> u8 option \<Rightarrow> livox_config list \<Rightarrow> bool \<Rightarrow> lidar_source \<Rightarrow> bool \<times> lidar_source" where
  "InitLidars k summary configs sdk_init g = (case summary of None \<Rightarrow> (False, g)
    | Some t \<Rightarrow> let g' = g\<lparr>summary_lidar_type := t\<rparr> in
        if t AND kLivoxLidarType \<noteq> 0 then InitLivoxLidar k configs sdk_init g' else (True, g'))"

definition InitLdsLidar :: "sdk_codes \<Rightarrow> u8 option \<Rightarrow> livox_config list \<Rightarrow> bool \<Rightarrow> lidar_source \<Rightarrow> bool \<times> lidar_source" where
  "InitLdsLidar k summary configs sdk_init g = (if is_initialized g then (False, g)
     else case InitLidars k summary configs sdk_init g of (ok, g') \<Rightarrow>
       if \<not> ok then (False, g') else (True, g'\<lparr>observers_set := True, is_initialized := True\<rparr>))"

section \<open>Callbacks of the SDK\<close>

datatype livox_status = StatusSuccess | StatusTimeout | StatusFailure

datatype sdk_call =
    SetLivoxLidarPclDataType u32 int
  | SetLivoxLidarScanPattern u32 int
  | SetLivoxLidarBlindSpot u32 int
  | SetLivoxLidarDualEmit u32 bool
  | SetLivoxLidarInstallAttitude u32 ext_parameter
  | SetLivoxLidarWorkModeNormal u32
  | EnableLivoxLidarImuData u32

definition kConfigDataType :: u32 where "kConfigDataType = 1"
definition kConfigScanPattern :: u32 where "kConfigScanPattern = 2"
definition kConfigBlindSpot :: u32 where "kConfigBlindSpot = 4"
definition kConfigDualEmit :: u32 where "kConfigDualEmit = 8"

text \<open>The slot of a device; without client data there is none.\<close>

definition GetLidarDevice :: "u32 \<Rightarrow> lds option \<Rightarrow> nat option" where
  "GetLidarDevice h client = (case client of None \<Rightarrow> None
     | Some s \<Rightarrow> map_option unat (GetIndex kLivoxLidarType h (cache s)))"

definition update_config :: "nat \<Rightarrow> (livox_config \<Rightarrow> livox_config) \<Rightarrow> lds \<Rightarrow> lds" where
  "update_config i f s = s\<lparr>lidars := (lidars s)[i := (lidars s ! i)\<lparr>livox_config := f (livox_config (lidars s ! i))\<rparr>]\<rparr>"

definition request_settings :: "u32 \<Rightarrow> livox_config \<Rightarrow> u32 \<times> sdk_call list" where
  "request_settings h c =
    (set_bits c OR (if pcl_data_type c \<noteq> - 1 then kConfigDataType else 0)
       OR (if pattern_mode c \<noteq> - 1 then kConfigScanPattern else 0)
       OR (if blind_spot_set c \<noteq> - 1 then kConfigBlindSpot else 0)
       OR (if dual_emit_en c \<noteq> - 1 then kConfigDualEmit else 0),
     (if pcl_data_type c \<noteq> - 1 then [SetLivoxLidarPclDataType h (pcl_data_type c)] else [])
     @ (if pattern_mode c \<noteq> - 1 then [SetLivoxLidarScanPattern h (pattern_mode c)] else [])
     @ (if blind_spot_set c \<noteq> - 1 then [SetLivoxLidarBlindSpot h (blind_spot_set c)] else [])
     @ (if dual_emit_en c \<noteq> - 1 then [SetLivoxLidarDualEmit h (dual_emit_en c \<noteq> 0)] else []))"

definition LidarInfoChangeCallback :: "u32 \<Rightarrow> lds option \<Rightarrow> lds option \<times> sdk_call list" where
  "LidarInfoChangeCallback h client = (case client of None \<Rightarrow> (None, []) | Some s \<Rightarrow>
     (case GetLidarDevice h client of
       None \<Rightarrow> (case GetFreeIndex kLivoxLidarType h (cache s) of
           (None, c) \<Rightarrow> (Some (s\<lparr>cache := c\<rparr>), [])
         | (Some i, c) \<Rightarrow> (Some (s\<lparr>cache := c,
               lidars := (lidars s)[unat i := (lidars s ! unat i)\<lparr>lidar_type := kLivoxLidarType\<rparr>]\<rparr>),
             [SetLivoxLidarWorkModeNormal h, EnableLivoxLidarImuData h]))
     | Some i \<Rightarrow> (case request_settings h (livox_config (lidars s ! i)) of (bits, calls) \<Rightarrow>
         (Some (update_config i (\<lambda>c. c\<lparr>set_bits := bits\<rparr>) s),
          calls @ [SetLivoxLidarInstallAttitude (cfg_handle (livox_config (lidars s ! i)))
                     (extrinsic_param (livox_config (lidars s ! i))),
                   SetLivoxLidarWorkModeNormal h, EnableLivoxLidarImuData h]))))"

definition WorkModeChangedCallback :: "livox_status \<Rightarrow> u32 \<Rightarrow> sdk_call list" where
  "WorkModeChangedCallback status h = (if status \<noteq> StatusSuccess then [SetLivoxLidarWorkModeNormal h] else [])"

text \<open>
  What the four setting callbacks share.  A failure reads the response, which
  may be missing.
\<close>

definition setting_callback :: "u32 \<Rightarrow> (u32 \<Rightarrow> livox_config \<Rightarrow> sdk_call) \<Rightarrow> livox_status \<Rightarrow> u32 \<Rightarrow> bool \<Rightarrow>
    lds option \<Rightarrow> (lds option \<times> sdk_call list) res" where
  "setting_callback flag again status h response client = (case GetLidarDevice h client of
      None \<Rightarrow> Inr (client, [])
    | Some i \<Rightarrow> let s = the client; d = lidars s ! i in
      (case status of
        StatusSuccess \<Rightarrow> let bits = set_bits (livox_config d) AND NOT flag in
          Inr (Some (s\<lparr>lidars := (lidars s)[i := d\<lparr>livox_config := (livox_config d)\<lparr>set_bits := bits\<rparr>,
              connect_state := (if bits = 0 then kConnectStateSampling else connect_state d)\<rparr>]\<rparr>), [])
      | StatusTimeout \<Rightarrow> Inr (client, [again h (livox_config d)])
      | StatusFailure \<Rightarrow> if response then Inr (client, []) else Inl NullDeref))"

definition SetDataTypeCallback where
  "SetDataTypeCallback = setting_callback kConfigDataType (\<lambda>h c. SetLivoxLidarPclDataType h (pcl_data_type c))"

definition SetPatternModeCallback where
  "SetPatternModeCallback = setting_callback kConfigScanPattern (\<lambda>h c. SetLivoxLidarScanPattern h (pattern_mode c))"

definition SetBlindSpotCallback where
  "SetBlindSpotCallback = setting_callback kConfigBlindSpot (\<lambda>h c. SetLivoxLidarBlindSpot h (blind_spot_set c))"

definition SetDualEmitCallback where
  "SetDualEmitCallback = setting_callback kConfigDualEmit (\<lambda>h c. SetLivoxLidarDualEmit h (dual_emit_en c \<noteq> 0))"

definition SetAttitudeCallback :: "livox_status \<Rightarrow> u32 \<Rightarrow> lds option \<Rightarrow> sdk_call list" where
  "SetAttitudeCallback status h client = (case GetLidarDevice h client of None \<Rightarrow> []
    | Some i \<Rightarrow> (case status of
        StatusTimeout \<Rightarrow> let c = livox_config (lidars (the client) ! i) in
          [SetLivoxLidarInstallAttitude (cfg_handle c) (extrinsic_param c)]
      | _ \<Rightarrow> []))"

definition EnableLivoxLidarImuDataCallback :: "livox_status \<Rightarrow> u32 \<Rightarrow> bool \<Rightarrow> lds option \<Rightarrow> sdk_call list" where
  "EnableLivoxLidarImuDataCallback status h response client = (case GetLidarDevice h client of None \<Rightarrow> []
    | Some i \<Rightarrow> if \<not> response then [] else if status = StatusTimeout then [EnableLivoxLidarImuData h] else [])"

text \<open>The replies to the settings requests of a device, one after the other.\<close>

datatype setting = DataType | PatternMode | BlindSpot | DualEmit

fun setting_reply :: "setting \<Rightarrow> livox_status \<Rightarrow> u32 \<Rightarrow> bool \<Rightarrow> lds option \<Rightarrow> (lds option \<times> sdk_call list) res" where
  "setting_reply DataType = SetDataTypeCallback"
| "setting_reply PatternMode = SetPatternModeCallback"
| "setting_reply BlindSpot = SetBlindSpotCallback"
| "setting_reply DualEmit = SetDualEmitCallback"

fun run_replies :: "(setting \<times> livox_status) list \<Rightarrow> u32 \<Rightarrow> lds option \<Rightarrow> (lds option \<times> sdk_call list) res" where
  "run_replies [] h client = Inr (client, [])"
| "run_replies ((k, st) # rs) h client = bindR (setting_reply k st h True client) (\<lambda>(client', calls).
     bindR (run_replies rs h client') (\<lambda>(client'', calls'). Inr (client'', calls @ calls')))"

section \<open>Parsing\<close>

text \<open>
  parsed_settings: a setting of the configuration file arrives as it is written exactly when it
  fits a signed byte; a blind spot distance from 128 to 254 arrives 256 lower,
  as a negative distance, and 255 counts as not configured.
\<close>
theorem parsed_settings:
  assumes "j_ip j = Some ip"
  shows "(\<exists>c. ParseUserConfigs inet [j] = [c] \<and> cfg_handle c = inet ip \<and> set_bits c = 0
    \<and> (\<forall>v. j_blind_spot_set j = Some v \<longrightarrow> (blind_spot_set c = v \<longleftrightarrow> - 128 \<le> v \<and> v < 128)
        \<and> (128 \<le> v \<and> v < 256 \<longrightarrow> blind_spot_set c = v - 256))
    \<and> (j_blind_spot_set j = None \<longrightarrow> blind_spot_set c = - 1))"
proof -
  have a: "signed_take_bit 7 v = v \<longleftrightarrow> - 128 \<le> v \<and> v < 128" for v :: int
    using signed_take_bit_int_eq_self_iff[of 7 v] by simp
  have b: "signed_take_bit 7 v = v - 256" if "128 \<le> v" "v < 256" for v :: int
  proof -
    have "(v + 128) mod 256 = ((v - 128) + 256) mod 256" by (simp add: add.commute)
    also have "\<dots> = v - 128" using that by (simp only: mod_add_self2) simp
    finally show ?thesis by (simp add: signed_take_bit_eq_take_bit_shift take_bit_eq_mod)
  qed
  show ?thesis using assms a b by (simp add: user_config_of_def setting_of_def as_int8_def)
qed

theorem parsed_settings_witness:
  "map blind_spot_set (ParseUserConfigs (\<lambda>_. 7) [\<lparr>j_ip = Some ''192.168.1.50'', j_pcl_data_type = Some 1,
     j_pattern_mode = None, j_blind_spot_set = Some 150, j_dual_emit_en = None, j_extrinsic_parameter = None\<rparr>]) = [- 106]"
proof -
  let ?j = "\<lparr>j_ip = Some ''192.168.1.50'', j_pcl_data_type = Some 1,
     j_pattern_mode = None, j_blind_spot_set = Some 150, j_dual_emit_en = None, j_extrinsic_parameter = None\<rparr>"
  have "j_ip ?j = Some ''192.168.1.50''" by simp
  from parsed_settings[OF this, of "\<lambda>_. 7"] show ?thesis by (elim exE conjE) simp
qed

section \<open>Filling in the devices\<close>

lemma fold_fill_keeps:
  assumes "ci_inv (cache (devices g))" "length (lidars (devices g)) = kMaxSourceLidar"
    and "GetIndex kLivoxLidarType h (cache (devices g)) = Some i"
    and "h \<notin> cfg_handle ` set cs"
  shows "GetIndex kLivoxLidarType h (cache (devices (fold (fill_device k) cs g))) = Some i
    \<and> lidars (devices (fold (fill_device k) cs g)) ! unat i = lidars (devices g) ! unat i
    \<and> lidar_extrinsics (fold (fill_device k) cs g) h = lidar_extrinsics g h"
  using assms
proof (induction cs arbitrary: g)
  case (Cons c cs)
  have ne: "cfg_handle c \<noteq> h" using Cons.prems(4) by auto
  obtain r t where g: "GetFreeIndex kLivoxLidarType (cfg_handle c) (cache (devices g)) = (r, t)" by fastforce
  show ?case
  proof (cases r)
    case None
    have "t = cache (devices g)" using GetFreeIndex_None[OF Cons.prems(1)] g None by simp
    then show ?thesis using Cons.IH[of g] Cons.prems g None by (simp add: fill_device_def)
  next
    case (Some j)
    note sp = GetFreeIndex_spec[OF Cons.prems(1) g[unfolded Some]]
    have "(kLivoxLidarType, h) \<noteq> (kLivoxLidarType, cfg_handle c)" using ne by simp
    then have "GetIndex kLivoxLidarType h t = GetIndex kLivoxLidarType h (cache (devices g))
        \<and> GetIndex kLivoxLidarType h t \<noteq> Some j" using sp by blast
    then have i: "GetIndex kLivoxLidarType h t = Some i" "j \<noteq> i" using Cons.prems(3) by auto
    then have "unat j \<noteq> unat i" by (simp add: word_unat_eq_iff)
    then show ?thesis using Cons.IH[of "fill_device k c g"] Cons.prems(2,4) sp i g Some ne
      by (simp add: fill_device_def)
  qed
qed simp

lemma fill_device_inv:
  assumes "ci_inv (cache (devices g))" "length (lidars (devices g)) = kMaxSourceLidar"
  shows "ci_inv (cache (devices (fill_device k c g))) \<and> length (lidars (devices (fill_device k c g))) = kMaxSourceLidar"
proof -
  obtain r t where g: "GetFreeIndex kLivoxLidarType (cfg_handle c) (cache (devices g)) = (r, t)" by fastforce
  show ?thesis
    by (cases r) (use GetFreeIndex_None[OF assms(1)] GetFreeIndex_spec[OF assms(1)] g assms in \<open>auto simp: fill_device_def\<close>)
qed

definition device_filled :: "sdk_codes \<Rightarrow> lidar_source \<Rightarrow> livox_config \<Rightarrow> bool" where
  "device_filled k g c \<longleftrightarrow> (\<exists>i. GetIndex kLivoxLidarType (cfg_handle c) (cache (devices g)) = Some i \<and> unat i < 32
     \<and> handle (lidars (devices g) ! unat i) = cfg_handle c \<and> livox_config (lidars (devices g) ! unat i) = c
     \<and> lidar_type (lidars (devices g) ! unat i) = kLivoxLidarType
     \<and> lidar_extrinsics g (cfg_handle c) = Some (published_extrinsics k c))"

definition taken_slots :: "cache_index \<Rightarrow> nat" where
  "taken_slots c = card (dom (map_index c))"

lemma all_taken:
  assumes "finite (dom (map_index c))" "\<forall>i < kMaxSourceLidar. \<exists>key. map_index c key = Some (of_nat i)"
  shows "kMaxSourceLidar \<le> taken_slots c"
proof -
  have "(of_nat :: nat \<Rightarrow> u8) ` {..<kMaxSourceLidar} \<subseteq> (\<lambda>key. the (map_index c key)) ` dom (map_index c)"
    using assms(2) by (force simp: dom_def image_iff)
  then have "card ((of_nat :: nat \<Rightarrow> u8) ` {..<kMaxSourceLidar}) \<le> taken_slots c"
    unfolding taken_slots_def using assms(1) by (meson card_image_le card_mono finite_imageI le_trans)
  moreover have "inj_on (of_nat :: nat \<Rightarrow> u8) {..<kMaxSourceLidar}"
    by (auto simp: inj_on_def kMaxSourceLidar_def word_unat_eq_iff unat_of_nat)
  ultimately show ?thesis by (simp add: card_image)
qed

lemma GetFreeIndex_grows:
  assumes "finite (dom (map_index c))" "GetFreeIndex t h c = (r, c')"
  shows "finite (dom (map_index c')) \<and> taken_slots c' \<le> Suc (taken_slots c)"
  using assms by (auto simp: GetFreeIndex_def taken_slots_def card_insert_if split: option.splits)

lemma fold_fill_spec:
  assumes "ci_inv (cache (devices g))" "length (lidars (devices g)) = kMaxSourceLidar"
    and "finite (dom (map_index (cache (devices g))))" "taken_slots (cache (devices g)) + length cs \<le> kMaxSourceLidar"
    and "distinct (map cfg_handle cs)" "c \<in> set cs"
  shows "device_filled k (fold (fill_device k) cs g) c"
  using assms
proof (induction cs arbitrary: g)
  case (Cons x cs)
  note iv = fill_device_inv[OF Cons.prems(1,2), of k x]
  obtain r t where g: "GetFreeIndex kLivoxLidarType (cfg_handle x) (cache (devices g)) = (r, t)" by fastforce
  note gr = GetFreeIndex_grows[OF Cons.prems(3) g]
  obtain j where j: "r = Some j"
    using GetFreeIndex_None[OF Cons.prems(1)] all_taken[OF Cons.prems(3)] Cons.prems(4) g by (cases r) fastforce+
  note sp = GetFreeIndex_spec[OF Cons.prems(1) g[unfolded j]]
  have d: "cache (devices (fill_device k x g)) = t" using g j by (simp add: fill_device_def)
  show ?case
  proof (cases "x = c")
    case False
    then show ?thesis using Cons.IH[of "fill_device k x g"] iv gr d Cons.prems by simp
  next
    case True
    have n: "cfg_handle c \<notin> cfg_handle ` set cs" using Cons.prems(5) True by auto
    let ?g = "fill_device k c g"
    have "GetIndex kLivoxLidarType (cfg_handle c) (cache (devices ?g)) = Some j"
      "handle (lidars (devices ?g) ! unat j) = cfg_handle c" "livox_config (lidars (devices ?g) ! unat j) = c"
      "lidar_type (lidars (devices ?g) ! unat j) = kLivoxLidarType"
      "lidar_extrinsics ?g (cfg_handle c) = Some (published_extrinsics k c)" "unat j < 32"
      using sp g j True Cons.prems(2) by (simp_all add: fill_device_def kMaxSourceLidar_def)
    then show ?thesis using fold_fill_keeps[of ?g "cfg_handle c" j cs k] iv n True by (simp add: device_filled_def)
  qed
qed simp

text \<open>
  init_fills_devices: starting up with at most 32 configured devices of different addresses gives
  every one of them a slot below 32 that holds its handle and configuration and
  registers its mounting for the point clouds, in centimetres instead of
  millimetres when the device delivers low precision points; a second start-up
  is refused.
\<close>
theorem init_fills_devices:
  assumes "cache (devices g) = CacheIndex" "length (lidars (devices g)) = 32" "\<not> is_initialized g"
    and "distinct (map cfg_handle cs)" "length cs \<le> 32" "t AND kLivoxLidarType \<noteq> 0"
  shows "\<exists>g'. InitLdsLidar k (Some t) cs True g = (True, g') \<and> is_initialized g' \<and> info_callback_set g'
    \<and> (\<forall>c \<in> set cs. device_filled k g' c) \<and> InitLdsLidar k s' cs' ok g' = (False, g')"
proof -
  let ?g = "g\<lparr>summary_lidar_type := t\<rparr>"
  let ?h = "fold (fill_device k) cs ?g"
  let ?g' = "?h\<lparr>info_callback_set := True, observers_set := True, is_initialized := True\<rparr>"
  have e: "InitLdsLidar k (Some t) cs True g = (True, ?g')"
    using assms(3,6) by (simp add: InitLdsLidar_def InitLidars_def InitLivoxLidar_def)
  have f: "device_filled k ?h c" if "c \<in> set cs" for c
    using fold_fill_spec[of ?g cs c k] ci_empty assms(1,2,4,5) that
    by (simp add: kMaxSourceLidar_def taken_slots_def) (simp add: CacheIndex_def)
  have "device_filled k ?g' c \<longleftrightarrow> device_filled k ?h c" for c by (simp add: device_filled_def)
  then show ?thesis using e f by (intro exI[of _ ?g']) (simp add: InitLdsLidar_def)
qed

definition fresh_source :: lidar_source where
  "fresh_source = \<lparr>devices = idle_lds, lidar_extrinsics = Map.empty, summary_lidar_type = 0,
     is_initialized = False, observers_set = False, info_callback_set = False\<rparr>"

definition sample_config :: livox_config where
  "sample_config = \<lparr>cfg_handle = 0x3201a8c0, pcl_data_type = 1, pattern_mode = - 1, blind_spot_set = 50,
     dual_emit_en = - 1, extrinsic_param = no_extrinsics, set_bits = 0\<rparr>"

definition sample_codes :: sdk_codes where
  "sample_codes = \<lparr>kLivoxLidarImuData = 0, kLivoxLidarCartesianCoordinateHighData = 1,
      kLivoxLidarCartesianCoordinateLowData = 2, kLivoxLidarSphericalCoordinateData = 3,
      kLivoxLidarTypeIndustrialHAP = 10, kLivoxLidarTypeMid360 = 9\<rparr>"

theorem init_fills_devices_witness:
  "\<exists>g'. InitLdsLidar sample_codes (Some 8) [sample_config] True fresh_source = (True, g')
     \<and> device_filled sample_codes g' sample_config"
  using init_fills_devices[of fresh_source "[sample_config]" 8 sample_codes None "[]" True]
  by (auto simp: fresh_source_def idle_lds_def kLivoxLidarType_def)

section \<open>Confirmation of the settings\<close>

definition setting_bit :: "setting \<Rightarrow> u32" where
  "setting_bit k = (case k of DataType \<Rightarrow> kConfigDataType | PatternMode \<Rightarrow> kConfigScanPattern
     | BlindSpot \<Rightarrow> kConfigBlindSpot | DualEmit \<Rightarrow> kConfigDualEmit)"

definition setting_call :: "setting \<Rightarrow> u32 \<Rightarrow> livox_config \<Rightarrow> sdk_call" where
  "setting_call k h c = (case k of DataType \<Rightarrow> SetLivoxLidarPclDataType h (pcl_data_type c)
     | PatternMode \<Rightarrow> SetLivoxLidarScanPattern h (pattern_mode c)
     | BlindSpot \<Rightarrow> SetLivoxLidarBlindSpot h (blind_spot_set c)
     | DualEmit \<Rightarrow> SetLivoxLidarDualEmit h (dual_emit_en c \<noteq> 0))"

lemma setting_reply_eq: "setting_reply k = setting_callback (setting_bit k) (setting_call k)"
proof -
  have "setting_call DataType = (\<lambda>h c. SetLivoxLidarPclDataType h (pcl_data_type c))"
    "setting_call PatternMode = (\<lambda>h c. SetLivoxLidarScanPattern h (pattern_mode c))"
    "setting_call BlindSpot = (\<lambda>h c. SetLivoxLidarBlindSpot h (blind_spot_set c))"
    "setting_call DualEmit = (\<lambda>h c. SetLivoxLidarDualEmit h (dual_emit_en c \<noteq> 0))"
    by (simp_all add: setting_call_def fun_eq_iff)
  then show ?thesis
    by (cases k) (simp_all only: setting_reply.simps setting_bit_def setting.case SetDataTypeCallback_def
        SetPatternModeCallback_def SetBlindSpotCallback_def SetDualEmitCallback_def)
qed

definition requested :: "livox_config \<Rightarrow> setting set" where
  "requested c = {k. case k of DataType \<Rightarrow> pcl_data_type c \<noteq> - 1 | PatternMode \<Rightarrow> pattern_mode c \<noteq> - 1
     | BlindSpot \<Rightarrow> blind_spot_set c \<noteq> - 1 | DualEmit \<Rightarrow> dual_emit_en c \<noteq> - 1}"

definition confirmed :: "(setting \<times> livox_status) list \<Rightarrow> setting set" where
  "confirmed rs = {k. (k, StatusSuccess) \<in> set rs}"

text \<open>The bits of a set of settings.\<close>

definition bits_of :: "setting set \<Rightarrow> u32" where
  "bits_of S = (if DataType \<in> S then kConfigDataType else 0) OR (if PatternMode \<in> S then kConfigScanPattern else 0)
     OR (if BlindSpot \<in> S then kConfigBlindSpot else 0) OR (if DualEmit \<in> S then kConfigDualEmit else 0)"

lemmas config_bits = kConfigDataType_def kConfigScanPattern_def kConfigBlindSpot_def kConfigDualEmit_def

lemma bits_clear: "bits_of S AND NOT (setting_bit k) = bits_of (S - {k})"
  by (cases k; cases "DataType \<in> S"; cases "PatternMode \<in> S"; cases "BlindSpot \<in> S"; cases "DualEmit \<in> S")
    (simp_all add: bits_of_def setting_bit_def config_bits)

lemma all_settings: "(\<forall>k. P k) \<longleftrightarrow> P DataType \<and> P PatternMode \<and> P BlindSpot \<and> P DualEmit"
proof
  assume a: "P DataType \<and> P PatternMode \<and> P BlindSpot \<and> P DualEmit"
  show "\<forall>k. P k"
  proof
    fix k show "P k" using a by (cases k) simp_all
  qed
qed simp

lemma bits_zero_iff: "bits_of S = 0 \<longleftrightarrow> S = {}"
proof -
  have "S = {} \<longleftrightarrow> DataType \<notin> S \<and> PatternMode \<notin> S \<and> BlindSpot \<notin> S \<and> DualEmit \<notin> S"
    using all_settings[of "\<lambda>k. k \<notin> S"] by auto
  then show ?thesis
    by (cases "DataType \<in> S"; cases "PatternMode \<in> S"; cases "BlindSpot \<in> S"; cases "DualEmit \<in> S")
      (simp_all add: bits_of_def config_bits)
qed

text \<open>A source whose device in slot i, that of handle h, has the configuration c and the pending settings S.\<close>

definition pending :: "u32 \<Rightarrow> nat \<Rightarrow> livox_config \<Rightarrow> setting set \<Rightarrow> bool \<Rightarrow> lds \<Rightarrow> bool" where
  "pending h i c S sampling s \<longleftrightarrow> GetLidarDevice h (Some s) = Some i \<and> i < length (lidars s)
     \<and> livox_config (lidars s ! i) = c\<lparr>set_bits := bits_of S\<rparr>
     \<and> (connect_state (lidars s ! i) = kConnectStateSampling \<longleftrightarrow> sampling)"

lemma reply_pending:
  assumes "pending h i c S sampling s"
  shows "\<exists>s'. setting_reply k st h True (Some s) = Inr (Some s', if st = StatusTimeout then [setting_call k h c] else [])
    \<and> pending h i c (if st = StatusSuccess then S - {k} else S) (sampling \<or> st = StatusSuccess \<and> S \<subseteq> {k}) s'
    \<and> (\<forall>j. j \<noteq> i \<longrightarrow> lidars s' ! j = lidars s ! j)"
proof (cases st)
  case StatusSuccess
  then show ?thesis using assms bits_zero_iff[of "S - {k}"]
    by (auto simp: setting_reply_eq setting_callback_def pending_def bits_clear GetLidarDevice_def Let_def)
next
  case StatusTimeout
  have "setting_call k h (c\<lparr>set_bits := b\<rparr>) = setting_call k h c" for b
    by (simp add: setting_call_def split: setting.splits)
  then show ?thesis using assms StatusTimeout
    by (simp add: setting_reply_eq setting_callback_def pending_def Let_def)
next
  case StatusFailure
  then show ?thesis using assms by (simp add: setting_reply_eq setting_callback_def pending_def)
qed

lemma replies_pending:
  assumes "pending h i c S sampling s"
  shows "\<exists>s'. run_replies rs h (Some s) = Inr (Some s', map (\<lambda>(k, _). setting_call k h c) (filter (\<lambda>(_, st). st = StatusTimeout) rs))
    \<and> pending h i c (S - confirmed rs) (sampling \<or> confirmed rs \<noteq> {} \<and> S \<subseteq> confirmed rs) s'
    \<and> (\<forall>j. j \<noteq> i \<longrightarrow> lidars s' ! j = lidars s ! j)"
  using assms
proof (induction rs arbitrary: S sampling s)
  case Nil
  then show ?case by (simp add: confirmed_def)
next
  case (Cons r rs)
  obtain k st where r: "r = (k, st)" by (cases r)
  obtain s1 where s1: "setting_reply k st h True (Some s) = Inr (Some s1, if st = StatusTimeout then [setting_call k h c] else [])"
    "pending h i c (if st = StatusSuccess then S - {k} else S) (sampling \<or> st = StatusSuccess \<and> S \<subseteq> {k}) s1"
    "\<forall>j. j \<noteq> i \<longrightarrow> lidars s1 ! j = lidars s ! j"
    using reply_pending[OF Cons.prems] by blast
  obtain s2 where s2: "run_replies rs h (Some s1) = Inr (Some s2, map (\<lambda>(k, _). setting_call k h c) (filter (\<lambda>(_, st). st = StatusTimeout) rs))"
    "pending h i c ((if st = StatusSuccess then S - {k} else S) - confirmed rs)
       ((sampling \<or> st = StatusSuccess \<and> S \<subseteq> {k}) \<or> confirmed rs \<noteq> {} \<and> (if st = StatusSuccess then S - {k} else S) \<subseteq> confirmed rs) s2"
    "\<forall>j. j \<noteq> i \<longrightarrow> lidars s2 ! j = lidars s1 ! j"
    using Cons.IH[OF s1(2)] by blast
  have c: "confirmed (r # rs) = (if st = StatusSuccess then insert k (confirmed rs) else confirmed rs)"
    by (auto simp: confirmed_def r)
  have "((if st = StatusSuccess then S - {k} else S) - confirmed rs) = S - confirmed (r # rs)"
    by (auto simp: c)
  moreover have "((sampling \<or> st = StatusSuccess \<and> S \<subseteq> {k}) \<or> confirmed rs \<noteq> {} \<and> (if st = StatusSuccess then S - {k} else S) \<subseteq> confirmed rs)
      = (sampling \<or> confirmed (r # rs) \<noteq> {} \<and> S \<subseteq> confirmed (r # rs))"
    by (cases "confirmed rs = {}") (auto simp: c)
  ultimately have "pending h i c (S - confirmed (r # rs)) (sampling \<or> confirmed (r # rs) \<noteq> {} \<and> S \<subseteq> confirmed (r # rs)) s2"
    using s2(2) by simp
  then show ?case using s1 s2 by (simp add: r)
qed

lemma request_settings_bits:
  "set_bits c = 0 \<Longrightarrow> fst (request_settings h c) = bits_of (requested c)"
  by (simp add: request_settings_def bits_of_def requested_def)

text \<open>
  C24 sampling_when_confirmed: after the SDK reports a configured device, whatever replies to the
  settings requests follow, in any order and with any losses, the device is
  sampling exactly when it was before or the replies confirm every setting of
  its configuration and at least one came; every request that timed out is sent
  again with the configured value, and no other device changes.  A device whose
  configuration has no setting gets no request, so it never starts sampling.
\<close>
theorem sampling_when_confirmed:
  assumes "GetIndex kLivoxLidarType h (cache s) = Some i" "unat i < length (lidars s)"
    and "set_bits (livox_config (lidars s ! unat i)) = 0"
  shows "\<exists>s1 s2 calls. LidarInfoChangeCallback h (Some s) = (Some s1, calls)
    \<and> run_replies rs h (Some s1) = Inr (Some s2,
        map (\<lambda>(k, _). setting_call k h (livox_config (lidars s ! unat i))) (filter (\<lambda>(_, st). st = StatusTimeout) rs))
    \<and> (connect_state (lidars s2 ! unat i) = kConnectStateSampling \<longleftrightarrow>
        connect_state (lidars s ! unat i) = kConnectStateSampling
        \<or> confirmed rs \<noteq> {} \<and> requested (livox_config (lidars s ! unat i)) \<subseteq> confirmed rs)
    \<and> (\<forall>j. j \<noteq> unat i \<longrightarrow> lidars s2 ! j = lidars s ! j)
    \<and> (\<forall>k. setting_call k h (livox_config (lidars s ! unat i)) \<in> set calls
          \<longleftrightarrow> k \<in> requested (livox_config (lidars s ! unat i)))"
proof -
  let ?c = "livox_config (lidars s ! unat i)"
  obtain b calls where b: "request_settings h ?c = (b, calls)" by fastforce
  let ?s1 = "update_config (unat i) (\<lambda>c. c\<lparr>set_bits := b\<rparr>) s"
  let ?calls = "calls @ [SetLivoxLidarInstallAttitude (cfg_handle ?c) (extrinsic_param ?c),
     SetLivoxLidarWorkModeNormal h, EnableLivoxLidarImuData h]"
  have d: "GetLidarDevice h (Some s) = Some (unat i)" using assms(1) by (simp add: GetLidarDevice_def)
  have e: "LidarInfoChangeCallback h (Some s) = (Some ?s1, ?calls)"
    by (simp add: LidarInfoChangeCallback_def d b)
  have "b = bits_of (requested ?c)" using request_settings_bits[OF assms(3), of h] b by simp
  then have p: "pending h (unat i) ?c (requested ?c) (connect_state (lidars s ! unat i) = kConnectStateSampling) ?s1"
    using d assms(2) by (simp add: pending_def update_config_def GetLidarDevice_def)
  have o: "j \<noteq> unat i \<Longrightarrow> lidars ?s1 ! j = lidars s ! j" for j by (simp add: update_config_def)
  have q: "setting_call k h ?c \<in> set ?calls \<longleftrightarrow> k \<in> requested ?c" for k
    using b by (cases k) (auto simp: request_settings_def setting_call_def requested_def)
  obtain s2 where s2: "run_replies rs h (Some ?s1) = Inr (Some s2,
      map (\<lambda>(k, _). setting_call k h ?c) (filter (\<lambda>(_, st). st = StatusTimeout) rs))"
    "pending h (unat i) ?c (requested ?c - confirmed rs) (connect_state (lidars s ! unat i) = kConnectStateSampling
       \<or> confirmed rs \<noteq> {} \<and> requested ?c \<subseteq> confirmed rs) s2"
    "\<forall>j. j \<noteq> unat i \<longrightarrow> lidars s2 ! j = lidars ?s1 ! j"
    using replies_pending[OF p, of rs] by blast
  have "connect_state (lidars s2 ! unat i) = kConnectStateSampling \<longleftrightarrow>
      connect_state (lidars s ! unat i) = kConnectStateSampling
      \<or> confirmed rs \<noteq> {} \<and> requested ?c \<subseteq> confirmed rs" using s2(2) unfolding pending_def by blast
  moreover have "\<forall>j. j \<noteq> unat i \<longrightarrow> lidars s2 ! j = lidars s ! j" using s2(3) o by metis
  ultimately show ?thesis using e s2(1) q by blast
qed

theorem sampling_when_confirmed_witness:
  "\<exists>s1 s2 calls. LidarInfoChangeCallback 7 (Some (idle_lds\<lparr>cache := snd (GetFreeIndex kLivoxLidarType 7 CacheIndex),
      lidars := [idle_device\<lparr>connect_state := kConnectStateOff, livox_config := sample_config\<rparr>]\<rparr>)) = (Some s1, calls)
    \<and> run_replies [(DataType, StatusTimeout), (BlindSpot, StatusSuccess), (DataType, StatusSuccess)] 7 (Some s1)
        = Inr (Some s2, [SetLivoxLidarPclDataType 7 1])
    \<and> connect_state (lidars s2 ! 0) = kConnectStateSampling"
proof -
  let ?s = "idle_lds\<lparr>cache := snd (GetFreeIndex kLivoxLidarType 7 CacheIndex),
      lidars := [idle_device\<lparr>connect_state := kConnectStateOff, livox_config := sample_config\<rparr>]\<rparr>"
  obtain r c where g: "GetFreeIndex kLivoxLidarType 7 CacheIndex = (r, c)" by fastforce
  have r: "r = Some 0" using g
    by (auto simp: GetFreeIndex_def GenerateIndexKey_def CacheIndex_def kMaxSourceLidar_def eval_nat_numeral)
  have i: "GetIndex kLivoxLidarType 7 (cache ?s) = Some 0"
    using GetFreeIndex_spec[OF ci_empty, of kLivoxLidarType 7 0 c] g r by simp
  have "requested sample_config = {DataType, BlindSpot}"
    using all_settings[of "\<lambda>k. k \<in> requested sample_config \<longleftrightarrow> k \<in> {DataType, BlindSpot}"]
    by (auto simp: requested_def sample_config_def)
  then show ?thesis
    using sampling_when_confirmed[OF i, of "[(DataType, StatusTimeout), (BlindSpot, StatusSuccess), (DataType, StatusSuccess)]"]
    by (auto simp: confirmed_def sample_config_def setting_call_def)
qed

text \<open>
  unconfigured_device: a device the configuration does not name gets a slot and is told to start
  working, but nothing records its address and its connection state stays as it
  was, so its points are stored without ever being published.
\<close>
theorem unconfigured_device:
  assumes "ci_inv (cache s)" "length (lidars s) = 32" "GetIndex kLivoxLidarType h (cache s) = None"
    and "taken_slots (cache s) < 32" "finite (dom (map_index (cache s)))"
  shows "\<exists>s' i. LidarInfoChangeCallback h (Some s) = (Some s', [SetLivoxLidarWorkModeNormal h, EnableLivoxLidarImuData h])
    \<and> GetIndex kLivoxLidarType h (cache s') = Some i
    \<and> handle (lidars s' ! unat i) = handle (lidars s ! unat i)
    \<and> connect_state (lidars s' ! unat i) = connect_state (lidars s ! unat i)"
proof -
  obtain r c where g: "GetFreeIndex kLivoxLidarType h (cache s) = (r, c)" by fastforce
  obtain i where i: "r = Some i"
    using GetFreeIndex_None[OF assms(1)] all_taken[OF assms(5)] assms(4) g
    by (cases r) (fastforce simp: kMaxSourceLidar_def)+
  note sp = GetFreeIndex_spec[OF assms(1) g[unfolded i]]
  show ?thesis using sp assms(2,3) g i
    by (simp add: LidarInfoChangeCallback_def GetLidarDevice_def kMaxSourceLidar_def)
qed

theorem unconfigured_device_witness:
  "\<exists>s' i. LidarInfoChangeCallback 7 (Some idle_lds) = (Some s', [SetLivoxLidarWorkModeNormal 7, EnableLivoxLidarImuData 7])
    \<and> handle (lidars s' ! unat (i :: u8)) = handle (lidars idle_lds ! unat i)"
  using unconfigured_device[of idle_lds 7] ci_empty
  by (auto simp: idle_lds_def taken_slots_def GetIndex_def GenerateIndexKey_def) (auto simp: CacheIndex_def)

end
