(* ===== verification/Livox_Pub.thy ===== *)
theory Livox_Pub
  imports Livox_Callback
begin

text \<open>
  From the network to a frame (edge/src/livox_ros_driver2/src/comm/pub_handler.cpp
  and call_back/lidar_common_callback.cpp): packets of the SDK are queued,
  decoded into points in the vehicle's coordinates, collected per device, and
  handed over as a frame when the timer says so.  The layout of the SDK's
  packets, the trigonometric functions and the clock are arguments; arithmetic
  on float and double rounds as the code does.
\<close>

section \<open>Packets\<close>

definition kTimestampTypeNoSync :: u8 where "kTimestampTypeNoSync = 0"
definition kTimestampTypeGptpOrPtp :: u8 where "kTimestampTypeGptpOrPtp = 1"
definition kTimestampTypeGps :: u8 where "kTimestampTypeGps = 2"
definition kRatioOfMsToNs :: u64 where "kRatioOfMsToNs = 1000000"
definition kNsTolerantFrameTimeDeviation :: u64 where "kNsTolerantFrameTimeDeviation = 1000000"
definition kLineNumberDefault :: u8 where "kLineNumberDefault = 1"
definition kLineNumberMid360 :: u8 where "kLineNumberMid360 = 4"
definition kLineNumberHAP :: u8 where "kLineNumberHAP = 6"

text \<open>
  A packet as the SDK hands it over; ep_data is the memory behind its data
  field.
\<close>

record eth_packet =
  ep_length :: u16
  ep_time_interval :: u16
  ep_dot_num :: u16
  ep_data_type :: u8
  ep_time_type :: u8
  ep_timestamp :: "u8 list"
  ep_data :: "u8 list"

record cartesian_point =
  raw_x :: int
  raw_y :: int
  raw_z :: int
  raw_reflectivity :: u8
  raw_tag :: u8

record spherical_point =
  raw_depth :: nat
  raw_theta :: nat
  raw_phi :: nat
  sph_reflectivity :: u8
  sph_tag :: u8

record raw_imu_point =
  raw_gyro :: "fp \<times> fp \<times> fp"
  raw_acc :: "fp \<times> fp \<times> fp"

text \<open>
  What the SDK's header files fix: the size of a packet's header with one data
  byte, and the size and reading of its point structures.
\<close>

record sdk_layout =
  sizeof_packet :: nat
  imu_point_at :: "u8 list \<Rightarrow> raw_imu_point"
  sizeof_high :: nat
  high_point_at :: "u8 list \<Rightarrow> cartesian_point"
  sizeof_low :: nat
  low_point_at :: "u8 list \<Rightarrow> cartesian_point"
  sizeof_spher :: nat
  spher_point_at :: "u8 list \<Rightarrow> spherical_point"

record raw_packet =
  rp_lidar_type :: u8
  rp_handle :: u32
  extrinsic_enable :: bool
  rp_point_num :: u32
  rp_data_type :: u8
  rp_line_num :: u8
  rp_time_stamp :: u64
  rp_point_interval :: u64
  rp_raw_data :: "u8 list"

text \<open>Eight bytes read as an integer, lowest byte first.\<close>

definition stamp_of :: "u8 list \<Rightarrow> u64" where
  "stamp_of bs = foldr (\<lambda>b acc. ucast b + push_bit 8 acc) bs 0"

definition GetEthPacketTimestamp :: "u8 \<Rightarrow> u8 list \<Rightarrow> u64 \<Rightarrow> u64" where
  "GetEthPacketTimestamp timestamp_type time_stamp now =
     (if timestamp_type = kTimestampTypeGptpOrPtp \<or> timestamp_type = kTimestampTypeGps
      then stamp_of time_stamp else now)"

section \<open>The points of one device\<close>

type_synonym fp3 = "fp \<times> fp \<times> fp"

record lidar_pub =
  points_clouds :: "point_xyzlt list"
  trans :: fp3
  rotation :: "fp3 \<times> fp3 \<times> fp3"
  is_set_extrinsic_params :: bool

definition LidarPubHandler :: lidar_pub where
  "LidarPubHandler = \<lparr>points_clouds = [], trans = (Fin 0, Fin 0, Fin 0),
     rotation = ((Fin 1, Fin 0, Fin 0), (Fin 0, Fin 1, Fin 1), (Fin 0, Fin 0, Fin 1)),
     is_set_extrinsic_params = False\<rparr>"

definition GetLidarBaseTime :: "lidar_pub \<Rightarrow> u64" where
  "GetLidarBaseTime h = (if points_clouds h = [] then 0 else pt_offset_time (hd (points_clouds h)))"

definition GetRecentTimeStamp :: "lidar_pub \<Rightarrow> u64" where
  "GetRecentTimeStamp h = (if points_clouds h = [] then 0 else pt_offset_time (last (points_clouds h)))"

text \<open>The points are swapped for an empty vector.\<close>

definition GetLidarPointClouds :: "lidar_pub \<Rightarrow> point_xyzlt list \<times> lidar_pub" where
  "GetLidarPointClouds h = (points_clouds h, h\<lparr>points_clouds := []\<rparr>)"

definition PI :: fp where "PI = f64 (314159265358979323846 / 10 ^ 20)"

definition radians :: "fp \<Rightarrow> fp" where
  "radians a = fp_div f64 (fp_mul f64 a PI) (Fin 180)"

definition SetLidarsExtParam :: "(fp \<Rightarrow> fp) \<Rightarrow> (fp \<Rightarrow> fp) \<Rightarrow> ext_parameter \<Rightarrow> lidar_pub \<Rightarrow> lidar_pub" where
  "SetLidarsExtParam cosd sind p h = (if is_set_extrinsic_params h then h else
     let cr = cosd (radians (roll p)); cp = cosd (radians (pitch p)); cy = cosd (radians (yaw p));
         sr = sind (radians (roll p)); sp = sind (radians (pitch p)); sy = sind (radians (yaw p));
         m = fp_mul f64; a = fp_add f64; d = (\<lambda>x y. fp_add f64 x (fp_neg y))
     in h\<lparr>trans := (f32 (of_int (ext_x p)), f32 (of_int (ext_y p)), f32 (of_int (ext_z p))),
       rotation :=
        ((to_f32 (m cp cy), to_f32 (d (m (m sr sp) cy) (m cr sy)), to_f32 (a (m (m cr sp) cy) (m sr sy))),
         (to_f32 (m cp sy), to_f32 (a (m (m sr sp) sy) (m cr cy)), to_f32 (d (m (m cr sp) sy) (m sr cy))),
         (to_f32 (fp_neg sp), to_f32 (m sr cp), to_f32 (m cr cp))),
       is_set_extrinsic_params := True\<rparr>)"

text \<open>The i-th element of the array the packet's bytes are read as.\<close>

definition raw_at :: "nat \<Rightarrow> (u8 list \<Rightarrow> 'a) \<Rightarrow> u8 list \<Rightarrow> nat \<Rightarrow> 'a res" where
  "raw_at sz dec bs i = (if (i + 1) * sz \<le> length bs then Inr (dec (take sz (drop (i * sz) bs)))
     else Inl OutOfBounds)"

definition make_point :: "raw_packet \<Rightarrow> nat \<Rightarrow> fp3 \<Rightarrow> u8 \<Rightarrow> u8 \<Rightarrow> point_xyzlt res" where
  "make_point pkt i xyz reflectivity tag = (if rp_line_num pkt = 0 then Inl DivByZero else
     Inr \<lparr>pt_x = fst xyz, pt_y = fst (snd xyz), pt_z = snd (snd xyz),
       pt_intensity = f32 (of_nat (unat reflectivity)), pt_tag = tag,
       pt_line = of_nat (i mod unat (rp_line_num pkt)),
       pt_offset_time = rp_time_stamp pkt + of_nat i * rp_point_interval pkt\<rparr>)"

text \<open>A row of the rotation applied in single precision, then scaled in double precision.\<close>

definition cartesian_coord :: "fp \<Rightarrow> fp3 \<Rightarrow> fp \<Rightarrow> cartesian_point \<Rightarrow> fp" where
  "cartesian_coord scale row t p = (case row of (r0, r1, r2) \<Rightarrow>
     to_f32 (fp_div f64 (fp_add f32 (fp_add f32 (fp_add f32
         (fp_mul f32 (f32 (of_int (raw_x p))) r0) (fp_mul f32 (f32 (of_int (raw_y p))) r1))
         (fp_mul f32 (f32 (of_int (raw_z p))) r2)) t) scale))"

definition plain_coord :: "fp \<Rightarrow> int \<Rightarrow> fp" where
  "plain_coord scale v = to_f32 (fp_div f64 (Fin (of_int v)) scale)"

definition cartesian_xyz :: "fp \<Rightarrow> lidar_pub \<Rightarrow> bool \<Rightarrow> cartesian_point \<Rightarrow> fp3" where
  "cartesian_xyz scale h plain p = (if plain
     then (plain_coord scale (raw_x p), plain_coord scale (raw_y p), plain_coord scale (raw_z p))
     else case (rotation h, trans h) of ((a, b, c), (t0, t1, t2)) \<Rightarrow>
       (cartesian_coord scale a t0 p, cartesian_coord scale b t1 p, cartesian_coord scale c t2 p))"

definition spherical_coord :: "fp3 \<Rightarrow> fp \<Rightarrow> fp3 \<Rightarrow> fp" where
  "spherical_coord row t src = (case (row, src) of ((r0, r1, r2), (x, y, z)) \<Rightarrow>
     to_f32 (fp_add f64 (fp_add f64 (fp_add f64 (fp_mul f64 x r0) (fp_mul f64 y r1)) (fp_mul f64 z r2))
       (fp_div f64 t (Fin 1000))))"

definition spherical_xyz :: "(fp \<Rightarrow> fp) \<Rightarrow> (fp \<Rightarrow> fp) \<Rightarrow> lidar_pub \<Rightarrow> bool \<Rightarrow> spherical_point \<Rightarrow> fp3" where
  "spherical_xyz cosd sind h plain p = (
     let radius = fp_div f64 (Fin (of_nat (raw_depth p))) (Fin 1000);
         theta = fp_mul f64 (fp_div f64 (fp_div f64 (Fin (of_nat (raw_theta p))) (Fin 100)) (Fin 180)) PI;
         phi = fp_mul f64 (fp_div f64 (fp_div f64 (Fin (of_nat (raw_phi p))) (Fin 100)) (Fin 180)) PI;
         m = fp_mul f64;
         x = m (m radius (sind theta)) (cosd phi);
         y = m (m radius (sind theta)) (sind phi);
         z = m radius (cosd theta)
     in if plain then (to_f32 x, to_f32 y, to_f32 z)
     else case (rotation h, trans h) of ((a, b, c), (t0, t1, t2)) \<Rightarrow>
       (spherical_coord a t0 (x, y, z), spherical_coord b t1 (x, y, z), spherical_coord c t2 (x, y, z)))"

text \<open>The loops over the points of a packet; each point is appended as it is made.\<close>

fun push_points :: "(nat \<Rightarrow> point_xyzlt res) \<Rightarrow> nat list \<Rightarrow> lidar_pub \<Rightarrow> lidar_pub res" where
  "push_points f [] h = Inr h"
| "push_points f (i # is) h = bindR (f i) (\<lambda>p.
     push_points f is (h\<lparr>points_clouds := points_clouds h @ [p]\<rparr>))"

definition ProcessCartesianHighPoint :: "sdk_layout \<Rightarrow> raw_packet \<Rightarrow> lidar_pub \<Rightarrow> lidar_pub res" where
  "ProcessCartesianHighPoint lay pkt h = push_points (\<lambda>i.
     bindR (raw_at (sizeof_high lay) (high_point_at lay) (rp_raw_data pkt) i) (\<lambda>r.
       make_point pkt i (cartesian_xyz (Fin 1000) h (extrinsic_enable pkt) r) (raw_reflectivity r) (raw_tag r)))
     [0..<unat (rp_point_num pkt)] h"

definition ProcessCartesianLowPoint :: "sdk_layout \<Rightarrow> raw_packet \<Rightarrow> lidar_pub \<Rightarrow> lidar_pub res" where
  "ProcessCartesianLowPoint lay pkt h = push_points (\<lambda>i.
     bindR (raw_at (sizeof_low lay) (low_point_at lay) (rp_raw_data pkt) i) (\<lambda>r.
       make_point pkt i (cartesian_xyz (Fin 100) h (extrinsic_enable pkt) r) (raw_reflectivity r) (raw_tag r)))
     [0..<unat (rp_point_num pkt)] h"

definition ProcessSphericalPoint :: "(fp \<Rightarrow> fp) \<Rightarrow> (fp \<Rightarrow> fp) \<Rightarrow> sdk_layout \<Rightarrow> raw_packet \<Rightarrow> lidar_pub \<Rightarrow> lidar_pub res" where
  "ProcessSphericalPoint cosd sind lay pkt h = push_points (\<lambda>i.
     bindR (raw_at (sizeof_spher lay) (spher_point_at lay) (rp_raw_data pkt) i) (\<lambda>r.
       make_point pkt i (spherical_xyz cosd sind h (extrinsic_enable pkt) r) (sph_reflectivity r) (sph_tag r)))
     [0..<unat (rp_point_num pkt)] h"

text \<open>The environment of the point processing: the SDK's codes and layout and the C library.\<close>

record env =
  codes :: sdk_codes
  layout :: sdk_layout
  cosd :: "fp \<Rightarrow> fp"
  sind :: "fp \<Rightarrow> fp"

definition LivoxLidarPointCloudProcess :: "env \<Rightarrow> raw_packet \<Rightarrow> lidar_pub \<Rightarrow> lidar_pub res" where
  "LivoxLidarPointCloudProcess e pkt h =
     (if rp_data_type pkt = kLivoxLidarCartesianCoordinateHighData (codes e)
        then ProcessCartesianHighPoint (layout e) pkt h
      else if rp_data_type pkt = kLivoxLidarCartesianCoordinateLowData (codes e)
        then ProcessCartesianLowPoint (layout e) pkt h
      else if rp_data_type pkt = kLivoxLidarSphericalCoordinateData (codes e)
        then ProcessSphericalPoint (cosd e) (sind e) (layout e) pkt h
      else Inr h)"

definition PointCloudProcess :: "env \<Rightarrow> raw_packet \<Rightarrow> lidar_pub \<Rightarrow> lidar_pub res" where
  "PointCloudProcess e pkt h = (if rp_lidar_type pkt = kLivoxLidarType
     then LivoxLidarPointCloudProcess e pkt h else Inr h)"

section \<open>Collecting frames\<close>

text \<open>A frame: per device the time of the first point and the points.\<close>

type_synonym point_frame = "(u64 \<times> point_packet) list"

text \<open>
  The handlers stand in the order of their keys, as in the code's map.  The last
  time a frame was published is None before the first packet.
\<close>

record pub_handler =
  raw_packet_queue :: "raw_packet list"
  is_timestamp_sync :: bool
  publish_interval :: u64
  publish_interval_tolerance :: u64
  publish_interval_ms :: u64
  last_pub_time :: "int option"
  handlers :: "(u32 \<times> lidar_pub) list"
  mountings :: "u32 \<rightharpoonup> ext_parameter"

fun put_handler :: "u32 \<Rightarrow> lidar_pub \<Rightarrow> (u32 \<times> lidar_pub) list \<Rightarrow> (u32 \<times> lidar_pub) list" where
  "put_handler k v [] = [(k, v)]"
| "put_handler k v ((a, b) # xs) = (if k < a then (k, v) # (a, b) # xs
     else if k = a then (k, v) # xs else (a, b) # put_handler k v xs)"

definition SetPointCloudConfig :: "fp \<Rightarrow> pub_handler \<Rightarrow> pub_handler res" where
  "SetPointCloudConfig freq st =
     bindR (fp_to_unsigned (fp_mul f64 (fp_div f64 (Fin 1000000000) (fp_mul f64 freq (Fin 10))) (Fin 10))) (\<lambda>n.
       Inr (st\<lparr>publish_interval := n, publish_interval_tolerance := n - kNsTolerantFrameTimeDeviation,
         publish_interval_ms := n div kRatioOfMsToNs\<rparr>))"

text \<open>
  The SDK's callback: what is queued, and the IMU sample that is handed on.
  The length field says how many bytes are copied, the header's size less.
\<close>

definition OnLivoxLidarPointCloudCallback :: "env \<Rightarrow> u64 \<Rightarrow> u32 \<Rightarrow> u8 \<Rightarrow> eth_packet \<Rightarrow> pub_handler \<Rightarrow>
    (imu_data option \<times> pub_handler) res" where
  "OnLivoxLidarPointCloudCallback e now h dev_type d st =
    (let st' = st\<lparr>is_timestamp_sync := (ep_time_type d \<noteq> kTimestampTypeNoSync)\<rparr>;
         t = GetEthPacketTimestamp (ep_time_type d) (ep_timestamp d) now in
     if ep_data_type d = kLivoxLidarImuData (codes e) then
       (let r = imu_point_at (layout e) (ep_data d) in
        Inr (Some \<lparr>imu_lidar_type = kLivoxLidarType, imu_handle = h, imu_time_stamp = t,
          gyro_x = fst (raw_gyro r), gyro_y = fst (snd (raw_gyro r)), gyro_z = snd (snd (raw_gyro r)),
          acc_x = fst (raw_acc r), acc_y = fst (snd (raw_acc r)), acc_z = snd (snd (raw_acc r))\<rparr>, st'))
     else if ep_dot_num d = 0 then Inl DivByZero
     else let len = ucast (ep_length d) - of_nat (sizeof_packet (layout e)) + 1 :: u32 in
       if length (ep_data d) < unat len then Inl OutOfBounds
       else Inr (None, st'\<lparr>raw_packet_queue := raw_packet_queue st' @ [\<lparr>
         rp_lidar_type = kLivoxLidarType, rp_handle = h, extrinsic_enable = False,
         rp_point_num = ucast (ep_dot_num d), rp_data_type = ep_data_type d,
         rp_line_num = (if dev_type = kLivoxLidarTypeIndustrialHAP (codes e) then kLineNumberHAP
           else if dev_type = kLivoxLidarTypeMid360 (codes e) then kLineNumberMid360 else kLineNumberDefault),
         rp_time_stamp = t,
         rp_point_interval = of_nat (unat (ep_time_interval d) * 100 div unat (ep_dot_num d)),
         rp_raw_data = take (unat len) (ep_data d)\<rparr>]\<rparr>))"

definition frame_entry :: "u32 \<Rightarrow> lidar_pub \<Rightarrow> u64 \<times> point_packet" where
  "frame_entry k h = (GetLidarBaseTime h, \<lparr>pp_handle = k, pp_lidar_type = kLivoxLidarType,
     pp_points_num = of_nat (length (points_clouds h)), pp_points = points_clouds h\<rparr>)"

text \<open>The frame has room for 32 devices; a base time is stored before the points are looked at.\<close>

fun collect :: "(u32 \<times> lidar_pub) list \<Rightarrow> point_frame \<Rightarrow> (point_frame \<times> (u32 \<times> lidar_pub) list) res" where
  "collect [] fr = Inr (fr, [])"
| "collect ((k, h) # hs) fr = (if kMaxSourceLidar \<le> length fr then Inl OutOfBounds
     else bindR (collect hs (if points_clouds h = [] then fr else fr @ [frame_entry k h])) (\<lambda>(fr', hs').
       Inr (fr', (k, snd (GetLidarPointClouds h)) # hs')))"

definition CheckTimer :: "int \<Rightarrow> u32 \<Rightarrow> pub_handler \<Rightarrow> (point_frame option \<times> pub_handler) res" where
  "CheckTimer now k st = (if is_timestamp_sync st then
      (case map_of (handlers st) k of None \<Rightarrow> Inl NullDeref
       | Some h \<Rightarrow> if publish_interval_ms st = 0 then Inl DivByZero
          else let ms = GetRecentTimeStamp h div kRatioOfMsToNs in
            if ms mod publish_interval_ms st \<noteq> 0 \<or> ms = 0 then Inr (None, st)
            else if GetRecentTimeStamp h - GetLidarBaseTime h < publish_interval_tolerance st then Inr (None, st)
            else let st' = st\<lparr>handlers := put_handler k (snd (GetLidarPointClouds h)) (handlers st)\<rparr> in
              if points_clouds h = [] then Inr (None, st') else Inr (Some [frame_entry k h], st'))
    else (case last_pub_time st of None \<Rightarrow> Inr (None, st\<lparr>last_pub_time := Some now\<rparr>)
       | Some l \<Rightarrow> if now - l < uint (publish_interval st) then Inr (None, st)
          else bindR (collect (handlers st) []) (\<lambda>(fr, hs).
            Inr (Some fr, st\<lparr>last_pub_time := Some (l + uint (publish_interval st)), handlers := hs\<rparr>))))"

definition GetLidarId :: "u8 \<Rightarrow> u32 \<Rightarrow> u32" where
  "GetLidarId t h = (if t = kLivoxLidarType then h else 0)"

text \<open>One packet: the handler of its device is created and mounted on demand.\<close>

definition process_packet :: "env \<Rightarrow> int \<Rightarrow> raw_packet \<Rightarrow> pub_handler \<Rightarrow> (point_frame option \<times> pub_handler) res" where
  "process_packet e now pkt st = (let k = GetLidarId (rp_lidar_type pkt) (rp_handle pkt);
       h0 = (case map_of (handlers st) k of None \<Rightarrow> LidarPubHandler | Some h \<Rightarrow> h);
       h1 = (case mountings st k of None \<Rightarrow> h0 | Some p \<Rightarrow> SetLidarsExtParam (cosd e) (sind e) p h0)
     in bindR (PointCloudProcess e pkt h1) (\<lambda>h2.
       CheckTimer now k (st\<lparr>handlers := put_handler k h2 (handlers st)\<rparr>)))"

section \<open>Handing over\<close>

definition OnLidarPointClounCb :: "(u32 \<Rightarrow> storage_packet list) \<Rightarrow> point_frame \<Rightarrow> lds \<Rightarrow> lds res" where
  "OnLidarPointClounCb fresh fr s = (if fr = [] then Inr s else StoragePointData fresh fr s)"

definition LidarImuDataCallback :: "imu_data \<Rightarrow> lds \<Rightarrow> lds res" where
  "LidarImuDataCallback d s = StorageImuData d s"

text \<open>One round of the processing thread.\<close>

definition RawDataProcess :: "env \<Rightarrow> (u32 \<Rightarrow> storage_packet list) \<Rightarrow> int \<Rightarrow> pub_handler \<times> lds \<Rightarrow> (pub_handler \<times> lds) res" where
  "RawDataProcess e fresh now ps = (case ps of (st, s) \<Rightarrow>
     (case raw_packet_queue st of [] \<Rightarrow> Inr (st, s)
      | pkt # q \<Rightarrow> bindR (process_packet e now pkt (st\<lparr>raw_packet_queue := q\<rparr>)) (\<lambda>(fr, st').
          case fr of None \<Rightarrow> Inr (st', s)
          | Some f \<Rightarrow> bindR (OnLidarPointClounCb fresh f s) (\<lambda>s'. Inr (st', s')))))"

section \<open>Decoding\<close>

lemma push_points_iff:
  "push_points f is h = Inr h' \<longleftrightarrow> (\<exists>ps. list_all2 (\<lambda>i p. f i = Inr p) is ps
     \<and> h' = h\<lparr>points_clouds := points_clouds h @ ps\<rparr>)"
proof (induction "is" arbitrary: h)
  case (Cons i "is")
  show ?case
  proof (cases "f i")
    case (Inl e)
    then show ?thesis by (auto simp: list_all2_Cons1)
  next
    case (Inr p)
    then show ?thesis by (auto simp: Cons.IH list_all2_Cons1)
  qed
qed auto

lemma push_points_total:
  assumes "\<forall>i \<in> set is. \<exists>p. f i = Inr p"
  shows "\<exists>ps. push_points f is h = Inr (h\<lparr>points_clouds := points_clouds h @ ps\<rparr>) \<and> list_all2 (\<lambda>i p. f i = Inr p) is ps"
proof -
  have "list_all2 (\<lambda>i p. f i = Inr p) is (map (\<lambda>i. projr (f i)) is)"
    using assms by (auto simp: list_all2_conv_all_nth) (metis nth_mem sum.sel(2))
  then show ?thesis using push_points_iff[of f "is" h] by blast
qed

lemma push_points_fails:
  "i \<in> set is \<Longrightarrow> f i = Inl e \<Longrightarrow> \<not> isOk (push_points f is h)"
  by (cases "push_points f is h") (auto simp: push_points_iff list_all2_conv_all_nth in_set_conv_nth)

lemma push_points_error: "push_points f is h = Inl e \<Longrightarrow> \<exists>i \<in> set is. f i = Inl e"
proof (induction "is" arbitrary: h)
  case (Cons i "is")
  then show ?case by (cases "f i") auto
qed simp

text \<open>
  cartesian_packet: a packet of cartesian points, at high or low precision, is decoded whenever
  its bytes hold as many points as it announces: exactly that many points are
  appended in order, the i-th with the packet's time plus i intervals, the line
  i modulo the number of lines, and the tag and reflectivity of the i-th raw
  point.  When the bytes are too few the code reads past them.
\<close>
theorem cartesian_packet:
  assumes "rp_line_num pkt \<noteq> 0"
    and "(sz, dec, process) \<in> {(sizeof_high lay, high_point_at lay, ProcessCartesianHighPoint),
      (sizeof_low lay, low_point_at lay, ProcessCartesianLowPoint)}"
  shows "if unat (rp_point_num pkt) * sz \<le> length (rp_raw_data pkt)
    then \<exists>ps. process lay pkt h = Inr (h\<lparr>points_clouds := points_clouds h @ ps\<rparr>)
       \<and> length ps = unat (rp_point_num pkt)
       \<and> (\<forall>i < length ps. let r = dec (take sz (drop (i * sz) (rp_raw_data pkt))) in
            pt_offset_time (ps ! i) = rp_time_stamp pkt + of_nat i * rp_point_interval pkt
          \<and> unat (pt_line (ps ! i)) = i mod unat (rp_line_num pkt)
          \<and> pt_tag (ps ! i) = raw_tag r \<and> pt_intensity (ps ! i) = f32 (of_nat (unat (raw_reflectivity r))))
    else process lay pkt h = Inl OutOfBounds"
proof -
  obtain scale where pr: "process lay pkt h = push_points (\<lambda>i. bindR (raw_at sz dec (rp_raw_data pkt) i) (\<lambda>r.
      make_point pkt i (cartesian_xyz scale h (extrinsic_enable pkt) r) (raw_reflectivity r) (raw_tag r)))
      [0..<unat (rp_point_num pkt)] h" (is "_ = push_points ?f _ _")
    using assms(2) by (auto simp: ProcessCartesianHighPoint_def ProcessCartesianLowPoint_def)
  have l: "unat (of_nat (i mod unat (rp_line_num pkt)) :: u8) = i mod unat (rp_line_num pkt)" for i
  proof -
    have "i mod unat (rp_line_num pkt) < unat (rp_line_num pkt)" using assms(1) by (simp add: unat_gt_0)
    also have "\<dots> < 2 ^ LENGTH(8)" by (rule unsigned_less)
    finally show ?thesis by (simp add: unat_of_nat)
  qed
  show ?thesis
  proof (cases "unat (rp_point_num pkt) * sz \<le> length (rp_raw_data pkt)")
    case True
    have b: "(i + 1) * sz \<le> length (rp_raw_data pkt)" if "i < unat (rp_point_num pkt)" for i
    proof -
      have "(i + 1) * sz \<le> unat (rp_point_num pkt) * sz" using that by (intro mult_right_mono) auto
      then show ?thesis using True by linarith
    qed
    have f: "\<forall>i \<in> set [0..<unat (rp_point_num pkt)]. \<exists>p. ?f i = Inr p"
      using b assms(1) by (auto simp: raw_at_def make_point_def)
    from push_points_total[OF f, of h] obtain ps where
      ps: "process lay pkt h = Inr (h\<lparr>points_clouds := points_clouds h @ ps\<rparr>)"
      "list_all2 (\<lambda>i p. ?f i = Inr p) [0..<unat (rp_point_num pkt)] ps" by (auto simp: pr)
    have n: "length ps = unat (rp_point_num pkt)" using ps(2) by (auto dest: list_all2_lengthD)
    have at: "make_point pkt i (cartesian_xyz scale h (extrinsic_enable pkt) (dec (take sz (drop (i * sz) (rp_raw_data pkt)))))
        (raw_reflectivity (dec (take sz (drop (i * sz) (rp_raw_data pkt)))))
        (raw_tag (dec (take sz (drop (i * sz) (rp_raw_data pkt))))) = Inr (ps ! i)" if "i < length ps" for i
      using list_all2_nthD[OF ps(2), of i] b[of i] that n by (simp add: raw_at_def)
    have each: "pt_offset_time (ps ! i) = rp_time_stamp pkt + of_nat i * rp_point_interval pkt
        \<and> unat (pt_line (ps ! i)) = i mod unat (rp_line_num pkt)
        \<and> pt_tag (ps ! i) = raw_tag (dec (take sz (drop (i * sz) (rp_raw_data pkt))))
        \<and> pt_intensity (ps ! i) = f32 (of_nat (unat (raw_reflectivity (dec (take sz (drop (i * sz) (rp_raw_data pkt)))))))"
      if "i < length ps" for i
      using at[OF that, symmetric] assms(1) l[of i] by (simp add: make_point_def del: of_nat_mod)
    have "\<forall>i < length ps. let r = dec (take sz (drop (i * sz) (rp_raw_data pkt))) in
            pt_offset_time (ps ! i) = rp_time_stamp pkt + of_nat i * rp_point_interval pkt
          \<and> unat (pt_line (ps ! i)) = i mod unat (rp_line_num pkt)
          \<and> pt_tag (ps ! i) = raw_tag r \<and> pt_intensity (ps ! i) = f32 (of_nat (unat (raw_reflectivity r)))"
      unfolding Let_def by (intro allI impI) (rule each)
    then show ?thesis unfolding if_P[OF True] using ps(1) n by blast
  next
    case False
    let ?i = "unat (rp_point_num pkt) - 1"
    have n: "0 < unat (rp_point_num pkt)" using False by (cases "unat (rp_point_num pkt)") auto
    then have "?f ?i = Inl OutOfBounds" using False by (simp add: raw_at_def)
    then have "\<not> isOk (process lay pkt h)" using push_points_fails[of ?i _ ?f] n by (simp add: pr)
    then obtain e where e: "process lay pkt h = Inl e" by (cases "process lay pkt h") auto
    then have "push_points ?f [0..<unat (rp_point_num pkt)] h = Inl e" by (simp only: pr)
    from push_points_error[OF this] obtain i where "?f i = Inl e" by blast
    then have "e = OutOfBounds" using assms(1) by (simp add: raw_at_def make_point_def split: if_splits)
    then show ?thesis using False e by simp
  qed
qed

definition sample_layout :: sdk_layout where
  "sample_layout = \<lparr>sizeof_packet = 37, imu_point_at = (\<lambda>_. \<lparr>raw_gyro = (Fin 0, Fin 0, Fin 0), raw_acc = (Fin 0, Fin 0, Fin 0)\<rparr>),
     sizeof_high = 5, high_point_at = (\<lambda>bs. \<lparr>raw_x = uint (bs ! 0), raw_y = uint (bs ! 1), raw_z = uint (bs ! 2),
       raw_reflectivity = bs ! 3, raw_tag = bs ! 4\<rparr>),
     sizeof_low = 5, low_point_at = (\<lambda>bs. \<lparr>raw_x = uint (bs ! 0), raw_y = uint (bs ! 1), raw_z = uint (bs ! 2),
       raw_reflectivity = bs ! 3, raw_tag = bs ! 4\<rparr>),
     sizeof_spher = 5, spher_point_at = (\<lambda>bs. \<lparr>raw_depth = unat (bs ! 0), raw_theta = unat (bs ! 1),
       raw_phi = unat (bs ! 2), sph_reflectivity = bs ! 3, sph_tag = bs ! 4\<rparr>)\<rparr>"

definition sample_packet :: raw_packet where
  "sample_packet = \<lparr>rp_lidar_type = 8, rp_handle = 7, extrinsic_enable = False, rp_point_num = 2,
     rp_data_type = 1, rp_line_num = 4, rp_time_stamp = 100, rp_point_interval = 10,
     rp_raw_data = [1, 2, 3, 40, 5, 6, 7, 8, 90, 10]\<rparr>"

theorem cartesian_packet_witness:
  "\<exists>ps. ProcessCartesianHighPoint sample_layout sample_packet LidarPubHandler
      = Inr (LidarPubHandler\<lparr>points_clouds := ps\<rparr>) \<and> length ps = 2 \<and> pt_offset_time (ps ! 1) = 110"
  using cartesian_packet[of sample_packet 5 "high_point_at sample_layout" ProcessCartesianHighPoint sample_layout LidarPubHandler]
  by (auto simp: sample_packet_def sample_layout_def LidarPubHandler_def Let_def)

section \<open>The mounting\<close>

lemma rnd_of_int:
  assumes "\<bar>k\<bar> < 2 ^ nat p" "1 \<le> p" "emin \<le> 0"
  shows "rnd p emin (of_int k) = of_int k"
proof (cases "k = 0")
  case False
  let ?m = "max (ilog2 \<bar>of_int k\<bar>) emin"
  have pos: "0 < \<bar>of_int k :: rat\<bar>" using False by simp
  have "(2::rat) powi ilog2 \<bar>of_int k\<bar> \<le> \<bar>of_int k\<bar>" by (rule ilog2_lower[OF pos])
  also have "\<dots> < 2 powi p"
  proof -
    have "(2::rat) powi p = of_int (2 ^ nat p)" using assms(2) by (simp add: powi_nat_2)
    then show ?thesis using assms(1) by (metis of_int_abs of_int_less_iff)
  qed
  finally have "ilog2 \<bar>of_int k\<bar> < p"
    by (meson not_le order_less_le_trans power_int_increasing one_le_numeral leD)
  then have m: "?m - p + 1 \<le> 0" using assms(2,3) by simp
  have u: "of_int k / ulp p emin (of_int k) = of_int (k * 2 ^ nat (- (?m - p + 1)))"
  proof -
    have "ulp p emin (of_int k) = inverse (2 powi (- (?m - p + 1)))"
      by (simp only: ulp_def power_int_minus inverse_inverse_eq)
    also have "\<dots> = inverse (of_int (2 ^ nat (- (?m - p + 1))))"
      using m by (simp only: powi_nat_2[of "- (?m - p + 1)"] neg_0_le_iff_le of_int_power of_int_numeral)
    finally show ?thesis by (simp add: divide_inverse)
  qed
  have "rnd p emin (of_int k) = ulp p emin (of_int k) * of_int (rne (of_int k / ulp p emin (of_int k)))"
    using False by (simp add: rnd_def)
  also have "\<dots> = ulp p emin (of_int k) * (of_int k / ulp p emin (of_int k))"
    by (simp only: u rne_of_int)
  also have "\<dots> = of_int k" using ulp_pos[of p emin "of_int k"] by (simp add: less_le)
  finally show ?thesis .
qed simp

lemma f32_of_int: "\<bar>k\<bar> < 2 ^ 24 \<Longrightarrow> f32 (of_int k) = Fin (of_int k)"
proof -
  assume k: "\<bar>k\<bar> < 2 ^ 24"
  have r: "rnd 24 (- 126) (of_int k) = of_int k" using k by (intro rnd_of_int) simp_all
  have "ilog2 \<bar>of_int k\<bar> \<le> 127" if "k \<noteq> 0"
  proof (rule ccontr)
    assume "\<not> ilog2 \<bar>of_int k\<bar> \<le> 127"
    then have "(2::rat) powi 24 \<le> 2 powi ilog2 \<bar>of_int k\<bar>" by (intro power_int_increasing) auto
    also have "\<dots> \<le> \<bar>of_int k\<bar>" using that by (intro ilog2_lower) simp
    finally have "(2::int) ^ 24 \<le> \<bar>k\<bar>" by (simp add: powi_nat_2)
    then show False using k by simp
  qed
  then show ?thesis using r by (simp add: f32_def fp_of_def Let_def)
qed

text \<open>
  unmounted_shears_y: for a device without configured mounting the points are not left as they
  are: x and z are, but y comes out as if the raw point's y coordinate were
  y + z.  The same with the mounting flag of the packet set gives y.
\<close>
theorem unmounted_shears_y:
  assumes "\<bar>raw_x p\<bar> < 2 ^ 23" "\<bar>raw_y p\<bar> < 2 ^ 23" "\<bar>raw_z p\<bar> < 2 ^ 23"
  shows "cartesian_xyz scale LidarPubHandler False p
      = (plain_coord scale (raw_x p), plain_coord scale (raw_y p + raw_z p), plain_coord scale (raw_z p))
    \<and> cartesian_xyz scale LidarPubHandler True p
      = (plain_coord scale (raw_x p), plain_coord scale (raw_y p), plain_coord scale (raw_z p))"
proof -
  have e: "f32 (of_int k) = Fin (of_int k)" if "\<bar>k\<bar> < 2 ^ 24" for k using f32_of_int[OF that] .
  have x: "f32 (of_int (raw_x p)) = Fin (of_int (raw_x p))" and y: "f32 (of_int (raw_y p)) = Fin (of_int (raw_y p))"
    and z: "f32 (of_int (raw_z p)) = Fin (of_int (raw_z p))" using assms by (auto intro!: e)
  have yz: "f32 (of_int (raw_y p) + of_int (raw_z p)) = Fin (of_int (raw_y p + raw_z p))"
    using e[of "raw_y p + raw_z p"] assms by simp
  show ?thesis
    using x y z yz by (simp add: cartesian_xyz_def cartesian_coord_def LidarPubHandler_def plain_coord_def)
qed

theorem unmounted_shears_y_witness:
  "fst (snd (cartesian_xyz (Fin 1000) LidarPubHandler False
      \<lparr>raw_x = 1000, raw_y = 0, raw_z = 2000, raw_reflectivity = 9, raw_tag = 0\<rparr>)) = plain_coord (Fin 1000) 2000"
  using unmounted_shears_y[of "\<lparr>raw_x = 1000, raw_y = 0, raw_z = 2000, raw_reflectivity = 9, raw_tag = 0\<rparr>" "Fin 1000"]
  by simp


section \<open>Nothing is lost on the way to a frame\<close>

definition pending_points :: "pub_handler \<Rightarrow> u32 \<Rightarrow> point_xyzlt list" where
  "pending_points st k = (case map_of (handlers st) k of None \<Rightarrow> [] | Some h \<Rightarrow> points_clouds h)"

definition frame_points :: "u32 \<Rightarrow> point_frame \<Rightarrow> point_xyzlt list" where
  "frame_points k fr = concat (map (\<lambda>x. if pp_handle (snd x) = k then pp_points (snd x) else []) fr)"

definition entry_ok :: "u64 \<times> point_packet \<Rightarrow> bool" where
  "entry_ok x \<longleftrightarrow> pp_points (snd x) \<noteq> [] \<and> fst x = pt_offset_time (hd (pp_points (snd x)))
     \<and> pp_points_num (snd x) = of_nat (length (pp_points (snd x)))"

definition handlers_sorted :: "pub_handler \<Rightarrow> bool" where
  "handlers_sorted st \<longleftrightarrow> sorted_wrt (<) (map fst (handlers st))"

lemma map_of_put: "map_of (put_handler k v hs) = (map_of hs)(k \<mapsto> v)"
  by (induction k v hs rule: put_handler.induct) (auto simp: fun_eq_iff)

lemma put_keys: "fst ` set (put_handler k v hs) = insert k (fst ` set hs)"
  by (induction k v hs rule: put_handler.induct) auto

lemma put_sorted: "sorted_wrt (<) (map fst hs) \<Longrightarrow> sorted_wrt (<) (map fst (put_handler k v hs))"
proof (induction k v hs rule: put_handler.induct)
  case (2 k v a b xs)
  have "\<forall>y \<in> fst ` set (put_handler k v xs). a < y" if "a < k"
    using 2(2) that by (auto simp: put_keys)
  then show ?case using 2 by (auto simp: not_less less_le)
qed simp

lemma frame_points_append: "frame_points k (xs @ ys) = frame_points k xs @ frame_points k ys"
  by (simp add: frame_points_def)

lemma frame_entry_ok: "points_clouds h \<noteq> [] \<Longrightarrow> entry_ok (frame_entry k h)"
  by (simp add: entry_ok_def frame_entry_def GetLidarBaseTime_def)

lemma frame_points_entry: "frame_points k [frame_entry j h] = (if j = k then points_clouds h else [])"
  by (simp add: frame_points_def frame_entry_def)

lemma collect_spec:
  assumes "collect hs fr = Inr (fr', hs')" "distinct (map fst hs)"
  shows "map fst hs' = map fst hs \<and> (\<forall>x \<in> set fr'. x \<in> set fr \<or> entry_ok x)
    \<and> (\<forall>k. frame_points k fr' = frame_points k fr @ (case map_of hs k of None \<Rightarrow> [] | Some h \<Rightarrow> points_clouds h)
          \<and> (case map_of hs' k of None \<Rightarrow> [] | Some h \<Rightarrow> points_clouds h) = [])"
  using assms
proof (induction hs arbitrary: fr fr' hs')
  case Nil
  then show ?case by simp
next
  case (Cons x hs)
  obtain k h where x: "x = (k, h)" by (cases x)
  let ?fr = "if points_clouds h = [] then fr else fr @ [frame_entry k h]"
  obtain hs2 where c: "collect hs ?fr = Inr (fr', hs2)" "hs' = (k, h\<lparr>points_clouds := []\<rparr>) # hs2"
    using Cons.prems(1) by (auto simp: x bindR_eq_Inr GetLidarPointClouds_def split: if_splits)
  have d: "distinct (map fst hs)" "map_of hs k = None" using Cons.prems(2) by (auto simp: x map_of_eq_None_iff)
  note ih = Cons.IH[OF c(1) d(1)]
  have fp: "frame_points j ?fr = frame_points j fr @ (if j = k then points_clouds h else [])" for j
    by (auto simp: frame_points_append frame_points_entry)
  have "frame_points j fr' = frame_points j fr @ (case map_of (x # hs) j of None \<Rightarrow> [] | Some h \<Rightarrow> points_clouds h)" for j
    using ih fp[of j] d(2) by (cases "j = k") (simp_all add: x)
  moreover have "(case map_of hs' j of None \<Rightarrow> [] | Some h \<Rightarrow> points_clouds h) = []" for j
    using ih by (simp add: c(2))
  moreover have "\<forall>y \<in> set fr'. y \<in> set fr \<or> entry_ok y"
    using ih frame_entry_ok[of h k] by (auto split: if_splits)
  ultimately show ?case using ih by (simp add: c(2) x)
qed

definition frame_of :: "point_frame option \<Rightarrow> point_frame" where
  "frame_of fr = (case fr of None \<Rightarrow> [] | Some f \<Rightarrow> f)"

lemma CheckTimer_spec:
  assumes "CheckTimer now k st = Inr (fr, st')" "handlers_sorted st"
  shows "handlers_sorted st' \<and> mountings st' = mountings st \<and> (\<forall>x \<in> set (frame_of fr). entry_ok x)
    \<and> (\<forall>j. frame_points j (frame_of fr) @ pending_points st' j = pending_points st j)"
proof (cases "is_timestamp_sync st")
  case True
  then obtain h where h: "map_of (handlers st) k = Some h"
    using assms(1) by (auto simp: CheckTimer_def split: option.splits)
  let ?s = "st\<lparr>handlers := put_handler k (snd (GetLidarPointClouds h)) (handlers st)\<rparr>"
  have c: "fr = None \<and> st' = st \<or> fr = None \<and> points_clouds h = [] \<and> st' = ?s
      \<or> fr = Some [frame_entry k h] \<and> points_clouds h \<noteq> [] \<and> st' = ?s"
    using assms(1) True h by (auto simp: CheckTimer_def Let_def split: if_splits)
  have s: "handlers_sorted ?s" using assms(2) by (simp add: handlers_sorted_def put_sorted)
  have p: "pending_points ?s j = (if j = k then [] else pending_points st j)" for j
    by (simp add: pending_points_def map_of_put GetLidarPointClouds_def)
  have q: "pending_points st k = points_clouds h" by (simp add: pending_points_def h)
  show ?thesis using c s p q assms(2) frame_entry_ok[of h k]
    by (elim disjE conjE) (auto simp: frame_of_def frame_points_entry, auto simp: frame_points_def)
next
  case False
  have d: "distinct (map fst (handlers st))"
    using assms(2) by (simp add: handlers_sorted_def strict_sorted_iff)
  show ?thesis
  proof (cases "fr = None")
    case True
    then have "handlers st' = handlers st \<and> mountings st' = mountings st"
      using assms(1) False by (auto simp: CheckTimer_def bindR_eq_Inr split: option.splits if_splits)
    then show ?thesis using assms(2) True
      by (simp add: frame_of_def handlers_sorted_def pending_points_def frame_points_def)
  next
    case some: False
    then obtain f hs l where f: "fr = Some f" "collect (handlers st) [] = Inr (f, hs)"
      "st' = st\<lparr>last_pub_time := Some l, handlers := hs\<rparr>"
      using assms(1) False by (auto simp: CheckTimer_def bindR_eq_Inr split: option.splits if_splits)
    note cs = collect_spec[OF f(2) d]
    show ?thesis using cs assms(2)
      by (simp add: f(1,3) frame_of_def handlers_sorted_def pending_points_def frame_points_def)
  qed
qed

text \<open>The points a packet adds to its device.\<close>

definition packet_points :: "env \<Rightarrow> raw_packet \<Rightarrow> lidar_pub \<Rightarrow> point_xyzlt list" where
  "packet_points e pkt h = (case PointCloudProcess e pkt (h\<lparr>points_clouds := []\<rparr>) of
     Inr h' \<Rightarrow> points_clouds h' | Inl _ \<Rightarrow> [])"

lemma xyz_frame [simp]:
  "cartesian_xyz scale (h\<lparr>points_clouds := ps\<rparr>) = cartesian_xyz scale h"
  "spherical_xyz c s (h\<lparr>points_clouds := ps\<rparr>) = spherical_xyz c s h"
  by (simp_all add: cartesian_xyz_def spherical_xyz_def fun_eq_iff Let_def)

lemma push_points_from: "push_points f is h = Inr h' \<Longrightarrow>
    \<exists>ps. push_points f is (h\<lparr>points_clouds := []\<rparr>) = Inr (h\<lparr>points_clouds := ps\<rparr>)
      \<and> h' = h\<lparr>points_clouds := points_clouds h @ ps\<rparr>"
  by (auto simp: push_points_iff)

lemma PointCloudProcess_appends:
  assumes "PointCloudProcess e pkt h = Inr h'"
  shows "h' = h\<lparr>points_clouds := points_clouds h @ packet_points e pkt h\<rparr>"
proof -
  have "PointCloudProcess e pkt h = Inr h \<and> PointCloudProcess e pkt (h\<lparr>points_clouds := []\<rparr>) = Inr (h\<lparr>points_clouds := []\<rparr>)
      \<or> (\<exists>f is. PointCloudProcess e pkt h = push_points f is h
          \<and> PointCloudProcess e pkt (h\<lparr>points_clouds := []\<rparr>) = push_points f is (h\<lparr>points_clouds := []\<rparr>))"
    unfolding PointCloudProcess_def LivoxLidarPointCloudProcess_def ProcessCartesianHighPoint_def
      ProcessCartesianLowPoint_def ProcessSphericalPoint_def xyz_frame
    by (cases "rp_lidar_type pkt = kLivoxLidarType";
        cases "rp_data_type pkt = kLivoxLidarCartesianCoordinateHighData (codes e)";
        cases "rp_data_type pkt = kLivoxLidarCartesianCoordinateLowData (codes e)";
        cases "rp_data_type pkt = kLivoxLidarSphericalCoordinateData (codes e)"; simp) blast+
  then show ?thesis
  proof (elim disjE exE conjE)
    fix f "is"
    assume a: "PointCloudProcess e pkt h = push_points f is h"
      "PointCloudProcess e pkt (h\<lparr>points_clouds := []\<rparr>) = push_points f is (h\<lparr>points_clouds := []\<rparr>)"
    then show ?thesis using push_points_from[of f "is" h h'] assms by (auto simp: packet_points_def)
  qed (use assms in \<open>simp add: packet_points_def\<close>)
qed

fun run_packets :: "env \<Rightarrow> (int \<times> raw_packet) list \<Rightarrow> pub_handler \<Rightarrow>
    ((u32 \<times> point_xyzlt list) list \<times> point_frame list \<times> pub_handler) res" where
  "run_packets e [] st = Inr ([], [], st)"
| "run_packets e ((now, pkt) # ps) st = (let k = GetLidarId (rp_lidar_type pkt) (rp_handle pkt);
       h0 = (case map_of (handlers st) k of None \<Rightarrow> LidarPubHandler | Some h \<Rightarrow> h);
       h1 = (case mountings st k of None \<Rightarrow> h0 | Some p \<Rightarrow> SetLidarsExtParam (cosd e) (sind e) p h0)
     in bindR (process_packet e now pkt st) (\<lambda>(fr, st').
       bindR (run_packets e ps st') (\<lambda>(decoded, frames, st'').
         Inr ((k, packet_points e pkt h1) # decoded, frame_of fr # frames, st''))))"

lemma SetLidarsExtParam_points [simp]: "points_clouds (SetLidarsExtParam c s p h) = points_clouds h"
  by (simp add: SetLidarsExtParam_def Let_def)

lemma process_packet_spec:
  assumes "process_packet e now pkt st = Inr (fr, st')" "handlers_sorted st"
    and "k = GetLidarId (rp_lidar_type pkt) (rp_handle pkt)"
    and "h0 = (case map_of (handlers st) k of None \<Rightarrow> LidarPubHandler | Some h \<Rightarrow> h)"
    and "h1 = (case mountings st k of None \<Rightarrow> h0 | Some p \<Rightarrow> SetLidarsExtParam (cosd e) (sind e) p h0)"
  shows "handlers_sorted st' \<and> (\<forall>x \<in> set (frame_of fr). entry_ok x)
    \<and> (\<forall>j. frame_points j (frame_of fr) @ pending_points st' j
          = pending_points st j @ (if j = k then packet_points e pkt h1 else []))"
proof -
  obtain h2 where h2: "PointCloudProcess e pkt h1 = Inr h2"
    "CheckTimer now k (st\<lparr>handlers := put_handler k h2 (handlers st)\<rparr>) = Inr (fr, st')"
    using assms(1) unfolding process_packet_def assms(3-5) by (auto simp: Let_def bindR_eq_Inr)
  have s: "handlers_sorted (st\<lparr>handlers := put_handler k h2 (handlers st)\<rparr>)"
    using assms(2) by (simp add: handlers_sorted_def put_sorted)
  have "points_clouds h1 = pending_points st k"
    by (simp add: assms(4,5) pending_points_def LidarPubHandler_def split: option.splits)
  then have "points_clouds h2 = pending_points st k @ packet_points e pkt h1"
    using PointCloudProcess_appends[OF h2(1)] by simp
  then have "pending_points (st\<lparr>handlers := put_handler k h2 (handlers st)\<rparr>) j
      = pending_points st j @ (if j = k then packet_points e pkt h1 else [])" for j
    by (simp add: pending_points_def map_of_put)
  then show ?thesis using CheckTimer_spec[OF h2(2) s] by simp
qed

text \<open>
  C22 clouds_conserved: whatever packets arrive, from whatever devices and in whichever timing mode,
  the points of a device that were handed over in frames followed by those
  still collected are exactly the points that were collected before followed by
  the points decoded since, in order: none is lost, doubled or given to another
  device.  Every entry of a frame has points, is stamped with the time of the
  first, and counts them (modulo 2^32).
\<close>
theorem clouds_conserved:
  assumes "handlers_sorted st" "run_packets e ps st = Inr (decoded, frames, st')"
  shows "(\<forall>k. frame_points k (concat frames) @ pending_points st' k
      = pending_points st k @ concat (map snd (filter (\<lambda>x. fst x = k) decoded)))
    \<and> (\<forall>fr \<in> set frames. \<forall>x \<in> set fr. entry_ok x)"
  using assms
proof (induction ps arbitrary: st decoded frames)
  case Nil
  then show ?case by (simp add: frame_points_def)
next
  case (Cons p ps)
  obtain now pkt where p: "p = (now, pkt)" by (cases p)
  define k where "k = GetLidarId (rp_lidar_type pkt) (rp_handle pkt)"
  define h0 where "h0 = (case map_of (handlers st) k of None \<Rightarrow> LidarPubHandler | Some h \<Rightarrow> h)"
  define h1 where "h1 = (case mountings st k of None \<Rightarrow> h0 | Some p \<Rightarrow> SetLidarsExtParam (cosd e) (sind e) p h0)"
  obtain fr st1 d f where r: "process_packet e now pkt st = Inr (fr, st1)" "run_packets e ps st1 = Inr (d, f, st')"
    "decoded = (k, packet_points e pkt h1) # d" "frames = frame_of fr # f"
  proof -
    have "run_packets e ((now, pkt) # ps) st = bindR (process_packet e now pkt st) (\<lambda>(fr, st').
        bindR (run_packets e ps st') (\<lambda>(decoded, frames, st'').
          Inr ((k, packet_points e pkt h1) # decoded, frame_of fr # frames, st'')))"
      by (simp only: run_packets.simps Let_def k_def h0_def h1_def)
    then show thesis using Cons.prems(2) that by (auto simp only: p) (auto simp: bindR_eq_Inr)
  qed
  note sp = process_packet_spec[OF r(1) Cons.prems(1) k_def h0_def h1_def]
  note ih = Cons.IH[OF _ r(2)]
  have "frame_points j (concat frames) @ pending_points st' j
      = pending_points st j @ concat (map snd (filter (\<lambda>x. fst x = j) decoded))" for j
  proof -
    have "frame_points j (concat frames) @ pending_points st' j
        = frame_points j (frame_of fr) @ frame_points j (concat f) @ pending_points st' j"
      by (simp add: r(4) frame_points_append)
    also have "\<dots> = (frame_points j (frame_of fr) @ pending_points st1 j) @ concat (map snd (filter (\<lambda>x. fst x = j) d))"
      using ih sp by simp
    also have "\<dots> = pending_points st j @ concat (map snd (filter (\<lambda>x. fst x = j) decoded))"
      using sp by (simp add: r(3))
    finally show ?thesis .
  qed
  then show ?case using ih sp by (simp add: r(4))
qed

definition sample_env :: env where
  "sample_env = \<lparr>codes = sample_codes, layout = sample_layout, cosd = (\<lambda>_. Fin 1), sind = (\<lambda>_. Fin 0)\<rparr>"

definition sample_pub :: pub_handler where
  "sample_pub = \<lparr>raw_packet_queue = [], is_timestamp_sync = False, publish_interval = 50,
     publish_interval_tolerance = 40, publish_interval_ms = 1, last_pub_time = None, handlers = [], mountings = Map.empty\<rparr>"

theorem clouds_conserved_witness:
  "\<exists>decoded frames st'. run_packets sample_env [(100, sample_packet), (200, sample_packet)] sample_pub = Inr (decoded, frames, st')
     \<and> frame_points 7 (concat frames) @ pending_points st' 7 = concat (map snd decoded) \<and> length decoded = 2"
proof -
  obtain decoded frames st' where r:
    "run_packets sample_env [(100, sample_packet), (200, sample_packet)] sample_pub = Inr (decoded, frames, st')"
    "length decoded = 2" "\<forall>x \<in> set decoded. fst x = 7"
    by (simp add: sample_env_def sample_codes_def sample_packet_def sample_pub_def process_packet_def PointCloudProcess_def
        LivoxLidarPointCloudProcess_def ProcessCartesianHighPoint_def sample_layout_def raw_at_def make_point_def
        CheckTimer_def GetLidarId_def kLivoxLidarType_def kMaxSourceLidar_def upt_rec)
  have "handlers_sorted sample_pub" by (simp add: handlers_sorted_def sample_pub_def)
  from clouds_conserved[OF this r(1)] have "frame_points 7 (concat frames) @ pending_points st' 7
      = pending_points sample_pub 7 @ concat (map snd (filter (\<lambda>x. fst x = 7) decoded))" by blast
  moreover have "filter (\<lambda>x. fst x = 7) decoded = decoded" using r(3) by (simp add: filter_id_conv)
  moreover have "pending_points sample_pub 7 = []" by (simp add: pending_points_def sample_pub_def)
  ultimately show ?thesis using r by auto
qed

section \<open>The capacity of a frame\<close>

lemma collect_total: "length fr + length hs \<le> 32 \<Longrightarrow> isOk (collect hs fr)"
proof (induction hs arbitrary: fr)
  case (Cons x hs)
  obtain k h where x: "x = (k, h)" by (cases x)
  have "isOk (collect hs (if points_clouds h = [] then fr else fr @ [frame_entry k h]))"
    using Cons.prems by (intro Cons.IH) auto
  then show ?case using Cons.prems
    by (cases "collect hs (if points_clouds h = [] then fr else fr @ [frame_entry k h])")
      (auto simp: x kMaxSourceLidar_def bindR_def isOk_def split: prod.splits)
qed simp

lemma collect_overflow:
  "length fr \<le> 32 \<Longrightarrow> 32 < length fr + length (filter (\<lambda>x. points_clouds (snd x) \<noteq> []) hs) \<Longrightarrow> collect hs fr = Inl OutOfBounds"
proof (induction hs arbitrary: fr)
  case (Cons x hs)
  obtain k h where x: "x = (k, h)" by (cases x)
  show ?case
  proof (cases "length fr = 32")
    case False
    then have "collect hs (if points_clouds h = [] then fr else fr @ [frame_entry k h]) = Inl OutOfBounds"
      using Cons.prems by (intro Cons.IH) (auto simp: x split: if_splits)
    then show ?thesis by (simp add: x)
  qed (simp add: x kMaxSourceLidar_def)
qed simp

text \<open>
  frame_capacity: with free-running devices a due frame is put together as long as at most 32
  devices ever sent a packet; as soon as more than 32 have points waiting, the
  code writes past the end of the frame's arrays.
\<close>
theorem frame_capacity:
  assumes "\<not> is_timestamp_sync st" "last_pub_time st = Some l" "uint (publish_interval st) \<le> now - l"
  shows "(length (handlers st) \<le> 32 \<longrightarrow> isOk (CheckTimer now k st))
    \<and> (32 < length (filter (\<lambda>x. points_clouds (snd x) \<noteq> []) (handlers st)) \<longrightarrow> CheckTimer now k st = Inl OutOfBounds)"
proof -
  have "CheckTimer now k st = bindR (collect (handlers st) []) (\<lambda>(fr, hs).
      Inr (Some fr, st\<lparr>last_pub_time := Some (l + uint (publish_interval st)), handlers := hs\<rparr>))"
    using assms by (simp add: CheckTimer_def)
  moreover have "isOk (bindR c (\<lambda>(fr, hs). Inr (F fr hs)))" if "isOk c" for c F
    using that by (cases c) (auto split: prod.splits)
  ultimately show ?thesis
    using collect_total[of "[]" "handlers st"] collect_overflow[of "[]" "handlers st"] by auto
qed

theorem frame_capacity_witness:
  "CheckTimer 100 0 (sample_pub\<lparr>last_pub_time := Some 0,
     handlers := map (\<lambda>i. (of_nat i, LidarPubHandler\<lparr>points_clouds := [\<lparr>pt_x = Fin 0, pt_y = Fin 0, pt_z = Fin 0,
       pt_intensity = Fin 0, pt_tag = 0, pt_line = 0, pt_offset_time = 1\<rparr>]\<rparr>)) [0..<40]\<rparr>) = Inl OutOfBounds"
  using frame_capacity[of "sample_pub\<lparr>last_pub_time := Some 0,
     handlers := map (\<lambda>i. (of_nat i, LidarPubHandler\<lparr>points_clouds := [\<lparr>pt_x = Fin 0, pt_y = Fin 0, pt_z = Fin 0,
       pt_intensity = Fin 0, pt_tag = 0, pt_line = 0, pt_offset_time = 1\<rparr>]\<rparr>)) [0..<40]\<rparr>" 0 100 0]
  by (simp add: sample_pub_def filter_map o_def)

section \<open>Packets from the network\<close>

text \<open>
  network_packet: a point packet is queued with its announced number of points, exactly when it
  announces at least one and the length it claims, less the header, is really
  there; a packet of zero points divides by zero, and a length that is smaller
  than the header or larger than the packet makes the code read past it.
\<close>
theorem network_packet:
  assumes "ep_data_type d \<noteq> kLivoxLidarImuData (codes e)"
    and "sizeof_packet (layout e) \<le> unat (ep_length d) + 1" "sizeof_packet (layout e) < 2 ^ 16"
  shows "if ep_dot_num d = 0 then OnLivoxLidarPointCloudCallback e now h dev d st = Inl DivByZero
    else if length (ep_data d) < unat (ep_length d) + 1 - sizeof_packet (layout e)
      then OnLivoxLidarPointCloudCallback e now h dev d st = Inl OutOfBounds
    else \<exists>pkt. OnLivoxLidarPointCloudCallback e now h dev d st
        = Inr (None, st\<lparr>is_timestamp_sync := (ep_time_type d \<noteq> 0), raw_packet_queue := raw_packet_queue st @ [pkt]\<rparr>)
      \<and> rp_handle pkt = h \<and> unat (rp_point_num pkt) = unat (ep_dot_num d) \<and> rp_line_num pkt \<noteq> 0
      \<and> unat (rp_point_interval pkt) = unat (ep_time_interval d) * 100 div unat (ep_dot_num d)
      \<and> rp_raw_data pkt = take (unat (ep_length d) + 1 - sizeof_packet (layout e)) (ep_data d)"
proof -
  let ?s = "sizeof_packet (layout e)"
  have b: "unat (ep_length d) < 2 ^ 16" "unat (ep_time_interval d) < 2 ^ 16"
    using unsigned_less[of "ep_length d"] unsigned_less[of "ep_time_interval d"] by simp_all
  have len: "unat (ucast (ep_length d) - of_nat ?s + 1 :: u32) = unat (ep_length d) + 1 - ?s"
  proof -
    have "ucast (ep_length d) - of_nat ?s + 1 = (of_nat (unat (ep_length d) + 1 - ?s) :: u32)"
      using assms(2) by (simp add: of_nat_diff)
    then show ?thesis using b(1) by (simp only: unat_of_nat) simp
  qed
  have iv: "unat (of_nat (unat (ep_time_interval d) * 100 div unat (ep_dot_num d)) :: u64)
      = unat (ep_time_interval d) * 100 div unat (ep_dot_num d)"
  proof -
    have "unat (ep_time_interval d) * 100 div unat (ep_dot_num d) \<le> unat (ep_time_interval d) * 100" by simp
    also have "\<dots> < 2 ^ 64" using b(2) by simp
    finally show ?thesis by (simp add: unat_of_nat)
  qed
  have n: "unat (ucast (ep_dot_num d) :: u32) = unat (ep_dot_num d)"
    using unsigned_less[of "ep_dot_num d", where 'a=nat] by (simp add: unsigned_ucast_eq take_bit_nat_eq_self_iff)
  define ln where "ln = (if dev = kLivoxLidarTypeIndustrialHAP (codes e) then kLineNumberHAP
    else if dev = kLivoxLidarTypeMid360 (codes e) then kLineNumberMid360 else kLineNumberDefault)"
  have ln: "ln \<noteq> 0" by (simp add: ln_def kLineNumberHAP_def kLineNumberMid360_def kLineNumberDefault_def)
  show ?thesis
  proof (cases "ep_dot_num d = 0 \<or> length (ep_data d) < unat (ep_length d) + 1 - ?s")
    case True
    then show ?thesis using assms(1) len by (auto simp: OnLivoxLidarPointCloudCallback_def Let_def)
  next
    case False
    let ?pkt = "\<lparr>rp_lidar_type = kLivoxLidarType, rp_handle = h, extrinsic_enable = False,
         rp_point_num = ucast (ep_dot_num d), rp_data_type = ep_data_type d, rp_line_num = ln,
         rp_time_stamp = GetEthPacketTimestamp (ep_time_type d) (ep_timestamp d) now,
         rp_point_interval = of_nat (unat (ep_time_interval d) * 100 div unat (ep_dot_num d)),
         rp_raw_data = take (unat (ep_length d) + 1 - ?s) (ep_data d)\<rparr>"
    have "OnLivoxLidarPointCloudCallback e now h dev d st
        = Inr (None, st\<lparr>is_timestamp_sync := (ep_time_type d \<noteq> 0), raw_packet_queue := raw_packet_queue st @ [?pkt]\<rparr>)"
      using False assms(1) len by (simp add: OnLivoxLidarPointCloudCallback_def Let_def ln_def kTimestampTypeNoSync_def)
    moreover have "rp_handle ?pkt = h \<and> unat (rp_point_num ?pkt) = unat (ep_dot_num d) \<and> rp_line_num ?pkt \<noteq> 0
      \<and> unat (rp_point_interval ?pkt) = unat (ep_time_interval d) * 100 div unat (ep_dot_num d)
      \<and> rp_raw_data ?pkt = take (unat (ep_length d) + 1 - ?s) (ep_data d)"
      using n iv ln by simp
    ultimately show ?thesis using False by auto
  qed
qed

theorem network_packet_witness:
  "OnLivoxLidarPointCloudCallback sample_env 5 7 9 \<lparr>ep_length = 36, ep_time_interval = 3, ep_dot_num = 0,
     ep_data_type = 1, ep_time_type = 0, ep_timestamp = [], ep_data = []\<rparr> sample_pub = Inl DivByZero"
  using network_packet[of "\<lparr>ep_length = 36, ep_time_interval = 3, ep_dot_num = 0,
     ep_data_type = 1, ep_time_type = 0, ep_timestamp = [], ep_data = []\<rparr>" sample_env 5 7 9 sample_pub]
  by (simp add: sample_env_def sample_codes_def sample_layout_def)

end
