(* ===== verification/Voxel_Octree.thy ===== *)
theory Voxel_Octree
  imports Prelude
begin

text \<open>
  The octrees of the voxel map (edge/src/FAST-LIVO2/src/voxel_map.cpp and
  include/voxel_map.h): plane fitting, splitting, insertion and lookup.
  Coordinates are exact rational numbers; rounding is not modelled, and a
  covariance the code would fill with infinities by dividing by zero is None.
  The eigenvalue solver of the Eigen library and the square root are arguments.
\<close>

section \<open>Vectors and matrices\<close>

type_synonym vec = "rat \<times> rat \<times> rat"

text \<open>Matrices are lists of rows.\<close>

type_synonym mat = "rat list list"

fun vadd :: "vec \<Rightarrow> vec \<Rightarrow> vec" where "vadd (a, b, c) (x, y, z) = (a + x, b + y, c + z)"
fun vsub :: "vec \<Rightarrow> vec \<Rightarrow> vec" where "vsub (a, b, c) (x, y, z) = (a - x, b - y, c - z)"
fun vscale :: "rat \<Rightarrow> vec \<Rightarrow> vec" where "vscale s (x, y, z) = (s * x, s * y, s * z)"
fun vdot :: "vec \<Rightarrow> vec \<Rightarrow> rat" where "vdot (a, b, c) (x, y, z) = a * x + b * y + c * z"
fun vlist :: "vec \<Rightarrow> rat list" where "vlist (x, y, z) = [x, y, z]"
fun component :: "vec \<Rightarrow> nat \<Rightarrow> rat" where
  "component (x, y, z) i = (if i = 0 then x else if i = 1 then y else z)"

definition mat_add :: "mat \<Rightarrow> mat \<Rightarrow> mat" where
  "mat_add A B = map2 (map2 (+)) A B"

definition mat_scale :: "rat \<Rightarrow> mat \<Rightarrow> mat" where
  "mat_scale s A = map (map ((*) s)) A"

definition mat_mul :: "mat \<Rightarrow> mat \<Rightarrow> mat" where
  "mat_mul A B = map (\<lambda>r. map (\<lambda>c. sum_list (map2 (*) r c)) (transpose B)) A"

definition outer :: "vec \<Rightarrow> vec \<Rightarrow> mat" where
  "outer v w = map (\<lambda>a. map ((*) a) (vlist w)) (vlist v)"

definition zeros :: "nat \<Rightarrow> mat" where
  "zeros n = replicate n (replicate n 0)"

section \<open>Points and planes\<close>

record point_with_var =
  point_b :: vec
  point_w :: vec
  pv_var :: mat
  body_var :: mat
  pv_normal :: vec

text \<open>
  A fitted plane.  The constructor leaves the two tangent directions unset;
  plane_var is None once a division by zero has spoiled it.
\<close>

record voxel_plane =
  pl_center :: vec
  pl_normal :: vec
  pl_y_normal :: "vec option"
  pl_x_normal :: "vec option"
  pl_covariance :: mat
  pl_var :: "mat option"
  pl_radius :: rat
  min_eigen_value :: rat
  mid_eigen_value :: rat
  max_eigen_value :: rat
  pl_d :: rat
  points_size :: nat
  is_plane :: bool
  is_init :: bool
  plane_id :: int
  is_update :: bool

definition VoxelPlane :: voxel_plane where
  "VoxelPlane = \<lparr>pl_center = (0, 0, 0), pl_normal = (0, 0, 0), pl_y_normal = None, pl_x_normal = None,
     pl_covariance = zeros 3, pl_var = Some (zeros 6), pl_radius = 0, min_eigen_value = 1, mid_eigen_value = 1,
     max_eigen_value = 1, pl_d = 0, points_size = 0, is_plane = False, is_init = False, plane_id = 0, is_update = False\<rparr>"

record voxel_config =
  max_voxel_size :: rat
  max_layer :: int
  max_iterations :: int
  layer_init_num :: "int list"
  max_points_num :: int
  planner_threshold :: rat
  sigma_num :: rat
  sliding_thresh :: rat
  half_map_size :: int

text \<open>
  The libraries: for a symmetric matrix the eigenvalues and the eigenvectors that
  belong to them; and functions of the C library.
\<close>

record numeric =
  eigen :: "mat \<Rightarrow> vec \<times> (vec \<times> vec \<times> vec)"
  sqrtf :: "rat \<Rightarrow> rat"
  expf :: "rat \<Rightarrow> rat"
  sinf :: "rat \<Rightarrow> rat"
  powf :: "rat \<Rightarrow> rat \<Rightarrow> rat"

text \<open>The index of the first least and of the first greatest component.\<close>

fun argmin :: "vec \<Rightarrow> int" where
  "argmin (x, y, z) = (if x \<le> y \<and> x \<le> z then 0 else if y \<le> z then 1 else 2)"

fun argmax :: "vec \<Rightarrow> int" where
  "argmax (x, y, z) = (if y \<le> x \<and> z \<le> x then 0 else if z \<le> y then 1 else 2)"

fun pick :: "vec \<times> vec \<times> vec \<Rightarrow> int \<Rightarrow> vec" where
  "pick (u, v, w) i = (if i = 0 then u else if i = 1 then v else w)"

definition point_sum :: "vec list \<Rightarrow> vec" where
  "point_sum ps = fold (\<lambda>p s. vadd s p) ps (0, 0, 0)"

definition outer_sum :: "vec list \<Rightarrow> mat" where
  "outer_sum ps = fold (\<lambda>p s. mat_add s (outer p p)) ps (zeros 3)"

definition plane_center :: "vec list \<Rightarrow> vec" where
  "plane_center ps = vscale (1 / of_nat (length ps)) (point_sum ps)"

definition plane_covariance :: "vec list \<Rightarrow> mat" where
  "plane_covariance ps = mat_add (mat_scale (1 / of_nat (length ps)) (outer_sum ps))
     (mat_scale (- 1) (outer (plane_center ps) (plane_center ps)))"

text \<open>A row of the matrix F, None when an eigenvalue is doubled.\<close>

definition jacobian_row :: "vec \<Rightarrow> vec \<times> vec \<times> vec \<Rightarrow> nat \<Rightarrow> vec \<Rightarrow> int \<Rightarrow> rat list option" where
  "jacobian_row evals evecs n q m = (let mn = argmin evals in
     if m = mn then Some [0, 0, 0]
     else let dv = of_nat n * (component evals (nat mn) - component evals (nat m)) in
       if dv = 0 then None
       else Some (hd (mat_mul [vlist (vscale (1 / dv) q)]
         (mat_add (outer (pick evecs m) (pick evecs mn)) (outer (pick evecs mn) (pick evecs m))))))"

definition point_jacobian :: "vec \<Rightarrow> vec \<times> vec \<times> vec \<Rightarrow> nat \<Rightarrow> vec \<Rightarrow> mat option" where
  "point_jacobian evals evecs n q =
     (case (jacobian_row evals evecs n q 0, jacobian_row evals evecs n q 1, jacobian_row evals evecs n q 2) of
       (Some a, Some b, Some c) \<Rightarrow> Some (mat_mul (transpose [vlist (pick evecs 0), vlist (pick evecs 1), vlist (pick evecs 2)]) [a, b, c]
          @ mat_scale (1 / of_nat n) [[1, 0, 0], [0, 1, 0], [0, 0, 1]])
     | _ \<Rightarrow> None)"

definition plane_variance :: "vec \<Rightarrow> vec \<times> vec \<times> vec \<Rightarrow> vec \<Rightarrow> point_with_var list \<Rightarrow> mat option" where
  "plane_variance evals evecs ctr ps = fold (\<lambda>p acc.
     case (acc, point_jacobian evals evecs (length ps) (vsub (point_w p) ctr)) of
       (Some v, Some J) \<Rightarrow> Some (mat_add v (mat_mul (mat_mul J (pv_var p)) (transpose J)))
     | _ \<Rightarrow> None) ps (Some (zeros 6))"

text \<open>
  The fit and the next plane number.  The index of the middle eigenvalue is
  three less the indices of the least and the greatest; it is out of range when
  those are the same.
\<close>

definition InitPlane :: "numeric \<Rightarrow> rat \<Rightarrow> point_with_var list \<Rightarrow> voxel_plane \<Rightarrow> int \<Rightarrow> (voxel_plane \<times> int) res" where
  "InitPlane nm threshold points plane next_id = (let ps = map point_w points in
     if points = [] then Inl Undefined else
     let ctr = plane_center ps; cov = plane_covariance ps in
     case eigen nm cov of (evals, evecs) \<Rightarrow>
     let mn = argmin evals; mx = argmax evals; mid = 3 - mn - mx;
         cleared = plane\<lparr>pl_var := Some (zeros 6), pl_covariance := cov, pl_center := ctr, pl_normal := (0, 0, 0),
           points_size := length points, pl_radius := 0\<rparr> in
     if mid < 0 \<or> 2 < mid then Inl OutOfBounds
     else if component evals (nat mn) < threshold then
       let fitted = cleared\<lparr>pl_var := plane_variance evals evecs ctr points,
             pl_normal := pick evecs mn, pl_y_normal := Some (pick evecs mid), pl_x_normal := Some (pick evecs mx),
             min_eigen_value := component evals (nat mn), mid_eigen_value := component evals (nat mid),
             max_eigen_value := component evals (nat mx), pl_radius := sqrtf nm (component evals (nat mx)),
             pl_d := - vdot (pick evecs mn) ctr, is_plane := True, is_update := True\<rparr> in
       if is_init plane then Inr (fitted, next_id)
       else Inr (fitted\<lparr>plane_id := next_id, is_init := True\<rparr>, next_id + 1)
     else Inr (cleared\<lparr>is_update := True, is_plane := False\<rparr>, next_id))"

section \<open>The octree\<close>

record octo_node =
  temp_points :: "point_with_var list"
  plane :: voxel_plane
  layer :: int
  octo_state :: int
  voxel_center :: vec
  quater_length :: rat
  points_size_threshold :: int
  new_points :: int
  init_octo :: bool
  update_enable :: bool

text \<open>
  A node with its eight children.  What all nodes of a tree share - the greatest
  layer, the thresholds, the maximal number of points - is the configuration.
\<close>

datatype octree = Octo (node: octo_node) (leaves: "octree option list")

definition update_size_threshold :: int where "update_size_threshold = 5"

text \<open>An int compared with a size is converted to an unsigned number of 64 bits.\<close>

definition usize :: "int \<Rightarrow> nat" where
  "usize i = nat (i mod 2 ^ 64)"

definition VoxelOctoTree :: "int \<Rightarrow> int \<Rightarrow> octree" where
  "VoxelOctoTree l threshold = Octo \<lparr>temp_points = [], plane = VoxelPlane, layer = l, octo_state = 0,
     voxel_center = (0, 0, 0), quater_length = 0, points_size_threshold = threshold, new_points = 0,
     init_octo = False, update_enable = True\<rparr> (replicate 8 None)"

definition side :: "rat \<Rightarrow> rat \<Rightarrow> nat" where
  "side p c = (if c < p then 1 else 0)"

fun leafnum :: "vec \<Rightarrow> vec \<Rightarrow> nat" where
  "leafnum (px, py, pz) (cx, cy, cz) = 4 * side px cx + 2 * side py cy + side pz cz"

fun leaf_center :: "vec \<Rightarrow> vec \<Rightarrow> rat \<Rightarrow> vec" where
  "leaf_center (px, py, pz) (cx, cy, cz) q =
     (cx + (2 * of_nat (side px cx) - 1) * q, cy + (2 * of_nat (side py cy) - 1) * q, cz + (2 * of_nat (side pz cz) - 1) * q)"

text \<open>A new child on the side of a point; reading the threshold of a layer that has none is out of bounds.\<close>

definition new_leaf :: "voxel_config \<Rightarrow> vec \<Rightarrow> octo_node \<Rightarrow> octree res" where
  "new_leaf cfg p n = (let l = layer n + 1 in
     if l < 0 \<or> int (length (layer_init_num cfg)) \<le> l then Inl OutOfBounds
     else case VoxelOctoTree l (layer_init_num cfg ! nat l) of Octo m ls \<Rightarrow>
       Inr (Octo (m\<lparr>voxel_center := leaf_center p (voxel_center n) (quater_length n),
         quater_length := quater_length n / 2\<rparr>) ls))"

definition add_point :: "point_with_var \<Rightarrow> octree \<Rightarrow> octree" where
  "add_point pv t = (case t of Octo n ls \<Rightarrow>
     Octo (n\<lparr>temp_points := temp_points n @ [pv], new_points := new_points n + 1\<rparr>) ls)"

text \<open>The first loop of CutOctoTree.\<close>

fun distribute :: "voxel_config \<Rightarrow> octo_node \<Rightarrow> point_with_var list \<Rightarrow> octree option list \<Rightarrow> octree option list res" where
  "distribute cfg n [] ls = Inr ls"
| "distribute cfg n (pv # pvs) ls = (let k = leafnum (point_w pv) (voxel_center n) in
     if length ls \<le> k then Inl OutOfBounds
     else bindR (case ls ! k of Some t \<Rightarrow> Inr t | None \<Rightarrow> new_leaf cfg (point_w pv) n) (\<lambda>t.
       distribute cfg n pvs (ls[k := Some (add_point pv t)])))"

definition clear_points :: "octo_node \<Rightarrow> octo_node" where
  "clear_points n = n\<lparr>update_enable := False, temp_points := []\<rparr>"

text \<open>
  The second loop, over the children; again is the recursive call.  A child with a
  plane and too many points loses them.  (The code then resets the parent's
  counter of new points, which its callers reset as well.)
\<close>

fun init_leaves :: "numeric \<Rightarrow> voxel_config \<Rightarrow> (octree \<Rightarrow> int \<Rightarrow> (octree \<times> int) res) \<Rightarrow> octree option list \<Rightarrow> int \<Rightarrow>
    (octree option list \<times> int) res" where
  "init_leaves nm cfg again [] k = Inr ([], k)"
| "init_leaves nm cfg again (None # ts) k = bindR (init_leaves nm cfg again ts k) (\<lambda>(ts', k'). Inr (None # ts', k'))"
| "init_leaves nm cfg again (Some (Octo n ls) # ts) k =
     (if length (temp_points n) \<le> usize (points_size_threshold n)
      then bindR (init_leaves nm cfg again ts k) (\<lambda>(ts', k'). Inr (Some (Octo n ls) # ts', k'))
      else bindR (InitPlane nm (planner_threshold cfg) (temp_points n) (plane n) k) (\<lambda>(pl, k1).
        bindR (if is_plane pl
             then Inr (Octo ((if usize (max_points_num cfg) < length (temp_points n) then clear_points n else n)
               \<lparr>plane := pl, octo_state := 0\<rparr>) ls, k1)
             else again (Octo (n\<lparr>plane := pl, octo_state := 1\<rparr>) ls) k1) (\<lambda>(t, k2).
          bindR (init_leaves nm cfg again ts k2) (\<lambda>(ts', k').
            Inr (Some (case t of Octo m ms \<Rightarrow> Octo (m\<lparr>init_octo := True, new_points := 0\<rparr>) ms) # ts', k')))))"

text \<open>CutOctoTree, d layers above the greatest.\<close>

fun cut_tree :: "numeric \<Rightarrow> voxel_config \<Rightarrow> nat \<Rightarrow> octree \<Rightarrow> int \<Rightarrow> (octree \<times> int) res" where
  "cut_tree nm cfg 0 (Octo n ls) k = Inr (Octo (n\<lparr>octo_state := 0\<rparr>) ls, k)"
| "cut_tree nm cfg (Suc d) (Octo n ls) k = bindR (distribute cfg n (temp_points n) ls) (\<lambda>ls'.
     bindR (init_leaves nm cfg (cut_tree nm cfg d) ls' k) (\<lambda>(ls'', k'). Inr (Octo n ls'', k')))"

definition CutOctoTree :: "numeric \<Rightarrow> voxel_config \<Rightarrow> octree \<Rightarrow> int \<Rightarrow> (octree \<times> int) res" where
  "CutOctoTree nm cfg t k = cut_tree nm cfg (nat (max_layer cfg - layer (node t))) t k"

definition InitOctoTree :: "numeric \<Rightarrow> voxel_config \<Rightarrow> octree \<Rightarrow> int \<Rightarrow> (octree \<times> int) res" where
  "InitOctoTree nm cfg t k = (case t of Octo n ls \<Rightarrow>
     if length (temp_points n) \<le> usize (points_size_threshold n) then Inr (t, k)
     else bindR (InitPlane nm (planner_threshold cfg) (temp_points n) (plane n) k) (\<lambda>(pl, k1).
       bindR (if is_plane pl
            then Inr (Octo ((if usize (max_points_num cfg) < length (temp_points n) then clear_points n else n)
              \<lparr>plane := pl, octo_state := 0\<rparr>) ls, k1)
            else CutOctoTree nm cfg (Octo (n\<lparr>plane := pl, octo_state := 1\<rparr>) ls) k1) (\<lambda>(u, k2).
         case u of Octo m ms \<Rightarrow> Inr (Octo (m\<lparr>init_octo := True, new_points := 0\<rparr>) ms, k2))))"

text \<open>The branch of UpdateOctoTree for a node that is not initialised yet.\<close>

definition update_fresh :: "numeric \<Rightarrow> voxel_config \<Rightarrow> point_with_var \<Rightarrow> octree \<Rightarrow> int \<Rightarrow> (octree \<times> int) res" where
  "update_fresh nm cfg pv t k = (let u = add_point pv t in
     if usize (points_size_threshold (node u)) < length (temp_points (node u)) then InitOctoTree nm cfg u k
     else Inr (u, k))"

text \<open>The branches for a node that keeps its points; full says when they are given up.\<close>

definition update_points :: "numeric \<Rightarrow> voxel_config \<Rightarrow> (nat \<Rightarrow> bool) \<Rightarrow> point_with_var \<Rightarrow> octo_node \<Rightarrow> int \<Rightarrow>
    (octo_node \<times> int) res" where
  "update_points nm cfg full pv n k = (if \<not> update_enable n then Inr (n, k) else
     let n1 = n\<lparr>new_points := new_points n + 1, temp_points := temp_points n @ [pv]\<rparr> in
     bindR (if update_size_threshold < new_points n1
            then bindR (InitPlane nm (planner_threshold cfg) (temp_points n1) (plane n1) k) (\<lambda>(pl, k').
              Inr (n1\<lparr>plane := pl, new_points := 0\<rparr>, k'))
            else Inr (n1, k)) (\<lambda>(n2, k2).
       Inr (if full (length (temp_points n2)) then (clear_points n2)\<lparr>new_points := 0\<rparr> else n2, k2)))"

lemma leaf_size: "k < length ls \<Longrightarrow> ls ! k = Some t \<Longrightarrow> size t < size (Octo n ls)"
proof -
  assume a: "k < length ls" "ls ! k = Some t"
  then have "Some t \<in> set ls" by (metis nth_mem)
  then have "size_option size (Some t) \<le> size_list (size_option size) ls"
    by (rule size_list_estimation') simp
  then show ?thesis by simp
qed

function UpdateOctoTree :: "numeric \<Rightarrow> voxel_config \<Rightarrow> point_with_var \<Rightarrow> octree \<Rightarrow> int \<Rightarrow> (octree \<times> int) res" where
  "UpdateOctoTree nm cfg pv (Octo n ls) k =
     (if \<not> init_octo n then update_fresh nm cfg pv (Octo n ls) k
      else if is_plane (plane n) then
        bindR (update_points nm cfg (\<lambda>m. usize (max_points_num cfg) \<le> m) pv n k) (\<lambda>(m, k'). Inr (Octo m ls, k'))
      else if layer n < max_layer cfg then
        (let i = leafnum (point_w pv) (voxel_center n) in
         if length ls \<le> i then Inl OutOfBounds
         else bindR (case ls ! i of Some t \<Rightarrow> UpdateOctoTree nm cfg pv t k
              | None \<Rightarrow> bindR (new_leaf cfg (point_w pv) n) (\<lambda>t. update_fresh nm cfg pv t k)) (\<lambda>(t, k').
           Inr (Octo n (ls[i := Some t]), k')))
      else bindR (update_points nm cfg (\<lambda>m. usize (max_points_num cfg) < m) pv n k) (\<lambda>(m, k'). Inr (Octo m ls, k')))"
  by pat_completeness auto
termination
  by (relation "measure (\<lambda>(nm, cfg, pv, t, k). size t)") (auto intro!: leaf_size simp: not_le simp del: octree.size)

declare UpdateOctoTree.simps [simp del]

text \<open>The node a point belongs to, as the path to it from the root.\<close>

function FindCorrespond :: "voxel_config \<Rightarrow> vec \<Rightarrow> octree \<Rightarrow> nat list" where
  "FindCorrespond cfg pw (Octo n ls) =
     (if \<not> init_octo n \<or> is_plane (plane n) \<or> max_layer cfg \<le> layer n then []
      else let i = leafnum pw (voxel_center n) in
        if length ls \<le> i then [] else (case ls ! i of None \<Rightarrow> [] | Some t \<Rightarrow> i # FindCorrespond cfg pw t))"
  by pat_completeness auto
termination
  by (relation "measure (\<lambda>(cfg, pw, t). size t)") (auto intro!: leaf_size simp: not_le simp del: octree.size)

declare FindCorrespond.simps [simp del]

function OctoInsert :: "voxel_config \<Rightarrow> point_with_var \<Rightarrow> octree \<Rightarrow> (octree \<times> nat list) res" where
  "OctoInsert cfg pv (Octo n ls) =
     (if \<not> init_octo n \<or> is_plane (plane n) \<or> max_layer cfg \<le> layer n
      then Inr (add_point pv (Octo n ls), [])
      else let i = leafnum (point_w pv) (voxel_center n) in
        if length ls \<le> i then Inl OutOfBounds
        else bindR (case ls ! i of Some t \<Rightarrow> OctoInsert cfg pv t
             | None \<Rightarrow> bindR (new_leaf cfg (point_w pv) n) (\<lambda>t. Inr (add_point pv t, []))) (\<lambda>(t, path).
          Inr (Octo n (ls[i := Some t]), i # path)))"
  by pat_completeness auto
termination
  by (relation "measure (\<lambda>(cfg, pv, t). size t)") (auto intro!: leaf_size simp: not_le simp del: octree.size)

declare OctoInsert.simps [simp del]

section \<open>Fitting\<close>

text \<open>The solver separates the least from the greatest eigenvalue.\<close>

definition fit_ok :: "numeric \<Rightarrow> bool" where
  "fit_ok nm \<longleftrightarrow> (\<forall>M. argmin (fst (eigen nm M)) \<noteq> argmax (fst (eigen nm M)))"

lemma arg_range: "argmin v \<in> {0, 1, 2}" "argmax v \<in> {0, 1, 2}"
  by (cases v; simp)+

lemma InitPlane_ok:
  assumes "fit_ok nm" "points \<noteq> []"
  shows "\<exists>pl k'. InitPlane nm th points p k = Inr (pl, k')"
proof -
  obtain evals evecs where e: "eigen nm (plane_covariance (map point_w points)) = (evals, evecs)"
    by (metis surj_pair)
  have "argmin evals \<noteq> argmax evals" using assms(1) e unfolding fit_ok_def by (metis fst_conv)
  then have "\<not> (3 - argmin evals - argmax evals < 0 \<or> 2 < 3 - argmin evals - argmax evals)"
    using arg_range[of evals] by auto
  then show ?thesis using assms(2) e by (simp add: InitPlane_def Let_def)
qed

lemma plane_center_same: "ps \<noteq> [] \<Longrightarrow> \<forall>q \<in> set ps. q = p \<Longrightarrow> plane_center ps = p"
proof -
  assume a: "ps \<noteq> []" "\<forall>q \<in> set ps. q = p"
  obtain x y z where p: "p = (x, y, z)" by (cases p)
  have f: "fold (\<lambda>p s. vadd s p) qs (a, b, c) = (a + of_nat (length qs) * x, b + of_nat (length qs) * y, c + of_nat (length qs) * z)"
    if "\<forall>q \<in> set qs. q = p" for qs a b c
    using that by (induction qs arbitrary: a b c) (simp_all add: p algebra_simps)
  show ?thesis using f[OF a(2), of 0 0 0] a(1) by (simp add: plane_center_def point_sum_def p)
qed

lemma plane_covariance_same: "ps \<noteq> [] \<Longrightarrow> \<forall>q \<in> set ps. q = p \<Longrightarrow> plane_covariance ps = zeros 3"
proof -
  assume a: "ps \<noteq> []" "\<forall>q \<in> set ps. q = p"
  obtain x y z where p: "p = (x, y, z)" by (cases p)
  let ?n = "\<lambda>qs. of_nat (length qs) :: rat"
  have f: "fold (\<lambda>p s. mat_add s (outer p p)) qs [[a, b, c], [d, e, f], [g, h, i]]
      = [[a + ?n qs * (x * x), b + ?n qs * (x * y), c + ?n qs * (x * z)],
         [d + ?n qs * (y * x), e + ?n qs * (y * y), f + ?n qs * (y * z)],
         [g + ?n qs * (z * x), h + ?n qs * (z * y), i + ?n qs * (z * z)]]"
    if "\<forall>q \<in> set qs. q = p" for qs a b c d e f g h i
    using that by (induction qs arbitrary: a b c d e f g h i) (simp_all add: p mat_add_def outer_def algebra_simps)
  have "outer_sum ps = [[?n ps * (x * x), ?n ps * (x * y), ?n ps * (x * z)],
         [?n ps * (y * x), ?n ps * (y * y), ?n ps * (y * z)],
         [?n ps * (z * x), ?n ps * (z * y), ?n ps * (z * z)]]"
    using f[OF a(2), of 0 0 0 0 0 0 0 0 0] by (simp add: outer_sum_def zeros_def eval_nat_numeral)
  then show ?thesis using plane_center_same[OF a] a(1)
    by (simp add: plane_covariance_def p mat_add_def mat_scale_def outer_def zeros_def eval_nat_numeral)
qed

text \<open>
  identical_points_overrun: when all points of a voxel coincide - a sensor that repeats a return
  - their covariance is zero, the solver's eigenvalues are equal, and the fit
  computes the index 3 for the middle one: it reads outside its matrices.
\<close>
theorem identical_points_overrun:
  assumes "points \<noteq> []" "\<forall>q \<in> set points. point_w q = p" "fst (eigen nm (zeros 3)) = (0, 0, 0)"
  shows "InitPlane nm th points pl k = Inl OutOfBounds"
proof -
  have c: "plane_covariance (map point_w points) = zeros 3"
    using plane_covariance_same[of "map point_w points" p] assms(1,2) by auto
  obtain evecs where "eigen nm (zeros 3) = ((0, 0, 0), evecs)" using assms(3) by (metis prod.collapse)
  then show ?thesis using assms(1) c by (simp add: InitPlane_def Let_def)
qed

definition sample_point :: "rat \<Rightarrow> rat \<Rightarrow> rat \<Rightarrow> point_with_var" where
  "sample_point x y z = \<lparr>point_b = (x, y, z), point_w = (x, y, z), pv_var = zeros 3, body_var = zeros 3, pv_normal = (0, 0, 0)\<rparr>"

text \<open>A solver that treats the diagonal of a matrix as its eigenvalues.\<close>

definition diagonal_solver :: numeric where
  "diagonal_solver = \<lparr>eigen = (\<lambda>M. ((M ! 0 ! 0, M ! 1 ! 1, M ! 2 ! 2), ((1, 0, 0), (0, 1, 0), (0, 0, 1)))),
     sqrtf = (\<lambda>x. x), expf = (\<lambda>x. 1),
     sinf = (\<lambda>x. x), powf = (\<lambda>x y. x)\<rparr>"

theorem identical_points_overrun_witness:
  "InitPlane diagonal_solver (1 / 100) [sample_point 1 2 3, sample_point 1 2 3] VoxelPlane 0 = Inl OutOfBounds"
  by (rule identical_points_overrun[of _ "(1, 2, 3)"])
    (simp_all add: sample_point_def diagonal_solver_def zeros_def eval_nat_numeral)

text \<open>
  plane_fit: a successful fit decides on the least eigenvalue of the points' covariance: below
  the threshold the result is a plane whose normal is the eigenvector of that
  eigenvalue and which goes through the mean of the points; otherwise it is no
  plane and has no normal.  A plane gets its number when it is first found and
  keeps it.
\<close>
theorem plane_fit:
  assumes "InitPlane nm th points p k = Inr (pl, k')"
  shows "let (evals, evecs) = eigen nm (plane_covariance (map point_w points)) in
      (is_plane pl \<longleftrightarrow> component evals (nat (argmin evals)) < th) \<and> is_update pl
    \<and> pl_center pl = plane_center (map point_w points)
    \<and> (if is_plane pl then pl_normal pl = pick evecs (argmin evals) \<and> vdot (pl_normal pl) (pl_center pl) + pl_d pl = 0
         \<and> is_init pl \<and> (if is_init p then plane_id pl = plane_id p \<and> k' = k else plane_id pl = k \<and> k' = k + 1)
       else pl_normal pl = (0, 0, 0) \<and> plane_id pl = plane_id p \<and> k' = k)"
proof -
  obtain evals evecs where e: "eigen nm (plane_covariance (map point_w points)) = (evals, evecs)"
    by (metis surj_pair)
  note a = assms[unfolded InitPlane_def Let_def e prod.case]
  show ?thesis
  proof (cases "component evals (nat (argmin evals)) < th")
    case True
    then show ?thesis
      by (cases "is_init p"; insert a; simp add: e split: if_splits; elim conjE; hypsubst; simp)
  next
    case False
    then show ?thesis using a by (simp add: e split: if_splits) (elim conjE, hypsubst, simp)
  qed
qed

theorem plane_fit_witness:
  "\<exists>pl k'. InitPlane diagonal_solver (1 / 100) [sample_point 0 0 0, sample_point 1 2 0] VoxelPlane 4 = Inr (pl, k')
    \<and> is_plane pl \<and> plane_id pl = 4 \<and> k' = 5"
proof -
  obtain pl k' where r: "InitPlane diagonal_solver (1 / 100) [sample_point 0 0 0, sample_point 1 2 0] VoxelPlane 4 = Inr (pl, k')"
    by (simp add: InitPlane_def Let_def diagonal_solver_def plane_covariance_def plane_center_def point_sum_def outer_sum_def
        mat_add_def mat_scale_def outer_def sample_point_def zeros_def eval_nat_numeral VoxelPlane_def)
  from plane_fit[OF r] show ?thesis using r
    by (simp add: Let_def diagonal_solver_def plane_covariance_def plane_center_def point_sum_def outer_sum_def
        mat_add_def mat_scale_def outer_def sample_point_def zeros_def eval_nat_numeral VoxelPlane_def split: if_splits)
qed

section \<open>Well-formed octrees\<close>

text \<open>
  The configuration: there is a threshold for every layer, and B bounds what a
  node may hold.
\<close>

definition cfg_ok :: "voxel_config \<Rightarrow> nat \<Rightarrow> bool" where
  "cfg_ok cfg B \<longleftrightarrow> 0 \<le> max_layer cfg \<and> max_layer cfg < int (length (layer_init_num cfg))
     \<and> (\<forall>x \<in> set (layer_init_num cfg). usize x < B) \<and> usize (max_points_num cfg) \<le> B"

definition octant_center :: "nat \<Rightarrow> vec \<Rightarrow> rat \<Rightarrow> vec" where
  "octant_center j c q = (case c of (x, y, z) \<Rightarrow>
     (x + (2 * of_nat (j div 4 mod 2) - 1) * q, y + (2 * of_nat (j div 2 mod 2) - 1) * q, z + (2 * of_nat (j mod 2) - 1) * q))"

text \<open>A node in a region R of space.\<close>

definition node_ok :: "voxel_config \<Rightarrow> nat \<Rightarrow> (vec \<Rightarrow> bool) \<Rightarrow> octo_node \<Rightarrow> bool" where
  "node_ok cfg B R n \<longleftrightarrow> 0 \<le> layer n \<and> layer n \<le> max_layer cfg
     \<and> points_size_threshold n = layer_init_num cfg ! nat (layer n)
     \<and> length (temp_points n) \<le> B \<and> (\<forall>p \<in> set (temp_points n). R (point_w p))"

definition child_of :: "octo_node \<Rightarrow> nat \<Rightarrow> octo_node \<Rightarrow> bool" where
  "child_of n j m \<longleftrightarrow> layer m = layer n + 1 \<and> quater_length m = quater_length n / 2
     \<and> voxel_center m = octant_center j (voxel_center n) (quater_length n)"

text \<open>The part of a region in the j-th octant of a node.\<close>

definition octant :: "(vec \<Rightarrow> bool) \<Rightarrow> octo_node \<Rightarrow> nat \<Rightarrow> vec \<Rightarrow> bool" where
  "octant R n j w \<longleftrightarrow> R w \<and> leafnum w (voxel_center n) = j"

inductive octo_ok :: "voxel_config \<Rightarrow> nat \<Rightarrow> (vec \<Rightarrow> bool) \<Rightarrow> octree \<Rightarrow> bool" for cfg B where
  octo: "node_ok cfg B R n \<Longrightarrow> length ls = 8 \<Longrightarrow>
    (\<not> init_octo n \<Longrightarrow> ls = replicate 8 None \<and> length (temp_points n) \<le> usize (points_size_threshold n)) \<Longrightarrow>
    (\<And>j t. j < 8 \<Longrightarrow> ls ! j = Some t \<Longrightarrow> child_of n j (node t) \<and> octo_ok cfg B (octant R n j) t) \<Longrightarrow>
    octo_ok cfg B R (Octo n ls)"

inductive_cases octo_okE: "octo_ok cfg B R (Octo n ls)"

lemma leafnum_less: "leafnum p c < 8"
  by (cases p; cases c) (simp add: side_def)

lemma leaf_center_octant: "leaf_center p c q = octant_center (leafnum p c) c q"
  by (cases p; cases c) (simp add: side_def octant_center_def)

lemma new_leaf_ok:
  assumes "cfg_ok cfg B" "0 \<le> layer n" "layer n < max_layer cfg"
  shows "\<exists>m. new_leaf cfg p n = Inr (Octo m (replicate 8 None)) \<and> child_of n (leafnum p (voxel_center n)) m
    \<and> points_size_threshold m = layer_init_num cfg ! nat (layer m) \<and> temp_points m = [] \<and> \<not> init_octo m"
  using assms by (simp add: new_leaf_def VoxelOctoTree_def Let_def cfg_ok_def child_of_def leaf_center_octant)

text \<open>What a child looks like after the points of ps have been handed out.\<close>

definition handed :: "voxel_config \<Rightarrow> octo_node \<Rightarrow> point_with_var list \<Rightarrow> nat \<Rightarrow> octree option \<Rightarrow> bool" where
  "handed cfg n ps j x \<longleftrightarrow> (let own = filter (\<lambda>p. leafnum (point_w p) (voxel_center n) = j) ps in
     case x of None \<Rightarrow> own = []
     | Some t \<Rightarrow> (\<exists>m. t = Octo m (replicate 8 None) \<and> child_of n j m \<and> temp_points m = own \<and> own \<noteq> []
         \<and> points_size_threshold m = layer_init_num cfg ! nat (layer m) \<and> \<not> init_octo m))"

lemma distribute_spec:
  assumes "cfg_ok cfg B" "0 \<le> layer n" "layer n < max_layer cfg"
    and "length ls = 8" "\<forall>j < 8. handed cfg n ps j (ls ! j)"
  shows "\<exists>ls'. distribute cfg n pvs ls = Inr ls' \<and> length ls' = 8 \<and> (\<forall>j < 8. handed cfg n (ps @ pvs) j (ls' ! j))"
  using assms(4,5)
proof (induction pvs arbitrary: ls ps)
  case Nil
  then show ?case by simp
next
  case (Cons pv pvs)
  let ?i = "leafnum (point_w pv) (voxel_center n)"
  have i: "?i < 8" by (rule leafnum_less)
  have h: "handed cfg n ps ?i (ls ! ?i)" using Cons.prems(2) i by blast
  obtain t where t: "(case ls ! ?i of Some t \<Rightarrow> Inr t | None \<Rightarrow> new_leaf cfg (point_w pv) n) = Inr t"
    "handed cfg n (ps @ [pv]) ?i (Some (add_point pv t))"
  proof (cases "ls ! ?i")
    case None
    obtain m where "new_leaf cfg (point_w pv) n = Inr (Octo m (replicate 8 None))" "child_of n ?i m"
      "points_size_threshold m = layer_init_num cfg ! nat (layer m)" "temp_points m = []" "\<not> init_octo m"
      using new_leaf_ok[OF assms(1-3)] by blast
    then show ?thesis using that[of "Octo m (replicate 8 None)"] h None
      by (simp add: handed_def add_point_def child_of_def Let_def)
  next
    case (Some t)
    then show ?thesis using that[of t] h by (auto simp: handed_def add_point_def child_of_def Let_def)
  qed
  have "\<forall>j < 8. handed cfg n (ps @ [pv]) j (ls[?i := Some (add_point pv t)] ! j)"
  proof (intro allI impI)
    fix j :: nat assume j: "j < 8"
    show "handed cfg n (ps @ [pv]) j (ls[?i := Some (add_point pv t)] ! j)"
    proof (cases "j = ?i")
      case True
      then show ?thesis using t(2) Cons.prems(1) i by simp
    next
      case False
      then have "handed cfg n (ps @ [pv]) j (ls ! j) \<longleftrightarrow> handed cfg n ps j (ls ! j)" by (simp add: handed_def)
      then show ?thesis using Cons.prems(2) j False by simp
    qed
  qed
  then show ?case using Cons.IH[of "ls[?i := Some (add_point pv t)]" "ps @ [pv]"] Cons.prems(1) i t(1)
    by (simp add: Let_def)
qed

text \<open>A node whose children do not exist yet and whose points may be too many.\<close>

definition uncut :: "voxel_config \<Rightarrow> nat \<Rightarrow> (vec \<Rightarrow> bool) \<Rightarrow> octo_node \<Rightarrow> bool" where
  "uncut cfg B R n \<longleftrightarrow> node_ok cfg B R n \<and> temp_points n \<noteq> []"

definition same_place :: "octo_node \<Rightarrow> octo_node \<Rightarrow> bool" where
  "same_place n m \<longleftrightarrow> layer m = layer n \<and> voxel_center m = voxel_center n \<and> quater_length m = quater_length n"

definition cuts_well :: "voxel_config \<Rightarrow> nat \<Rightarrow> int \<Rightarrow> (octree \<Rightarrow> int \<Rightarrow> (octree \<times> int) res) \<Rightarrow> bool" where
  "cuts_well cfg B l f \<longleftrightarrow> (\<forall>R n k. uncut cfg B R n \<and> layer n = l \<longrightarrow> (\<exists>m ms k'.
     f (Octo n (replicate 8 None)) k = Inr (Octo m ms, k') \<and> same_place n m
     \<and> octo_ok cfg B R (Octo (m\<lparr>init_octo := True, new_points := 0\<rparr>) ms)))"

lemma cuts_wellD: "cuts_well cfg B l f \<Longrightarrow> layer n = l \<Longrightarrow> uncut cfg B R n \<Longrightarrow> \<exists>m ms k'.
     f (Octo n (replicate 8 None)) k = Inr (Octo m ms, k') \<and> same_place n m
     \<and> octo_ok cfg B R (Octo (m\<lparr>init_octo := True, new_points := 0\<rparr>) ms)"
  by (simp add: cuts_well_def del: replicate.simps)

lemma octo_ok_childless:
  assumes "node_ok cfg B R n" "init_octo n \<or> length (temp_points n) \<le> usize (points_size_threshold n)"
  shows "octo_ok cfg B R (Octo n (replicate 8 None))"
  using assms by (intro octo_ok.octo) (auto simp del: replicate.simps)

lemma node_ok_frame:
  "node_ok cfg B R (n\<lparr>plane := p\<rparr>) = node_ok cfg B R n" "node_ok cfg B R (n\<lparr>octo_state := s\<rparr>) = node_ok cfg B R n"
  "node_ok cfg B R (n\<lparr>init_octo := b\<rparr>) = node_ok cfg B R n" "node_ok cfg B R (n\<lparr>new_points := i\<rparr>) = node_ok cfg B R n"
  by (simp_all add: node_ok_def)

lemma node_ok_clear: "node_ok cfg B R n \<Longrightarrow> node_ok cfg B R (clear_points n)"
  by (simp add: node_ok_def clear_points_def)


lemma init_leaves_ok:
  assumes "cfg_ok cfg B" "fit_ok nm" "cuts_well cfg B (l + 1) again"
    and "\<forall>j < length ts. case ts ! j of None \<Rightarrow> True
      | Some t \<Rightarrow> \<exists>n. t = Octo n (replicate 8 None) \<and> uncut cfg B (R j) n \<and> layer n = l + 1 \<and> \<not> init_octo n"
  shows "\<exists>ts' k'. init_leaves nm cfg again ts k = Inr (ts', k') \<and> length ts' = length ts
    \<and> (\<forall>j < length ts. case ts ! j of None \<Rightarrow> ts' ! j = None
        | Some t \<Rightarrow> \<exists>u. ts' ! j = Some u \<and> same_place (node t) (node u) \<and> octo_ok cfg B (R j) u)"
  using assms(4)
proof (induction ts arbitrary: k R)
  case Nil
  then show ?case by simp
next
  case (Cons x ts)
  have tl: "\<forall>j < length ts. case ts ! j of None \<Rightarrow> True
      | Some t \<Rightarrow> \<exists>n. t = Octo n (replicate 8 None) \<and> uncut cfg B (R (Suc j)) n \<and> layer n = l + 1 \<and> \<not> init_octo n"
    using Cons.prems by auto
  note ih = Cons.IH[OF tl]
  have fin: "\<exists>ts'' k''. bindR (init_leaves nm cfg again ts k0) (\<lambda>(ts', k'). Inr (y # ts', k')) = Inr (ts'', k'') \<and> length ts'' = length (x # ts)
    \<and> (\<forall>j < length (x # ts). case (x # ts) ! j of None \<Rightarrow> ts'' ! j = None
        | Some t \<Rightarrow> \<exists>u. ts'' ! j = Some u \<and> same_place (node t) (node u) \<and> octo_ok cfg B (R j) u)"
    if "case x of None \<Rightarrow> y = None | Some t \<Rightarrow> \<exists>u. y = Some u \<and> same_place (node t) (node u) \<and> octo_ok cfg B (R 0) u" for y k0
  proof -
    obtain ts' k' where i: "init_leaves nm cfg again ts k0 = Inr (ts', k')" "length ts' = length ts"
      "\<forall>j < length ts. case ts ! j of None \<Rightarrow> ts' ! j = None
        | Some t \<Rightarrow> \<exists>u. ts' ! j = Some u \<and> same_place (node t) (node u) \<and> octo_ok cfg B (R (Suc j)) u"
      using ih[of k0] by blast
    have "case (x # ts) ! j of None \<Rightarrow> (y # ts') ! j = None
        | Some t \<Rightarrow> \<exists>u. (y # ts') ! j = Some u \<and> same_place (node t) (node u) \<and> octo_ok cfg B (R j) u"
      if "j < length (x # ts)" for j
      using that i(3) \<open>case x of None \<Rightarrow> _ | Some t \<Rightarrow> _ t\<close> by (cases j) (simp_all cong: option.case_cong)
    then show ?thesis using i(1,2) by simp
  qed
  show ?case
  proof (cases x)
    case None
    then show ?thesis using fin[of None k] by simp
  next
    case (Some t)
    obtain n where n: "t = Octo n (replicate 8 None)" "uncut cfg B (R 0) n" "layer n = l + 1" "\<not> init_octo n"
      using Cons.prems Some by fastforce
    show ?thesis
    proof (cases "length (temp_points n) \<le> usize (points_size_threshold n)")
      case True
      then have "octo_ok cfg B (R 0) t" using n(1,2) octo_ok_childless by (simp add: uncut_def)
      then show ?thesis using fin[of "Some t" k] Some n(1) True by (simp add: same_place_def)
    next
      case False
      obtain pl k1 where pl: "InitPlane nm (planner_threshold cfg) (temp_points n) (plane n) k = Inr (pl, k1)"
        using InitPlane_ok[OF assms(2)] n(2) by (metis uncut_def)
      show ?thesis
      proof (cases "is_plane pl")
        case True
        let ?m = "(if usize (max_points_num cfg) < length (temp_points n) then clear_points n else n)
            \<lparr>plane := pl, octo_state := 0, init_octo := True, new_points := 0\<rparr>"
        have "node_ok cfg B (R 0) ?m" using n(2) by (simp add: uncut_def node_ok_frame node_ok_clear)
        then have "octo_ok cfg B (R 0) (Octo ?m (replicate 8 None))" by (intro octo_ok_childless) simp_all
        moreover have "same_place n ?m" by (simp add: same_place_def clear_points_def)
        ultimately show ?thesis using fin[of "Some (Octo ?m (replicate 8 None))" k1] Some n(1) False pl True by simp
      next
        case np: False
        have "uncut cfg B (R 0) (n\<lparr>plane := pl, octo_state := 1\<rparr>)" using n(2) by (simp add: uncut_def node_ok_frame)
        moreover have "layer (n\<lparr>plane := pl, octo_state := 1\<rparr>) = l + 1" using n(3) by simp
        ultimately obtain m ms k2 where m: "again (Octo (n\<lparr>plane := pl, octo_state := 1\<rparr>) (replicate 8 None)) k1 = Inr (Octo m ms, k2)"
          "same_place (n\<lparr>plane := pl, octo_state := 1\<rparr>) m" "octo_ok cfg B (R 0) (Octo (m\<lparr>init_octo := True, new_points := 0\<rparr>) ms)"
          using assms(3) unfolding cuts_well_def by blast
        have "same_place n (m\<lparr>init_octo := True, new_points := 0\<rparr>)" using m(2) by (simp add: same_place_def)
        then show ?thesis using fin[of "Some (Octo (m\<lparr>init_octo := True, new_points := 0\<rparr>) ms)" k2] m Some n(1) False pl np
          by simp
      qed
    qed
  qed
qed

lemma cut_tree_ok:
  assumes "cfg_ok cfg B" "fit_ok nm"
  shows "cuts_well cfg B (max_layer cfg - int d) (cut_tree nm cfg d)"
proof (induction d)
  case 0
  have "octo_ok cfg B R (Octo ((n\<lparr>octo_state := 0\<rparr>)\<lparr>init_octo := True, new_points := 0\<rparr>) (replicate 8 None))"
    if "uncut cfg B R n" for R n
    using that by (intro octo_ok_childless) (simp_all add: uncut_def node_ok_frame)
  then show ?case by (auto simp: cuts_well_def same_place_def)
next
  case (Suc d)
  show ?case
    unfolding cuts_well_def
  proof (intro allI impI, elim conjE)
    fix R n k assume n: "uncut cfg B R n" "layer n = max_layer cfg - int (Suc d)"
    have l: "0 \<le> layer n" "layer n < max_layer cfg" using n by (simp_all add: uncut_def node_ok_def)
    have "\<forall>j < 8. handed cfg n [] j (replicate 8 None ! j)" by (simp add: handed_def del: replicate.simps)
    then obtain ls where ls: "distribute cfg n (temp_points n) (replicate 8 None) = Inr ls" "length ls = 8"
      "\<forall>j < 8. handed cfg n (temp_points n) j (ls ! j)"
      using distribute_spec[OF assms(1) l, of "replicate 8 None" "[]" "temp_points n"] by auto
    have pre: "\<forall>j < length ls. case ls ! j of None \<Rightarrow> True
      | Some t \<Rightarrow> \<exists>m. t = Octo m (replicate 8 None) \<and> uncut cfg B (octant R n j) m \<and> layer m = layer n + 1 \<and> \<not> init_octo m"
    proof (intro allI impI)
      fix j assume j: "j < length ls"
      then have h: "handed cfg n (temp_points n) j (ls ! j)" using ls(2,3) by simp
      show "case ls ! j of None \<Rightarrow> True
        | Some t \<Rightarrow> \<exists>m. t = Octo m (replicate 8 None) \<and> uncut cfg B (octant R n j) m \<and> layer m = layer n + 1 \<and> \<not> init_octo m"
      proof (cases "ls ! j")
        case (Some t)
        then obtain m where m: "t = Octo m (replicate 8 None)" "child_of n j m" "\<not> init_octo m"
          "temp_points m = filter (\<lambda>p. leafnum (point_w p) (voxel_center n) = j) (temp_points n)" "temp_points m \<noteq> []"
          "points_size_threshold m = layer_init_num cfg ! nat (layer m)"
          using h by (auto simp: handed_def Let_def)
        have "length (temp_points m) \<le> B"
          using m(4) n(1) length_filter_le[of _ "temp_points n"] by (metis le_trans node_ok_def uncut_def)
        then have "uncut cfg B (octant R n j) m"
          using m n(1) l by (auto simp: uncut_def node_ok_def octant_def child_of_def)
        then show ?thesis using Some m by (auto simp: child_of_def)
      qed simp
    qed
    have c: "cuts_well cfg B (layer n + 1) (cut_tree nm cfg d)" using Suc n(2) by simp
    obtain ls' k' where ls': "init_leaves nm cfg (cut_tree nm cfg d) ls k = Inr (ls', k')" "length ls' = 8"
      "\<forall>j < 8. case ls ! j of None \<Rightarrow> ls' ! j = None
        | Some t \<Rightarrow> \<exists>u. ls' ! j = Some u \<and> same_place (node t) (node u) \<and> octo_ok cfg B (octant R n j) u"
      using init_leaves_ok[OF assms c pre, of k] ls(2) by auto
    let ?n = "n\<lparr>init_octo := True, new_points := 0\<rparr>"
    have "octo_ok cfg B R (Octo ?n ls')"
    proof (rule octo_ok.octo)
      fix j u assume j: "j < 8" "ls' ! j = Some u"
      have o: "octant R ?n j = octant R n j" by (simp add: octant_def fun_eq_iff)
      obtain t where t: "ls ! j = Some t" "same_place (node t) (node u)" "octo_ok cfg B (octant R n j) u"
        using ls'(3) j by (cases "ls ! j") auto
      have "handed cfg n (temp_points n) j (ls ! j)" using ls(3) j(1) by blast
      then have "child_of n j (node t)" using t(1) by (auto simp: handed_def Let_def)
      then show "child_of ?n j (node u) \<and> octo_ok cfg B (octant R ?n j) u"
        using t(2,3) o by (simp add: child_of_def same_place_def)
    qed (use n(1) ls'(2) in \<open>simp_all add: uncut_def node_ok_frame\<close>)
    moreover have "cut_tree nm cfg (Suc d) (Octo n (replicate 8 None)) k = Inr (Octo n ls', k')"
      using ls(1) ls'(1) by (simp del: replicate.simps)
    ultimately show "\<exists>m ms k'. cut_tree nm cfg (Suc d) (Octo n (replicate 8 None)) k = Inr (Octo m ms, k')
        \<and> same_place n m \<and> octo_ok cfg B R (Octo (m\<lparr>init_octo := True, new_points := 0\<rparr>) ms)"
      by (auto simp: same_place_def simp del: replicate.simps cut_tree.simps)
  qed
qed

text \<open>
  cut_partitions: the first loop of a split hands every point of the node to the child of its
  octant, in order: each child gets exactly the points of its octant and exists
  only if there are any, it lies one layer deeper, has half the size, and its
  centre is that of the octant.
\<close>
theorem cut_partitions:
  assumes "cfg_ok cfg B" "0 \<le> layer n" "layer n < max_layer cfg"
  shows "\<exists>ls. distribute cfg n (temp_points n) (replicate 8 None) = Inr ls \<and> length ls = 8
    \<and> (\<forall>j < 8. let own = filter (\<lambda>p. leafnum (point_w p) (voxel_center n) = j) (temp_points n) in
         case ls ! j of None \<Rightarrow> own = []
         | Some t \<Rightarrow> own \<noteq> [] \<and> temp_points (node t) = own \<and> layer (node t) = layer n + 1
             \<and> quater_length (node t) = quater_length n / 2
             \<and> voxel_center (node t) = octant_center j (voxel_center n) (quater_length n))"
proof -
  have "\<forall>j < 8. handed cfg n [] j (replicate 8 None ! j)" by (simp add: handed_def del: replicate.simps)
  then obtain ls where ls: "distribute cfg n (temp_points n) (replicate 8 None) = Inr ls" "length ls = 8"
    "\<forall>j < 8. handed cfg n (temp_points n) j (ls ! j)"
    using distribute_spec[OF assms, of "replicate 8 None" "[]" "temp_points n"] by auto
  have "let own = filter (\<lambda>p. leafnum (point_w p) (voxel_center n) = j) (temp_points n) in
         case ls ! j of None \<Rightarrow> own = []
         | Some t \<Rightarrow> own \<noteq> [] \<and> temp_points (node t) = own \<and> layer (node t) = layer n + 1
             \<and> quater_length (node t) = quater_length n / 2
             \<and> voxel_center (node t) = octant_center j (voxel_center n) (quater_length n)" if "j < 8" for j
  proof -
    have "handed cfg n (temp_points n) j (ls ! j)" using ls(3) that by blast
    then show ?thesis by (cases "ls ! j") (auto simp: handed_def Let_def child_of_def)
  qed
  then show ?thesis using ls(1,2) by blast
qed

definition small_cfg :: voxel_config where
  "small_cfg = \<lparr>max_voxel_size = 1 / 2, max_layer = 2, max_iterations = 5, layer_init_num = [5, 5, 5, 5, 5],
     max_points_num = 50, planner_threshold = 1 / 100, sigma_num = 3, sliding_thresh = 8, half_map_size = 100\<rparr>"

lemma small_cfg_ok: "cfg_ok small_cfg 50"
  by (simp add: cfg_ok_def small_cfg_def usize_def)

theorem cut_partitions_witness:
  "\<exists>ls. distribute small_cfg ((node (VoxelOctoTree 0 5))\<lparr>temp_points := [sample_point 1 1 1]\<rparr>) [sample_point 1 1 1] (replicate 8 None)
     = Inr ls \<and> length ls = 8"
  using cut_partitions[OF small_cfg_ok, of "(node (VoxelOctoTree 0 5))\<lparr>temp_points := [sample_point 1 1 1]\<rparr>"]
  by (auto simp: VoxelOctoTree_def small_cfg_def simp del: distribute.simps replicate.simps)

section \<open>Updating\<close>

lemma InitOctoTree_ok:
  assumes "cfg_ok cfg B" "fit_ok nm" "uncut cfg B R n" "\<not> init_octo n"
  shows "\<exists>m ms k'. InitOctoTree nm cfg (Octo n (replicate 8 None)) k = Inr (Octo m ms, k') \<and> same_place n m
    \<and> octo_ok cfg B R (Octo m ms)"
proof (cases "length (temp_points n) \<le> usize (points_size_threshold n)")
  case True
  then show ?thesis using assms(3) octo_ok_childless[of cfg B R n]
    by (simp add: InitOctoTree_def uncut_def same_place_def del: replicate.simps)
next
  case False
  obtain pl k1 where pl: "InitPlane nm (planner_threshold cfg) (temp_points n) (plane n) k = Inr (pl, k1)"
    using InitPlane_ok[OF assms(2)] assms(3) by (metis uncut_def)
  show ?thesis
  proof (cases "is_plane pl")
    case True
    let ?m = "(if usize (max_points_num cfg) < length (temp_points n) then clear_points n else n)
        \<lparr>plane := pl, octo_state := 0, init_octo := True, new_points := 0\<rparr>"
    have "node_ok cfg B R ?m" using assms(3) by (simp add: uncut_def node_ok_frame node_ok_clear)
    then have "octo_ok cfg B R (Octo ?m (replicate 8 None))" by (intro octo_ok_childless) simp_all
    moreover have "same_place n ?m" by (simp add: same_place_def clear_points_def)
    ultimately show ?thesis using False pl True by (simp add: InitOctoTree_def del: replicate.simps)
  next
    case np: False
    let ?n = "n\<lparr>plane := pl, octo_state := 1\<rparr>"
    have u: "uncut cfg B R ?n" using assms(3) by (simp add: uncut_def node_ok_frame)
    have "layer ?n = max_layer cfg - int (nat (max_layer cfg - layer n))"
      using assms(3) by (simp add: uncut_def node_ok_def)
    from cuts_wellD[OF cut_tree_ok[OF assms(1,2)] this u, of k1]
    obtain m ms k2 where m: "CutOctoTree nm cfg (Octo ?n (replicate 8 None)) k1 = Inr (Octo m ms, k2)"
      "same_place ?n m" "octo_ok cfg B R (Octo (m\<lparr>init_octo := True, new_points := 0\<rparr>) ms)"
      by (auto simp: CutOctoTree_def simp del: replicate.simps)
    have "same_place n (m\<lparr>init_octo := True, new_points := 0\<rparr>)" using m(2) by (simp add: same_place_def)
    then show ?thesis using m False pl np by (simp add: InitOctoTree_def del: replicate.simps)
  qed
qed

lemma update_fresh_ok:
  assumes "cfg_ok cfg B" "fit_ok nm" "octo_ok cfg B R (Octo n ls)" "\<not> init_octo n" "R (point_w pv)"
  shows "\<exists>m ms k'. update_fresh nm cfg pv (Octo n ls) k = Inr (Octo m ms, k') \<and> same_place n m \<and> octo_ok cfg B R (Octo m ms)"
proof -
  have n: "node_ok cfg B R n" "ls = replicate 8 None" "length (temp_points n) \<le> usize (points_size_threshold n)"
    using assms(3,4) by (auto elim!: octo_okE)
  have "nat (layer n) < length (layer_init_num cfg)" using n(1) assms(1) unfolding node_ok_def cfg_ok_def by linarith
  then have "usize (points_size_threshold n) < B" using n(1) assms(1) by (simp add: node_ok_def cfg_ok_def)
  then have b: "length (temp_points n) < B" using n(3) by simp
  let ?n = "n\<lparr>temp_points := temp_points n @ [pv], new_points := new_points n + 1\<rparr>"
  have u: "uncut cfg B R ?n" using n(1) b assms(5) by (auto simp: uncut_def node_ok_def)
  have sp: "same_place n m" if "same_place ?n m" for m using that by (simp add: same_place_def)
  show ?thesis
  proof (cases "usize (points_size_threshold n) < length (temp_points ?n)")
    case True
    then show ?thesis using InitOctoTree_ok[OF assms(1,2) u, of k] assms(4) n(2) sp
      by (auto simp: update_fresh_def add_point_def Let_def simp del: replicate.simps)
  next
    case False
    then have "octo_ok cfg B R (Octo ?n (replicate 8 None))" using u by (intro octo_ok_childless) (simp_all add: uncut_def)
    then show ?thesis using False n(2) by (simp add: update_fresh_def add_point_def Let_def same_place_def del: replicate.simps)
  qed
qed

lemma octo_node_pts: "temp_points (n\<lparr>new_points := i, temp_points := ps @ [pv]\<rparr>) \<noteq> []"
  by simp

lemma update_points_ok:
  assumes "cfg_ok cfg B" "fit_ok nm" "node_ok cfg B R n" "R (point_w pv)"
    and "\<And>m. \<not> full m \<Longrightarrow> m \<le> B"
  shows "\<exists>m k'. update_points nm cfg full pv n k = Inr (m, k') \<and> same_place n m \<and> init_octo m = init_octo n
    \<and> node_ok cfg B R m"
proof (cases "update_enable n")
  case False
  then show ?thesis using assms(3) by (simp add: update_points_def same_place_def)
next
  case True
  let ?n1 = "n\<lparr>new_points := new_points n + 1, temp_points := temp_points n @ [pv]\<rparr>"
  obtain pl k1 where pl: "InitPlane nm (planner_threshold cfg) (temp_points ?n1) (plane ?n1) k = Inr (pl, k1)"
    using InitPlane_ok[OF assms(2), of "temp_points ?n1"] by (metis octo_node_pts)
  have ok: "node_ok cfg B R (if full (length (temp_points m)) then (clear_points m)\<lparr>new_points := 0\<rparr> else m)"
    if "temp_points m = temp_points ?n1" "same_place n m" "points_size_threshold m = points_size_threshold n" for m
    using that assms(3,4) assms(5)[of "length (temp_points m)"]
    by (auto simp: node_ok_def same_place_def clear_points_def)
  show ?thesis
    using True pl ok[of ?n1] ok[of "?n1\<lparr>plane := pl, new_points := 0\<rparr>"]
    by (auto simp: update_points_def Let_def same_place_def clear_points_def)
qed

lemma octo_ok_node_change:
  assumes "octo_ok cfg B R (Octo n ls)" "node_ok cfg B R m" "same_place n m" "init_octo n" "init_octo m"
  shows "octo_ok cfg B R (Octo m ls)"
proof -
  have o: "octant R m j = octant R n j" "child_of m j u = child_of n j u" for j u
    using assms(3) by (simp_all add: octant_def child_of_def same_place_def fun_eq_iff)
  show ?thesis using assms by (auto elim!: octo_okE intro!: octo_ok.octo simp: o)
qed

lemma UpdateOctoTree_ok:
  assumes "cfg_ok cfg B" "fit_ok nm" "octo_ok cfg B R t" "R (point_w pv)"
  shows "\<exists>u k'. UpdateOctoTree nm cfg pv t k = Inr (u, k') \<and> same_place (node t) (node u) \<and> octo_ok cfg B R u"
  using assms
proof (induction nm cfg pv t k arbitrary: R rule: UpdateOctoTree.induct)
  case (1 nm cfg pv n ls k)
  note ok = 1(4) and r = 1(5)
  have n: "node_ok cfg B R n" "length ls = 8" using ok by (auto elim!: octo_okE)
  have full: "\<not> usize (max_points_num cfg) \<le> m \<Longrightarrow> m \<le> B" "\<not> usize (max_points_num cfg) < m \<Longrightarrow> m \<le> B" for m
    using 1(2) by (auto simp: cfg_ok_def)
  show ?case
  proof (cases "init_octo n")
    case False
    then show ?thesis using update_fresh_ok[OF 1(2,3) ok False r, of k] by (auto simp: UpdateOctoTree.simps)
  next
    case init: True
    show ?thesis
    proof (cases "is_plane (plane n) \<or> max_layer cfg \<le> layer n")
      case True
      obtain m k' where m: "update_points nm cfg (if is_plane (plane n) then (\<lambda>m. usize (max_points_num cfg) \<le> m)
          else (\<lambda>m. usize (max_points_num cfg) < m)) pv n k = Inr (m, k')" "same_place n m" "init_octo m = init_octo n"
        "node_ok cfg B R m"
        using update_points_ok[OF 1(2,3) n(1) r, of "if is_plane (plane n) then (\<lambda>m. usize (max_points_num cfg) \<le> m)
          else (\<lambda>m. usize (max_points_num cfg) < m)" k] full by (cases "is_plane (plane n)") (simp_all, blast+)
      then show ?thesis using octo_ok_node_change[OF ok m(4,2) init] init True
        by (auto simp: UpdateOctoTree.simps split: if_splits)
    next
      case False
      let ?i = "leafnum (point_w pv) (voxel_center n)"
      have i: "?i < 8" by (rule leafnum_less)
      have ri: "octant R n ?i (point_w pv)" using r by (simp add: octant_def)
      obtain u k' where u: "(case ls ! ?i of Some t \<Rightarrow> UpdateOctoTree nm cfg pv t k
          | None \<Rightarrow> bindR (new_leaf cfg (point_w pv) n) (\<lambda>t. update_fresh nm cfg pv t k)) = Inr (u, k')"
        "child_of n ?i (node u)" "octo_ok cfg B (octant R n ?i) u"
      proof (cases "ls ! ?i")
        case None
        have l: "0 \<le> layer n" "layer n < max_layer cfg" using n(1) False by (simp_all add: node_ok_def)
        obtain m where m: "new_leaf cfg (point_w pv) n = Inr (Octo m (replicate 8 None))" "child_of n ?i m"
          "points_size_threshold m = layer_init_num cfg ! nat (layer m)" "temp_points m = []" "\<not> init_octo m"
          using new_leaf_ok[OF 1(2) l] by blast
        have "node_ok cfg B (octant R n ?i) m" using m l by (simp add: node_ok_def child_of_def)
        then have "octo_ok cfg B (octant R n ?i) (Octo m (replicate 8 None))" by (intro octo_ok_childless) (simp_all add: m(4))
        from update_fresh_ok[OF 1(2,3) this m(5) ri, of k] show ?thesis
          using that m(1,2) None by (auto simp: child_of_def same_place_def simp del: replicate.simps)
      next
        case (Some t)
        have t: "child_of n ?i (node t)" "octo_ok cfg B (octant R n ?i) t"
          using ok Some i by (auto elim!: octo_okE)
        have "\<exists>u k'. UpdateOctoTree nm cfg pv t k = Inr (u, k') \<and> same_place (node t) (node u) \<and> octo_ok cfg B (octant R n ?i) u"
          using 1(1)[of ?i t "octant R n ?i"] init False Some n(2) i t(2) ri 1(2,3) by simp
        then show ?thesis using that t(1) Some by (auto simp: child_of_def same_place_def)
      qed
      have "octo_ok cfg B R (Octo n (ls[?i := Some u]))"
      proof (rule octo_ok.octo)
        fix j w assume j: "j < 8" "ls[?i := Some u] ! j = Some w"
        show "child_of n j (node w) \<and> octo_ok cfg B (octant R n j) w"
        proof (cases "j = ?i")
          case True
          then show ?thesis using j n(2) u(2,3) by simp
        next
          case False
          then have "ls ! j = Some w" using j(2) by simp
          then show ?thesis using ok j(1) by (auto elim!: octo_okE)
        qed
      qed (use n init in simp_all)
      then show ?thesis using u(1) False init i n(2) by (auto simp: UpdateOctoTree.simps same_place_def Let_def)
    qed
  qed
qed

text \<open>
  A fit that fails does so with an index out of bounds.  For any solver there is
  one that separates the eigenvalues and agrees with it wherever the fit succeeds.
\<close>

definition agrees :: "'a res \<Rightarrow> 'a res \<Rightarrow> bool" where
  "agrees x y \<longleftrightarrow> x = y \<or> x = Inl OutOfBounds"

definition separated :: "numeric \<Rightarrow> numeric" where
  "separated nm = nm\<lparr>eigen := (\<lambda>M. case eigen nm M of (evals, evecs) \<Rightarrow>
     if argmin evals = argmax evals then ((0, 1, 2), evecs) else (evals, evecs))\<rparr>"

lemma fit_ok_separated: "fit_ok (separated nm)"
  by (auto simp: fit_ok_def separated_def split: prod.splits)

lemma agrees_refl: "agrees x x"
  by (simp add: agrees_def)

lemma agrees_bindR: "agrees x y \<Longrightarrow> (\<And>v. agrees (f v) (g v)) \<Longrightarrow> agrees (bindR x f) (bindR y g)"
  by (cases "x = y"; cases y) (simp_all add: agrees_refl, simp_all add: agrees_def)

lemma agrees_InitPlane: "agrees (InitPlane nm th ps p k) (InitPlane (separated nm) th ps p k)"
proof -
  obtain evals evecs where e: "eigen nm (plane_covariance (map point_w ps)) = (evals, evecs)"
    by (metis surj_pair)
  show ?thesis
  proof (cases "argmin evals = argmax evals")
    case True
    then have "3 - argmin evals - argmax evals < 0 \<or> 2 < 3 - argmin evals - argmax evals"
      by (cases evals) (auto split: if_splits)
    then show ?thesis using e by (simp add: InitPlane_def Let_def agrees_def)
  next
    case False
    then show ?thesis using e by (simp add: InitPlane_def Let_def agrees_def separated_def)
  qed
qed

lemma agrees_init_leaves:
  assumes "\<And>t k. agrees (f t k) (g t k)"
  shows "agrees (init_leaves nm cfg f ts k) (init_leaves (separated nm) cfg g ts k)"
proof (induction ts arbitrary: k)
  case Nil
  then show ?case by (simp add: agrees_refl)
next
  case (Cons x ts)
  show ?case
  proof (cases x)
    case None
    then show ?thesis using Cons by (auto intro!: agrees_bindR agrees_refl)
  next
    case (Some t)
    then show ?thesis using Cons assms
      by (cases t) (auto intro!: agrees_bindR agrees_refl agrees_InitPlane simp: assms)
  qed
qed

lemma agrees_cut_tree: "agrees (cut_tree nm cfg d t k) (cut_tree (separated nm) cfg d t k)"
proof (induction d arbitrary: t k)
  case 0
  then show ?case by (cases t) (simp add: agrees_refl)
next
  case (Suc d)
  then show ?case by (cases t) (auto intro!: agrees_bindR agrees_refl agrees_init_leaves)
qed

lemma agrees_InitOctoTree: "agrees (InitOctoTree nm cfg t k) (InitOctoTree (separated nm) cfg t k)"
  by (cases t) (auto simp: InitOctoTree_def CutOctoTree_def
      intro!: agrees_bindR agrees_refl agrees_InitPlane agrees_cut_tree split: octree.split)

lemma agrees_update_fresh: "agrees (update_fresh nm cfg pv t k) (update_fresh (separated nm) cfg pv t k)"
  by (simp add: update_fresh_def Let_def agrees_InitOctoTree agrees_refl)

lemma agrees_update_points:
  "agrees (update_points nm cfg full pv n k) (update_points (separated nm) cfg full pv n k)"
  by (auto simp: update_points_def Let_def intro!: agrees_bindR agrees_refl agrees_InitPlane)

lemma agrees_UpdateOctoTree: "agrees (UpdateOctoTree nm cfg pv t k) (UpdateOctoTree (separated nm) cfg pv t k)"
proof (induction nm cfg pv t k rule: UpdateOctoTree.induct)
  case (1 nm cfg pv n ls k)
  have "agrees (case ls ! i of Some t \<Rightarrow> UpdateOctoTree nm cfg pv t k | None \<Rightarrow> bindR (new_leaf cfg (point_w pv) n) (\<lambda>t. update_fresh nm cfg pv t k))
      (case ls ! i of Some t \<Rightarrow> UpdateOctoTree (separated nm) cfg pv t k
        | None \<Rightarrow> bindR (new_leaf cfg (point_w pv) n) (\<lambda>t. update_fresh (separated nm) cfg pv t k))"
    if "init_octo n" "\<not> is_plane (plane n)" "layer n < max_layer cfg" "i = leafnum (point_w pv) (voxel_center n)" "i < length ls" for i
    using that 1 by (cases "ls ! i") (auto intro!: agrees_bindR agrees_refl agrees_update_fresh)
  then show ?case
    by (subst (1 2) UpdateOctoTree.simps)
      (auto simp: Let_def not_le intro!: agrees_bindR agrees_refl agrees_update_fresh agrees_update_points)
qed

lemma UpdateOctoTree_cases:
  assumes "cfg_ok cfg B" "octo_ok cfg B R t" "R (point_w pv)"
  shows "(\<exists>u k'. UpdateOctoTree nm cfg pv t k = Inr (u, k') \<and> same_place (node t) (node u) \<and> octo_ok cfg B R u)
    \<or> UpdateOctoTree nm cfg pv t k = Inl OutOfBounds \<and> \<not> fit_ok nm"
proof -
  obtain u k' where u: "UpdateOctoTree (separated nm) cfg pv t k = Inr (u, k')" "same_place (node t) (node u)" "octo_ok cfg B R u"
    using UpdateOctoTree_ok[where nm = "separated nm", OF assms(1) fit_ok_separated assms(2,3)] by blast
  then have "UpdateOctoTree nm cfg pv t k = Inr (u, k') \<or> UpdateOctoTree nm cfg pv t k = Inl OutOfBounds"
    using agrees_UpdateOctoTree[of nm cfg pv t k] by (simp add: agrees_def)
  then show ?thesis
  proof
    assume f: "UpdateOctoTree nm cfg pv t k = Inl OutOfBounds"
    then have "\<not> fit_ok nm" using UpdateOctoTree_ok[where nm = nm, OF assms(1) _ assms(2,3), of k] by auto
    then show ?thesis using f by blast
  qed (use u(2,3) in blast)
qed

text \<open>
  C16 update_keeps_octree: adding a point to a well-formed octree leaves it well formed: no node ever
  holds more than B points, which is the greater of the maximal number of points
  and one more than the thresholds; no threshold is read past the configured
  layers; every point lies in the region and in the octants of the nodes above
  it; children are where their octants are; and nodes are not split deeper than
  the greatest layer.  The only failure is the index of the middle eigenvalue,
  when the solver returns three equal ones.
\<close>
theorem update_keeps_octree:
  assumes "cfg_ok cfg B" "octo_ok cfg B R t" "R (point_w pv)"
  shows "(case UpdateOctoTree nm cfg pv t k of Inl e \<Rightarrow> e = OutOfBounds \<and> \<not> fit_ok nm
    | Inr (u, k') \<Rightarrow> octo_ok cfg B R u \<and> length (temp_points (node u)) \<le> B \<and> layer (node u) \<le> max_layer cfg)"
proof -
  have ok: "octo_ok cfg B R u \<Longrightarrow> length (temp_points (node u)) \<le> B \<and> layer (node u) \<le> max_layer cfg" for u
    by (cases u) (auto elim!: octo_okE simp: node_ok_def)
  show ?thesis using UpdateOctoTree_cases[OF assms, of nm k] ok by (elim disjE exE conjE) simp_all
qed

definition spread_solver :: numeric where
  "spread_solver = \<lparr>eigen = (\<lambda>M. ((0, 1, 2), ((1, 0, 0), (0, 1, 0), (0, 0, 1)))), sqrtf = (\<lambda>x. x), expf = (\<lambda>x. 1),
     sinf = (\<lambda>x. x), powf = (\<lambda>x y. x)\<rparr>"

lemma empty_tree_ok: "0 \<le> l \<Longrightarrow> l \<le> max_layer cfg \<Longrightarrow> octo_ok cfg B R (VoxelOctoTree l (layer_init_num cfg ! nat l))"
  unfolding VoxelOctoTree_def by (intro octo_ok_childless) (simp_all add: node_ok_def)

theorem update_keeps_octree_witness:
  "\<exists>u k'. UpdateOctoTree spread_solver small_cfg (sample_point 1 2 3) (VoxelOctoTree 0 5) 0 = Inr (u, k')
     \<and> octo_ok small_cfg 50 (\<lambda>_. True) u"
proof -
  have "octo_ok small_cfg 50 (\<lambda>_. True) (VoxelOctoTree 0 5)"
    using empty_tree_ok[of 0 small_cfg 50 "\<lambda>_. True"] by (simp add: small_cfg_def)
  moreover have "fit_ok spread_solver" by (simp add: fit_ok_def spread_solver_def)
  ultimately show ?thesis
    using update_keeps_octree[OF small_cfg_ok, of "\<lambda>_. True" "VoxelOctoTree 0 5" "sample_point 1 2 3" spread_solver 0]
    by (auto split: sum.splits)
qed

section \<open>Finding what was inserted\<close>

fun node_at :: "octree \<Rightarrow> nat list \<Rightarrow> octo_node option" where
  "node_at (Octo n ls) [] = Some n"
| "node_at (Octo n ls) (i # path) = (if length ls \<le> i then None else
     case ls ! i of None \<Rightarrow> None | Some t \<Rightarrow> node_at t path)"

lemma FindCorrespond_add: "\<not> init_octo n \<or> is_plane (plane n) \<or> max_layer cfg \<le> layer n \<Longrightarrow>
    FindCorrespond cfg w (add_point pv (Octo n ls)) = []"
  by (simp add: add_point_def FindCorrespond.simps)

text \<open>
  C33 insert_then_find: after a point has been inserted, looking up its position leads to the node
  that Insert returned, and that node holds the point as its last.
\<close>
theorem insert_then_find:
  assumes "OctoInsert cfg pv t = Inr (u, path)"
  shows "FindCorrespond cfg (point_w pv) u = path
    \<and> (\<exists>n. node_at u path = Some n \<and> temp_points n \<noteq> [] \<and> last (temp_points n) = pv)"
  using assms
proof (induction cfg pv t arbitrary: u path rule: OctoInsert.induct)
  case (1 cfg pv n ls)
  let ?i = "leafnum (point_w pv) (voxel_center n)"
  show ?case
  proof (cases "\<not> init_octo n \<or> is_plane (plane n) \<or> max_layer cfg \<le> layer n")
    case True
    then have e: "u = add_point pv (Octo n ls)" "path = []"
      using "1.prems" by (simp_all add: OctoInsert.simps[of cfg pv n ls])
    show ?thesis using FindCorrespond_add[OF True] by (simp add: e) (simp add: add_point_def)
  next
    case False
    then obtain t p where t: "?i < length ls" "u = Octo n (ls[?i := Some t])" "path = ?i # p"
      "(case ls ! ?i of Some t \<Rightarrow> OctoInsert cfg pv t
         | None \<Rightarrow> bindR (new_leaf cfg (point_w pv) n) (\<lambda>t. Inr (add_point pv t, []))) = Inr (t, p)"
      using "1.prems" by (auto simp: OctoInsert.simps[of cfg pv n ls] Let_def bindR_eq_Inr split: if_splits)
    have "FindCorrespond cfg (point_w pv) t = p
        \<and> (\<exists>n. node_at t p = Some n \<and> temp_points n \<noteq> [] \<and> last (temp_points n) = pv)"
    proof (cases "ls ! ?i")
      case None
      then obtain m ms where m: "t = add_point pv (Octo m ms)" "p = []" "\<not> init_octo m"
        using t(4) by (auto simp: bindR_eq_Inr new_leaf_def VoxelOctoTree_def Let_def split: if_splits)
      then show ?thesis using FindCorrespond_add[of m cfg "point_w pv" pv ms] by (simp add: add_point_def)
    next
      case (Some s)
      then show ?thesis using "1.IH"[of ?i s t p] False t(1,4) by simp
    qed
    then show ?thesis using False t(1-3) by (simp add: FindCorrespond.simps Let_def)
  qed
qed

theorem insert_then_find_witness:
  "\<exists>u path. OctoInsert small_cfg (sample_point 1 2 3) (VoxelOctoTree 0 5) = Inr (u, path)
     \<and> FindCorrespond small_cfg (1, 2, 3) u = path"
proof -
  obtain u path where r: "OctoInsert small_cfg (sample_point 1 2 3) (VoxelOctoTree 0 5) = Inr (u, path)"
    by (simp add: VoxelOctoTree_def OctoInsert.simps)
  from insert_then_find[OF r] show ?thesis using r by (auto simp: sample_point_def)
qed

end
