(* ===== verification/Lidar_Preprocess.thy ===== *)
theory Lidar_Preprocess
  imports Voxel_Octree "HOL-Library.Multiset"
begin

text \<open>
  The preparation of lidar scans (edge/src/FAST-LIVO2/src/preprocess.cpp): the
  handlers of the sensor types, which filter points and give them their time
  within the scan, and the extraction of surface and edge points.  Numbers are
  exact rationals.  The C library functions are arguments, and so are values the
  code reads without having set them.
\<close>

section \<open>Points, types and the state\<close>

record pcl_point =
  p_x :: rat
  p_y :: rat
  p_z :: rat
  p_intensity :: rat
  p_nx :: rat
  p_ny :: rat
  p_nz :: rat
  curvature :: rat

definition blank_point :: pcl_point where
  "blank_point = \<lparr>p_x = 0, p_y = 0, p_z = 0, p_intensity = 0, p_nx = 0, p_ny = 0, p_nz = 0, curvature = 0\<rparr>"

definition pos :: "pcl_point \<Rightarrow> vec" where
  "pos p = (p_x p, p_y p, p_z p)"

definition range_sqr :: "pcl_point \<Rightarrow> rat" where
  "range_sqr p = p_x p * p_x p + p_y p * p_y p + p_z p * p_z p"

datatype lidar_feature = Nor | Poss_Plane | Real_Plane | Edge_Jump | Edge_Plane | Wire | ZeroPoint
datatype e_jump = Nr_nor | Nr_zero | Nr_180 | Nr_inf | Nr_blind

text \<open>The order of the enumeration, for types[i].ftype >= Real_Plane.\<close>

fun below_real_plane :: "lidar_feature \<Rightarrow> bool" where
  "below_real_plane Nor = True"
| "below_real_plane Poss_Plane = True"
| "below_real_plane _ = False"

text \<open>The intersect of a point whose neighbour is blind comes from unset vectors: None.\<close>

record orgtype =
  ty_range :: rat
  dista :: rat
  angle :: "rat \<times> rat"
  intersect :: "rat option"
  edj :: "e_jump \<times> e_jump"
  ftype :: lidar_feature

text \<open>The constructor sets neither dista nor angle; junk stands for what they hold.\<close>

definition orgtype_init :: "rat \<Rightarrow> orgtype" where
  "orgtype_init junk = \<lparr>ty_range = 0, dista = junk, angle = (junk, junk), intersect = Some 2, edj = (Nr_nor, Nr_nor), ftype = Nor\<rparr>"

datatype lidar_model = AVIA | VELO16 | OUST64 | L515 | XT32 | PANDAR128 | ROBOSENSE | OtherLidar

record preprocess =
  pl_full :: "pcl_point list"
  pl_corn :: "pcl_point list"
  pl_surf :: "pcl_point list"
  pl_buff :: "pcl_point list list"
  lidar_model :: lidar_model
  point_filter_num :: int
  n_scans :: int
  blind :: rat
  blind_sqr :: rat
  feature_enabled :: bool
  given_offset_time :: bool
  dis_a :: rat
  dis_b :: rat
  inf_bound :: rat
  limit_maxmid :: rat
  limit_midmin :: rat
  limit_maxmin :: rat
  p2l_ratio :: rat
  jump_up_limit :: rat
  jump_down_limit :: rat
  cos160 :: rat
  edge_a :: rat
  edge_b :: rat
  smallp_intersect :: rat
  smallp_ratio :: rat

text \<open>
  The constructor assigns dis_a_ twice and dis_b_ never; it leaves blind_sqr_
  unset as well.  The cosine and pi are arguments.
\<close>

definition Preprocess :: "(rat \<Rightarrow> rat) \<Rightarrow> rat \<Rightarrow> rat \<Rightarrow> rat \<Rightarrow> preprocess" where
  "Preprocess cosf m_pi unset_b unset_sqr = \<lparr>pl_full = [], pl_corn = [], pl_surf = [], pl_buff = replicate 128 [], lidar_model = AVIA,
     point_filter_num = 1, n_scans = 6, blind = 1 / 100, blind_sqr = unset_sqr, feature_enabled = False, given_offset_time = False,
     dis_a = 1 / 10, dis_b = unset_b, inf_bound = 10, limit_maxmid = 625 / 100, limit_midmin = 625 / 100, limit_maxmin = 324 / 100,
     p2l_ratio = 225, jump_up_limit = cosf (170 / 180 * m_pi), jump_down_limit = cosf (8 / 180 * m_pi), cos160 = cosf (160 / 180 * m_pi),
     edge_a = 2, edge_b = 1 / 10, smallp_intersect = cosf (1725 / 10 / 180 * m_pi), smallp_ratio = 12 / 10\<rparr>"

definition Preprocess_Set :: "bool \<Rightarrow> lidar_model \<Rightarrow> rat \<Rightarrow> int \<Rightarrow> preprocess \<Rightarrow> preprocess" where
  "Preprocess_Set feat_en lid_type bld pfilt_num s =
     s\<lparr>feature_enabled := feat_en, lidar_model := lid_type, blind := bld, point_filter_num := pfilt_num\<rparr>"

section \<open>Feature extraction\<close>

definition group_size :: nat where "group_size = 8"

definition normalized :: "numeric \<Rightarrow> vec \<Rightarrow> vec" where
  "normalized nm v = (if 0 < vdot v v then vscale (1 / sqrtf nm (vdot v v)) v else v)"

fun cross :: "vec \<Rightarrow> vec \<Rightarrow> vec" where
  "cross (a, b, c) (x, y, z) = (b * z - y * c, c * x - a * z, a * y - x * b)"

text \<open>The distances of the first points of a group, or the blind point that ends it.\<close>

fun group_start :: "orgtype list \<Rightarrow> rat \<Rightarrow> nat \<Rightarrow> nat \<Rightarrow> nat + rat list" where
  "group_start ts b 0 i = Inr []"
| "group_start ts b (Suc n) i = (if ty_range (ts ! i) < b then Inl i
     else case group_start ts b n (Suc i) of Inl j \<Rightarrow> Inl j | Inr ds \<Rightarrow> Inr (dista (ts ! i) # ds))"

text \<open>
  The growth of the group: the end index with the last difference (vx_, vy_, vz_)
  and its square, and the distances; or the blind point.
\<close>

function group_grow :: "pcl_point list \<Rightarrow> orgtype list \<Rightarrow> rat \<Rightarrow> rat \<Rightarrow> nat \<Rightarrow> nat \<Rightarrow> vec \<Rightarrow> rat list \<Rightarrow> nat + nat \<times> vec \<times> rat list" where
  "group_grow pl ts b gd cur nex v ds =
     (if length pl \<le> cur \<or> length pl \<le> nex then Inr (nex, v, ds)
      else if ty_range (ts ! nex) < b then Inl nex
      else let w = vsub (pos (pl ! nex)) (pos (pl ! cur)) in
        if gd \<le> vdot w w then Inr (nex, w, ds)
        else group_grow pl ts b gd cur (Suc nex) w (ds @ [dista (ts ! nex)]))"
  by pat_completeness auto
termination
  by (relation "measure (\<lambda>(pl, ts, b, gd, cur, nex, v, ds). length pl - nex)") auto

declare group_grow.simps [simp del]

text \<open>The greatest squared distance of a point of the group from its line, times the line's squared length.\<close>

definition group_width :: "pcl_point list \<Rightarrow> nat \<Rightarrow> nat \<Rightarrow> vec \<Rightarrow> rat" where
  "group_width pl cur nex v = fold (\<lambda>j m. if length pl \<le> j then m else
     let c = cross (vsub (pos (pl ! j)) (pos (pl ! cur))) v in if m < vdot c c then vdot c c else m) [Suc cur..<nex] 0"

text \<open>The exchange sort, greatest first.\<close>

fun exchange_pass :: "rat \<Rightarrow> rat list \<Rightarrow> rat \<times> rat list" where
  "exchange_pass x [] = (x, [])"
| "exchange_pass x (y # ys) = (if x < y then (case exchange_pass y ys of (m, zs) \<Rightarrow> (m, x # zs))
     else (case exchange_pass x ys of (m, zs) \<Rightarrow> (m, y # zs)))"

lemma exchange_pass_length: "length (snd (exchange_pass x ys)) = length ys"
  by (induction x ys rule: exchange_pass.induct) (auto split: prod.splits)

function exchange_sort :: "rat list \<Rightarrow> rat list" where
  "exchange_sort [] = []"
| "exchange_sort (x # xs) = (case exchange_pass x xs of (m, ys) \<Rightarrow> m # exchange_sort ys)"
  by pat_completeness auto
termination
  by (relation "measure length") (auto, metis exchange_pass_length less_Suc_eq snd_conv)

text \<open>
  PlaneJudge: the type of the group that begins at cur, its end and its direction.
  A quotient by zero is infinite or not a number, and not less than the bound.
\<close>

definition PlaneJudge :: "numeric \<Rightarrow> preprocess \<Rightarrow> pcl_point list \<Rightarrow> orgtype list \<Rightarrow> nat \<Rightarrow> nat \<times> nat \<times> vec" where
  "PlaneJudge nm s pl ts cur = (let g = dis_a s * ty_range (ts ! cur) + dis_b s in
     case group_start ts (blind_sqr s) group_size cur of Inl j \<Rightarrow> (2, j, (0, 0, 0))
     | Inr ds \<Rightarrow> (case group_grow pl ts (blind_sqr s) (g * g) cur (cur + group_size) (0, 0, 0) ds of
         Inl j \<Rightarrow> (2, j, (0, 0, 0))
       | Inr (nex, v, ds) \<Rightarrow> let lw = group_width pl cur nex v; d = exchange_sort ds; n = length d in
           if lw \<noteq> 0 \<and> vdot v v * vdot v v / lw < p2l_ratio s then (0, nex, (0, 0, 0))
           else if d ! (n - 2) < 1 / 10 ^ 16 then (0, nex, (0, 0, 0))
           else if (if lidar_model s = AVIA
                    then limit_maxmid s \<le> d ! 0 / d ! (n div 2) \<or> limit_midmin s \<le> d ! (n div 2) / d ! (n - 2)
                    else limit_maxmin s \<le> d ! 0 / d ! (n - 2))
           then (0, nex, (0, 0, 0))
           else (1, nex, normalized nm v)))"

definition set_ftype :: "nat \<Rightarrow> lidar_feature \<Rightarrow> orgtype list \<Rightarrow> orgtype list" where
  "set_ftype i f ts = ts[i := (ts ! i)\<lparr>ftype := f\<rparr>]"

definition mark_group :: "nat \<Rightarrow> nat \<Rightarrow> orgtype list \<Rightarrow> orgtype list res" where
  "mark_group i nex ts = (if length ts \<le> nex then Inl OutOfBounds
     else Inr (fold (\<lambda>j. set_ftype j (if j \<noteq> i \<and> j \<noteq> nex then Real_Plane else Poss_Plane)) [i..<Suc nex] ts))"

lemma group_start_ge: "group_start ts b n i = Inl j \<Longrightarrow> i \<le> j"
  by (induction ts b n i arbitrary: j rule: group_start.induct) (fastforce split: if_splits sum.splits)+

lemma group_grow_ge:
  "group_grow pl ts b gd cur nex v ds = Inl j \<Longrightarrow> nex \<le> j"
  "group_grow pl ts b gd cur nex v ds = Inr (m, w, es) \<Longrightarrow> nex \<le> m"
proof (induction pl ts b gd cur nex v ds rule: group_grow.induct)
  case (1 pl ts b gd cur nex v ds)
  { case 1 then show ?case using "1.IH" by (subst (asm) group_grow.simps) (fastforce simp: Let_def split: if_splits) }
  { case 2 then show ?case using "1.IH" by (subst (asm) group_grow.simps) (fastforce simp: Let_def split: if_splits) }
qed

lemma PlaneJudge_ge:
  assumes "PlaneJudge nm s pl ts cur = (t, nex, d)"
  shows "cur \<le> nex" "t = 1 \<Longrightarrow> cur < nex"
  using assms group_start_ge[of ts "blind_sqr s" group_size cur]
    group_grow_ge[of pl ts "blind_sqr s" _ cur "cur + group_size"]
  by (fastforce simp: PlaneJudge_def Let_def group_size_def split: sum.splits prod.splits if_splits)+

lemma PlaneJudge_gt: "(Suc 0, nex, d) = PlaneJudge nm s pl ts cur \<Longrightarrow> cur < nex"
  using PlaneJudge_ge(2)[of nm s pl ts cur 1 nex d] by simp

text \<open>The loop over the groups; ld is the direction of the plane before, if there was one.\<close>

function surf_loop :: "numeric \<Rightarrow> preprocess \<Rightarrow> pcl_point list \<Rightarrow> nat \<Rightarrow> nat \<Rightarrow> bool \<Rightarrow> vec \<Rightarrow> orgtype list \<Rightarrow> orgtype list res" where
  "surf_loop nm s pl stop i after_plane ld ts =
     (if stop \<le> i then Inr ts
      else if ty_range (ts ! i) < blind_sqr s then surf_loop nm s pl stop (Suc i) after_plane ld ts
      else case PlaneJudge nm s pl ts i of (t, nex, dir) \<Rightarrow>
        if t = 1 then
          bindR (mark_group i nex ts) (\<lambda>ts1.
            let ts2 = (if after_plane \<and> 1 / 10 < sqrtf nm (vdot ld ld)
                 then set_ftype i (if - (707 / 1000) < vdot ld dir \<and> vdot ld dir < 707 / 1000 then Edge_Plane else Real_Plane) ts1
                 else ts1) in
            surf_loop nm s pl stop nex True dir ts2)
        else surf_loop nm s pl stop (Suc nex) False dir ts)"
  by pat_completeness auto
termination
  by (relation "measure (\<lambda>(nm, s, pl, stop, i, ap, ld, ts). stop - i)")
    (auto dest!: PlaneJudge_gt dest: PlaneJudge_ge(1)[OF sym])

declare surf_loop.simps [simp del]

text \<open>EdgeJumpJudge; side 0 looks back, side 1 ahead.\<close>

definition EdgeJumpJudge :: "numeric \<Rightarrow> preprocess \<Rightarrow> orgtype list \<Rightarrow> nat \<Rightarrow> nat \<Rightarrow> bool" where
  "EdgeJumpJudge nm s ts i nor_dir =
     (if nor_dir = 0 \<and> (ty_range (ts ! (i - 1)) < blind_sqr s \<or> ty_range (ts ! (i - 2)) < blind_sqr s) then False
      else if nor_dir = 1 \<and> (ty_range (ts ! (i + 1)) < blind_sqr s \<or> ty_range (ts ! (i + 2)) < blind_sqr s) then False
      else let d1 = dista (ts ! (i + nor_dir - 1)); d2 = dista (ts ! (i + 3 * nor_dir - 2));
          e1 = sqrtf nm (if d1 < d2 then d2 else d1); e2 = sqrtf nm (if d1 < d2 then d1 else d2) in
        \<not> (edge_a s * e2 < e1 \<or> edge_b s < e1 - e2))"

text \<open>A neighbour of a point: the kind of jump, the angle, and the difference unless the neighbour is blind.\<close>

definition edge_side :: "numeric \<Rightarrow> preprocess \<Rightarrow> pcl_point list \<Rightarrow> orgtype list \<Rightarrow> nat \<Rightarrow> nat \<Rightarrow> e_jump \<Rightarrow> rat \<Rightarrow>
    e_jump \<times> rat \<times> vec option" where
  "edge_side nm s pl ts i m old_jump old_angle =
     (if ty_range (ts ! m) < blind_sqr s
      then (if inf_bound s < ty_range (ts ! i) then Nr_inf else Nr_blind, old_angle, None)
      else let a = pos (pl ! i); v = vsub (pos (pl ! m)) a; c = vdot a v / sqrtf nm (vdot a a) / sqrtf nm (vdot v v) in
        (if c < jump_up_limit s then Nr_180 else if jump_down_limit s < c then Nr_zero else old_jump, c, Some v))"

definition greater_than :: "rat option \<Rightarrow> rat \<Rightarrow> bool" where
  "greater_than x y = (case x of None \<Rightarrow> False | Some r \<Rightarrow> y < r)"

definition less_than :: "rat option \<Rightarrow> rat \<Rightarrow> bool" where
  "less_than x y = (case x of None \<Rightarrow> False | Some r \<Rightarrow> r < y)"

definition classify_edge :: "numeric \<Rightarrow> preprocess \<Rightarrow> orgtype list \<Rightarrow> nat \<Rightarrow> lidar_feature" where
  "classify_edge nm s ts i = (let t = ts ! i; d = dista t; dp = dista (ts ! (i - 1)); prev = fst (edj t); nxt = snd (edj t) in
     if prev = Nr_nor \<and> nxt = Nr_zero \<and> 225 / 10000 < d \<and> 4 * dp < d
     then (if greater_than (intersect t) (cos160 s) \<and> EdgeJumpJudge nm s ts i 0 then Edge_Jump else ftype t)
     else if prev = Nr_zero \<and> nxt = Nr_nor \<and> 225 / 10000 < dp \<and> 4 * d < dp
     then (if greater_than (intersect t) (cos160 s) \<and> EdgeJumpJudge nm s ts i 1 then Edge_Jump else ftype t)
     else if prev = Nr_nor \<and> nxt = Nr_inf then (if EdgeJumpJudge nm s ts i 0 then Edge_Jump else ftype t)
     else if prev = Nr_inf \<and> nxt = Nr_nor then (if EdgeJumpJudge nm s ts i 1 then Edge_Jump else ftype t)
     else if prev \<noteq> Nr_nor \<and> nxt \<noteq> Nr_nor then (if ftype t = Nor then Wire else ftype t)
     else ftype t)"

definition edge_step :: "numeric \<Rightarrow> preprocess \<Rightarrow> pcl_point list \<Rightarrow> nat \<Rightarrow> orgtype list \<Rightarrow> orgtype list" where
  "edge_step nm s pl i ts = (let t = ts ! i in
     if ty_range t < blind_sqr s \<or> \<not> below_real_plane (ftype t) then ts
     else if dista (ts ! (i - 1)) < 1 / 10 ^ 16 \<or> dista t < 1 / 10 ^ 16 then ts
     else case edge_side nm s pl ts i (i - 1) (fst (edj t)) (fst (angle t)) of (e0, a0, v0) \<Rightarrow>
       (case edge_side nm s pl ts i (i + 1) (snd (edj t)) (snd (angle t)) of (e1, a1, v1) \<Rightarrow>
         let x = (case (v0, v1) of (Some u, Some v) \<Rightarrow> Some (vdot u v / sqrtf nm (vdot u u) / sqrtf nm (vdot v v)) | _ \<Rightarrow> None);
             ts' = ts[i := t\<lparr>edj := (e0, e1), angle := (a0, a1), intersect := x\<rparr>] in
         set_ftype i (classify_edge nm s ts' i) ts'))"

definition small_plane_step :: "preprocess \<Rightarrow> nat \<Rightarrow> orgtype list \<Rightarrow> orgtype list" where
  "small_plane_step s i ts = (let dp = dista (ts ! (i - 1)); d = dista (ts ! i) in
     if ty_range (ts ! i) < blind_sqr s \<or> ty_range (ts ! (i - 1)) < blind_sqr s \<or> ty_range (ts ! (i + 1)) < blind_sqr s then ts
     else if dp < 1 / 10 ^ 8 \<or> d < 1 / 10 ^ 8 then ts
     else if ftype (ts ! i) = Nor \<and> less_than (intersect (ts ! i)) (smallp_intersect s)
         \<and> (if d < dp then dp / d else d / dp) < smallp_ratio s
     then let ts1 = (if ftype (ts ! (i - 1)) = Nor then set_ftype (i - 1) Real_Plane ts else ts);
              ts2 = (if ftype (ts1 ! (i + 1)) = Nor then set_ftype (i + 1) Real_Plane ts1 else ts1) in
       set_ftype i Real_Plane ts2
     else ts)"

text \<open>The mean of the points from a to before j, and the loop that hands the points out.\<close>

definition mean_point :: "pcl_point list \<Rightarrow> nat \<Rightarrow> nat \<Rightarrow> pcl_point" where
  "mean_point pl a j = (let ps = map ((!) pl) [a..<j]; n = of_nat (j - a) in
     blank_point\<lparr>p_x := sum_list (map p_x ps) / n, p_y := sum_list (map p_y ps) / n, p_z := sum_list (map p_z ps) / n,
       curvature := sum_list (map curvature ps) / n\<rparr>)"

definition hand_out :: "pcl_point list \<Rightarrow> orgtype list \<Rightarrow> nat \<Rightarrow> nat option \<times> preprocess \<Rightarrow> nat option \<times> preprocess" where
  "hand_out pl ts j st = (case st of (start, s) \<Rightarrow>
     if ftype (ts ! j) = Poss_Plane \<or> ftype (ts ! j) = Real_Plane
     then let a = (case start of None \<Rightarrow> j | Some a \<Rightarrow> a) in
       if int j = (int a + point_filter_num s - 1) mod 2 ^ 32
       then (None, s\<lparr>pl_surf := pl_surf s @ [blank_point\<lparr>p_x := p_x (pl ! j), p_y := p_y (pl ! j), p_z := p_z (pl ! j),
              curvature := curvature (pl ! j)\<rparr>]\<rparr>)
       else (Some a, s)
     else let s1 = (if ftype (ts ! j) = Edge_Jump \<or> ftype (ts ! j) = Edge_Plane then s\<lparr>pl_corn := pl_corn s @ [pl ! j]\<rparr> else s) in
       (None, (case start of None \<Rightarrow> s1 | Some a \<Rightarrow> s1\<lparr>pl_surf := pl_surf s1 @ [mean_point pl a j]\<rparr>)))"

text \<open>The first point that is not blind; the search runs past the end when there is none.\<close>

fun find_head :: "rat \<Rightarrow> orgtype list \<Rightarrow> nat res" where
  "find_head b [] = Inl OutOfBounds"
| "find_head b (t # ts) = (if ty_range t < b then bindR (find_head b ts) (\<lambda>i. Inr (Suc i)) else Inr 0)"

text \<open>In the loops below the neighbours i - 2 to i + 2 exist, as the bounds of the loops see to.\<close>

definition GiveFeature :: "numeric \<Rightarrow> pcl_point list \<Rightarrow> orgtype list \<Rightarrow> preprocess \<Rightarrow> preprocess res" where
  "GiveFeature nm pl ts s = (if pl = [] then Inr s else
     bindR (find_head (blind_sqr s) ts) (\<lambda>head.
     bindR (surf_loop nm s pl (if group_size < length pl then length pl - group_size else 0) head False (0, 0, 0) ts) (\<lambda>ts1.
       let ts2 = fold (edge_step nm s pl) [head + 3..<length pl - 3] ts1;
           ts3 = fold (small_plane_step s) [head + 1..<length pl - 1] ts2 in
       Inr (snd (fold (hand_out pl ts3) [head..<length pl] (None, s))))))"

section \<open>Handlers\<close>

text \<open>The types of a line; junk is what the last dista, which is not set, holds.\<close>

definition line_types :: "(pcl_point \<Rightarrow> rat) \<Rightarrow> rat \<Rightarrow> pcl_point list \<Rightarrow> orgtype list" where
  "line_types rng junk pl = map (\<lambda>i. (orgtype_init junk)\<lparr>ty_range := rng (pl ! i),
     dista := (if Suc i < length pl then let v = vsub (pos (pl ! i)) (pos (pl ! Suc i)) in vdot v v else junk)\<rparr>) [0..<length pl]"

definition flat_sqr :: "pcl_point \<Rightarrow> rat" where
  "flat_sqr p = p_x p * p_x p + p_y p * p_y p"

text \<open>Lines with fewer than least points are left out; an empty line that is not makes the loop over it run away.\<close>

fun feature_lines :: "numeric \<Rightarrow> nat \<Rightarrow> (pcl_point \<Rightarrow> rat) \<Rightarrow> (nat \<Rightarrow> rat) \<Rightarrow> nat list \<Rightarrow> preprocess \<Rightarrow> preprocess res" where
  "feature_lines nm least rng junk [] s = Inr s"
| "feature_lines nm least rng junk (j # js) s = (let pl = pl_buff s ! j in
     if length pl < least then feature_lines nm least rng junk js s
     else if pl = [] then Inl OutOfBounds
     else bindR (GiveFeature nm pl (line_types rng (junk j) pl) s) (feature_lines nm least rng junk js))"

text \<open>Clearing the first n_scans of the 128 buffers.\<close>

definition clear_buffers :: "preprocess \<Rightarrow> preprocess res" where
  "clear_buffers s = (if 128 < n_scans s then Inl OutOfBounds
     else Inr (s\<lparr>pl_buff := replicate (nat (n_scans s)) [] @ drop (nat (n_scans s)) (pl_buff s)\<rparr>))"

definition clear_clouds :: "preprocess \<Rightarrow> preprocess" where
  "clear_clouds s = s\<lparr>pl_surf := [], pl_corn := [], pl_full := []\<rparr>"

definition push_line :: "nat \<Rightarrow> pcl_point \<Rightarrow> preprocess \<Rightarrow> preprocess" where
  "push_line l p s = s\<lparr>pl_buff := (pl_buff s)[l := pl_buff s ! l @ [p]]\<rparr>"

subsection \<open>Livox\<close>

record avia_point =
  av_offset :: u32
  av_x :: rat
  av_y :: rat
  av_z :: rat
  av_reflectivity :: u8
  av_tag :: u8
  av_line :: u8

definition avia_pcl :: "avia_point \<Rightarrow> pcl_point" where
  "avia_pcl q = blank_point\<lparr>p_x := av_x q, p_y := av_y q, p_z := av_z q, p_intensity := of_nat (unat (av_reflectivity q)),
     curvature := of_nat (unat (av_offset q)) / 1000000\<rparr>"

definition on_line :: "preprocess \<Rightarrow> avia_point \<Rightarrow> bool" where
  "on_line s q = (int (unat (av_line q)) < n_scans s)"

text \<open>The time of a point: kept when it is within a millisecond of the entry before, which may be one that was skipped.\<close>

definition avia_time :: "pcl_point option \<Rightarrow> rat \<Rightarrow> rat" where
  "avia_time before c = (case before of None \<Rightarrow> if \<bar>c\<bar> < 1 then c else 0
     | Some p \<Rightarrow> if \<bar>c - curvature p\<bar> < 1 then c else curvature p + 4166667 / 1000000000)"

fun avia_loop :: "avia_point list \<Rightarrow> pcl_point option \<Rightarrow> nat \<Rightarrow> preprocess \<Rightarrow> preprocess res" where
  "avia_loop [] before valid s = Inr s"
| "avia_loop (q # qs) before valid s = (if \<not> on_line s q
     then avia_loop qs (Some blank_point) valid (s\<lparr>pl_full := pl_full s @ [blank_point]\<rparr>)
     else let p = (avia_pcl q)\<lparr>curvature := avia_time before (curvature (avia_pcl q))\<rparr>; m = nat (point_filter_num s mod 2 ^ 32) in
       if m = 0 then Inl DivByZero
       else avia_loop qs (Some p) (Suc valid) (s\<lparr>pl_full := pl_full s @ [p],
         pl_surf := (if Suc valid mod m = 0 \<and> blind_sqr s \<le> range_sqr p then pl_surf s @ [p] else pl_surf s)\<rparr>))"

text \<open>With feature extraction the first point is skipped, and points that repeat the entry before.\<close>

fun avia_feature_loop :: "avia_point list \<Rightarrow> pcl_point \<Rightarrow> preprocess \<Rightarrow> preprocess" where
  "avia_feature_loop [] before s = s"
| "avia_feature_loop (q # qs) before s = (if \<not> (on_line s q \<and> av_tag q AND 0x30 = 0x10)
     then avia_feature_loop qs blank_point (s\<lparr>pl_full := pl_full s @ [blank_point]\<rparr>)
     else let p = avia_pcl q; s1 = s\<lparr>pl_full := pl_full s @ [p]\<rparr> in
       avia_feature_loop qs p (if 1 / 10 ^ 7 < \<bar>p_x p - p_x before\<bar> \<or> 1 / 10 ^ 7 < \<bar>p_y p - p_y before\<bar> \<or> 1 / 10 ^ 7 < \<bar>p_z p - p_z before\<bar>
         then push_line (unat (av_line q)) p s1 else s1))"

definition AviaHandler :: "numeric \<Rightarrow> (nat \<Rightarrow> rat) \<Rightarrow> u32 \<Rightarrow> avia_point list \<Rightarrow> preprocess \<Rightarrow> preprocess res" where
  "AviaHandler nm junk point_num points s = (if 2 ^ 31 \<le> unat point_num then Inl LengthError
     else bindR (clear_buffers (clear_clouds s)) (\<lambda>s1.
       if length points < unat point_num then Inl OutOfBounds
       else let qs = take (unat point_num) points in
         if feature_enabled s
         then let s2 = (case qs of [] \<Rightarrow> s1 | q # qs' \<Rightarrow> avia_feature_loop qs' blank_point (s1\<lparr>pl_full := [blank_point]\<rparr>)) in
           feature_lines nm 6 flat_sqr junk [0..<nat (n_scans s)] s2
         else avia_loop qs None 0 s1))"

subsection \<open>Sensors with point clouds\<close>

text \<open>The fields the handlers use; raw_time is time, t or timestamp.\<close>

record raw_point =
  raw_x :: rat
  raw_y :: rat
  raw_z :: rat
  raw_intensity :: rat
  raw_rgb :: "rat \<times> rat \<times> rat"
  raw_time :: rat
  raw_ring :: nat

definition raw_pcl :: "raw_point \<Rightarrow> pcl_point" where
  "raw_pcl q = blank_point\<lparr>p_x := raw_x q, p_y := raw_y q, p_z := raw_z q, p_intensity := raw_intensity q\<rparr>"

text \<open>Every point_filter_num-th point that is far enough; strict says whether a point at the blind distance is kept.\<close>

definition thinned :: "bool \<Rightarrow> preprocess \<Rightarrow> pcl_point list \<Rightarrow> pcl_point list res" where
  "thinned strict s ps = (if ps = [] then Inr [] else if point_filter_num s = 0 then Inl DivByZero
     else Inr (map snd (filter (\<lambda>(i, p). i mod \<bar>point_filter_num s\<bar> = 0
       \<and> (if strict then blind_sqr s < range_sqr p else blind_sqr s \<le> range_sqr p)) (zip (map int [0..<length ps]) ps))))"

definition L515Handler :: "raw_point list \<Rightarrow> preprocess \<Rightarrow> preprocess res" where
  "L515Handler qs s = bindR (thinned False s (map (\<lambda>q. case raw_rgb q of (r, g, b) \<Rightarrow>
     (raw_pcl q)\<lparr>p_intensity := 0, p_nx := r, p_ny := g, p_nz := b\<rparr>) qs)) (\<lambda>ps. Inr ((clear_clouds s)\<lparr>pl_surf := ps\<rparr>))"

text \<open>Points into the buffers of their lines.\<close>

definition push_ring :: "raw_point \<times> pcl_point \<Rightarrow> preprocess \<Rightarrow> preprocess" where
  "push_ring qp s = (if int (raw_ring (fst qp)) < n_scans s then push_line (raw_ring (fst qp)) (snd qp) s else s)"

definition flat_range :: "numeric \<Rightarrow> pcl_point \<Rightarrow> rat" where
  "flat_range nm p = sqrtf nm (flat_sqr p)"

definition Oust64Handler :: "numeric \<Rightarrow> (nat \<Rightarrow> rat) \<Rightarrow> (pcl_point list \<Rightarrow> pcl_point list) \<Rightarrow> raw_point list \<Rightarrow> preprocess \<Rightarrow> preprocess res" where
  "Oust64Handler nm junk std_sort qs s =
     (let ps = map (\<lambda>q. (raw_pcl q)\<lparr>curvature := raw_time q / 10 ^ 6\<rparr>) qs in
      if feature_enabled s
      then bindR (clear_buffers (clear_clouds s)) (\<lambda>s1.
        feature_lines nm 0 (flat_range nm) junk [0..<nat (n_scans s)]
          (fold push_ring (filter (\<lambda>(q, p). \<not> range_sqr p < blind_sqr s) (zip qs ps)) s1))
      else bindR (thinned False s ps) (\<lambda>ps'. Inr ((clear_clouds s)\<lparr>pl_surf := std_sort ps'\<rparr>)))"

text \<open>
  The time of a point from its yaw, by the turn since the first point of its
  line, which is dropped; a line is None before that.
\<close>

definition yaw_time :: "(rat \<Rightarrow> rat \<Rightarrow> rat) \<Rightarrow> nat \<Rightarrow> pcl_point \<Rightarrow> (rat \<times> rat) option list \<Rightarrow> (rat option \<times> (rat \<times> rat) option list) res" where
  "yaw_time atan2f l p lines = (if length lines \<le> l then Inl OutOfBounds
     else let yaw = atan2f (p_y p) (p_x p) * (572957 / 10000); w = 361 / 100 in
       case lines ! l of None \<Rightarrow> Inr (None, lines[l := Some (yaw, 0)])
       | Some (first, prev) \<Rightarrow> let c = (if yaw \<le> first then (first - yaw) / w else (first - yaw + 360) / w);
             c' = (if c < prev then c + 360 / w else c) in Inr (Some c', lines[l := Some (first, c')]))"

fun timed :: "(rat \<Rightarrow> rat \<Rightarrow> rat) \<Rightarrow> bool \<Rightarrow> (raw_point \<times> pcl_point) list \<Rightarrow> (rat \<times> rat) option list \<Rightarrow>
    (raw_point \<times> pcl_point) option list res" where
  "timed atan2f given [] lines = Inr []"
| "timed atan2f given ((q, p) # qps) lines = (if given
     then bindR (timed atan2f given qps lines) (\<lambda>rs. Inr (Some (q, p) # rs))
     else bindR (yaw_time atan2f (raw_ring q) p lines) (\<lambda>(c, lines').
       bindR (timed atan2f given qps lines') (\<lambda>rs. Inr (map_option (\<lambda>t. (q, p\<lparr>curvature := t\<rparr>)) c # rs))))"

text \<open>The thinning of Velodyne points counts the dropped ones as well.\<close>

definition thinned_opt :: "preprocess \<Rightarrow> (raw_point \<times> pcl_point) option list \<Rightarrow> pcl_point list res" where
  "thinned_opt s rs = (if point_filter_num s = 0 \<and> (\<exists>r \<in> set rs. r \<noteq> None) then Inl DivByZero
     else Inr (map (\<lambda>(i, r). snd (the r)) (filter (\<lambda>(i, r). r \<noteq> None \<and> i mod \<bar>point_filter_num s\<bar> = 0
       \<and> blind_sqr s < range_sqr (snd (the r))) (zip (map int [0..<length rs]) rs))))"

definition ring_features :: "numeric \<Rightarrow> (nat \<Rightarrow> rat) \<Rightarrow> (rat \<Rightarrow> rat \<Rightarrow> rat) \<Rightarrow> raw_point list \<Rightarrow> preprocess \<Rightarrow> preprocess res" where
  "ring_features nm junk atan2f qs s = bindR (clear_buffers s) (\<lambda>s1.
     bindR (timed atan2f (given_offset_time s) (map (\<lambda>q. (q, (raw_pcl q)\<lparr>curvature := raw_time q / 1000\<rparr>))
         (filter (\<lambda>q. int (raw_ring q) < n_scans s) qs)) (replicate 64 None)) (\<lambda>rs.
       feature_lines nm 2 (flat_range nm) junk [0..<nat (n_scans s)]
         (fold push_ring (map the (filter (\<lambda>r. r \<noteq> None) rs)) s1)))"

definition VelodyneHandler :: "numeric \<Rightarrow> (nat \<Rightarrow> rat) \<Rightarrow> (rat \<Rightarrow> rat \<Rightarrow> rat) \<Rightarrow> raw_point list \<Rightarrow> preprocess \<Rightarrow> preprocess res" where
  "VelodyneHandler nm junk atan2f qs s = (let s0 = clear_clouds s in if qs = [] then Inr s0 else
     let s1 = s0\<lparr>given_offset_time := (0 < raw_time (last qs))\<rparr> in
     if feature_enabled s then ring_features nm junk atan2f qs s1
     else bindR (timed atan2f (given_offset_time s1) (map (\<lambda>q. (q, (raw_pcl q)\<lparr>curvature := raw_time q / 1000\<rparr>)) qs)
         (replicate 64 None)) (\<lambda>rs. bindR (thinned_opt s rs) (\<lambda>ps. Inr (s1\<lparr>pl_surf := ps\<rparr>))))"

definition since_first :: "raw_point list \<Rightarrow> pcl_point list" where
  "since_first qs = map (\<lambda>q. (raw_pcl q)\<lparr>curvature := (raw_time q - raw_time (hd qs)) * 1000\<rparr>) qs"

definition Xt32Handler :: "numeric \<Rightarrow> (nat \<Rightarrow> rat) \<Rightarrow> (rat \<Rightarrow> rat \<Rightarrow> rat) \<Rightarrow> raw_point list \<Rightarrow> preprocess \<Rightarrow> preprocess res" where
  "Xt32Handler nm junk atan2f qs s = (if qs = [] then Inl OutOfBounds else
     let s1 = (clear_clouds s)\<lparr>given_offset_time := (0 < raw_time (last qs))\<rparr> in
     if feature_enabled s then ring_features nm junk atan2f qs s1
     else bindR (thinned True s (since_first qs)) (\<lambda>ps. Inr (s1\<lparr>pl_surf := ps\<rparr>)))"

definition Pandar128Handler :: "(pcl_point list \<Rightarrow> pcl_point list) \<Rightarrow> raw_point list \<Rightarrow> preprocess \<Rightarrow> preprocess res" where
  "Pandar128Handler std_sort qs s = (if qs = [] then Inl OutOfBounds else
     bindR (thinned True s (map (\<lambda>p. p\<lparr>p_intensity := p_intensity p / 255\<rparr>) (since_first qs))) (\<lambda>ps.
       Inr (s\<lparr>pl_surf := std_sort ps\<rparr>)))"

definition RobosenseHandler :: "(pcl_point list \<Rightarrow> pcl_point list) \<Rightarrow> raw_point list \<Rightarrow> preprocess \<Rightarrow> preprocess res" where
  "RobosenseHandler std_sort qs s = (if qs = [] then Inl OutOfBounds else
     bindR (thinned False s (since_first qs)) (\<lambda>ps. Inr (s\<lparr>pl_surf := std_sort ps\<rparr>)))"

definition Process_livox :: "numeric \<Rightarrow> (nat \<Rightarrow> rat) \<Rightarrow> u32 \<Rightarrow> avia_point list \<Rightarrow> preprocess \<Rightarrow> (pcl_point list \<times> preprocess) res" where
  "Process_livox nm junk point_num points s = bindR (AviaHandler nm junk point_num points s) (\<lambda>s'. Inr (pl_surf s', s'))"

text \<open>An unknown type leaves the cloud as the last call left it.\<close>

definition Process_cloud :: "numeric \<Rightarrow> (nat \<Rightarrow> rat) \<Rightarrow> (rat \<Rightarrow> rat \<Rightarrow> rat) \<Rightarrow> (pcl_point list \<Rightarrow> pcl_point list) \<Rightarrow> raw_point list \<Rightarrow>
    preprocess \<Rightarrow> (pcl_point list \<times> preprocess) res" where
  "Process_cloud nm junk atan2f std_sort qs s = bindR (case lidar_model s of
       OUST64 \<Rightarrow> Oust64Handler nm junk std_sort qs s
     | VELO16 \<Rightarrow> VelodyneHandler nm junk atan2f qs s
     | L515 \<Rightarrow> L515Handler qs s
     | XT32 \<Rightarrow> Xt32Handler nm junk atan2f qs s
     | PANDAR128 \<Rightarrow> Pandar128Handler std_sort qs s
     | ROBOSENSE \<Rightarrow> RobosenseHandler std_sort qs s
     | _ \<Rightarrow> Inr s) (\<lambda>s'. Inr (pl_surf s', s'))"

section \<open>The exchange sort\<close>

lemma exchange_pass_spec:
  "exchange_pass x ys = (m, zs) \<Longrightarrow> mset (m # zs) = mset (x # ys) \<and> (\<forall>z \<in> set zs. z \<le> m) \<and> x \<le> m"
proof (induction x ys arbitrary: m zs rule: exchange_pass.induct)
  case (2 x y ys)
  show ?case
  proof (cases "x < y")
    case True
    then obtain zs' where "exchange_pass y ys = (m, zs')" and "zs = x # zs'"
      using "2.prems" by (auto split: prod.splits)
    then show ?thesis using "2.IH"(1)[OF True] True by force
  next
    case False
    then obtain zs' where "exchange_pass x ys = (m, zs')" and "zs = y # zs'"
      using "2.prems" by (auto split: prod.splits)
    then show ?thesis using "2.IH"(2)[OF False] False by force
  qed
qed auto

lemma exchange_sort_mset: "mset (exchange_sort xs) = mset xs"
proof (induction xs rule: exchange_sort.induct)
  case (2 x xs)
  obtain m ys where e: "exchange_pass x xs = (m, ys)" by fastforce
  then show ?case using "2.IH" exchange_pass_spec[OF e] by simp
qed simp

lemma exchange_sort_length [simp]: "length (exchange_sort xs) = length xs"
  using exchange_sort_mset[of xs] by (metis size_mset)

lemma exchange_sort_sorted: "sorted_wrt (\<ge>) (exchange_sort xs)"
proof (induction xs rule: exchange_sort.induct)
  case (2 x xs)
  obtain m ys where e: "exchange_pass x xs = (m, ys)" by fastforce
  then show ?case using "2.IH" exchange_pass_spec[OF e] exchange_sort_mset[of ys] by (auto dest: mset_eq_setD)
qed simp

text \<open>
  exchange_sort_correct: the sort of the distances inside PlaneJudge, a bubble-like
  exchange, returns them in descending order: it equals the library's sort reversed.
\<close>

theorem exchange_sort_correct: "exchange_sort xs = rev (sort xs)"
proof -
  have "sorted (rev (exchange_sort xs))"
    using exchange_sort_sorted[of xs] by (simp add: sorted_wrt_rev)
  then have "rev (exchange_sort xs) = sort xs"
    by (intro properties_for_sort[symmetric]) (simp_all add: exchange_sort_mset)
  then show ?thesis by (metis rev_rev_ident)
qed

section \<open>The times of Livox points\<close>

text \<open>Two neighbours of the frame are less than a millisecond apart.\<close>

definition steady :: "pcl_point list \<Rightarrow> bool" where
  "steady ps = (\<forall>i. Suc i < length ps \<longrightarrow> \<bar>curvature (ps ! Suc i) - curvature (ps ! i)\<bar> < 1)"

fun avia_times :: "pcl_point option \<Rightarrow> avia_point list \<Rightarrow> pcl_point list" where
  "avia_times before [] = []"
| "avia_times before (q # qs) = (let p = (avia_pcl q)\<lparr>curvature := avia_time before (curvature (avia_pcl q))\<rparr> in
     p # avia_times (Some p) qs)"

lemma avia_time_near: "\<bar>avia_time (Some p) c - curvature p\<bar> < 1"
  by (simp add: avia_time_def)

lemma steady_Cons: "steady (p # ps) = ((ps = [] \<or> \<bar>curvature (hd ps) - curvature p\<bar> < 1) \<and> steady ps)"
proof (cases ps)
  case (Cons r rs)
  then show ?thesis by (auto simp: steady_def nth_Cons split: nat.splits) 
qed (simp add: steady_def)

lemma avia_times_steady:
  "steady (avia_times before qs) \<and> (\<forall>p. before = Some p \<longrightarrow> qs \<noteq> [] \<longrightarrow> \<bar>curvature (hd (avia_times before qs)) - curvature p\<bar> < 1)"
proof (induction qs arbitrary: before)
  case (Cons q qs)
  show ?case using Cons[of "Some ((avia_pcl q)\<lparr>curvature := avia_time before (curvature (avia_pcl q))\<rparr>)"]
    by (cases "qs = []") (auto simp: Let_def steady_Cons avia_time_near)
qed (simp add: steady_def)

text \<open>Every m-th entry, with a number of entries already counted.\<close>

fun every :: "nat \<Rightarrow> nat \<Rightarrow> 'a list \<Rightarrow> 'a list" where
  "every m k [] = []"
| "every m k (x # xs) = (if Suc k mod m = 0 then x # every m (Suc k) xs else every m (Suc k) xs)"

lemma avia_loop_spec:
  assumes "list_all (on_line s) qs" "m = nat (point_filter_num s mod 2 ^ 32)" "m \<noteq> 0"
  shows "avia_loop qs before valid s = Inr (s\<lparr>pl_full := pl_full s @ avia_times before qs,
    pl_surf := pl_surf s @ filter (\<lambda>p. blind_sqr s \<le> range_sqr p) (every m valid (avia_times before qs))\<rparr>)"
  using assms
proof (induction qs arbitrary: before valid s)
  case (Cons q qs)
  let ?p = "(avia_pcl q)\<lparr>curvature := avia_time before (curvature (avia_pcl q))\<rparr>"
  have o: "list_all (on_line (s\<lparr>pl_full := a, pl_surf := b\<rparr>)) qs" for a b
    using Cons.prems(1) by (simp add: list_all_iff on_line_def)
  show ?case using Cons.prems Cons.IH[OF o] by (simp add: Let_def)
qed simp

lemma every_length: "0 < m \<Longrightarrow> length (every m k xs) = (k + length xs) div m - k div m"
proof (induction xs arbitrary: k)
  case (Cons x xs)
  have "k div m \<le> Suc k div m" "Suc k div m \<le> (Suc k + length xs) div m" by (auto intro: div_le_mono)
  then show ?case using Cons.IH[of "Suc k"] Cons.prems by (auto simp: div_Suc)
qed simp

text \<open>
  C31 avia_scan: when every point of a Livox message is on a line of the
  sensor and no features are wanted, AviaHandler succeeds; the frame has a point for
  every point of the message and neighbours are always less than a millisecond
  apart, whatever the sensor's stamps say; the surface cloud is every
  point_filter_num-th point that is not blind, and no other.
\<close>

theorem avia_scan:
  assumes "\<not> feature_enabled s" "unat point_num = length points" "length points < 2 ^ 31"
    "list_all (on_line s) points" "0 < point_filter_num s" "point_filter_num s < 2 ^ 31" "n_scans s \<le> 128"
  shows "\<exists>s'. AviaHandler nm junk point_num points s = Inr s' \<and> length (pl_full s') = length points \<and> steady (pl_full s')
    \<and> map pos (pl_full s') = map (\<lambda>q. (av_x q, av_y q, av_z q)) points
    \<and> pl_surf s' = filter (\<lambda>p. blind_sqr s \<le> range_sqr p) (every (nat (point_filter_num s)) 0 (pl_full s'))
    \<and> length (pl_surf s') \<le> length points div nat (point_filter_num s)"
proof -
  let ?m = "nat (point_filter_num s)"
  obtain s1 where s1: "clear_buffers (clear_clouds s) = Inr s1" "s1 = (clear_clouds s)\<lparr>pl_buff := pl_buff s1\<rparr>"
    using assms(7) by (auto simp: clear_buffers_def clear_clouds_def)
  have f: "point_filter_num s1 = point_filter_num s" "n_scans s1 = n_scans s" "blind_sqr s1 = blind_sqr s" "pl_full s1 = []" "pl_surf s1 = []"
    by (subst s1(2); simp add: clear_clouds_def)+
  have m: "?m = nat (point_filter_num s1 mod 2 ^ 32)" "?m \<noteq> 0" using assms(5,6) f(1) by simp_all
  have l: "list_all (on_line s1) points" using assms(4) f(2) by (simp add: list_all_iff on_line_def)
  have len: "length (avia_times b qs) = length qs" for b qs by (induction qs arbitrary: b) (simp_all add: Let_def)
  have po: "map pos (avia_times b qs) = map (\<lambda>q. (av_x q, av_y q, av_z q)) qs" for b qs
    by (induction qs arbitrary: b) (simp_all add: Let_def pos_def avia_pcl_def)
  have "length (filter P (every ?m 0 (avia_times None points))) \<le> length points div ?m" for P
    using length_filter_le[of P "every ?m 0 (avia_times None points)"] every_length[of ?m 0 "avia_times None points"] m(2) len[of None points] by simp
  then show ?thesis
    using avia_loop_spec[OF l m, of None 0] s1(1) assms(1,2,3) avia_times_steady[of None points]
    by (simp add: AviaHandler_def f len po)
qed

lemma avia_scan_witness:
  "\<exists>s'. AviaHandler diagonal_solver (\<lambda>i. 0) 1 [\<lparr>av_offset = 0, av_x = 1, av_y = 0, av_z = 0, av_reflectivity = 9, av_tag = 0, av_line = 0\<rparr>]
      (Preprocess (\<lambda>x. x) 3 1 (1 / 100)) = Inr s' \<and> length (pl_full s') = 1 \<and> length (pl_surf s') \<le> 1"
proof -
  let ?s = "Preprocess (\<lambda>x. x) 3 1 (1 / 100)"
  have "\<not> feature_enabled ?s" "point_filter_num ?s = 1" "n_scans ?s = 6" by (simp_all add: Preprocess_def)
  then show ?thesis
    using avia_scan[of ?s 1 "[\<lparr>av_offset = 0, av_x = 1, av_y = 0, av_z = 0, av_reflectivity = 9, av_tag = 0, av_line = 0\<rparr>]" diagonal_solver "\<lambda>i. 0"]
    by (auto simp: on_line_def)
qed

text \<open>
  skipped_point_resets: a point on a line the sensor does not have leaves an
  entry with time zero, and the next point is measured against it: one millisecond or
  more into the scan, it is put back to the beginning of the scan, whatever its
  stamp.
\<close>

theorem skipped_point_resets:
  assumes "\<not> on_line s q" "on_line s r" "1000000 \<le> unat (av_offset r)" "point_filter_num s = 1"
  shows "\<exists>p p'. avia_loop [q, r] before valid s = Inr (s\<lparr>pl_full := pl_full s @ [p, p'],
      pl_surf := pl_surf s @ (if blind_sqr s \<le> range_sqr p' then [p'] else [])\<rparr>)
    \<and> pos p' = (av_x r, av_y r, av_z r) \<and> curvature p' = 4166667 / 1000000000"
proof -
  let ?c = "curvature (avia_pcl r)"
  define k where "k = (4166667 / 1000000000 :: rat)"
  have "1 \<le> ?c" using assms(3) of_nat_mono[OF assms(3), where 'a=rat] by (simp add: avia_pcl_def)
  then have t: "avia_time (Some blank_point) ?c = k"
    by (simp add: avia_time_def blank_point_def k_def)
  have o: "on_line (s\<lparr>pl_full := a\<rparr>) r" for a using assms(2) by (simp add: on_line_def)
  let ?p' = "(avia_pcl r)\<lparr>curvature := k\<rparr>"
  have "avia_loop [q, r] before valid s = Inr (s\<lparr>pl_full := pl_full s @ [blank_point, ?p'],
      pl_surf := pl_surf s @ (if blind_sqr s \<le> range_sqr ?p' then [?p'] else [])\<rparr>)"
    using assms(1,4) t o by (simp add: Let_def)
  moreover have "pos ?p' = (av_x r, av_y r, av_z r)" by (simp add: pos_def avia_pcl_def)
  moreover have "curvature ?p' = 4166667 / 1000000000" by (simp add: k_def)
  ultimately show ?thesis by blast
qed

lemma skipped_point_resets_witness:
  "\<exists>p p'. avia_loop [\<lparr>av_offset = 49000000, av_x = 1, av_y = 0, av_z = 0, av_reflectivity = 9, av_tag = 0, av_line = 6\<rparr>,
      \<lparr>av_offset = 50000000, av_x = 2, av_y = 0, av_z = 0, av_reflectivity = 9, av_tag = 0, av_line = 1\<rparr>] None 0 (Preprocess (\<lambda>x. x) 3 1 0) =
    Inr ((Preprocess (\<lambda>x. x) 3 1 0)\<lparr>pl_full := [p, p'], pl_surf := (if 0 \<le> range_sqr p' then [p'] else [])\<rparr>)
    \<and> pos p' = (2, 0, 0) \<and> curvature p' = 4166667 / 1000000000"
  using skipped_point_resets[of "Preprocess (\<lambda>x. x) 3 1 0" "\<lparr>av_offset = 49000000, av_x = 1, av_y = 0, av_z = 0, av_reflectivity = 9, av_tag = 0, av_line = 6\<rparr>"
    "\<lparr>av_offset = 50000000, av_x = 2, av_y = 0, av_z = 0, av_reflectivity = 9, av_tag = 0, av_line = 1\<rparr>" None 0]
  by (simp add: Preprocess_def on_line_def)

section \<open>The times of spinning sensors\<close>

text \<open>
  yaw_times: the time given to a point from its yaw is never negative, stays
  below two turns, and does not fall behind the point before on the same line
  as long as that one was within the first turn; the tables of the other lines
  do not change.
\<close>

theorem yaw_times:
  assumes "yaw_time atan2f l p lines = Inr (Some c, lines')" "lines ! l = Some (first, prev)"
    "0 \<le> prev" "\<bar>first\<bar> \<le> 180" "\<bar>atan2f (p_y p) (p_x p) * (572957 / 10000)\<bar> \<le> 180"
  shows "0 \<le> c \<and> c \<le> 2 * (360 / (361 / 100)) \<and> (prev < 360 / (361 / 100) \<longrightarrow> prev \<le> c)
    \<and> lines' = lines[l := Some (first, c)]"
proof -
  define yaw w where "yaw = atan2f (p_y p) (p_x p) * (572957 / 10000)" and "w = (361 / 100 :: rat)"
  define c0 where "c0 = (if yaw \<le> first then (first - yaw) / w else (first - yaw + 360) / w)"
  have "l < length lines" using assms(1) by (auto simp: yaw_time_def split: if_splits)
  then have "yaw_time atan2f l p lines = Inr (let t = if c0 < prev then c0 + 360 / w else c0 in (Some t, lines[l := Some (first, t)]))"
    using assms(2) by (simp only: yaw_time_def Let_def c0_def yaw_def w_def option.case prod.case not_le[symmetric] if_False)
  then have e: "c = (if c0 < prev then c0 + 360 / w else c0)" "lines' = lines[l := Some (first, c)]"
    using assms(1) by (auto simp: Let_def)
  have "0 \<le> c0" "c0 \<le> 360 / w"
    using assms(4,5)[folded yaw_def] by (auto simp: c0_def w_def divide_simps abs_le_iff split: if_splits)
  then show ?thesis unfolding w_def[symmetric] using e assms(3) by (auto split: if_splits)
qed

lemma yaw_times_witness:
  "(0::rat) \<le> (360 / (361 / 100)) \<and> [Some (0, 360 / (361 / 100))] = [Some (0::rat, 0)][0 := Some (0, 360 / (361 / 100))]"
  using yaw_times[of "\<lambda>y x. 0" 0 blank_point "[Some (0, 0)]" 0 "[Some (0, 0)]" 0 0]
  by (simp add: yaw_time_def)

section \<open>Scans the handlers cannot cope with\<close>

lemma find_head_blind: "\<forall>t \<in> set ts. ty_range t < b \<Longrightarrow> find_head b ts = Inl OutOfBounds"
  by (induction ts) auto

lemma push_rings_other:
  "\<forall>qp \<in> set qps. raw_ring (fst qp) \<noteq> 0 \<Longrightarrow> pl_buff (fold push_ring qps u) ! 0 = pl_buff u ! 0"
  by (induction qps arbitrary: u) (auto simp: push_ring_def push_line_def)

lemma ouster_empty_ring:
  assumes "feature_enabled s" "0 < n_scans s" "n_scans s \<le> 128" "\<forall>q \<in> set qs. raw_ring q \<noteq> 0"
  shows "Oust64Handler nm junk std_sort qs s = Inl OutOfBounds"
proof -
  obtain n where n: "nat (n_scans s) = Suc n" using assms(2) by (metis gr0_conv_Suc zero_less_nat_eq)
  obtain s1 where s1: "clear_buffers (clear_clouds s) = Inr s1" "pl_buff s1 ! 0 = []"
    using assms(3) n by (auto simp: clear_buffers_def clear_clouds_def)
  have "pl_buff (fold push_ring (filter F (zip qs ps)) s1) ! 0 = []" for F ps
    using assms(4) s1(2) by (subst push_rings_other) (auto dest: set_zip_leftD)
  moreover have "[0..<nat (n_scans s)] = 0 # map Suc [0..<n]" using n map_upt_shift[of id n] by simp
  ultimately show ?thesis using assms(1) s1(1) by (simp add: Oust64Handler_def Let_def)
qed

text \<open>
  blind_lines_overrun: the search for the first point that is not blind has no
  end: a line whose points are all blind is read past its end, and so is an empty line
  of an Ouster scan and an empty cloud of the Hesai and Robosense sensors.
\<close>

theorem blind_lines_overrun:
  "pl \<noteq> [] \<Longrightarrow> \<forall>p \<in> set pl. rng p < blind_sqr s \<Longrightarrow>
    GiveFeature nm pl (line_types rng junk1 pl) s = Inl OutOfBounds
    \<and> (feature_enabled s' \<longrightarrow> 0 < n_scans s' \<longrightarrow> n_scans s' \<le> 128 \<longrightarrow>
        (\<forall>q \<in> set qs. raw_ring q \<noteq> 0) \<longrightarrow> Oust64Handler nm junk std_sort qs s' = Inl OutOfBounds)
    \<and> Xt32Handler nm junk atan2f [] s = Inl OutOfBounds \<and> Pandar128Handler std_sort [] s = Inl OutOfBounds
    \<and> RobosenseHandler std_sort [] s = Inl OutOfBounds"
proof -
  assume pl: "pl \<noteq> []" and b: "\<forall>p \<in> set pl. rng p < blind_sqr s"
  have "find_head (blind_sqr s) (line_types rng junk1 pl) = Inl OutOfBounds"
    using b by (intro find_head_blind) (auto simp: line_types_def)
  then have 1: "GiveFeature nm pl (line_types rng junk1 pl) s = Inl OutOfBounds"
    using pl by (simp add: GiveFeature_def)
  show ?thesis using 1 ouster_empty_ring[of s' qs nm junk std_sort] by (simp add: Xt32Handler_def Pandar128Handler_def RobosenseHandler_def)
qed

lemma blind_lines_overrun_witness:
  "GiveFeature diagonal_solver [blank_point] (line_types flat_sqr 0 [blank_point]) (Preprocess (\<lambda>x. x) 3 1 1) = Inl OutOfBounds"
  using blind_lines_overrun[of "[blank_point]" flat_sqr "Preprocess (\<lambda>x. x) 3 1 1" diagonal_solver 0]
  by (simp add: Preprocess_def flat_sqr_def blank_point_def)

section \<open>What the extraction hands out\<close>

lemma sum_list_between:
  fixes xs :: "rat list"
  assumes "\<forall>x \<in> set xs. lo \<le> x \<and> x \<le> hi"
  shows "of_nat (length xs) * lo \<le> sum_list xs \<and> sum_list xs \<le> of_nat (length xs) * hi"
  using assms by (induction xs) (auto simp: algebra_simps intro: add_mono)

lemma mean_between:
  fixes xs :: "rat list"
  assumes "xs \<noteq> []"
  shows "\<exists>lo \<in> set xs. lo \<le> sum_list xs / of_nat (length xs)" "\<exists>hi \<in> set xs. sum_list xs / of_nat (length xs) \<le> hi"
proof -
  have n: "0 < (of_nat (length xs) :: rat)" using assms by simp
  have "of_nat (length xs) * Min (set xs) \<le> sum_list xs \<and> sum_list xs \<le> of_nat (length xs) * Max (set xs)"
    by (rule sum_list_between) simp
  then have b: "Min (set xs) \<le> sum_list xs / of_nat (length xs)" "sum_list xs / of_nat (length xs) \<le> Max (set xs)"
    using n by (simp_all add: pos_le_divide_eq pos_divide_le_eq mult.commute)
  show "\<exists>lo \<in> set xs. lo \<le> sum_list xs / of_nat (length xs)" using b(1) assms by (intro bexI[of _ "Min (set xs)"]) simp_all
  show "\<exists>hi \<in> set xs. sum_list xs / of_nat (length xs) \<le> hi" using b(2) assms by (intro bexI[of _ "Max (set xs)"]) simp_all
qed

text \<open>A coordinate of a point lies between those of points of the line.\<close>

definition between :: "(pcl_point \<Rightarrow> rat) \<Rightarrow> pcl_point list \<Rightarrow> pcl_point \<Rightarrow> bool" where
  "between c pl f = ((\<exists>lo \<in> set pl. c lo \<le> c f) \<and> (\<exists>hi \<in> set pl. c f \<le> c hi))"

definition boxed :: "pcl_point list \<Rightarrow> pcl_point \<Rightarrow> bool" where
  "boxed pl f = (between p_x pl f \<and> between p_y pl f \<and> between p_z pl f \<and> between curvature pl f)"

lemma between_mean:
  assumes "a < j" "j \<le> length pl" "c f = sum_list (map c (map ((!) pl) [a..<j])) / of_nat (j - a)"
  shows "between c pl f"
proof -
  let ?xs = "map c (map ((!) pl) [a..<j])"
  have l: "?xs \<noteq> []" "length ?xs = j - a" using assms(1) by simp_all
  have m: "x \<in> c ` set pl" if "x \<in> set ?xs" for x using that assms(2) by auto
  have "c f = sum_list ?xs / of_nat (length ?xs)" using assms(3) l(2) by simp
  then show ?thesis using mean_between[OF l(1)] m unfolding between_def by (metis image_iff)
qed

lemma boxed_mean: "a < j \<Longrightarrow> j \<le> length pl \<Longrightarrow> boxed pl (mean_point pl a j)"
  unfolding boxed_def by (intro conjI; rule between_mean) (simp_all add: mean_point_def Let_def del: of_nat_diff)

lemma boxed_nth:
  "j < length pl \<Longrightarrow> boxed pl (blank_point\<lparr>p_x := p_x (pl ! j), p_y := p_y (pl ! j), p_z := p_z (pl ! j), curvature := curvature (pl ! j)\<rparr>)"
  by (auto simp: boxed_def between_def intro!: bexI[of _ "pl ! j"])

definition handed_out :: "pcl_point list \<Rightarrow> preprocess \<Rightarrow> nat \<Rightarrow> nat \<Rightarrow> nat option \<times> preprocess \<Rightarrow> bool" where
  "handed_out pl s h j st = (\<exists>cs fs. snd st = s\<lparr>pl_corn := pl_corn s @ cs, pl_surf := pl_surf s @ fs\<rparr> \<and> set cs \<subseteq> set pl
     \<and> (\<forall>f \<in> set fs. boxed pl f) \<and> length cs + length fs + (if fst st = None then 0 else 1) + h \<le> j
     \<and> (\<forall>a. fst st = Some a \<longrightarrow> a < j))"

lemma hand_out_step:
  assumes "handed_out pl s h j st" "j < length pl"
  shows "handed_out pl s h (Suc j) (hand_out pl ts j st)"
proof -
  obtain start u where st: "st = (start, u)" by fastforce
  obtain cs fs where u: "u = s\<lparr>pl_corn := pl_corn s @ cs, pl_surf := pl_surf s @ fs\<rparr>" and c: "set cs \<subseteq> set pl"
    and f: "\<forall>f \<in> set fs. boxed pl f" and n: "length cs + length fs + (if start = None then 0 else 1) + h \<le> j"
    and a: "\<forall>a. start = Some a \<longrightarrow> a < j"
    using assms(1) unfolding handed_out_def st by auto
  have m: "boxed pl (mean_point pl k j)" if "start = Some k" for k using boxed_mean a assms(2) that by simp
  note b = boxed_nth[OF assms(2)]
  have H: "handed_out pl s h (Suc j) (start', u\<lparr>pl_corn := pl_corn u @ cs', pl_surf := pl_surf u @ fs'\<rparr>)"
    if "set cs' \<subseteq> {pl ! j}" "\<forall>f \<in> set fs'. boxed pl f"
      "length cs' + length fs' + (if start' = None then 0 else 1) \<le> (if start = None then 1 else 2)" "\<forall>a. start' = Some a \<longrightarrow> a \<le> j" for start' cs' fs'
    unfolding handed_out_def using that u c f n assms(2)
    by (intro exI[of _ "cs @ cs'"] exI[of _ "fs @ fs'"]) (auto split: if_splits simp: less_Suc_eq_le)
  have E: "hand_out pl ts j st = (start', u\<lparr>pl_corn := pl_corn u @ cs', pl_surf := pl_surf u @ fs'\<rparr>) \<Longrightarrow> ?thesis"
    if "set cs' \<subseteq> {pl ! j}" "\<forall>f \<in> set fs'. boxed pl f"
      "length cs' + length fs' + (if start' = None then 0 else 1) \<le> (if start = None then 1 else 2)" "\<forall>a. start' = Some a \<longrightarrow> a \<le> j" for start' cs' fs'
    using H[OF that] by simp
  let ?g = "ftype (ts ! j) = Poss_Plane \<or> ftype (ts ! j) = Real_Plane" and ?e = "ftype (ts ! j) = Edge_Jump \<or> ftype (ts ! j) = Edge_Plane"
  let ?a = "case start of None \<Rightarrow> j | Some a \<Rightarrow> a" and ?ce = "if ?e then [pl ! j] else []"
  consider (full) "?g" "int j = (int ?a + point_filter_num u - 1) mod 2 ^ 32" | (more) "?g" "int j \<noteq> (int ?a + point_filter_num u - 1) mod 2 ^ 32"
    | (edge) "\<not> ?g" "start = None" | (mean) k where "\<not> ?g" "start = Some k" by fastforce
  then show ?thesis
  proof cases
    case full show ?thesis by (rule E[where cs' = "[]" and start' = None, OF _ _ _ _]) (use full b in \<open>auto simp: hand_out_def st Let_def\<close>)
  next
    case more show ?thesis
      by (rule E[where cs' = "[]" and fs' = "[]" and start' = "Some ?a"]) (use more a in \<open>auto simp: hand_out_def st Let_def split: option.splits\<close>)
  next
    case edge show ?thesis by (rule E[where cs' = ?ce and fs' = "[]" and start' = None]) (use edge in \<open>auto simp: hand_out_def st Let_def\<close>)
  next
    case mean show ?thesis
      by (rule E[where cs' = ?ce and fs' = "[mean_point pl k j]" and start' = None]) (use mean m in \<open>auto simp: hand_out_def st Let_def\<close>)
  qed
qed

lemma hand_out_fold: "h + n \<le> length pl \<Longrightarrow> handed_out pl s h (h + n) (fold (hand_out pl ts) [h..<h + n] (None, s))"
proof (induction n)
  case 0
  have "snd (None, s) = s\<lparr>pl_corn := pl_corn s @ [], pl_surf := pl_surf s @ []\<rparr>" by simp
  then show ?case unfolding handed_out_def by fastforce
next
  case (Suc n)
  then show ?case using hand_out_step[of pl s h "h + n" _ ts] by simp
qed

lemma find_head_less: "find_head b ts = Inr i \<Longrightarrow> i < length ts"
  by (induction ts arbitrary: i) (auto simp: bindR_eq_Inr split: if_splits)

text \<open>
  features_from_line: whatever the classification decides, GiveFeature only
  appends to the clouds; every corner is a point of the line, every surface point
  lies, in place and in time, between points of the line, and it never hands out
  more points than the line has.
\<close>

theorem features_from_line:
  assumes "GiveFeature nm pl ts s = Inr s'" "length ts = length pl"
  shows "\<exists>cs fs. s' = s\<lparr>pl_corn := pl_corn s @ cs, pl_surf := pl_surf s @ fs\<rparr> \<and> set cs \<subseteq> set pl
    \<and> (\<forall>f \<in> set fs. boxed pl f) \<and> length cs + length fs \<le> length pl"
proof (cases "pl = []")
  case True
  then have "s' = s\<lparr>pl_corn := pl_corn s @ [], pl_surf := pl_surf s @ []\<rparr>" using assms(1) by (simp add: GiveFeature_def)
  then show ?thesis using True by fastforce
next
  case False
  then obtain h us where h: "find_head (blind_sqr s) ts = Inr h" "s' = snd (fold (hand_out pl us) [h..<length pl] (None, s))"
    using assms(1) by (auto simp: GiveFeature_def bindR_eq_Inr Let_def)
  then have "handed_out pl s h (length pl) (fold (hand_out pl us) [h..<length pl] (None, s))"
    using hand_out_fold[of h "length pl - h" pl s us] find_head_less[OF h(1)] assms(2) by simp
  then show ?thesis unfolding handed_out_def h(2)[symmetric] by fastforce
qed

lemma features_from_line_witness:
  "\<exists>cs fs. snd (fold (hand_out [blank_point, blank_point] [(orgtype_init 0)\<lparr>ftype := Poss_Plane\<rparr>, (orgtype_init 0)\<lparr>ftype := Edge_Jump\<rparr>]) [0..<2]
      (None, Preprocess (\<lambda>x. x) 3 1 0)) = (Preprocess (\<lambda>x. x) 3 1 0)\<lparr>pl_corn := cs, pl_surf := fs\<rparr> \<and> length cs + length fs \<le> 2"
proof -
  let ?ts = "[(orgtype_init 0)\<lparr>ftype := Poss_Plane\<rparr>, (orgtype_init 0)\<lparr>ftype := Edge_Jump\<rparr>]" and ?pl = "[blank_point, blank_point]"
  have "GiveFeature nm ?pl ?ts (Preprocess (\<lambda>x. x) 3 1 0) = Inr (snd (fold (hand_out ?pl ?ts) [0..<2] (None, Preprocess (\<lambda>x. x) 3 1 0)))" for nm
    by (simp add: GiveFeature_def group_size_def surf_loop.simps Preprocess_def orgtype_init_def numeral_2_eq_2)
  from features_from_line[OF this] show ?thesis by (auto simp: Preprocess_def)
qed

end
