(* ===== verification/So3_States.thy ===== *)
theory So3_States
  imports Voxel_Octree
begin

text \<open>
  Rotations (edge/src/FAST-LIVO2/include/utils/so3_math.h) and the filter's state
  (StatesGroup of include/common_lib.h): the exponential and logarithm of a
  rotation, Euler angles, and the addition and subtraction of states.  Numbers
  are exact rationals.  The functions of the C library are a parameter; where a
  theorem relies on them, it says what they must satisfy at the arguments used.
\<close>

section \<open>Matrices of three rows\<close>

type_synonym mat3 = "vec \<times> vec \<times> vec"

definition m3_id :: mat3 where "m3_id = ((1, 0, 0), (0, 1, 0), (0, 0, 1))"

fun m3_vec :: "mat3 \<Rightarrow> vec \<Rightarrow> vec" where
  "m3_vec (u, v, w) x = (vdot u x, vdot v x, vdot w x)"

fun m3_T :: "mat3 \<Rightarrow> mat3" where
  "m3_T ((a, b, c), (d, e, f), (g, h, i)) = ((a, d, g), (b, e, h), (c, f, i))"

fun m3_mul :: "mat3 \<Rightarrow> mat3 \<Rightarrow> mat3" where
  "m3_mul (u, v, w) B = (m3_vec (m3_T B) u, m3_vec (m3_T B) v, m3_vec (m3_T B) w)"

fun m3_add :: "mat3 \<Rightarrow> mat3 \<Rightarrow> mat3" where
  "m3_add (u, v, w) (x, y, z) = (vadd u x, vadd v y, vadd w z)"

fun m3_scale :: "rat \<Rightarrow> mat3 \<Rightarrow> mat3" where
  "m3_scale k (u, v, w) = (vscale k u, vscale k v, vscale k w)"

fun m3_det :: "mat3 \<Rightarrow> rat" where
  "m3_det ((a, b, c), (d, e, f), (g, h, i)) = a * (e * i - f * h) - b * (d * i - f * g) + c * (d * h - e * g)"

fun m3_trace :: "mat3 \<Rightarrow> rat" where
  "m3_trace ((a, b, c), (d, e, f), (g, h, i)) = a + e + i"

fun m3_rows :: "mat3 \<Rightarrow> mat" where
  "m3_rows (u, v, w) = [vlist u, vlist v, vlist w]"

fun skew :: "vec \<Rightarrow> mat3" where
  "skew (x, y, z) = ((0, - z, y), (z, 0, - x), (- y, x, 0))"

section \<open>Exponential, logarithm, Euler angles\<close>

record libm =
  l_sqrt :: "rat \<Rightarrow> rat"
  l_sin :: "rat \<Rightarrow> rat"
  l_cos :: "rat \<Rightarrow> rat"
  l_acos :: "rat \<Rightarrow> rat"
  l_atan2 :: "rat \<Rightarrow> rat \<Rightarrow> rat"

definition norm3 :: "libm \<Rightarrow> vec \<Rightarrow> rat" where
  "norm3 L v = l_sqrt L (vdot v v)"

definition rodrigues :: "libm \<Rightarrow> vec \<Rightarrow> rat \<Rightarrow> mat3" where
  "rodrigues L axis a = (let K = skew axis in
     m3_add (m3_add m3_id (m3_scale (l_sin L a) K)) (m3_scale (1 - l_cos L a) (m3_mul K K)))"

text \<open>The three overloads: of an angle, of a rate over a time, of three numbers.\<close>

definition Exp_vec :: "libm \<Rightarrow> vec \<Rightarrow> mat3" where
  "Exp_vec L ang = (let n = norm3 L ang in
     if 1 / 10 ^ 7 < n then rodrigues L (vscale (1 / n) ang) n else m3_id)"

definition Exp_dt :: "libm \<Rightarrow> vec \<Rightarrow> rat \<Rightarrow> mat3" where
  "Exp_dt L ang_vel dt = (let n = norm3 L ang_vel in
     if 1 / 10 ^ 7 < n then rodrigues L (vscale (1 / n) ang_vel) (n * dt) else m3_id)"

definition Exp_xyz :: "libm \<Rightarrow> rat \<Rightarrow> rat \<Rightarrow> rat \<Rightarrow> mat3" where
  "Exp_xyz L v1 v2 v3 = (let n = l_sqrt L (v1 * v1 + v2 * v2 + v3 * v3) in
     if 1 / 10 ^ 5 < n then rodrigues L (v1 / n, v2 / n, v3 / n) n else m3_id)"

fun antisym :: "mat3 \<Rightarrow> vec" where
  "antisym ((a, b, c), (d, e, f), (g, h, i)) = (h - f, c - g, d - b)"

definition Log :: "libm \<Rightarrow> mat3 \<Rightarrow> vec" where
  "Log L R = (let theta = (if 3 - 1 / 10 ^ 6 < m3_trace R then 0 else l_acos L (1 / 2 * (m3_trace R - 1))) in
     if \<bar>theta\<bar> < 1 / 1000 then vscale (1 / 2) (antisym R) else vscale (1 / 2 * theta / l_sin L theta) (antisym R))"

fun RotMtoEuler :: "libm \<Rightarrow> mat3 \<Rightarrow> vec" where
  "RotMtoEuler L ((a, b, c), (d, e, f), (g, h, i)) = (let sy = l_sqrt L (a * a + d * d) in
     if sy < 1 / 10 ^ 6 then (l_atan2 L (- f) e, l_atan2 L (- g) sy, 0)
     else (l_atan2 L h i, l_atan2 L (- g) sy, l_atan2 L d a))"

section \<open>The state\<close>

record states_group =
  rot_end :: mat3
  pos_end :: vec
  vel_end :: vec
  inv_expo_time :: rat
  bias_g :: vec
  bias_a :: vec
  gravity :: vec
  cov :: mat

definition diagonal :: "nat \<Rightarrow> (nat \<Rightarrow> rat) \<Rightarrow> mat" where
  "diagonal n f = map (\<lambda>i. map (\<lambda>j. if i = j then f i else 0) [0..<n]) [0..<n]"

definition StatesGroup :: states_group where
  "StatesGroup = \<lparr>rot_end = m3_id, pos_end = (0, 0, 0), vel_end = (0, 0, 0), inv_expo_time = 1, bias_g = (0, 0, 0),
     bias_a = (0, 0, 0), gravity = (0, 0, 0),
     cov = diagonal 19 (\<lambda>i. if i = 6 \<or> 10 \<le> i then 1 / 100000 else 1 / 100)\<rparr>"

text \<open>Vectors of 19 numbers: rotation, position, exposure, velocity, biases, gravity.\<close>

definition block3 :: "nat \<Rightarrow> rat list \<Rightarrow> vec" where
  "block3 k d = (d ! k, d ! (k + 1), d ! (k + 2))"

definition states_plus :: "libm \<Rightarrow> states_group \<Rightarrow> rat list \<Rightarrow> states_group" where
  "states_plus L s d = s\<lparr>rot_end := m3_mul (rot_end s) (Exp_xyz L (d ! 0) (d ! 1) (d ! 2)),
     pos_end := vadd (pos_end s) (block3 3 d), inv_expo_time := inv_expo_time s + d ! 6,
     vel_end := vadd (vel_end s) (block3 7 d), bias_g := vadd (bias_g s) (block3 10 d),
     bias_a := vadd (bias_a s) (block3 13 d), gravity := vadd (gravity s) (block3 16 d)\<rparr>"

definition states_minus :: "libm \<Rightarrow> states_group \<Rightarrow> states_group \<Rightarrow> rat list" where
  "states_minus L s b = vlist (Log L (m3_mul (m3_T (rot_end b)) (rot_end s))) @ vlist (vsub (pos_end s) (pos_end b))
     @ [inv_expo_time s - inv_expo_time b] @ vlist (vsub (vel_end s) (vel_end b)) @ vlist (vsub (bias_g s) (bias_g b))
     @ vlist (vsub (bias_a s) (bias_a b)) @ vlist (vsub (gravity s) (gravity b))"

definition resetpose :: "states_group \<Rightarrow> states_group" where
  "resetpose s = s\<lparr>rot_end := m3_id, pos_end := (0, 0, 0), vel_end := (0, 0, 0)\<rparr>"

record pose6d =
  offset_time :: rat
  pose_acc :: vec
  pose_gyr :: vec
  pose_vel :: vec
  pose_pos :: vec
  pose_rot :: mat3

definition set_pose6d :: "rat \<Rightarrow> vec \<Rightarrow> vec \<Rightarrow> vec \<Rightarrow> vec \<Rightarrow> mat3 \<Rightarrow> pose6d" where
  "set_pose6d t a g v p R = \<lparr>offset_time = t, pose_acc = a, pose_gyr = g, pose_vel = v, pose_pos = p, pose_rot = R\<rparr>"

section \<open>Rotations\<close>

definition rotation :: "mat3 \<Rightarrow> bool" where
  "rotation R = (m3_mul R (m3_T R) = m3_id \<and> m3_mul (m3_T R) R = m3_id \<and> m3_det R = 1)"

lemma m3_mul_id [simp]: "m3_mul A m3_id = A" "m3_mul m3_id A = A"
  by (cases A rule: m3_T.cases; simp add: m3_id_def)+

lemma m3_mul_assoc: "m3_mul (m3_mul A B) C = m3_mul A (m3_mul B C)"
  by (cases A rule: m3_T.cases; cases B rule: m3_T.cases; cases C rule: m3_T.cases) (simp add: algebra_simps)

lemma m3_T_mul: "m3_T (m3_mul A B) = m3_mul (m3_T B) (m3_T A)"
  by (cases A rule: m3_T.cases; cases B rule: m3_T.cases) (simp add: algebra_simps)

lemma m3_T_T [simp]: "m3_T (m3_T A) = A" "m3_T m3_id = m3_id"
  by (cases A rule: m3_T.cases; simp add: m3_id_def)+

lemma m3_det_mul: "m3_det (m3_mul A B) = m3_det A * m3_det B"
  by (cases A rule: m3_T.cases; cases B rule: m3_T.cases) (simp add: algebra_simps)

lemma m3_vec_mul: "m3_vec (m3_mul A B) x = m3_vec A (m3_vec B x)"
  by (cases A rule: m3_T.cases; cases B rule: m3_T.cases; cases x) (simp add: algebra_simps)

lemma m3_vec_id [simp]: "m3_vec m3_id x = x"
  by (cases x) (simp add: m3_id_def)

lemma rotation_id [simp]: "rotation m3_id"
  by (simp add: rotation_def) (simp add: m3_id_def)

lemma rotation_mul:
  assumes "rotation A" "rotation B"
  shows "rotation (m3_mul A B)"
proof -
  have "m3_mul (m3_mul A B) (m3_T (m3_mul A B)) = m3_mul A (m3_mul (m3_mul B (m3_T B)) (m3_T A))"
    by (simp add: m3_T_mul m3_mul_assoc)
  moreover have "m3_mul (m3_T (m3_mul A B)) (m3_mul A B) = m3_mul (m3_T B) (m3_mul (m3_mul (m3_T A) A) B)"
    by (simp add: m3_T_mul m3_mul_assoc)
  ultimately show ?thesis using assms by (simp add: rotation_def m3_det_mul)
qed

lemma rotation_T: "rotation A \<Longrightarrow> rotation (m3_T A)"
  by (cases A rule: m3_T.cases) (simp add: rotation_def m3_id_def algebra_simps)

lemma rotation_dot: "rotation A \<Longrightarrow> vdot (m3_vec A x) (m3_vec A y) = vdot x y"
proof -
  assume "rotation A"
  moreover have "vdot (m3_vec A x) (m3_vec A y) = vdot x (m3_vec (m3_mul (m3_T A) A) y)"
    by (cases A rule: m3_T.cases; cases x; cases y) (simp add: algebra_simps)
  ultimately show ?thesis by (simp add: rotation_def)
qed

lemma rodrigues_rotation:
  assumes "vdot v v = 1" "l_sin L a * l_sin L a + l_cos L a * l_cos L a = 1"
  shows "rotation (rodrigues L v a)"
proof -
  obtain x y z where v: "v = (x, y, z)" by (cases v)
  define s c where "s = l_sin L a" and "c = l_cos L a"
  have h: "x * x + y * y + z * z = 1" "s * s + c * c = 1" using assms by (simp_all add: v s_def c_def)
  show ?thesis unfolding rotation_def rodrigues_def v s_def[symmetric] c_def[symmetric]
    by (simp add: m3_id_def Let_def) (intro conjI; use h in algebra)
qed

text \<open>The square root is exact at a value; an angle is on the unit circle.\<close>

definition exact_sqrt :: "libm \<Rightarrow> rat \<Rightarrow> bool" where
  "exact_sqrt L x = (l_sqrt L x * l_sqrt L x = x)"

definition on_circle :: "libm \<Rightarrow> rat \<Rightarrow> bool" where
  "on_circle L a = (l_sin L a * l_sin L a + l_cos L a * l_cos L a = 1)"

lemma unit_axis:
  assumes "n * n = vdot v v" "0 < n"
  shows "vdot (vscale (1 / n) v) (vscale (1 / n) v) = 1"
proof (cases v)
  case (fields x y z)
  have "vdot (vscale (1 / n) v) (vscale (1 / n) v) = vdot v v / (n * n)" by (simp add: fields add_divide_distrib)
  also have "\<dots> = 1" unfolding assms(1)[symmetric] using assms(2) by simp
  finally show ?thesis .
qed

lemma Exp_dt_rotation: "exact_sqrt L (vdot v v) \<Longrightarrow> on_circle L (norm3 L v * dt) \<Longrightarrow> rotation (Exp_dt L v dt)"
  by (auto simp: Exp_dt_def Let_def norm3_def exact_sqrt_def on_circle_def intro!: rodrigues_rotation unit_axis)

lemma Exp_vec_rotation: "exact_sqrt L (vdot v v) \<Longrightarrow> on_circle L (norm3 L v) \<Longrightarrow> rotation (Exp_vec L v)"
  by (auto simp: Exp_vec_def Let_def norm3_def exact_sqrt_def on_circle_def intro!: rodrigues_rotation unit_axis)

lemma Exp_xyz_axis: "Exp_xyz L x y z = (let n = norm3 L (x, y, z) in
    if 1 / 10 ^ 5 < n then rodrigues L (vscale (1 / n) (x, y, z)) n else m3_id)"
  by (simp add: Exp_xyz_def norm3_def Let_def)

lemma Exp_xyz_rotation:
  assumes "exact_sqrt L (vdot (x, y, z) (x, y, z))" "on_circle L (norm3 L (x, y, z))"
  shows "rotation (Exp_xyz L x y z)"
proof (cases "1 / 10 ^ 5 < norm3 L (x, y, z)")
  case True
  then have "vdot (vscale (1 / norm3 L (x, y, z)) (x, y, z)) (vscale (1 / norm3 L (x, y, z)) (x, y, z)) = 1"
    using assms(1) by (intro unit_axis) (simp_all add: norm3_def exact_sqrt_def)
  then show ?thesis using True assms(2) rodrigues_rotation unfolding Exp_xyz_axis Let_def on_circle_def by simp
qed (simp add: Exp_xyz_axis Let_def)

text \<open>
  C25 plus_rotation: adding a correction to a state leaves its attitude a rotation
  (orthogonal, of determinant one), provided the C library is exact at the
  correction; a correction of at most 0.00001 radians does not turn it at all.
\<close>

theorem plus_rotation:
  assumes "rotation (rot_end s)" "exact_sqrt L (vdot (block3 0 d) (block3 0 d))" "on_circle L (norm3 L (block3 0 d))"
  shows "rotation (rot_end (states_plus L s d))
    \<and> (norm3 L (block3 0 d) \<le> 1 / 100000 \<longrightarrow> rot_end (states_plus L s d) = rot_end s)"
proof -
  have b: "block3 0 d = (d ! 0, d ! 1, d ! 2)" by (simp add: block3_def numeral_2_eq_2)
  have "rotation (Exp_xyz L (d ! 0) (d ! 1) (d ! 2))" using assms(2,3) Exp_xyz_rotation unfolding b by blast
  moreover have "norm3 L (block3 0 d) \<le> 1 / 100000 \<longrightarrow> Exp_xyz L (d ! 0) (d ! 1) (d ! 2) = m3_id"
    unfolding b by (simp add: Exp_xyz_axis Let_def)
  ultimately show ?thesis using assms(1) by (simp add: states_plus_def rotation_mul)
qed

text \<open>A library for the witnesses, exact at one right-angled triangle.\<close>

definition triangle_libm :: libm where
  "triangle_libm = \<lparr>l_sqrt = (\<lambda>x. x), l_sin = (\<lambda>a. 4 / 5), l_cos = (\<lambda>a. 3 / 5), l_acos = (\<lambda>c. 1), l_atan2 = (\<lambda>y x. 0)\<rparr>"

lemma plus_rotation_witness:
  "rotation (rot_end (states_plus triangle_libm StatesGroup ([3 / 5, 4 / 5, 0] @ replicate 16 0)))"
  using plus_rotation[of StatesGroup triangle_libm "[3 / 5, 4 / 5, 0] @ replicate 16 0"]
  by (simp add: StatesGroup_def exact_sqrt_def on_circle_def triangle_libm_def norm3_def block3_def numeral_2_eq_2)

lemma antisym_rodrigues: "antisym (rodrigues L v a) = vscale (2 * l_sin L a) v"
  by (cases v) (simp add: rodrigues_def Let_def m3_id_def algebra_simps)

lemma trace_rodrigues: "vdot v v = 1 \<Longrightarrow> m3_trace (rodrigues L v a) = 1 + 2 * l_cos L a"
proof -
  assume h: "vdot v v = 1"
  obtain x y z where v: "v = (x, y, z)" by (cases v)
  have "x * x + y * y + z * z = 1" using h by (simp add: v)
  then show ?thesis unfolding rodrigues_def v by (simp add: Let_def m3_id_def) algebra
qed

lemma Log_Exp:
  assumes "norm3 L v * norm3 L v = vdot v v" "v = (x, y, z)" "l_acos L (l_cos L (norm3 L v)) = norm3 L v"
    "1 / 1000 \<le> norm3 L v \<Longrightarrow> l_sin L (norm3 L v) \<noteq> 0"
  shows "Log L (Exp_xyz L x y z) = (if norm3 L v \<le> 1 / 10 ^ 5 then (0, 0, 0)
    else if norm3 L v < 1 / 1000 \<or> 1 - 1 / (2 * 10 ^ 6) < l_cos L (norm3 L v) then vscale (l_sin L (norm3 L v) / norm3 L v) v else v)"
proof (cases "norm3 L v \<le> 1 / 10 ^ 5")
  case True
  then have "Exp_xyz L x y z = m3_id" using assms(2) by (simp add: Exp_xyz_axis Let_def)
  then show ?thesis using True by (simp add: Log_def m3_id_def Let_def)
next
  case False
  define n where "n = norm3 L v"
  note h = assms(1,3,4)[folded n_def]
  have n: "1 / 10 ^ 5 < n" using False by (simp add: n_def)
  have u: "vdot (vscale (1 / n) v) (vscale (1 / n) v) = 1" using h(1) n by (intro unit_axis) simp_all
  have E: "Exp_xyz L x y z = rodrigues L (vscale (1 / n) v) n"
    using n unfolding Exp_xyz_axis assms(2)[symmetric] n_def[symmetric] Let_def by simp
  have t: "m3_trace (Exp_xyz L x y z) = 1 + 2 * l_cos L n" unfolding E by (rule trace_rodrigues[OF u])
  have a: "antisym (Exp_xyz L x y z) = vscale (2 * l_sin L n) (vscale (1 / n) v)" unfolding E by (rule antisym_rodrigues)
  have "Log L (Exp_xyz L x y z) = (if n < 1 / 1000 \<or> 1 - 1 / (2 * 10 ^ 6) < l_cos L n then vscale (l_sin L n / n) v else v)"
    using h n unfolding Log_def t a assms(2) by (simp add: Let_def abs_if field_simps)
  then show ?thesis using n by (simp add: n_def)
qed

text \<open>
  C26 plus_minus: what subtracting a state from the one a correction of it gave
  returns, where the C library's arc cosine inverts its cosine.  Everything but
  the rotation comes back.  A rotation of at least a thousandth of a radian comes
  back; at less than that (or at an angle whose cosine is within half a
  millionth of one) it comes back shrunk by the sine over the angle, because Log
  then takes the sine for the angle; and at 0.00001 radians or less it is lost,
  because Exp then does not turn at all.
\<close>

theorem plus_minus:
  assumes "length d = 19" "rotation (rot_end s)" "n = norm3 L (block3 0 d)" "n * n = vdot (block3 0 d) (block3 0 d)"
    "l_acos L (l_cos L n) = n" "1 / 1000 \<le> n \<Longrightarrow> l_sin L n \<noteq> 0"
  shows "drop 3 (states_minus L (states_plus L s d) s) = drop 3 d
    \<and> take 3 (states_minus L (states_plus L s d) s)
      = (if n \<le> 1 / 10 ^ 5 then [0, 0, 0]
         else if n < 1 / 1000 \<or> 1 - 1 / (2 * 10 ^ 6) < l_cos L n then map ((*) (l_sin L n / n)) (take 3 d) else take 3 d)
    \<and> (1 / 1000 \<le> n \<and> l_cos L n \<le> 1 - 1 / (2 * 10 ^ 6) \<longrightarrow> states_minus L (states_plus L s d) s = d)"
proof -
  define w where "w = (if n \<le> 1 / 10 ^ 5 then (0, 0, 0)
    else if n < 1 / 1000 \<or> 1 - 1 / (2 * 10 ^ 6) < l_cos L n then vscale (l_sin L n / n) (block3 0 d) else block3 0 d)"
  have b: "block3 0 d = (d ! 0, d ! 1, d ! 2)" by (simp add: block3_def numeral_2_eq_2)
  have L: "Log L (Exp_xyz L (d ! 0) (d ! 1) (d ! 2)) = w"
    using Log_Exp[of L "block3 0 d", OF _ b] assms(4-6) unfolding w_def assms(3) by blast
  have r: "m3_mul (m3_T (rot_end s)) (m3_mul (rot_end s) A) = A" for A
    using assms(2) by (simp add: m3_mul_assoc[symmetric] rotation_def)
  have v: "vlist (vsub (vadd a (block3 k d)) a) = [d ! k, d ! (k + 1), d ! (k + 2)]" for a k
    by (cases a) (simp add: block3_def)
  have "states_minus L (states_plus L s d) s = vlist w @ [d ! 3, d ! 4, d ! 5, d ! 6, d ! 7, d ! 8, d ! 9, d ! 10,
      d ! 11, d ! 12, d ! 13, d ! 14, d ! 15, d ! 16, d ! 17, d ! 18]"
    by (simp add: states_minus_def states_plus_def r L[simplified] v)
  moreover have d: "d = [d ! 0, d ! 1, d ! 2] @ [d ! 3, d ! 4, d ! 5, d ! 6, d ! 7, d ! 8, d ! 9, d ! 10,
      d ! 11, d ! 12, d ! 13, d ! 14, d ! 15, d ! 16, d ! 17, d ! 18]" (is "d = ?p @ ?q")
  proof -
    have "?p @ ?q = map ((!) d) [0..<19]" by (simp add: upt_rec eval_nat_numeral)
    then show ?thesis using map_nth[of d] assms(1) by simp
  qed
  ultimately have e: "states_minus L (states_plus L s d) s = vlist w @ ?q" by simp
  have dd: "drop 3 d = ?q" "take 3 d = ?p" by (subst d, simp)+
  have t: "vlist w = (if n \<le> 1 / 10 ^ 5 then [0, 0, 0]
         else if n < 1 / 1000 \<or> 1 - 1 / (2 * 10 ^ 6) < l_cos L n then map ((*) (l_sin L n / n)) ?p else ?p)"
    unfolding w_def b by simp
  have l: "length (vlist w) = 3" by (cases w) simp
  have x: "vlist w = ?p" if "1 / 1000 \<le> n \<and> l_cos L n \<le> 1 - 1 / (2 * 10 ^ 6)"
    using that unfolding t by (auto simp: not_le not_less)
  show ?thesis
  proof (intro conjI impI)
    show "drop 3 (states_minus L (states_plus L s d) s) = drop 3 d" unfolding e dd(1) using l by simp
    show "take 3 (states_minus L (states_plus L s d) s) = (if n \<le> 1 / 10 ^ 5 then [0, 0, 0]
         else if n < 1 / 1000 \<or> 1 - 1 / (2 * 10 ^ 6) < l_cos L n then map ((*) (l_sin L n / n)) (take 3 d) else take 3 d)"
      unfolding e dd(2) t[symmetric] using l by simp
    assume "1 / 1000 \<le> n \<and> l_cos L n \<le> 1 - 1 / (2 * 10 ^ 6)"
    from x[OF this] show "states_minus L (states_plus L s d) s = d" unfolding e using d by simp
  qed
qed

lemma plus_minus_witness:
  "states_minus triangle_libm (states_plus triangle_libm StatesGroup ([3 / 5, 4 / 5, 0] @ replicate 16 7)) StatesGroup
    = [3 / 5, 4 / 5, 0] @ replicate 16 7
   \<and> take 3 (states_minus \<lparr>l_sqrt = (\<lambda>x. x * 10 ^ 4), l_sin = (\<lambda>a. 9 / 10 * a), l_cos = (\<lambda>a. 1), l_acos = (\<lambda>c. 1 / 10 ^ 4), l_atan2 = (\<lambda>y x. 0)\<rparr>
      (states_plus \<lparr>l_sqrt = (\<lambda>x. x * 10 ^ 4), l_sin = (\<lambda>a. 9 / 10 * a), l_cos = (\<lambda>a. 1), l_acos = (\<lambda>c. 1 / 10 ^ 4), l_atan2 = (\<lambda>y x. 0)\<rparr>
        StatesGroup ([1 / 10 ^ 4, 0, 0] @ replicate 16 7)) StatesGroup) = [9 / 10 ^ 5, 0, 0]"
  using plus_minus[of "[3 / 5, 4 / 5, 0] @ replicate 16 7" StatesGroup 1 triangle_libm]
    plus_minus[of "[1 / 10 ^ 4, 0, 0] @ replicate 16 7" StatesGroup "1 / 10 ^ 4"
      "\<lparr>l_sqrt = (\<lambda>x. x * 10 ^ 4), l_sin = (\<lambda>a. 9 / 10 * a), l_cos = (\<lambda>a. 1), l_acos = (\<lambda>c. 1 / 10 ^ 4), l_atan2 = (\<lambda>y x. 0)\<rparr>"]
  by (simp add: StatesGroup_def triangle_libm_def norm3_def block3_def numeral_2_eq_2)

end
