(* ===== verification/Mapper_Sync.thy ===== *)
theory Mapper_Sync
  imports Lidar_Preprocess So3_States
begin

text \<open>
  The front end of the mapper (edge/src/FAST-LIVO2/src/LIVMapper.cpp): the
  callbacks that buffer scans, inertial samples and images, and SyncPackages,
  which cuts them into measurement groups.  A callback or a call of SyncPackages
  is one step; the data races between the two threads are not modelled.
  Times in seconds are exact rationals, stamps are nanoseconds.
\<close>

section \<open>Messages, groups and the state\<close>

record imu =
  im_stamp :: nat
  im_acc :: vec
  im_gyr :: vec

text \<open>Images have the type 'i; img is None until one is assigned.\<close>

record 'i measure_group =
  vio_time :: rat
  lio_time :: rat
  mg_imu :: "imu list"
  mg_img :: "'i option"

definition MeasureGroup :: "'i measure_group" where
  "MeasureGroup = \<lparr>vio_time = 0, lio_time = 0, mg_imu = [], mg_img = None\<rparr>"

record 'i lidar_measure_group =
  lidar_frame_beg_time :: rat
  lidar_frame_end_time :: rat
  last_lio_update_time :: rat
  mg_lidar :: "pcl_point list"
  pcl_proc_cur :: "pcl_point list"
  pcl_proc_next :: "pcl_point list"
  measures :: "'i measure_group list"

definition LidarMeasureGroup :: "'i lidar_measure_group" where
  "LidarMeasureGroup = \<lparr>lidar_frame_beg_time = 0, lidar_frame_end_time = 0, last_lio_update_time = - 1,
     mg_lidar = [], pcl_proc_cur = [], pcl_proc_next = [], measures = []\<rparr>"

datatype slam_mode = ONLY_LIO | LIVO

text \<open>
  The members of LIVMapper the front end uses, the static variables of the
  callbacks (latched_offset, offset_latched, frame_counter), and imu_need_init_ of
  the inertial processing.
\<close>

record 'i mapper =
  lid_raw_data_buffer :: "pcl_point list list"
  lid_header_time_buffer :: "rat list"
  imu_buffer :: "imu list"
  img_buffer :: "'i list"
  img_time_buffer :: "rat list"
  last_timestamp_lidar :: rat
  last_timestamp_imu :: rat
  last_timestamp_img :: rat
  lidar_pushed :: bool
  first_frame_finished :: bool
  first_lidar_time :: rat
  slam_mode :: slam_mode
  lidar_en :: bool
  img_en :: bool
  hilti_en :: bool
  ros_driver_fix_en :: bool
  imu_prop_enable :: bool
  imu_need_init :: bool
  exposure_time_init :: rat
  img_time_offset :: rat
  imu_time_offset :: rat
  latched_offset :: rat
  offset_latched :: bool
  frame_counter :: int
  prop_imu_buffer :: "imu list"
  newest_imu :: "imu option"
  new_imu :: bool
  pre :: preprocess
  meas :: "'i lidar_measure_group"

section \<open>Stamps\<close>

definition toSec :: "nat \<Rightarrow> rat" where
  "toSec n = of_nat n / 10 ^ 9"

text \<open>The ROS time refuses negative seconds; the conversion to int32_t must fit.\<close>

definition toStamp :: "rat \<Rightarrow> nat res" where
  "toStamp t = (let s = \<lfloor>t\<rfloor>; ns = \<lfloor>(t - of_int s) * 10 ^ 9\<rfloor> in
     if s < - (2 ^ 31) \<or> 2 ^ 31 \<le> s then Inl Undefined else if s < 0 then Inl RuntimeError
     else Inr (nat (s * 10 ^ 9 + ns)))"

section \<open>Callbacks\<close>

text \<open>The libraries and unset values the preprocessing uses.\<close>

record scan_env =
  se_numeric :: numeric
  se_junk :: "nat \<Rightarrow> rat"
  se_atan2 :: "rat \<Rightarrow> rat \<Rightarrow> rat"
  se_sort :: "pcl_point list \<Rightarrow> pcl_point list"

text \<open>The scans above MAX_LIDAR_BUFFER_SIZE_ are dropped once the first frame is done.\<close>

definition trim_scans :: "'i mapper \<Rightarrow> 'i mapper res" where
  "trim_scans m = (let k = (if first_frame_finished m then length (lid_raw_data_buffer m) - 100 else 0) in
     if length (lid_header_time_buffer m) < k then Inl OutOfBounds
     else Inr (m\<lparr>lid_raw_data_buffer := drop k (lid_raw_data_buffer m), lid_header_time_buffer := drop k (lid_header_time_buffer m)\<rparr>))"

definition loop_back :: "rat \<Rightarrow> 'i mapper \<Rightarrow> 'i mapper" where
  "loop_back t m = (if t < last_timestamp_lidar m then m\<lparr>lid_raw_data_buffer := []\<rparr> else m)"

definition push_scan :: "rat \<Rightarrow> pcl_point list \<Rightarrow> 'i mapper \<Rightarrow> 'i mapper" where
  "push_scan t pl m = m\<lparr>lid_raw_data_buffer := lid_raw_data_buffer m @ [pl],
     lid_header_time_buffer := lid_header_time_buffer m @ [t], last_timestamp_lidar := t\<rparr>"

definition PointCloud2Cbk :: "scan_env \<Rightarrow> nat \<Rightarrow> raw_point list \<Rightarrow> 'i mapper \<Rightarrow> 'i mapper res" where
  "PointCloud2Cbk E stamp qs m = (if \<not> lidar_en m then Inr m
     else let m1 = loop_back (toSec stamp) m in
       bindR (Process_cloud (se_numeric E) (se_junk E) (se_atan2 E) (se_sort E) qs (pre m1)) (\<lambda>(pl, s).
         trim_scans (push_scan (toSec stamp) pl (m1\<lparr>pre := s\<rparr>))))"

definition LivoxCbk :: "scan_env \<Rightarrow> nat \<Rightarrow> u32 \<Rightarrow> avia_point list \<Rightarrow> 'i mapper \<Rightarrow> 'i mapper res" where
  "LivoxCbk E stamp point_num points m = (if \<not> lidar_en m then Inr m
     else let m1 = loop_back (toSec stamp) m in
       bindR (Process_livox (se_numeric E) (se_junk E) point_num points (pre m1)) (\<lambda>(pl, s).
         let m2 = m1\<lparr>pre := s\<rparr> in
         if pl = [] then Inr m2 else trim_scans (push_scan (toSec stamp) pl m2)))"

text \<open>std::round, halves away from zero.\<close>

definition round_away :: "rat \<Rightarrow> int" where
  "round_away x = (if 0 \<le> x then \<lfloor>x + 1 / 2\<rfloor> else - \<lfloor>- x + 1 / 2\<rfloor>)"

definition push_imu :: "rat \<Rightarrow> imu \<Rightarrow> 'i mapper \<Rightarrow> 'i mapper" where
  "push_imu t i m = (if 0 < last_timestamp_imu m \<and> t < last_timestamp_imu m then m
     else let m1 = m\<lparr>last_timestamp_imu := t, imu_buffer := imu_buffer m @ [i]\<rparr> in
       if imu_prop_enable m
       then m1\<lparr>prop_imu_buffer := (if imu_need_init m then prop_imu_buffer m else prop_imu_buffer m @ [i]),
              newest_imu := Some i, new_imu := True\<rparr>
       else m1)"

definition latch :: "rat \<Rightarrow> 'i mapper \<Rightarrow> 'i mapper" where
  "latch t m = (if \<not> offset_latched m \<and> 0 < last_timestamp_lidar m
     then m\<lparr>latched_offset := of_int (round_away (last_timestamp_lidar m - t)), offset_latched := True,
            last_timestamp_imu := 0, imu_buffer := []\<rparr> else m)"

definition ImuCbk :: "imu \<Rightarrow> 'i mapper \<Rightarrow> 'i mapper res" where
  "ImuCbk i m = (if last_timestamp_lidar m < 0 then Inr m
     else bindR (toStamp (toSec (im_stamp i) - imu_time_offset m)) (\<lambda>n.
       let t = toSec n; m1 = (if ros_driver_fix_en m then latch t m else m);
           t' = (if ros_driver_fix_en m then t + latched_offset m1 else t) in
       if ros_driver_fix_en m \<and> \<not> offset_latched m1 then Inr m1
       else bindR (toStamp t') (\<lambda>n'. Inr (push_imu t' (i\<lparr>im_stamp := n'\<rparr>) m1))))"

text \<open>The conversion of the image message is an argument; it may throw.\<close>

definition ImageCbk :: "('msg \<Rightarrow> 'i res) \<Rightarrow> nat \<Rightarrow> 'msg \<Rightarrow> 'i mapper \<Rightarrow> 'i mapper res" where
  "ImageCbk GetImageFromMsg stamp msg m = (if \<not> img_en m then Inr m
     else let m1 = (if hilti_en m then m\<lparr>frame_counter := frame_counter m + 1\<rparr> else m) in
       if hilti_en m \<and> frame_counter m1 mod 4 \<noteq> 0 then Inr m1
       else let t = toSec stamp + img_time_offset m in
         if \<bar>t - last_timestamp_img m\<bar> < 1 / 1000 \<or> last_timestamp_lidar m < 0 \<or> t < last_timestamp_img m then Inr m1
         else if t - last_timestamp_img m < 2 / 100 then Inr m1
         else bindR (GetImageFromMsg msg) (\<lambda>img.
           Inr (m1\<lparr>img_buffer := img_buffer m @ [img], img_time_buffer := img_time_buffer m @ [t], last_timestamp_img := t\<rparr>)))"

section \<open>Cutting measurement groups\<close>

definition front_of :: "'a list \<Rightarrow> 'a res" where
  "front_of xs = (if xs = [] then Inl OutOfBounds else Inr (hd xs))"

definition back_of :: "'a list \<Rightarrow> 'a res" where
  "back_of xs = (if xs = [] then Inl OutOfBounds else Inr (last xs))"

definition pop_front :: "'a list \<Rightarrow> 'a list res" where
  "pop_front xs = (if xs = [] then Inl OutOfBounds else Inr (tl xs))"

text \<open>The first update time is the time of the first scan.\<close>

definition first_update :: "'i mapper \<Rightarrow> 'i mapper res" where
  "first_update m = (if last_lio_update_time (meas m) < 0
     then bindR (front_of (lid_header_time_buffer m)) (\<lambda>t. Inr (m\<lparr>meas := (meas m)\<lparr>last_lio_update_time := t\<rparr>\<rparr>)) else Inr m)"

text \<open>The front scan becomes the one to process, unless it has a point at most.\<close>

definition push_lidar :: "'i mapper \<Rightarrow> (bool \<times> 'i mapper) res" where
  "push_lidar m = (if lidar_pushed m then Inr (True, m)
     else bindR (front_of (lid_raw_data_buffer m)) (\<lambda>pl.
       let m1 = m\<lparr>meas := (meas m)\<lparr>mg_lidar := pl\<rparr>\<rparr> in
       if length pl \<le> 1 then Inr (False, m1)
       else bindR (front_of (lid_header_time_buffer m)) (\<lambda>t.
         Inr (True, m1\<lparr>meas := (meas m1)\<lparr>lidar_frame_beg_time := t, lidar_frame_end_time := t + curvature (last pl) / 1000,
           pcl_proc_cur := pl\<rparr>, lidar_pushed := True\<rparr>))))"

definition sync_lio :: "'i mapper \<Rightarrow> (bool \<times> 'i mapper) res" where
  "sync_lio m0 = bindR (first_update m0) (\<lambda>m1. bindR (push_lidar m1) (\<lambda>(go, m2).
     let e = lidar_frame_end_time (meas m2) in
     if \<not> go \<or> last_timestamp_imu m2 < e then Inr (False, m2)
     else bindR (pop_front (lid_raw_data_buffer m2)) (\<lambda>raw. bindR (pop_front (lid_header_time_buffer m2)) (\<lambda>times.
       let g = MeasureGroup\<lparr>lio_time := e, mg_imu := takeWhile (\<lambda>i. toSec (im_stamp i) \<le> e) (imu_buffer m2)\<rparr> in
       Inr (True, m2\<lparr>imu_buffer := dropWhile (\<lambda>i. toSec (im_stamp i) \<le> e) (imu_buffer m2),
         lid_raw_data_buffer := raw, lid_header_time_buffer := times,
         meas := (meas m2)\<lparr>measures := measures (meas m2) @ [g]\<rparr>, lidar_pushed := False\<rparr>)))))"

text \<open>The points of a scan that begins at time t, before and after the capture time.\<close>

definition shifted :: "rat \<Rightarrow> pcl_point \<Rightarrow> pcl_point" where
  "shifted d p = p\<lparr>curvature := curvature p + d * 1000\<rparr>"

definition early :: "rat \<Rightarrow> rat \<Rightarrow> pcl_point \<Rightarrow> bool" where
  "early capture t p = (curvature p < (capture - t) * 1000)"

fun cut_scans :: "rat \<Rightarrow> rat \<Rightarrow> pcl_point list list \<Rightarrow> rat list \<Rightarrow> pcl_point list \<Rightarrow> pcl_point list \<Rightarrow>
    (pcl_point list list \<times> rat list \<times> pcl_point list \<times> pcl_point list) res" where
  "cut_scans capture upd [] ts cur nxt = Inr ([], ts, cur, nxt)"
| "cut_scans capture upd (pl # pls) [] cur nxt = Inl OutOfBounds"
| "cut_scans capture upd (pl # pls) (t # ts) cur nxt = (if capture < t then Inr (pl # pls, t # ts, cur, nxt)
     else cut_scans capture upd pls ts (cur @ map (shifted (t - upd)) (filter (early capture t) pl))
       (nxt @ map (shifted (t - capture)) (filter (\<lambda>p. \<not> early capture t p) pl)))"

text \<open>The group of an image: its samples, its points and the image.\<close>

definition upto_time :: "rat \<Rightarrow> imu list \<Rightarrow> imu list" where
  "upto_time t = takeWhile (\<lambda>i. toSec (im_stamp i) \<le> t)"

definition after_time :: "rat \<Rightarrow> imu list \<Rightarrow> imu list" where
  "after_time t = dropWhile (\<lambda>i. toSec (im_stamp i) \<le> t)"

definition cut_group :: "rat \<Rightarrow> 'i mapper \<Rightarrow> 'i mapper res" where
  "cut_group capture m = (let upd = last_lio_update_time (meas m) in
     bindR (cut_scans capture upd (lid_raw_data_buffer m) (lid_header_time_buffer m) (pcl_proc_next (meas m)) []) (\<lambda>(raw, times, cur, nxt).
       bindR (if img_en m then bindR (front_of (img_buffer m)) (\<lambda>i. Inr (Some i)) else Inr None) (\<lambda>img.
         Inr (m\<lparr>imu_buffer := after_time capture (imu_buffer m), lid_raw_data_buffer := raw, lid_header_time_buffer := times,
           img_buffer := (if img_en m then tl (img_buffer m) else img_buffer m),
           img_time_buffer := (if img_en m then tl (img_time_buffer m) else img_time_buffer m),
           meas := (meas m)\<lparr>pcl_proc_cur := cur, pcl_proc_next := nxt,
             measures := [MeasureGroup\<lparr>lio_time := capture, mg_img := img,
               mg_imu := filter (\<lambda>i. upd < toSec (im_stamp i)) (upto_time capture (imu_buffer m))\<rparr>]\<rparr>\<rparr>))))"

text \<open>The time of the newest point.\<close>

definition newest_point :: "'i mapper \<Rightarrow> rat res" where
  "newest_point m = bindR (back_of (lid_header_time_buffer m)) (\<lambda>t. bindR (back_of (lid_raw_data_buffer m)) (\<lambda>pl.
     bindR (back_of pl) (\<lambda>p. Inr (t + curvature p / 1000))))"

definition sync_livo :: "'i mapper \<Rightarrow> (bool \<times> 'i mapper) res" where
  "sync_livo m0 = bindR (front_of (img_time_buffer m0)) (\<lambda>it. bindR (first_update m0) (\<lambda>m.
     bindR (newest_point m) (\<lambda>newest. bindR (back_of (imu_buffer m)) (\<lambda>ib.
       let capture = it + exposure_time_init m in
       if capture < last_lio_update_time (meas m) + 1 / 100000
       then Inr (False, m\<lparr>img_buffer := tl (img_buffer m), img_time_buffer := tl (img_time_buffer m)\<rparr>)
       else if newest < capture \<or> toSec (im_stamp ib) < capture then Inr (False, m)
       else bindR (cut_group capture m) (\<lambda>m'. Inr (True, m'))))))"

definition SyncPackages :: "'i mapper \<Rightarrow> (bool \<times> 'i mapper) res" where
  "SyncPackages m = (if lid_raw_data_buffer m = [] \<and> lidar_en m then Inr (False, m)
     else if img_buffer m = [] \<and> img_en m then Inr (False, m)
     else if imu_buffer m = [] then Inr (False, m)
     else case slam_mode m of ONLY_LIO \<Rightarrow> sync_lio m | LIVO \<Rightarrow> sync_livo m)"

definition HandleFirstFrame :: "'i mapper \<Rightarrow> 'i mapper" where
  "HandleFirstFrame m = (if first_frame_finished m then m
     else m\<lparr>first_lidar_time := last_lio_update_time (meas m), first_frame_finished := True\<rparr>)"

section \<open>Stamps and times\<close>

lemma toStamp_eq: "toStamp t = Inr n \<Longrightarrow> 0 \<le> t \<and> of_nat n \<le> t * 10 ^ 9 \<and> t * 10 ^ 9 < of_nat n + 1"
proof -
  assume h: "toStamp t = Inr n"
  define s ns where "s = \<lfloor>t\<rfloor>" and "ns = \<lfloor>(t - of_int s) * 10 ^ 9\<rfloor>"
  have s: "0 \<le> s" "n = nat (s * 10 ^ 9 + ns)"
    using h unfolding toStamp_def Let_def s_def[symmetric] ns_def[symmetric] by (auto split: if_splits)
  have f: "of_int s \<le> t" "t < of_int s + 1" unfolding s_def by linarith+
  have ns: "0 \<le> ns" unfolding ns_def using f(1) by simp
  have b: "of_int ns \<le> (t - of_int s) * 10 ^ 9" "(t - of_int s) * 10 ^ 9 < of_int ns + 1" unfolding ns_def by linarith+
  have "(of_nat n :: rat) = of_int (s * 10 ^ 9 + ns)" using s ns by (metis add_nonneg_nonneg mult_nonneg_nonneg of_nat_nat zero_le_numeral zero_le_power)
  then have "(of_nat n :: rat) = of_int s * 10 ^ 9 + of_int ns" by simp
  moreover have "0 \<le> t" using s(1) f(1) by (metis of_int_0_le_iff order_trans)
  ultimately show ?thesis using b by (simp add: algebra_simps)
qed

lemma of_nat_div_mod: "(of_nat n :: rat) = of_nat (n div k) * of_nat k + of_nat (n mod k)"
  by (metis div_mult_mod_eq of_nat_add of_nat_mult)

text \<open>
  stamp_roundtrip: a stamp turned to seconds and back is the same stamp, in
  exact arithmetic; and whatever toStamp returns is the time rounded down to the
  nanosecond.
\<close>

theorem stamp_roundtrip:
  "(n < 2 ^ 31 * 10 ^ 9 \<longrightarrow> toStamp (toSec n) = Inr n) \<and> (\<forall>k. toStamp t = Inr k \<longrightarrow> toSec k \<le> t \<and> t < toSec (Suc k))"
proof (intro conjI impI allI)
  assume n: "n < 2 ^ 31 * 10 ^ 9"
  have d: "\<lfloor>toSec n\<rfloor> = int (n div 10 ^ 9)" unfolding toSec_def
    by (metis floor_divide_of_nat_eq of_nat_numeral of_nat_power)
  have e: "(of_nat n :: rat) = of_nat (n div 10 ^ 9) * 10 ^ 9 + of_nat (n mod 10 ^ 9)"
    using of_nat_div_mod[of n "10 ^ 9"] by simp
  have "(toSec n - of_int (int (n div 10 ^ 9))) * 10 ^ 9 = of_nat n - of_nat (n div 10 ^ 9) * 10 ^ 9"
    unfolding toSec_def of_int_of_nat_eq by (simp add: left_diff_distrib)
  also have "\<dots> = of_nat (n mod 10 ^ 9)" using e by linarith
  finally have r: "(toSec n - of_int (int (n div 10 ^ 9))) * 10 ^ 9 = of_nat (n mod 10 ^ 9)" .
  have m: "n div 10 ^ 9 < 2 ^ 31" using n by (intro less_mult_imp_div_less) simp
  have f: "\<lfloor>of_nat (n mod 10 ^ 9) :: rat\<rfloor> = int (n mod 10 ^ 9)" by (rule floor_of_nat)
  have "int (n div 10 ^ 9) * 10 ^ 9 + int (n mod 10 ^ 9) = int (n div 10 ^ 9 * 10 ^ 9 + n mod 10 ^ 9)"
    by (simp only: of_nat_add of_nat_mult of_nat_power of_nat_numeral)
  then have "nat (int (n div 10 ^ 9) * 10 ^ 9 + \<lfloor>of_nat (n mod 10 ^ 9) :: rat\<rfloor>) = n"
    unfolding f div_mult_mod_eq by (metis nat_int)
  then show "toStamp (toSec n) = Inr n" using m unfolding toStamp_def Let_def d r by (simp del: floor_of_nat)
next
  fix k assume h: "toStamp t = Inr k"
  show "toSec k \<le> t" "t < toSec (Suc k)" using toStamp_eq[OF h] by (simp_all add: toSec_def field_simps)
qed

lemma stamp_roundtrip_witness: "toStamp (toSec 5) = Inr 5"
  using stamp_roundtrip[THEN conjunct1, of 5] by simp

section \<open>The buffers\<close>

definition buffers_ok :: "'i mapper \<Rightarrow> bool" where
  "buffers_ok m = (length (lid_raw_data_buffer m) \<le> length (lid_header_time_buffer m)
     \<and> length (img_buffer m) = length (img_time_buffer m)
     \<and> sorted (map im_stamp (imu_buffer m)) \<and> (\<forall>i \<in> set (imu_buffer m). toSec (im_stamp i) \<le> last_timestamp_imu m)
     \<and> sorted_wrt (\<lambda>a b. a + 2 / 100 \<le> b) (img_time_buffer m) \<and> (\<forall>t \<in> set (img_time_buffer m). t \<le> last_timestamp_img m))"

definition aligned :: "'i mapper \<Rightarrow> bool" where
  "aligned m = (length (lid_raw_data_buffer m) = length (lid_header_time_buffer m))"

text \<open>
  One step of the program; est stands for the estimation that follows a group, and
  forwards says whether the lidar stamps are taken not to run backwards.
\<close>

inductive mapper_step :: "scan_env \<Rightarrow> ('msg \<Rightarrow> 'i res) \<Rightarrow> ('i mapper \<Rightarrow> 'i mapper \<Rightarrow> bool) \<Rightarrow> bool \<Rightarrow> 'i mapper \<Rightarrow> 'i mapper \<Rightarrow> bool"
  for E conv est forwards where
  scan: "PointCloud2Cbk E st qs m = Inr m' \<Longrightarrow> forwards \<longrightarrow> last_timestamp_lidar m \<le> toSec st \<Longrightarrow> mapper_step E conv est forwards m m'"
| livox: "LivoxCbk E st k ps m = Inr m' \<Longrightarrow> forwards \<longrightarrow> last_timestamp_lidar m \<le> toSec st \<Longrightarrow> mapper_step E conv est forwards m m'"
| sample: "ImuCbk i m = Inr m' \<Longrightarrow> mapper_step E conv est forwards m m'"
| image: "ImageCbk conv st msg m = Inr m' \<Longrightarrow> mapper_step E conv est forwards m m'"
| idle: "SyncPackages m = Inr (False, m') \<Longrightarrow> mapper_step E conv est forwards m m'"
| process: "SyncPackages m = Inr (True, m1) \<Longrightarrow> est (HandleFirstFrame m1) m' \<Longrightarrow> mapper_step E conv est forwards m m'"

definition est_keeps :: "('i mapper \<Rightarrow> 'i mapper \<Rightarrow> bool) \<Rightarrow> bool" where
  "est_keeps est = (\<forall>m m'. est m m' \<longrightarrow> (\<exists>u b. m' = m\<lparr>meas := u, imu_need_init := b\<rparr>))"

lemma toStamp_toSec_le: "toStamp t = Inr n \<Longrightarrow> toSec n \<le> t"
  using toStamp_eq[of t n] by (simp add: toSec_def field_simps)

lemma toSec_mono: "toSec a \<le> toSec b \<longleftrightarrow> a \<le> b"
  by (simp add: toSec_def divide_le_cancel)

lemma scans_buffers:
  assumes "buffers_ok m"
  shows "buffers_ok (m\<lparr>pre := s\<rparr>)" "buffers_ok (loop_back t m)" "buffers_ok (push_scan t pl m)"
    "trim_scans m = Inr m' \<Longrightarrow> buffers_ok m'"
    "aligned m \<Longrightarrow> aligned (m\<lparr>pre := s\<rparr>)" "aligned m \<Longrightarrow> last_timestamp_lidar m \<le> t \<Longrightarrow> aligned (loop_back t m)"
    "aligned m \<Longrightarrow> aligned (push_scan t pl m)" "aligned m \<Longrightarrow> trim_scans m = Inr m' \<Longrightarrow> aligned m'"
  using assms by (auto simp: buffers_ok_def aligned_def loop_back_def push_scan_def trim_scans_def Let_def split: if_splits)

text \<open>The ways the callbacks can end.\<close>

lemma PointCloud2Cbk_cases:
  assumes "PointCloud2Cbk E st qs m = Inr m'"
  obtains (off) "m' = m" | (scan) pl s where "trim_scans (push_scan (toSec st) pl ((loop_back (toSec st) m)\<lparr>pre := s\<rparr>)) = Inr m'"
  using assms by (cases "lidar_en m") (auto simp: PointCloud2Cbk_def Let_def bindR_eq_Inr)

lemma LivoxCbk_cases:
  assumes "LivoxCbk E st k ps m = Inr m'"
  obtains (off) "\<not> lidar_en m" "m' = m" | (empty) s where "m' = (loop_back (toSec st) m)\<lparr>pre := s\<rparr>"
  | (scan) pl s where "pl \<noteq> []" "trim_scans (push_scan (toSec st) pl ((loop_back (toSec st) m)\<lparr>pre := s\<rparr>)) = Inr m'"
proof (cases "lidar_en m")
  case True
  let ?m1 = "loop_back (toSec st) m"
  obtain r where "bindR (Process_livox (se_numeric E) (se_junk E) k ps (pre ?m1)) (\<lambda>(pl, s).
        let m2 = ?m1\<lparr>pre := s\<rparr> in if pl = [] then Inr m2 else trim_scans (push_scan (toSec st) pl m2)) = Inr m'"
    and r: "Process_livox (se_numeric E) (se_junk E) k ps (pre ?m1) = Inr r"
    using assms True unfolding LivoxCbk_def Let_def by (auto simp: bindR_eq_Inr)
  then show thesis using empty scan by (cases r; cases "fst r = []") (auto simp: Let_def)
next
  case False then show ?thesis using assms by (intro off) (simp_all add: LivoxCbk_def)
qed

lemma ImuCbk_cases:
  assumes "ImuCbk i m = Inr m'"
  obtains (early) "m' = m" | (latching) t where "m' = latch t m"
  | (push) t n m1 u where "m1 = m \<or> m1 = latch u m" "toStamp t = Inr n" "m' = push_imu t (i\<lparr>im_stamp := n\<rparr>) m1"
proof (cases "last_timestamp_lidar m < 0")
  case True then show ?thesis using assms early by (simp add: ImuCbk_def)
next
  case False
  obtain n where "toStamp (toSec (im_stamp i) - imu_time_offset m) = Inr n"
    using assms False by (auto simp: ImuCbk_def bindR_eq_Inr)
  then have e: "Inr m' = (let t = toSec n; m1 = (if ros_driver_fix_en m then latch t m else m);
         t' = (if ros_driver_fix_en m then t + latched_offset m1 else t) in
     if ros_driver_fix_en m \<and> \<not> offset_latched m1 then Inr m1
     else bindR (toStamp t') (\<lambda>n'. Inr (push_imu t' (i\<lparr>im_stamp := n'\<rparr>) m1)))"
    using assms False by (simp add: ImuCbk_def)
  define m1 where "m1 = (if ros_driver_fix_en m then latch (toSec n) m else m)"
  define t' where "t' = (if ros_driver_fix_en m then toSec n + latched_offset m1 else toSec n)"
  have e: "Inr m' = (if ros_driver_fix_en m \<and> \<not> offset_latched m1 then Inr m1
     else bindR (toStamp t') (\<lambda>n'. Inr (push_imu t' (i\<lparr>im_stamp := n'\<rparr>) m1)))"
    using e unfolding Let_def m1_def[symmetric] t'_def[symmetric] .
  have m1: "m1 = m \<or> m1 = latch (toSec n) m" by (simp add: m1_def)
  consider "m' = m1" | n' where "toStamp t' = Inr n'" "m' = push_imu t' (i\<lparr>im_stamp := n'\<rparr>) m1"
    using e[symmetric] by (auto simp: bindR_eq_Inr split: if_splits)
  then show ?thesis using m1 early latching push[OF m1] by cases auto
qed

lemma res_branches:
  "Inr x = (if a then Inr y else if b then Inr z else if c then Inr z else if d then Inr z else bindR r f) \<Longrightarrow>
    x = y \<or> x = z \<or> (\<not> d \<and> (\<exists>v. r = Inr v \<and> f v = Inr x))"
  by (cases r) (auto split: if_splits)

lemma ImageCbk_cases:
  assumes "ImageCbk conv st msg m = Inr m'"
  obtains (skip) c where "m' = m\<lparr>frame_counter := c\<rparr>"
  | (image) c t img where "last_timestamp_img m + 2 / 100 \<le> t" "m' = m\<lparr>frame_counter := c, img_buffer := img_buffer m @ [img],
      img_time_buffer := img_time_buffer m @ [t], last_timestamp_img := t\<rparr>"
proof -
  define m1 where "m1 = (if hilti_en m then m\<lparr>frame_counter := frame_counter m + 1\<rparr> else m)"
  define t where "t = toSec st + img_time_offset m"
  have e: "Inr m' = (if \<not> img_en m then Inr m else if hilti_en m \<and> frame_counter m1 mod 4 \<noteq> 0 then Inr m1
      else if \<bar>t - last_timestamp_img m\<bar> < 1 / 1000 \<or> last_timestamp_lidar m < 0 \<or> t < last_timestamp_img m then Inr m1
      else if t - last_timestamp_img m < 2 / 100 then Inr m1
      else bindR (conv msg) (\<lambda>img. Inr (m1\<lparr>img_buffer := img_buffer m @ [img], img_time_buffer := img_time_buffer m @ [t], last_timestamp_img := t\<rparr>)))"
    using assms unfolding ImageCbk_def m1_def t_def Let_def by simp
  have m1: "m1 = m\<lparr>frame_counter := if hilti_en m then frame_counter m + 1 else frame_counter m\<rparr>" by (simp add: m1_def)
  consider "m' = m" | "m' = m1" | img where "2 / 100 \<le> t - last_timestamp_img m"
      "m' = m1\<lparr>img_buffer := img_buffer m @ [img], img_time_buffer := img_time_buffer m @ [t], last_timestamp_img := t\<rparr>"
    using res_branches[OF e] unfolding not_less by (elim disjE exE conjE) (blast, blast, metis sum.inject(2))
  then show ?thesis
  proof cases
    case 1 then show ?thesis by (intro skip[of "frame_counter m"]) simp
  next
    case 2 then show ?thesis unfolding m1 by (rule skip)
  next
    case 3 then show ?thesis using m1 by (intro image[where t = t and img = img]) simp_all
  qed
qed

lemma stored_scan:
  assumes "buffers_ok m" "trim_scans (push_scan t pl ((loop_back t m)\<lparr>pre := s\<rparr>)) = Inr m'"
  shows "buffers_ok m' \<and> (last_timestamp_lidar m \<le> t \<longrightarrow> aligned m \<longrightarrow> aligned m')"
proof -
  have 1: "buffers_ok (loop_back t m)" by (rule scans_buffers(2)[OF assms(1)])
  have 2: "buffers_ok ((loop_back t m)\<lparr>pre := s\<rparr>)" by (rule scans_buffers(1)[OF 1])
  have 3: "buffers_ok (push_scan t pl ((loop_back t m)\<lparr>pre := s\<rparr>))" by (rule scans_buffers(3)[OF 2])
  show ?thesis using scans_buffers(4)[OF 3 assms(2)] scans_buffers(8)[OF 3 _ assms(2)] scans_buffers(7)[OF 2] scans_buffers(5)[OF 1]
    scans_buffers(6)[OF assms(1)] by blast
qed

lemma scan_step:
  assumes "buffers_ok m" "PointCloud2Cbk E st qs m = Inr m'"
  shows "buffers_ok m' \<and> (last_timestamp_lidar m \<le> toSec st \<longrightarrow> aligned m \<longrightarrow> aligned m')"
  using assms(2)
proof (cases rule: PointCloud2Cbk_cases)
  case (scan pl s) then show ?thesis by (rule stored_scan[OF assms(1)])
qed (use assms(1) in simp)

lemma livox_step:
  assumes "buffers_ok m" "LivoxCbk E st k ps m = Inr m'"
  shows "buffers_ok m' \<and> (last_timestamp_lidar m \<le> toSec st \<longrightarrow> aligned m \<longrightarrow> aligned m')"
  using assms(2)
proof (cases rule: LivoxCbk_cases)
  case (empty s)
  have 1: "buffers_ok (loop_back (toSec st) m)" by (rule scans_buffers(2)[OF assms(1)])
  show ?thesis unfolding empty using scans_buffers(1,5)[OF 1] scans_buffers(6)[OF assms(1)] by blast
next
  case (scan pl s) show ?thesis by (rule stored_scan[OF assms(1) scan(2)])
qed (use assms(1) in simp)

lemma push_imu_buffers:
  assumes "buffers_ok m" "toStamp t = Inr n"
  shows "buffers_ok (push_imu t (i\<lparr>im_stamp := n\<rparr>) m) \<and> aligned (push_imu t (i\<lparr>im_stamp := n\<rparr>) m) = aligned m"
proof -
  have le: "x \<le> n" if "toSec x \<le> last_timestamp_imu m" "\<not> (0 < last_timestamp_imu m \<and> t < last_timestamp_imu m)" for x
  proof -
    have "0 \<le> toSec x" by (simp add: toSec_def)
    then have "toSec x \<le> t" using that toStamp_eq[OF assms(2)] by linarith
    then have "(of_nat x :: rat) \<le> t * 10 ^ 9" by (simp add: toSec_def field_simps)
    then have "(of_nat x :: rat) < of_nat n + 1" using toStamp_eq[OF assms(2)] by linarith
    then have "(of_nat x :: rat) < of_nat (Suc n)" by simp
    then show "x \<le> n" unfolding of_nat_less_iff by simp
  qed
  have t: "toSec n \<le> t" by (rule toStamp_toSec_le[OF assms(2)])
  show ?thesis
  proof (cases "0 < last_timestamp_imu m \<and> t < last_timestamp_imu m")
    case True then show ?thesis using assms(1) by (simp add: push_imu_def)
  next
    case False
    have "\<forall>x \<in> set (imu_buffer m). toSec (im_stamp x) \<le> t"
      using assms(1) False toStamp_eq[OF assms(2)] unfolding buffers_ok_def
      by (metis (no_types, lifting) dual_order.trans linorder_not_less)
    then show ?thesis using assms(1) False le t
      unfolding push_imu_def by (auto simp: buffers_ok_def aligned_def Let_def sorted_append split: if_splits)
  qed
qed

lemma sample_step:
  assumes "buffers_ok m" "ImuCbk i m = Inr m'"
  shows "buffers_ok m' \<and> aligned m' = aligned m"
proof -
  have l: "buffers_ok (latch t m) \<and> aligned (latch t m) = aligned m" for t
    using assms(1) by (simp add: latch_def buffers_ok_def aligned_def)
  show ?thesis using assms(2)
  proof (cases rule: ImuCbk_cases)
    case (push t n m1 u)
    then have "buffers_ok m1 \<and> aligned m1 = aligned m" using l assms(1) by auto
    then show ?thesis using push_imu_buffers[OF _ push(2)] push(3) by auto
  qed (use l assms(1) in simp_all)
qed

lemma image_step:
  assumes "buffers_ok m" "ImageCbk conv st msg m = Inr m'"
  shows "buffers_ok m' \<and> aligned m' = aligned m"
  using assms(2)
proof (cases rule: ImageCbk_cases)
  case (image c t img)
  have "\<forall>x \<in> set (img_time_buffer m). x + 2 / 100 \<le> t" using assms(1) image(1) unfolding buffers_ok_def by fastforce
  then show ?thesis using assms(1) image(1) unfolding image(2)
    by (auto simp: buffers_ok_def aligned_def sorted_wrt_append)
qed (use assms(1) in \<open>simp add: buffers_ok_def aligned_def\<close>)

section \<open>Groups\<close>

definition abs_time :: "rat \<Rightarrow> pcl_point \<Rightarrow> rat" where
  "abs_time t p = t * 1000 + curvature p"

definition in_place :: "rat \<Rightarrow> pcl_point \<Rightarrow> vec \<times> rat" where
  "in_place t p = (pos p, abs_time t p)"

text \<open>The points of scans with their place and their absolute time.\<close>

definition scan_points :: "(pcl_point list \<times> rat) list \<Rightarrow> (vec \<times> rat) list" where
  "scan_points scans = concat (map (\<lambda>(pl, t). map (in_place t) pl) scans)"

lemma in_place_shifted: "in_place u (shifted (t - u) p) = in_place t p"
  by (simp add: in_place_def shifted_def abs_time_def pos_def algebra_simps)

lemma early_iff: "early c t p \<longleftrightarrow> snd (in_place t p) < c * 1000"
  by (auto simp: early_def in_place_def abs_time_def algebra_simps)

lemma cut_one:
  "map (in_place u) (map (shifted (t - u)) (filter (early c t) pl)) = filter (\<lambda>x. snd x < c * 1000) (map (in_place t) pl)"
  "map (in_place c) (map (shifted (t - c)) (filter (\<lambda>p. \<not> early c t p) pl)) = filter (\<lambda>x. \<not> snd x < c * 1000) (map (in_place t) pl)"
  by (induction pl) (auto simp: early_iff in_place_shifted)

lemma cut_scans_spec:
  "cut_scans c u raw ts cur nxt = Inr (raw', ts', cur', nxt') \<Longrightarrow>
    \<exists>k es ls. k \<le> length raw \<and> k \<le> length ts \<and> raw' = drop k raw \<and> ts' = drop k ts \<and> (\<forall>t \<in> set (take k ts). t \<le> c)
      \<and> (raw' \<noteq> [] \<longrightarrow> c < hd ts') \<and> cur' = cur @ es \<and> nxt' = nxt @ ls
      \<and> map (in_place u) es = filter (\<lambda>x. snd x < c * 1000) (scan_points (take k (zip raw ts)))
      \<and> map (in_place c) ls = filter (\<lambda>x. \<not> snd x < c * 1000) (scan_points (take k (zip raw ts)))"
proof (induction c u raw ts cur nxt rule: cut_scans.induct)
  case (1 c u ts cur nxt)
  then show ?case by (intro exI[of _ 0] exI[of _ "[]"]) (simp add: scan_points_def)
next
  case (2 c u pl pls cur nxt)
  then show ?case by simp
next
  case (3 c u pl pls t ts cur nxt)
  show ?case
  proof (cases "c < t")
    case True
    then show ?thesis using "3.prems" by (intro exI[of _ 0] exI[of _ "[]"]) (auto simp: scan_points_def)
  next
    case False
    have c: "cut_scans c u pls ts (cur @ map (shifted (t - u)) (filter (early c t) pl))
        (nxt @ map (shifted (t - c)) (filter (\<lambda>p. \<not> early c t p) pl)) = Inr (raw', ts', cur', nxt')"
      using "3.prems" False by simp
    obtain k es ls where I: "k \<le> length pls" "k \<le> length ts" "raw' = drop k pls" "ts' = drop k ts" "\<forall>t \<in> set (take k ts). t \<le> c"
      "raw' \<noteq> [] \<longrightarrow> c < hd ts'" "cur' = (cur @ map (shifted (t - u)) (filter (early c t) pl)) @ es"
      "nxt' = (nxt @ map (shifted (t - c)) (filter (\<lambda>p. \<not> early c t p) pl)) @ ls"
      "map (in_place u) es = filter (\<lambda>x. snd x < c * 1000) (scan_points (take k (zip pls ts)))"
      "map (in_place c) ls = filter (\<lambda>x. \<not> snd x < c * 1000) (scan_points (take k (zip pls ts)))"
      using "3.IH"[OF False c] by blast
    have s: "scan_points (take (Suc k) (zip (pl # pls) (t # ts))) = map (in_place t) pl @ scan_points (take k (zip pls ts))"
      by (simp add: scan_points_def)
    show ?thesis
      by (rule exI[of _ "Suc k"], rule exI[of _ "map (shifted (t - u)) (filter (early c t) pl) @ es"],
          rule exI[of _ "map (shifted (t - c)) (filter (\<lambda>p. \<not> early c t p) pl) @ ls"])
        (use I False in \<open>simp only: s filter_append map_append cut_one, simp\<close>)
  qed
qed

text \<open>The time the update starts from: that of the last one, or of the first scan.\<close>

definition update_time :: "'i mapper \<Rightarrow> rat" where
  "update_time m = (if last_lio_update_time (meas m) < 0 then hd (lid_header_time_buffer m) else last_lio_update_time (meas m))"

definition updated :: "'i mapper \<Rightarrow> 'i mapper" where
  "updated m = m\<lparr>meas := (meas m)\<lparr>last_lio_update_time := update_time m\<rparr>\<rparr>"

lemma first_update_eq: "first_update m = Inr m1 \<Longrightarrow> m1 = updated m"
  by (auto simp: first_update_def update_time_def updated_def front_of_def split: if_splits)

lemma front_of_Inr: "front_of xs = Inr x \<longleftrightarrow> xs \<noteq> [] \<and> x = hd xs"
  by (auto simp: front_of_def)

lemma sync_livo_cases:
  assumes "sync_livo m = Inr (go, m')"
  obtains (drop_image) "\<not> go" "m' = (updated m)\<lparr>img_buffer := tl (img_buffer m), img_time_buffer := tl (img_time_buffer m)\<rparr>" "img_time_buffer m \<noteq> []"
  | (wait) "\<not> go" "m' = updated m"
  | (group) c where "go" "c = hd (img_time_buffer m) + exposure_time_init m" "img_time_buffer m \<noteq> []"
      "update_time m + 1 / 100000 \<le> c" "cut_group c (updated m) = Inr m'"
proof -
  obtain it m1 newest and ib :: imu where it: "img_time_buffer m \<noteq> []" "it = hd (img_time_buffer m)" and m1: "first_update m = Inr m1"
    and b: "(let capture = it + exposure_time_init m1 in
       if capture < last_lio_update_time (meas m1) + 1 / 100000
       then Inr (False, m1\<lparr>img_buffer := tl (img_buffer m1), img_time_buffer := tl (img_time_buffer m1)\<rparr>)
       else if newest < capture \<or> toSec (im_stamp ib) < capture then Inr (False, m1)
       else bindR (cut_group capture m1) (\<lambda>m'. Inr (True, m'))) = Inr (go, m')"
    using assms unfolding sync_livo_def bindR_eq_Inr front_of_Inr by blast
  note e = first_update_eq[OF m1]
  have f: "exposure_time_init (updated m) = exposure_time_init m" "last_lio_update_time (meas (updated m)) = update_time m"
    "img_buffer (updated m) = img_buffer m" "img_time_buffer (updated m) = img_time_buffer m"
    by (simp_all add: updated_def)
  show ?thesis
    using b it e that f by (auto simp: Let_def bindR_eq_Inr not_less split: if_split_asm)
qed

lemma push_lidar_cases:
  assumes "push_lidar m = Inr (go, m')"
  obtains (pushed) "lidar_pushed m" "go" "m' = m"
  | (tiny) "\<not> lidar_pushed m" "\<not> go" "length (hd (lid_raw_data_buffer m)) \<le> 1" "lid_raw_data_buffer m \<noteq> []"
      "m' = m\<lparr>meas := (meas m)\<lparr>mg_lidar := hd (lid_raw_data_buffer m)\<rparr>\<rparr>"
  | (front) "\<not> lidar_pushed m" "go" "1 < length (hd (lid_raw_data_buffer m))" "lid_raw_data_buffer m \<noteq> []"
      "m' = m\<lparr>meas := (meas m)\<lparr>mg_lidar := hd (lid_raw_data_buffer m), lidar_frame_beg_time := hd (lid_header_time_buffer m),
         lidar_frame_end_time := hd (lid_header_time_buffer m) + curvature (last (hd (lid_raw_data_buffer m))) / 1000,
         pcl_proc_cur := hd (lid_raw_data_buffer m)\<rparr>, lidar_pushed := True\<rparr>"
proof (cases "lidar_pushed m")
  case True then show ?thesis using assms by (intro pushed) (simp_all add: push_lidar_def)
next
  case False
  then have r: "lid_raw_data_buffer m \<noteq> []" using assms by (cases "lid_raw_data_buffer m") (simp_all add: push_lidar_def front_of_def)
  show ?thesis
  proof (cases "length (hd (lid_raw_data_buffer m)) \<le> 1")
    case True
    have "push_lidar m = Inr (False, m\<lparr>meas := (meas m)\<lparr>mg_lidar := hd (lid_raw_data_buffer m)\<rparr>\<rparr>)"
      using False r True unfolding push_lidar_def front_of_def by (simp only: if_False bindR_simps Let_def if_True)
    then show ?thesis using assms False r True by (intro tiny) simp_all
  next
    case big: False
    have h: "lid_header_time_buffer m \<noteq> []"
      using assms False r big by (cases "lid_header_time_buffer m") (simp_all add: push_lidar_def front_of_def)
    have "push_lidar m = Inr (True, m\<lparr>meas := (meas m)\<lparr>mg_lidar := hd (lid_raw_data_buffer m), lidar_frame_beg_time := hd (lid_header_time_buffer m),
         lidar_frame_end_time := hd (lid_header_time_buffer m) + curvature (last (hd (lid_raw_data_buffer m))) / 1000,
         pcl_proc_cur := hd (lid_raw_data_buffer m)\<rparr>, lidar_pushed := True\<rparr>)"
      using False r big h unfolding push_lidar_def front_of_def by (simp add: Let_def)
    then show ?thesis using assms False r big by (intro front) simp_all
  qed
qed

lemma sync_lio_cases:
  assumes "sync_lio m = Inr (go, m')"
  obtains (wait) ok where "\<not> go" "push_lidar (updated m) = Inr (ok, m')"
  | (group) m2 where "go" "push_lidar (updated m) = Inr (True, m2)" "lidar_frame_end_time (meas m2) \<le> last_timestamp_imu m2"
      "lid_raw_data_buffer m2 \<noteq> []" "lid_header_time_buffer m2 \<noteq> []"
      "m' = m2\<lparr>imu_buffer := after_time (lidar_frame_end_time (meas m2)) (imu_buffer m2),
         lid_raw_data_buffer := tl (lid_raw_data_buffer m2), lid_header_time_buffer := tl (lid_header_time_buffer m2),
         meas := (meas m2)\<lparr>measures := measures (meas m2) @ [MeasureGroup\<lparr>lio_time := lidar_frame_end_time (meas m2),
           mg_imu := upto_time (lidar_frame_end_time (meas m2)) (imu_buffer m2)\<rparr>]\<rparr>, lidar_pushed := False\<rparr>"
proof -
  obtain m1 ok m2 where m1: "first_update m = Inr m1" and m2: "push_lidar m1 = Inr (ok, m2)"
    and b: "(let e = lidar_frame_end_time (meas m2) in
     if \<not> ok \<or> last_timestamp_imu m2 < e then Inr (False, m2)
     else bindR (pop_front (lid_raw_data_buffer m2)) (\<lambda>raw. bindR (pop_front (lid_header_time_buffer m2)) (\<lambda>times.
       let g = MeasureGroup\<lparr>lio_time := e, mg_imu := takeWhile (\<lambda>i. toSec (im_stamp i) \<le> e) (imu_buffer m2)\<rparr> in
       Inr (True, m2\<lparr>imu_buffer := dropWhile (\<lambda>i. toSec (im_stamp i) \<le> e) (imu_buffer m2),
         lid_raw_data_buffer := raw, lid_header_time_buffer := times,
         meas := (meas m2)\<lparr>measures := measures (meas m2) @ [g]\<rparr>, lidar_pushed := False\<rparr>)))) = Inr (go, m')"
    using assms unfolding sync_lio_def bindR_eq_Inr by (auto simp: bindR_eq_Inr)
  note e = first_update_eq[OF m1]
  show ?thesis
  proof (cases "\<not> ok \<or> last_timestamp_imu m2 < lidar_frame_end_time (meas m2)")
    case True then show ?thesis using b m2 e wait[of ok] by (simp add: Let_def)
  next
    case False
    then have p: "lid_raw_data_buffer m2 \<noteq> []" "lid_header_time_buffer m2 \<noteq> []"
      using b by (auto simp: Let_def pop_front_def split: if_splits)
    show ?thesis using False p b m2 e
      by (intro group[of m2]) (auto simp: Let_def pop_front_def upto_time_def after_time_def)
  qed
qed

lemma upto_after: "upto_time t xs @ after_time t xs = xs"
  by (simp add: upto_time_def after_time_def)

lemma upto_time_le: "i \<in> set (upto_time t xs) \<Longrightarrow> toSec (im_stamp i) \<le> t"
  unfolding upto_time_def by (auto dest: set_takeWhileD)

lemma after_time_gt:
  assumes "sorted (map im_stamp xs)" "i \<in> set (after_time t xs)"
  shows "t < toSec (im_stamp i)"
  using assms
proof (induction xs)
  case (Cons x xs)
  show ?case
  proof (cases "toSec (im_stamp x) \<le> t")
    case True then show ?thesis using Cons by (simp add: after_time_def)
  next
    case False
    have "im_stamp x \<le> im_stamp i" using Cons.prems False by (auto simp: after_time_def)
    then show ?thesis using False toSec_mono[of "im_stamp x" "im_stamp i"] by linarith
  qed
qed (simp add: after_time_def)

lemma after_time_sub: "set (after_time t xs) \<subseteq> set xs" "sorted (map im_stamp xs) \<Longrightarrow> sorted (map im_stamp (after_time t xs))"
proof -
  show "set (after_time t xs) \<subseteq> set xs" unfolding after_time_def by (auto dest: set_dropWhileD)
  show "sorted (map im_stamp xs) \<Longrightarrow> sorted (map im_stamp (after_time t xs))"
    using upto_after[of t xs] by (metis map_append sorted_append)
qed

lemma buffers_ok_meas:
  "buffers_ok (m\<lparr>meas := u\<rparr>) = buffers_ok m" "aligned (m\<lparr>meas := u\<rparr>) = aligned m"
  "buffers_ok (m\<lparr>meas := u, lidar_pushed := b\<rparr>) = buffers_ok m" "aligned (m\<lparr>meas := u, lidar_pushed := b\<rparr>) = aligned m"
  "buffers_ok (m\<lparr>meas := u, imu_need_init := b\<rparr>) = buffers_ok m" "aligned (m\<lparr>meas := u, imu_need_init := b\<rparr>) = aligned m"
  "buffers_ok (HandleFirstFrame m) = buffers_ok m" "aligned (HandleFirstFrame m) = aligned m"
  "buffers_ok (updated m) = buffers_ok m" "aligned (updated m) = aligned m"
  by (simp_all add: buffers_ok_def aligned_def HandleFirstFrame_def updated_def)

lemma push_lidar_buffers:
  "push_lidar m = Inr (go, m') \<Longrightarrow> buffers_ok m' = buffers_ok m \<and> aligned m' = aligned m"
  by (erule push_lidar_cases) (simp_all add: buffers_ok_meas)

lemma tl_buffers:
  assumes "buffers_ok m"
  shows "sorted_wrt (\<lambda>a b. a + 2 / 100 \<le> b) (tl (img_time_buffer m))" "\<forall>t \<in> set (tl (img_time_buffer m)). t \<le> last_timestamp_img m"
  using assms by (cases "img_time_buffer m"; simp add: buffers_ok_def)+

lemma sync_lio_buffers:
  assumes "buffers_ok m" "sync_lio m = Inr (go, m')"
  shows "buffers_ok m' \<and> (aligned m \<longrightarrow> aligned m')"
  using assms(2)
proof (cases rule: sync_lio_cases)
  case (wait ok) then show ?thesis using assms(1) push_lidar_buffers[OF wait(2)] by (simp add: buffers_ok_meas)
next
  case (group m2)
  have b: "buffers_ok m2" "aligned m2 = aligned m" using assms(1) push_lidar_buffers[OF group(2)] by (simp_all add: buffers_ok_meas)
  let ?e = "lidar_frame_end_time (meas m2)"
  have "\<forall>i \<in> set (after_time ?e (imu_buffer m2)). toSec (im_stamp i) \<le> last_timestamp_imu m2"
    using b(1) after_time_sub(1) unfolding buffers_ok_def by blast
  then show ?thesis using b after_time_sub(2)[of "imu_buffer m2" ?e] unfolding group(6) by (auto simp: buffers_ok_def aligned_def)
qed

lemma cut_scans_lengths:
  assumes "cut_scans c u raw ts cur nxt = Inr (raw', ts', cur', nxt')"
  shows "length raw \<le> length ts \<longrightarrow> length raw' \<le> length ts'" "length raw = length ts \<longrightarrow> length raw' = length ts'"
  using cut_scans_spec[OF assms] by auto

lemma cut_group_buffers:
  assumes "buffers_ok m" "cut_group c m = Inr m'"
  shows "buffers_ok m' \<and> (aligned m \<longrightarrow> aligned m')"
proof -
  obtain raw times cur nxt img u where s: "cut_scans c (last_lio_update_time (meas m)) (lid_raw_data_buffer m) (lid_header_time_buffer m)
        (pcl_proc_next (meas m)) [] = Inr (raw, times, cur, nxt)"
    and m': "m' = m\<lparr>imu_buffer := after_time c (imu_buffer m), lid_raw_data_buffer := raw, lid_header_time_buffer := times,
           img_buffer := (if img_en m then tl (img_buffer m) else img_buffer m),
           img_time_buffer := (if img_en m then tl (img_time_buffer m) else img_time_buffer m), meas := u\<rparr>"
    using assms(2) unfolding cut_group_def by (auto simp: Let_def bindR_eq_Inr)
  have i: "\<forall>i \<in> set (after_time c (imu_buffer m)). toSec (im_stamp i) \<le> last_timestamp_imu m"
    using assms(1) after_time_sub(1) unfolding buffers_ok_def by blast
  show ?thesis unfolding m' using assms(1) cut_scans_lengths[OF s] tl_buffers[OF assms(1)] after_time_sub(2)[of "imu_buffer m" c] i
    by (auto simp: buffers_ok_def aligned_def)
qed

lemma sync_livo_buffers:
  assumes "buffers_ok m" "sync_livo m = Inr (go, m')"
  shows "buffers_ok m' \<and> (aligned m \<longrightarrow> aligned m')"
  using assms(2)
proof (cases rule: sync_livo_cases)
  case drop_image
  then show ?thesis using assms(1) tl_buffers[OF assms(1)] by (auto simp: buffers_ok_def aligned_def updated_def)
next
  case wait then show ?thesis using assms(1) by (simp add: buffers_ok_meas)
next
  case (group c) then show ?thesis using assms(1) cut_group_buffers[OF _ group(5)] by (simp add: buffers_ok_meas)
qed

lemma SyncPackages_buffers:
  "buffers_ok m \<Longrightarrow> SyncPackages m = Inr (go, m') \<Longrightarrow> buffers_ok m' \<and> (aligned m \<longrightarrow> aligned m')"
  using sync_lio_buffers[of m go m'] sync_livo_buffers[of m go m'] unfolding SyncPackages_def
  by (cases "slam_mode m") (simp_all split: if_split_asm)

text \<open>The scans once the first frame is finished: at most n of them.\<close>

definition scans_bounded :: "nat \<Rightarrow> 'i mapper \<Rightarrow> bool" where
  "scans_bounded n m = (first_frame_finished m \<and> length (lid_raw_data_buffer m) \<le> n)"

lemma scans_bounded_same:
  "lid_raw_data_buffer m' = lid_raw_data_buffer m \<Longrightarrow> first_frame_finished m' = first_frame_finished m \<Longrightarrow> scans_bounded n m' = scans_bounded n m"
  by (simp add: scans_bounded_def)

lemma stored_bounded:
  assumes "first_frame_finished m" "trim_scans (push_scan t pl ((loop_back t m)\<lparr>pre := s\<rparr>)) = Inr m'"
  shows "scans_bounded 100 m'"
  using assms by (auto simp: scans_bounded_def loop_back_def push_scan_def trim_scans_def Let_def split: if_splits)

lemma scans_bounded_mono: "scans_bounded n m \<Longrightarrow> n \<le> k \<Longrightarrow> scans_bounded k m"
  by (simp add: scans_bounded_def)

lemma scan_bounded:
  assumes "PointCloud2Cbk E st qs m = Inr m'" "scans_bounded n m"
  shows "scans_bounded (max 100 n) m'" "lidar_en m \<Longrightarrow> scans_bounded 100 m'"
proof -
  have f: "first_frame_finished m" using assms(2) by (simp add: scans_bounded_def)
  have on: "lidar_en m \<Longrightarrow> scans_bounded 100 m'"
    using assms(1) stored_bounded[OF f] by (auto simp: PointCloud2Cbk_def Let_def bindR_eq_Inr)
  moreover have "\<not> lidar_en m \<Longrightarrow> m' = m" using assms(1) by (simp add: PointCloud2Cbk_def)
  ultimately show "lidar_en m \<Longrightarrow> scans_bounded 100 m'" "scans_bounded (max 100 n) m'"
    using assms(2) scans_bounded_mono by (blast, cases "lidar_en m") (auto intro: scans_bounded_mono)
qed

lemma livox_bounded:
  assumes "LivoxCbk E st k ps m = Inr m'" "scans_bounded n m"
  shows "scans_bounded (max 100 n) m'"
  using assms(1)
proof (cases rule: LivoxCbk_cases)
  case (empty s) then show ?thesis using assms(2) by (auto simp: scans_bounded_def loop_back_def)
next
  case (scan pl s)
  show ?thesis by (rule scans_bounded_mono[OF stored_bounded[OF _ scan(2)]]) (use assms(2) in \<open>simp_all add: scans_bounded_def\<close>)
qed (use assms(2) in \<open>simp_all add: scans_bounded_def le_max_iff_disj\<close>)

lemma sample_bounded:
  assumes "ImuCbk i m = Inr m'" shows "scans_bounded n m' = scans_bounded n m"
proof -
  have l: "scans_bounded n (latch t m) = scans_bounded n m" for t by (simp add: latch_def scans_bounded_def)
  have p: "scans_bounded n (push_imu t j k) = scans_bounded n k" for t j and k :: "'a mapper" by (simp add: push_imu_def scans_bounded_def Let_def)
  show ?thesis using assms by (cases rule: ImuCbk_cases) (use l p in auto)
qed

lemma image_bounded:
  assumes "ImageCbk conv st msg m = Inr m'" shows "scans_bounded n m' = scans_bounded n m"
  using assms by (cases rule: ImageCbk_cases) (simp_all add: scans_bounded_def)

lemma push_lidar_bounded:
  assumes "push_lidar m = Inr (go, m')" shows "scans_bounded n m' = scans_bounded n m"
  using assms by (cases rule: push_lidar_cases) (simp_all add: scans_bounded_def)

lemma scans_bounded_shrink:
  "length (lid_raw_data_buffer m') \<le> length (lid_raw_data_buffer m) \<Longrightarrow> first_frame_finished m' = first_frame_finished m
    \<Longrightarrow> scans_bounded n m \<Longrightarrow> scans_bounded n m'"
  by (simp add: scans_bounded_def)

lemma cut_group_bounded:
  assumes "cut_group c m = Inr m'" "scans_bounded n m"
  shows "scans_bounded n m'"
proof -
  obtain raw times cur nxt where s: "cut_scans c (last_lio_update_time (meas m)) (lid_raw_data_buffer m) (lid_header_time_buffer m)
        (pcl_proc_next (meas m)) [] = Inr (raw, times, cur, nxt)"
    and m': "lid_raw_data_buffer m' = raw" "first_frame_finished m' = first_frame_finished m"
    using assms(1) unfolding cut_group_def by (auto simp: Let_def bindR_eq_Inr)
  obtain k where "raw = drop k (lid_raw_data_buffer m)" using cut_scans_spec[OF s] by blast
  then show ?thesis using m' by (intro scans_bounded_shrink[OF _ _ assms(2)]) simp_all
qed

lemma SyncPackages_bounded:
  assumes "SyncPackages m = Inr (go, m')" "scans_bounded n m"
  shows "scans_bounded n m'"
proof -
  have u: "scans_bounded n (updated m)" using assms(2) by (simp add: scans_bounded_def updated_def)
  consider "m' = m" | "sync_lio m = Inr (go, m')" | "sync_livo m = Inr (go, m')"
    using assms(1) unfolding SyncPackages_def by (cases "slam_mode m") (auto split: if_split_asm)
  then show ?thesis
  proof cases
    case 2
    then show ?thesis
    proof (cases rule: sync_lio_cases)
      case (wait ok) then show ?thesis using push_lidar_bounded[OF wait(2), of n] u by simp
    next
      case (group m2)
      have "scans_bounded n m2" using push_lidar_bounded[OF group(2), of n] u by simp
      then show ?thesis unfolding group(6) by (auto simp: scans_bounded_def)
    qed
  next
    case 3
    then show ?thesis
    proof (cases rule: sync_livo_cases)
      case drop_image then show ?thesis using u by (simp add: scans_bounded_def)
    next
      case (group c) then show ?thesis using cut_group_bounded[OF _ u] by blast
    qed (use u in simp)
  qed (use assms(2) in simp)
qed

lemma step_buffers:
  assumes "mapper_step E conv est forwards k k'" "est_keeps est" "buffers_ok k"
  shows "buffers_ok k' \<and> (forwards \<longrightarrow> aligned k \<longrightarrow> aligned k')"
  using assms(1)
proof (cases rule: mapper_step.cases)
  case (scan st qs) then show ?thesis using scan_step[OF assms(3) scan(1)] by blast
next
  case (livox st n ps) then show ?thesis using livox_step[OF assms(3) livox(1)] by blast
next
  case (sample i) then show ?thesis using sample_step[OF assms(3) sample] by simp
next
  case (image st msg) then show ?thesis using image_step[OF assms(3) image] by simp
next
  case idle then show ?thesis using SyncPackages_buffers[OF assms(3)] by blast
next
  case (process m1)
  then obtain u b where "k' = (HandleFirstFrame m1)\<lparr>meas := u, imu_need_init := b\<rparr>" using assms(2) unfolding est_keeps_def by blast
  then show ?thesis using SyncPackages_buffers[OF assms(3) process(1)] by (simp add: buffers_ok_meas)
qed

lemma step_bounded:
  assumes "mapper_step E conv est forwards k k'" "est_keeps est" "scans_bounded n k" "100 \<le> n"
  shows "scans_bounded n k'"
proof -
  have n: "max 100 n = n" using assms(4) by simp
  from assms(1) show ?thesis
  proof (cases rule: mapper_step.cases)
    case (scan st qs) then show ?thesis using scan_bounded(1)[OF scan(1) assms(3)] n by simp
  next
    case (livox st i ps) then show ?thesis using livox_bounded[OF livox(1) assms(3)] n by simp
  next
    case (sample i) then show ?thesis using sample_bounded[OF sample, of n] assms(3) by simp
  next
    case (image st msg) then show ?thesis using image_bounded[OF image, of n] assms(3) by simp
  next
    case idle then show ?thesis using SyncPackages_bounded[OF idle assms(3)] by simp
  next
    case (process m1)
    then obtain u b where k': "k' = (HandleFirstFrame m1)\<lparr>meas := u, imu_need_init := b\<rparr>" using assms(2) unfolding est_keeps_def by blast
    have "scans_bounded n m1" by (rule SyncPackages_bounded[OF process(1) assms(3)])
    then show ?thesis unfolding k' by (simp add: scans_bounded_def HandleFirstFrame_def)
  qed
qed


text \<open>A mapper as the constructors and parameters leave it, for the witnesses.\<close>

definition new_mapper :: "slam_mode \<Rightarrow> preprocess \<Rightarrow> 'i mapper" where
  "new_mapper mode s = \<lparr>lid_raw_data_buffer = [], lid_header_time_buffer = [], imu_buffer = [], img_buffer = [], img_time_buffer = [],
     last_timestamp_lidar = - 1, last_timestamp_imu = - 1, last_timestamp_img = - 1, lidar_pushed = False,
     first_frame_finished = False, first_lidar_time = 0, slam_mode = mode, lidar_en = True, img_en = (mode = LIVO),
     hilti_en = False, ros_driver_fix_en = False, imu_prop_enable = False, imu_need_init = True, exposure_time_init = 0,
     img_time_offset = 0, imu_time_offset = 0, latched_offset = 0, offset_latched = False, frame_counter = 0,
     prop_imu_buffer = [], newest_imu = None, new_imu = False, pre = s, meas = LidarMeasureGroup\<rparr>"

definition sample_at :: "nat \<Rightarrow> imu" where
  "sample_at n = \<lparr>im_stamp = n, im_acc = (0, 0, 1), im_gyr = (0, 0, 0)\<rparr>"

definition point_at :: "rat \<Rightarrow> pcl_point" where
  "point_at ms = blank_point\<lparr>p_x := 1, curvature := ms\<rparr>"

definition still_pre :: preprocess where
  "still_pre = Preprocess (\<lambda>x. x) 3 1 0"

text \<open>A mapper with a scan that began at one second, an image 50 ms later and two samples.\<close>

definition loaded :: "slam_mode \<Rightarrow> preprocess \<Rightarrow> nat mapper" where
  "loaded mode s = (new_mapper mode s)\<lparr>lid_raw_data_buffer := [[point_at 10, point_at 90]], lid_header_time_buffer := [1],
     imu_buffer := [sample_at 1040000000, sample_at 1200000000], img_buffer := [7], img_time_buffer := [21 / 20],
     last_timestamp_lidar := 1, last_timestamp_imu := 6 / 5, last_timestamp_img := 21 / 20\<rparr>"


text \<open>
  C9 livo_cut: a group of an image takes the first scans, those that begin before
  the capture time, and splits their points at that time: the earlier ones go to
  the frame at hand behind those left over, the later ones to the next frame, each
  keeping its place and its absolute time.  The inertial samples up to the
  capture time leave the buffer in order and those after the last update are
  delivered.
\<close>

theorem livo_cut:
  assumes "SyncPackages m = Inr (True, m')" "slam_mode m = LIVO" "c = hd (img_time_buffer m) + exposure_time_init m"
  shows "\<exists>k es g. lid_raw_data_buffer m' = drop k (lid_raw_data_buffer m) \<and> lid_header_time_buffer m' = drop k (lid_header_time_buffer m)
    \<and> (\<forall>t \<in> set (take k (lid_header_time_buffer m)). t \<le> c)
    \<and> pcl_proc_cur (meas m') = pcl_proc_next (meas m) @ es
    \<and> map (in_place (update_time m)) es = filter (\<lambda>x. snd x < c * 1000) (scan_points (take k (zip (lid_raw_data_buffer m) (lid_header_time_buffer m))))
    \<and> map (in_place c) (pcl_proc_next (meas m')) = filter (\<lambda>x. \<not> snd x < c * 1000) (scan_points (take k (zip (lid_raw_data_buffer m) (lid_header_time_buffer m))))
    \<and> measures (meas m') = [g] \<and> lio_time g = c \<and> update_time m < c \<and> last_lio_update_time (meas m') = update_time m
    \<and> mg_imu g = filter (\<lambda>i. update_time m < toSec (im_stamp i)) (upto_time c (imu_buffer m))
    \<and> upto_time c (imu_buffer m) @ imu_buffer m' = imu_buffer m
    \<and> (img_en m \<longrightarrow> mg_img g = Some (hd (img_buffer m)) \<and> img_buffer m' = tl (img_buffer m))"
proof -
  have "sync_livo m = Inr (True, m')" using assms(1,2) by (auto simp: SyncPackages_def split: if_splits)
  then obtain c' where c': "c' = c" "update_time m + 1 / 100000 \<le> c'" and g: "cut_group c' (updated m) = Inr m'"
    using assms(3) by (cases rule: sync_livo_cases) auto
  have u: "last_lio_update_time (meas (updated m)) = update_time m" "lid_raw_data_buffer (updated m) = lid_raw_data_buffer m"
    "lid_header_time_buffer (updated m) = lid_header_time_buffer m" "pcl_proc_next (meas (updated m)) = pcl_proc_next (meas m)"
    "imu_buffer (updated m) = imu_buffer m" "img_en (updated m) = img_en m" "img_buffer (updated m) = img_buffer m"
    by (simp_all add: updated_def)
  obtain raw times cur nxt img where s: "cut_scans c (update_time m) (lid_raw_data_buffer m) (lid_header_time_buffer m)
        (pcl_proc_next (meas m)) [] = Inr (raw, times, cur, nxt)"
    and img: "(if img_en m then bindR (front_of (img_buffer m)) (\<lambda>i. Inr (Some i)) else Inr None) = Inr img"
    and m': "m' = (updated m)\<lparr>imu_buffer := after_time c (imu_buffer m), lid_raw_data_buffer := raw, lid_header_time_buffer := times,
           img_buffer := (if img_en m then tl (img_buffer m) else img_buffer m),
           img_time_buffer := (if img_en m then tl (img_time_buffer m) else img_time_buffer m),
           meas := (meas (updated m))\<lparr>pcl_proc_cur := cur, pcl_proc_next := nxt,
             measures := [MeasureGroup\<lparr>lio_time := c, mg_img := img,
               mg_imu := filter (\<lambda>i. update_time m < toSec (im_stamp i)) (upto_time c (imu_buffer m))\<rparr>]\<rparr>\<rparr>"
    using g unfolding cut_group_def c'(1) u Let_def by (auto simp: bindR_eq_Inr updated_def)
  have i: "img_en m \<longrightarrow> img = Some (hd (img_buffer m))" using img by (auto simp: bindR_eq_Inr front_of_Inr)
  obtain k es where "k \<le> length (lid_raw_data_buffer m)" "raw = drop k (lid_raw_data_buffer m)" "times = drop k (lid_header_time_buffer m)"
    "\<forall>t \<in> set (take k (lid_header_time_buffer m)). t \<le> c" "cur = pcl_proc_next (meas m) @ es"
    "map (in_place (update_time m)) es = filter (\<lambda>x. snd x < c * 1000) (scan_points (take k (zip (lid_raw_data_buffer m) (lid_header_time_buffer m))))"
    "map (in_place c) nxt = filter (\<lambda>x. \<not> snd x < c * 1000) (scan_points (take k (zip (lid_raw_data_buffer m) (lid_header_time_buffer m))))"
    using cut_scans_spec[OF s] by auto
  then show ?thesis using c' i upto_after[of c "imu_buffer m"] unfolding m'
    by (intro exI[of _ k] exI[of _ es] exI[of _ "MeasureGroup\<lparr>lio_time := c, mg_img := img,
               mg_imu := filter (\<lambda>i. update_time m < toSec (im_stamp i)) (upto_time c (imu_buffer m))\<rparr>"]) (simp add: updated_def MeasureGroup_def)
qed

lemma livo_cut_witness:
  "\<exists>m'. SyncPackages (loaded LIVO still_pre) = Inr (True, m')
    \<and> map (in_place (21 / 20)) (pcl_proc_next (meas m')) = [in_place 1 (point_at 90)]"
proof -
  let ?m = "updated (loaded LIVO still_pre)"
  have u: "update_time (loaded LIVO still_pre) = 1" by (simp add: update_time_def loaded_def new_mapper_def LidarMeasureGroup_def)
  have f: "first_update (loaded LIVO still_pre) = Inr ?m"
    unfolding first_update_def updated_def u by (simp add: loaded_def new_mapper_def LidarMeasureGroup_def front_of_def)
  have n: "newest_point ?m = Inr (109 / 100)"
    by (simp add: newest_point_def updated_def loaded_def back_of_def point_at_def)
  have cs: "cut_scans (21 / 20) 1 [[point_at 10, point_at 90]] [1] [] [] = Inr ([], [], [shifted 0 (point_at 10)], [shifted (- 1 / 20) (point_at 90)])"
    by (simp add: early_def point_at_def)
  have y: "last_lio_update_time (meas ?m) = 1" "lid_raw_data_buffer ?m = [[point_at 10, point_at 90]]" "lid_header_time_buffer ?m = [1]"
    "pcl_proc_next (meas ?m) = []" "img_en ?m" "img_buffer ?m = [7]"
    unfolding updated_def u by (simp_all add: loaded_def new_mapper_def LidarMeasureGroup_def)
  have "\<exists>m'. cut_group (21 / 20) ?m = Inr m' \<and> lid_raw_data_buffer m' = []"
    unfolding cut_group_def Let_def y cs by (simp add: front_of_def)
  then obtain m' where g: "cut_group (21 / 20) ?m = Inr m'" "lid_raw_data_buffer m' = []" by blast
  have x: "img_time_buffer (loaded LIVO still_pre) = [21 / 20]" "exposure_time_init ?m = 0" "last_lio_update_time (meas ?m) = 1"
    "imu_buffer ?m = [sample_at 1040000000, sample_at 1200000000]" "slam_mode (loaded LIVO still_pre) = LIVO" "lid_raw_data_buffer (loaded LIVO still_pre) \<noteq> []"
    "img_buffer (loaded LIVO still_pre) \<noteq> []" "imu_buffer (loaded LIVO still_pre) \<noteq> []"
    unfolding updated_def u by (simp_all add: loaded_def new_mapper_def)
  have m': "SyncPackages (loaded LIVO still_pre) = Inr (True, m')" "lid_raw_data_buffer m' = []"
    using g f n x by (simp_all add: SyncPackages_def sync_livo_def front_of_def back_of_def sample_at_def toSec_def)
  have z: "21 / 20 = hd (img_time_buffer (loaded LIVO still_pre)) + exposure_time_init (loaded LIVO still_pre)"
    "lid_raw_data_buffer (loaded LIVO still_pre) = [[point_at 10, point_at 90]]" "lid_header_time_buffer (loaded LIVO still_pre) = [1]"
    by (simp_all add: loaded_def new_mapper_def)
  obtain k where k: "lid_raw_data_buffer m' = drop k (lid_raw_data_buffer (loaded LIVO still_pre))"
    and p: "map (in_place (21 / 20)) (pcl_proc_next (meas m')) = filter (\<lambda>x. \<not> snd x < 21 / 20 * 1000)
      (scan_points (take k (zip (lid_raw_data_buffer (loaded LIVO still_pre)) (lid_header_time_buffer (loaded LIVO still_pre)))))"
    using livo_cut[OF m'(1) x(5) z(1)] by blast
  have "1 \<le> k" using k m'(2) z(2) by (cases k) simp_all
  then have "map (in_place (21 / 20)) (pcl_proc_next (meas m')) = [in_place 1 (point_at 90)]"
    unfolding p z(2,3) by (simp add: scan_points_def in_place_def abs_time_def point_at_def)
  with m'(1) show ?thesis by (intro exI[of _ m'] conjI)
qed

text \<open>
  lio_group: without a camera, a group is one scan with the samples up to its
  end: the samples delivered and those left are the buffer, cut at that time; a
  scan not yet at hand is the front one, from its header time to its last point;
  one scan and one header time leave their buffers.
\<close>

theorem lio_group:
  assumes "SyncPackages m = Inr (True, m')" "slam_mode m = ONLY_LIO" "buffers_ok m"
  shows "\<exists>g. measures (meas m') = measures (meas m) @ [g] \<and> mg_imu g @ imu_buffer m' = imu_buffer m
    \<and> (\<forall>i \<in> set (mg_imu g). toSec (im_stamp i) \<le> lio_time g) \<and> (\<forall>i \<in> set (imu_buffer m'). lio_time g < toSec (im_stamp i))
    \<and> lio_time g = lidar_frame_end_time (meas m') \<and> lio_time g \<le> last_timestamp_imu m
    \<and> lid_raw_data_buffer m' = tl (lid_raw_data_buffer m) \<and> lid_header_time_buffer m' = tl (lid_header_time_buffer m) \<and> \<not> lidar_pushed m'
    \<and> (\<not> lidar_pushed m \<longrightarrow> pcl_proc_cur (meas m') = hd (lid_raw_data_buffer m) \<and> 1 < length (pcl_proc_cur (meas m'))
        \<and> lio_time g = hd (lid_header_time_buffer m) + curvature (last (pcl_proc_cur (meas m'))) / 1000)"
proof -
  have "sync_lio m = Inr (True, m')" using assms(1,2) by (auto simp: SyncPackages_def split: if_splits)
  then show ?thesis
  proof (cases rule: sync_lio_cases)
    case (group m2)
    let ?e = "lidar_frame_end_time (meas m2)"
    have s: "sorted (map im_stamp (imu_buffer m))" using assms(3) by (simp add: buffers_ok_def)
    have f: "imu_buffer m2 = imu_buffer m" "measures (meas m2) = measures (meas m)" "last_timestamp_imu m2 = last_timestamp_imu m"
      "lid_raw_data_buffer m2 = lid_raw_data_buffer m" "lid_header_time_buffer m2 = lid_header_time_buffer m"
      "\<not> lidar_pushed m \<longrightarrow> pcl_proc_cur (meas m2) = hd (lid_raw_data_buffer m) \<and> 1 < length (hd (lid_raw_data_buffer m))
        \<and> ?e = hd (lid_header_time_buffer m) + curvature (last (hd (lid_raw_data_buffer m))) / 1000"
      using group(2) by (cases rule: push_lidar_cases; simp add: updated_def)+
    show ?thesis
      by (rule exI[of _ "MeasureGroup\<lparr>lio_time := ?e, mg_imu := upto_time ?e (imu_buffer m)\<rparr>"])
        (use group(3,6) f upto_after[of ?e "imu_buffer m"] upto_time_le after_time_gt[OF s] in \<open>simp add: MeasureGroup_def\<close>)
  qed simp
qed

lemma lio_group_witness:
  "\<exists>m' g. SyncPackages (loaded ONLY_LIO still_pre) = Inr (True, m') \<and> measures (meas m') = [g] \<and> mg_imu g @ imu_buffer m' = [sample_at 1040000000, sample_at 1200000000]"
proof -
  let ?m1 = "snd (projr (SyncPackages (loaded ONLY_LIO still_pre)))"
  have s: "SyncPackages (loaded ONLY_LIO still_pre) = Inr (True, ?m1)"
    by (simp add: SyncPackages_def loaded_def new_mapper_def sync_lio_def first_update_def push_lidar_def front_of_def pop_front_def
      LidarMeasureGroup_def point_at_def Let_def)
  have b: "buffers_ok (loaded ONLY_LIO still_pre)" "slam_mode (loaded ONLY_LIO still_pre) = ONLY_LIO" "measures (meas (loaded ONLY_LIO still_pre)) = []"
    "imu_buffer (loaded ONLY_LIO still_pre) = [sample_at 1040000000, sample_at 1200000000]"
    by (simp_all add: buffers_ok_def loaded_def new_mapper_def sample_at_def toSec_def LidarMeasureGroup_def)
  obtain g where "measures (meas ?m1) = [] @ [g]" "mg_imu g @ imu_buffer ?m1 = [sample_at 1040000000, sample_at 1200000000]"
    using lio_group[OF s b(2,1)] unfolding b(3,4) by blast
  then show ?thesis using s by (intro exI[of _ ?m1] exI[of _ g]) simp
qed

section \<open>Where scans and times part\<close>

text \<open>
  C40 loop_back_desync: when the lidar's stamp runs backwards both callbacks, the one
  of the standard clouds and the one of the Livox clouds, clear the scans but not
  their header times: the new scan is then alone behind the times of scans
  that are gone, and is processed as if it had begun at the first of them.  (The
  Livox callback does not store an empty cloud; the other one does.)
\<close>

theorem loop_back_desync:
  assumes "PointCloud2Cbk E st qs m = Inr m' \<or> (LivoxCbk E st k ps m = Inr m' \<and> lid_raw_data_buffer m' \<noteq> [])"
    "lidar_en m" "toSec st < last_timestamp_lidar m" "aligned m" "lid_raw_data_buffer m \<noteq> []"
  shows "\<exists>pl. lid_raw_data_buffer m' = [pl] \<and> lid_header_time_buffer m' = lid_header_time_buffer m @ [toSec st] \<and> \<not> aligned m'
    \<and> (\<forall>m2. \<not> lidar_pushed m \<longrightarrow> push_lidar m' = Inr (True, m2) \<longrightarrow> mg_lidar (meas m2) = pl
        \<and> lidar_frame_beg_time (meas m2) = hd (lid_header_time_buffer m))"
proof -
  let ?m1 = "m\<lparr>lid_raw_data_buffer := []\<rparr>"
  have lb: "loop_back (toSec st) m = ?m1" using assms(3) by (simp add: loop_back_def)
  have "\<exists>pl s. trim_scans (push_scan (toSec st) pl (?m1\<lparr>pre := s\<rparr>)) = Inr m'"
    using assms(1)
  proof
    assume "PointCloud2Cbk E st qs m = Inr m'"
    then show ?thesis using assms(2) lb by (auto simp: PointCloud2Cbk_def Let_def bindR_eq_Inr)
  next
    assume l: "LivoxCbk E st k ps m = Inr m' \<and> lid_raw_data_buffer m' \<noteq> []"
    from l[THEN conjunct1] show ?thesis
    proof (cases rule: LivoxCbk_cases)
      case (empty s) then show ?thesis using l lb by simp
    next
      case (scan pl s) then show ?thesis using lb by metis
    qed (use assms(2) in simp)
  qed
  then obtain pl s where "trim_scans (push_scan (toSec st) pl (?m1\<lparr>pre := s\<rparr>)) = Inr m'" by blast
  moreover have "trim_scans (push_scan (toSec st) pl (?m1\<lparr>pre := s\<rparr>)) = Inr (push_scan (toSec st) pl (?m1\<lparr>pre := s\<rparr>))"
    by (cases "first_frame_finished m") (simp_all add: trim_scans_def push_scan_def Let_def)
  ultimately have m': "m' = push_scan (toSec st) pl (?m1\<lparr>pre := s\<rparr>)" by simp
  have h: "lid_header_time_buffer m \<noteq> []" using assms(4,5) by (auto simp: aligned_def)
  show ?thesis
  proof (intro exI[of _ pl] conjI allI impI)
    show "lid_raw_data_buffer m' = [pl]" "lid_header_time_buffer m' = lid_header_time_buffer m @ [toSec st]" by (simp_all add: m' push_scan_def)
    show "\<not> aligned m'" using h by (simp add: m' push_scan_def aligned_def)
    fix m2 assume "\<not> lidar_pushed m" "push_lidar m' = Inr (True, m2)"
    from this(2) this(1) show "mg_lidar (meas m2) = pl" "lidar_frame_beg_time (meas m2) = hd (lid_header_time_buffer m)"
      by (cases rule: push_lidar_cases; use h in \<open>simp add: m' push_scan_def\<close>)+
  qed
qed

lemma loop_back_desync_witness:
  "(\<exists>m' pl. LivoxCbk \<lparr>se_numeric = diagonal_solver, se_junk = (\<lambda>i. 0), se_atan2 = (\<lambda>y x. 0), se_sort = id\<rparr> 500000000 1
      [\<lparr>av_offset = 0, av_x = 1, av_y = 0, av_z = 0, av_reflectivity = 9, av_tag = 0, av_line = 0\<rparr>] (loaded ONLY_LIO (Preprocess (\<lambda>x. x) 3 1 0)) = Inr m'
    \<and> lid_raw_data_buffer m' = [pl] \<and> lid_header_time_buffer m' = [1, 1 / 2])
   \<and> (\<exists>m' pl. PointCloud2Cbk \<lparr>se_numeric = diagonal_solver, se_junk = (\<lambda>i. 0), se_atan2 = (\<lambda>y x. 0), se_sort = id\<rparr> 500000000
      [\<lparr>raw_x = 1, raw_y = 0, raw_z = 0, raw_intensity = 9, raw_rgb = (0, 0, 0), raw_time = 0, raw_ring = 0\<rparr>]
      (loaded ONLY_LIO ((Preprocess (\<lambda>x. x) 3 1 0)\<lparr>lidar_model := L515\<rparr>)) = Inr m'
    \<and> lid_raw_data_buffer m' = [pl] \<and> lid_header_time_buffer m' = [1, 1 / 2])"
proof (intro conjI)
  let ?s = "Preprocess (\<lambda>x. x) 3 1 0" and ?q = "\<lparr>av_offset = 0, av_x = 1, av_y = 0, av_z = 0, av_reflectivity = 9, av_tag = 0, av_line = 0\<rparr>"
  let ?E = "\<lparr>se_numeric = diagonal_solver, se_junk = (\<lambda>i. 0), se_atan2 = (\<lambda>y x. 0), se_sort = id\<rparr>" and ?m = "loaded ONLY_LIO ?s"
  let ?s5 = "?s\<lparr>lidar_model := L515\<rparr>" and ?c = "\<lparr>raw_x = 1, raw_y = 0, raw_z = 0, raw_intensity = 9, raw_rgb = (0, 0, 0), raw_time = 0, raw_ring = 0\<rparr>"
  have t: "toSec 500000000 = 1 / 2" by (simp add: toSec_def)
  have f: "lidar_en (loaded ONLY_LIO p)" "last_timestamp_lidar (loaded ONLY_LIO p) = 1" "aligned (loaded ONLY_LIO p)"
    "lid_raw_data_buffer (loaded ONLY_LIO p) \<noteq> []" "lid_header_time_buffer (loaded ONLY_LIO p) = [1]" "pre (loaded ONLY_LIO p) = p"
    "pre ((loaded ONLY_LIO p)\<lparr>lid_raw_data_buffer := []\<rparr>) = p" for p
    by (simp_all add: loaded_def new_mapper_def aligned_def)
  {
    have "\<exists>s'. AviaHandler diagonal_solver (\<lambda>i. 0) 1 [?q] ?s = Inr s' \<and> pl_surf s' \<noteq> []"
      by (simp add: AviaHandler_def Preprocess_def clear_buffers_def clear_clouds_def on_line_def avia_pcl_def Let_def blank_point_def range_sqr_def)
    then obtain s' where s': "AviaHandler diagonal_solver (\<lambda>i. 0) 1 [?q] ?s = Inr s'" "pl_surf s' \<noteq> []" by blast
    have "\<exists>m'. LivoxCbk ?E 500000000 1 [?q] ?m = Inr m' \<and> lid_raw_data_buffer m' \<noteq> []"
      using s' f t by (simp add: LivoxCbk_def loop_back_def Process_livox_def Let_def trim_scans_def push_scan_def)
    then obtain m' where m': "LivoxCbk ?E 500000000 1 [?q] ?m = Inr m'" "lid_raw_data_buffer m' \<noteq> []" by blast
    obtain pl where "lid_raw_data_buffer m' = [pl]" "lid_header_time_buffer m' = lid_header_time_buffer ?m @ [toSec 500000000]"
      using loop_back_desync[OF disjI2[OF conjI[OF m']] f(1) _ f(3,4)] f(2) t by auto
    then show "\<exists>m' pl. LivoxCbk ?E 500000000 1 [?q] ?m = Inr m' \<and> lid_raw_data_buffer m' = [pl] \<and> lid_header_time_buffer m' = [1, 1 / 2]"
      using m'(1) f(5) t by auto
  }
  {
    have l: "lidar_model ?s5 = L515" by simp
    have "\<exists>s'. L515Handler [?c] ?s5 = Inr s'"
      by (simp add: L515Handler_def thinned_def Preprocess_def)
    then obtain s' where s': "L515Handler [?c] ?s5 = Inr s'" by blast
    have p: "Process_cloud diagonal_solver (\<lambda>i. 0) (\<lambda>y x. 0) id [?c] ?s5 = Inr (pl_surf s', s')"
      unfolding Process_cloud_def l using s' by simp
    have "\<exists>m'. PointCloud2Cbk ?E 500000000 [?c] (loaded ONLY_LIO ?s5) = Inr m'"
      using p f t by (simp add: PointCloud2Cbk_def loop_back_def Let_def trim_scans_def push_scan_def)
    then obtain m' where m': "PointCloud2Cbk ?E 500000000 [?c] (loaded ONLY_LIO ?s5) = Inr m'" by blast
    obtain pl where "lid_raw_data_buffer m' = [pl]" "lid_header_time_buffer m' = lid_header_time_buffer (loaded ONLY_LIO ?s5 :: nat mapper) @ [toSec 500000000]"
      using loop_back_desync[OF disjI1[OF m'] f(1) _ f(3,4)] f(2) t by auto
    then show "\<exists>m' pl. PointCloud2Cbk ?E 500000000 [?c] (loaded ONLY_LIO ?s5) = Inr m' \<and> lid_raw_data_buffer m' = [pl] \<and> lid_header_time_buffer m' = [1, 1 / 2]"
      using m' f(5) t by auto
  }
qed

text \<open>A scan of at most one point at the front, before the first group.\<close>

definition blocked :: "pcl_point list \<Rightarrow> 'i mapper \<Rightarrow> bool" where
  "blocked pl m = (slam_mode m = ONLY_LIO \<and> \<not> first_frame_finished m \<and> \<not> lidar_pushed m \<and> length pl \<le> 1
     \<and> lid_raw_data_buffer m \<noteq> [] \<and> hd (lid_raw_data_buffer m) = pl)"

lemma blocked_sync: "blocked pl m \<Longrightarrow> SyncPackages m = Inr (go, m') \<Longrightarrow> \<not> go \<and> blocked pl m'"
proof -
  assume b: "blocked pl m" and s: "SyncPackages m = Inr (go, m')"
  have u: "push_lidar (updated m) = Inr (ok, m2) \<Longrightarrow> \<not> ok \<and> blocked pl m2" for ok m2
  proof -
    assume p: "push_lidar (updated m) = Inr (ok, m2)"
    have f: "lidar_pushed (updated m) = lidar_pushed m" "lid_raw_data_buffer (updated m) = lid_raw_data_buffer m" "blocked pl (updated m)"
      using b by (simp_all add: blocked_def updated_def)
    have k: "blocked pl (n\<lparr>meas := v\<rparr>) = blocked pl n" for n :: "'a mapper" and v by (simp add: blocked_def)
    have h: "\<not> lidar_pushed m" "length (hd (lid_raw_data_buffer m)) \<le> 1" using b by (auto simp: blocked_def)
    from p show ?thesis
    proof (cases rule: push_lidar_cases)
      case tiny show ?thesis using tiny(2) f(3) unfolding tiny(5) k by simp
    qed (use f h in simp_all)
  qed
  have mode: "slam_mode m = ONLY_LIO" using b by (simp add: blocked_def)
  have "(\<not> go \<and> m' = m) \<or> sync_lio m = Inr (go, m')"
    using s unfolding SyncPackages_def mode by (auto split: if_split_asm)
  then consider "\<not> go" "m' = m" | "sync_lio m = Inr (go, m')" by blast
  then show ?thesis
  proof cases
    case 2 then show ?thesis by (cases rule: sync_lio_cases) (use u in blast)+
  qed (use b in simp)
qed

lemma blocked_scans:
  "blocked pl m \<Longrightarrow> blocked pl (m\<lparr>pre := s\<rparr>)" "blocked pl m \<Longrightarrow> blocked pl (push_scan t qs m)"
  "blocked pl m \<Longrightarrow> trim_scans m = Inr m' \<Longrightarrow> blocked pl m'" "last_timestamp_lidar m \<le> t \<Longrightarrow> loop_back t m = m"
  by (auto simp: blocked_def push_scan_def trim_scans_def loop_back_def split: if_splits)

lemma blocked_sample:
  assumes "blocked pl m" "ImuCbk i m = Inr m'"
  shows "blocked pl m'"
proof -
  have p: "blocked pl n \<Longrightarrow> blocked pl (push_imu t j n)" "blocked pl n \<Longrightarrow> blocked pl (latch t n)" for n :: "'a mapper" and t j
  proof -
    have f: "lid_raw_data_buffer (push_imu t j n) = lid_raw_data_buffer n \<and> slam_mode (push_imu t j n) = slam_mode n
        \<and> first_frame_finished (push_imu t j n) = first_frame_finished n \<and> lidar_pushed (push_imu t j n) = lidar_pushed n"
      "lid_raw_data_buffer (latch t n) = lid_raw_data_buffer n \<and> slam_mode (latch t n) = slam_mode n
        \<and> first_frame_finished (latch t n) = first_frame_finished n \<and> lidar_pushed (latch t n) = lidar_pushed n"
      by (simp_all add: push_imu_def latch_def Let_def)
    show "blocked pl n \<Longrightarrow> blocked pl (push_imu t j n)" "blocked pl n \<Longrightarrow> blocked pl (latch t n)"
      unfolding blocked_def using f by simp_all
  qed
  show ?thesis using assms(2)
  proof (cases rule: ImuCbk_cases)
    case (push t n m1 u)
    have "blocked pl m1" using push(1) assms(1) p(2)[OF assms(1)] by (elim disjE) simp_all
    then show ?thesis unfolding push(3) by (rule p(1))
  next
    case (latching t) show ?thesis unfolding latching by (rule p(2)[OF assms(1)])
  qed (use assms(1) in simp)
qed

lemma blocked_image: "blocked pl m \<Longrightarrow> ImageCbk conv st msg m = Inr m' \<Longrightarrow> blocked pl m'"
  by (erule ImageCbk_cases) (simp_all add: blocked_def)

lemma blocked_stored:
  assumes "blocked pl m" "last_timestamp_lidar m \<le> t" "trim_scans (push_scan t qs ((loop_back t m)\<lparr>pre := s\<rparr>)) = Inr m'"
  shows "blocked pl m'"
  using assms(3) unfolding blocked_scans(4)[OF assms(2)]
  by (rule blocked_scans(3)[OF blocked_scans(2)[OF blocked_scans(1)[OF assms(1)]]])

text \<open>
  C30 tiny_scan_blocks: while the first frame is not finished, a scan of at most one
  point at the front is never left behind: SyncPackages returns without popping
  it, and whatever arrives later, as long as the lidar's stamps never run
  backwards, no group is ever made.  (After the first frame the cap of a hundred
  scans pushes such a scan out.)
\<close>

theorem tiny_scan_blocks:
  assumes "(mapper_step E conv est True)\<^sup>*\<^sup>* m m'" "blocked pl m"
  shows "blocked pl m' \<and> (\<forall>go m2. SyncPackages m' = Inr (go, m2) \<longrightarrow> \<not> go)"
proof -
  have "blocked pl m'"
    using assms
  proof (induction rule: rtranclp_induct)
    case (step k k')
    then have k: "blocked pl k" by simp
    show ?case using step.hyps(2)
    proof (cases rule: mapper_step.cases)
      case (scan st qs)
      have l: "last_timestamp_lidar k \<le> toSec st" using scan(2) by simp
      from scan(1) show ?thesis by (cases rule: PointCloud2Cbk_cases) (use k in simp, rule blocked_stored[OF k l])
    next
      case (livox st n ps)
      have l: "last_timestamp_lidar k \<le> toSec st" using livox(2) by simp
      from livox(1) show ?thesis
      proof (cases rule: LivoxCbk_cases)
        case (empty s) show ?thesis unfolding empty blocked_scans(4)[OF l] by (rule blocked_scans(1)[OF k])
      next
        case (scan pl s) show ?thesis by (rule blocked_stored[OF k l scan(2)])
      qed (use k in simp)
    next
      case (sample i) show ?thesis by (rule blocked_sample[OF k sample])
    next
      case (image st msg) show ?thesis by (rule blocked_image[OF k image])
    next
      case idle show ?thesis using blocked_sync[OF k idle] by simp
    next
      case (process m1) show ?thesis using blocked_sync[OF k process(1)] by simp
    qed
  qed
  then show ?thesis using blocked_sync by blast
qed

lemma tiny_scan_blocks_witness:
  "\<exists>m2. SyncPackages ((loaded ONLY_LIO still_pre)\<lparr>lid_raw_data_buffer := [[point_at 10]]\<rparr>) = Inr (False, m2)"
proof -
  let ?m = "(loaded ONLY_LIO still_pre)\<lparr>lid_raw_data_buffer := [[point_at 10]]\<rparr>"
  have "\<exists>go m2. SyncPackages ?m = Inr (go, m2)"
    by (simp add: SyncPackages_def loaded_def new_mapper_def sync_lio_def first_update_def push_lidar_def front_of_def LidarMeasureGroup_def Let_def, rule exI[of _ False], simp)
  then obtain go m2 where m: "SyncPackages ?m = Inr (go, m2)" by blast
  have "\<not> go"
    using m tiny_scan_blocks[of "\<lparr>se_numeric = diagonal_solver, se_junk = (\<lambda>i. 0), se_atan2 = (\<lambda>y x. 0), se_sort = id\<rparr>" "\<lambda>x :: nat. Inr x" "\<lambda>m m'. False"
      ?m ?m "[point_at 10]"]
    by (auto simp: blocked_def loaded_def new_mapper_def)
  then show ?thesis using m by auto
qed

end
