(* ===== verification/Imu_Processing.thy ===== *)
theory Imu_Processing
  imports Mapper_Sync
begin

text \<open>
  The inertial processing (edge/src/FAST-LIVO2/src/IMU_Processing.cpp): the
  estimate of gravity at rest, the propagation of the state and its covariance
  over the samples of a group, and the correction of the points for the motion
  during the scan.  Rationals are exact; a division by a norm of zero, from which
  the code goes on with infinities, is an error.
\<close>

section \<open>The state\<close>

record imu_process =
  imu_mean_acc_norm :: rat
  cov_acc :: vec
  cov_gyr :: vec
  cov_bias_gyr :: vec
  cov_bias_acc :: vec
  cov_inv_expo :: rat
  imu_time_init :: bool
  need_init :: bool
  last_imu :: imu
  imu_pose :: "pose6d list"
  lidar_rot_to_imu :: mat3
  lidar_offset_to_imu :: vec
  mean_acc :: vec
  mean_gyr :: vec
  angvel_last :: vec
  acc_s_last :: vec
  last_prop_end_time :: rat
  init_iter_num :: int
  max_ini_count :: int
  b_first_frame :: bool
  gravity_est_en :: bool
  ba_bg_est_en :: bool
  exposure_estimate_en :: bool

definition Imu :: imu where
  "Imu = \<lparr>im_stamp = 0, im_acc = (0, 0, 0), im_gyr = (0, 0, 0)\<rparr>"

text \<open>The constructor leaves the mean norm and the end of the last propagation unset.\<close>

definition ImuProcess :: "rat \<Rightarrow> rat \<Rightarrow> imu_process" where
  "ImuProcess unset_norm unset_end = \<lparr>imu_mean_acc_norm = unset_norm, cov_acc = (1 / 10, 1 / 10, 1 / 10), cov_gyr = (1 / 10, 1 / 10, 1 / 10),
     cov_bias_gyr = (1 / 10, 1 / 10, 1 / 10), cov_bias_acc = (1 / 10, 1 / 10, 1 / 10), cov_inv_expo = 2 / 10, imu_time_init = False,
     need_init = True, last_imu = Imu, imu_pose = [], lidar_rot_to_imu = m3_id, lidar_offset_to_imu = (0, 0, 0), mean_acc = (0, 0, - 1),
     mean_gyr = (0, 0, 0), angvel_last = (0, 0, 0), acc_s_last = (0, 0, 0), last_prop_end_time = unset_end, init_iter_num = 1,
     max_ini_count = 20, b_first_frame = True, gravity_est_en = True, ba_bg_est_en = True, exposure_estimate_en = True\<rparr>"

definition ImuProcess_Reset :: "imu_process \<Rightarrow> imu_process" where
  "ImuProcess_Reset p = p\<lparr>mean_acc := (0, 0, - 1), mean_gyr := (0, 0, 0), angvel_last := (0, 0, 0), need_init := True, init_iter_num := 1,
     imu_pose := [], last_imu := Imu\<rparr>"

definition DisableGravityEst :: "imu_process \<Rightarrow> imu_process" where
  "DisableGravityEst p = p\<lparr>gravity_est_en := False\<rparr>"

definition DisableBiasEst :: "imu_process \<Rightarrow> imu_process" where
  "DisableBiasEst p = p\<lparr>ba_bg_est_en := False\<rparr>"

definition DisableExposureEst :: "imu_process \<Rightarrow> imu_process" where
  "DisableExposureEst p = p\<lparr>exposure_estimate_en := False\<rparr>"

definition SetExtrinsic :: "vec \<Rightarrow> mat3 \<Rightarrow> imu_process \<Rightarrow> imu_process" where
  "SetExtrinsic transl rot p = p\<lparr>lidar_offset_to_imu := transl, lidar_rot_to_imu := rot\<rparr>"

definition SetExtrinsic_transl :: "vec \<Rightarrow> imu_process \<Rightarrow> imu_process" where
  "SetExtrinsic_transl transl p = p\<lparr>lidar_offset_to_imu := transl, lidar_rot_to_imu := m3_id\<rparr>"

definition SetGyrCovScale :: "vec \<Rightarrow> imu_process \<Rightarrow> imu_process" where
  "SetGyrCovScale v p = p\<lparr>cov_gyr := v\<rparr>"

definition SetAccCovScale :: "vec \<Rightarrow> imu_process \<Rightarrow> imu_process" where
  "SetAccCovScale v p = p\<lparr>cov_acc := v\<rparr>"

definition SetGyrBiasCov :: "vec \<Rightarrow> imu_process \<Rightarrow> imu_process" where
  "SetGyrBiasCov v p = p\<lparr>cov_bias_gyr := v\<rparr>"

definition SetAccBiasCov :: "vec \<Rightarrow> imu_process \<Rightarrow> imu_process" where
  "SetAccBiasCov v p = p\<lparr>cov_bias_acc := v\<rparr>"

definition SetInvExpoCov :: "rat \<Rightarrow> imu_process \<Rightarrow> imu_process" where
  "SetInvExpoCov x p = p\<lparr>cov_inv_expo := x\<rparr>"

definition SetImuInitFrameNum :: "int \<Rightarrow> imu_process \<Rightarrow> imu_process" where
  "SetImuInitFrameNum n p = p\<lparr>max_ini_count := n\<rparr>"

definition G_m_s2 :: rat where "G_m_s2 = 981 / 100"

section \<open>Initialisation\<close>

text \<open>A sample joins the running means.\<close>

definition mean_step :: "imu \<Rightarrow> imu_process \<Rightarrow> imu_process" where
  "mean_step i p = (let w = 1 / of_int (init_iter_num p) in
     p\<lparr>mean_acc := vadd (mean_acc p) (vscale w (vsub (im_acc i) (mean_acc p))),
       mean_gyr := vadd (mean_gyr p) (vscale w (vsub (im_gyr i) (mean_gyr p))), init_iter_num := init_iter_num p + 1\<rparr>)"

definition first_means :: "imu list \<Rightarrow> imu_process \<Rightarrow> imu_process" where
  "first_means is p = (if b_first_frame p
     then (ImuProcess_Reset p)\<lparr>b_first_frame := False, mean_acc := im_acc (hd is), mean_gyr := im_gyr (hd is)\<rparr> else p)"

definition ImuInit :: "libm \<Rightarrow> imu list \<Rightarrow> states_group \<Rightarrow> imu_process \<Rightarrow> (states_group \<times> imu_process) res" where
  "ImuInit L is s p = (let p1 = fold mean_step is (first_means is p); n = norm3 L (mean_acc p1) in
     if n = 0 then Inl DivByZero
     else Inr (s\<lparr>gravity := vscale (- (1 / n * G_m_s2)) (mean_acc p1), rot_end := m3_id, bias_g := (0, 0, 0)\<rparr>,
       p1\<lparr>imu_mean_acc_norm := n\<rparr>))"

section \<open>Propagation\<close>

definition set_block :: "nat \<Rightarrow> nat \<Rightarrow> mat \<Rightarrow> mat \<Rightarrow> mat" where
  "set_block r c B M = map (\<lambda>i. map (\<lambda>j. if r \<le> i \<and> i < r + length B \<and> c \<le> j \<and> j < c + length (hd B) then B ! (i - r) ! (j - c)
     else M ! i ! j) [0..<length (M ! i)]) [0..<length M]"

text \<open>The Jacobian and the noise of a step; the attitude is that before the step.\<close>

definition step_jacobian :: "libm \<Rightarrow> imu_process \<Rightarrow> mat3 \<Rightarrow> vec \<Rightarrow> vec \<Rightarrow> rat \<Rightarrow> mat" where
  "step_jacobian L p R ang acc dt = (let I = m3_rows (m3_scale dt m3_id); n = m3_scale (- 1) R;
       F0 = set_block 0 0 (m3_rows (Exp_dt L ang (- dt))) (diagonal 19 (\<lambda>i. 1));
       F1 = (if ba_bg_est_en p then set_block 0 10 (m3_rows (m3_scale (- dt) m3_id)) F0 else F0);
       F2 = set_block 7 0 (m3_rows (m3_scale dt (m3_mul n (skew acc)))) (set_block 3 7 I F1);
       F3 = (if ba_bg_est_en p then set_block 7 13 (m3_rows (m3_scale dt n)) F2 else F2) in
     if gravity_est_en p then set_block 7 16 I F3 else F3)"

definition diag3 :: "vec \<Rightarrow> mat3" where
  "diag3 v = (case v of (x, y, z) \<Rightarrow> ((x, 0, 0), (0, y, 0), (0, 0, z)))"

definition step_noise :: "imu_process \<Rightarrow> mat3 \<Rightarrow> rat \<Rightarrow> mat" where
  "step_noise p R dt = (let d = (\<lambda>v. m3_rows (diag3 (vscale (dt * dt) v)));
       W0 = (if exposure_estimate_en p then set_block 6 6 [[cov_inv_expo p * dt * dt]] (zeros 19) else zeros 19) in
     set_block 13 13 (d (cov_bias_acc p)) (set_block 10 10 (d (cov_bias_gyr p))
       (set_block 7 7 (m3_rows (m3_scale (dt * dt) (m3_mul (m3_mul R (diag3 (cov_acc p))) (m3_T R)))) (set_block 0 0 (d (cov_gyr p)) W0))))"

text \<open>The time of a step and the time at its end since the beginning; last says whether it is the last one.\<close>

definition step_time :: "rat \<Rightarrow> rat \<Rightarrow> bool \<Rightarrow> imu \<Rightarrow> imu \<Rightarrow> rat \<times> rat" where
  "step_time beg end_t is_last h t =
     (if toSec (im_stamp h) < beg then (toSec (im_stamp t) - beg, toSec (im_stamp t) - beg)
      else if \<not> is_last then (toSec (im_stamp t) - toSec (im_stamp h), toSec (im_stamp t) - beg)
      else (end_t - toSec (im_stamp h), end_t - beg))"

record propagation =
  pr_rot :: mat3
  pr_vel :: vec
  pr_pos :: vec
  pr_cov :: mat
  pr_acc :: vec
  pr_ang :: vec
  pr_poses :: "pose6d list"
  pr_all :: rat

definition prop_step :: "libm \<Rightarrow> imu_process \<Rightarrow> states_group \<Rightarrow> imu \<Rightarrow> imu \<Rightarrow> rat \<times> rat \<Rightarrow> propagation \<Rightarrow> propagation res" where
  "prop_step L p s h t ts v = (case ts of (dt, offs) \<Rightarrow> let n = norm3 L (mean_acc p) in
     if n = 0 then Inl DivByZero
     else let ang = vsub (vscale (1 / 2) (vadd (im_gyr h) (im_gyr t))) (bias_g s);
       acc = vsub (vscale (G_m_s2 / n) (vscale (1 / 2) (vadd (im_acc h) (im_acc t)))) (bias_a s);
       F = step_jacobian L p (pr_rot v) ang acc dt;
       cov' = mat_add (mat_mul (mat_mul F (pr_cov v)) (transpose F)) (step_noise p (pr_rot v) dt);
       R = m3_mul (pr_rot v) (Exp_dt L ang dt);
       a = vadd (m3_vec R acc) (gravity s);
       pos' = vadd (vadd (pr_pos v) (vscale dt (pr_vel v))) (vscale (1 / 2 * dt * dt) a);
       vel' = vadd (pr_vel v) (vscale dt a) in
     Inr \<lparr>pr_rot = R, pr_vel = vel', pr_pos = pos', pr_cov = cov', pr_acc = a, pr_ang = ang,
       pr_poses = pr_poses v @ [set_pose6d offs a ang vel' pos' R], pr_all = pr_all v + dt\<rparr>)"

text \<open>The loop over neighbouring samples; those that end before the beginning are left out.\<close>

fun prop_loop :: "libm \<Rightarrow> imu_process \<Rightarrow> states_group \<Rightarrow> rat \<Rightarrow> rat \<Rightarrow> imu list \<Rightarrow> propagation \<Rightarrow> propagation res" where
  "prop_loop L p s beg end_t [] v = Inr v"
| "prop_loop L p s beg end_t [h] v = Inr v"
| "prop_loop L p s beg end_t (h # t # is) v = (if toSec (im_stamp t) < beg then prop_loop L p s beg end_t (t # is) v
     else bindR (prop_step L p s h t (step_time beg end_t (is = []) h t) v) (prop_loop L p s beg end_t (t # is)))"

section \<open>Correction of the points\<close>

text \<open>A point seen from a pose within the scan, moved to the end of the scan.\<close>

definition compensate :: "libm \<Rightarrow> imu_process \<Rightarrow> states_group \<Rightarrow> pose6d \<Rightarrow> pcl_point \<Rightarrow> pcl_point" where
  "compensate L p s h q = (let dt = curvature q / 1000 - offset_time h; Rl = lidar_rot_to_imu p; ol = lidar_offset_to_imu p;
       R = m3_mul (pose_rot h) (Exp_dt L (pose_gyr h) dt);
       T = vsub (vadd (vadd (pose_pos h) (vscale dt (pose_vel h))) (vscale (1 / 2 * dt * dt) (pose_acc h))) (pos_end s);
       e = m3_mul (m3_T Rl) (m3_T (rot_end s));
       w = vsub (m3_vec e (vadd (m3_vec R (vadd (m3_vec Rl (pos q)) ol)) T)) (m3_vec (m3_T Rl) ol) in
     case w of (x, y, z) \<Rightarrow> q\<lparr>p_x := x, p_y := y, p_z := z\<rparr>)"

text \<open>From the k-th point downwards, as long as the points are later than the pose.\<close>

fun comp_run :: "(pcl_point \<Rightarrow> pcl_point) \<Rightarrow> rat \<Rightarrow> nat \<Rightarrow> pcl_point list \<Rightarrow> nat \<times> pcl_point list" where
  "comp_run f off 0 ps = (if off < curvature (ps ! 0) / 1000 then (0, ps[0 := f (ps ! 0)]) else (0, ps))"
| "comp_run f off (Suc k) ps = (if off < curvature (ps ! Suc k) / 1000 then comp_run f off k (ps[Suc k := f (ps ! Suc k)]) else (Suc k, ps))"

definition undistort :: "(pose6d \<Rightarrow> pcl_point \<Rightarrow> pcl_point) \<Rightarrow> pose6d list \<Rightarrow> pcl_point list \<Rightarrow> pcl_point list" where
  "undistort fc poses ps = snd (fold (\<lambda>h (k, qs). comp_run (fc h) (offset_time h) k qs) (rev (butlast poses)) (length ps - 1, ps))"

definition UndistortPcl :: "libm \<Rightarrow> 'i lidar_measure_group \<Rightarrow> states_group \<Rightarrow> imu_process \<Rightarrow>
    (pcl_point list \<times> 'i lidar_measure_group \<times> states_group \<times> imu_process) res" where
  "UndistortPcl L lm s p = (if measures lm = [] then Inl OutOfBounds
     else let g = last (measures lm); is = last_imu p # mg_imu g; beg = last_prop_end_time p; end_t = lio_time g;
       poses0 = imu_pose p @ [set_pose6d 0 (acc_s_last p) (angvel_last p) (vel_end s) (pos_end s) (rot_end s)];
       v0 = \<lparr>pr_rot = rot_end s, pr_vel = vel_end s, pr_pos = pos_end s, pr_cov = cov s, pr_acc = acc_s_last p, pr_ang = angvel_last p,
         pr_poses = poses0, pr_all = 0\<rparr>;
       tau = (if imu_time_init p then inv_expo_time s else 1) in
     bindR (prop_loop L p s beg end_t is v0) (\<lambda>v.
       let s' = s\<lparr>vel_end := pr_vel v, rot_end := pr_rot v, pos_end := pr_pos v, inv_expo_time := tau, cov := pr_cov v\<rparr>;
           lm' = lm\<lparr>last_lio_update_time := end_t\<rparr>;
           p' = p\<lparr>imu_time_init := True, angvel_last := pr_ang v, acc_s_last := pr_acc v, last_imu := last is,
             last_prop_end_time := end_t, imu_pose := pr_poses v\<rparr> in
       if pcl_proc_cur lm = [] then Inr ([], lm', s', p')
       else Inr (undistort (compensate L p' s') (pr_poses v) (pcl_proc_cur lm), lm', s', p'\<lparr>imu_pose := []\<rparr>)))"

text \<open>Process; the points stay what they were while the gravity is being estimated.\<close>

definition ImuProcess_Process :: "libm \<Rightarrow> 'i lidar_measure_group \<Rightarrow> states_group \<Rightarrow> pcl_point list \<Rightarrow> imu_process \<Rightarrow>
    (pcl_point list \<times> 'i lidar_measure_group \<times> states_group \<times> imu_process) res" where
  "ImuProcess_Process L lm s pts p = (if measures lm = [] then Inl OutOfBounds
     else let is = mg_imu (last (measures lm)) in
       if \<not> need_init p then UndistortPcl L lm s p
       else if is = [] then Inr (pts, lm, s, p)
       else bindR (ImuInit L is s p) (\<lambda>(s', p'). let p1 = p'\<lparr>last_imu := last is\<rparr> in
         Inr (pts, lm, s', if max_ini_count p1 < init_iter_num p1 then p1\<lparr>need_init := False\<rparr> else p1)))"

section \<open>The estimate at rest\<close>

definition vsum :: "vec list \<Rightarrow> vec" where
  "vsum vs = foldr vadd vs (0, 0, 0)"

text \<open>The running means are those of the samples so far.\<close>

definition averaged :: "imu list \<Rightarrow> imu_process \<Rightarrow> bool" where
  "averaged xs p = (init_iter_num p = int (length xs) + 1
     \<and> vscale (of_nat (length xs)) (mean_acc p) = vsum (map im_acc xs)
     \<and> vscale (of_nat (length xs)) (mean_gyr p) = vsum (map im_gyr xs))"

lemma vadd_assoc: "vadd (vadd a b) c = vadd a (vadd b c)" and vadd_commute: "vadd a b = vadd b a" and vadd_0 [simp]: "vadd a (0, 0, 0) = a" "vadd (0, 0, 0) a = a"
  by (cases a; cases b; cases c; simp)+

lemma vsum_snoc: "vsum (vs @ [v]) = vadd (vsum vs) v"
  by (induction vs) (simp_all add: vsum_def vadd_assoc)

lemma mean_update:
  assumes "vscale (of_nat n) m = s"
  shows "vscale (of_nat (Suc n)) (vadd m (vscale (1 / of_nat (Suc n)) (vsub x m))) = vadd s x"
proof -
  obtain a b c where m: "m = (a, b, c)" by (cases m)
  obtain d e f where x: "x = (d, e, f)" by (cases x)
  have k: "(1 + of_nat n) * (u + (v - u) / (1 + of_nat n)) = of_nat n * u + v" for u v :: rat
  proof -
    have "(1 + of_nat n) * ((v - u) / (1 + of_nat n)) = v - u" by simp
    then show ?thesis by (simp add: ring_distribs)
  qed
  show ?thesis unfolding assms[symmetric] m x by (simp add: k)
qed

lemma mean_step_averaged: "averaged xs p \<Longrightarrow> averaged (xs @ [i]) (mean_step i p)"
proof -
  assume g: "averaged xs p"
  have n: "(of_int (init_iter_num p) :: rat) = of_nat (Suc (length xs))" using g by (simp add: averaged_def)
  have "vscale (of_nat (Suc (length xs))) (mean_acc (mean_step i p)) = vadd (vsum (map im_acc xs)) (im_acc i)"
    "vscale (of_nat (Suc (length xs))) (mean_gyr (mean_step i p)) = vadd (vsum (map im_gyr xs)) (im_gyr i)"
    using g unfolding mean_step_def Let_def n by (simp_all add: averaged_def mean_update del: of_nat_Suc)
  moreover have "init_iter_num (mean_step i p) = int (length (xs @ [i])) + 1" using g by (simp add: averaged_def mean_step_def Let_def)
  ultimately show ?thesis by (simp add: averaged_def vsum_snoc del: of_nat_Suc)
qed

lemma fold_mean_averaged: "averaged xs p \<Longrightarrow> averaged (xs @ is) (fold mean_step is p)"
proof (induction "is" arbitrary: xs p)
  case (Cons i "is")
  show ?case using Cons.IH[OF mean_step_averaged[OF Cons.prems]] by simp
qed simp

lemma vscale_0 [simp]: "vscale 0 v = (0, 0, 0)"
  by (cases v) simp

lemma first_means_averaged: "b_first_frame p \<or> averaged xs p \<Longrightarrow> averaged (if b_first_frame p then [] else xs) (first_means is p)"
  by (auto simp: first_means_def ImuProcess_Reset_def averaged_def vsum_def)

text \<open>
  gravity_estimate: after each group at rest the means are those of all the samples since
  the first, the attitude is the identity, and gravity points against the mean
  acceleration with the length of the standard gravity.
\<close>

theorem gravity_estimate:
  assumes "ImuInit L is s p = Inr (s', p')" "b_first_frame p \<or> averaged xs p"
  shows "averaged ((if b_first_frame p then [] else xs) @ is) p' \<and> rot_end s' = m3_id
    \<and> gravity s' = vscale (- (G_m_s2 / norm3 L (mean_acc p'))) (mean_acc p')
    \<and> (exact_sqrt L (vdot (mean_acc p') (mean_acc p')) \<longrightarrow> vdot (gravity s') (gravity s') = G_m_s2 * G_m_s2)"
proof -
  let ?q = "fold mean_step is (first_means is p)" let ?n = "norm3 L (mean_acc ?q)"
  have n: "?n \<noteq> 0" and e: "s' = s\<lparr>gravity := vscale (- (1 / ?n * G_m_s2)) (mean_acc ?q), rot_end := m3_id, bias_g := (0, 0, 0)\<rparr>"
    "p' = ?q\<lparr>imu_mean_acc_norm := ?n\<rparr>"
    using assms(1) unfolding ImuInit_def Let_def by (simp_all split: if_split_asm)
  have "averaged ((if b_first_frame p then [] else xs) @ is) ?q"
    by (intro fold_mean_averaged first_means_averaged assms(2))
  then have g: "averaged ((if b_first_frame p then [] else xs) @ is) p'" by (simp add: e averaged_def)
  have d: "vdot (vscale k v) (vscale k v) = k * k * vdot v v" for k v by (cases v) (simp add: algebra_simps)
  have "vdot (gravity s') (gravity s') = G_m_s2 * G_m_s2" if "exact_sqrt L (vdot (mean_acc p') (mean_acc p'))"
  proof -
    have "vdot (mean_acc ?q) (mean_acc ?q) = ?n * ?n" using that by (simp add: e exact_sqrt_def norm3_def)
    then show ?thesis using n by (simp add: e d)
  qed
  then show ?thesis using g by (simp add: e)
qed

lemma gravity_estimate_witness:
  "\<exists>s' p'. ImuInit triangle_libm [sample_at 5, sample_at 6] StatesGroup (ImuProcess 0 0) = Inr (s', p')
    \<and> averaged [sample_at 5, sample_at 6] p' \<and> vdot (gravity s') (gravity s') = G_m_s2 * G_m_s2"
proof -
  have "\<exists>s' p'. ImuInit triangle_libm [sample_at 5, sample_at 6] StatesGroup (ImuProcess 0 0) = Inr (s', p') \<and> mean_acc p' = (0, 0, 1)"
    by (simp add: ImuInit_def first_means_def ImuProcess_Reset_def ImuProcess_def mean_step_def sample_at_def norm3_def triangle_libm_def Let_def)
  then obtain s' p' where i: "ImuInit triangle_libm [sample_at 5, sample_at 6] StatesGroup (ImuProcess 0 0) = Inr (s', p')" "mean_acc p' = (0, 0, 1)" by blast
  have "b_first_frame (ImuProcess 0 0)" by (simp add: ImuProcess_def)
  then show ?thesis using gravity_estimate[OF i(1), of "[]"] i by (auto simp: exact_sqrt_def triangle_libm_def)
qed

section \<open>The time a propagation covers\<close>

lemma prop_step_all:
  "prop_step L p s h t (dt, offs) v = Inr v' \<Longrightarrow> pr_all v' = pr_all v + dt \<and> pr_poses v' \<noteq> [] \<and> offset_time (last (pr_poses v')) = offs
    \<and> (\<exists>q. pr_poses v' = pr_poses v @ [q])"
  by (auto simp: prop_step_def Let_def set_pose6d_def split: if_split_asm)

lemma prop_loop_later:
  assumes "prop_loop L p s beg e (h # t # is) v = Inr v'" "beg \<le> toSec (im_stamp h)" "\<forall>i \<in> set (t # is). beg < toSec (im_stamp i)"
  shows "pr_all v' = pr_all v + (e - toSec (im_stamp h)) \<and> offset_time (last (pr_poses v')) = e - beg"
  using assms
proof (induction "is" arbitrary: h t v)
  case Nil
  then show ?case by (auto simp: bindR_eq_Inr step_time_def dest!: prop_step_all)
next
  case (Cons i "is")
  have n: "\<not> toSec (im_stamp t) < beg" "\<not> toSec (im_stamp h) < beg" "beg \<le> toSec (im_stamp t)" using Cons.prems by auto
  obtain v1 where v1: "prop_step L p s h t (toSec (im_stamp t) - toSec (im_stamp h), toSec (im_stamp t) - beg) v = Inr v1"
    "prop_loop L p s beg e (t # i # is) v1 = Inr v'"
    using Cons.prems(1) n by (auto simp: bindR_eq_Inr step_time_def simp del: prop_loop.simps(3) simp add: prop_loop.simps(3)[of L p s beg e h t])
  show ?case using Cons.IH[OF v1(2) n(3)] Cons.prems(3) prop_step_all[OF v1(1)] by simp
qed

text \<open>
  propagation_covers: when the last sample before is not later than the beginning
  and the new ones are later, the steps of the propagation add up to the whole time to
  the end of the group, and so does the time of the last pose - except with no new
  sample, when nothing is propagated, and with a single one after a sample strictly before the
  beginning, when it stops at that sample; the state is taken to be that of the
  end all the same.
\<close>

theorem propagation_covers:
  assumes "prop_loop L p s beg e (h # is) v = Inr v'" "toSec (im_stamp h) \<le> beg" "\<forall>i \<in> set is. beg < toSec (im_stamp i)"
  shows "pr_all v' - pr_all v = (if is = [] then 0 else if length is = 1 \<and> toSec (im_stamp h) < beg then toSec (im_stamp (hd is)) - beg else e - beg)
    \<and> (is \<noteq> [] \<longrightarrow> offset_time (last (pr_poses v')) = pr_all v' - pr_all v)"
proof (cases "is")
  case Nil then show ?thesis using assms(1) by simp
next
  case (Cons t js)
  show ?thesis
  proof (cases "toSec (im_stamp h) < beg")
    case False
    then have "beg \<le> toSec (im_stamp h)" "toSec (im_stamp h) = beg" using assms(2) by simp_all
    then show ?thesis using prop_loop_later[of L p s beg e h t js v v'] assms(1,3) unfolding Cons by simp
  next
    case True
    have n: "\<not> toSec (im_stamp t) < beg" "beg \<le> toSec (im_stamp t)" using assms(3) Cons by auto
    obtain v1 where v1: "prop_step L p s h t (toSec (im_stamp t) - beg, toSec (im_stamp t) - beg) v = Inr v1"
      "prop_loop L p s beg e (t # js) v1 = Inr v'"
      using assms(1) n True unfolding Cons by (auto simp: bindR_eq_Inr step_time_def)
    note a = prop_step_all[OF v1(1)]
    show ?thesis
    proof (cases js)
      case Nil then show ?thesis using v1(2) a True by (simp add: Cons)
    next
      case (Cons u us)
      then show ?thesis using prop_loop_later[of L p s beg e t u us v1 v'] v1(2) a n(2) assms(3) True \<open>is = t # js\<close> by simp
    qed
  qed
qed

lemma prop_step_ok: "norm3 L (mean_acc p) \<noteq> 0 \<Longrightarrow> \<exists>v'. prop_step L p s h t ts v = Inr v'"
  by (cases ts) (simp add: prop_step_def Let_def)

lemma prop_loop_ok: "norm3 L (mean_acc p) \<noteq> 0 \<Longrightarrow> \<exists>v'. prop_loop L p s beg e is v = Inr v'"
proof (induction L p s beg e "is" v rule: prop_loop.induct)
  case (3 L p s beg e h t "is" v)
  obtain v1 where "prop_step L p s h t (step_time beg e (is = []) h t) v = Inr v1" using prop_step_ok[OF "3.prems"] by blast
  then show ?case using 3 by auto
qed simp_all

lemma propagation_covers_witness:
  "\<forall>v. \<exists>v'. prop_loop triangle_libm (ImuProcess 0 0) StatesGroup (1 / 10 ^ 9) (5 / 10 ^ 9) [sample_at 0, sample_at 3, sample_at 4] v = Inr v'
    \<and> pr_all v' - pr_all v = 4 / 10 ^ 9"
proof
  fix v
  show "\<exists>v'. prop_loop triangle_libm (ImuProcess 0 0) StatesGroup (1 / 10 ^ 9) (5 / 10 ^ 9) [sample_at 0, sample_at 3, sample_at 4] v = Inr v'
    \<and> pr_all v' - pr_all v = 4 / 10 ^ 9"
  proof -
    have "norm3 triangle_libm (mean_acc (ImuProcess 0 0)) \<noteq> 0" by (simp add: norm3_def triangle_libm_def ImuProcess_def)
    then obtain v' where "prop_loop triangle_libm (ImuProcess 0 0) StatesGroup (1 / 10 ^ 9) (5 / 10 ^ 9) [sample_at 0, sample_at 3, sample_at 4] v = Inr v'"
      using prop_loop_ok by blast
    then show ?thesis using propagation_covers[of triangle_libm "ImuProcess 0 0" StatesGroup "1 / 10 ^ 9" "5 / 10 ^ 9" "sample_at 0" "[sample_at 3, sample_at 4]" v v']
      by (simp add: sample_at_def toSec_def)
  qed
qed

section \<open>The correction of the points\<close>

lemma sorted_update_same: "curvature x = curvature (ps ! k) \<Longrightarrow> map curvature (ps[k := x]) = map curvature ps"
  by (cases "k < length ps") (simp_all add: map_update list_update_same_conv list_update_beyond)

lemma comp_run_spec:
  assumes "comp_run f off k ps = (k', qs)" "k < length ps" "sorted (map curvature ps)" "\<And>q. curvature (f q) = curvature q"
  shows "k' \<le> k \<and> length qs = length ps \<and> map curvature qs = map curvature ps
    \<and> (\<forall>j < length ps. qs ! j = (if j \<le> k \<and> off < curvature (ps ! j) / 1000 then f (ps ! j) else ps ! j))
    \<and> (\<forall>j. k' < j \<and> j \<le> k \<longrightarrow> off < curvature (ps ! j) / 1000) \<and> (k' \<noteq> 0 \<longrightarrow> \<not> off < curvature (ps ! k') / 1000)"
  using assms(1-3)
proof (induction k arbitrary: ps)
  case 0
  then show ?case using assms(4) sorted_update_same[of "f (ps ! 0)" ps 0] by (auto simp: nth_list_update split: if_split_asm)
next
  case (Suc k)
  show ?case
  proof (cases "off < curvature (ps ! Suc k) / 1000")
    case True
    let ?ps = "ps[Suc k := f (ps ! Suc k)]"
    have m: "map curvature ?ps = map curvature ps" using assms(4) by (intro sorted_update_same) simp
    have r: "comp_run f off k ?ps = (k', qs)" using Suc.prems(1) True by simp
    have I: "k' \<le> k \<and> length qs = length ?ps \<and> map curvature qs = map curvature ?ps
      \<and> (\<forall>j < length ?ps. qs ! j = (if j \<le> k \<and> off < curvature (?ps ! j) / 1000 then f (?ps ! j) else ?ps ! j))
      \<and> (\<forall>j. k' < j \<and> j \<le> k \<longrightarrow> off < curvature (?ps ! j) / 1000) \<and> (k' \<noteq> 0 \<longrightarrow> \<not> off < curvature (?ps ! k') / 1000)"
      using Suc.prems(2,3) m by (intro Suc.IH[OF r]) simp_all
    have "qs ! j = (if j \<le> Suc k \<and> off < curvature (ps ! j) / 1000 then f (ps ! j) else ps ! j)" if "j < length ps" for j
      using I that True by (cases "j = Suc k") (auto simp: le_Suc_eq)
    moreover have "off < curvature (ps ! j) / 1000" if "k' < j" "j \<le> Suc k" for j
      using I that True by (cases "j = Suc k") (auto simp: le_Suc_eq)
    moreover have "\<not> off < curvature (ps ! k') / 1000" if "k' \<noteq> 0"
      using I that by (cases "k' = Suc k") auto
    ultimately show ?thesis using I m by (auto simp: le_Suc_eq)
  next
    case False
    then have e: "k' = Suc k" "qs = ps" using Suc.prems(1) by auto
    have "\<not> off < curvature (ps ! j) / 1000" if "j \<le> Suc k" for j
    proof -
      have "map curvature ps ! j \<le> map curvature ps ! Suc k" using that Suc.prems(2,3) by (intro sorted_nth_mono) simp_all
      then show ?thesis using False that Suc.prems(2) by (simp add: not_less divide_right_mono order_trans[of "curvature (ps ! j) / 1000" "curvature (ps ! Suc k) / 1000"])
    qed
    then show ?thesis using e False by auto
  qed
qed

definition before_point :: "pose6d list \<Rightarrow> pcl_point \<Rightarrow> pose6d list" where
  "before_point hs q = filter (\<lambda>h. offset_time h < curvature q / 1000) hs"

lemma comp_fold_spec:
  assumes "k < length ps" "sorted (map curvature ps)" "\<And>h q. curvature (fc h q) = curvature q"
  shows "length (snd (fold (\<lambda>h (k, qs). comp_run (fc h) (offset_time h) k qs) hs (k, ps))) = length ps
    \<and> (\<forall>j < length ps. snd (fold (\<lambda>h (k, qs). comp_run (fc h) (offset_time h) k qs) hs (k, ps)) ! j =
      (if k < j then ps ! j else if j = 0 then fold fc (before_point hs (ps ! 0)) (ps ! 0)
       else case before_point hs (ps ! j) of [] \<Rightarrow> ps ! j | h # _ \<Rightarrow> fc h (ps ! j)))"
  using assms(1,2)
proof (induction hs arbitrary: k ps)
  case (Cons h hs)
  obtain k' qs where r: "comp_run (fc h) (offset_time h) k ps = (k', qs)" by fastforce
  note S = comp_run_spec[OF r Cons.prems assms(3)]
  have k': "k' < length qs" using S Cons.prems(1) by simp
  have so: "sorted (map curvature qs)" using S Cons.prems(2) by simp
  note I = Cons.IH[OF k' so]
  have c: "curvature (qs ! j) = curvature (ps ! j)" if "j < length ps" for j
    using S that by (metis length_map nth_map)
  have b: "before_point hs (qs ! j) = before_point hs (ps ! j)" if "j < length ps" for j
    using c[OF that] by (simp add: before_point_def)
  have "snd (fold (\<lambda>h (k, qs). comp_run (fc h) (offset_time h) k qs) (h # hs) (k, ps)) ! j =
      (if k < j then ps ! j else if j = 0 then fold fc (before_point (h # hs) (ps ! 0)) (ps ! 0)
       else case before_point (h # hs) (ps ! j) of [] \<Rightarrow> ps ! j | h # _ \<Rightarrow> fc h (ps ! j))" if j: "j < length ps" for j
  proof -
    have f: "snd (fold (\<lambda>h (k, qs). comp_run (fc h) (offset_time h) k qs) (h # hs) (k, ps)) ! j =
      (if k' < j then qs ! j else if j = 0 then fold fc (before_point hs (qs ! 0)) (qs ! 0)
       else case before_point hs (qs ! j) of [] \<Rightarrow> qs ! j | h # _ \<Rightarrow> fc h (qs ! j))"
      using I j S by (simp add: r)
    have q: "qs ! j = (if j \<le> k \<and> offset_time h < curvature (ps ! j) / 1000 then fc h (ps ! j) else ps ! j)" using S j by blast
    consider (above) "k < j" | (first) "j = 0" | (done_now) "0 < j" "j \<le> k" "offset_time h < curvature (ps ! j) / 1000"
      | (later) "0 < j" "j \<le> k" "\<not> offset_time h < curvature (ps ! j) / 1000" by linarith
    then show ?thesis
    proof cases
      case above then show ?thesis using f q S by auto
    next
      case first then show ?thesis using f q b[OF j] by (simp add: before_point_def)
    next
      case done_now
      have "k' < j"
      proof (rule ccontr)
        assume "\<not> k' < j"
        then have "j \<le> k'" "k' \<noteq> 0" using done_now(1) by simp_all
        then have "curvature (ps ! j) \<le> curvature (ps ! k')" using sorted_nth_mono[OF Cons.prems(2), of j k'] S Cons.prems(1) by simp
        then show False using done_now(3) S \<open>k' \<noteq> 0\<close> by (auto simp: field_simps)
      qed
      then show ?thesis using f q done_now by (simp add: before_point_def)
    next
      case later
      have "\<not> k' < j" using S later by blast
      have e: "qs ! j = ps ! j" using q later by simp
      have "before_point (h # hs) (ps ! j) = before_point hs (ps ! j)" using later by (simp add: before_point_def)
      then show ?thesis using f[unfolded b[OF j] e] later \<open>\<not> k' < j\<close> by simp
    qed
  qed
  then show ?case using I S by (simp add: r)
qed (simp add: before_point_def)

text \<open>
  C14 undistort_points: for points sorted by time, each point but the first is moved exactly
  once, by the latest pose before its time (the last one aside), and not at all when
  there is none; the first point is moved anew by every pose before its time,
  where once would be right.
\<close>

theorem undistort_points:
  assumes "ps \<noteq> []" "sorted (map curvature ps)" "\<And>h q. curvature (fc h q) = curvature q"
  shows "length (undistort fc poses ps) = length ps
    \<and> (\<forall>j < length ps. undistort fc poses ps ! j =
      (if j = 0 then fold fc (before_point (rev (butlast poses)) (ps ! 0)) (ps ! 0)
       else case before_point (rev (butlast poses)) (ps ! j) of [] \<Rightarrow> ps ! j | h # _ \<Rightarrow> fc h (ps ! j)))"
proof -
  have k: "length ps - 1 < length ps" using assms(1) by simp
  show ?thesis using comp_fold_spec[OF k assms(2,3), where hs = "rev (butlast poses)"] unfolding undistort_def by auto
qed

lemma compensate_curvature: "curvature (compensate L p s h q) = curvature q"
  by (simp add: compensate_def Let_def split: prod.split)

definition pose_at :: "rat \<Rightarrow> vec \<Rightarrow> pose6d" where
  "pose_at t v = set_pose6d t (0, 0, 0) (0, 0, 0) v (0, 0, 0) m3_id"

text \<open>A scan that begins at 90 ms: both points should move by the second pose only.\<close>

lemma undistort_points_witness:
  "undistort (compensate triangle_libm (ImuProcess 0 0) StatesGroup) [pose_at 0 (1, 0, 0), pose_at (8 / 100) (1, 0, 0), pose_at (1 / 10) (0, 0, 0)]
      [point_at 90, point_at 91] = [(point_at 90)\<lparr>p_x := 1 + 1 / 100 + 9 / 100\<rparr>, (point_at 91)\<lparr>p_x := 1 + 11 / 1000\<rparr>]"
  (is "undistort ?f ?h ?ps = _")
proof -
  have c: "?f (pose_at t (v, 0, 0)) (point_at ms\<lparr>p_x := x\<rparr>) = (point_at ms)\<lparr>p_x := x + (ms / 1000 - t) * v\<rparr>" for t ms v x
    by (simp add: compensate_def Let_def pose_at_def set_pose6d_def ImuProcess_def StatesGroup_def m3_id_def Exp_dt_def norm3_def triangle_libm_def pos_def
      point_at_def blank_point_def)
  have p: "point_at ms = (point_at ms)\<lparr>p_x := 1\<rparr>" "curvature (point_at ms) = ms" for ms by (simp_all add: point_at_def)
  have l: "length (undistort ?f ?h ?ps) = 2" and j: "\<forall>j < 2. undistort ?f ?h ?ps ! j =
      (if j = 0 then fold ?f (before_point (rev (butlast ?h)) (?ps ! 0)) (?ps ! 0)
       else case before_point (rev (butlast ?h)) (?ps ! j) of [] \<Rightarrow> ?ps ! j | h # _ \<Rightarrow> ?f h (?ps ! j))"
    using undistort_points[of ?ps ?f ?h, OF _ _ compensate_curvature] by (simp_all add: p(2))
  have o: "offset_time (pose_at t v) = t" for t v by (simp add: pose_at_def set_pose6d_def)
  have c1: "?f (pose_at (8 / 100) (1, 0, 0)) (point_at 90) = (point_at 90)\<lparr>p_x := 1 + 1 / 100\<rparr>"
    "?f (pose_at 0 (1, 0, 0)) ((point_at 90)\<lparr>p_x := 1 + 1 / 100\<rparr>) = (point_at 90)\<lparr>p_x := 1 + 1 / 100 + 9 / 100\<rparr>"
    "?f (pose_at (8 / 100) (1, 0, 0)) (point_at 91) = (point_at 91)\<lparr>p_x := 1 + 11 / 1000\<rparr>"
    using c[where t = "8 / 100" and v = 1 and ms = 90 and x = 1, folded p(1)] c[where t = 0 and v = 1 and ms = 90 and x = "1 + 1 / 100"]
      c[where t = "8 / 100" and v = 1 and ms = 91 and x = 1, folded p(1)] by simp_all
  have "undistort ?f ?h ?ps ! 0 = (point_at 90)\<lparr>p_x := 1 + 1 / 100 + 9 / 100\<rparr>"
    using j[rule_format, of 0] c1 by (simp add: before_point_def p(2) o)
  moreover have "undistort ?f ?h ?ps ! 1 = (point_at 91)\<lparr>p_x := 1 + 11 / 1000\<rparr>"
    using j[rule_format, of 1] c1 by (simp add: before_point_def p(2) o)
  ultimately show ?thesis using l by (intro nth_equalityI) (auto simp: less_Suc_eq numeral_2_eq_2)
qed

text \<open>
  empty_scan_keeps_poses: a group without points leaves the poses it computed behind, to
  be used again with the next group: they are cleared only after points have been
  corrected.
\<close>

theorem empty_scan_keeps_poses:
  assumes "UndistortPcl L lm s p = Inr (out, lm', s', p')"
  shows "(pcl_proc_cur lm = [] \<longrightarrow> out = [] \<and> (\<exists>q qs. imu_pose p' = imu_pose p @ q # qs))
    \<and> (pcl_proc_cur lm \<noteq> [] \<longrightarrow> imu_pose p' = []) \<and> last_lio_update_time lm' = lio_time (last (measures lm))"
proof -
  define poses0 where "poses0 = imu_pose p @ [set_pose6d 0 (acc_s_last p) (angvel_last p) (vel_end s) (pos_end s) (rot_end s)]"
  have g: "\<exists>qs. pr_poses v' = pr_poses v @ qs" if "prop_loop L p s beg e xs v = Inr v'" for beg e xs v v'
    using that
  proof (induction L p s beg e xs v rule: prop_loop.induct)
    case (3 L p s beg e h t "is" v)
    show ?case
    proof (cases "toSec (im_stamp t) < beg")
      case False
      then obtain v1 where "prop_step L p s h t (step_time beg e (is = []) h t) v = Inr v1" "prop_loop L p s beg e (t # is) v1 = Inr v'"
        using "3.prems" by (auto simp: bindR_eq_Inr)
      then show ?thesis using "3.IH"(2)[OF False] prop_step_all[of L p s h t "fst (step_time beg e (is = []) h t)" "snd (step_time beg e (is = []) h t)" v v1] by force
    qed (use 3 in simp)
  qed simp_all
  define v0 where "v0 = \<lparr>pr_rot = rot_end s, pr_vel = vel_end s, pr_pos = pos_end s, pr_cov = cov s, pr_acc = acc_s_last p, pr_ang = angvel_last p,
         pr_poses = poses0, pr_all = 0\<rparr>"
  have "measures lm \<noteq> []" using assms by (auto simp: UndistortPcl_def)
  then obtain v where v: "prop_loop L p s (last_prop_end_time p) (lio_time (last (measures lm))) (last_imu p # mg_imu (last (measures lm))) v0 = Inr v"
    using assms unfolding UndistortPcl_def by (auto simp: Let_def bindR_eq_Inr poses0_def[symmetric] v0_def[symmetric])
  have e: "imu_pose p' = (if pcl_proc_cur lm = [] then pr_poses v else []) \<and> (pcl_proc_cur lm = [] \<longrightarrow> out = [])
      \<and> last_lio_update_time lm' = lio_time (last (measures lm))"
    using assms v \<open>measures lm \<noteq> []\<close> unfolding UndistortPcl_def poses0_def v0_def by (auto simp: Let_def split: if_split_asm)
  obtain qs where "pr_poses v = poses0 @ qs" using g[OF v] by (auto simp: v0_def)
  then show ?thesis using e by (auto simp: poses0_def)
qed

lemma empty_scan_keeps_poses_witness:
  "\<exists>out lm' s' p'. UndistortPcl triangle_libm (LidarMeasureGroup\<lparr>measures := [MeasureGroup]\<rparr> :: nat lidar_measure_group) StatesGroup (ImuProcess 0 0) = Inr (out, lm', s', p')
    \<and> imu_pose p' \<noteq> []"
proof -
  let ?lm = "LidarMeasureGroup\<lparr>measures := [MeasureGroup]\<rparr> :: nat lidar_measure_group"
  have "\<exists>out lm' s' p'. UndistortPcl triangle_libm ?lm StatesGroup (ImuProcess 0 0) = Inr (out, lm', s', p')"
    by (simp add: UndistortPcl_def MeasureGroup_def LidarMeasureGroup_def Let_def)
  then obtain out lm' s' p' where u: "UndistortPcl triangle_libm ?lm StatesGroup (ImuProcess 0 0) = Inr (out, lm', s', p')" by blast
  have "imu_pose p' \<noteq> []" using empty_scan_keeps_poses[OF u] by (auto simp: LidarMeasureGroup_def)
  then show ?thesis using u by blast
qed

end
