(* ===== verification/Voxel_Map.thy ===== *)
theory Voxel_Map
  imports Voxel_Octree
begin

text \<open>
  The voxel map around the octrees (VoxelMapManager in
  edge/src/FAST-LIVO2/src/voxel_map.cpp): the table of voxels with its list in
  the order of use, insertion and eviction, the matching of points with planes,
  the sliding of the map, and the planes that are shown.  Coordinates are exact
  rationals, so the rounding of the code's floats is left aside.
\<close>

section \<open>Voxels\<close>

text \<open>A VOXEL_LOCATION; values that leave the 64-bit range are undefined behaviour.\<close>

type_synonym loc = "int \<times> int \<times> int"

definition int64 :: "int \<Rightarrow> int res" where
  "int64 i = (if - (2 ^ 63) \<le> i \<and> i < 2 ^ 63 then Inr i else Inl Undefined)"

definition truncate_rat :: "rat \<Rightarrow> int" where
  "truncate_rat r = (if r < 0 then - \<lfloor>- r\<rfloor> else \<lfloor>r\<rfloor>)"

text \<open>An element of loc_xyz and the index it is cast to.\<close>

definition scaled :: "rat \<Rightarrow> rat \<Rightarrow> rat" where
  "scaled vs c = (if c / vs < 0 then c / vs - 1 else c / vs)"

definition voxel_index :: "rat \<Rightarrow> rat \<Rightarrow> int res" where
  "voxel_index vs c = (if vs = 0 then Inl Undefined else int64 (truncate_rat (scaled vs c)))"

fun position :: "rat \<Rightarrow> vec \<Rightarrow> loc res" where
  "position vs (x, y, z) = bindR (voxel_index vs x) (\<lambda>i. bindR (voxel_index vs y) (\<lambda>j.
     bindR (voxel_index vs z) (\<lambda>k. Inr (i, j, k))))"

fun center_of :: "rat \<Rightarrow> loc \<Rightarrow> vec" where
  "center_of vs (i, j, k) = ((1 / 2 + of_int i) * vs, (1 / 2 + of_int j) * vs, (1 / 2 + of_int k) * vs)"

section \<open>The table and the list\<close>

text \<open>
  The nodes of the list vm_data_ have addresses, which are what the iterators in
  vm_map_ hold.  plane_ids is the counter voxel_plane_id.
\<close>

record voxel_map =
  vm_data :: "(nat \<times> loc \<times> octree) list"
  vm_map :: "loc \<rightharpoonup> nat"
  next_node :: nat
  plane_ids :: int
  lru_size :: int
  position_last :: vec
  last_slide_position :: vec

text \<open>Dereferencing an iterator, and vm_map_[l], which is a null iterator for a new key.\<close>

definition node_tree :: "nat \<Rightarrow> voxel_map \<Rightarrow> octree res" where
  "node_tree i s = (case map_of (vm_data s) i of None \<Rightarrow> Inl UseAfterFree | Some (l, t) \<Rightarrow> Inr t)"

definition tree_at :: "loc \<Rightarrow> voxel_map \<Rightarrow> octree res" where
  "tree_at l s = (case vm_map s l of None \<Rightarrow> Inl NullDeref | Some i \<Rightarrow> node_tree i s)"

definition set_tree :: "nat \<Rightarrow> octree \<Rightarrow> voxel_map \<Rightarrow> voxel_map" where
  "set_tree i t s = s\<lparr>vm_data := map (\<lambda>(j, l, u). if j = i then (j, l, t) else (j, l, u)) (vm_data s)\<rparr>"

text \<open>splice to the front; the iterator stays valid.\<close>

definition to_front :: "nat \<Rightarrow> voxel_map \<Rightarrow> voxel_map res" where
  "to_front i s = (case map_of (vm_data s) i of None \<Rightarrow> Inl UseAfterFree
     | Some e \<Rightarrow> Inr (s\<lparr>vm_data := (i, e) # filter (\<lambda>(j, e). j \<noteq> i) (vm_data s)\<rparr>))"

definition push_front :: "loc \<Rightarrow> octree \<Rightarrow> voxel_map \<Rightarrow> voxel_map" where
  "push_front l t s = s\<lparr>vm_data := (next_node s, l, t) # vm_data s, vm_map := (vm_map s)(l \<mapsto> next_node s),
     next_node := next_node s + 1\<rparr>"

definition evict :: "voxel_map \<Rightarrow> voxel_map" where
  "evict s = (if usize (lru_size s) \<le> length (vm_data s)
     then s\<lparr>vm_map := (vm_map s)(fst (snd (last (vm_data s))) := None), vm_data := butlast (vm_data s)\<rparr> else s)"

definition fresh_tree :: "voxel_config \<Rightarrow> octree res" where
  "fresh_tree cfg = (case layer_init_num cfg of [] \<Rightarrow> Inl OutOfBounds | x # xs \<Rightarrow> Inr (VoxelOctoTree 0 x))"

definition place :: "voxel_config \<Rightarrow> loc \<Rightarrow> octree \<Rightarrow> octree" where
  "place cfg l t = (case t of Octo n ls \<Rightarrow> Octo (n\<lparr>quater_length := max_voxel_size cfg / 4,
     voxel_center := center_of (max_voxel_size cfg) l\<rparr>) ls)"

section \<open>Insertion\<close>

text \<open>
  A point into the map: its voxel moves to the front or is created there, at the
  cost of the last one when the list has grown to lru_size.
\<close>

definition update_point :: "numeric \<Rightarrow> voxel_config \<Rightarrow> point_with_var \<Rightarrow> voxel_map \<Rightarrow> voxel_map res" where
  "update_point nm cfg pv s = bindR (position (max_voxel_size cfg) (point_w pv)) (\<lambda>l.
     case vm_map s l of
       Some i \<Rightarrow> bindR (tree_at l s) (\<lambda>t. bindR (UpdateOctoTree nm cfg pv t (plane_ids s)) (\<lambda>(u, k).
         to_front i ((set_tree i u s)\<lparr>plane_ids := k\<rparr>)))
     | None \<Rightarrow> bindR (fresh_tree cfg) (\<lambda>t. let s' = evict (push_front l t s) in
         bindR (tree_at l s') (\<lambda>t. bindR (UpdateOctoTree nm cfg pv (place cfg l t) (plane_ids s')) (\<lambda>(u, k).
           Inr ((set_tree (next_node s) u s')\<lparr>plane_ids := k\<rparr>)))))"

fun foldR :: "('a \<Rightarrow> 's \<Rightarrow> 's res) \<Rightarrow> 'a list \<Rightarrow> 's \<Rightarrow> 's res" where
  "foldR f [] s = Inr s"
| "foldR f (x # xs) s = bindR (f x s) (foldR f xs)"

definition UpdateVoxelMapLRU :: "numeric \<Rightarrow> voxel_config \<Rightarrow> point_with_var list \<Rightarrow> voxel_map \<Rightarrow> voxel_map res" where
  "UpdateVoxelMapLRU nm cfg = foldR (update_point nm cfg)"

text \<open>The first scan: points are only collected, and the trees built at the end.\<close>

definition build_point :: "voxel_config \<Rightarrow> point_with_var \<Rightarrow> voxel_map \<Rightarrow> voxel_map res" where
  "build_point cfg pv s = bindR (position (max_voxel_size cfg) (point_w pv)) (\<lambda>l.
     case vm_map s l of
       Some i \<Rightarrow> bindR (tree_at l s) (\<lambda>t. to_front i (set_tree i (add_point pv t) s))
     | None \<Rightarrow> bindR (fresh_tree cfg) (\<lambda>t.
         Inr (evict (push_front l (add_point pv (place cfg l t)) s))))"

definition init_voxel :: "numeric \<Rightarrow> voxel_config \<Rightarrow> loc \<Rightarrow> voxel_map \<Rightarrow> voxel_map res" where
  "init_voxel nm cfg l s = (case vm_map s l of None \<Rightarrow> Inl NullDeref | Some i \<Rightarrow>
     bindR (node_tree i s) (\<lambda>t. bindR (InitOctoTree nm cfg t (plane_ids s)) (\<lambda>(u, k).
       Inr ((set_tree i u s)\<lparr>plane_ids := k\<rparr>))))"

text \<open>The order in which the loop visits the hash table is an argument.\<close>

definition build_map :: "numeric \<Rightarrow> voxel_config \<Rightarrow> (voxel_map \<Rightarrow> loc list) \<Rightarrow> point_with_var list \<Rightarrow> voxel_map \<Rightarrow> voxel_map res" where
  "build_map nm cfg order pvs s = bindR (foldR (build_point cfg) pvs s) (\<lambda>s'. foldR (init_voxel nm cfg) (order s') s')"

section \<open>Matching a point with a plane\<close>

record point_to_plane =
  pp_point_b :: vec
  pp_point_w :: vec
  pp_normal :: vec
  pp_center :: vec
  pp_plane_var :: "mat option"
  pp_body_cov :: mat
  pp_layer :: int
  pp_d :: rat
  dis_to_plane :: rat

definition plane_distance :: "voxel_plane \<Rightarrow> vec \<Rightarrow> rat" where
  "plane_distance pl w = vdot (pl_normal pl) w + pl_d pl"

text \<open>The root of a negative number is not a number, and every comparison with it fails.\<close>

definition in_reach :: "numeric \<Rightarrow> voxel_plane \<Rightarrow> vec \<Rightarrow> bool" where
  "in_reach nm pl w = (let dis = \<bar>plane_distance pl w\<bar>; v = vsub (pl_center pl) w; r = vdot v v - dis * dis in
     0 \<le> r \<and> sqrtf nm r \<le> 3 * pl_radius pl)"

definition entry :: "mat \<Rightarrow> rat" where
  "entry M = M ! 0 ! 0"

text \<open>The variance of the distance; None, taken for not a number, when the plane's covariance is spoiled.\<close>

definition sigma_l :: "voxel_plane \<Rightarrow> point_with_var \<Rightarrow> rat option" where
  "sigma_l pl pv = (case pl_var pl of None \<Rightarrow> None | Some V \<Rightarrow>
     let J = [vlist (vsub (point_w pv) (pl_center pl)) @ vlist (vscale (- 1) (pl_normal pl))];
         N = [vlist (pl_normal pl)] in
     Some (entry (mat_mul (mat_mul J V) (transpose J)) + entry (mat_mul (mat_mul N (pv_var pv)) (transpose N))))"

definition matches :: "numeric \<Rightarrow> voxel_config \<Rightarrow> point_with_var \<Rightarrow> voxel_plane \<Rightarrow> bool" where
  "matches nm cfg pv pl = (in_reach nm pl (point_w pv) \<and> (case sigma_l pl pv of None \<Rightarrow> False
     | Some v \<Rightarrow> 0 \<le> v \<and> \<bar>plane_distance pl (point_w pv)\<bar> < sigma_num cfg * sqrtf nm v))"

definition probability :: "numeric \<Rightarrow> point_with_var \<Rightarrow> voxel_plane \<Rightarrow> rat" where
  "probability nm pv pl = (case sigma_l pl pv of None \<Rightarrow> 0 | Some v \<Rightarrow>
     1 / sqrtf nm v * expf nm (- (1 / 2) * plane_distance pl (point_w pv) * plane_distance pl (point_w pv) / v))"

definition residual :: "point_with_var \<Rightarrow> int \<Rightarrow> voxel_plane \<Rightarrow> point_to_plane" where
  "residual pv l pl = \<lparr>pp_point_b = point_b pv, pp_point_w = point_w pv, pp_normal = pl_normal pl, pp_center = pl_center pl,
     pp_plane_var = pl_var pl, pp_body_cov = body_var pv, pp_layer = l, pp_d = pl_d pl,
     dis_to_plane = plane_distance pl (point_w pv)\<rparr>"

text \<open>is_sucess, prob and single_ptpl, which is unset at first.\<close>

type_synonym match = "bool \<times> rat \<times> point_to_plane option"

fun try_plane :: "numeric \<Rightarrow> voxel_config \<Rightarrow> point_with_var \<Rightarrow> int \<times> voxel_plane \<Rightarrow> match \<Rightarrow> match" where
  "try_plane nm cfg pv (l, pl) (found, prob, best) = (if \<not> matches nm cfg pv pl then (found, prob, best)
     else if prob < probability nm pv pl then (True, probability nm pv pl, Some (residual pv l pl))
     else (True, prob, best))"

lemma leaf_in_size: "Some t \<in> set ls \<Longrightarrow> size t < size (Octo n ls)"
  using leaf_size[of _ ls t n] by (metis in_set_conv_nth)

function BuildSingleResidual :: "numeric \<Rightarrow> voxel_config \<Rightarrow> point_with_var \<Rightarrow> octree \<Rightarrow> int \<Rightarrow> match \<Rightarrow> match" where
  "BuildSingleResidual nm cfg pv (Octo n ls) l m =
     (if is_plane (plane n) then try_plane nm cfg pv (l, plane n) m
      else if l < max_layer cfg then
        fold (\<lambda>x m. case x of None \<Rightarrow> m | Some t \<Rightarrow> BuildSingleResidual nm cfg pv t (l + 1) m) ls m
      else m)"
  by pat_completeness auto
termination
  by (relation "measure (\<lambda>(nm, cfg, pv, t, l, m). size t)") (auto intro!: leaf_in_size simp del: octree.size)

declare BuildSingleResidual.simps [simp del]

text \<open>
  The neighbouring voxel that is tried when the own one has no match.  The code
  compares the coordinate in units of the voxel size with the voxel's centre
  and quarter in metres.
\<close>

definition near_index :: "rat \<Rightarrow> rat \<Rightarrow> rat \<Rightarrow> int \<Rightarrow> int res" where
  "near_index l c q i = (if c + q < l then int64 (i + 1) else if l < c - q then int64 (i - 1) else Inr i)"

fun near_position :: "rat \<Rightarrow> vec \<Rightarrow> octo_node \<Rightarrow> loc \<Rightarrow> loc res" where
  "near_position vs (x, y, z) n (i, j, k) = (case voxel_center n of (cx, cy, cz) \<Rightarrow>
     bindR (near_index (scaled vs x) cx (quater_length n) i) (\<lambda>i'.
     bindR (near_index (scaled vs y) cy (quater_length n) j) (\<lambda>j'.
     bindR (near_index (scaled vs z) cz (quater_length n) k) (\<lambda>k'. Inr (i', j', k')))))"

definition match_point :: "numeric \<Rightarrow> voxel_config \<Rightarrow> voxel_map \<Rightarrow> point_with_var \<Rightarrow> match res" where
  "match_point nm cfg s pv = bindR (position (max_voxel_size cfg) (point_w pv)) (\<lambda>l.
     case vm_map s l of None \<Rightarrow> Inr (False, 0, None)
     | Some i \<Rightarrow> bindR (node_tree i s) (\<lambda>t. let m = BuildSingleResidual nm cfg pv t 0 (False, 0, None) in
         if fst m then Inr m else bindR (near_position (max_voxel_size cfg) (point_w pv) (node t) l) (\<lambda>l'.
           case vm_map s l' of None \<Rightarrow> Inr m
           | Some j \<Rightarrow> bindR (node_tree j s) (\<lambda>u. Inr (BuildSingleResidual nm cfg pv u 0 m)))))"

text \<open>The points, with the normals they were matched with, and the residuals; copying an unset one is undefined.\<close>

fun BuildResidualListLRU :: "numeric \<Rightarrow> voxel_config \<Rightarrow> voxel_map \<Rightarrow> point_with_var list \<Rightarrow>
    (point_with_var list \<times> point_to_plane list) res" where
  "BuildResidualListLRU nm cfg s [] = Inr ([], [])"
| "BuildResidualListLRU nm cfg s (pv # pvs) = bindR (match_point nm cfg s pv) (\<lambda>(found, prob, best).
     bindR (BuildResidualListLRU nm cfg s pvs) (\<lambda>(pvs', rs).
       if \<not> found then Inr (pv # pvs', rs)
       else case best of None \<Rightarrow> Inl Undefined | Some r \<Rightarrow> Inr (pv\<lparr>pv_normal := pp_normal r\<rparr> # pvs', r # rs)))"

section \<open>Sliding\<close>

definition int32 :: "int \<Rightarrow> int" where
  "int32 i = (i + 2 ^ 31) mod 2 ^ 32 - 2 ^ 31"

definition in_box :: "loc \<Rightarrow> loc \<Rightarrow> loc \<Rightarrow> bool" where
  "in_box lo hi l = (case (lo, hi, l) of ((a, b, c), (a', b', c'), (x, y, z)) \<Rightarrow>
     a \<le> x \<and> x \<le> a' \<and> b \<le> y \<and> y \<le> b' \<and> c \<le> z \<and> z \<le> c')"

fun clear_loop :: "loc \<Rightarrow> loc \<Rightarrow> (nat \<times> loc \<times> octree) list \<Rightarrow> (loc \<rightharpoonup> nat) \<Rightarrow> (nat \<times> loc \<times> octree) list \<times> (loc \<rightharpoonup> nat)" where
  "clear_loop lo hi [] m = ([], m)"
| "clear_loop lo hi ((i, l, t) # es) m = (if in_box lo hi l
     then (case clear_loop lo hi es m of (es', m') \<Rightarrow> ((i, l, t) # es', m'))
     else clear_loop lo hi es (m(l := None)))"

definition ClearMemOutOfMap :: "loc \<Rightarrow> loc \<Rightarrow> voxel_map \<Rightarrow> voxel_map" where
  "ClearMemOutOfMap lo hi s = (case clear_loop lo hi (vm_data s) (vm_map s) of (es, m) \<Rightarrow> s\<lparr>vm_data := es, vm_map := m\<rparr>)"

definition MapSliding :: "numeric \<Rightarrow> voxel_config \<Rightarrow> voxel_map \<Rightarrow> voxel_map res" where
  "MapSliding nm cfg s = (let v = vsub (position_last s) (last_slide_position s) in
     if sqrtf nm (vdot v v) < sliding_thresh cfg then Inr s
     else bindR (position (max_voxel_size cfg) (position_last s)) (\<lambda>(x, y, z). let h = half_map_size cfg in
       Inr (ClearMemOutOfMap (int32 (x - h), int32 (y - h), int32 (z - h)) (int32 (x + h), int32 (y + h), int32 (z + h))
         (s\<lparr>last_slide_position := position_last s\<rparr>))))"

section \<open>What is shown\<close>

function GetUpdatePlane :: "voxel_config \<Rightarrow> int \<Rightarrow> octree \<Rightarrow> voxel_plane list" where
  "GetUpdatePlane cfg depth (Octo n ls) = (if depth < layer n then [] else
     (if is_update (plane n) then [plane n] else [])
     @ (if layer n < max_layer cfg \<and> \<not> is_plane (plane n)
        then concat (map (\<lambda>x. case x of None \<Rightarrow> [] | Some t \<Rightarrow> GetUpdatePlane cfg depth t) ls) else []))"
  by pat_completeness auto
termination
  by (relation "measure (\<lambda>(cfg, depth, t). size t)") (auto intro!: leaf_in_size simp del: octree.size)

declare GetUpdatePlane.simps [simp del]

text \<open>The cast to uint8_t truncates and is undefined outside of its range.\<close>

definition byte_of :: "rat \<Rightarrow> int res" where
  "byte_of r = (if - 1 < r \<and> r < 256 then Inr (truncate_rat r) else Inl Undefined)"

definition jet_rgb :: "rat \<Rightarrow> rat \<times> rat \<times> rat" where
  "jet_rgb v = (if v < 1242 / 10000 then (0, 0, 504 / 1000 + ((1 - 504 / 1000) / (1242 / 10000)) * v)
     else if v < 3747 / 10000 then (0, (v - 1242 / 10000) * (1 / (3747 / 10000 - 1242 / 10000)), 1)
     else if v < 6253 / 10000 then ((v - 3747 / 10000) * (1 / (6253 / 10000 - 3747 / 10000)), 1,
       (6253 / 10000 - v) * (1 / (6253 / 10000 - 3747 / 10000)))
     else if v < 8758 / 10000 then (1, (8758 / 10000 - v) * (1 / (8758 / 10000 - 6253 / 10000)), 0)
     else (1 - (v - 8758 / 10000) * ((1 - 504 / 1000) / (1 - 8758 / 10000)), 0, 0))"

definition MapJet :: "rat \<Rightarrow> rat \<Rightarrow> rat \<Rightarrow> (int \<times> int \<times> int) res" where
  "MapJet v vmin vmax = (let v1 = (if v < vmin then vmin else v); v2 = (if vmax < v1 then vmax else v1) in
     case jet_rgb v2 of (r, g, b) \<Rightarrow> bindR (byte_of (255 * r)) (\<lambda>r'. bindR (byte_of (255 * g)) (\<lambda>g'.
       bindR (byte_of (255 * b)) (\<lambda>b'. Inr (r', g', b')))))"

text \<open>The remainder rounds towards zero and is then converted to an unsigned number.\<close>

definition RGBFromVoxel :: "voxel_config \<Rightarrow> vec \<Rightarrow> (rat \<times> rat \<times> rat) res" where
  "RGBFromVoxel cfg w = (case w of (x, y, z) \<Rightarrow> let vs = max_voxel_size cfg in
     if vs = 0 then Inl Undefined else
     bindR (int64 \<lfloor>x / vs\<rfloor>) (\<lambda>i. bindR (int64 \<lfloor>y / vs\<rfloor>) (\<lambda>j. bindR (int64 \<lfloor>z / vs\<rfloor>) (\<lambda>k.
     bindR (int64 (i + j)) (\<lambda>u. bindR (int64 (u + k)) (\<lambda>ind. bindR (int64 (ind + 100000)) (\<lambda>a.
       let r = (sgn a * (\<bar>a\<bar> mod 3)) mod 2 ^ 32 in
       Inr ((if r = 0 then 255 else 0), (if r = 1 then 255 else 0), (if r = 2 then 255 else 0)))))))))"

section \<open>Positions\<close>

lemma voxel_index_eq:
  assumes "voxel_index vs c = Inr i"
  shows "i = (if c / vs < 0 then \<lceil>c / vs\<rceil> - 1 else \<lfloor>c / vs\<rfloor>)"
proof -
  have t: "truncate_rat (x - 1) = \<lceil>x\<rceil> - 1" if "x < 0" for x :: rat
  proof -
    have "\<lfloor>1 - x\<rfloor> = \<lfloor>- x\<rfloor> + 1" using floor_add_int[of "- x" 1] by simp
    then show ?thesis using that by (simp add: truncate_rat_def ceiling_def)
  qed
  show ?thesis using assms t[of "c / vs"]
    by (auto simp: voxel_index_def int64_def scaled_def truncate_rat_def split: if_splits)
qed

lemma voxel_index_bounds:
  assumes "voxel_index vs c = Inr i" "0 < vs"
  shows "of_int i * vs \<le> c" "c \<le> (of_int i + 1) * vs" "0 \<le> c \<longleftrightarrow> 0 \<le> i"
proof -
  note e = voxel_index_eq[OF assms(1)]
  have s: "of_int i \<le> c / vs \<and> c / vs \<le> of_int i + 1"
  proof (cases "c / vs < 0")
    case True
    then have "i + 1 = \<lceil>c / vs\<rceil>" using e by simp
    then show ?thesis by linarith
  next
    case False
    then have "i = \<lfloor>c / vs\<rfloor>" using e by simp
    then show ?thesis by linarith
  qed
  then show "of_int i * vs \<le> c" "c \<le> (of_int i + 1) * vs" using assms(2) by (simp_all add: field_simps)
  show "0 \<le> c \<longleftrightarrow> 0 \<le> i"
  proof (cases "c / vs < 0")
    case True
    then have "\<lceil>c / vs\<rceil> \<le> 0" by (simp add: ceiling_le_iff)
    then have "i < 0" using e True by simp
    then show ?thesis using True assms(2) by (simp add: divide_less_0_iff)
  next
    case False
    then have "0 \<le> i" using e by simp
    then show ?thesis using False assms(2) by (simp add: divide_less_0_iff not_less)
  qed
qed

text \<open>
  position_contains: the voxel a point is put into is the cube that contains it: in every
  direction the point is at most half a voxel from the centre the voxel is
  given.  Compared with rounding down, the index is the same except for
  coordinates that are negative multiples of the voxel size, where it is one less.
\<close>
theorem position_contains:
  assumes "position vs (x, y, z) = Inr (i, j, k)" "0 < vs"
  shows "(case center_of vs (i, j, k) of (cx, cy, cz) \<Rightarrow>
      \<bar>x - cx\<bar> \<le> vs / 2 \<and> \<bar>y - cy\<bar> \<le> vs / 2 \<and> \<bar>z - cz\<bar> \<le> vs / 2)
    \<and> i = (if x < 0 \<and> x = of_int \<lfloor>x / vs\<rfloor> * vs then \<lfloor>x / vs\<rfloor> - 1 else \<lfloor>x / vs\<rfloor>)"
proof -
  have v: "voxel_index vs x = Inr i" "voxel_index vs y = Inr j" "voxel_index vs z = Inr k"
    using assms(1) by (auto simp: bindR_eq_Inr)
  have c: "\<bar>w - (1 / 2 + of_int m) * vs\<bar> \<le> vs / 2" if "voxel_index vs w = Inr m" for w m
    using voxel_index_bounds(1,2)[OF that assms(2)] by (simp add: field_simps abs_le_iff)
  have "i = (if x < 0 \<and> x = of_int \<lfloor>x / vs\<rfloor> * vs then \<lfloor>x / vs\<rfloor> - 1 else \<lfloor>x / vs\<rfloor>)"
  proof (cases "x / vs < 0")
    case True
    have neg: "x < 0" using True assms(2) by (simp add: divide_less_0_iff)
    have i: "i = \<lceil>x / vs\<rceil> - 1" using voxel_index_eq[OF v(1)] True by simp
    have "x = of_int \<lfloor>x / vs\<rfloor> * vs \<longleftrightarrow> x / vs = of_int \<lfloor>x / vs\<rfloor>" using assms(2) by (simp add: field_simps)
    then show ?thesis using i neg by (simp add: ceiling_altdef)
  next
    case False
    then show ?thesis using voxel_index_eq[OF v(1)] assms(2) by (simp add: divide_less_0_iff)
  qed
  then show ?thesis using c[OF v(1)] c[OF v(2)] c[OF v(3)] by simp
qed

theorem position_contains_witness:
  "(case center_of (1 / 2) (20, - 3, 0) of (cx, cy, cz) \<Rightarrow> \<bar>102 / 10 - cx\<bar> \<le> 1 / 2 / 2) \<and> \<lfloor>(102 / 10 :: rat) / (1 / 2)\<rfloor> = 20"
proof -
  have "position (1 / 2) (102 / 10, - 1, 1 / 10) = Inr (20, - 3, 0)"
    by (simp add: voxel_index_def scaled_def truncate_rat_def int64_def floor_eq_iff)
  from position_contains[OF this] show ?thesis by (simp add: floor_eq_iff)
qed

text \<open>
  neighbour_away: the neighbour that is tried when a point finds no plane in its own voxel should
  be the nearest one, or none when the point is in the middle of its voxel.
  With voxels of at most half a metre - the default size - it is always the one
  farther from the origin, wherever in its voxel the point lies, except in the
  voxels next to the origin.
\<close>
theorem neighbour_away:
  assumes "voxel_index vs c = Inr i" "0 < vs" "vs \<le> 1 / 2" "i \<noteq> 0" "\<bar>i\<bar> < 2 ^ 62"
  shows "near_index (scaled vs c) ((1 / 2 + of_int i) * vs) (vs / 4) i = Inr (i + sgn i)"
proof (cases "0 < i")
  case True
  have l: "of_int i \<le> scaled vs c"
    using voxel_index_bounds[OF assms(1,2)] True assms(2) by (simp add: scaled_def field_simps divide_less_0_iff)
  have "(1 / 2 + of_int i) * vs + vs / 4 = (of_int i + 3 / 4) * vs" by (simp add: field_simps)
  also have "\<dots> \<le> (of_int i + 3 / 4) * (1 / 2)" using assms(3) True by (intro mult_left_mono) simp_all
  also have "\<dots> < of_int i" using True by (simp add: field_simps)
  finally show ?thesis using l True assms(5) by (simp add: near_index_def int64_def)
next
  case False
  have neg: "i < 0" using False assms(4) by simp
  then have "\<not> 0 \<le> c" using voxel_index_bounds(3)[OF assms(1,2)] by simp
  then have "c / vs < 0" using assms(2) by (simp add: divide_less_0_iff)
  then have l: "scaled vs c \<le> of_int i"
    using voxel_index_bounds(2)[OF assms(1,2)] assms(2) by (simp add: scaled_def field_simps)
  have "(of_int i + 1 / 4 :: rat) \<le> 0"
  proof -
    have "(of_int i :: rat) \<le> of_int (- 1)" using neg by (intro of_int_le_iff[THEN iffD2]) simp
    then show ?thesis by simp
  qed
  then have "(of_int i + 1 / 4) * (1 / 2) \<le> (of_int i + 1 / 4) * vs" using assms(3) by (intro mult_left_mono_neg)
  then have "of_int i < (1 / 2 + of_int i) * vs - vs / 4" using neg by (simp add: field_simps)
  moreover have "\<not> (1 / 2 + of_int i) * vs + vs / 4 < scaled vs c"
    using calculation l assms(2) by simp
  ultimately show ?thesis using l neg assms(5) by (simp add: near_index_def int64_def)
qed

theorem neighbour_away_witness:
  "near_index (scaled (1 / 2) (1025 / 100)) ((1 / 2 + of_int 20) * (1 / 2)) (1 / 2 / 4) 20 = Inr (20 + sgn 20)"
  by (rule neighbour_away) (simp_all add: voxel_index_def scaled_def truncate_rat_def int64_def floor_eq_iff)

lemma jet_range: "0 \<le> v \<Longrightarrow> v \<le> 1 \<Longrightarrow> jet_rgb v = (r, g, b) \<Longrightarrow>
    0 \<le> r \<and> r \<le> 1 \<and> 0 \<le> g \<and> g \<le> 1 \<and> 0 \<le> b \<and> b \<le> 1"
  by (auto simp: jet_rgb_def split: if_splits)

text \<open>
  jet_bytes: the colours of planes are bytes: whatever the value, no conversion to a byte is out
  of range.
\<close>
theorem jet_bytes:
  shows "\<exists>r g b. MapJet v 0 1 = Inr (r, g, b) \<and> 0 \<le> r \<and> r < 256 \<and> 0 \<le> g \<and> g < 256 \<and> 0 \<le> b \<and> b < 256"
proof -
  let ?v = "if 1 < (if v < 0 then 0 else v) then 1 else if v < 0 then 0 else v"
  obtain r g b where j: "jet_rgb ?v = (r, g, b)" by (metis prod_cases3)
  have u: "0 \<le> r \<and> r \<le> 1 \<and> 0 \<le> g \<and> g \<le> 1 \<and> 0 \<le> b \<and> b \<le> 1"
    using jet_range[OF _ _ j] by simp
  have c: "\<exists>i. byte_of (255 * x) = Inr i \<and> 0 \<le> i \<and> i < 256" if "0 \<le> x" "x \<le> 1" for x
    using that by (simp add: byte_of_def truncate_rat_def floor_less_iff)
  obtain r' g' b' where "byte_of (255 * r) = Inr r' \<and> 0 \<le> r' \<and> r' < 256"
    "byte_of (255 * g) = Inr g' \<and> 0 \<le> g' \<and> g' < 256" "byte_of (255 * b) = Inr b' \<and> 0 \<le> b' \<and> b' < 256"
    using c u by meson
  then show ?thesis using j by (simp add: MapJet_def Let_def)
qed

section \<open>The list in the order of use\<close>

text \<open>
  Running over requests: the keys of a store whose every step moves a key to the
  front and cuts the list off.
\<close>

definition recent :: "'k list \<Rightarrow> 'k list \<Rightarrow> 'k list" where
  "recent ks old = fold (\<lambda>k l. k # remove1 k l) ks old"

lemma take_touch: "take c (k # remove1 k (take c l)) = take c (k # remove1 k l)" if "distinct l"
proof (cases "k \<in> set l")
  case True
  then obtain a b where l: "l = a @ k # b" by (meson split_list)
  then have l: "l = a @ k # b" "k \<notin> set a" "k \<notin> set b" using that by simp_all
  have r: "remove1 k l = a @ b" using l by (simp add: remove1_append)
  show ?thesis
  proof (cases "c \<le> length a")
    case True
    then have "k \<notin> set (take c l)" using l by (auto dest: in_set_takeD)
    then show ?thesis using True r l by (cases c) (simp_all add: remove1_idem)
  next
    case False
    then obtain m where c: "c = Suc (length a + m)" by (metis less_imp_Suc_add not_le)
    have "take c l = a @ k # take m b" using c l by simp
    moreover have "k \<notin> set (take m b)" using l(3) by (meson in_set_takeD)
    ultimately have "remove1 k (take c l) = a @ take m b" using l(2) by (simp add: remove1_append)
    then show ?thesis using r c by simp
  qed
next
  case False
  then have "k \<notin> set (take c l)" by (meson in_set_takeD)
  then show ?thesis using False by (cases c) (auto simp: remove1_idem min_def)
qed

lemma distinct_touch: "distinct l \<Longrightarrow> distinct (k # remove1 k l)"
  by simp

locale recency =
  fixes step :: "'p \<Rightarrow> 's \<Rightarrow> 's res" and key :: "'p \<Rightarrow> 'k option" and keys :: "'s \<Rightarrow> 'k list"
    and inv :: "'s \<Rightarrow> bool" and cap :: "'s \<Rightarrow> nat"
  assumes step_ok: "inv s \<Longrightarrow> step p s = Inr s' \<Longrightarrow> inv s' \<and> cap s' = cap s
      \<and> (\<exists>k. key p = Some k \<and> keys s' = take (cap s) (k # remove1 k (keys s)))"
    and keys_ok: "inv s \<Longrightarrow> distinct (keys s) \<and> length (keys s) \<le> cap s"
begin

lemma run_ok:
  "inv s \<Longrightarrow> foldR step ps s = Inr s' \<Longrightarrow> inv s' \<and> cap s' = cap s
    \<and> (\<exists>ks. map key ps = map Some ks \<and> (\<forall>old. distinct old \<and> keys s = take (cap s) old \<longrightarrow> keys s' = take (cap s) (recent ks old)))"
proof (induction ps arbitrary: s)
  case Nil
  then show ?case by (auto simp: recent_def)
next
  case (Cons p ps)
  then obtain u where u: "step p s = Inr u" "foldR step ps u = Inr s'" by (auto simp: bindR_eq_Inr)
  obtain k where k: "inv u" "cap u = cap s" "key p = Some k" "keys u = take (cap s) (k # remove1 k (keys s))"
    using step_ok[OF Cons.prems(1) u(1)] by blast
  obtain ks where ks: "inv s'" "cap s' = cap u" "map key ps = map Some ks"
    "\<forall>old. distinct old \<and> keys u = take (cap u) old \<longrightarrow> keys s' = take (cap u) (recent ks old)"
    using Cons.IH[OF k(1) u(2)] by blast
  have "keys s' = take (cap s) (recent (k # ks) old)" if o: "distinct old" "keys s = take (cap s) old" for old
    using ks(4) o k(2,4) take_touch[OF o(1), of "cap s" k] by (simp add: recent_def)
  then show ?case using ks k by (intro conjI exI[of _ "k # ks"]) simp_all
qed

text \<open>The store holds what was asked for last.\<close>

lemma run_keys:
  assumes "inv s" "foldR step ps s = Inr s'"
  shows "\<exists>ks. map key ps = map Some ks \<and> keys s' = take (cap s) (recent ks (keys s)) \<and> length (keys s') \<le> cap s"
proof -
  have "distinct (keys s)" "keys s = take (cap s) (keys s)" using keys_ok[OF assms(1)] by simp_all
  moreover have "length (keys s') \<le> cap s" using run_ok[OF assms] keys_ok[of s'] by auto
  ultimately show ?thesis using run_ok[OF assms] by blast
qed

end

text \<open>The map's invariant: the iterators and the nodes belong together.\<close>

definition linked :: "voxel_map \<Rightarrow> bool" where
  "linked s \<longleftrightarrow> distinct (map fst (vm_data s)) \<and> distinct (map (fst \<circ> snd) (vm_data s))
     \<and> (\<forall>l i. vm_map s l = Some i \<longleftrightarrow> (\<exists>t. (i, l, t) \<in> set (vm_data s))) \<and> (\<forall>e \<in> set (vm_data s). fst e < next_node s)"

lemma linkedD:
  assumes "linked s"
  shows "distinct (map fst (vm_data s))" "distinct (map (fst \<circ> snd) (vm_data s))"
    "vm_map s l = Some i \<longleftrightarrow> (\<exists>t. (i, l, t) \<in> set (vm_data s))" "e \<in> set (vm_data s) \<Longrightarrow> fst e < next_node s"
  using assms unfolding linked_def by blast+

lemma linkedI:
  assumes "distinct (map fst (vm_data s))" "distinct (map (fst \<circ> snd) (vm_data s))"
    "\<And>l i. vm_map s l = Some i \<longleftrightarrow> (\<exists>t. (i, l, t) \<in> set (vm_data s))" "\<And>e. e \<in> set (vm_data s) \<Longrightarrow> fst e < next_node s"
  shows "linked s"
  using assms unfolding linked_def by blast

lemma same_node:
  assumes "linked s" "(i, l, t) \<in> set (vm_data s)" "(j, m, u) \<in> set (vm_data s)"
  shows "j = i \<longleftrightarrow> m = l"
proof
  assume "j = i"
  then have "(l, t) = (m, u)" using linkedD(1)[OF assms(1)] assms(2,3) by (metis eq_key_imp_eq_value)
  then show "m = l" by simp
next
  assume "m = l"
  have "(i, l, t) = (j, m, u)"
  proof (rule inj_onD[of "fst \<circ> snd" "set (vm_data s)"])
    show "inj_on (fst \<circ> snd) (set (vm_data s))" using linkedD(2)[OF assms(1)] by (simp add: distinct_map)
  qed (use \<open>m = l\<close> assms(2,3) in simp_all)
  then show "j = i" by simp
qed

definition contents :: "voxel_map \<Rightarrow> (loc \<times> octree) list" where
  "contents s = map snd (vm_data s)"

definition voxel_keys :: "voxel_map \<Rightarrow> loc list" where
  "voxel_keys s = map fst (contents s)"

lemma linked_lookup:
  assumes "linked s"
  shows "vm_map s l = Some i \<Longrightarrow> \<exists>t. tree_at l s = Inr t \<and> node_tree i s = Inr t \<and> map_of (vm_data s) i = Some (l, t) \<and> map_of (contents s) l = Some t"
    and "vm_map s l = None \<longleftrightarrow> l \<notin> set (voxel_keys s)"
proof -
  assume m: "vm_map s l = Some i"
  then obtain t where t: "(i, l, t) \<in> set (vm_data s)" using linkedD(3)[OF assms] by blast
  then have "map_of (vm_data s) i = Some (l, t)" using linkedD(1)[OF assms] by simp
  moreover have "map_of (contents s) l = Some t"
    using t linkedD(2)[OF assms] by (intro map_of_is_SomeI) (force simp: contents_def)+
  ultimately show "\<exists>t. tree_at l s = Inr t \<and> node_tree i s = Inr t \<and> map_of (vm_data s) i = Some (l, t) \<and> map_of (contents s) l = Some t"
    using m by (simp add: tree_at_def node_tree_def)
next
  have "l \<in> set (voxel_keys s) \<longleftrightarrow> (\<exists>i. vm_map s l = Some i)"
    unfolding linkedD(3)[OF assms] by (force simp: voxel_keys_def contents_def)
  then show "vm_map s l = None \<longleftrightarrow> l \<notin> set (voxel_keys s)" by (cases "vm_map s l") auto
qed

lemma set_tree_mem: "(\<exists>u. (j, l, u) \<in> set (vm_data (set_tree i t s))) \<longleftrightarrow> (\<exists>u. (j, l, u) \<in> set (vm_data s))"
proof
  assume "\<exists>u. (j, l, u) \<in> set (vm_data s)"
  then obtain u where "(j, l, u) \<in> set (vm_data s)" by blast
  then show "\<exists>u. (j, l, u) \<in> set (vm_data (set_tree i t s))"
    by (intro exI[of _ "if j = i then t else u"]) (force simp: set_tree_def image_iff)
qed (force simp: set_tree_def split: if_splits)

lemma set_tree_ids: "map fst (vm_data (set_tree i t s)) = map fst (vm_data s)"
  "map (fst \<circ> snd) (vm_data (set_tree i t s)) = map (fst \<circ> snd) (vm_data s)"
  by (auto simp: set_tree_def)

lemma linked_set_tree: "linked s \<Longrightarrow> linked (set_tree i t s)"
proof (rule linkedI)
  assume a: "linked s"
  show "vm_map (set_tree i t s) l = Some j \<longleftrightarrow> (\<exists>u. (j, l, u) \<in> set (vm_data (set_tree i t s)))" for l j
    unfolding set_tree_mem linkedD(3)[OF a, symmetric] by (simp add: set_tree_def)
  show "fst e < next_node (set_tree i t s)" if "e \<in> set (vm_data (set_tree i t s))" for e
    using that linkedD(4)[OF a] by (force simp: set_tree_def split: if_splits)
qed (simp_all add: set_tree_ids linkedD del: map_map)

lemma contents_set_tree:
  assumes "linked s" "(i, l, u) \<in> set (vm_data s)"
  shows "contents (set_tree i t s) = map (\<lambda>(m, v). if m = l then (m, t) else (m, v)) (contents s)"
  using same_node[OF assms] by (auto simp: contents_def set_tree_def)

lemma filter_rename:
  "filter (\<lambda>e. fst e \<noteq> l) (map (\<lambda>(m, v). if m = l then (m, u) else (m, v)) xs) = filter (\<lambda>e. fst e \<noteq> l) xs"
  by (induction xs) (auto split: if_splits)

lemma touch_existing:
  assumes "linked s" "vm_map s l = Some i"
  shows "\<exists>s'. to_front i ((set_tree i u s)\<lparr>plane_ids := k\<rparr>) = Inr s' \<and> linked s' \<and> plane_ids s' = k
    \<and> lru_size s' = lru_size s \<and> contents s' = (l, u) # filter (\<lambda>e. fst e \<noteq> l) (contents s)"
proof -
  let ?s = "(set_tree i u s)\<lparr>plane_ids := k\<rparr>"
  obtain t where t: "(i, l, t) \<in> set (vm_data s)" using assms linkedD(3) by blast
  have l: "linked ?s" using linked_set_tree[OF assms(1), of i u] unfolding linked_def by simp
  have m: "(i, l, u) \<in> set (vm_data ?s)" using t by (force simp: set_tree_def)
  then have o: "map_of (vm_data ?s) i = Some (l, u)" using linkedD(1)[OF l] by simp
  let ?d = "(i, l, u) # filter (\<lambda>(j, e). j \<noteq> i) (vm_data ?s)"
  note u = same_node[OF l m]
  have mem: "(\<exists>v. (j, n, v) \<in> set ?d) \<longleftrightarrow> (\<exists>v. (j, n, v) \<in> set (vm_data ?s))" for j n
    using m u[of j n] by auto
  have "linked (?s\<lparr>vm_data := ?d\<rparr>)"
  proof (rule linkedI)
    have "i \<notin> fst ` set (filter (\<lambda>(j, e). j \<noteq> i) (vm_data ?s))" by auto
    moreover have "l \<notin> (fst \<circ> snd) ` set (filter (\<lambda>(j, e). j \<noteq> i) (vm_data ?s))"
      using u[of _ l] by auto
    ultimately show "distinct (map fst (vm_data (?s\<lparr>vm_data := ?d\<rparr>)))" "distinct (map (fst \<circ> snd) (vm_data (?s\<lparr>vm_data := ?d\<rparr>)))"
      using linkedD(1,2)[OF l] by (simp_all add: distinct_map_filter del: set_filter)
    show "vm_map (?s\<lparr>vm_data := ?d\<rparr>) n = Some j \<longleftrightarrow> (\<exists>v. (j, n, v) \<in> set (vm_data (?s\<lparr>vm_data := ?d\<rparr>)))" for n j
      using linkedD(3)[OF l, of n j] mem[of j n] by simp
    show "fst e < next_node (?s\<lparr>vm_data := ?d\<rparr>)" if "e \<in> set (vm_data (?s\<lparr>vm_data := ?d\<rparr>))" for e
      using that linkedD(4)[OF l, of e] linkedD(4)[OF l m] by auto
  qed
  moreover have "contents (?s\<lparr>vm_data := ?d\<rparr>) = (l, u) # filter (\<lambda>e. fst e \<noteq> l) (contents s)"
  proof -
    have "map snd (filter (\<lambda>(j, e). j \<noteq> i) (vm_data ?s)) = filter (\<lambda>e. fst e \<noteq> l) (map snd (vm_data ?s))"
    proof -
      have "(case e of (j, e) \<Rightarrow> j \<noteq> i) = (fst (snd e) \<noteq> l)" if "e \<in> set (vm_data ?s)" for e
        using u[of "fst e" "fst (snd e)" "snd (snd e)"] that by (simp add: split_beta)
      then show ?thesis by (simp add: filter_map comp_def cong: filter_cong)
    qed
    also have "\<dots> = filter (\<lambda>e. fst e \<noteq> l) (map (\<lambda>(m, v). if m = l then (m, u) else (m, v)) (contents s))"
      using contents_set_tree[OF assms(1) t, of u] by (simp add: contents_def)
    also have "\<dots> = filter (\<lambda>e. fst e \<noteq> l) (contents s)"
      by (rule filter_rename)
    finally show ?thesis by (simp add: contents_def)
  qed
  ultimately show ?thesis using o by (simp add: to_front_def set_tree_def)
qed

lemma push_front_linked:
  assumes "linked s" "vm_map s l = None"
  shows "linked (push_front l t s)" "contents (push_front l t s) = (l, t) # contents s"
    "tree_at l (push_front l t s) = Inr t"
proof -
  have n: "l \<notin> (fst \<circ> snd) ` set (vm_data s)"
    using assms(2) linked_lookup(2)[OF assms(1), of l] by (auto simp: voxel_keys_def contents_def)
  have n': "next_node s \<notin> fst ` set (vm_data s)"
    using linkedD(4)[OF assms(1)] by (metis imageE less_irrefl)
  note n = n n'
  show "linked (push_front l t s)"
  proof (rule linkedI)
    show "vm_map (push_front l t s) m = Some i \<longleftrightarrow> (\<exists>v. (i, m, v) \<in> set (vm_data (push_front l t s)))" for m i
      using linkedD(3)[OF assms(1), of m i] n by (force simp: push_front_def)
    show "fst e < next_node (push_front l t s)" if "e \<in> set (vm_data (push_front l t s))" for e
      using that linkedD(4)[OF assms(1), of e] by (auto simp: push_front_def less_Suc_eq)
  qed (use n linkedD(1,2)[OF assms(1)] in \<open>simp_all add: push_front_def\<close>)
qed (simp_all add: contents_def push_front_def tree_at_def node_tree_def)

lemma evict_linked:
  assumes "linked s" "vm_data s \<noteq> []"
  shows "linked (evict s)" "contents (evict s) = (if usize (lru_size s) \<le> length (vm_data s) then butlast (contents s) else contents s)"
proof -
  obtain d i l t where d: "vm_data s = d @ [(i, l, t)]" using assms(2) by (metis prod_cases3 rev_exhaust)
  have n: "l \<notin> (fst \<circ> snd) ` set d" "i \<notin> fst ` set d" using linkedD(1,2)[OF assms(1)] unfolding d by auto
  let ?s = "s\<lparr>vm_map := (vm_map s)(l := None), vm_data := d\<rparr>"
  have "linked ?s"
  proof (rule linkedI)
    show "vm_map ?s m = Some j \<longleftrightarrow> (\<exists>v. (j, m, v) \<in> set (vm_data ?s))" for m j
      using linkedD(3)[OF assms(1), of m j] n unfolding d by force
  qed (use linkedD[OF assms(1)] d in simp_all)
  then show "linked (evict s)" using assms(1) by (simp add: evict_def d)
  show "contents (evict s) = (if usize (lru_size s) \<le> length (vm_data s) then butlast (contents s) else contents s)"
    by (simp add: evict_def contents_def map_butlast)
qed

lemma length_contents: "length (contents s) = length (vm_data s)"
  by (simp add: contents_def)

lemma filter_absent: "l \<notin> set (voxel_keys s) \<Longrightarrow> filter (\<lambda>e. fst e \<noteq> l) (contents s) = contents s"
  by (auto simp: voxel_keys_def filter_id_conv)

lemma insert_evict:
  assumes "linked s" "vm_map s l = None" "length (vm_data s) < usize (lru_size s)"
  shows "linked (evict (push_front l t s))"
    "contents (evict (push_front l t s)) = take (usize (lru_size s) - 1) ((l, t) # filter (\<lambda>e. fst e \<noteq> l) (contents s))"
    "length (vm_data (evict (push_front l t s))) < usize (lru_size s)"
proof -
  note p = push_front_linked[OF assms(1,2), of t]
  have ne: "vm_data (push_front l t s) \<noteq> []" "lru_size (push_front l t s) = lru_size s"
    "length (vm_data (push_front l t s)) = Suc (length (vm_data s))" by (simp_all add: push_front_def)
  show "linked (evict (push_front l t s))" by (rule evict_linked(1)[OF p(1) ne(1)])
  have f: "filter (\<lambda>e. fst e \<noteq> l) (contents s) = contents s"
    using filter_absent linked_lookup(2)[OF assms(1)] assms(2) by simp
  have le: "length ((l, t) # contents s) = Suc (length (vm_data s))" by (simp add: length_contents)
  show c: "contents (evict (push_front l t s)) = take (usize (lru_size s) - 1) ((l, t) # filter (\<lambda>e. fst e \<noteq> l) (contents s))"
    unfolding evict_linked(2)[OF p(1) ne(1)] p(2) ne f using assms(3) le
    by (cases "usize (lru_size s) = Suc (length (vm_data s))") (simp_all add: butlast_conv_take length_contents)
  have "length (contents (evict (push_front l t s))) < usize (lru_size s)" unfolding c using assms(3) by simp
  then show "length (vm_data (evict (push_front l t s))) < usize (lru_size s)" by (simp add: length_contents)
qed

lemma insert_stays:
  assumes "length (vm_data s) < usize (lru_size s)" "2 \<le> usize (lru_size s)"
  shows "(next_node s, l, t) \<in> set (vm_data (evict (push_front l t s)))"
  using assms by (cases "vm_data s") (simp_all add: evict_def push_front_def)

text \<open>The map's invariant: the trees are well formed, hold points of their voxel only, and are placed there.\<close>

definition in_voxel :: "voxel_config \<Rightarrow> loc \<Rightarrow> vec \<Rightarrow> bool" where
  "in_voxel cfg l w \<longleftrightarrow> position (max_voxel_size cfg) w = Inr l"

definition placed :: "voxel_config \<Rightarrow> loc \<Rightarrow> octo_node \<Rightarrow> bool" where
  "placed cfg l n \<longleftrightarrow> layer n = 0 \<and> voxel_center n = center_of (max_voxel_size cfg) l \<and> quater_length n = max_voxel_size cfg / 4"

definition voxel_ok :: "voxel_config \<Rightarrow> nat \<Rightarrow> loc \<times> octree \<Rightarrow> bool" where
  "voxel_ok cfg B e \<longleftrightarrow> octo_ok cfg B (in_voxel cfg (fst e)) (snd e) \<and> placed cfg (fst e) (node (snd e))"

definition room_ok :: "voxel_map \<Rightarrow> bool" where
  "room_ok s \<longleftrightarrow> linked s \<and> length (vm_data s) < usize (lru_size s) \<and> 2 \<le> usize (lru_size s)"

definition map_ok :: "voxel_config \<Rightarrow> nat \<Rightarrow> voxel_map \<Rightarrow> bool" where
  "map_ok cfg B s \<longleftrightarrow> room_ok s \<and> (\<forall>e \<in> set (contents s). voxel_ok cfg B e)"

definition blank_tree :: "voxel_config \<Rightarrow> loc \<Rightarrow> octree" where
  "blank_tree cfg l = place cfg l (VoxelOctoTree 0 (layer_init_num cfg ! 0))"

text \<open>What a request does to the contents: the voxel comes first, with its new tree, and the list is cut off.\<close>

definition used :: "nat \<Rightarrow> loc \<Rightarrow> octree \<Rightarrow> (loc \<times> octree) list \<Rightarrow> (loc \<times> octree) list" where
  "used c l t es = take c ((l, t) # filter (\<lambda>e. fst e \<noteq> l) es)"

lemma same_placed: "same_place n m \<Longrightarrow> placed cfg l m = placed cfg l n"
  by (simp add: same_place_def placed_def)

lemma blank_tree_ok:
  assumes "cfg_ok cfg B"
  shows "voxel_ok cfg B (l, blank_tree cfg l)" "fresh_tree cfg = Inr (VoxelOctoTree 0 (layer_init_num cfg ! 0))"
proof -
  have "octo_ok cfg B R (blank_tree cfg l)" for R
    unfolding blank_tree_def place_def VoxelOctoTree_def octree.case
    by (rule octo_ok_childless) (use assms in \<open>simp_all add: node_ok_def cfg_ok_def\<close>)
  then show "voxel_ok cfg B (l, blank_tree cfg l)"
    by (simp add: voxel_ok_def placed_def blank_tree_def place_def VoxelOctoTree_def del: replicate.simps)
  show "fresh_tree cfg = Inr (VoxelOctoTree 0 (layer_init_num cfg ! 0))"
    using assms by (cases "layer_init_num cfg") (auto simp: fresh_tree_def cfg_ok_def)
qed

lemma set_used: "e \<in> set (used c l t es) \<Longrightarrow> e = (l, t) \<or> e \<in> set es"
  unfolding used_def by (auto dest!: in_set_takeD)

lemma touch_spec:
  assumes "room_ok s" "vm_map s l = Some i"
  shows "\<exists>s'. to_front i ((set_tree i u s)\<lparr>plane_ids := k\<rparr>) = Inr s' \<and> room_ok s' \<and> plane_ids s' = k
    \<and> lru_size s' = lru_size s \<and> contents s' = used (usize (lru_size s) - 1) l u (contents s)"
proof -
  have r: "linked s" "length (vm_data s) < usize (lru_size s)" "2 \<le> usize (lru_size s)"
    using assms(1) by (simp_all add: room_ok_def)
  obtain s' where s': "to_front i ((set_tree i u s)\<lparr>plane_ids := k\<rparr>) = Inr s'" "linked s'" "plane_ids s' = k"
    "lru_size s' = lru_size s" "contents s' = (l, u) # filter (\<lambda>e. fst e \<noteq> l) (contents s)"
    using touch_existing[OF r(1) assms(2)] by blast
  obtain t where "(l, t) \<in> set (contents s)"
    using linked_lookup(1)[OF r(1) assms(2)] by (blast dest: map_of_SomeD)
  then have "length (filter (\<lambda>e. fst e \<noteq> l) (contents s)) < length (contents s)"
    by (intro length_filter_less[of "(l, t)"]) simp_all
  then have len: "length (contents s') \<le> usize (lru_size s) - 1" using s'(5) r(2) by (simp add: length_contents)
  then have "length (vm_data s') < usize (lru_size s)" using r(3) by (simp add: length_contents)
  moreover have "contents s' = used (usize (lru_size s) - 1) l u (contents s)"
    using len s'(5) by (simp add: used_def)
  ultimately show ?thesis using s' r(3) by (auto simp: room_ok_def)
qed

lemma insert_spec:
  assumes "room_ok s" "vm_map s l = None"
  shows "room_ok (evict (push_front l t s))" "lru_size (evict (push_front l t s)) = lru_size s"
    "plane_ids (evict (push_front l t s)) = plane_ids s" "tree_at l (evict (push_front l t s)) = Inr t"
    "contents (evict (push_front l t s)) = used (usize (lru_size s) - 1) l t (contents s)"
    "room_ok ((set_tree (next_node s) u (evict (push_front l t s)))\<lparr>plane_ids := k\<rparr>)"
    "contents ((set_tree (next_node s) u (evict (push_front l t s)))\<lparr>plane_ids := k\<rparr>) = used (usize (lru_size s) - 1) l u (contents s)"
proof -
  let ?s = "evict (push_front l t s)"
  have r: "linked s" "length (vm_data s) < usize (lru_size s)" "2 \<le> usize (lru_size s)"
    using assms(1) by (simp_all add: room_ok_def)
  note p = insert_evict[OF r(1) assms(2) r(2), of t]
  show l: "lru_size ?s = lru_size s" "plane_ids ?s = plane_ids s" by (simp_all add: evict_def push_front_def)
  show ok: "room_ok ?s" using p r(3) l by (simp add: room_ok_def)
  show c: "contents ?s = used (usize (lru_size s) - 1) l t (contents s)" using p(2) by (simp add: used_def)
  note m = insert_stays[OF r(2,3), of l t]
  have "vm_map ?s l = Some (next_node s)" using m linkedD(3)[OF p(1)] by blast
  then show "tree_at l ?s = Inr t"
    using m linkedD(1)[OF p(1)] by (simp add: tree_at_def node_tree_def)
  let ?q = "(set_tree (next_node s) u ?s)\<lparr>plane_ids := k\<rparr>"
  have "linked ?q" using linked_set_tree[OF p(1), of "next_node s" u] unfolding linked_def by simp
  moreover have "length (vm_data ?q) = length (vm_data ?s)" "lru_size ?q = lru_size s" by (simp_all add: set_tree_def l)
  ultimately show "room_ok ?q" using ok l by (simp add: room_ok_def)
  obtain d where d: "usize (lru_size s) - 1 = Suc d" using r(3) by (cases "usize (lru_size s) - 1") simp_all
  have "contents ?q = map (\<lambda>(m, v). if m = l then (m, u) else (m, v)) (contents ?s)"
    using contents_set_tree[OF p(1) m, of u] by (simp add: contents_def)
  also have "\<dots> = used (usize (lru_size s) - 1) l u (contents s)"
  proof -
    have "map (\<lambda>(m, v). if m = l then (m, u) else (m, v)) (take d (filter (\<lambda>e. fst e \<noteq> l) es)) = take d (filter (\<lambda>e. fst e \<noteq> l) es)" for es
      by (rule map_idI) (auto dest!: in_set_takeD split: if_splits)
    then show ?thesis unfolding c used_def d by simp
  qed
  finally show "contents ?q = used (usize (lru_size s) - 1) l u (contents s)" .
qed

lemma update_point_spec:
  assumes "cfg_ok cfg B" "map_ok cfg B s" "position (max_voxel_size cfg) (point_w pv) = Inr l"
  shows "(\<exists>u s'. UpdateOctoTree nm cfg pv (case map_of (contents s) l of Some t \<Rightarrow> t | None \<Rightarrow> blank_tree cfg l) (plane_ids s)
        = Inr (u, plane_ids s') \<and> update_point nm cfg pv s = Inr s' \<and> map_ok cfg B s' \<and> lru_size s' = lru_size s
        \<and> contents s' = used (usize (lru_size s) - 1) l u (contents s))
    \<or> update_point nm cfg pv s = Inl OutOfBounds \<and> \<not> fit_ok nm"
proof -
  have r: "room_ok s" "linked s" and v: "\<forall>e \<in> set (contents s). voxel_ok cfg B e"
    using assms(2) by (simp_all add: map_ok_def room_ok_def)
  let ?t = "case map_of (contents s) l of Some t \<Rightarrow> t | None \<Rightarrow> blank_tree cfg l"
  have t: "voxel_ok cfg B (l, ?t)"
    using v blank_tree_ok(1)[OF assms(1)] by (cases "map_of (contents s) l") (auto dest: map_of_SomeD)
  have "in_voxel cfg l (point_w pv)" using assms(3) by (simp add: in_voxel_def)
  then consider u k where "UpdateOctoTree nm cfg pv ?t (plane_ids s) = Inr (u, k)" "voxel_ok cfg B (l, u)"
    | "UpdateOctoTree nm cfg pv ?t (plane_ids s) = Inl OutOfBounds" "\<not> fit_ok nm"
    using UpdateOctoTree_cases[OF assms(1), of "in_voxel cfg l" ?t pv nm "plane_ids s"] t
    unfolding voxel_ok_def using same_placed[of _ _ cfg l] by (auto split del: option.split)
  then show ?thesis
  proof cases
    case (1 u k)
    have ok: "\<forall>e \<in> set (used (usize (lru_size s) - 1) l u (contents s)). voxel_ok cfg B e"
      using set_used v 1(2) by blast
    show ?thesis
    proof (cases "vm_map s l")
      case None
      then have n: "map_of (contents s) l = None"
        using linked_lookup(2)[OF r(2), of l] by (simp add: voxel_keys_def map_of_eq_None_iff)
      note i = insert_spec(2-5)[OF r(1) None, where t = "VoxelOctoTree 0 (layer_init_num cfg ! 0)"]
        insert_spec(6,7)[OF r(1) None, where t = "VoxelOctoTree 0 (layer_init_num cfg ! 0)" and u = u and k = k]
      show ?thesis using 1(1) n assms(3) None blank_tree_ok(2)[OF assms(1)] i ok
        by (simp add: update_point_def Let_def map_ok_def blank_tree_def set_tree_def)
    next
      case (Some i)
      obtain t where t: "tree_at l s = Inr t" "map_of (contents s) l = Some t" using linked_lookup(1)[OF r(2) Some] by blast
      show ?thesis using 1(1) t assms(3) Some touch_spec[OF r(1) Some, where u = u and k = k] ok
        by (auto simp: update_point_def map_ok_def)
    qed
  next
    case 2
    have "update_point nm cfg pv s = Inl OutOfBounds"
    proof (cases "vm_map s l")
      case None
      then have n: "map_of (contents s) l = None"
        using linked_lookup(2)[OF r(2), of l] by (simp add: voxel_keys_def map_of_eq_None_iff)
      note i = insert_spec(2-5)[OF r(1) None, where t = "VoxelOctoTree 0 (layer_init_num cfg ! 0)"]
      show ?thesis using 2(1) n assms(3) None blank_tree_ok(2)[OF assms(1)] i
        by (simp add: update_point_def Let_def blank_tree_def)
    next
      case (Some i)
      obtain t where t: "tree_at l s = Inr t" "map_of (contents s) l = Some t" using linked_lookup(1)[OF r(2) Some] by blast
      show ?thesis using 2(1) t assms(3) Some by (simp add: update_point_def)
    qed
    then show ?thesis using 2(2) by blast
  qed
qed

definition voxel_of :: "voxel_config \<Rightarrow> point_with_var \<Rightarrow> loc option" where
  "voxel_of cfg pv = (case position (max_voxel_size cfg) (point_w pv) of Inl e \<Rightarrow> None | Inr l \<Rightarrow> Some l)"

lemma map_ok_keys: "room_ok s \<Longrightarrow> distinct (voxel_keys s) \<and> length (voxel_keys s) \<le> usize (lru_size s) - 1"
  by (auto simp: room_ok_def linked_def voxel_keys_def contents_def)

lemma keys_used: "map fst (used c l t es) = take c (l # remove1 l (map fst es))" if "distinct (map fst es)"
proof -
  have "map fst (filter (\<lambda>e. fst e \<noteq> l) es) = remove1 l (map fst es)"
    using that by (simp add: distinct_remove1_removeAll removeAll_filter_not_eq filter_map comp_def eq_commute)
  then show ?thesis by (simp add: used_def take_map[symmetric])
qed

lemma update_point_position: "update_point nm cfg pv s = Inr s' \<Longrightarrow> \<exists>l. position (max_voxel_size cfg) (point_w pv) = Inr l"
  by (auto simp: update_point_def bindR_eq_Inr)

interpretation upd: recency "update_point nm cfg" "voxel_of cfg" voxel_keys "\<lambda>s. cfg_ok cfg B \<and> map_ok cfg B s"
    "\<lambda>s. usize (lru_size s) - 1" for nm cfg B
proof unfold_locales
  fix s pv s' assume a: "cfg_ok cfg B \<and> map_ok cfg B s" "update_point nm cfg pv s = Inr s'"
  obtain l where l: "position (max_voxel_size cfg) (point_w pv) = Inr l" using update_point_position[OF a(2)] by blast
  obtain u where u: "map_ok cfg B s'" "lru_size s' = lru_size s" "contents s' = used (usize (lru_size s) - 1) l u (contents s)"
    using update_point_spec[OF conjunct1[OF a(1)] conjunct2[OF a(1)] l, of nm] a(2) by auto
  have "distinct (map fst (contents s))" using a(1) map_ok_keys by (simp add: map_ok_def voxel_keys_def)
  then have "voxel_keys s' = take (usize (lru_size s) - 1) (l # remove1 l (voxel_keys s))"
    using keys_used u(3) by (simp add: voxel_keys_def)
  then show "(cfg_ok cfg B \<and> map_ok cfg B s') \<and> usize (lru_size s') - 1 = usize (lru_size s) - 1
      \<and> (\<exists>k. voxel_of cfg pv = Some k \<and> voxel_keys s' = take (usize (lru_size s) - 1) (k # remove1 k (voxel_keys s)))"
    using u a(1) l by (simp add: voxel_of_def)
qed (simp add: map_ok_keys[simplified] map_ok_def)

text \<open>
  C15 voxel_update: a point goes into the tree of its voxel: with the map read as the list of its
  voxels in the order of use, the voxel comes to the front with the tree that
  the point was added to - a new one when there was none - the others keep their
  trees, and what exceeds lru_size less one is dropped.  The map stays well
  formed: the table finds exactly the voxels of the list, and every tree is well
  formed, in its place, and holds points of its voxel only.  It fails only for
  coordinates too large for an index, and where the fit does.
\<close>
theorem voxel_update:
  assumes "cfg_ok cfg B" "map_ok cfg B s"
  shows "case update_point nm cfg pv s of
      Inl e \<Rightarrow> e = Undefined \<and> voxel_of cfg pv = None \<or> e = OutOfBounds \<and> \<not> fit_ok nm
    | Inr s' \<Rightarrow> map_ok cfg B s' \<and> (\<exists>l u. voxel_of cfg pv = Some l
        \<and> UpdateOctoTree nm cfg pv (case map_of (contents s) l of Some t \<Rightarrow> t | None \<Rightarrow> blank_tree cfg l) (plane_ids s)
            = Inr (u, plane_ids s')
        \<and> contents s' = used (usize (lru_size s) - 1) l u (contents s))"
proof (cases "position (max_voxel_size cfg) (point_w pv)")
  case (Inl e)
  have "e = Undefined"
    using Inl by (cases "point_w pv") (auto simp: voxel_index_def int64_def bindR_def split: if_splits sum.splits)
  then show ?thesis using Inl by (simp add: update_point_def voxel_of_def)
next
  case (Inr l)
  then show ?thesis using update_point_spec[OF assms Inr, of nm] by (auto simp: voxel_of_def)
qed

definition empty_map :: "int \<Rightarrow> voxel_map" where
  "empty_map n = \<lparr>vm_data = [], vm_map = Map.empty, next_node = 0, plane_ids = 0, lru_size = n,
     position_last = (0, 0, 0), last_slide_position = (0, 0, 0)\<rparr>"

lemma empty_map_ok: "2 \<le> n \<Longrightarrow> n < 2 ^ 64 \<Longrightarrow> map_ok cfg B (empty_map n)"
proof -
  assume a: "2 \<le> n" "n < 2 ^ 64"
  then have "usize n = nat n" by (simp add: usize_def)
  then show ?thesis using a(1) by (simp add: map_ok_def room_ok_def linked_def empty_map_def contents_def)
qed

theorem voxel_update_witness:
  "\<exists>s'. update_point spread_solver small_cfg (sample_point 1 2 3) (empty_map 1000000) = Inr s' \<and> map_ok small_cfg 50 s'"
proof -
  have "voxel_of small_cfg (sample_point 1 2 3) = Some (2, 4, 6)"
    by (simp add: voxel_of_def small_cfg_def sample_point_def voxel_index_def scaled_def truncate_rat_def int64_def)
  moreover have "fit_ok spread_solver" by (simp add: fit_ok_def spread_solver_def)
  ultimately show ?thesis
    using voxel_update[OF small_cfg_ok, where s = "empty_map 1000000" and nm = spread_solver and pv = "sample_point 1 2 3"] empty_map_ok[of 1000000]
    by (cases "update_point spread_solver small_cfg (sample_point 1 2 3) (empty_map 1000000)") auto
qed

text \<open>
  C18 lru_order: after any sequence of points the map holds the voxels used last, in the order of
  use, and never more than lru_size less one: the limit is tested after the new
  voxel has been counted.
\<close>
theorem lru_order:
  assumes "cfg_ok cfg B" "map_ok cfg B s" "UpdateVoxelMapLRU nm cfg pvs s = Inr s'"
  shows "\<exists>ls. map (voxel_of cfg) pvs = map Some ls
    \<and> voxel_keys s' = take (usize (lru_size s) - 1) (recent ls (voxel_keys s))
    \<and> length (voxel_keys s') \<le> usize (lru_size s) - 1"
  using upd.run_keys[of cfg B s nm pvs s'] assms by (simp add: UpdateVoxelMapLRU_def)

theorem lru_order_witness:
  "\<exists>s' ls. UpdateVoxelMapLRU spread_solver small_cfg [sample_point 1 2 3] (empty_map 1000000) = Inr s'
     \<and> map (voxel_of small_cfg) [sample_point 1 2 3] = map Some ls"
proof -
  have v: "voxel_of small_cfg (sample_point 1 2 3) = Some (2, 4, 6)" "fit_ok spread_solver"
    by (simp_all add: voxel_of_def small_cfg_def sample_point_def voxel_index_def scaled_def truncate_rat_def int64_def
        fit_ok_def spread_solver_def)
  have m: "map_ok small_cfg 50 (empty_map 1000000)" by (simp add: empty_map_ok)
  have "position (max_voxel_size small_cfg) (point_w (sample_point 1 2 3)) = Inr (2, 4, 6)"
    using v(1) by (simp add: voxel_of_def split: sum.splits)
  from update_point_spec[OF small_cfg_ok m this, of spread_solver] obtain s' where
    "update_point spread_solver small_cfg (sample_point 1 2 3) (empty_map 1000000) = Inr s'" using v(2) by blast
  then have u: "UpdateVoxelMapLRU spread_solver small_cfg [sample_point 1 2 3] (empty_map 1000000) = Inr s'"
    by (simp add: UpdateVoxelMapLRU_def)
  show ?thesis using u lru_order[OF small_cfg_ok m u] by blast
qed

section \<open>Matching\<close>

text \<open>The planes a point is compared with, in the order of the traversal.\<close>

function planes_of :: "voxel_config \<Rightarrow> octree \<Rightarrow> int \<Rightarrow> (int \<times> voxel_plane) list" where
  "planes_of cfg (Octo n ls) l = (if is_plane (plane n) then [(l, plane n)]
     else if l < max_layer cfg then concat (map (\<lambda>x. case x of None \<Rightarrow> [] | Some t \<Rightarrow> planes_of cfg t (l + 1)) ls)
     else [])"
  by pat_completeness auto
termination
  by (relation "measure (\<lambda>(cfg, t, l). size t)") (auto intro!: leaf_in_size simp del: octree.size)

declare planes_of.simps [simp del]

lemma fold_concat_map: "fold f (concat (map g xs)) m = fold (\<lambda>x. fold f (g x)) xs m"
  by (induction xs arbitrary: m) simp_all

lemma BuildSingleResidual_fold: "BuildSingleResidual nm cfg pv t l m = fold (try_plane nm cfg pv) (planes_of cfg t l) m"
proof (induction cfg t l arbitrary: m rule: planes_of.induct)
  case (1 cfg n ls l)
  show ?case
  proof (cases "\<not> is_plane (plane n) \<and> l < max_layer cfg")
    case True
    have "fold (\<lambda>x m. case x of None \<Rightarrow> m | Some t \<Rightarrow> BuildSingleResidual nm cfg pv t (l + 1) m) ls m
        = fold (\<lambda>x. fold (try_plane nm cfg pv) (case x of None \<Rightarrow> [] | Some t \<Rightarrow> planes_of cfg t (l + 1))) ls m"
      by (rule fold_cong[OF refl refl]) (use 1 True in \<open>auto split: option.splits\<close>)
    then show ?thesis using True by (simp add: BuildSingleResidual.simps planes_of.simps fold_concat_map)
  next
    case False
    then show ?thesis by (auto simp: BuildSingleResidual.simps planes_of.simps)
  qed
qed

text \<open>The square root and the exponential are positive where they should be.\<close>

definition libm_ok :: "numeric \<Rightarrow> bool" where
  "libm_ok nm \<longleftrightarrow> sqrtf nm 0 = 0 \<and> (\<forall>x > 0. 0 < sqrtf nm x) \<and> (\<forall>x. 0 < expf nm x)"

lemma probability_pos: "libm_ok nm \<Longrightarrow> matches nm cfg pv pl \<Longrightarrow> 0 < probability nm pv pl"
proof -
  assume a: "libm_ok nm" "matches nm cfg pv pl"
  then obtain v where v: "sigma_l pl pv = Some v" "0 \<le> v" "\<bar>plane_distance pl (point_w pv)\<bar> < sigma_num cfg * sqrtf nm v"
    by (auto simp: matches_def split: option.splits)
  have "v \<noteq> 0" using v(3) a(1) by (auto simp: libm_ok_def)
  then have "0 < sqrtf nm v" using v(2) a(1) by (simp add: libm_ok_def)
  then show ?thesis using v(1) a(1) by (simp add: probability_def libm_ok_def)
qed

text \<open>What has been found after the planes of a list.\<close>

definition best_of :: "numeric \<Rightarrow> voxel_config \<Rightarrow> point_with_var \<Rightarrow> (int \<times> voxel_plane) list \<Rightarrow> match \<Rightarrow> bool" where
  "best_of nm cfg pv ps m = (case m of (found, prob, best) \<Rightarrow>
     let cs = filter (\<lambda>(l, pl). matches nm cfg pv pl) ps in
     if cs = [] then m = (False, 0, None)
     else found \<and> (\<exists>l pl. (l, pl) \<in> set cs \<and> prob = probability nm pv pl \<and> best = Some (residual pv l pl)
       \<and> (\<forall>(l', pl') \<in> set cs. probability nm pv pl' \<le> prob)))"

lemma best_of_snoc:
  assumes "libm_ok nm" "best_of nm cfg pv ps m"
  shows "best_of nm cfg pv (ps @ [p]) (try_plane nm cfg pv p m)"
proof -
  obtain l pl where p: "p = (l, pl)" by (cases p)
  obtain found prob best where m: "m = (found, prob, best)" by (cases m)
  let ?cs = "filter (\<lambda>(l, pl). matches nm cfg pv pl) ps"
  show ?thesis
  proof (cases "matches nm cfg pv pl")
    case False
    then show ?thesis using assms(2) by (simp add: best_of_def p m)
  next
    case True
    note pos = probability_pos[OF assms(1) True]
    show ?thesis
    proof (cases "?cs = []")
      case True
      then have "m = (False, 0, None)" using assms(2) by (simp add: best_of_def m)
      then show ?thesis using \<open>matches nm cfg pv pl\<close> pos True by (simp add: best_of_def p)
    next
      case False
      then obtain l' pl' where b: "found" "(l', pl') \<in> set ?cs" "prob = probability nm pv pl'" "best = Some (residual pv l' pl')"
        "\<forall>(l', pl') \<in> set ?cs. probability nm pv pl' \<le> prob"
        using assms(2) by (auto simp: best_of_def m Let_def)
      show ?thesis
      proof (cases "prob < probability nm pv pl")
        case True
        then have "\<forall>(l', pl') \<in> set (?cs @ [(l, pl)]). probability nm pv pl' \<le> probability nm pv pl"
          using b(5) by fastforce
        then show ?thesis using \<open>matches nm cfg pv pl\<close> True False
          by (auto simp: best_of_def p m Let_def)
      next
        case le: False
        then have "\<forall>(l', pl') \<in> set (?cs @ [(l, pl)]). probability nm pv pl' \<le> prob" using b(5) by auto
        moreover have "(l', pl') \<in> set (?cs @ [(l, pl)])" using b(2) by simp
        ultimately have "\<exists>l' pl'. (l', pl') \<in> set (?cs @ [(l, pl)]) \<and> prob = probability nm pv pl' \<and> best = Some (residual pv l' pl')
            \<and> (\<forall>(l', pl') \<in> set (?cs @ [(l, pl)]). probability nm pv pl' \<le> prob)" using b(3,4) by blast
        then show ?thesis using \<open>matches nm cfg pv pl\<close> le False
          by (simp add: best_of_def p m Let_def)
      qed
    qed
  qed
qed

lemma best_of_fold: "libm_ok nm \<Longrightarrow> best_of nm cfg pv ps (fold (try_plane nm cfg pv) ps (False, 0, None))"
proof (induction ps rule: rev_induct)
  case Nil
  then show ?case by (simp add: best_of_def)
next
  case (snoc p ps)
  then show ?case using best_of_snoc[of nm cfg pv ps _ p] by simp
qed

text \<open>
  C35 best_match: the recursive search through a voxel's octree finds a plane exactly when one of
  its planes is near enough to the point, and then returns the residual of the
  most probable of them.
\<close>
theorem best_match:
  assumes "libm_ok nm" "BuildSingleResidual nm cfg pv t 0 (False, 0, None) = (found, prob, best)"
  shows "if \<exists>(l, pl) \<in> set (planes_of cfg t 0). matches nm cfg pv pl
    then found \<and> (\<exists>(l, pl) \<in> set (planes_of cfg t 0). matches nm cfg pv pl \<and> best = Some (residual pv l pl)
      \<and> (\<forall>(l', pl') \<in> set (planes_of cfg t 0). matches nm cfg pv pl' \<longrightarrow> probability nm pv pl' \<le> probability nm pv pl))
    else \<not> found \<and> best = None"
proof -
  let ?ps = "planes_of cfg t 0"
  have b: "best_of nm cfg pv ?ps (found, prob, best)"
    using best_of_fold[OF assms(1), of cfg pv ?ps] assms(2) BuildSingleResidual_fold[of nm cfg pv t 0 "(False, 0, None)"] by simp
  show ?thesis
  proof (cases "\<exists>(l, pl) \<in> set ?ps. matches nm cfg pv pl")
    case True
    then have "filter (\<lambda>(l, pl). matches nm cfg pv pl) ?ps \<noteq> []" by (auto simp: filter_empty_conv)
    then obtain l pl where "found" "(l, pl) \<in> set ?ps" "matches nm cfg pv pl" "prob = probability nm pv pl" "best = Some (residual pv l pl)"
      "\<forall>(l', pl') \<in> set ?ps. matches nm cfg pv pl' \<longrightarrow> probability nm pv pl' \<le> prob"
      using b by (auto simp: best_of_def Let_def)
    then show ?thesis using True by (auto intro!: bexI[of _ "(l, pl)"])
  next
    case False
    then have "filter (\<lambda>(l, pl). matches nm cfg pv pl) ?ps = []" by (auto simp: filter_empty_conv)
    then show ?thesis using b False by (simp add: best_of_def)
  qed
qed

definition flat_plane :: voxel_plane where
  "flat_plane = VoxelPlane\<lparr>pl_normal := (0, 0, 1), pl_radius := 1, is_plane := True, is_init := True\<rparr>"

definition unit_libm :: numeric where
  "unit_libm = \<lparr>eigen = (\<lambda>M. ((0, 1, 2), ((1, 0, 0), (0, 1, 0), (0, 0, 1)))), sqrtf = (\<lambda>x. if x = 0 then 0 else 1),
     expf = (\<lambda>x. 1), sinf = (\<lambda>x. x), powf = (\<lambda>x y. x)\<rparr>"

theorem best_match_witness:
  "\<exists>found prob best. BuildSingleResidual unit_libm small_cfg ((sample_point 0 0 0)\<lparr>pv_var := [[1, 0, 0], [0, 1, 0], [0, 0, 1]]\<rparr>)
     (Octo ((node (VoxelOctoTree 0 5))\<lparr>plane := flat_plane\<rparr>) (replicate 8 None)) 0 (False, 0, None) = (found, prob, best) \<and> found"
proof -
  let ?pv = "(sample_point 0 0 0)\<lparr>pv_var := [[1, 0, 0], [0, 1, 0], [0, 0, 1]]\<rparr>"
  let ?t = "Octo ((node (VoxelOctoTree 0 5))\<lparr>plane := flat_plane\<rparr>) (replicate 8 None)"
  obtain found prob best where r: "BuildSingleResidual unit_libm small_cfg ?pv ?t 0 (False, 0, None) = (found, prob, best)"
    by (metis prod_cases3)
  have "libm_ok unit_libm" by (simp add: libm_ok_def unit_libm_def)
  note b = best_match[OF this r]
  have p: "planes_of small_cfg ?t 0 = [(0, flat_plane)]" by (simp add: planes_of.simps flat_plane_def)
  have "sigma_l flat_plane ?pv = Some 1"
    by (simp add: sigma_l_def flat_plane_def VoxelPlane_def sample_point_def zeros_def mat_mul_def entry_def Let_def eval_nat_numeral)
  then have "matches unit_libm small_cfg ?pv flat_plane"
    by (simp add: matches_def in_reach_def plane_distance_def unit_libm_def small_cfg_def)
      (simp add: flat_plane_def VoxelPlane_def sample_point_def)
  then have found using b p by simp
  then show ?thesis using r by blast
qed

section \<open>Sliding and building\<close>

lemma clear_loop_spec:
  assumes "distinct (map (fst \<circ> snd) es)"
  shows "fst (clear_loop lo hi es m) = filter (\<lambda>e. in_box lo hi (fst (snd e))) es"
    "snd (clear_loop lo hi es m) l = (if l \<in> (fst \<circ> snd) ` set es \<and> \<not> in_box lo hi l then None else m l)"
proof -
  show "fst (clear_loop lo hi es m) = filter (\<lambda>e. in_box lo hi (fst (snd e))) es"
    by (induction es arbitrary: m) (auto simp: split_beta simp del: fun_upd_apply)
  show "snd (clear_loop lo hi es m) l = (if l \<in> (fst \<circ> snd) ` set es \<and> \<not> in_box lo hi l then None else m l)"
  proof (induction es arbitrary: m)
    case (Cons e es)
    obtain i k t where e: "e = (i, k, t)" by (cases e)
    show ?case
    proof (cases "in_box lo hi k")
      case True
      then have "snd (clear_loop lo hi (e # es) m) l = snd (clear_loop lo hi es m) l" by (simp add: e split_beta)
      then show ?thesis unfolding Cons using True by (auto simp: e)
    next
      case False
      then have "clear_loop lo hi (e # es) m = clear_loop lo hi es (m(k := None))" by (simp add: e)
      then have "snd (clear_loop lo hi (e # es) m) l = snd (clear_loop lo hi es (m(k := None))) l" by (rule arg_cong)
      then show ?thesis unfolding Cons using False by (auto simp: e)
    qed
  qed simp
qed

lemma ClearMemOutOfMap_spec:
  assumes "map_ok cfg B s"
  shows "map_ok cfg B (ClearMemOutOfMap lo hi s)"
    "contents (ClearMemOutOfMap lo hi s) = filter (\<lambda>e. in_box lo hi (fst e)) (contents s)"
proof -
  have r: "linked s" "length (vm_data s) < usize (lru_size s)" "2 \<le> usize (lru_size s)"
    "\<forall>e \<in> set (contents s). voxel_ok cfg B e" using assms by (simp_all add: map_ok_def room_ok_def)
  note d = linkedD(2)[OF r(1)]
  let ?es = "filter (\<lambda>e. in_box lo hi (fst (snd e))) (vm_data s)"
  let ?m = "snd (clear_loop lo hi (vm_data s) (vm_map s))"
  have s: "ClearMemOutOfMap lo hi s = s\<lparr>vm_data := ?es, vm_map := ?m\<rparr>"
    using clear_loop_spec(1)[OF d, of lo hi "vm_map s"] by (simp add: ClearMemOutOfMap_def split_beta)
  show c: "contents (ClearMemOutOfMap lo hi s) = filter (\<lambda>e. in_box lo hi (fst e)) (contents s)"
    by (simp add: s contents_def filter_map comp_def)
  have "linked (s\<lparr>vm_data := ?es, vm_map := ?m\<rparr>)"
  proof (rule linkedI)
    show "vm_map (s\<lparr>vm_data := ?es, vm_map := ?m\<rparr>) l = Some i
        \<longleftrightarrow> (\<exists>t. (i, l, t) \<in> set (vm_data (s\<lparr>vm_data := ?es, vm_map := ?m\<rparr>)))" for l i
    proof -
      have "l \<in> (fst \<circ> snd) ` set (vm_data s)" if "vm_map s l = Some i"
        using that linkedD(3)[OF r(1), of l i] by force
      then show ?thesis using linkedD(3)[OF r(1), of l i]
        by (cases "in_box lo hi l") (auto simp: clear_loop_spec(2)[OF d])
    qed
  qed (use linkedD[OF r(1)] in \<open>simp_all add: distinct_map_filter\<close>)
  moreover have "length ?es < usize (lru_size s)" using r(2) length_filter_le le_less_trans by blast
  moreover have "\<forall>e \<in> set (contents (ClearMemOutOfMap lo hi s)). voxel_ok cfg B e" using r(4) c by auto
  ultimately show "map_ok cfg B (ClearMemOutOfMap lo hi s)"
    using r(3) unfolding map_ok_def room_ok_def s by simp
qed

text \<open>
  sliding_keeps: when the position has moved far enough, the map keeps exactly the voxels within
  half_map_size of the new position's, in their order and with their trees, and
  remembers the position; otherwise nothing changes.
\<close>
theorem sliding_keeps:
  assumes "map_ok cfg B s" "position (max_voxel_size cfg) (position_last s) = Inr (x, y, z)"
    and "\<bar>x\<bar> + \<bar>half_map_size cfg\<bar> < 2 ^ 31" "\<bar>y\<bar> + \<bar>half_map_size cfg\<bar> < 2 ^ 31" "\<bar>z\<bar> + \<bar>half_map_size cfg\<bar> < 2 ^ 31"
  shows "\<exists>s'. MapSliding nm cfg s = Inr s' \<and> map_ok cfg B s'
    \<and> (let v = vsub (position_last s) (last_slide_position s) in
       if sqrtf nm (vdot v v) < sliding_thresh cfg then s' = s
       else last_slide_position s' = position_last s \<and> contents s' = filter (\<lambda>((i, j, k), t).
         \<bar>i - x\<bar> \<le> half_map_size cfg \<and> \<bar>j - y\<bar> \<le> half_map_size cfg \<and> \<bar>k - z\<bar> \<le> half_map_size cfg) (contents s))"
proof (cases "sqrtf nm (vdot (vsub (position_last s) (last_slide_position s)) (vsub (position_last s) (last_slide_position s))) < sliding_thresh cfg")
  case True
  then show ?thesis using assms(1) by (simp add: MapSliding_def Let_def)
next
  case False
  let ?h = "half_map_size cfg" and ?s = "s\<lparr>last_slide_position := position_last s\<rparr>"
  have i: "int32 (a - ?h) = a - ?h" "int32 (a + ?h) = a + ?h" if "\<bar>a\<bar> + \<bar>?h\<bar> < 2 ^ 31" for a
    using that by (simp_all add: int32_def mod_pos_pos_trivial)
  have "map_ok cfg B ?s" using assms(1) unfolding map_ok_def room_ok_def linked_def contents_def by simp
  from ClearMemOutOfMap_spec[OF this, of "(x - ?h, y - ?h, z - ?h)" "(x + ?h, y + ?h, z + ?h)"]
  have c: "map_ok cfg B (ClearMemOutOfMap (x - ?h, y - ?h, z - ?h) (x + ?h, y + ?h, z + ?h) ?s)"
    "contents (ClearMemOutOfMap (x - ?h, y - ?h, z - ?h) (x + ?h, y + ?h, z + ?h) ?s)
      = filter (\<lambda>((i, j, k), t). \<bar>i - x\<bar> \<le> ?h \<and> \<bar>j - y\<bar> \<le> ?h \<and> \<bar>k - z\<bar> \<le> ?h) (contents s)"
    by (auto simp: in_box_def contents_def intro!: filter_cong)
  have "last_slide_position (ClearMemOutOfMap lo hi ?s) = position_last s" for lo hi
    by (simp add: ClearMemOutOfMap_def split_beta)
  then show ?thesis using False assms(2) c i[OF assms(3)] i[OF assms(4)] i[OF assms(5)]
    by (simp add: MapSliding_def Let_def)
qed

theorem sliding_keeps_witness:
  "\<exists>s'. MapSliding unit_libm small_cfg (empty_map 1000) = Inr s' \<and> map_ok small_cfg 50 s'"
proof -
  have "map_ok small_cfg 50 (empty_map 1000)" by (rule empty_map_ok) simp_all
  moreover have "position (max_voxel_size small_cfg) (position_last (empty_map 1000)) = Inr (0, 0, 0)"
    by (simp add: empty_map_def voxel_index_def scaled_def truncate_rat_def int64_def small_cfg_def)
  ultimately show ?thesis using sliding_keeps[of small_cfg 50 "empty_map 1000" 0 0 0 unit_libm]
    by (auto simp: small_cfg_def)
qed

text \<open>A voxel during the first scan: its points are only collected.\<close>

definition gathered :: "voxel_config \<Rightarrow> nat \<Rightarrow> loc \<times> octree \<Rightarrow> bool" where
  "gathered cfg k e \<longleftrightarrow> (\<exists>n. snd e = Octo n (replicate 8 None) \<and> placed cfg (fst e) n \<and> \<not> init_octo n
     \<and> points_size_threshold n = layer_init_num cfg ! 0 \<and> temp_points n \<noteq> [] \<and> length (temp_points n) \<le> k
     \<and> (\<forall>p \<in> set (temp_points n). in_voxel cfg (fst e) (point_w p)))"

lemma gathered_mono: "gathered cfg k e \<Longrightarrow> k \<le> k' \<Longrightarrow> gathered cfg k' e"
  unfolding gathered_def by fastforce

lemma gathered_uncut: "cfg_ok cfg B \<Longrightarrow> gathered cfg B e \<Longrightarrow>
    \<exists>n. snd e = Octo n (replicate 8 None) \<and> uncut cfg B (in_voxel cfg (fst e)) n \<and> \<not> init_octo n \<and> placed cfg (fst e) n"
  by (auto simp: gathered_def uncut_def node_ok_def placed_def cfg_ok_def)

lemma gathered_add:
  assumes "gathered cfg k (l, t) \<or> t = blank_tree cfg l" "in_voxel cfg l (point_w pv)"
  shows "gathered cfg (Suc k) (l, add_point pv t)"
  using assms(1)
proof
  assume "gathered cfg k (l, t)"
  then show ?thesis using assms(2) by (auto simp: gathered_def add_point_def placed_def)
next
  assume "t = blank_tree cfg l"
  then show ?thesis using assms(2)
    by (simp add: gathered_def add_point_def placed_def blank_tree_def place_def VoxelOctoTree_def del: replicate.simps)
qed

lemma blank_add: "add_point pv (place cfg l (VoxelOctoTree 0 (layer_init_num cfg ! 0))) = add_point pv (blank_tree cfg l)"
  by (simp add: blank_tree_def)

lemma fresh_tree_eq: "layer_init_num cfg \<noteq> [] \<Longrightarrow> fresh_tree cfg = Inr (VoxelOctoTree 0 (layer_init_num cfg ! 0))"
  by (cases "layer_init_num cfg") (simp_all add: fresh_tree_def)

lemma build_point_spec:
  assumes "layer_init_num cfg \<noteq> []" "room_ok s" "position (max_voxel_size cfg) (point_w pv) = Inr l"
  shows "\<exists>s'. build_point cfg pv s = Inr s' \<and> room_ok s' \<and> lru_size s' = lru_size s
    \<and> contents s' = used (usize (lru_size s) - 1) l
        (add_point pv (case map_of (contents s) l of Some t \<Rightarrow> t | None \<Rightarrow> blank_tree cfg l)) (contents s)"
proof -
  have r: "linked s" using assms(2) by (simp add: room_ok_def)
  show ?thesis
  proof (cases "vm_map s l")
    case None
    then have "map_of (contents s) l = None"
      using linked_lookup(2)[OF r, of l] by (simp add: voxel_keys_def map_of_eq_None_iff)
    then show ?thesis using insert_spec(1,2,5)[OF assms(2) None] assms(1,3) None fresh_tree_eq
      by (simp add: build_point_def blank_add)
  next
    case (Some i)
    obtain t where t: "tree_at l s = Inr t" "map_of (contents s) l = Some t" using linked_lookup(1)[OF r Some] by blast
    have "(set_tree i u s)\<lparr>plane_ids := plane_ids s\<rparr> = set_tree i u s" for u by (simp add: set_tree_def)
    then show ?thesis using touch_spec[OF assms(2) Some, where u = "add_point pv t" and k = "plane_ids s"] t assms(3) Some
      by (auto simp: build_point_def)
  qed
qed

interpretation bld: recency "build_point cfg" "voxel_of cfg" voxel_keys "\<lambda>s. layer_init_num cfg \<noteq> [] \<and> room_ok s"
    "\<lambda>s. usize (lru_size s) - 1" for cfg
proof unfold_locales
  fix s pv s' assume a: "layer_init_num cfg \<noteq> [] \<and> room_ok s" "build_point cfg pv s = Inr s'"
  obtain l where l: "position (max_voxel_size cfg) (point_w pv) = Inr l"
    using a(2) by (auto simp: build_point_def bindR_eq_Inr)
  obtain u where u: "room_ok s'" "lru_size s' = lru_size s" "contents s' = used (usize (lru_size s) - 1) l u (contents s)"
    using build_point_spec[OF conjunct1[OF a(1)] conjunct2[OF a(1)] l] a(2) by auto
  have "distinct (map fst (contents s))" using a(1) map_ok_keys by (simp add: voxel_keys_def)
  then have "voxel_keys s' = take (usize (lru_size s) - 1) (l # remove1 l (voxel_keys s))"
    using keys_used u(3) by (simp add: voxel_keys_def)
  then show "(layer_init_num cfg \<noteq> [] \<and> room_ok s') \<and> usize (lru_size s') - 1 = usize (lru_size s) - 1
      \<and> (\<exists>k. voxel_of cfg pv = Some k \<and> voxel_keys s' = take (usize (lru_size s) - 1) (k # remove1 k (voxel_keys s)))"
    using u a(1) l by (simp add: voxel_of_def)
qed (simp add: map_ok_keys[simplified])

lemma position_error: "position vs w = Inl e \<Longrightarrow> e = Undefined"
  by (cases w) (auto simp: voxel_index_def int64_def bindR_def split: if_splits sum.splits)

lemma gather_ok:
  assumes "layer_init_num cfg \<noteq> []" "room_ok s" "\<forall>e \<in> set (contents s). gathered cfg k e"
  shows "case foldR (build_point cfg) pvs s of Inl e \<Rightarrow> e = Undefined \<and> (\<exists>pv \<in> set pvs. voxel_of cfg pv = None)
    | Inr s' \<Rightarrow> \<forall>e \<in> set (contents s'). gathered cfg (k + length pvs) e"
  using assms(2,3)
proof (induction pvs arbitrary: s k)
  case Nil
  then show ?case by simp
next
  case (Cons pv pvs)
  show ?case
  proof (cases "position (max_voxel_size cfg) (point_w pv)")
    case (Inl e)
    then show ?thesis using position_error[OF Inl] by (simp add: build_point_def voxel_of_def)
  next
    case (Inr l)
    let ?t = "case map_of (contents s) l of Some t \<Rightarrow> t | None \<Rightarrow> blank_tree cfg l"
    obtain u where u: "build_point cfg pv s = Inr u" "room_ok u"
      "contents u = used (usize (lru_size s) - 1) l (add_point pv ?t) (contents s)"
      using build_point_spec[OF assms(1) Cons.prems(1) Inr] by blast
    have "gathered cfg k (l, ?t) \<or> ?t = blank_tree cfg l"
      using Cons.prems(2) by (cases "map_of (contents s) l") (auto dest: map_of_SomeD)
    then have "gathered cfg (Suc k) (l, add_point pv ?t)" using gathered_add Inr by (simp add: in_voxel_def)
    moreover have "e = (l, add_point pv ?t) \<or> gathered cfg (Suc k) e" if "e \<in> set (contents u)" for e
      using set_used[OF that[unfolded u(3)]] Cons.prems(2) gathered_mono[of cfg k e "Suc k"] by auto
    ultimately have "\<forall>e \<in> set (contents u). gathered cfg (Suc k) e" by blast
    from Cons.IH[OF u(2) this] show ?thesis using u(1) by (auto split: sum.splits)
  qed
qed

lemma InitOctoTree_cases:
  assumes "cfg_ok cfg B" "uncut cfg B R n" "\<not> init_octo n"
  shows "(\<exists>u k'. InitOctoTree nm cfg (Octo n (replicate 8 None)) k = Inr (u, k') \<and> same_place n (node u) \<and> octo_ok cfg B R u)
    \<or> InitOctoTree nm cfg (Octo n (replicate 8 None)) k = Inl OutOfBounds \<and> \<not> fit_ok nm"
proof (cases "fit_ok nm")
  case True
  then show ?thesis using InitOctoTree_ok[OF assms(1) True assms(2,3), of k] by auto
next
  case False
  then show ?thesis
    using InitOctoTree_ok[where nm = "separated nm", OF assms(1) fit_ok_separated assms(2,3), of k]
      agrees_InitOctoTree[of nm cfg "Octo n (replicate 8 None)" k] unfolding agrees_def by auto
qed

lemma init_voxel_ok:
  assumes "cfg_ok cfg B" "room_ok s" "l \<in> set (voxel_keys s)" "\<forall>t. (l, t) \<in> set (contents s) \<longrightarrow> gathered cfg B (l, t)"
  shows "init_voxel nm cfg l s = Inl OutOfBounds \<and> \<not> fit_ok nm
    \<or> (\<exists>u s'. init_voxel nm cfg l s = Inr s' \<and> room_ok s' \<and> voxel_ok cfg B (l, u)
        \<and> contents s' = map (\<lambda>(m, v). if m = l then (m, u) else (m, v)) (contents s))"
proof -
  have r: "linked s" using assms(2) by (simp add: room_ok_def)
  obtain i where i: "vm_map s l = Some i" using linked_lookup(2)[OF r, of l] assms(3) by auto
  obtain t where t: "node_tree i s = Inr t" "map_of (contents s) l = Some t" "map_of (vm_data s) i = Some (l, t)"
    using linked_lookup(1)[OF r i] by blast
  obtain n where n: "t = Octo n (replicate 8 None)" "uncut cfg B (in_voxel cfg l) n" "\<not> init_octo n" "placed cfg l n"
    using gathered_uncut[OF assms(1), of "(l, t)"] assms(4) t(2) by (auto dest: map_of_SomeD)
  have m: "(i, l, t) \<in> set (vm_data s)" using t(3) by (rule map_of_SomeD)
  from InitOctoTree_cases[OF assms(1) n(2,3), of nm "plane_ids s"] show ?thesis
  proof
    assume "\<exists>u k'. InitOctoTree nm cfg (Octo n (replicate 8 None)) (plane_ids s) = Inr (u, k') \<and> same_place n (node u)
        \<and> octo_ok cfg B (in_voxel cfg l) u"
    then obtain u k where u: "InitOctoTree nm cfg t (plane_ids s) = Inr (u, k)" "voxel_ok cfg B (l, u)"
      using n(1,4) same_placed[of n _ cfg l] by (auto simp: voxel_ok_def)
    let ?s = "(set_tree i u s)\<lparr>plane_ids := k\<rparr>"
    have "linked ?s" using linked_set_tree[OF r, of i u] unfolding linked_def by simp
    then have "room_ok ?s" using assms(2) by (simp add: room_ok_def set_tree_def)
    moreover have "contents ?s = map (\<lambda>(m, v). if m = l then (m, u) else (m, v)) (contents s)"
      using contents_set_tree[OF r m, of u] by (simp add: contents_def)
    moreover have "init_voxel nm cfg l s = Inr ?s" using i t(1) u(1) by (simp add: init_voxel_def)
    ultimately show ?thesis using u(2) by blast
  next
    assume "InitOctoTree nm cfg (Octo n (replicate 8 None)) (plane_ids s) = Inl OutOfBounds \<and> \<not> fit_ok nm"
    then show ?thesis using i t(1) n(1) by (simp add: init_voxel_def)
  qed
qed

lemma init_voxels_ok:
  assumes "cfg_ok cfg B" "room_ok s" "distinct ls" "set ls \<subseteq> set (voxel_keys s)"
    and "\<forall>e \<in> set (contents s). if fst e \<in> set ls then gathered cfg B e else voxel_ok cfg B e"
  shows "case foldR (init_voxel nm cfg) ls s of Inl e \<Rightarrow> e = OutOfBounds \<and> \<not> fit_ok nm
    | Inr s' \<Rightarrow> map_ok cfg B s' \<and> voxel_keys s' = voxel_keys s"
  using assms(2-5)
proof (induction ls arbitrary: s)
  case Nil
  then show ?case by (simp add: map_ok_def)
next
  case (Cons l ls)
  have "l \<in> set (voxel_keys s)" "\<forall>t. (l, t) \<in> set (contents s) \<longrightarrow> gathered cfg B (l, t)" using Cons.prems(3,4) by auto
  from init_voxel_ok[OF assms(1) Cons.prems(1) this, of nm] show ?case
  proof
    assume "init_voxel nm cfg l s = Inl OutOfBounds \<and> \<not> fit_ok nm"
    then show ?thesis by simp
  next
    assume "\<exists>u s'. init_voxel nm cfg l s = Inr s' \<and> room_ok s' \<and> voxel_ok cfg B (l, u)
        \<and> contents s' = map (\<lambda>(m, v). if m = l then (m, u) else (m, v)) (contents s)"
    then obtain u s' where s': "init_voxel nm cfg l s = Inr s'" "room_ok s'" "voxel_ok cfg B (l, u)"
      "contents s' = map (\<lambda>(m, v). if m = l then (m, u) else (m, v)) (contents s)" by blast
    have k: "voxel_keys s' = voxel_keys s" unfolding voxel_keys_def s'(4) by (auto split: prod.splits)
    have "\<forall>e \<in> set (contents s'). if fst e \<in> set ls then gathered cfg B e else voxel_ok cfg B e"
    proof
      fix e assume "e \<in> set (contents s')"
      then obtain m v where e: "(m, v) \<in> set (contents s)" "e = (if m = l then (m, u) else (m, v))" unfolding s'(4) by auto
      then show "if fst e \<in> set ls then gathered cfg B e else voxel_ok cfg B e"
        using s'(3) Cons.prems(2) bspec[OF Cons.prems(4) e(1)] by (cases "m = l") auto
    qed
    from Cons.IH[OF s'(2) _ _ this] show ?thesis using s'(1) Cons.prems(2,3) k by (simp split: sum.splits)
  qed
qed

text \<open>
  first_scan: the map built from the first scan is well formed, for a bound that is at least the
  number of points, whatever the order in which the hash table is visited, and
  holds the voxels of the points used last.  It fails only for coordinates that
  are too large and where the fit does.
\<close>
theorem first_scan:
  assumes "cfg_ok cfg B" "length pvs \<le> B" "2 \<le> n" "n < 2 ^ 64"
    and "\<And>s. distinct (order s) \<and> set (order s) = set (voxel_keys s)"
  shows "case build_map nm cfg order pvs (empty_map n) of
      Inl e \<Rightarrow> e = Undefined \<and> (\<exists>pv \<in> set pvs. voxel_of cfg pv = None) \<or> e = OutOfBounds \<and> \<not> fit_ok nm
    | Inr s \<Rightarrow> map_ok cfg B s
        \<and> (\<exists>ls. map (voxel_of cfg) pvs = map Some ls \<and> voxel_keys s = take (nat n - 1) (recent ls []))"
proof -
  have l: "layer_init_num cfg \<noteq> []" using assms(1) by (auto simp: cfg_ok_def)
  have e: "room_ok (empty_map n)" "contents (empty_map n) = []"
    using empty_map_ok[OF assms(3,4)] by (simp_all add: map_ok_def) (simp add: empty_map_def contents_def)
  have u: "usize (lru_size (empty_map n)) = nat n" using assms(3,4) by (simp add: empty_map_def usize_def)
  show ?thesis
  proof (cases "foldR (build_point cfg) pvs (empty_map n)")
    case (Inl x)
    then show ?thesis using gather_ok[OF l e(1), of 0 pvs] e(2) by (simp add: build_map_def)
  next
    case (Inr s)
    then have g: "\<forall>e \<in> set (contents s). gathered cfg B e"
      using gather_ok[OF l e(1), of 0 pvs] e(2) gathered_mono[OF _ assms(2)] by simp
    obtain ls where s: "room_ok s" "map (voxel_of cfg) pvs = map Some ls" "voxel_keys s = take (nat n - 1) (recent ls [])"
      using bld.run_keys[of cfg "empty_map n" pvs s] bld.run_ok[of cfg "empty_map n" pvs s] l e Inr u
      by (auto simp: voxel_keys_def)
    from init_voxels_ok[OF assms(1) s(1), of "order s" nm] assms(5)[of s] g
    have "case foldR (init_voxel nm cfg) (order s) s of Inl e \<Rightarrow> e = OutOfBounds \<and> \<not> fit_ok nm
      | Inr s' \<Rightarrow> map_ok cfg B s' \<and> voxel_keys s' = voxel_keys s" by (auto simp: voxel_keys_def)
    then show ?thesis using Inr s(2,3) by (auto simp: build_map_def split: sum.splits)
  qed
qed

theorem first_scan_witness:
  "\<exists>s. build_map spread_solver small_cfg (\<lambda>s. remdups (voxel_keys s)) [sample_point 1 2 3] (empty_map 1000000) = Inr s
     \<and> map_ok small_cfg 50 s"
proof -
  have "voxel_of small_cfg (sample_point 1 2 3) = Some (2, 4, 6)" "fit_ok spread_solver"
    by (simp_all add: voxel_of_def small_cfg_def sample_point_def voxel_index_def scaled_def truncate_rat_def int64_def
        fit_ok_def spread_solver_def)
  then show ?thesis
    using first_scan[OF small_cfg_ok, of "[sample_point 1 2 3]" 1000000 "\<lambda>s. remdups (voxel_keys s)" spread_solver]
    by (cases "build_map spread_solver small_cfg (\<lambda>s. remdups (voxel_keys s)) [sample_point 1 2 3] (empty_map 1000000)") auto
qed

end
