(* ===== verification/Lio_Estimate.thy ===== *)
theory Lio_Estimate
  imports Imu_Processing Voxel_Map
begin

text \<open>
  The estimate of the pose from the scan (VoxelMapManager::StateEstimation and
  its helpers in edge/src/FAST-LIVO2/src/voxel_map.cpp): the covariance of a
  point, the iterated Kalman update against the planes of the voxel map, and the
  points the map is built from.  The inverse of a matrix, the conversion of
  degrees and the C library are arguments.
\<close>

section \<open>The covariance of a point\<close>

definition unit3 :: "libm \<Rightarrow> vec \<Rightarrow> vec" where
  "unit3 L v = (if 0 < vdot v v then vscale (1 / norm3 L v) v else v)"

fun lift_flat :: "rat \<Rightarrow> vec \<Rightarrow> vec" where
  "lift_flat e (x, y, z) = (x, y, if z = 0 then e else z)"

text \<open>The point is passed by reference: a height of zero becomes a tenth of a millimetre.\<close>

definition CalcBodyCov :: "libm \<Rightarrow> (rat \<Rightarrow> rat) \<Rightarrow> vec \<Rightarrow> rat \<Rightarrow> rat \<Rightarrow> vec \<times> mat" where
  "CalcBodyCov L deg2rad pb range_inc degree_inc = (let p = lift_flat (1 / 10000) pb; range = norm3 L p;
     s = l_sin L (deg2rad degree_inc); D = [[s * s, 0], [0, s * s]]; d = unit3 L p in
     case d of (x, y, z) \<Rightarrow> let b1 = unit3 L (1, 1, - (x + y) / z); b2 = unit3 L (cross b1 d);
       N = transpose [vlist b1, vlist b2]; A = mat_scale range (mat_mul (m3_rows (skew d)) N) in
     (p, mat_add (mat_scale (range_inc * range_inc) (outer d d)) (mat_mul (mat_mul A D) (transpose A))))"

section \<open>The state of the estimate\<close>

record lio_config =
  voxels :: voxel_config
  dept_err :: rat
  beam_err :: rat
  map_sliding_en :: bool

text \<open>The members of VoxelMapManager besides the map; the state is its own copy.\<close>

record lio =
  lio_state :: states_group
  lio_map :: voxel_map
  extR :: mat3
  extT :: vec
  feats_down_body :: "pcl_point list"
  feats_down_size :: nat
  cross_mat_list :: "mat3 list"
  body_cov_list :: "mat list"
  pv_list :: "point_with_var list"
  ptpl_list :: "point_to_plane list"
  effct_feat_num :: nat

record lio_env =
  en_numeric :: numeric
  en_libm :: libm
  en_inverse :: "mat \<Rightarrow> mat"
  en_deg2rad :: "rat \<Rightarrow> rat"

definition to_imu :: "lio \<Rightarrow> vec \<Rightarrow> vec" where
  "to_imu l p = vadd (m3_vec (extR l) p) (extT l)"

text \<open>TransformLidar: the points in the world; only place and intensity are set.\<close>

definition to_world :: "mat3 \<Rightarrow> vec \<Rightarrow> lio \<Rightarrow> vec \<Rightarrow> vec" where
  "to_world rot t l p = vadd (m3_vec rot (to_imu l p)) t"

fun with_pos :: "vec \<Rightarrow> pcl_point \<Rightarrow> pcl_point" where
  "with_pos (x, y, z) q = q\<lparr>p_x := x, p_y := y, p_z := z\<rparr>"

definition TransformLidar :: "mat3 \<Rightarrow> vec \<Rightarrow> lio \<Rightarrow> pcl_point list \<Rightarrow> pcl_point list" where
  "TransformLidar rot t l = map (\<lambda>q. with_pos (to_world rot t l (pos q)) (blank_point\<lparr>p_intensity := p_intensity q\<rparr>))"

definition block33 :: "nat \<Rightarrow> mat \<Rightarrow> mat" where
  "block33 k M = map (\<lambda>i. map (\<lambda>j. M ! (k + i) ! (k + j)) [0..<3]) [0..<3]"

definition sandwich :: "mat \<Rightarrow> mat \<Rightarrow> mat" where
  "sandwich A M = mat_mul (mat_mul A M) (transpose A)"

text \<open>The default constructor of a point.\<close>

definition pointWithVar :: point_with_var where
  "pointWithVar = \<lparr>point_b = (0, 0, 0), point_w = (0, 0, 0), pv_var = zeros 3, body_var = zeros 3, pv_normal = (0, 0, 0)\<rparr>"

text \<open>The covariances of the points in the body and their cross matrices.\<close>

definition body_point :: "lio_env \<Rightarrow> lio_config \<Rightarrow> lio \<Rightarrow> pcl_point \<Rightarrow> mat \<times> mat3" where
  "body_point V c l q = (case CalcBodyCov (en_libm V) (en_deg2rad V) (lift_flat (1 / 1000) (pos q)) (dept_err c) (beam_err c) of
     (p, var) \<Rightarrow> (var, skew (to_imu l p)))"

definition prepare_points :: "lio_env \<Rightarrow> lio_config \<Rightarrow> lio \<Rightarrow> lio" where
  "prepare_points V c l = l\<lparr>body_cov_list := map (fst \<circ> body_point V c l) (feats_down_body l),
     cross_mat_list := map (snd \<circ> body_point V c l) (feats_down_body l),
     pv_list := replicate (feats_down_size l) pointWithVar\<rparr>"

section \<open>One iteration\<close>

text \<open>The points with their covariances for the state at hand.\<close>

definition place_point :: "states_group \<Rightarrow> lio \<Rightarrow> nat \<Rightarrow> point_with_var \<Rightarrow> point_with_var" where
  "place_point s l i pv = (let q = feats_down_body l ! i; C = m3_rows (m3_scale (- 1) (cross_mat_list l ! i)) in
     pv\<lparr>point_b := pos q, point_w := to_world (rot_end s) (pos_end s) l (pos q),
        pv_var := mat_add (mat_add (sandwich (m3_rows (rot_end s)) (body_cov_list l ! i)) (sandwich C (block33 0 (cov s)))) (block33 3 (cov s)),
        body_var := body_cov_list l ! i\<rparr>)"

definition place_points :: "lio \<Rightarrow> point_with_var list res" where
  "place_points l = (if length (pv_list l) < length (feats_down_body l) then Inl OutOfBounds
     else Inr (map (\<lambda>i. if i < length (feats_down_body l) then place_point (lio_state l) l i (pv_list l ! i) else pv_list l ! i)
       [0..<length (pv_list l)]))"

text \<open>A row of Hsub with the inverse of its variance and the residual.\<close>

definition measurement :: "states_group \<Rightarrow> lio \<Rightarrow> point_to_plane \<Rightarrow> (rat list \<times> rat \<times> rat) res" where
  "measurement prop l r = (case pp_plane_var r of None \<Rightarrow> Inl DivByZero | Some W \<Rightarrow>
     let p = to_imu l (pp_point_b r); n = pp_normal r; N = [vlist n];
       J = [vlist (vsub (vadd (m3_vec (rot_end prop) p) (pos_end prop)) (pp_center r)) @ vlist (vscale (- 1) n)];
       var = sandwich (m3_rows (m3_mul (rot_end prop) (extR l))) (pp_body_cov r);
       v = 1 / 1000 + entry (sandwich J W) + entry (sandwich N var);
       A = m3_vec (m3_mul (skew p) (m3_T (rot_end (lio_state l)))) n in
     if v = 0 then Inl DivByZero else Inr (vlist A @ vlist n, 1 / v, - dis_to_plane r))"

text \<open>The entries of H^T R^-1 H and of H^T R^-1 z.\<close>

definition gram :: "(rat list \<times> rat \<times> rat) list \<Rightarrow> mat" where
  "gram ms = map (\<lambda>j. map (\<lambda>k. sum_list (map (\<lambda>(h, r, z). h ! j * r * h ! k) ms)) [0..<6]) [0..<6]"

definition weighted :: "(rat list \<times> rat \<times> rat) list \<Rightarrow> rat list" where
  "weighted ms = map (\<lambda>j. sum_list (map (\<lambda>(h, r, z). h ! j * r * z) ms)) [0..<6]"

definition mat_vec :: "mat \<Rightarrow> rat list \<Rightarrow> rat list" where
  "mat_vec M v = map (\<lambda>r. sum_list (map2 (*) r v)) M"

text \<open>The first six columns of a matrix; the gain G is zero in the others.\<close>

definition six_columns :: "mat \<Rightarrow> mat" where
  "six_columns M = map (take 6) M"

definition gain :: "mat \<Rightarrow> mat \<Rightarrow> mat" where
  "gain K H = map (\<lambda>r. r @ replicate 13 0) (mat_mul (six_columns K) H)"

definition kalman_step :: "lio_env \<Rightarrow> states_group \<Rightarrow> (rat list \<times> rat \<times> rat) list \<Rightarrow> states_group \<Rightarrow> rat list \<times> mat" where
  "kalman_step V prop ms s = (let H = gram ms; K = en_inverse V (mat_add (set_block 0 0 H (zeros 19)) (en_inverse V (cov s)));
     G = gain K H; d = states_minus (en_libm V) prop s in
     (map2 (-) (map2 (+) (mat_vec (six_columns K) (weighted ms)) d) (mat_vec (six_columns G) (take 6 d)), G))"

text \<open>An iteration: the new state, the gain, and whether the correction was small.\<close>

definition lio_iteration :: "lio_env \<Rightarrow> lio_config \<Rightarrow> states_group \<Rightarrow> lio \<Rightarrow> (lio \<times> mat \<times> bool) res" where
  "lio_iteration V c prop l = bindR (place_points l) (\<lambda>pvs.
     bindR (BuildResidualListLRU (en_numeric V) (voxels c) (lio_map l) pvs) (\<lambda>(pvs', rs).
     bindR (foldR (\<lambda>r ms. bindR (measurement prop l r) (\<lambda>m. Inr (ms @ [m]))) rs []) (\<lambda>ms.
       let (dx, G) = kalman_step V prop ms (lio_state l); L = en_libm V in
       Inr (l\<lparr>pv_list := pvs', ptpl_list := rs, effct_feat_num := length rs, lio_state := states_plus L (lio_state l) dx\<rparr>, G,
         norm3 L (block3 0 dx) * (573 / 10) < 1 / 100 \<and> norm3 L (block3 3 dx) * 100 < 15 / 1000))))"

text \<open>
  The iterations; n + 1 of them are left, and rematch counts those after which
  the points are matched anew.  The covariance is updated in the last one.
\<close>

definition rematch_count :: "bool \<Rightarrow> nat \<Rightarrow> nat \<Rightarrow> nat" where
  "rematch_count small n rematch = (if small \<or> (rematch = 0 \<and> n = 1) then rematch + 1 else rematch)"

definition finish :: "mat \<Rightarrow> lio \<Rightarrow> lio" where
  "finish G l = l\<lparr>lio_state := (lio_state l)\<lparr>cov := mat_mul (mat_add (diagonal 19 (\<lambda>i. 1)) (mat_scale (- 1) G)) (cov (lio_state l))\<rparr>,
     lio_map := (lio_map l)\<lparr>position_last := pos_end (lio_state l)\<rparr>\<rparr>"

fun estimate :: "lio_env \<Rightarrow> lio_config \<Rightarrow> states_group \<Rightarrow> nat \<Rightarrow> nat \<Rightarrow> lio \<Rightarrow> lio res" where
  "estimate V c prop 0 rematch l = Inr l"
| "estimate V c prop (Suc n) rematch l = bindR (lio_iteration V c prop l) (\<lambda>(l', G, small).
     if 2 \<le> rematch_count small n rematch \<or> n = 0 then Inr (finish G l')
     else estimate V c prop n (rematch_count small n rematch) l')"

definition StateEstimation :: "lio_env \<Rightarrow> lio_config \<Rightarrow> states_group \<Rightarrow> lio \<Rightarrow> lio res" where
  "StateEstimation V c prop l = estimate V c prop (nat (voxel_config.max_iterations (voxels c))) 0 (prepare_points V c l)"

section \<open>The first map\<close>

text \<open>The cross matrix is that of the point in the lidar's frame here.\<close>

definition first_point :: "lio_env \<Rightarrow> lio_config \<Rightarrow> lio \<Rightarrow> pcl_point \<Rightarrow> pcl_point \<Rightarrow> point_with_var" where
  "first_point V c l w q = (case CalcBodyCov (en_libm V) (en_deg2rad V) (pos q) (dept_err c) (beam_err c) of (p, var) \<Rightarrow>
     let s = lio_state l; C = m3_rows (m3_scale (- 1) (skew p)) in
     pointWithVar\<lparr>point_w := pos w, pv_var := mat_add (mat_add (sandwich (m3_rows (m3_mul (rot_end s) (extR l))) var)
       (sandwich C (block33 0 (cov s)))) (block33 3 (cov s))\<rparr>)"

definition BuildVoxelMapLRU :: "lio_env \<Rightarrow> lio_config \<Rightarrow> (voxel_map \<Rightarrow> loc list) \<Rightarrow> pcl_point list \<Rightarrow> lio \<Rightarrow> lio res" where
  "BuildVoxelMapLRU V c order cloud_world l = (if length (feats_down_body l) < length cloud_world then Inl OutOfBounds
     else bindR (build_map (en_numeric V) (voxels c) order (map2 (first_point V c l) cloud_world (feats_down_body l)) (lio_map l))
       (\<lambda>m. Inr (l\<lparr>lio_map := m\<rparr>)))"

section \<open>Matrices as lists\<close>

definition dim :: "nat \<Rightarrow> nat \<Rightarrow> mat \<Rightarrow> bool" where
  "dim m n M = (length M = m \<and> (\<forall>r \<in> set M. length r = n))"

lemma dimI: "length M = m \<Longrightarrow> (\<And>i. i < m \<Longrightarrow> length (M ! i) = n) \<Longrightarrow> dim m n M"
  by (auto simp: dim_def in_set_conv_nth)

lemma dim_len: "dim m n M \<Longrightarrow> length M = m" "dim m n M \<Longrightarrow> i < m \<Longrightarrow> length (M ! i) = n"
  by (auto simp: dim_def)

lemma sum_list_dot:
  assumes "length r = n" "length v = n"
  shows "sum_list (map2 (*) r v) = (\<Sum>i < n. r ! i * (v ! i :: rat))"
  using assms by (simp add: sum_list_sum_nth atLeast0LessThan)

lemma transpose_dim:
  assumes "dim m n B" "0 < m"
  shows "length (transpose B) = n" "j < n \<Longrightarrow> transpose B ! j = map (\<lambda>r. r ! j) B"
proof -
  show l: "length (transpose B) = n"
  proof -
    obtain b bs where B: "B = b # bs" using assms by (cases B) (auto simp: dim_def)
    have "(\<forall>r \<in> set bs. length r = n) \<Longrightarrow> foldr (\<lambda>xs. max (length xs)) bs 0 \<le> n" by (induction bs) auto
    then have "foldr (\<lambda>xs. max (length xs)) B 0 = n" using assms(1) unfolding B dim_def by simp
    then show ?thesis by (simp add: length_transpose)
  qed
  show "j < n \<Longrightarrow> transpose B ! j = map (\<lambda>r. r ! j) B"
    using nth_transpose[of j B] l assms(1) by (simp add: dim_def filter_id_conv)
qed

lemma mat_mul_dim:
  assumes "dim k m A" "dim m n B" "0 < m"
  shows "dim k n (mat_mul A B)" "i < k \<Longrightarrow> j < n \<Longrightarrow> mat_mul A B ! i ! j = (\<Sum>l < m. A ! i ! l * B ! l ! j)"
proof -
  show "dim k n (mat_mul A B)" using assms transpose_dim[OF assms(2,3)] by (auto simp: dim_def mat_mul_def)
  assume i: "i < k" and j: "j < n"
  have "mat_mul A B ! i ! j = sum_list (map2 (*) (A ! i) (map (\<lambda>r. r ! j) B))"
    using i j assms(1) transpose_dim[OF assms(2,3)] by (simp add: mat_mul_def dim_def)
  also have "\<dots> = (\<Sum>l < m. A ! i ! l * map (\<lambda>r. r ! j) B ! l)" using assms i by (intro sum_list_dot) (auto simp: dim_def)
  also have "\<dots> = (\<Sum>l < m. A ! i ! l * B ! l ! j)" using assms(2) by (intro sum.cong) (auto simp: dim_def)
  finally show "mat_mul A B ! i ! j = (\<Sum>l < m. A ! i ! l * B ! l ! j)" .
qed

lemma mat_add_dim:
  assumes "dim m n A" "dim m n B"
  shows "dim m n (mat_add A B)" "i < m \<Longrightarrow> j < n \<Longrightarrow> mat_add A B ! i ! j = A ! i ! j + B ! i ! j"
  using assms by (auto simp: dim_def mat_add_def set_zip)

lemma set_block_dim: "dim m n M \<Longrightarrow> dim m n (set_block r c B M)"
  by (auto simp: dim_def set_block_def)

lemma set_block_nth:
  "dim m n M \<Longrightarrow> i < m \<Longrightarrow> j < n \<Longrightarrow> set_block r c B M ! i ! j =
    (if r \<le> i \<and> i < r + length B \<and> c \<le> j \<and> j < c + length (hd B) then B ! (i - r) ! (j - c) else M ! i ! j)"
  by (simp add: dim_def set_block_def)

lemma zeros_dim: "dim n n (zeros n)" "i < n \<Longrightarrow> j < n \<Longrightarrow> zeros n ! i ! j = 0"
  by (auto simp: dim_def zeros_def)

lemma diagonal_dim: "dim n n (diagonal n f)" "i < n \<Longrightarrow> j < n \<Longrightarrow> diagonal n f ! i ! j = (if i = j then f i else 0)"
  by (auto simp: dim_def diagonal_def)

lemma mat_vec_nth:
  assumes "dim m n M" "length v = n" "i < m"
  shows "length (mat_vec M v) = m" "mat_vec M v ! i = (\<Sum>j < n. M ! i ! j * v ! j)"
  using assms sum_list_dot[of "M ! i" n v] by (auto simp: mat_vec_def dim_def)

section \<open>The update as a least-squares step\<close>

lemma first_columns_dim: "dim m n M \<Longrightarrow> c \<le> n \<Longrightarrow> dim m c (map (take c) M)"
  "dim m n M \<Longrightarrow> c \<le> n \<Longrightarrow> i < m \<Longrightarrow> j < c \<Longrightarrow> map (take c) M ! i ! j = M ! i ! j"
  by (auto simp: dim_def)

lemma padded_gain_dim:
  assumes "dim 19 19 K" "dim n n H" "n \<le> 19" "0 < n" "G = map (\<lambda>r. r @ replicate (19 - n) 0) (mat_mul (map (take n) K) H)"
  shows "dim 19 19 G" "i < 19 \<Longrightarrow> j < n \<Longrightarrow> G ! i ! j = (\<Sum>l < n. K ! i ! l * H ! l ! j)" "i < 19 \<Longrightarrow> n \<le> j \<Longrightarrow> j < 19 \<Longrightarrow> G ! i ! j = 0"
proof -
  have s: "dim 19 n (map (take n) K)" using assms(1,3) by (rule first_columns_dim)
  have m: "dim 19 n (mat_mul (map (take n) K) H)" by (rule mat_mul_dim(1)[OF s assms(2,4)])
  show "dim 19 19 G" using m assms(3) by (auto simp: dim_def assms(5))
  have e: "G ! i ! j = (if j < n then mat_mul (map (take n) K) H ! i ! j else 0)" if "i < 19" "j < 19" for i j
    using m that by (auto simp: dim_def assms(5) nth_append)
  show "i < 19 \<Longrightarrow> j < n \<Longrightarrow> G ! i ! j = (\<Sum>l < n. K ! i ! l * H ! l ! j)"
    using e[of i j] mat_mul_dim(2)[OF s assms(2,4)] first_columns_dim(2)[OF assms(1,3)] assms(3) by (simp cong: sum.cong_simp)
  show "i < 19 \<Longrightarrow> n \<le> j \<Longrightarrow> j < 19 \<Longrightarrow> G ! i ! j = 0" using e[of i j] by simp
qed

text \<open>A correction K w + d - G d with the gain G = K H solves (H + P) dx = w + P d, if K is the inverse of H + P.\<close>

lemma correction_solves:
  assumes K: "dim 19 19 K" and H: "dim n n H" and P: "dim 19 19 P" and n: "0 < n" "n \<le> 19" and i: "i < 19"
    and A: "A = mat_add (set_block 0 0 H (zeros 19)) P" and inv: "\<And>k. k < 19 \<Longrightarrow> (\<Sum>j < 19. A ! i ! j * K ! j ! k) = (if i = k then 1 else 0)"
    and d: "length d = 19" and w: "length w = n" and G: "G = map (\<lambda>r. r @ replicate (19 - n) 0) (mat_mul (map (take n) K) H)"
    and e: "dx = map2 (-) (map2 (+) (mat_vec (map (take n) K) w) d) (mat_vec (map (take n) G) (take n d))"
  shows "(\<Sum>j < 19. A ! i ! j * dx ! j) = (if i < n then w ! i else 0) + (\<Sum>j < 19. P ! i ! j * d ! j)"
proof -
  have B: "dim 19 19 (set_block 0 0 H (zeros 19))" by (intro set_block_dim zeros_dim(1))
  note s = first_columns_dim[OF K n(2)] note gd = padded_gain_dim[OF K H n(2,1) G] note g = first_columns_dim[OF gd(1) n(2)]
  have dx: "dx ! j = (\<Sum>k < n. K ! j ! k * w ! k) + d ! j - (\<Sum>k < n. (\<Sum>l < n. K ! j ! l * H ! l ! k) * d ! k)" if "j < 19" for j
  proof -
    have 1: "length (mat_vec (map (take n) K) w) = 19" "mat_vec (map (take n) K) w ! j = (\<Sum>k < n. K ! j ! k * w ! k)"
      using mat_vec_nth[OF s(1) w that] s(2) that by (simp_all cong: sum.cong_simp)
    have "length (take n d) = n" using d n by simp
    from mat_vec_nth[OF g(1) this that]
    have 2: "length (mat_vec (map (take n) G) (take n d)) = 19"
      "mat_vec (map (take n) G) (take n d) ! j = (\<Sum>k < n. (\<Sum>l < n. K ! j ! l * H ! l ! k) * d ! k)"
      using g(2) gd(2) that by (simp_all cong: sum.cong_simp)
    show ?thesis unfolding e using 1 2 d that by simp
  qed
  have Kw: "(\<Sum>j < 19. A ! i ! j * (\<Sum>k < n. K ! j ! k * u k)) = (if i < n then u i else 0)" for u :: "nat \<Rightarrow> rat"
  proof -
    have "(\<Sum>j < 19. A ! i ! j * (\<Sum>k < n. K ! j ! k * u k)) = (\<Sum>k < n. (\<Sum>j < 19. A ! i ! j * K ! j ! k) * u k)"
      unfolding sum_distrib_left sum_distrib_right by (subst sum.swap) (simp add: mult.assoc)
    also have "\<dots> = (\<Sum>k < n. if k = i then u i else 0)" using n(2) by (intro sum.cong) (auto simp: inv)
    also have "\<dots> = (if i < n then u i else 0)" by (simp add: sum.delta)
    finally show ?thesis .
  qed
  have KH: "(\<Sum>k < n. (\<Sum>l < n. K ! j ! l * H ! l ! k) * d ! k) = (\<Sum>l < n. K ! j ! l * (\<Sum>k < n. H ! l ! k * d ! k))" for j
    unfolding sum_distrib_left sum_distrib_right by (subst sum.swap) (simp add: mult.assoc)
  have Ad: "(\<Sum>j < 19. A ! i ! j * d ! j) = (if i < n then \<Sum>k < n. H ! i ! k * d ! k else 0) + (\<Sum>j < 19. P ! i ! j * d ! j)"
  proof -
    have hH: "length (hd H) = n" using H n(1) by (cases H) (auto simp: dim_def)
    have a: "A ! i ! j = (if i < n \<and> j < n then H ! i ! j else 0) + P ! i ! j" if "j < 19" for j
      using mat_add_dim(2)[OF B P i that] set_block_nth[OF zeros_dim(1) i that, of 0 0 H] zeros_dim(2)[OF i that] H hH
      by (auto simp: A dim_def)
    have "(\<Sum>j < 19. A ! i ! j * d ! j) = (\<Sum>j < 19. (if i < n \<and> j < n then H ! i ! j else 0) * d ! j) + (\<Sum>j < 19. P ! i ! j * d ! j)"
      unfolding sum.distrib[symmetric] using a by (intro sum.cong) (simp_all add: algebra_simps)
    also have "(\<Sum>j < 19. (if i < n \<and> j < n then H ! i ! j else 0) * d ! j) = (\<Sum>j < 19. if j < n then (if i < n then H ! i ! j * d ! j else 0) else 0)"
      by (intro sum.cong) auto
    also have "\<dots> = (\<Sum>j \<in> {..<19} \<inter> {j. j < n}. if i < n then H ! i ! j * d ! j else 0)"
      by (subst sum.inter_restrict) auto
    also have "{..<19} \<inter> {j :: nat. j < n} = {..<n}" using n(2) by auto
    finally show ?thesis by (cases "i < n") simp_all
  qed
  have "(\<Sum>j < 19. A ! i ! j * dx ! j) = (\<Sum>j < 19. A ! i ! j * (\<Sum>k < n. K ! j ! k * w ! k)) + (\<Sum>j < 19. A ! i ! j * d ! j)
      - (\<Sum>j < 19. A ! i ! j * (\<Sum>l < n. K ! j ! l * (\<Sum>k < n. H ! l ! k * d ! k)))"
    unfolding sum.distrib[symmetric] sum_subtractf[symmetric]
    by (intro sum.cong refl) (simp add: dx KH distrib_left right_diff_distrib)
  also have "\<dots> = (if i < n then w ! i else 0) + (\<Sum>j < 19. P ! i ! j * d ! j)"
    unfolding Kw[of "\<lambda>k. w ! k"] Kw[of "\<lambda>l. \<Sum>k < n. H ! l ! k * d ! k"] Ad by simp
  finally show ?thesis .
qed

lemma gram_dim: "dim 6 6 (gram ms)" "length (weighted ms) = 6"
  by (auto simp: dim_def gram_def weighted_def)

lemma gain_columns_6: "gain K H = map (\<lambda>r. r @ replicate (19 - 6) 0) (mat_mul (map (take 6) K) H)"
  by (simp add: gain_def six_columns_def)

lemma gain_dim: "dim 19 19 K \<Longrightarrow> dim 6 6 H \<Longrightarrow> dim 19 19 (gain K H)"
  by (rule padded_gain_dim(1)[OF _ _ _ _ gain_columns_6]) simp_all

definition is_inverse :: "mat \<Rightarrow> mat \<Rightarrow> bool" where
  "is_inverse A K = (\<forall>i < 19. \<forall>k < 19. (\<Sum>j < 19. A ! i ! j * K ! j ! k) = (if i = k then 1 else 0))"

lemma states_minus_length: "length (states_minus L s b) = 19"
proof -
  have "length (vlist v) = 3" for v by (cases v) simp
  then show ?thesis by (simp add: states_minus_def)
qed

lemma kalman_step_dim:
  assumes "\<And>M. dim 19 19 M \<Longrightarrow> dim 19 19 (en_inverse V M)" "dim 19 19 (cov s)"
  shows "length (fst (kalman_step V prop ms s)) = 19" "dim 19 19 (snd (kalman_step V prop ms s))"
proof -
  define H where "H = gram ms"
  define A where "A = mat_add (set_block 0 0 H (zeros 19)) (en_inverse V (cov s))"
  define K where "K = en_inverse V A"
  have "dim 19 19 A" unfolding A_def using assms by (intro mat_add_dim(1) set_block_dim zeros_dim(1))
  then have K: "dim 19 19 K" unfolding K_def by (rule assms(1))
  have G: "dim 19 19 (gain K H)" unfolding H_def by (rule gain_dim[OF K gram_dim(1)])
  have k: "kalman_step V prop ms s = (map2 (-) (map2 (+) (mat_vec (six_columns K) (weighted ms)) (states_minus (en_libm V) prop s))
      (mat_vec (six_columns (gain K H)) (take 6 (states_minus (en_libm V) prop s))), gain K H)"
    by (simp add: kalman_step_def Let_def H_def A_def K_def)
  show "dim 19 19 (snd (kalman_step V prop ms s))" using G by (simp add: k)
  show "length (fst (kalman_step V prop ms s)) = 19" using K G by (simp add: k mat_vec_def six_columns_def dim_def states_minus_length)
qed

text \<open>
  C5 kalman_normal_equations: the correction of an iteration solves the normal equations of
  the least-squares problem it stands for: with H^T R^-1 H + P^-1 on the left, it is
  the weighted residuals plus P^-1 times the distance to the predicted state on the
  right - provided the library's inverse is one at these matrices.
\<close>

theorem kalman_normal_equations:
  assumes "kalman_step V prop ms s = (dx, G)" "dim 19 19 (cov s)" "\<And>M. dim 19 19 M \<Longrightarrow> dim 19 19 (en_inverse V M)"
    "is_inverse (mat_add (set_block 0 0 (gram ms) (zeros 19)) (en_inverse V (cov s)))
       (en_inverse V (mat_add (set_block 0 0 (gram ms) (zeros 19)) (en_inverse V (cov s))))" "i < 19"
  shows "(\<Sum>j < 19. mat_add (set_block 0 0 (gram ms) (zeros 19)) (en_inverse V (cov s)) ! i ! j * dx ! j)
    = (if i < 6 then weighted ms ! i else 0) + (\<Sum>j < 19. en_inverse V (cov s) ! i ! j * states_minus (en_libm V) prop s ! j)"
proof -
  define A where "A = mat_add (set_block 0 0 (gram ms) (zeros 19)) (en_inverse V (cov s))"
  define K where "K = en_inverse V A"
  have P: "dim 19 19 (en_inverse V (cov s))" using assms(2,3) by blast
  have "dim 19 19 A" unfolding A_def by (intro mat_add_dim(1) P set_block_dim zeros_dim(1))
  then have K: "dim 19 19 K" unfolding K_def by (rule assms(3))
  have inv: "(\<Sum>j < 19. A ! i ! j * K ! j ! k) = (if i = k then 1 else 0)" if "k < 19" for k
    using assms(4,5) that unfolding is_inverse_def A_def[symmetric] K_def by blast
  have e: "dx = map2 (-) (map2 (+) (mat_vec (map (take 6) K) (weighted ms)) (states_minus (en_libm V) prop s))
      (mat_vec (map (take 6) (gain K (gram ms))) (take 6 (states_minus (en_libm V) prop s)))"
    using assms(1)[symmetric] by (simp add: kalman_step_def Let_def A_def K_def six_columns_def)
  show ?thesis unfolding A_def[symmetric]
    by (rule correction_solves[OF K gram_dim(1) P _ _ assms(5) A_def inv states_minus_length gram_dim(2) gain_columns_6 e]) simp_all
qed

lemma identity_inverse:
  assumes "dim n n H" "0 < n" "\<And>i j. i < n \<Longrightarrow> j < n \<Longrightarrow> H ! i ! j = 0"
  shows "is_inverse (mat_add (set_block 0 0 H (zeros 19)) (diagonal 19 (\<lambda>i. 1))) (diagonal 19 (\<lambda>i. 1))"
proof -
  let ?I = "diagonal 19 (\<lambda>i. 1)"
  have h: "length (hd H) = n" using assms(1,2) by (cases H) (auto simp: dim_def)
  have a: "mat_add (set_block 0 0 H (zeros 19)) ?I ! i ! j = (if i = j then 1 else 0)" if "i < 19" "j < 19" for i j
  proof -
    have "set_block 0 0 H (zeros 19) ! i ! j = 0"
      using set_block_nth[OF zeros_dim(1) that, of 0 0 H] zeros_dim(2)[OF that] assms(1,3) h by (auto simp: dim_def)
    then show ?thesis using mat_add_dim(2)[OF set_block_dim[OF zeros_dim(1)] diagonal_dim(1) that] diagonal_dim(2)[OF that] by simp
  qed
  show ?thesis
    unfolding is_inverse_def
  proof (intro allI impI)
    fix i k :: nat assume i: "i < 19" "k < 19"
    have "(\<Sum>j < 19. mat_add (set_block 0 0 H (zeros 19)) ?I ! i ! j * ?I ! j ! k) = (\<Sum>j < 19. if j = i then (if i = k then 1 else 0) else 0)"
      using i by (intro sum.cong) (auto simp: a diagonal_dim(2))
    then show "(\<Sum>j < 19. mat_add (set_block 0 0 H (zeros 19)) ?I ! i ! j * ?I ! j ! k) = (if i = k then 1 else 0)"
      using i by simp
  qed
qed

definition identity_env :: "libm \<Rightarrow> numeric \<Rightarrow> lio_env" where
  "identity_env L nm = \<lparr>en_numeric = nm, en_libm = L, en_inverse = (\<lambda>M. diagonal 19 (\<lambda>i. 1)), en_deg2rad = (\<lambda>x. x)\<rparr>"

lemma kalman_normal_equations_witness:
  "(\<Sum>j < 19. mat_add (set_block 0 0 (gram []) (zeros 19)) (diagonal 19 (\<lambda>i. 1)) ! 3 ! j
      * fst (kalman_step (identity_env triangle_libm diagonal_solver) StatesGroup [] (StatesGroup\<lparr>cov := diagonal 19 (\<lambda>i. 1)\<rparr>)) ! j)
    = weighted [] ! 3 + (\<Sum>j < 19. diagonal 19 (\<lambda>i. 1) ! 3 ! j * states_minus triangle_libm StatesGroup (StatesGroup\<lparr>cov := diagonal 19 (\<lambda>i. 1)\<rparr>) ! j)"
proof -
  let ?s = "StatesGroup\<lparr>cov := diagonal 19 (\<lambda>i. 1)\<rparr>" and ?V = "identity_env triangle_libm diagonal_solver"
  have v: "en_inverse ?V M = diagonal 19 (\<lambda>i. 1)" "en_libm ?V = triangle_libm" for M by (simp_all add: identity_env_def)
  have inv: "is_inverse (mat_add (set_block 0 0 (gram []) (zeros 19)) (diagonal 19 (\<lambda>i. 1))) (diagonal 19 (\<lambda>i. 1))"
    by (rule identity_inverse[OF gram_dim(1)]) (simp_all add: gram_def)
  have d: "dim 19 19 (cov ?s)" by (simp add: diagonal_dim(1))
  have "dim 19 19 (en_inverse ?V M)" for M unfolding v by (rule diagonal_dim(1))
  from kalman_normal_equations[of ?V StatesGroup "[]" ?s, OF prod.collapse[symmetric] d this, of 3] inv
  show ?thesis unfolding v by simp
qed

section \<open>The covariance of a point is one\<close>

definition quad :: "mat \<Rightarrow> vec \<Rightarrow> rat" where
  "quad M v = entry (sandwich [vlist v] M)"

lemma three_by_two:
  "mat_scale k (mat_mul (m3_rows S) (transpose [vlist u, vlist v])) =
    (case S of (r, s, t) \<Rightarrow> [[k * vdot r u, k * vdot r v], [k * vdot s u, k * vdot s v], [k * vdot t u, k * vdot t v]])"
  by (cases S rule: m3_T.cases; cases u; cases v) (simp add: mat_mul_def mat_scale_def)

lemma vdot_zero_iff: "vdot v v = 0 \<longleftrightarrow> v = (0, 0, 0)"
  by (cases v) (simp add: add_nonneg_eq_0_iff)

lemma vdot_nonneg: "0 \<le> vdot v v"
  by (cases v) simp

text \<open>A unit vector times one at right angles to it: the three are a basis.\<close>

lemma lagrange: "vdot (cross a b) (cross a b) = vdot a a * vdot b b - vdot a b * vdot a b"
  by (cases a; cases b) (simp add: algebra_simps)

lemma orthonormal_sum:
  assumes "vdot d d = 1" "vdot b b = 1" "vdot b d = 0"
  shows "vdot b v * vdot b v + vdot (cross b d) v * vdot (cross b d) v = vdot v v - vdot d v * vdot d v"
proof -
  obtain x y z where d: "d = (x, y, z)" by (cases d)
  obtain p q r where b: "b = (p, q, r)" by (cases b)
  obtain u v' w where v: "v = (u, v', w)" by (cases v)
  have h: "x * x + y * y + z * z = 1" "p * p + q * q + r * r = 1" "p * x + q * y + r * z = 0"
    using assms by (simp_all add: d b)
  show ?thesis unfolding d b v cross.simps vdot.simps using h by algebra
qed

lemma double_cross: "vdot d d = 1 \<Longrightarrow> vdot b d = 0 \<Longrightarrow> cross d (cross b d) = b"
proof -
  assume a: "vdot d d = 1" "vdot b d = 0"
  obtain x y z where d: "d = (x, y, z)" by (cases d)
  obtain p q r where b: "b = (p, q, r)" by (cases b)
  have h: "x * x + y * y + z * z = 1" "p * x + q * y + r * z = 0" using a by (simp_all add: d b)
  show ?thesis unfolding d b cross.simps prod.inject using h by (intro conjI; algebra)
qed

lemma unit3_unit:
  assumes "exact_sqrt L (vdot v v)" "v \<noteq> (0, 0, 0)"
  shows "vdot (unit3 L v) (unit3 L v) = 1" "unit3 L v = vscale (1 / norm3 L v) v" "norm3 L v * norm3 L v = vdot v v" "norm3 L v \<noteq> 0"
proof -
  have n: "norm3 L v * norm3 L v = vdot v v" using assms(1) by (simp add: exact_sqrt_def norm3_def)
  have p: "0 < vdot v v" using assms(2) vdot_nonneg[of v] vdot_zero_iff[of v] by simp
  then show z: "norm3 L v \<noteq> 0" using n by auto
  show u: "unit3 L v = vscale (1 / norm3 L v) v" using p by (simp add: unit3_def)
  have "vdot (unit3 L v) (unit3 L v) = vdot v v / (norm3 L v * norm3 L v)" unfolding u by (cases v) (simp add: add_divide_distrib)
  then show "vdot (unit3 L v) (unit3 L v) = 1" using n p by simp
  show "norm3 L v * norm3 L v = vdot v v" by (rule n)
qed

lemma cross_scale: "cross d (vscale k c) = vscale k (cross d c)" "cross b d = vscale (- 1) (cross d b)"
  "vdot (vscale k u) v = k * vdot u v"
  by (cases d; cases c; cases b; cases u; cases v; simp add: algebra_simps)+

lemma turned_columns:
  assumes "vscale r (cross d u) = (a1, a3, a5)" "vscale r (cross d v) = (a2, a4, a6)"
  shows "(case skew d of (x, y, z) \<Rightarrow> [[r * vdot x u, r * vdot x v], [r * vdot y u, r * vdot y v], [r * vdot z u, r * vdot z v]])
    = [[a1, a2], [a3, a4], [a5, a6]]"
proof -
  have k: "vscale r (cross d w) = (r * vdot (fst (skew d)) w, r * vdot (fst (snd (skew d))) w, r * vdot (snd (snd (skew d))) w)" for w
    by (cases d; cases w) (simp add: algebra_simps)
  show ?thesis using assms unfolding k by (cases "skew d") simp
qed

text \<open>The two vectors at right angles to the direction, turned once more, span the plane at right angles to it.\<close>

lemma tangent_plane:
  assumes "vdot d d = 1" "d = (x, y, z)" "z \<noteq> 0" "b = unit3 L (1, 1, - (x + y) / z)"
    "exact_sqrt L (vdot (1, 1, - (x + y) / z) (1, 1, - (x + y) / z))" "exact_sqrt L 1"
  shows "vdot (cross d b) v * vdot (cross d b) v + vdot (cross d (unit3 L (cross b d))) v * vdot (cross d (unit3 L (cross b d))) v
    = vdot v v - vdot d v * vdot d v"
proof -
  have bu: "vdot b b = 1" unfolding assms(4) by (rule unit3_unit(1)[OF assms(5)]) simp
  have "vdot (1, 1, - (x + y) / z) d = 0" using assms(3) by (simp add: assms(2))
  then have bd: "vdot b d = 0" unfolding assms(4) by (subst unit3_unit(2)[OF assms(5)]) (simp_all only: cross_scale(3), simp_all)
  have c: "vdot (cross b d) (cross b d) = 1" using lagrange[of b d] assms(1) bu bd by simp
  have c0: "cross b d \<noteq> (0, 0, 0)" using c by auto
  have e: "exact_sqrt L (vdot (cross b d) (cross b d))" using c assms(6) by simp
  define n where "n = norm3 L (cross b d)"
  have n: "n * n = 1" using unit3_unit(3)[OF e c0] c by (simp add: n_def)
  have u: "unit3 L (cross b d) = vscale (1 / n) (cross b d)" unfolding n_def by (rule unit3_unit(2)[OF e c0])
  have f: "vdot (cross d (unit3 L (cross b d))) v * vdot (cross d (unit3 L (cross b d))) v = vdot b v * vdot b v"
    unfolding u cross_scale(1,3) double_cross[OF assms(1) bd] using n by (simp add: field_simps)
  have g: "vdot (cross d b) v * vdot (cross d b) v = vdot (cross b d) v * vdot (cross b d) v"
    unfolding cross_scale(2)[of b d] cross_scale(3) by simp
  show ?thesis unfolding f g using orthonormal_sum[OF assms(1) bu bd, of v] by simp
qed

text \<open>
  C32 body_covariance: the covariance CalcBodyCov gives a point is a three by three symmetric
  matrix that is nowhere negative, and the point it leaves behind is off the plane
  of height zero.  Where the square root is exact at the three norms taken, the
  direction of the point is off that plane as well, so that the division by its
  height is defined, and the covariance is the one it is meant to be: the variance
  of the range along the direction, and the variance of the angle times the range
  squared at right angles to it, the same in every such direction.
\<close>

theorem body_covariance:
  assumes "CalcBodyCov L deg2rad pb range_inc degree_inc = (p, M)" "a = l_sin L (deg2rad degree_inc)"
    "q = (1, 1, - (component p 0 + component p 1) / component p 2)"
  shows "dim 3 3 M \<and> (\<forall>i < 3. \<forall>j < 3. M ! i ! j = M ! j ! i) \<and> 0 \<le> quad M v
    \<and> p = lift_flat (1 / 10000) pb \<and> component p 2 \<noteq> 0
    \<and> (exact_sqrt L (vdot p p) \<and> exact_sqrt L (vdot q q) \<and> exact_sqrt L 1 \<longrightarrow>
        component (unit3 L p) 2 \<noteq> 0 \<and> vdot p p * quad M v
          = range_inc * range_inc * (vdot p v * vdot p v) + a * a * vdot p p * (vdot p p * vdot v v - vdot p v * vdot p v))"
proof -
  define d where "d = unit3 L p"
  obtain x y z where d: "d = (x, y, z)" by (cases d)
  define b1 where "b1 = unit3 L (1, 1, - (x + y) / z)"
  define b2 where "b2 = unit3 L (cross b1 d)"
  define r where "r = norm3 L p"
  have p: "p = lift_flat (1 / 10000) pb" using assms(1) by (simp add: CalcBodyCov_def Let_def split: prod.splits)
  obtain a1 a3 a5 where c1: "vscale r (cross d b1) = (a1, a3, a5)" by (cases "vscale r (cross d b1)")
  obtain a2 a4 a6 where c2: "vscale r (cross d b2) = (a2, a4, a6)" by (cases "vscale r (cross d b2)")
  note c = c1 c2
  have A: "mat_scale r (mat_mul (m3_rows (skew d)) (transpose [vlist b1, vlist b2])) = [[a1, a2], [a3, a4], [a5, a6]]"
    unfolding three_by_two by (rule turned_columns[OF c1 c2])
  have M: "M = mat_add (mat_scale (range_inc * range_inc) (outer d d)) (mat_mul (mat_mul [[a1, a2], [a3, a4], [a5, a6]] [[a * a, 0], [0, a * a]]) (transpose [[a1, a2], [a3, a4], [a5, a6]]))"
    using assms(1) d unfolding A[symmetric] b1_def b2_def assms(2) r_def by (simp add: CalcBodyCov_def Let_def d_def p[symmetric])
  define k where "k = range_inc * range_inc"
  define e where "e = a * a"
  have ex: "M = [[k * (x * x) + e * (a1 * a1 + a2 * a2), k * (x * y) + e * (a1 * a3 + a2 * a4), k * (x * z) + e * (a1 * a5 + a2 * a6)],
      [k * (y * x) + e * (a3 * a1 + a4 * a2), k * (y * y) + e * (a3 * a3 + a4 * a4), k * (y * z) + e * (a3 * a5 + a4 * a6)],
      [k * (z * x) + e * (a5 * a1 + a6 * a2), k * (z * y) + e * (a5 * a3 + a6 * a4), k * (z * z) + e * (a5 * a5 + a6 * a6)]]"
    unfolding M k_def[symmetric] e_def[symmetric] d by (simp add: outer_def mat_add_def mat_scale_def mat_mul_def algebra_simps)
  have sym: "dim 3 3 M" "\<forall>i < 3. \<forall>j < 3. M ! i ! j = M ! j ! i"
    unfolding ex by (simp_all add: dim_def numeral_3_eq_3 less_Suc_eq)
  obtain u v' w where v: "v = (u, v', w)" by (cases v)
  have qd: "quad M v = k * (vdot d v * vdot d v)
      + e * (vdot (a1, a3, a5) v * vdot (a1, a3, a5) v + vdot (a2, a4, a6) v * vdot (a2, a4, a6) v)"
    unfolding quad_def ex v d by (simp add: sandwich_def mat_mul_def entry_def algebra_simps)
  also have "0 \<le> \<dots>" by (simp add: k_def e_def)
  finally have nonneg: "0 \<le> quad M v" .
  have h: "component p 2 \<noteq> 0" unfolding p by (cases pb) simp
  have full: "component (unit3 L p) 2 \<noteq> 0 \<and> vdot p p * quad M v
      = range_inc * range_inc * (vdot p v * vdot p v) + a * a * vdot p p * (vdot p p * vdot v v - vdot p v * vdot p v)"
    if s: "exact_sqrt L (vdot p p)" "exact_sqrt L (vdot q q)" "exact_sqrt L 1"
  proof -
    have p0: "p \<noteq> (0, 0, 0)" using h by auto
    note P = unit3_unit[OF s(1) p0, folded d_def r_def]
    obtain px py pz where pc: "p = (px, py, pz)" by (cases p)
    have xyz: "x = px / r" "y = py / r" "z = pz / r" using P(2) unfolding d pc by simp_all
    have pz: "pz \<noteq> 0" using h by (simp add: pc)
    have z: "z \<noteq> 0" using pz P(4) by (simp add: xyz)
    have "- (px / r + py / r) / (pz / r) = - (px + py) / pz"
      using P(4) pz unfolding add_divide_distrib[symmetric] minus_divide_left by simp
    then have t: "- (x + y) / z = - (component p 0 + component p 1) / component p 2" unfolding xyz pc by simp
    have q: "q = (1, 1, - (x + y) / z)" unfolding assms(3) t ..
    have T: "vdot (cross d b1) v * vdot (cross d b1) v + vdot (cross d b2) v * vdot (cross d b2) v = vdot v v - vdot d v * vdot d v"
      unfolding b2_def by (rule tangent_plane[OF P(1) d z b1_def s(2)[unfolded q] s(3)])
    have "quad M v = k * (vdot d v * vdot d v) + e * (r * r) * (vdot v v - vdot d v * vdot d v)"
      unfolding qd c[symmetric] cross_scale(3) T[symmetric] by (simp add: algebra_simps)
    moreover have "r * vdot d v = vdot p v" unfolding P(2) cross_scale(3) using P(4) by simp
    then have "r * r * (vdot d v * vdot d v) = vdot p v * vdot p v" by (metis mult.assoc mult.commute)
    then have w: "vdot p p * (vdot d v * vdot d v) = vdot p v * vdot p v" unfolding P(3) .
    have "vdot p p * (k * Q + e * vdot p p * (V - Q)) = k * (vdot p p * Q) + e * vdot p p * (vdot p p * V - vdot p p * Q)" for Q V
      by (simp add: algebra_simps)
    ultimately show ?thesis using z w unfolding P(3) k_def[symmetric] e_def[symmetric] d_def[symmetric] by (simp add: d numeral_2_eq_2)
  qed
  show ?thesis using sym nonneg p h full by blast
qed

text \<open>A square root exact at the point of the witness.\<close>

definition rooted_libm :: libm where
  "rooted_libm = triangle_libm\<lparr>l_sqrt := (\<lambda>t. if t = 9 then 3 else if t = 9 / 4 then 3 / 2 else t)\<rparr>"

lemma body_covariance_witness:
  "0 \<le> quad (snd (CalcBodyCov triangle_libm id (1, 2, 0) 3 4)) (5, 6, 7)
   \<and> quad (snd (CalcBodyCov rooted_libm id (2, - 1, 2) 3 4)) (2, - 1, 2) = 81"
proof
  show "0 \<le> quad (snd (CalcBodyCov triangle_libm id (1, 2, 0) 3 4)) (5, 6, 7)"
    using body_covariance[of triangle_libm id "(1, 2, 0)" 3 4 "fst (CalcBodyCov triangle_libm id (1, 2, 0) 3 4)"
      "snd (CalcBodyCov triangle_libm id (1, 2, 0) 3 4)", OF _ refl refl, of "(5, 6, 7)"] by simp
  let ?r = "CalcBodyCov rooted_libm id (2, - 1, 2) 3 4"
  have f: "fst ?r = (2, - 1, 2)" by (simp add: CalcBodyCov_def Let_def split: prod.splits)
  have s: "exact_sqrt rooted_libm 9" "exact_sqrt rooted_libm (9 / 4)" "exact_sqrt rooted_libm 1"
    by (simp_all add: exact_sqrt_def rooted_libm_def)
  have "?r = ((2, - 1, 2), snd ?r)" using f by (metis prod.collapse)
  from body_covariance[OF this refl refl, of "(2, - 1, 2)"] s
  show "quad (snd ?r) (2, - 1, 2) = 81" by simp
qed

section \<open>The iterations\<close>

fun iterations :: "lio_env \<Rightarrow> lio_config \<Rightarrow> states_group \<Rightarrow> nat \<Rightarrow> lio \<Rightarrow> (lio \<times> mat \<times> bool) res" where
  "iterations V c prop 0 l = lio_iteration V c prop l"
| "iterations V c prop (Suc k) l = bindR (lio_iteration V c prop l) (\<lambda>(l', _, _). iterations V c prop k l')"

lemma estimate_iterations:
  assumes "estimate V c prop (Suc n) rm l = Inr l'" "rm \<le> 1"
  shows "\<exists>k l1 G small. k \<le> n \<and> iterations V c prop k l = Inr (l1, G, small) \<and> l' = finish G l1
    \<and> (k < n \<longrightarrow> small \<and> (rm = 0 \<longrightarrow> 1 \<le> k)) \<and> (rm = 0 \<and> 1 \<le> n \<longrightarrow> 1 \<le> k)"
  using assms
proof (induction n arbitrary: rm l)
  case 0
  then obtain l1 G small where "lio_iteration V c prop l = Inr (l1, G, small)" "l' = finish G l1" by (auto simp: bindR_eq_Inr)
  then show ?case by fastforce
next
  case (Suc n)
  obtain l1 G small where i: "lio_iteration V c prop l = Inr (l1, G, small)"
    and e: "(if 2 \<le> rematch_count small (Suc n) rm then Inr (finish G l1) else estimate V c prop (Suc n) (rematch_count small (Suc n) rm) l1) = Inr l'"
    using Suc.prems(1) by (auto simp: bindR_eq_Inr)
  show ?case
  proof (cases "2 \<le> rematch_count small (Suc n) rm")
    case True
    then have "rm = 1" "small" using Suc.prems(2) by (auto simp: rematch_count_def split: if_splits)
    then show ?thesis using i e True by (intro exI[of _ 0] exI[of _ l1] exI[of _ G] exI[of _ small]) simp
  next
    case False
    then have "rematch_count small (Suc n) rm \<le> 1" "estimate V c prop (Suc n) (rematch_count small (Suc n) rm) l1 = Inr l'" using e by simp_all
    from Suc.IH[OF this(2,1)] obtain k l2 G2 s2 where "k \<le> n" "iterations V c prop k l1 = Inr (l2, G2, s2)" "l' = finish G2 l2" "k < n \<longrightarrow> s2"
      by blast
    then show ?thesis using i by (intro exI[of _ "Suc k"] exI[of _ l2] exI[of _ G2] exI[of _ s2]) simp
  qed
qed

text \<open>An iteration moves the state but keeps its covariance, and computes the gain from it.\<close>

lemma states_plus_cov [simp]: "cov (states_plus L s d) = cov s"
  by (simp add: states_plus_def)

lemma lio_iteration_cov:
  assumes "lio_iteration V c prop l = Inr (l', G, small)"
  shows "cov (lio_state l') = cov (lio_state l)" "\<exists>ms. G = snd (kalman_step V prop ms (lio_state l))"
proof -
  obtain pvs pvs' rs ms where
    "(let (dx, G) = kalman_step V prop ms (lio_state l); L = en_libm V in
       Inr (l\<lparr>pv_list := pvs', ptpl_list := rs, effct_feat_num := length rs, lio_state := states_plus L (lio_state l) dx\<rparr>, G,
         norm3 L (block3 0 dx) * (573 / 10) < 1 / 100 \<and> norm3 L (block3 3 dx) * 100 < 15 / 1000)) = (Inr (l', G, small) :: _ res)"
    using assms unfolding lio_iteration_def bindR_eq_Inr by (auto simp: bindR_eq_Inr)
  moreover obtain dx G' where "kalman_step V prop ms (lio_state l) = (dx, G')" by (cases "kalman_step V prop ms (lio_state l)")
  ultimately show "cov (lio_state l') = cov (lio_state l)" "\<exists>ms. G = snd (kalman_step V prop ms (lio_state l))"
    by (auto simp: Let_def intro!: exI[of _ ms])
qed

lemma iterations_keep_cov:
  "iterations V c prop k l = Inr (l1, G, small) \<Longrightarrow> cov (lio_state l1) = cov (lio_state l)
    \<and> (\<exists>ms s. cov s = cov (lio_state l) \<and> G = snd (kalman_step V prop ms s))"
proof (induction k arbitrary: l)
  case 0 then show ?case using lio_iteration_cov[of V c "prop" l l1 G small] by auto
next
  case (Suc k)
  then obtain l' G' s' where i: "lio_iteration V c prop l = Inr (l', G', s')" "iterations V c prop k l' = Inr (l1, G, small)"
    by (auto simp: bindR_eq_Inr)
  show ?case using Suc.IH[OF i(2)] unfolding lio_iteration_cov(1)[OF i(1)] .
qed

text \<open>
  C39 covariance_updated_once: with at least one iteration allowed, an estimate is one or more
  iterations, all of which keep the covariance the estimate began with, followed
  by a single update of it: it ends as (I - G) P, where P is the covariance at the
  start and G the gain the last iteration computed from P.  With two iterations or
  more allowed there are at least two, and it stops early only after a small
  correction.  With none allowed the points are prepared and nothing else is done.
\<close>

theorem covariance_updated_once:
  assumes "StateEstimation V c prop l = Inr l'"
  shows "(voxel_config.max_iterations (voxels c) < 1 \<longrightarrow> l' = prepare_points V c l)
    \<and> (1 \<le> voxel_config.max_iterations (voxels c) \<longrightarrow> (\<exists>k l1 G small. int k < voxel_config.max_iterations (voxels c)
        \<and> iterations V c prop k (prepare_points V c l) = Inr (l1, G, small) \<and> l' = finish G l1
        \<and> cov (lio_state l1) = cov (lio_state l)
        \<and> cov (lio_state l') = mat_mul (mat_add (diagonal 19 (\<lambda>i. 1)) (mat_scale (- 1) G)) (cov (lio_state l))
        \<and> (\<exists>ms s. cov s = cov (lio_state l) \<and> G = snd (kalman_step V prop ms s))
        \<and> (int k + 1 < voxel_config.max_iterations (voxels c) \<longrightarrow> small) \<and> (2 \<le> voxel_config.max_iterations (voxels c) \<longrightarrow> 1 \<le> k)))"
proof (intro conjI impI)
  assume "voxel_config.max_iterations (voxels c) < 1"
  then have "nat (voxel_config.max_iterations (voxels c)) = 0" by simp
  then show "l' = prepare_points V c l" using assms by (simp add: StateEstimation_def)
next
  assume m: "1 \<le> voxel_config.max_iterations (voxels c)"
  obtain n where n: "nat (voxel_config.max_iterations (voxels c)) = Suc n"
    using m by (metis Suc_pred' nat_0_iff not_le zero_less_nat_eq zless_nat_conj less_le_trans zero_less_one)
  have "estimate V c prop (Suc n) 0 (prepare_points V c l) = Inr l'" using assms n by (simp add: StateEstimation_def)
  from estimate_iterations[OF this] obtain k l1 G small where k: "k \<le> n" "iterations V c prop k (prepare_points V c l) = Inr (l1, G, small)"
    "l' = finish G l1" "k < n \<longrightarrow> small" "1 \<le> n \<longrightarrow> 1 \<le> k" by auto
  have p: "cov (lio_state (prepare_points V c l)) = cov (lio_state l)" by (simp add: prepare_points_def)
  note C = iterations_keep_cov[OF k(2), unfolded p]
  have "cov (lio_state l') = mat_mul (mat_add (diagonal 19 (\<lambda>i. 1)) (mat_scale (- 1) G)) (cov (lio_state l))"
    using C unfolding k(3) by (simp add: finish_def)
  then show "\<exists>k l1 G small. int k < voxel_config.max_iterations (voxels c)
        \<and> iterations V c prop k (prepare_points V c l) = Inr (l1, G, small) \<and> l' = finish G l1
        \<and> cov (lio_state l1) = cov (lio_state l)
        \<and> cov (lio_state l') = mat_mul (mat_add (diagonal 19 (\<lambda>i. 1)) (mat_scale (- 1) G)) (cov (lio_state l))
        \<and> (\<exists>ms s. cov s = cov (lio_state l) \<and> G = snd (kalman_step V prop ms s))
        \<and> (int k + 1 < voxel_config.max_iterations (voxels c) \<longrightarrow> small) \<and> (2 \<le> voxel_config.max_iterations (voxels c) \<longrightarrow> 1 \<le> k)"
    using k n m C by (intro exI[of _ k] exI[of _ l1] exI[of _ G] exI[of _ small]) auto
qed

definition empty_lio :: "voxel_map \<Rightarrow> lio" where
  "empty_lio m = \<lparr>lio_state = StatesGroup, lio_map = m, extR = m3_id, extT = (0, 0, 0), feats_down_body = [], feats_down_size = 0,
    cross_mat_list = [], body_cov_list = [], pv_list = [], ptpl_list = [], effct_feat_num = 0\<rparr>"

definition plain_config :: "int \<Rightarrow> lio_config" where
  "plain_config n = \<lparr>voxels = small_cfg\<lparr>max_iterations := n\<rparr>, dept_err = 1, beam_err = 1, map_sliding_en = False\<rparr>"

definition empty_map :: voxel_map where
  "empty_map = \<lparr>vm_data = [], vm_map = (\<lambda>l. None), next_node = 0, plane_ids = 0, lru_size = 0, position_last = (0, 0, 0),
    last_slide_position = (0, 0, 0)\<rparr>"

lemma empty_run: "\<exists>l'. StateEstimation (identity_env L nm) (plain_config 1) StatesGroup (empty_lio m) = Inr l'"
  by (simp add: StateEstimation_def plain_config_def prepare_points_def empty_lio_def lio_iteration_def place_points_def Let_def split: prod.splits)

lemma covariance_updated_once_witness:
  "\<exists>l' G. StateEstimation (identity_env triangle_libm diagonal_solver) (plain_config 1) StatesGroup (empty_lio empty_map) = Inr l'
    \<and> cov (lio_state l') = mat_mul (mat_add (diagonal 19 (\<lambda>i. 1)) (mat_scale (- 1) G)) (cov StatesGroup)"
proof -
  obtain l' where l: "StateEstimation (identity_env triangle_libm diagonal_solver) (plain_config 1) StatesGroup (empty_lio empty_map) = Inr l'" using empty_run by blast
  have m: "1 \<le> voxel_config.max_iterations (voxels (plain_config 1))" by (simp add: plain_config_def)
  have e: "lio_state (empty_lio empty_map) = StatesGroup" by (simp add: empty_lio_def)
  show ?thesis using covariance_updated_once[OF l, THEN conjunct2] m l unfolding e by blast
qed

section \<open>Nothing to match\<close>

lemma Log_id: "Log L m3_id = (0, 0, 0)"
  by (simp add: Log_def m3_id_def)

lemma states_minus_same: "rotation (rot_end s) \<Longrightarrow> states_minus L s s = replicate 19 0"
proof -
  assume "rotation (rot_end s)"
  then have "Log L (m3_mul (m3_T (rot_end s)) (rot_end s)) = (0, 0, 0)" by (simp add: rotation_def Log_id)
  moreover have "vlist (vsub v v) = [0, 0, 0]" for v by (cases v) simp
  ultimately show ?thesis by (simp add: states_minus_def eval_nat_numeral)
qed

lemma vadd_none: "vadd v (0, 0, 0) = v"
  by (cases v) simp

lemma states_plus_zero: "l_sqrt L 0 = 0 \<Longrightarrow> states_plus L s (replicate 19 0) = s"
  by (simp add: states_plus_def block3_def Exp_xyz_def Let_def vadd_none)

lemma sum_list_zeros: "sum_list (map2 (*) r (replicate n (0 :: rat))) = 0"
  by (induction n arbitrary: r) (simp, case_tac r, simp_all)

lemma mat_vec_zeros: "mat_vec M (replicate n 0) = replicate (length M) 0"
  by (induction M) (simp_all add: mat_vec_def sum_list_zeros)

lemma kalman_step_nothing:
  assumes "\<And>M. length (en_inverse V M) = 19" "rotation (rot_end s)" "s = prop"
  shows "fst (kalman_step V prop [] s) = replicate 19 0"
proof -
  have w: "weighted [] = replicate 6 0" by (simp add: weighted_def eval_nat_numeral upt_rec)
  have l: "length (gain K H) = length K" "length (six_columns K) = length K" for K H
    unfolding six_columns_def gain_def mat_mul_def by simp_all
  have z: "map2 (-) (map2 (+) (replicate n a) (replicate n b)) (replicate n c) = replicate n (a + b - (c :: rat))" for n a b c
    by (induction n) simp_all
  show ?thesis unfolding kalman_step_def Let_def fst_conv w
    using assms by (simp add: states_minus_same mat_vec_zeros l z)
qed

lemma iteration_nothing:
  assumes "lio_iteration V c prop l = Inr (l', G, small)" "lio_state l = prop" "rotation (rot_end prop)" "l_sqrt (en_libm V) 0 = 0"
    "\<And>M. length (en_inverse V M) = 19" "\<And>pvs qs rs. BuildResidualListLRU (en_numeric V) (voxels c) (lio_map l) pvs = Inr (qs, rs) \<Longrightarrow> rs = []"
  shows "lio_state l' = prop \<and> lio_map l' = lio_map l"
proof -
  obtain pvs where p: "place_points l = Inr pvs" using assms(1) by (auto simp: lio_iteration_def bindR_eq_Inr)
  obtain qs rs where "BuildResidualListLRU (en_numeric V) (voxels c) (lio_map l) pvs = Inr (qs, rs)"
    using assms(1) p by (auto simp: lio_iteration_def bindR_eq_Inr)
  then have q: "BuildResidualListLRU (en_numeric V) (voxels c) (lio_map l) pvs = Inr (qs, [])" using assms(6) by blast
  have "fst (kalman_step V prop [] prop) = replicate 19 0" by (rule kalman_step_nothing[OF assms(5,3) refl])
  then obtain G' where k: "kalman_step V prop [] prop = (replicate 19 0, G')" by (metis prod.collapse)
  show ?thesis using assms(1) unfolding lio_iteration_def p bindR_simps q assms(2)
    by (auto simp: k Let_def states_plus_zero[OF assms(4)])
qed

lemma estimate_nothing:
  assumes "estimate V c prop n rm l = Inr l'" "lio_state l = prop" "rotation (rot_end prop)" "l_sqrt (en_libm V) 0 = 0"
    "\<And>M. length (en_inverse V M) = 19" "\<And>pvs qs rs. BuildResidualListLRU (en_numeric V) (voxels c) (lio_map l) pvs = Inr (qs, rs) \<Longrightarrow> rs = []"
  shows "(lio_state l')\<lparr>cov := cov prop\<rparr> = prop \<and> vm_map (lio_map l') = vm_map (lio_map l)"
  using assms(1,2,6)
proof (induction n arbitrary: rm l)
  case 0 then show ?case by simp
next
  case (Suc n)
  obtain l1 G small where i: "lio_iteration V c prop l = Inr (l1, G, small)"
    and e: "(if 2 \<le> rematch_count small n rm \<or> n = 0 then Inr (finish G l1) else estimate V c prop n (rematch_count small n rm) l1) = Inr l'"
    using Suc.prems(1) by (auto simp: bindR_eq_Inr)
  have k: "lio_state l1 = prop" "lio_map l1 = lio_map l"
    using iteration_nothing[OF i Suc.prems(2) assms(3,4,5) Suc.prems(3)] by simp_all
  show ?case
  proof (cases "2 \<le> rematch_count small n rm \<or> n = 0")
    case True
    then have "l' = finish G l1" using e by simp
    then show ?thesis using k by (simp add: finish_def)
  next
    case False
    then have "estimate V c prop n (rematch_count small n rm) l1 = Inr l'" using e by simp
    from Suc.IH[OF this k(1)] show ?thesis using Suc.prems(3) k(2) by simp
  qed
qed

text \<open>
  no_match_no_move: when no point matches a plane, as with an empty map, the estimate leaves
  attitude, position, velocity, biases and gravity as predicted, however many
  iterations it takes.
\<close>

theorem no_match_no_move:
  assumes "StateEstimation V c prop l = Inr l'" "lio_state l = prop" "rotation (rot_end prop)" "l_sqrt (en_libm V) 0 = 0"
    "\<And>M. length (en_inverse V M) = 19" "\<And>pvs qs rs. BuildResidualListLRU (en_numeric V) (voxels c) (lio_map l) pvs = Inr (qs, rs) \<Longrightarrow> rs = []"
  shows "(lio_state l')\<lparr>cov := cov prop\<rparr> = prop"
  using assms(1,2,6) estimate_nothing[OF _ _ assms(3,4,5), of c "nat (voxel_config.max_iterations (voxels c))" 0 "prepare_points V c l" l']
  by (simp add: StateEstimation_def prepare_points_def)

lemma no_match_no_move_witness:
  "\<exists>l'. StateEstimation (identity_env triangle_libm diagonal_solver) (plain_config 1) StatesGroup (empty_lio empty_map) = Inr l' \<and> (lio_state l')\<lparr>cov := cov StatesGroup\<rparr> = StatesGroup"
proof -
  let ?V = "identity_env triangle_libm diagonal_solver" and ?c = "plain_config 1"
  obtain l' where l: "StateEstimation ?V ?c StatesGroup (empty_lio empty_map) = Inr l'" using empty_run by blast
  have n: "rs = []" if "BuildResidualListLRU diagonal_solver (voxels ?c) empty_map pvs = Inr (qs, rs)" for pvs qs rs
    using that by (induction pvs arbitrary: qs rs) (auto simp: match_point_def empty_map_def bindR_eq_Inr)
  have "(lio_state l')\<lparr>cov := cov StatesGroup\<rparr> = StatesGroup"
    by (rule no_match_no_move[OF l]) (use n in \<open>auto simp: identity_env_def empty_lio_def StatesGroup_def triangle_libm_def diagonal_def\<close>)
  then show ?thesis using l by blast
qed

section \<open>The shape of the covariance\<close>

lemma transpose_square: "dim n n M \<Longrightarrow> 0 < n \<Longrightarrow> dim n n (transpose M)"
  using transpose_dim[of n n M] by (intro dimI) (simp_all add: dim_def)

lemma iteration_cov:
  assumes "lio_iteration V c prop l = Inr (l', G, small)" "\<And>M. dim 19 19 M \<Longrightarrow> dim 19 19 (en_inverse V M)" "dim 19 19 (cov (lio_state l))"
  shows "cov (lio_state l') = cov (lio_state l) \<and> dim 19 19 G"
proof -
  obtain pvs where p: "place_points l = Inr pvs" using assms(1) by (auto simp: lio_iteration_def bindR_eq_Inr)
  then obtain qs rs where q: "BuildResidualListLRU (en_numeric V) (voxels c) (lio_map l) pvs = Inr (qs, rs)"
    using assms(1) by (auto simp: lio_iteration_def bindR_eq_Inr)
  then obtain ms where m: "foldR (\<lambda>r ms. bindR (measurement prop l r) (\<lambda>m. Inr (ms @ [m]))) rs [] = Inr ms"
    using assms(1) p by (auto simp: lio_iteration_def bindR_eq_Inr)
  obtain dx G' where k: "kalman_step V prop ms (lio_state l) = (dx, G')" by fastforce
  have "G' = G" "lio_state l' = states_plus (en_libm V) (lio_state l) dx"
    using assms(1) unfolding lio_iteration_def p q m bindR_simps prod.case k Let_def by auto
  then show ?thesis using kalman_step_dim(2)[OF assms(2,3), of "prop" ms] k by (simp add: states_plus_def)
qed

lemma iterations_cov:
  assumes "iterations V c prop k l = Inr (l', G, small)" "\<And>M. dim 19 19 M \<Longrightarrow> dim 19 19 (en_inverse V M)" "dim 19 19 (cov (lio_state l))"
  shows "cov (lio_state l') = cov (lio_state l) \<and> dim 19 19 G"
  using assms(1,3)
proof (induction k arbitrary: l)
  case 0 then show ?case using iteration_cov[OF _ assms(2)] by simp
next
  case (Suc k)
  obtain l1 G1 s1 where i: "lio_iteration V c prop l = Inr (l1, G1, s1)" "iterations V c prop k l1 = Inr (l', G, small)"
    using Suc.prems(1) by (auto simp: bindR_eq_Inr)
  show ?case using Suc.IH[OF i(2)] iteration_cov[OF i(1) assms(2) Suc.prems(2)] Suc.prems(2) by simp
qed

lemma mat_scale_dim: "dim m n M \<Longrightarrow> dim m n (mat_scale k M)"
  by (auto simp: dim_def mat_scale_def)

lemma prop_step_cov:
  assumes "prop_step L p s h t ts v = Inr v'" "dim 19 19 (pr_cov v)"
  shows "dim 19 19 (pr_cov v')"
proof -
  obtain dt offs where ts: "ts = (dt, offs)" by (cases ts)
  define ang acc where "ang = vsub (vscale (1 / 2) (vadd (im_gyr h) (im_gyr t))) (bias_g s)"
    and "acc = vsub (vscale (G_m_s2 / norm3 L (mean_acc p)) (vscale (1 / 2) (vadd (im_acc h) (im_acc t)))) (bias_a s)"
  define R where "R = pr_rot v"
  have n: "norm3 L (mean_acc p) \<noteq> 0" using assms(1) unfolding ts prop_step_def by (auto simp: Let_def)
  then have e: "pr_cov v' = mat_add (mat_mul (mat_mul (step_jacobian L p R ang acc dt) (pr_cov v)) (transpose (step_jacobian L p R ang acc dt))) (step_noise p R dt)"
    using assms(1) unfolding ts prop_step_def Let_def prod.case if_not_P[OF n] ang_def acc_def R_def by (simp only: sum.inject(2)) auto
  have F: "dim 19 19 (step_jacobian L p R ang acc dt)"
    by (simp add: step_jacobian_def Let_def set_block_dim diagonal_dim(1))
  have W: "dim 19 19 (step_noise p R dt)" by (simp add: step_noise_def Let_def set_block_dim zeros_dim(1))
  show ?thesis unfolding e
    by (intro mat_add_dim(1)[OF _ W] mat_mul_dim(1)[OF mat_mul_dim(1)[OF F assms(2)] transpose_square[OF F]]) simp_all
qed

lemma prop_loop_cov:
  "prop_loop L p s beg e is v = Inr v' \<Longrightarrow> dim 19 19 (pr_cov v) \<Longrightarrow> dim 19 19 (pr_cov v')"
proof (induction L p s beg e "is" v rule: prop_loop.induct)
  case (3 L p s beg e h t "is" v)
  show ?case
  proof (cases "toSec (im_stamp t) < beg")
    case True then show ?thesis using 3 by simp
  next
    case False
    then obtain v1 where "prop_step L p s h t (step_time beg e (is = []) h t) v = Inr v1" "prop_loop L p s beg e (t # is) v1 = Inr v'"
      using "3.prems"(1) by (auto simp: bindR_eq_Inr)
    then show ?thesis using "3.IH"(2)[OF False] prop_step_cov[OF _ "3.prems"(2)] by blast
  qed
qed simp_all

text \<open>
  covariance_shape: the covariance of the state stays a matrix of nineteen rows and columns
  through the propagation over the samples and through the estimate from the scan.
\<close>

theorem covariance_shape:
  assumes "\<And>M. dim 19 19 M \<Longrightarrow> dim 19 19 (en_inverse V M)"
  shows "(UndistortPcl L lm s p = Inr (pts, lm', s', p') \<longrightarrow> dim 19 19 (cov s) \<longrightarrow> dim 19 19 (cov s'))
    \<and> (StateEstimation V c prop l = Inr l' \<longrightarrow> dim 19 19 (cov (lio_state l)) \<longrightarrow> dim 19 19 (cov (lio_state l')))"
proof (intro conjI impI)
  assume u: "UndistortPcl L lm s p = Inr (pts, lm', s', p')" "dim 19 19 (cov s)"
  define v0 where "v0 = \<lparr>pr_rot = rot_end s, pr_vel = vel_end s, pr_pos = pos_end s, pr_cov = cov s, pr_acc = acc_s_last p, pr_ang = angvel_last p,
         pr_poses = imu_pose p @ [set_pose6d 0 (acc_s_last p) (angvel_last p) (vel_end s) (pos_end s) (rot_end s)], pr_all = 0\<rparr>"
  have ne: "measures lm \<noteq> []" using u(1) by (auto simp: UndistortPcl_def)
  obtain v where v: "prop_loop L p s (last_prop_end_time p) (lio_time (last (measures lm))) (last_imu p # mg_imu (last (measures lm))) v0 = Inr v"
    using u(1) ne unfolding UndistortPcl_def Let_def v0_def by (auto simp: bindR_eq_Inr)
  have "cov s' = pr_cov v" using u(1) ne unfolding UndistortPcl_def Let_def if_not_P[OF ne] v[unfolded v0_def] bindR_simps by (auto split: if_split_asm)
  moreover have "dim 19 19 (pr_cov v)" using prop_loop_cov[OF v] u(2) by (simp add: v0_def)
  ultimately show "dim 19 19 (cov s')" by simp
next
  assume e: "StateEstimation V c prop l = Inr l'" and d: "dim 19 19 (cov (lio_state l))"
  let ?n = "nat (voxel_config.max_iterations (voxels c))"
  have p: "lio_state (prepare_points V c l) = lio_state l" by (simp add: prepare_points_def)
  show "dim 19 19 (cov (lio_state l'))"
  proof (cases ?n)
    case 0 then show ?thesis using e d p by (simp add: StateEstimation_def)
  next
    case (Suc n)
    then have "estimate V c prop (Suc n) 0 (prepare_points V c l) = Inr l'" using e by (simp add: StateEstimation_def)
    from estimate_iterations[OF this] obtain k l1 G small where i: "iterations V c prop k (prepare_points V c l) = Inr (l1, G, small)" "l' = finish G l1" by auto
    from iterations_cov[OF i(1) assms] have c: "cov (lio_state l1) = cov (lio_state l)" "dim 19 19 G" using d p by simp_all
    have "dim 19 19 (mat_mul (mat_add (diagonal 19 (\<lambda>i. 1)) (mat_scale (- 1) G)) (cov (lio_state l)))"
      by (rule mat_mul_dim(1)[OF mat_add_dim(1)[OF diagonal_dim(1) mat_scale_dim[OF c(2)]] d]) simp
    then show ?thesis by (simp add: i(2) finish_def c(1))
  qed
qed

lemma covariance_shape_witness:
  "\<exists>l'. StateEstimation (identity_env triangle_libm diagonal_solver) (plain_config 1) StatesGroup (empty_lio empty_map) = Inr l' \<and> dim 19 19 (cov (lio_state l'))"
proof -
  obtain l' where l: "StateEstimation (identity_env triangle_libm diagonal_solver) (plain_config 1) StatesGroup (empty_lio empty_map) = Inr l'" using empty_run by blast
  have "dim 19 19 (cov (lio_state l'))"
  proof (rule covariance_shape[THEN conjunct2, rule_format, OF _ l])
    show "dim 19 19 (en_inverse (identity_env triangle_libm diagonal_solver) M)" for M by (simp add: identity_env_def diagonal_dim(1))
    show "dim 19 19 (cov (lio_state (empty_lio empty_map)))" by (simp add: empty_lio_def StatesGroup_def diagonal_dim(1))
  qed
  then show ?thesis using l by blast
qed

end
