(* ===== verification/Mapper_Config.thy ===== *)
theory Mapper_Config
  imports Lio_Estimate
begin

text \<open>
  The configuration of the mapper (ReadParameters and the settings of
  InitializeComponents in edge/src/FAST-LIVO2/src/LIVMapper.cpp, loadVoxelConfig in
  voxel_map.cpp): typed parameters with their defaults, the values handed to the
  parts of the program, and the mode the mapper runs in.
\<close>

section \<open>Typed parameters\<close>

datatype param_value = PBool bool | PInt int | PDouble rat | PString string | PInts "int list" | PDoubles "rat list"

fun same_type :: "param_value \<Rightarrow> param_value \<Rightarrow> bool" where
  "same_type (PBool _) (PBool _) = True"
| "same_type (PInt _) (PInt _) = True"
| "same_type (PDouble _) (PDouble _) = True"
| "same_type (PString _) (PString _) = True"
| "same_type (PInts _) (PInts _) = True"
| "same_type (PDoubles _) (PDoubles _) = True"
| "same_type _ _ = False"

text \<open>
  The node: the values given to it from outside and the parameters declared so far.
  Declaring one twice, or one whose given value has another type, throws.
\<close>

type_synonym params = "string \<rightharpoonup> param_value"

definition declare_parameter :: "params \<Rightarrow> string \<times> param_value \<Rightarrow> params \<Rightarrow> params res" where
  "declare_parameter given nd P = (case nd of (n, d) \<Rightarrow>
     if P n \<noteq> None then Inl RuntimeError
     else case given n of None \<Rightarrow> Inr (P(n \<mapsto> d)) | Some v \<Rightarrow> if same_type v d then Inr (P(n \<mapsto> v)) else Inl RuntimeError)"

fun as_bool :: "param_value option \<Rightarrow> bool res" where
  "as_bool (Some (PBool b)) = Inr b" | "as_bool _ = Inl RuntimeError"

fun as_int :: "param_value option \<Rightarrow> int res" where
  "as_int (Some (PInt i)) = Inr i" | "as_int _ = Inl RuntimeError"

fun as_double :: "param_value option \<Rightarrow> rat res" where
  "as_double (Some (PDouble r)) = Inr r" | "as_double _ = Inl RuntimeError"

fun as_string :: "param_value option \<Rightarrow> string res" where
  "as_string (Some (PString s)) = Inr s" | "as_string _ = Inl RuntimeError"

fun as_integer_array :: "param_value option \<Rightarrow> int list res" where
  "as_integer_array (Some (PInts is)) = Inr is" | "as_integer_array _ = Inl RuntimeError"

fun as_double_array :: "param_value option \<Rightarrow> rat list res" where
  "as_double_array (Some (PDoubles rs)) = Inr rs" | "as_double_array _ = Inl RuntimeError"

section \<open>The voxel map\<close>

definition voxel_params :: "(string \<times> param_value) list" where
  "voxel_params = [(''publish.pub_plane_en'', PBool False), (''debug.print_lio_stats'', PBool False), (''lio.max_layer'', PInt 1),
     (''lio.voxel_size'', PDouble (1 / 2)), (''lio.min_eigen_value'', PDouble (1 / 100)), (''lio.sigma_num'', PDouble 3),
     (''lio.beam_err'', PDouble (2 / 100)), (''lio.dept_err'', PDouble (5 / 100)), (''lio.layer_init_num'', PInts [5, 5, 5, 5, 5]),
     (''lio.max_points_num'', PInt 50), (''lio.max_iterations'', PInt 5), (''local_map.map_sliding_en'', PBool False),
     (''local_map.half_map_size'', PInt 100), (''local_map.sliding_thresh'', PDouble 8)]"

text \<open>Each is read right after it is declared; integers are narrowed to int.\<close>

definition loadVoxelConfig :: "params \<Rightarrow> params \<Rightarrow> (lio_config \<times> params) res" where
  "loadVoxelConfig given P0 = bindR (foldR (declare_parameter given) voxel_params P0) (\<lambda>P.
     bindR (as_bool (P ''publish.pub_plane_en'')) (\<lambda>_. bindR (as_bool (P ''debug.print_lio_stats'')) (\<lambda>_.
     bindR (as_int (P ''lio.max_layer'')) (\<lambda>layers. bindR (as_double (P ''lio.voxel_size'')) (\<lambda>vs.
     bindR (as_double (P ''lio.min_eigen_value'')) (\<lambda>eig. bindR (as_double (P ''lio.sigma_num'')) (\<lambda>sigma.
     bindR (as_double (P ''lio.beam_err'')) (\<lambda>beam. bindR (as_double (P ''lio.dept_err'')) (\<lambda>dept.
     bindR (as_integer_array (P ''lio.layer_init_num'')) (\<lambda>init. bindR (as_int (P ''lio.max_points_num'')) (\<lambda>points.
     bindR (as_int (P ''lio.max_iterations'')) (\<lambda>iters. bindR (as_bool (P ''local_map.map_sliding_en'')) (\<lambda>slide.
     bindR (as_int (P ''local_map.half_map_size'')) (\<lambda>half. bindR (as_double (P ''local_map.sliding_thresh'')) (\<lambda>thresh.
     Inr (\<lparr>voxels = \<lparr>max_voxel_size = vs, max_layer = int32 layers, max_iterations = int32 iters, layer_init_num = map int32 init,
             max_points_num = int32 points, planner_threshold = eig, sigma_num = sigma, sliding_thresh = thresh, half_map_size = int32 half\<rparr>,
           dept_err = dept, beam_err = beam, map_sliding_en = slide\<rparr>, P))))))))))))))))"

section \<open>The mapper\<close>

definition mapper_params :: "(string \<times> param_value) list" where
  "mapper_params = [(''camera_config'', PString ''''), (''common.lid_topic'', PString ''/livox/lidar''), (''common.imu_topic'', PString ''/livox/imu''),
     (''common.ros_driver_bug_fix'', PBool False), (''common.img_en'', PInt 1), (''common.lidar_en'', PInt 1),
     (''common.img_topic'', PString ''/left_camera/image''), (''vio.normal_en'', PBool True), (''vio.inverse_composition_en'', PBool False),
     (''vio.max_iterations'', PInt 5), (''vio.img_point_cov'', PInt 100), (''vio.raycast_en'', PBool False), (''vio.exposure_estimate_en'', PBool True),
     (''vio.inv_expo_cov'', PDouble (2 / 10)), (''vio.grid_size'', PInt 5), (''vio.patch_pyrimid_level'', PInt 3), (''vio.patch_size'', PInt 8),
     (''vio.outlier_threshold'', PInt 1000), (''time_offset.exposure_time_init'', PDouble 0), (''time_offset.img_time_offset'', PDouble 0),
     (''time_offset.imu_time_offset'', PDouble 0), (''time_offset.lidar_time_offset'', PDouble 0), (''uav.imu_rate_odom'', PBool False),
     (''uav.gravity_align_en'', PBool False), (''uav.sensor_pitch_deg'', PDouble 0), (''uav.publish_map_odom_tf'', PBool True),
     (''evo.seq_name'', PString ''01''), (''evo.pose_output_en'', PBool False), (''imu.gyr_cov'', PDouble 1), (''imu.acc_cov'', PDouble 1),
     (''imu.imu_int_frame'', PInt 3), (''imu.gravity_est_en'', PBool True), (''imu.ba_bg_est_en'', PBool True), (''preprocess.blind'', PDouble (1 / 100)),
     (''preprocess.filter_size_surf'', PDouble (1 / 2)), (''preprocess.hilti_en'', PBool False), (''preprocess.lidar_type'', PInt 1),
     (''preprocess.scan_line'', PInt 6), (''preprocess.point_filter_num'', PInt 3), (''preprocess.feature_extract_enabled'', PBool False),
     (''pcd_save.interval'', PInt (- 1)), (''pcd_save.pcd_save_en'', PBool False), (''pcd_save.colmap_output_en'', PBool False),
     (''pcd_save.filter_size_pcd'', PDouble (1 / 2)), (''extrin_calib.extrinsic_T'', PDoubles []), (''extrin_calib.extrinsic_R'', PDoubles []),
     (''extrin_calib.Pcl'', PDoubles []), (''extrin_calib.Rcl'', PDoubles []), (''debug.plot_time'', PDouble (- 10)), (''debug.frame_cnt'', PInt 6),
     (''debug.print_timing'', PBool False), (''publish.blind_rgb_points'', PDouble (1 / 100)), (''publish.pub_scan_num'', PInt 1),
     (''publish.pub_effect_point_en'', PBool False), (''publish.dense_map_en'', PBool False)]"

text \<open>The settings of the visual part, and those of the mapper and the parts around it.\<close>

record vio_config =
  vc_normal_en :: bool
  vc_inverse_composition_en :: bool
  vc_max_iterations :: int
  vc_img_point_cov :: rat
  vc_raycast_en :: bool
  vc_grid_size :: int
  vc_patch_pyrimid_level :: int
  vc_patch_size :: int
  vc_outlier_threshold :: rat
  vc_Pcl :: "rat list"
  vc_Rcl :: "rat list"

record run_config =
  rc_camera_config :: string
  rc_driver_fix :: bool
  rc_img_en :: bool
  rc_lidar_en :: bool
  rc_vio :: vio_config
  rc_exposure_en :: bool
  rc_inv_expo_cov :: rat
  rc_exposure_time :: rat
  rc_img_offset :: rat
  rc_imu_offset :: rat
  rc_imu_prop :: bool
  rc_gravity_align :: bool
  rc_pitch_deg :: rat
  rc_map_odom_tf :: bool
  rc_gyr_cov :: rat
  rc_acc_cov :: rat
  rc_imu_frames :: int
  rc_gravity_est :: bool
  rc_bias_est :: bool
  rc_leaf_surf :: rat
  rc_hilti :: bool
  rc_pcd_interval :: int
  rc_pcd_save :: bool
  rc_leaf_pcd :: rat
  rc_extrin_T :: "rat list"
  rc_extrin_R :: "rat list"
  rc_blind_rgb :: rat
  rc_pub_scan_num :: int
  rc_pub_effect :: bool
  rc_dense_map :: bool

definition lidar_of_int :: "int \<Rightarrow> lidar_model" where
  "lidar_of_int i = (if i = 1 then AVIA else if i = 2 then VELO16 else if i = 3 then OUST64 else if i = 4 then L515 else if i = 5 then XT32
     else if i = 6 then PANDAR128 else if i = 7 then ROBOSENSE else OtherLidar)"

definition read_vio :: "params \<Rightarrow> vio_config res" where
  "read_vio P = bindR (as_bool (P ''vio.normal_en'')) (\<lambda>normal. bindR (as_bool (P ''vio.inverse_composition_en'')) (\<lambda>inverse.
     bindR (as_int (P ''vio.max_iterations'')) (\<lambda>iters. bindR (as_int (P ''vio.img_point_cov'')) (\<lambda>pcov.
     bindR (as_bool (P ''vio.raycast_en'')) (\<lambda>raycast. bindR (as_int (P ''vio.grid_size'')) (\<lambda>grid.
     bindR (as_int (P ''vio.patch_pyrimid_level'')) (\<lambda>level. bindR (as_int (P ''vio.patch_size'')) (\<lambda>patch.
     bindR (as_int (P ''vio.outlier_threshold'')) (\<lambda>outlier. bindR (as_double_array (P ''extrin_calib.Pcl'')) (\<lambda>t.
     bindR (as_double_array (P ''extrin_calib.Rcl'')) (\<lambda>R.
     Inr \<lparr>vc_normal_en = normal, vc_inverse_composition_en = inverse, vc_max_iterations = int32 iters, vc_img_point_cov = of_int pcov,
       vc_raycast_en = raycast, vc_grid_size = int32 grid, vc_patch_pyrimid_level = int32 level, vc_patch_size = int32 patch,
       vc_outlier_threshold = of_int outlier, vc_Pcl = t, vc_Rcl = R\<rparr>)))))))))))"

text \<open>The preprocessing is set member by member; here blind_sqr_ is kept in step.\<close>

definition read_pre :: "params \<Rightarrow> preprocess \<Rightarrow> preprocess res" where
  "read_pre P s = bindR (as_double (P ''preprocess.blind'')) (\<lambda>bl. bindR (as_int (P ''preprocess.lidar_type'')) (\<lambda>lidar.
     bindR (as_int (P ''preprocess.scan_line'')) (\<lambda>lines. bindR (as_int (P ''preprocess.point_filter_num'')) (\<lambda>nth.
     bindR (as_bool (P ''preprocess.feature_extract_enabled'')) (\<lambda>feat.
     Inr (s\<lparr>blind := bl, lidar_model := lidar_of_int (int32 lidar), n_scans := int32 lines, point_filter_num := int32 nth,
       feature_enabled := feat, blind_sqr := bl * bl\<rparr>))))))"

text \<open>Topics, names and what only controls logging and plotting are read and left aside.\<close>

definition read_run :: "params \<Rightarrow> vio_config \<Rightarrow> run_config res" where
  "read_run P vio = (
     bindR (as_string (P ''camera_config'')) (\<lambda>cam. bindR (as_bool (P ''common.ros_driver_bug_fix'')) (\<lambda>fix.
     bindR (as_int (P ''common.img_en'')) (\<lambda>img. bindR (as_int (P ''common.lidar_en'')) (\<lambda>lid.
     bindR (as_bool (P ''vio.exposure_estimate_en'')) (\<lambda>expo. bindR (as_double (P ''vio.inv_expo_cov'')) (\<lambda>ecov.
     bindR (as_double (P ''time_offset.exposure_time_init'')) (\<lambda>etime.
     bindR (as_double (P ''time_offset.img_time_offset'')) (\<lambda>ioff.
     bindR (as_double (P ''time_offset.imu_time_offset'')) (\<lambda>moff.
     bindR (as_double (P ''time_offset.lidar_time_offset'')) (\<lambda>_. bindR (as_bool (P ''uav.imu_rate_odom'')) (\<lambda>iprop.
     bindR (as_bool (P ''uav.gravity_align_en'')) (\<lambda>galign. bindR (as_double (P ''uav.sensor_pitch_deg'')) (\<lambda>pitch.
     bindR (as_bool (P ''uav.publish_map_odom_tf'')) (\<lambda>tf. bindR (as_string (P ''common.lid_topic'')) (\<lambda>_.
     bindR (as_string (P ''common.imu_topic'')) (\<lambda>_. bindR (as_string (P ''common.img_topic'')) (\<lambda>_.
     bindR (as_string (P ''evo.seq_name'')) (\<lambda>_. bindR (as_bool (P ''evo.pose_output_en'')) (\<lambda>_.
     bindR (as_double (P ''imu.gyr_cov'')) (\<lambda>gcov. bindR (as_double (P ''imu.acc_cov'')) (\<lambda>acov.
     bindR (as_int (P ''imu.imu_int_frame'')) (\<lambda>frames. bindR (as_bool (P ''imu.gravity_est_en'')) (\<lambda>gest.
     bindR (as_bool (P ''imu.ba_bg_est_en'')) (\<lambda>best. bindR (as_double (P ''preprocess.filter_size_surf'')) (\<lambda>leaf.
     bindR (as_bool (P ''preprocess.hilti_en'')) (\<lambda>hil. bindR (as_int (P ''pcd_save.interval'')) (\<lambda>every.
     bindR (as_bool (P ''pcd_save.pcd_save_en'')) (\<lambda>save. bindR (as_bool (P ''pcd_save.colmap_output_en'')) (\<lambda>_.
     bindR (as_double (P ''pcd_save.filter_size_pcd'')) (\<lambda>leafp.
     bindR (as_double_array (P ''extrin_calib.extrinsic_T'')) (\<lambda>exT.
     bindR (as_double_array (P ''extrin_calib.extrinsic_R'')) (\<lambda>exR. bindR (as_double (P ''debug.plot_time'')) (\<lambda>_.
     bindR (as_int (P ''debug.frame_cnt'')) (\<lambda>_. bindR (as_bool (P ''debug.print_timing'')) (\<lambda>_.
     bindR (as_double (P ''publish.blind_rgb_points'')) (\<lambda>brgb. bindR (as_int (P ''publish.pub_scan_num'')) (\<lambda>scans.
     bindR (as_bool (P ''publish.pub_effect_point_en'')) (\<lambda>eff. bindR (as_bool (P ''publish.dense_map_en'')) (\<lambda>dense.
     Inr \<lparr>rc_camera_config = cam, rc_driver_fix = fix, rc_img_en = (int32 img \<noteq> 0), rc_lidar_en = (int32 lid \<noteq> 0), rc_vio = vio, rc_exposure_en = expo,
       rc_inv_expo_cov = ecov, rc_exposure_time = etime, rc_img_offset = ioff, rc_imu_offset = moff, rc_imu_prop = iprop, rc_gravity_align = galign,
       rc_pitch_deg = pitch, rc_map_odom_tf = tf, rc_gyr_cov = gcov, rc_acc_cov = acov, rc_imu_frames = int32 frames, rc_gravity_est = gest,
       rc_bias_est = best, rc_leaf_surf = leaf, rc_hilti = hil, rc_pcd_interval = int32 every, rc_pcd_save = save, rc_leaf_pcd = leafp,
       rc_extrin_T = exT, rc_extrin_R = exR, rc_blind_rgb = brgb, rc_pub_scan_num = int32 scans, rc_pub_effect = eff, rc_dense_map = dense\<rparr>))))))))))))))))))))))))))))))))))))))))"

definition ReadParameters :: "params \<Rightarrow> preprocess \<Rightarrow> params \<Rightarrow> (run_config \<times> preprocess \<times> params) res" where
  "ReadParameters given s P0 = bindR (foldR (declare_parameter given) mapper_params P0) (\<lambda>P.
     bindR (read_vio P) (\<lambda>vio. bindR (read_run P vio) (\<lambda>c. bindR (read_pre P s) (\<lambda>s'. Inr (c, s', P)))))"

section \<open>Handing the settings out\<close>

text \<open>VEC_FROM_ARRAY and MAT_FROM_ARRAY index the array without a check.\<close>

fun vec_from_array :: "rat list \<Rightarrow> vec res" where
  "vec_from_array (x # y # z # _) = Inr (x, y, z)"
| "vec_from_array _ = Inl OutOfBounds"

fun mat_from_array :: "rat list \<Rightarrow> mat3 res" where
  "mat_from_array (a # b # c # d # e # f # g # h # i # _) = Inr ((a, b, c), (d, e, f), (g, h, i))"
| "mat_from_array _ = Inl OutOfBounds"

definition imu_settings :: "run_config \<Rightarrow> vec \<Rightarrow> mat3 \<Rightarrow> imu_process \<Rightarrow> imu_process" where
  "imu_settings c t R p = (let three = (\<lambda>x. (x, x, x));
     p1 = SetImuInitFrameNum (rc_imu_frames c) (SetAccBiasCov (three (1 / 10000)) (SetGyrBiasCov (three (1 / 10000))
       (SetInvExpoCov (rc_inv_expo_cov c) (SetAccCovScale (three (rc_acc_cov c)) (SetGyrCovScale (three (rc_gyr_cov c)) (SetExtrinsic t R p))))));
     p2 = (if rc_gravity_est c then p1 else DisableGravityEst p1); p3 = (if rc_bias_est c then p2 else DisableBiasEst p2) in
     if rc_exposure_en c then p3 else DisableExposureEst p3)"

definition slam_mode_of :: "run_config \<Rightarrow> slam_mode" where
  "slam_mode_of c = (if rc_img_en c \<and> rc_lidar_en c then LIVO else ONLY_LIO)"

section \<open>What is accepted\<close>

definition typed :: "params \<Rightarrow> (string \<times> param_value) list \<Rightarrow> bool" where
  "typed given ps = (\<forall>(n, d) \<in> set ps. case given n of None \<Rightarrow> True | Some v \<Rightarrow> same_type v d)"

definition chosen :: "params \<Rightarrow> string \<Rightarrow> param_value \<Rightarrow> param_value" where
  "chosen given n d = (case given n of None \<Rightarrow> d | Some v \<Rightarrow> v)"

lemma same_type_refl [simp]: "same_type v v"
  by (cases v) simp_all

lemma declare_all:
  assumes "distinct (map fst ps)" "\<forall>n \<in> fst ` set ps. P0 n = None"
  shows "foldR (declare_parameter given) ps P0 = (if typed given ps then Inr (P0 ++ map_of (map (\<lambda>(n, d). (n, chosen given n d)) ps)) else Inl RuntimeError)"
  using assms
proof (induction ps arbitrary: P0)
  case Nil then show ?case by (simp add: typed_def)
next
  case (Cons nd ps)
  obtain n d where nd: "nd = (n, d)" by (cases nd)
  have P0: "P0 n = None" using Cons.prems by (simp add: nd)
  show ?case
  proof (cases "case given n of None \<Rightarrow> True | Some v \<Rightarrow> same_type v d")
    case False
    then show ?thesis by (auto simp: nd declare_parameter_def P0 typed_def split: option.splits)
  next
    case True
    then have d: "declare_parameter given nd P0 = Inr (P0(n \<mapsto> chosen given n d))"
      by (auto simp: nd declare_parameter_def P0 chosen_def split: option.splits)
    let ?m = "map_of (map (\<lambda>(n, d). (n, chosen given n d)) ps)"
    have fresh: "\<forall>m \<in> fst ` set ps. (P0(n \<mapsto> chosen given n d)) m = None" "distinct (map fst ps)" using Cons.prems by (auto simp: nd)
    have "n \<notin> dom ?m" using Cons.prems(1) unfolding nd dom_map_of_conv_image_fst by (force simp: image_iff)
    then have e: "P0(n \<mapsto> chosen given n d) ++ ?m = P0 ++ ?m(n \<mapsto> chosen given n d)"
      unfolding map_add_upd by (rule map_add_upd_left)
    have t: "typed given (nd # ps) = typed given ps" using True by (simp add: nd typed_def)
    have "foldR (declare_parameter given) (nd # ps) P0 = foldR (declare_parameter given) ps (P0(n \<mapsto> chosen given n d))"
      unfolding foldR.simps d bindR_simps ..
    also have "\<dots> = (if typed given ps then Inr (P0 ++ ?m(n \<mapsto> chosen given n d)) else Inl RuntimeError)"
      unfolding Cons.IH[OF fresh(2,1)] e ..
    finally show ?thesis unfolding t by (simp only: nd list.map prod.case map_of.simps fst_conv snd_conv)
  qed
qed

lemma chosen_type: "typed given ps \<Longrightarrow> (n, d) \<in> set ps \<Longrightarrow> same_type (chosen given n d) d"
  by (auto simp: typed_def chosen_def split: option.splits)

lemma lookup_declared:
  assumes "distinct (map fst ps)" "(n, d) \<in> set ps"
  shows "(P0 ++ map_of (map (\<lambda>(n, d). (n, chosen given n d)) ps)) n = Some (chosen given n d)"
proof -
  have "map_of (map (\<lambda>(n, d). (n, chosen given n d)) ps) n = Some (chosen given n d)"
    using assms by (intro map_of_is_SomeI) (force simp: image_iff comp_def case_prod_unfold)+
  then show ?thesis by simp
qed

lemma distinct_params: "distinct (map fst mapper_params)" "distinct (map fst voxel_params)"
  "\<forall>n \<in> fst ` set voxel_params. n \<notin> fst ` set mapper_params"
  by code_simp+

definition configure :: "params \<Rightarrow> preprocess \<Rightarrow> (run_config \<times> preprocess \<times> lio_config) res" where
  "configure given s = bindR (ReadParameters given s Map.empty) (\<lambda>(c, s', P). bindR (loadVoxelConfig given P) (\<lambda>(v, _). Inr (c, s', v)))"

text \<open>The values of parameters that have the type they are read with.\<close>

fun bool_of where "bool_of (PBool b) = b" | "bool_of _ = False"
fun int_of where "int_of (PInt i) = i" | "int_of _ = 0"
fun double_of where "double_of (PDouble r) = r" | "double_of _ = 0"
fun string_of where "string_of (PString s) = s" | "string_of _ = []"
fun ints_of where "ints_of (PInts is) = is" | "ints_of _ = []"
fun doubles_of where "doubles_of (PDoubles rs) = rs" | "doubles_of _ = []"

lemma reads_typed:
  "same_type v (PBool b) \<Longrightarrow> as_bool (Some v) = Inr (bool_of v)" "same_type v (PInt i) \<Longrightarrow> as_int (Some v) = Inr (int_of v)"
  "same_type v (PDouble r) \<Longrightarrow> as_double (Some v) = Inr (double_of v)" "same_type v (PString st) \<Longrightarrow> as_string (Some v) = Inr (string_of v)"
  "same_type v (PInts is) \<Longrightarrow> as_integer_array (Some v) = Inr (ints_of v)" "same_type v (PDoubles rs) \<Longrightarrow> as_double_array (Some v) = Inr (doubles_of v)"
  by (cases v; simp)+

lemma reads_declared:
  assumes "typed given ps" "distinct (map fst ps)" "\<And>n. n \<in> fst ` set ps \<Longrightarrow> P n = (P0 ++ map_of (map (\<lambda>(n, d). (n, chosen given n d)) ps)) n"
  shows "(n, PBool b) \<in> set ps \<Longrightarrow> as_bool (P n) = Inr (bool_of (chosen given n (PBool b)))"
    "(n, PInt i) \<in> set ps \<Longrightarrow> as_int (P n) = Inr (int_of (chosen given n (PInt i)))"
    "(n, PDouble r) \<in> set ps \<Longrightarrow> as_double (P n) = Inr (double_of (chosen given n (PDouble r)))"
    "(n, PString st) \<in> set ps \<Longrightarrow> as_string (P n) = Inr (string_of (chosen given n (PString st)))"
    "(n, PInts is) \<in> set ps \<Longrightarrow> as_integer_array (P n) = Inr (ints_of (chosen given n (PInts is)))"
    "(n, PDoubles rs) \<in> set ps \<Longrightarrow> as_double_array (P n) = Inr (doubles_of (chosen given n (PDoubles rs)))"
proof -
  have l: "P n = Some (chosen given n d)" "same_type (chosen given n d) d" if "(n, d) \<in> set ps" for d
  proof -
    have "n \<in> fst ` set ps" using that by force
    then show "P n = Some (chosen given n d)" using assms(3) lookup_declared[OF assms(2) that] by simp
    show "same_type (chosen given n d) d" by (rule chosen_type[OF assms(1) that])
  qed
  show "(n, PBool b) \<in> set ps \<Longrightarrow> as_bool (P n) = Inr (bool_of (chosen given n (PBool b)))"
    "(n, PInt i) \<in> set ps \<Longrightarrow> as_int (P n) = Inr (int_of (chosen given n (PInt i)))"
    "(n, PDouble r) \<in> set ps \<Longrightarrow> as_double (P n) = Inr (double_of (chosen given n (PDouble r)))"
    "(n, PString st) \<in> set ps \<Longrightarrow> as_string (P n) = Inr (string_of (chosen given n (PString st)))"
    "(n, PInts is) \<in> set ps \<Longrightarrow> as_integer_array (P n) = Inr (ints_of (chosen given n (PInts is)))"
    "(n, PDoubles rs) \<in> set ps \<Longrightarrow> as_double_array (P n) = Inr (doubles_of (chosen given n (PDoubles rs)))"
    by (simp_all only: l(1) reads_typed[OF l(2)])
qed

lemma mapper_reads:
  assumes "typed given mapper_params" and P: "P = map_of (map (\<lambda>(n, d). (n, chosen given n d)) mapper_params)"
  shows "\<exists>c. read_vio P = Inr c" "\<exists>c. read_run P vio = Inr c" "\<exists>s'. read_pre P s = Inr s'"
proof -
  note r = reads_declared[OF assms(1) distinct_params(1), of P Map.empty, unfolded empty_map_add, OF fun_cong[OF P]]
  note r = r(1)[where b = True, unfolded mapper_params_def, simplified] r(1)[where b = False, unfolded mapper_params_def, simplified]
    r(3)[where r = "1 / 100", unfolded mapper_params_def, simplified] r(3)[where r = "1 / 2", unfolded mapper_params_def, simplified]
    r(3)[where r = "2 / 10", unfolded mapper_params_def, simplified] r(2-6)[unfolded mapper_params_def, simplified]
  show "\<exists>c. read_vio P = Inr c" by (simp add: read_vio_def r)
  show "\<exists>c. read_run P vio = Inr c" by (simp add: read_run_def r)
  show "\<exists>s'. read_pre P s = Inr s'" by (simp add: read_pre_def r)
qed

lemma voxel_reads:
  assumes "typed given voxel_params" and P: "P = P0 ++ map_of (map (\<lambda>(n, d). (n, chosen given n d)) voxel_params)"
    and l: "foldR (declare_parameter given) voxel_params P0 = Inr P"
  shows "\<exists>v. loadVoxelConfig given P0 = Inr (v, P)"
proof -
  note r = reads_declared[OF assms(1) distinct_params(2), of P P0, OF fun_cong[OF P]]
  note r = r(1)[where b = True, unfolded voxel_params_def, simplified] r(1)[where b = False, unfolded voxel_params_def, simplified]
    r(3)[where r = "1 / 100", unfolded voxel_params_def, simplified] r(3)[where r = "1 / 2", unfolded voxel_params_def, simplified]
    r(3)[where r = "2 / 100", unfolded voxel_params_def, simplified] r(3)[where r = "5 / 100", unfolded voxel_params_def, simplified]
    r(2-6)[unfolded voxel_params_def, simplified]
  show ?thesis by (simp add: loadVoxelConfig_def l r)
qed

lemma configure_typed:
  "if typed given (mapper_params @ voxel_params) then \<exists>r. configure given s = Inr r else configure given s = Inl RuntimeError"
proof -
  have m: "foldR (declare_parameter given) mapper_params Map.empty = (if typed given mapper_params
      then Inr (map_of (map (\<lambda>(n, d). (n, chosen given n d)) mapper_params)) else Inl RuntimeError)"
    using declare_all[OF distinct_params(1), of Map.empty given] by simp
  show ?thesis
  proof (cases "typed given mapper_params")
    case False
    then show ?thesis by (auto simp: configure_def ReadParameters_def m typed_def)
  next
    case True
    define P where "P = map_of (map (\<lambda>(n, d). (n, chosen given n d)) mapper_params)"
    obtain vio c s' where "read_vio P = Inr vio" "read_run P vio = Inr c" "read_pre P s = Inr s'"
      using mapper_reads[OF True P_def] by metis
    then have R: "ReadParameters given s Map.empty = Inr (c, s', P)" by (simp add: ReadParameters_def m True P_def[symmetric])
    have fresh: "\<forall>n \<in> fst ` set voxel_params. P n = None"
      using distinct_params(3) by (force simp: P_def map_of_eq_None_iff image_iff)
    have d: "foldR (declare_parameter given) voxel_params P = (if typed given voxel_params
        then Inr (P ++ map_of (map (\<lambda>(n, d). (n, chosen given n d)) voxel_params)) else Inl RuntimeError)"
      by (rule declare_all[OF distinct_params(2) fresh])
    have t: "typed given (mapper_params @ voxel_params) = typed given voxel_params" using True by (auto simp: typed_def)
    show ?thesis
    proof (cases "typed given voxel_params")
      case False
      then have "loadVoxelConfig given P = Inl RuntimeError" by (simp add: loadVoxelConfig_def d)
      then show ?thesis using False by (simp add: t configure_def R)
    next
      case v: True
      then obtain v' Q where "loadVoxelConfig given P = Inr (v', Q)" using voxel_reads[OF v refl, of P] v by (auto simp: d)
      then show ?thesis using v by (simp add: t configure_def R)
    qed
  qed
qed

text \<open>
  parameters_typed: the node starts with the values given to it exactly if each value for
  a parameter it knows has the type of the default, integers not passing for
  numbers; otherwise the constructor throws.  Other values are ignored.
\<close>

theorem parameters_typed:
  "if typed given (mapper_params @ voxel_params) then \<exists>r. configure given s = Inr r else configure given s = Inl RuntimeError"
  by (rule configure_typed)

text \<open>The file the vehicle starts the mapper with (config/mid360.yaml).\<close>

definition mid360 :: params where
  "mid360 = map_of [(''common.img_en'', PInt 0), (''common.lidar_en'', PInt 1), (''common.ros_driver_bug_fix'', PBool True),
     (''extrin_calib.extrinsic_T'', PDoubles [- 11 / 1000, - 2329 / 100000, 4412 / 100000]),
     (''extrin_calib.extrinsic_R'', PDoubles [1, 0, 0, 0, 1, 0, 0, 0, 1]),
     (''time_offset.imu_time_offset'', PDouble 0), (''time_offset.img_time_offset'', PDouble (1 / 10)), (''time_offset.exposure_time_init'', PDouble 0),
     (''preprocess.point_filter_num'', PInt 1), (''preprocess.filter_size_surf'', PDouble (1 / 10)), (''preprocess.lidar_type'', PInt 1),
     (''preprocess.scan_line'', PInt 4), (''preprocess.blind'', PDouble (1 / 2)), (''imu.imu_int_frame'', PInt 30),
     (''imu.acc_cov'', PDouble (1 / 2)), (''imu.gyr_cov'', PDouble (5 / 100)), (''lio.max_iterations'', PInt 8), (''lio.dept_err'', PDouble (2 / 100)),
     (''lio.beam_err'', PDouble (15 / 100)), (''lio.min_eigen_value'', PDouble (5 / 1000)), (''lio.voxel_size'', PDouble (1 / 2)),
     (''lio.max_layer'', PInt 3), (''lio.max_points_num'', PInt 64), (''lio.layer_init_num'', PInts [5, 5, 5, 5, 5]),
     (''local_map.map_sliding_en'', PBool True), (''local_map.half_map_size'', PInt 100), (''local_map.sliding_thresh'', PDouble 8),
     (''uav.imu_rate_odom'', PBool True), (''uav.gravity_align_en'', PBool True), (''uav.sensor_pitch_deg'', PDouble (- 23 / 10)),
     (''uav.publish_map_odom_tf'', PBool False), (''publish.dense_map_en'', PBool True), (''publish.pub_effect_point_en'', PBool False),
     (''publish.pub_plane_en'', PBool False), (''publish.pub_scan_num'', PInt 1), (''publish.blind_rgb_points'', PDouble 0),
     (''pcd_save.pcd_save_en'', PBool False), (''pcd_save.filter_size_pcd'', PDouble (2 / 10)), (''pcd_save.interval'', PInt (- 1)),
     (''debug.print_timing'', PBool False), (''debug.print_lio_stats'', PBool False)]"

lemma mid360_typed: "typed mid360 mapper_params" "typed mid360 voxel_params"
  by code_simp+

lemma configure_mid360:
  "\<exists>c s' v t R. configure mid360 s = Inr (c, s', v) \<and> slam_mode_of c = ONLY_LIO \<and> rc_imu_prop c \<and> rc_gravity_align c
    \<and> lidar_model s' = AVIA \<and> blind_sqr s' = blind s' * blind s' \<and> cfg_ok (voxels v) 64
    \<and> vec_from_array (rc_extrin_T c) = Inr t \<and> mat_from_array (rc_extrin_R c) = Inr R \<and> rotation R"
proof -
  define P where "P = map_of (map (\<lambda>(n, d). (n, chosen mid360 n d)) mapper_params)"
  define Q where "Q = P ++ map_of (map (\<lambda>(n, d). (n, chosen mid360 n d)) voxel_params)"
  have m: "foldR (declare_parameter mid360) mapper_params Map.empty = Inr P"
    using declare_all[OF distinct_params(1), of Map.empty mid360] mid360_typed(1) by (simp add: P_def)
  have "\<forall>n \<in> fst ` set voxel_params. P n = None" using distinct_params(3) by (force simp: P_def map_of_eq_None_iff image_iff)
  then have q: "foldR (declare_parameter mid360) voxel_params P = Inr Q"
    using declare_all[OF distinct_params(2), of P mid360] mid360_typed(2) by (simp add: Q_def)
  have P: "P n = Some (chosen mid360 n d)" if "(n, d) \<in> set mapper_params" for n d
    using lookup_declared[OF distinct_params(1) that, of Map.empty mid360] by (simp add: P_def)
  have Q: "Q n = Some (chosen mid360 n d)" if "(n, d) \<in> set voxel_params" for n d
    using lookup_declared[OF distinct_params(2) that, of P mid360] by (simp add: Q_def)
  have f: "P ''common.img_en'' = Some (PInt 0)" "P ''uav.imu_rate_odom'' = Some (PBool True)" "P ''uav.gravity_align_en'' = Some (PBool True)"
    "P ''extrin_calib.extrinsic_T'' = Some (PDoubles [- 11 / 1000, - 2329 / 100000, 4412 / 100000])"
    "P ''extrin_calib.extrinsic_R'' = Some (PDoubles [1, 0, 0, 0, 1, 0, 0, 0, 1])" "P ''preprocess.lidar_type'' = Some (PInt 1)"
    using P[of "''common.img_en''" "PInt 1"] P[of "''uav.imu_rate_odom''" "PBool False"] P[of "''uav.gravity_align_en''" "PBool False"]
      P[of "''extrin_calib.extrinsic_T''" "PDoubles []"] P[of "''extrin_calib.extrinsic_R''" "PDoubles []"] P[of "''preprocess.lidar_type''" "PInt 1"]
    by (simp_all add: mapper_params_def chosen_def mid360_def)
  have g: "Q ''lio.max_layer'' = Some (PInt 3)" "Q ''lio.layer_init_num'' = Some (PInts [5, 5, 5, 5, 5])" "Q ''lio.max_points_num'' = Some (PInt 64)"
    using Q[of "''lio.max_layer''" "PInt 1"] Q[of "''lio.layer_init_num''" "PInts [5, 5, 5, 5, 5]"] Q[of "''lio.max_points_num''" "PInt 50"]
    by (simp_all add: voxel_params_def chosen_def mid360_def)
  obtain vio c s' where vio: "read_vio P = Inr vio" and c: "read_run P vio = Inr c" and s': "read_pre P s = Inr s'"
    using mapper_reads[OF mid360_typed(1) P_def] by metis
  obtain v where v: "loadVoxelConfig mid360 P = Inr (v, Q)" using voxel_reads[OF mid360_typed(2) Q_def q] by blast
  have "slam_mode_of c = ONLY_LIO" "rc_imu_prop c" "rc_gravity_align c" "rc_extrin_T c = [- 11 / 1000, - 2329 / 100000, 4412 / 100000]"
    "rc_extrin_R c = [1, 0, 0, 0, 1, 0, 0, 0, 1]"
    using c unfolding read_run_def by (auto simp: bindR_eq_Inr f slam_mode_of_def int32_def)
  moreover have "lidar_model s' = AVIA" "blind_sqr s' = blind s' * blind s'"
    using s' unfolding read_pre_def by (auto simp: bindR_eq_Inr f lidar_of_int_def int32_def)
  moreover have "cfg_ok (voxels v) 64"
    using v unfolding loadVoxelConfig_def q bindR_simps by (auto simp: bindR_eq_Inr g int32_def cfg_ok_def usize_def)
  moreover have "configure mid360 s = Inr (c, s', v)" by (simp add: configure_def ReadParameters_def m vio c s' v)
  moreover have "rotation ((1, 0, 0), (0, 1, 0), (0, 0, 1))" using rotation_id by (simp add: m3_id_def)
  ultimately show ?thesis
    by (intro exI[of _ c] exI[of _ s'] exI[of _ v] exI[of _ "(- 11 / 1000, - 2329 / 100000, 4412 / 100000)"] exI[of _ "((1, 0, 0), (0, 1, 0), (0, 0, 1))"]) simp
qed

text \<open>
  deployed_config: with the vehicle's own file the mapper starts, in the mode without
  images, with inertial odometry and alignment on, readable extrinsics that are a
  rotation, and a voxel configuration the octrees are safe with.
\<close>

theorem deployed_config:
  "\<exists>c s' v t R. configure mid360 s = Inr (c, s', v) \<and> slam_mode_of c = ONLY_LIO \<and> rc_imu_prop c \<and> rc_gravity_align c
    \<and> lidar_model s' = AVIA \<and> blind_sqr s' = blind s' * blind s' \<and> cfg_ok (voxels v) 64
    \<and> vec_from_array (rc_extrin_T c) = Inr t \<and> mat_from_array (rc_extrin_R c) = Inr R \<and> rotation R"
  by (rule configure_mid360)

text \<open>
  unset_extrinsics: the extrinsics have no default: without a value for them the node
  starts and then reads past the end of an empty array.
\<close>

theorem unset_extrinsics:
  assumes "configure given s = Inr (c, s', v)" "given ''extrin_calib.extrinsic_T'' = None"
  shows "vec_from_array (rc_extrin_T c) = Inl OutOfBounds"
proof -
  obtain P where P: "foldR (declare_parameter given) mapper_params Map.empty = Inr P" "ReadParameters given s Map.empty = Inr (c, s', P)"
    using assms(1) unfolding configure_def ReadParameters_def by (auto simp: bindR_eq_Inr)
  then obtain vio where c: "read_run P vio = Inr c" unfolding ReadParameters_def by (auto simp: bindR_eq_Inr)
  have t: "typed given mapper_params" and P': "P = map_of (map (\<lambda>(n, d). (n, chosen given n d)) mapper_params)"
    using P(1) declare_all[OF distinct_params(1), of Map.empty given] by (auto split: if_splits)
  have "P ''extrin_calib.extrinsic_T'' = Some (chosen given ''extrin_calib.extrinsic_T'' (PDoubles []))"
    unfolding P' using lookup_declared[OF distinct_params(1), of "''extrin_calib.extrinsic_T''" "PDoubles []" Map.empty given]
    by (simp add: mapper_params_def)
  then have "P ''extrin_calib.extrinsic_T'' = Some (PDoubles [])" using assms(2) by (simp add: chosen_def)
  then have "rc_extrin_T c = []" using c unfolding read_run_def by (auto simp: bindR_eq_Inr)
  then show ?thesis by simp
qed

lemma unset_extrinsics_witness: "\<exists>r. configure Map.empty (Preprocess (\<lambda>x. x) 3 1 0) = Inr r \<and> vec_from_array (rc_extrin_T (fst r)) = Inl OutOfBounds"
proof -
  have "typed Map.empty (mapper_params @ voxel_params)" by (simp add: typed_def case_prod_unfold)
  then obtain r where "configure Map.empty (Preprocess (\<lambda>x. x) 3 1 0) = Inr r" using configure_typed[of Map.empty "Preprocess (\<lambda>x. x) 3 1 0"] by auto
  moreover obtain c s' v where "r = (c, s', v)" by (cases r)
  ultimately show ?thesis using unset_extrinsics[of Map.empty] by (metis fst_conv)
qed

end
