(* ===== verification/Mapper_Run.thy ===== *)
theory Mapper_Run
  imports Mapper_Config
begin

text \<open>
  The mapper around its parts (edge/src/FAST-LIVO2/src/LIVMapper.cpp): the loop of
  Run with the processing of a group, the alignment with gravity, the mapping from a
  scan, the odometry at the rate of the inertial sensor, and what is published and
  saved.  The step of the visual part and the colours it sees are arguments; counters
  of frames are unbounded.
\<close>

section \<open>The state\<close>

type_synonym quat = "rat \<times> rat \<times> rat \<times> rat"

text \<open>The product of quaternions, scalar first.\<close>

fun quat_mul :: "quat \<Rightarrow> quat \<Rightarrow> quat" where
  "quat_mul (w, x, y, z) (w', x', y', z') = (w * w' - x * x' - y * y' - z * z', w * x' + x * w' + y * z' - z * y',
     w * y' - x * z' + y * w' + z * x', w * z' + x * y' - y * x' + z * w')"

type_synonym coloured = "vec \<times> (rat \<times> rat \<times> rat)"

datatype sent = Cloud nat "pcl_point list" | ColourCloud nat "coloured list" | EffectCloud "vec list" | ImageOut
  | MappedOdometry vec quat | ImuOdometry nat vec quat vec | Transforms nat "(string \<times> string \<times> vec \<times> quat) list" | Clock nat
  | PathOut "(vec \<times> quat) list" | PcdFile int "pcl_point list" | ColourFile int "coloured list"
  | FinalRaw "pcl_point list" | FinalColour "coloured list" "coloured list"

text \<open>
  Libraries: the grid filter of PCL, Eigen's rotation from one vector to another and
  quaternion of a matrix, the quaternion of roll, pitch and yaw, and the order of a
  hash table; then the visual part, which changes the state through a pointer.
\<close>

record 'i run_env =
  re_lio :: lio_env
  re_order :: "voxel_map \<Rightarrow> loc list"
  re_downsample :: "rat \<Rightarrow> pcl_point list \<Rightarrow> pcl_point list"
  re_downsample_rgb :: "rat \<Rightarrow> coloured list \<Rightarrow> coloured list"
  re_from_two :: "vec \<Rightarrow> vec \<Rightarrow> mat3"
  re_quat :: "mat3 \<Rightarrow> quat"
  re_rpy :: "vec \<Rightarrow> quat"
  re_visual :: "'i option \<Rightarrow> point_with_var list \<Rightarrow> voxel_map \<Rightarrow> states_group \<Rightarrow> states_group \<Rightarrow> states_group res"
  re_paint :: "vec \<Rightarrow> (rat \<times> rat \<times> rat \<times> rat) option"

text \<open>The members of LIVMapper, with the static variables of its methods and what it has put out.\<close>

record 'i system =
  sy_cfg :: run_config
  sy_lio_cfg :: lio_config
  sy_q_body :: quat
  sy_mapper :: "'i mapper"
  sy_imu :: imu_process
  sy_lio :: lio
  sy_ext_t :: vec
  sy_ext_r :: mat3
  sy_state :: states_group
  sy_propagat :: states_group
  sy_undistort :: "pcl_point list"
  sy_down :: "pcl_point list"
  sy_map_inited :: bool
  sy_aligned :: bool
  sy_pv_list :: "point_with_var list"
  sy_wait_world :: "pcl_point list"
  sy_wait_rgb :: "pcl_point list"
  sy_wait_save :: "pcl_point list"
  sy_wait_save_rgb :: "coloured list"
  sy_scan_wait :: int
  sy_pcd_index :: int
  sy_pub_num :: int
  sy_imu_prop :: states_group
  sy_ekf_state :: states_group
  sy_ekf_time :: rat
  sy_ekf_update :: bool
  sy_ekf_once :: bool
  sy_last_t :: rat
  sy_odom_stamp :: nat
  sy_geo_quat :: quat
  sy_path :: "(vec \<times> quat) list"
  sy_frames :: nat
  sy_out :: "sent list"

definition put :: "sent list \<Rightarrow> 'i system \<Rightarrow> 'i system" where
  "put os y = y\<lparr>sy_out := sy_out y @ os\<rparr>"

section \<open>Processing of a group\<close>

text \<open>FromTwoVectors turns the gravity to point straight down.\<close>

definition GravityAlignment :: "'i run_env \<Rightarrow> 'i system \<Rightarrow> 'i system" where
  "GravityAlignment E y = (if \<not> need_init (sy_imu y) \<and> \<not> sy_aligned y
     then let s = sy_state y; G = re_from_two E (gravity s) (0, 0, - 1) in
       y\<lparr>sy_state := s\<lparr>pos_end := m3_vec G (pos_end s), rot_end := m3_mul G (rot_end s), vel_end := m3_vec G (vel_end s),
           gravity := m3_vec G (gravity s)\<rparr>, sy_aligned := True\<rparr>
     else y)"

definition ProcessImu :: "'i run_env \<Rightarrow> 'i system \<Rightarrow> 'i system res" where
  "ProcessImu E y = bindR (ImuProcess_Process (en_libm (re_lio E)) (meas (sy_mapper y)) (sy_state y) (sy_undistort y) (sy_imu y)) (\<lambda>(pts, lm, s, p).
     let y1 = y\<lparr>sy_undistort := pts, sy_mapper := (sy_mapper y)\<lparr>meas := lm, imu_need_init := need_init p\<rparr>, sy_state := s, sy_imu := p\<rparr>;
         y2 = (if rc_gravity_align (sy_cfg y) then GravityAlignment E y1 else y1) in
     Inr (y2\<lparr>sy_propagat := sy_state y2, sy_lio := (sy_lio y2)\<lparr>lio_state := sy_state y2\<rparr>\<rparr>))"

text \<open>The state a filter has arrived at, left for the odometry at the rate of the samples.\<close>

definition hand_state :: "'i system \<Rightarrow> 'i system" where
  "hand_state y = (if rc_imu_prop (sy_cfg y)
     then y\<lparr>sy_ekf_once := True, sy_ekf_state := sy_state y, sy_ekf_time := last_lio_update_time (meas (sy_mapper y)), sy_ekf_update := True\<rparr> else y)"

section \<open>Publishing\<close>

definition body_to_world :: "'i system \<Rightarrow> vec \<Rightarrow> vec" where
  "body_to_world y p = vadd (m3_vec (rot_end (sy_state y)) (vadd (m3_vec (sy_ext_r y) p) (sy_ext_t y))) (pos_end (sy_state y))"

definition world_cloud :: "'i system \<Rightarrow> pcl_point list \<Rightarrow> pcl_point list" where
  "world_cloud y = map (\<lambda>q. with_pos (body_to_world y (pos q)) (blank_point\<lparr>p_intensity := p_intensity q\<rparr>))"

definition PublishOdometry :: "'i run_env \<Rightarrow> 'i system \<Rightarrow> 'i system" where
  "PublishOdometry E y = (let q = re_rpy E (RotMtoEuler (en_libm (re_lio E)) (rot_end (sy_state y))) in
     put [MappedOdometry (pos_end (sy_state y)) q] (y\<lparr>sy_geo_quat := q\<rparr>))"

text \<open>The path keeps its last three thousand poses.\<close>

definition PublishPath :: "'i system \<Rightarrow> 'i system" where
  "PublishPath y = (let ps = sy_path y @ [(pos_end (sy_state y), sy_geo_quat y)]; ps' = drop (length ps - 3000) ps in
     put [PathOut ps'] (y\<lparr>sy_path := ps'\<rparr>))"

definition PublishEffectWorld :: "'i system \<Rightarrow> 'i system" where
  "PublishEffectWorld y = put [EffectCloud (map pp_point_w (ptpl_list (sy_lio y)))] y"

text \<open>The points in view of the camera and not too close, with their colours.\<close>

definition painted :: "'i run_env \<Rightarrow> rat \<Rightarrow> pcl_point list \<Rightarrow> coloured list" where
  "painted E blind_rgb ps = concat (map (\<lambda>q. case re_paint E (pos q) of None \<Rightarrow> []
     | Some (far, rgb) \<Rightarrow> if blind_rgb < far then [(pos q, rgb)] else []) ps)"

text \<open>The saving of a frame; a file is written every rc_pcd_interval frames.\<close>

definition save_frame :: "coloured list \<Rightarrow> 'i system \<Rightarrow> 'i system" where
  "save_frame rgb y = (if \<not> rc_pcd_save (sy_cfg y) then y
     else let img = rc_img_en (sy_cfg y);
       y1 = (if img then y\<lparr>sy_wait_save_rgb := sy_wait_save_rgb y @ rgb\<rparr> else y\<lparr>sy_wait_save := sy_wait_save y @ sy_wait_world y\<rparr>);
       y2 = y1\<lparr>sy_scan_wait := sy_scan_wait y1 + 1\<rparr> in
     if (sy_wait_save_rgb y2 \<noteq> [] \<or> sy_wait_save y2 \<noteq> []) \<and> 0 < rc_pcd_interval (sy_cfg y) \<and> rc_pcd_interval (sy_cfg y) \<le> sy_scan_wait y2
     then let k = sy_pcd_index y2 + 1; y3 = y2\<lparr>sy_pcd_index := k, sy_scan_wait := 0\<rparr> in
       if img then put [ColourFile k (sy_wait_save_rgb y3)] (y3\<lparr>sy_wait_save_rgb := []\<rparr>)
       else put [PcdFile k (sy_wait_save y3)] (y3\<lparr>sy_wait_save := []\<rparr>)
     else y2)"

definition PublishFrameWorld :: "'i run_env \<Rightarrow> 'i system \<Rightarrow> 'i system" where
  "PublishFrameWorld E y = (if sy_wait_world y = [] then y
     else let img = rc_img_en (sy_cfg y); now = (sy_pub_num y = rc_pub_scan_num (sy_cfg y));
       y1 = (if img then y\<lparr>sy_wait_rgb := sy_wait_rgb y @ sy_wait_world y, sy_pub_num := (if now then 1 else sy_pub_num y + 1)\<rparr> else y);
       rgb = (if img \<and> now then painted E (rc_blind_rgb (sy_cfg y)) (sy_wait_rgb y1) else []);
       y2 = put [if img then ColourCloud (sy_odom_stamp y) rgb else Cloud (sy_odom_stamp y) (sy_wait_world y)] y1;
       y3 = save_frame rgb y2;
       y4 = (if rgb \<noteq> [] then y3\<lparr>sy_wait_rgb := []\<rparr> else y3) in
     y4\<lparr>sy_wait_world := []\<rparr>)"

text \<open>At the end, when no interval was set, everything is written to one file.\<close>

definition SavePCD :: "'i run_env \<Rightarrow> 'i system \<Rightarrow> 'i system" where
  "SavePCD E y = (if rc_pcd_save (sy_cfg y) \<and> (sy_wait_save_rgb y \<noteq> [] \<or> sy_wait_save y \<noteq> []) \<and> rc_pcd_interval (sy_cfg y) < 0
     then if rc_img_en (sy_cfg y)
       then put [FinalColour (sy_wait_save_rgb y) (re_downsample_rgb E (rc_leaf_pcd (sy_cfg y)) (sy_wait_save_rgb y))] y
       else put [FinalRaw (re_downsample E (rc_leaf_pcd (sy_cfg y)) (sy_wait_save y))] y
     else y)"

section \<open>Mapping from a scan\<close>

text \<open>The points as they are put into the map, with the covariance for the corrected state.\<close>

definition map_point :: "'i system \<Rightarrow> point_with_var \<times> pcl_point \<times> mat3 \<times> mat \<Rightarrow> point_with_var" where
  "map_point y x = (case x of (pv, w, X, var) \<Rightarrow> let s = sy_state y; C = m3_rows (m3_scale (- 1) X) in
     pv\<lparr>point_w := pos w, pv_var := mat_add (mat_add (sandwich (m3_rows (m3_mul (rot_end s) (sy_ext_r y))) var)
       (sandwich C (block33 0 (cov s)))) (block33 3 (cov s))\<rparr>)"

definition map_points :: "'i system \<Rightarrow> point_with_var list \<Rightarrow> point_with_var list" where
  "map_points y pvs = map (map_point y) (zip pvs (zip (world_cloud y (sy_down y)) (zip (cross_mat_list (sy_lio y)) (body_cov_list (sy_lio y)))))"

text \<open>Downsampling, and the map of the first scan.\<close>

definition first_map :: "'i run_env \<Rightarrow> 'i system \<Rightarrow> 'i system res" where
  "first_map E y = (let d = re_downsample E (rc_leaf_surf (sy_cfg y)) (sy_undistort y);
       y1 = y\<lparr>sy_down := d, sy_lio := (sy_lio y)\<lparr>feats_down_body := d, feats_down_size := length d\<rparr>\<rparr> in
     if sy_map_inited y then Inr y1
     else bindR (BuildVoxelMapLRU (re_lio E) (sy_lio_cfg y) (re_order E) (world_cloud y1 d) (sy_lio y1)) (\<lambda>l.
       Inr (y1\<lparr>sy_map_inited := True, sy_lio := l\<rparr>)))"

definition update_map :: "'i run_env \<Rightarrow> 'i system \<Rightarrow> 'i system res" where
  "update_map E y = (let l = sy_lio y; c = sy_lio_cfg y; nm = en_numeric (re_lio E); pvs = map_points y (pv_list l) in
     bindR (UpdateVoxelMapLRU nm (voxels c) pvs (lio_map l)) (\<lambda>m.
     bindR (if map_sliding_en c then MapSliding nm (voxels c) m else Inr m) (\<lambda>m'.
       Inr (y\<lparr>sy_lio := l\<lparr>pv_list := pvs, lio_map := m'\<rparr>, sy_pv_list := pvs\<rparr>))))"

definition HandleLIO :: "'i run_env \<Rightarrow> 'i system \<Rightarrow> 'i system res" where
  "HandleLIO E y = (if sy_undistort y = [] then Inr y
     else bindR (first_map E y) (\<lambda>y1.
       bindR (StateEstimation (re_lio E) (sy_lio_cfg y1) (sy_propagat y1) (sy_lio y1)) (\<lambda>l.
       bindR (update_map E (PublishOdometry E (hand_state (y1\<lparr>sy_lio := l, sy_state := lio_state l\<rparr>)))) (\<lambda>y2.
         let y3 = y2\<lparr>sy_wait_world := world_cloud y2 (if rc_dense_map (sy_cfg y2) then sy_undistort y2 else sy_down y2)\<rparr>;
             y4 = (if rc_img_en (sy_cfg y3) then y3 else PublishFrameWorld E y3);
             y5 = (if rc_pub_effect (sy_cfg y4) then PublishEffectWorld y4 else y4) in
         Inr ((PublishPath y5)\<lparr>sy_frames := sy_frames y5 + 1\<rparr>)))))"

definition HandleVIO :: "'i run_env \<Rightarrow> 'i system \<Rightarrow> 'i system res" where
  "HandleVIO E y = (if sy_wait_world y = [] then Inr y
     else if measures (meas (sy_mapper y)) = [] then Inl OutOfBounds
     else bindR (re_visual E (mg_img (last (measures (meas (sy_mapper y))))) (sy_pv_list y) (lio_map (sy_lio y)) (sy_propagat y) (sy_state y)) (\<lambda>s.
       Inr (put [ImageOut] (PublishFrameWorld E (hand_state (y\<lparr>sy_state := s\<rparr>))))))"

definition StateEstimationAndMapping :: "'i run_env \<Rightarrow> 'i system \<Rightarrow> 'i system res" where
  "StateEstimationAndMapping E y = bindR (HandleLIO E y) (\<lambda>y1. let y2 = y1\<lparr>sy_propagat := sy_state y1\<rparr> in
     if rc_img_en (sy_cfg y2) then HandleVIO E y2 else Inr y2)"

text \<open>One turn of the loop of Run.\<close>

definition Run_once :: "'i run_env \<Rightarrow> 'i system \<Rightarrow> 'i system res" where
  "Run_once E y = bindR (SyncPackages (sy_mapper y)) (\<lambda>(go, m).
     if \<not> go then Inr (y\<lparr>sy_mapper := m\<rparr>)
     else bindR (ProcessImu E (y\<lparr>sy_mapper := HandleFirstFrame m\<rparr>)) (StateEstimationAndMapping E))"

section \<open>Odometry at the rate of the inertial sensor\<close>

definition PropImuOnce :: "libm \<Rightarrow> imu_process \<Rightarrow> states_group \<Rightarrow> rat \<Rightarrow> vec \<Rightarrow> vec \<Rightarrow> states_group res" where
  "PropImuOnce L p s dt acc_avr angvel_avr = (if imu_mean_acc_norm p = 0 then Inl DivByZero
     else let acc = vsub (vscale (G_m_s2 / imu_mean_acc_norm p) acc_avr) (bias_a s); ang = vsub angvel_avr (bias_g s);
       R = m3_mul (rot_end s) (Exp_dt L ang dt); a = vadd (m3_vec R acc) (gravity s) in
     Inr (s\<lparr>rot_end := R, pos_end := vadd (vadd (pos_end s) (vscale dt (vel_end s))) (vscale (1 / 2 * dt * dt) a),
       vel_end := vadd (vel_end s) (vscale dt a)\<rparr>))"

text \<open>The step to a sample, with the time of the last one since the filter's state.\<close>

definition prop_to :: "libm \<Rightarrow> imu_process \<Rightarrow> rat \<Rightarrow> imu \<Rightarrow> states_group \<times> rat \<Rightarrow> (states_group \<times> rat) res" where
  "prop_to L p ekf i st = (case st of (s, t0) \<Rightarrow> let t = toSec (im_stamp i) - ekf in
     bindR (PropImuOnce L p s (t - t0) (im_acc i) (im_gyr i)) (\<lambda>s'. Inr (s', t)))"

definition newest :: "'i mapper \<Rightarrow> imu" where
  "newest m = (case newest_imu m of None \<Rightarrow> Imu | Some i \<Rightarrow> i)"

definition prop_state :: "'i run_env \<Rightarrow> 'i system \<Rightarrow> 'i system res" where
  "prop_state E y = (let m = sy_mapper y; L = en_libm (re_lio E); p = sy_imu y; ekf = sy_ekf_time y in
     if sy_ekf_update y
     then let buf = dropWhile (\<lambda>i. toSec (im_stamp i) < ekf) (prop_imu_buffer m) in
       bindR (foldR (prop_to L p ekf) buf (sy_ekf_state y, 0)) (\<lambda>(s, t).
         Inr (y\<lparr>sy_imu_prop := s, sy_last_t := t, sy_ekf_update := False, sy_mapper := m\<lparr>prop_imu_buffer := buf\<rparr>\<rparr>))
     else bindR (prop_to L p ekf (newest m) (sy_imu_prop y, sy_last_t y)) (\<lambda>(s, t). Inr (y\<lparr>sy_imu_prop := s, sy_last_t := t\<rparr>)))"

definition publish_prop :: "'i run_env \<Rightarrow> 'i system \<Rightarrow> 'i system" where
  "publish_prop E y = (let s = sy_imu_prop y; q = quat_mul (re_quat E (rot_end s)) (sy_q_body y); n = im_stamp (newest (sy_mapper y)) in
     put [ImuOdometry n (pos_end s) q (vel_end s),
       Transforms n ((''odom'', ''base_link'', pos_end s, q) #
         (if rc_map_odom_tf (sy_cfg y) then [(''map'', ''odom'', (0, 0, 0), (1, 0, 0, 0))] else [])), Clock n]
       (y\<lparr>sy_odom_stamp := n\<rparr>))"

definition ImuPropCallback :: "'i run_env \<Rightarrow> 'i system \<Rightarrow> 'i system res" where
  "ImuPropCallback E y = (if need_init (sy_imu y) \<or> \<not> new_imu (sy_mapper y) \<or> \<not> sy_ekf_once y then Inr y
     else let y1 = y\<lparr>sy_mapper := (sy_mapper y)\<lparr>new_imu := False\<rparr>\<rparr> in
       if rc_imu_prop (sy_cfg y) \<and> prop_imu_buffer (sy_mapper y) \<noteq> []
       then bindR (prop_state E y1) (\<lambda>y2. Inr (publish_prop E y2)) else Inr y1)"

section \<open>The start\<close>

text \<open>
  The constructor with ReadParameters and InitializeComponents.  What loads the
  camera is an argument, as is pi; the values of members without an initial value
  are arguments as well.
\<close>

definition start_mapper :: "run_config \<Rightarrow> preprocess \<Rightarrow> 'i mapper" where
  "start_mapper c s = (new_mapper (slam_mode_of c) s)\<lparr>lidar_en := rc_lidar_en c, img_en := rc_img_en c, hilti_en := rc_hilti c,
     ros_driver_fix_en := rc_driver_fix c, imu_prop_enable := rc_imu_prop c, exposure_time_init := rc_exposure_time c,
     img_time_offset := rc_img_offset c, imu_time_offset := rc_imu_offset c\<rparr>"

definition start_lio :: "vec \<Rightarrow> vec \<Rightarrow> mat3 \<Rightarrow> lio" where
  "start_lio unset t R = \<lparr>lio_state = StatesGroup, lio_map = \<lparr>vm_data = [], vm_map = Map.empty, next_node = 0, plane_ids = 0, lru_size = 1000000,
       position_last = unset, last_slide_position = (0, 0, 0)\<rparr>, extR = R, extT = t, feats_down_body = [], feats_down_size = 0,
     cross_mat_list = [], body_cov_list = [], pv_list = [], ptpl_list = [], effct_feat_num = 0\<rparr>"

definition q_imu_to_body :: "libm \<Rightarrow> rat \<Rightarrow> run_config \<Rightarrow> quat" where
  "q_imu_to_body L m_pi c = (let a = - rc_pitch_deg c * m_pi / 180 in (l_cos L (1 / 2 * a), 0, l_sin L (1 / 2 * a), 0))"

definition new_system :: "'i run_env \<Rightarrow> rat \<Rightarrow> rat \<times> vec \<Rightarrow> run_config \<Rightarrow> preprocess \<Rightarrow> lio_config \<Rightarrow> vec \<Rightarrow> mat3 \<Rightarrow> imu_process \<Rightarrow> 'i system" where
  "new_system E m_pi unset c s v t R p0 =
     \<lparr>sy_cfg = c, sy_lio_cfg = v, sy_q_body = q_imu_to_body (en_libm (re_lio E)) m_pi c, sy_mapper = start_mapper c s, sy_imu = imu_settings c t R p0,
       sy_lio = start_lio (snd unset) t R, sy_ext_t = t, sy_ext_r = R, sy_state = StatesGroup, sy_propagat = StatesGroup, sy_undistort = [],
       sy_down = [], sy_map_inited = False, sy_aligned = False, sy_pv_list = [], sy_wait_world = [], sy_wait_rgb = [], sy_wait_save = [],
       sy_wait_save_rgb = [], sy_scan_wait = 0, sy_pcd_index = 0, sy_pub_num = 1, sy_imu_prop = StatesGroup, sy_ekf_state = StatesGroup,
       sy_ekf_time = fst unset, sy_ekf_update = False, sy_ekf_once = False, sy_last_t = 0, sy_odom_stamp = 0, sy_geo_quat = (1, 0, 0, 0),
       sy_path = [], sy_frames = 0, sy_out = []\<rparr>"

definition LIVMapper :: "'i run_env \<Rightarrow> (string \<Rightarrow> unit res) \<Rightarrow> rat \<Rightarrow> rat \<times> vec \<Rightarrow> params \<Rightarrow> preprocess \<Rightarrow> imu_process \<Rightarrow> 'i system res" where
  "LIVMapper E load_camera m_pi unset given s0 p0 = bindR (configure given s0) (\<lambda>(c, s, v).
     bindR (vec_from_array (rc_extrin_T c)) (\<lambda>t. bindR (mat_from_array (rc_extrin_R c)) (\<lambda>R.
     bindR (if rc_img_en c then load_camera (rc_camera_config c) else Inr ()) (\<lambda>_. Inr (new_system E m_pi unset c s v t R p0)))))"

text \<open>
  A step of the whole program: a callback of the sensors, the timer, or a turn of
  the loop, each taken as one action.
\<close>

inductive system_step :: "'i run_env \<Rightarrow> scan_env \<Rightarrow> ('msg \<Rightarrow> 'i res) \<Rightarrow> 'i system \<Rightarrow> 'i system \<Rightarrow> bool" for E S conv where
  scan: "PointCloud2Cbk S st qs (sy_mapper y) = Inr m \<Longrightarrow> system_step E S conv y (y\<lparr>sy_mapper := m\<rparr>)"
| livox: "LivoxCbk S st k ps (sy_mapper y) = Inr m \<Longrightarrow> system_step E S conv y (y\<lparr>sy_mapper := m\<rparr>)"
| sample: "ImuCbk i (sy_mapper y) = Inr m \<Longrightarrow> system_step E S conv y (y\<lparr>sy_mapper := m\<rparr>)"
| image: "ImageCbk conv st msg (sy_mapper y) = Inr m \<Longrightarrow> system_step E S conv y (y\<lparr>sy_mapper := m\<rparr>)"
| timer: "ImuPropCallback E y = Inr y' \<Longrightarrow> system_step E S conv y y'"
| turn: "Run_once E y = Inr y' \<Longrightarrow> system_step E S conv y y'"

section \<open>Alignment\<close>

lemma rotation_T_vec: "rotation G \<Longrightarrow> m3_vec (m3_T G) (m3_vec G v) = v"
  by (cases v) (simp add: rotation_def m3_vec_mul[symmetric] m3_id_def)

text \<open>
  Eigen's documentation of FromTwoVectors(a, b): a rotation that sends the line of a to
  the line of b.  Over the rationals it is only asked for where the ratio of the
  two sizes is a rational number.
\<close>

definition from_two_vectors :: "(vec \<Rightarrow> vec \<Rightarrow> mat3) \<Rightarrow> bool" where
  "from_two_vectors F = (\<forall>a b k. a \<noteq> (0, 0, 0) \<and> b \<noteq> (0, 0, 0) \<and> 0 < k \<and> vdot a a = k * k * vdot b b
     \<longrightarrow> rotation (F a b) \<and> m3_vec (F a b) a = vscale k b)"

text \<open>
  C36 gravity_down: the alignment, when the samples have given a gravity and it has not been
  done before, applies one rotation, the same, to the attitude, the position, the
  velocity and the gravity, and changes nothing else of the state.  With a library
  whose FromTwoVectors is as documented, gravity then points straight down with
  the size it had, the attitude is still a rotation and gravity is what it was to the
  body.  Otherwise, and so the second time, the alignment does nothing.
\<close>

theorem gravity_down:
  assumes "\<not> need_init (sy_imu y)" "\<not> sy_aligned y" "rotation (rot_end (sy_state y))" "from_two_vectors (re_from_two E)"
    "0 < k" "k * k = vdot (gravity (sy_state y)) (gravity (sy_state y))" "s = sy_state y" "s' = sy_state (GravityAlignment E y)"
  shows "(\<exists>G. rotation G \<and> rot_end s' = m3_mul G (rot_end s) \<and> pos_end s' = m3_vec G (pos_end s) \<and> vel_end s' = m3_vec G (vel_end s)
        \<and> gravity s' = m3_vec G (gravity s) \<and> (bias_g s', bias_a s', inv_expo_time s', cov s') = (bias_g s, bias_a s, inv_expo_time s, cov s))
    \<and> gravity s' = (0, 0, - k) \<and> rotation (rot_end s')
    \<and> m3_vec (m3_T (rot_end s')) (gravity s') = m3_vec (m3_T (rot_end s)) (gravity s)
    \<and> GravityAlignment E (GravityAlignment E y) = GravityAlignment E y"
proof -
  define G where "G = re_from_two E (gravity s) (0, 0, - 1)"
  have "gravity s \<noteq> (0, 0, 0)" using assms(5,6,7) by auto
  then have r: "rotation G" and k: "m3_vec G (gravity s) = vscale k (0, 0, - 1)"
    using assms(4)[unfolded from_two_vectors_def, rule_format, of "gravity s" "(0, 0, - 1)" k] assms(5-7) by (simp_all add: G_def)
  have e: "s' = s\<lparr>pos_end := m3_vec G (pos_end s), rot_end := m3_mul G (rot_end s), vel_end := m3_vec G (vel_end s), gravity := m3_vec G (gravity s)\<rparr>"
    "sy_aligned (GravityAlignment E y)"
    using assms(1,2) by (simp_all add: assms(7,8) GravityAlignment_def G_def Let_def)
  have t: "GravityAlignment E z = z" if "sy_aligned z" for z using that by (simp add: GravityAlignment_def)
  have b: "m3_vec (m3_T G) (m3_vec G v) = v" for v by (rule rotation_T_vec[OF r])
  show ?thesis
  proof (intro conjI)
    show "\<exists>G. rotation G \<and> rot_end s' = m3_mul G (rot_end s) \<and> pos_end s' = m3_vec G (pos_end s) \<and> vel_end s' = m3_vec G (vel_end s)
        \<and> gravity s' = m3_vec G (gravity s) \<and> (bias_g s', bias_a s', inv_expo_time s', cov s') = (bias_g s, bias_a s, inv_expo_time s, cov s)"
      using r by (intro exI[of _ G]) (simp add: e)
    show "gravity s' = (0, 0, - k)" by (simp add: e k)
    show "rotation (rot_end s')" using r assms(3,7) by (simp add: e rotation_mul)
    show "m3_vec (m3_T (rot_end s')) (gravity s') = m3_vec (m3_T (rot_end s)) (gravity s)" by (simp add: e m3_T_mul m3_vec_mul b)
    show "GravityAlignment E (GravityAlignment E y) = GravityAlignment E y" by (rule t[OF e(2)])
  qed
qed

section \<open>Publishing\<close>

text \<open>
  path_recent: whatever poses are added, the published path is the latest of them, at
  most three thousand, in order.
\<close>

theorem path_recent:
  assumes "length (sy_path y) \<le> 3000"
  shows "sy_path (fold (\<lambda>(s, q) y. PublishPath (y\<lparr>sy_state := s, sy_geo_quat := q\<rparr>)) xs y)
    = (let ps = sy_path y @ map (\<lambda>(s, q). (pos_end s, q)) xs in drop (length ps - 3000) ps)"
proof -
  have cut: "drop (length (drop (length a - 3000) a @ b) - 3000) (drop (length a - 3000) a @ b) = drop (length (a @ b) - 3000) (a @ b)" for a b :: "(vec \<times> quat) list"
  proof (cases "length a \<le> 3000")
    case False
    have "drop (length a - 3000) a @ b = drop (length a - 3000) (a @ b)" using False by simp
    moreover have "length (drop (length a - 3000) (a @ b)) - 3000 + (length a - 3000) = length (a @ b) - 3000" using False by simp
    ultimately show ?thesis by (metis drop_drop)
  qed simp
  show ?thesis
    using assms
  proof (induction xs rule: rev_induct)
    case (snoc x xs)
    obtain s q where x: "x = (s, q)" by (cases x)
    let ?a = "sy_path y @ map (\<lambda>(s, q). (pos_end s, q)) xs"
    have "sy_path (PublishPath (z\<lparr>sy_state := s, sy_geo_quat := q\<rparr>)) = drop (length (sy_path z @ [(pos_end s, q)]) - 3000) (sy_path z @ [(pos_end s, q)])" for z :: "'a system"
      by (simp add: PublishPath_def put_def Let_def)
    then show ?case using snoc cut[of ?a "[(pos_end s, q)]"] by (simp add: x Let_def)
  qed (simp add: Let_def)
qed

text \<open>The clouds among what was put out, and those written to files.\<close>

fun cloud_of :: "sent \<Rightarrow> pcl_point list list" where
  "cloud_of (Cloud n c) = [c]" | "cloud_of _ = []"

fun file_of :: "sent \<Rightarrow> pcl_point list list" where
  "file_of (PcdFile k c) = [c]" | "file_of _ = []"

definition clouds_sent :: "'i system \<Rightarrow> pcl_point list list" where
  "clouds_sent y = concat (map cloud_of (sy_out y))"

definition files_sent :: "'i system \<Rightarrow> pcl_point list list" where
  "files_sent y = concat (map file_of (sy_out y))"

lemma put_fields [simp]: "sy_state (put os y) = sy_state y" "sy_lio (put os y) = sy_lio y" "sy_cfg (put os y) = sy_cfg y" "sy_mapper (put os y) = sy_mapper y"
  "sy_propagat (put os y) = sy_propagat y" "sy_imu (put os y) = sy_imu y" "sy_undistort (put os y) = sy_undistort y"
  by (simp_all add: put_def)

lemma save_fields [simp]: "sy_state (save_frame rgb y) = sy_state y" "sy_lio (save_frame rgb y) = sy_lio y" "sy_cfg (save_frame rgb y) = sy_cfg y" "sy_mapper (save_frame rgb y) = sy_mapper y" "sy_imu (save_frame rgb y) = sy_imu y"
  by (simp_all add: save_frame_def Let_def)

lemma frame_fields [simp]: "sy_state (PublishFrameWorld E y) = sy_state y" "sy_lio (PublishFrameWorld E y) = sy_lio y" "sy_cfg (PublishFrameWorld E y) = sy_cfg y" "sy_mapper (PublishFrameWorld E y) = sy_mapper y" "sy_imu (PublishFrameWorld E y) = sy_imu y"
  by (simp_all add: PublishFrameWorld_def Let_def)

definition publish_cloud :: "'i run_env \<Rightarrow> pcl_point list \<Rightarrow> 'i system \<Rightarrow> 'i system" where
  "publish_cloud E c y = PublishFrameWorld E (y\<lparr>sy_wait_world := c\<rparr>)"

lemma publish_cloud_step:
  assumes "\<not> rc_img_en (sy_cfg y)" "c \<noteq> []"
  shows "clouds_sent (publish_cloud E c y) = clouds_sent y @ [c]" "sy_cfg (publish_cloud E c y) = sy_cfg y"
    "rc_pcd_save (sy_cfg y) \<Longrightarrow> concat (files_sent (publish_cloud E c y)) @ sy_wait_save (publish_cloud E c y) = concat (files_sent y) @ sy_wait_save y @ c"
    "\<not> rc_pcd_save (sy_cfg y) \<Longrightarrow> files_sent (publish_cloud E c y) = files_sent y"
  using assms by (simp_all add: publish_cloud_def PublishFrameWorld_def save_frame_def put_def Let_def clouds_sent_def files_sent_def)

lemma publish_cloud_empty: "clouds_sent (publish_cloud E [] y) = clouds_sent y" "files_sent (publish_cloud E [] y) = files_sent y"
  "sy_wait_save (publish_cloud E [] y) = sy_wait_save y" "sy_cfg (publish_cloud E [] y) = sy_cfg y"
  by (simp_all add: publish_cloud_def PublishFrameWorld_def clouds_sent_def files_sent_def)

text \<open>The coloured clouds among what was put out, and those written to files.\<close>

fun colour_of :: "sent \<Rightarrow> coloured list list" where
  "colour_of (ColourCloud n c) = [c]" | "colour_of _ = []"

fun colour_file_of :: "sent \<Rightarrow> coloured list list" where
  "colour_file_of (ColourFile k c) = [c]" | "colour_file_of _ = []"

definition colours_sent :: "'i system \<Rightarrow> coloured list list" where
  "colours_sent y = concat (map colour_of (sy_out y))"

definition colour_files_sent :: "'i system \<Rightarrow> coloured list list" where
  "colour_files_sent y = concat (map colour_file_of (sy_out y))"

lemma painted_places: "fst ` set (painted E b ps) \<subseteq> pos ` set ps"
  by (force simp: painted_def split: option.splits if_splits prod.splits)

lemma publish_colour_step:
  assumes "rc_img_en (sy_cfg y)" "c \<noteq> []" "rc_pcd_save (sy_cfg y)"
  shows "\<exists>rgb. colours_sent (publish_cloud E c y) = colours_sent y @ [rgb]
    \<and> concat (colour_files_sent (publish_cloud E c y)) @ sy_wait_save_rgb (publish_cloud E c y) = concat (colour_files_sent y) @ sy_wait_save_rgb y @ rgb
    \<and> fst ` set rgb \<subseteq> pos ` set (sy_wait_rgb y @ c) \<and> set (sy_wait_rgb (publish_cloud E c y)) \<subseteq> set (sy_wait_rgb y @ c)"
proof -
  define rgb where "rgb = (if sy_pub_num y = rc_pub_scan_num (sy_cfg y) then painted E (rc_blind_rgb (sy_cfg y)) (sy_wait_rgb y @ c) else [])"
  have p: "fst ` set rgb \<subseteq> pos ` set (sy_wait_rgb y @ c)" 
  proof (cases "sy_pub_num y = rc_pub_scan_num (sy_cfg y)")
    case True then have "rgb = painted E (rc_blind_rgb (sy_cfg y)) (sy_wait_rgb y @ c)" by (simp add: rgb_def)
    then show ?thesis by (simp only: painted_places)
  qed (simp add: rgb_def)
  define y1 where "y1 = (y\<lparr>sy_wait_world := c\<rparr>)\<lparr>sy_wait_rgb := sy_wait_rgb y @ c,
      sy_pub_num := (if sy_pub_num y = rc_pub_scan_num (sy_cfg y) then 1 else sy_pub_num y + 1)\<rparr>"
  define y3 where "y3 = save_frame rgb (put [ColourCloud (sy_odom_stamp y) rgb] y1)"
  have e: "publish_cloud E c y = (if rgb \<noteq> [] then y3\<lparr>sy_wait_rgb := []\<rparr> else y3)\<lparr>sy_wait_world := []\<rparr>"
    using assms(1,2) unfolding y3_def y1_def rgb_def publish_cloud_def PublishFrameWorld_def by (simp add: Let_def)
  have s: "sy_out y1 = sy_out y" "sy_wait_save_rgb y1 = sy_wait_save_rgb y" "sy_wait_rgb y1 = sy_wait_rgb y @ c" "sy_cfg y1 = sy_cfg y"
    by (simp_all add: y1_def)
  have y3: "colours_sent y3 = colours_sent y @ [rgb]" "concat (colour_files_sent y3) @ sy_wait_save_rgb y3 = concat (colour_files_sent y) @ sy_wait_save_rgb y @ rgb"
    "sy_wait_rgb y3 = sy_wait_rgb y @ c"
    using assms(1,3) s unfolding y3_def by (simp_all add: save_frame_def put_def Let_def colours_sent_def colour_files_sent_def)
  have f: "colours_sent (publish_cloud E c y) = colours_sent y3" "colour_files_sent (publish_cloud E c y) = colour_files_sent y3"
    "sy_wait_save_rgb (publish_cloud E c y) = sy_wait_save_rgb y3" "set (sy_wait_rgb (publish_cloud E c y)) \<subseteq> set (sy_wait_rgb y3)"
    unfolding e by (simp_all add: colours_sent_def colour_files_sent_def)
  show ?thesis using p f y3 by (intro exI[of _ rgb]) simp
qed

lemma publish_colour_empty: "colours_sent (publish_cloud E [] y) = colours_sent y" "colour_files_sent (publish_cloud E [] y) = colour_files_sent y"
  "sy_wait_save_rgb (publish_cloud E [] y) = sy_wait_save_rgb y" "sy_wait_rgb (publish_cloud E [] y) = sy_wait_rgb y"
  by (simp_all add: publish_cloud_def PublishFrameWorld_def colours_sent_def colour_files_sent_def)

lemma publish_cloud_cfg: "sy_cfg (publish_cloud E c y) = sy_cfg y"
  by (simp add: publish_cloud_def)

lemma scans_plain:
  assumes "\<not> rc_img_en (sy_cfg y)"
  shows "clouds_sent (fold (publish_cloud E) cs y) = clouds_sent y @ filter (\<lambda>c. c \<noteq> []) cs
    \<and> (rc_pcd_save (sy_cfg y) \<longrightarrow> concat (files_sent (fold (publish_cloud E) cs y)) @ sy_wait_save (fold (publish_cloud E) cs y)
        = concat (files_sent y) @ sy_wait_save y @ concat cs)
    \<and> (\<not> rc_pcd_save (sy_cfg y) \<longrightarrow> files_sent (fold (publish_cloud E) cs y) = files_sent y)"
  using assms
proof (induction cs arbitrary: y)
  case (Cons c cs)
  note i = Cons.IH[of "publish_cloud E c y", unfolded publish_cloud_cfg, OF Cons.prems]
  show ?case
  proof (cases "c = []")
    case True then show ?thesis using i by (simp add: publish_cloud_empty)
  next
    case False
    note s = publish_cloud_step[OF Cons.prems False, of E]
    have "concat (files_sent (publish_cloud E c y)) @ sy_wait_save (publish_cloud E c y) @ concat cs = concat (files_sent y) @ sy_wait_save y @ c @ concat cs"
      if "rc_pcd_save (sy_cfg y)"
      using arg_cong[OF s(3)[OF that], of "\<lambda>l. l @ concat cs"] by simp
    then show ?thesis using i s(1,4) False by simp
  qed
qed simp

lemma scans_coloured:
  assumes "rc_img_en (sy_cfg y)" "rc_pcd_save (sy_cfg y)"
  shows "\<exists>new. colours_sent (fold (publish_cloud E) cs y) = colours_sent y @ new \<and> length new = length (filter (\<lambda>c. c \<noteq> []) cs)
    \<and> concat (colour_files_sent (fold (publish_cloud E) cs y)) @ sy_wait_save_rgb (fold (publish_cloud E) cs y)
      = concat (colour_files_sent y) @ sy_wait_save_rgb y @ concat new
    \<and> fst ` set (concat new) \<subseteq> pos ` set (sy_wait_rgb y @ concat cs)"
  using assms
proof (induction cs arbitrary: y)
  case Nil show ?case by (rule exI[of _ "[]"]) simp
next
  case (Cons c cs)
  obtain new where i: "colours_sent (fold (publish_cloud E) cs (publish_cloud E c y)) = colours_sent (publish_cloud E c y) @ new"
    "length new = length (filter (\<lambda>c. c \<noteq> []) cs)"
    "concat (colour_files_sent (fold (publish_cloud E) cs (publish_cloud E c y))) @ sy_wait_save_rgb (fold (publish_cloud E) cs (publish_cloud E c y))
      = concat (colour_files_sent (publish_cloud E c y)) @ sy_wait_save_rgb (publish_cloud E c y) @ concat new"
    "fst ` set (concat new) \<subseteq> pos ` set (sy_wait_rgb (publish_cloud E c y) @ concat cs)"
    using Cons.IH[of "publish_cloud E c y", unfolded publish_cloud_cfg, OF Cons.prems] by blast
  show ?case
  proof (cases "c = []")
    case True then show ?thesis using i by (intro exI[of _ new]) (simp add: publish_colour_empty)
  next
    case False
    obtain rgb where r: "colours_sent (publish_cloud E c y) = colours_sent y @ [rgb]"
      "concat (colour_files_sent (publish_cloud E c y)) @ sy_wait_save_rgb (publish_cloud E c y) = concat (colour_files_sent y) @ sy_wait_save_rgb y @ rgb"
      "fst ` set rgb \<subseteq> pos ` set (sy_wait_rgb y @ c)" "set (sy_wait_rgb (publish_cloud E c y)) \<subseteq> set (sy_wait_rgb y @ c)"
      using publish_colour_step[OF Cons.prems(1) False Cons.prems(2), of E] by blast
    have w: "concat (colour_files_sent (publish_cloud E c y)) @ sy_wait_save_rgb (publish_cloud E c y) @ concat new
        = concat (colour_files_sent y) @ sy_wait_save_rgb y @ rgb @ concat new"
      using arg_cong[OF r(2), of "\<lambda>l. l @ concat new"] by simp
    have "pos ` set (sy_wait_rgb (publish_cloud E c y) @ concat cs) \<subseteq> pos ` set (sy_wait_rgb y @ concat (c # cs))" using r(4) by auto
    then have "fst ` set (concat new) \<subseteq> pos ` set (sy_wait_rgb y @ concat (c # cs))" using i(4) by blast
    moreover have "fst ` set rgb \<subseteq> pos ` set (sy_wait_rgb y @ concat (c # cs))" using r(3) by auto
    ultimately have "fst ` set (concat (rgb # new)) \<subseteq> pos ` set (sy_wait_rgb y @ concat (c # cs))" by (simp only: concat.simps set_append image_Un Un_subset_iff)
    then show ?thesis using i(1-3) r(1) w False by (intro exI[of _ "rgb # new"] conjI) simp_all
  qed
qed


section \<open>A turn of the loop\<close>

lemma HandleLIO_empty: "sy_undistort y = [] \<Longrightarrow> HandleLIO E y = Inr y"
  by (simp add: HandleLIO_def)

lemma publish_fields [simp]:
  "sy_state (PublishPath y) = sy_state y" "sy_lio (PublishPath y) = sy_lio y" "sy_cfg (PublishPath y) = sy_cfg y" "sy_mapper (PublishPath y) = sy_mapper y" "sy_imu (PublishPath y) = sy_imu y"
  "sy_state (PublishEffectWorld y) = sy_state y" "sy_lio (PublishEffectWorld y) = sy_lio y" "sy_cfg (PublishEffectWorld y) = sy_cfg y" "sy_mapper (PublishEffectWorld y) = sy_mapper y" "sy_imu (PublishEffectWorld y) = sy_imu y"
  "sy_state (PublishOdometry E y) = sy_state y" "sy_lio (PublishOdometry E y) = sy_lio y" "sy_cfg (PublishOdometry E y) = sy_cfg y" "sy_mapper (PublishOdometry E y) = sy_mapper y" "sy_imu (PublishOdometry E y) = sy_imu y"
  "sy_state (hand_state y) = sy_state y" "sy_lio (hand_state y) = sy_lio y" "sy_cfg (hand_state y) = sy_cfg y" "sy_mapper (hand_state y) = sy_mapper y" "sy_imu (hand_state y) = sy_imu y"
  by (simp_all add: PublishPath_def PublishEffectWorld_def PublishOdometry_def hand_state_def Let_def)

lemma update_map_fields:
  assumes "update_map E y = Inr y'"
  shows "sy_state y' = sy_state y" "lio_state (sy_lio y') = lio_state (sy_lio y)" "sy_cfg y' = sy_cfg y" "sy_mapper y' = sy_mapper y" "sy_imu y' = sy_imu y"
  using assms by (auto simp: update_map_def Let_def bindR_eq_Inr)

lemma first_map_fields:
  assumes "first_map E y = Inr y'"
  shows "sy_cfg y' = sy_cfg y" "sy_mapper y' = sy_mapper y" "sy_imu y' = sy_imu y"
  using assms by (auto simp: first_map_def Let_def bindR_eq_Inr split: if_splits)

lemma HandleLIO_fields:
  assumes "HandleLIO E y = Inr y'" "sy_undistort y \<noteq> []"
  shows "lio_state (sy_lio y') = sy_state y'" "sy_cfg y' = sy_cfg y" "sy_mapper y' = sy_mapper y" "sy_imu y' = sy_imu y"
proof -
  obtain y1 where 1: "first_map E y = Inr y1" using assms by (auto simp: HandleLIO_def bindR_eq_Inr)
  then obtain l where 2: "StateEstimation (re_lio E) (sy_lio_cfg y1) (sy_propagat y1) (sy_lio y1) = Inr l"
    using assms by (auto simp: HandleLIO_def bindR_eq_Inr)
  define y0 where "y0 = PublishOdometry E (hand_state (y1\<lparr>sy_lio := l, sy_state := lio_state l\<rparr>))"
  obtain y2 where 3: "update_map E y0 = Inr y2" using assms 1 2 by (auto simp: HandleLIO_def bindR_eq_Inr y0_def)
  have y': "y' = (let y3 = y2\<lparr>sy_wait_world := world_cloud y2 (if rc_dense_map (sy_cfg y2) then sy_undistort y2 else sy_down y2)\<rparr>;
             y4 = (if rc_img_en (sy_cfg y3) then y3 else PublishFrameWorld E y3);
             y5 = (if rc_pub_effect (sy_cfg y4) then PublishEffectWorld y4 else y4) in
         (PublishPath y5)\<lparr>sy_frames := sy_frames y5 + 1\<rparr>)"
    using assms 1 2 3 by (simp add: HandleLIO_def y0_def[symmetric] Let_def)
  have "lio_state (sy_lio y0) = sy_state y0" "sy_cfg y0 = sy_cfg y1" "sy_mapper y0 = sy_mapper y1" "sy_imu y0 = sy_imu y1" by (simp_all add: y0_def)
  then show "lio_state (sy_lio y') = sy_state y'" "sy_cfg y' = sy_cfg y" "sy_mapper y' = sy_mapper y" "sy_imu y' = sy_imu y"
    using update_map_fields[OF 3] first_map_fields[OF 1] by (simp_all add: y' Let_def)
qed

lemma GravityAlignment_fields [simp]: "sy_lio (GravityAlignment E y) = sy_lio y" "sy_cfg (GravityAlignment E y) = sy_cfg y"
  "sy_mapper (GravityAlignment E y) = sy_mapper y" "sy_imu (GravityAlignment E y) = sy_imu y" "sy_undistort (GravityAlignment E y) = sy_undistort y"
  "sy_out (GravityAlignment E y) = sy_out y" "sy_wait_world (GravityAlignment E y) = sy_wait_world y"
  by (simp_all add: GravityAlignment_def Let_def)

lemma ProcessImu_cases:
  assumes "ProcessImu E y = Inr y'"
  obtains pts lm s p z where "ImuProcess_Process (en_libm (re_lio E)) (meas (sy_mapper y)) (sy_state y) (sy_undistort y) (sy_imu y) = Inr (pts, lm, s, p)"
    "z = y\<lparr>sy_undistort := pts, sy_mapper := (sy_mapper y)\<lparr>meas := lm, imu_need_init := need_init p\<rparr>, sy_state := s, sy_imu := p\<rparr>
      \<or> z = GravityAlignment E (y\<lparr>sy_undistort := pts, sy_mapper := (sy_mapper y)\<lparr>meas := lm, imu_need_init := need_init p\<rparr>, sy_state := s, sy_imu := p\<rparr>)"
    "y' = z\<lparr>sy_propagat := sy_state z, sy_lio := (sy_lio z)\<lparr>lio_state := sy_state z\<rparr>\<rparr>"
proof -
  obtain r where 1: "ImuProcess_Process (en_libm (re_lio E)) (meas (sy_mapper y)) (sy_state y) (sy_undistort y) (sy_imu y) = Inr r"
    using assms by (auto simp: ProcessImu_def bindR_eq_Inr)
  obtain pts lm s p where r: "r = (pts, lm, s, p)" by (cases r)
  define w where "w = y\<lparr>sy_undistort := pts, sy_mapper := (sy_mapper y)\<lparr>meas := lm, imu_need_init := need_init p\<rparr>, sy_state := s, sy_imu := p\<rparr>"
  define z where "z = (if rc_gravity_align (sy_cfg y) then GravityAlignment E w else w)"
  have "z\<lparr>sy_propagat := sy_state z, sy_lio := (sy_lio z)\<lparr>lio_state := sy_state z\<rparr>\<rparr> = y'"
    using assms by (cases "rc_gravity_align (sy_cfg y)") (simp_all add: ProcessImu_def 1 r Let_def w_def z_def del: GravityAlignment_fields)
  then have "y' = z\<lparr>sy_propagat := sy_state z, sy_lio := (sy_lio z)\<lparr>lio_state := sy_state z\<rparr>\<rparr>" by (rule sym)
  moreover have "z = w \<or> z = GravityAlignment E w" by (simp add: z_def)
  ultimately show thesis using 1 unfolding r w_def by (intro that)
qed

lemma ProcessImu_fields:
  assumes "ProcessImu E y = Inr y'"
  shows "lio_state (sy_lio y') = sy_state y'" "sy_propagat y' = sy_state y'" "sy_cfg y' = sy_cfg y"
    "\<exists>u b. sy_mapper y' = (sy_mapper y)\<lparr>meas := u, imu_need_init := b\<rparr>" "imu_need_init (sy_mapper y') = need_init (sy_imu y')"
    "lio_map (sy_lio y') = lio_map (sy_lio y)" "sy_out y' = sy_out y" "sy_wait_world y' = sy_wait_world y"
proof -
  obtain pts lm s p z where z: "z = y\<lparr>sy_undistort := pts, sy_mapper := (sy_mapper y)\<lparr>meas := lm, imu_need_init := need_init p\<rparr>, sy_state := s, sy_imu := p\<rparr>
      \<or> z = GravityAlignment E (y\<lparr>sy_undistort := pts, sy_mapper := (sy_mapper y)\<lparr>meas := lm, imu_need_init := need_init p\<rparr>, sy_state := s, sy_imu := p\<rparr>)"
    and y': "y' = z\<lparr>sy_propagat := sy_state z, sy_lio := (sy_lio z)\<lparr>lio_state := sy_state z\<rparr>\<rparr>"
    using assms by (rule ProcessImu_cases)
  have f: "sy_cfg z = sy_cfg y" "sy_mapper z = (sy_mapper y)\<lparr>meas := lm, imu_need_init := need_init p\<rparr>" "sy_imu z = p"
    "lio_map (sy_lio z) = lio_map (sy_lio y)" "sy_out z = sy_out y" "sy_wait_world z = sy_wait_world y"
    using z by (elim disjE; simp)+
  show "lio_state (sy_lio y') = sy_state y'" "sy_propagat y' = sy_state y'" "sy_cfg y' = sy_cfg y"
    "\<exists>u b. sy_mapper y' = (sy_mapper y)\<lparr>meas := u, imu_need_init := b\<rparr>" "imu_need_init (sy_mapper y') = need_init (sy_imu y')"
    "lio_map (sy_lio y') = lio_map (sy_lio y)" "sy_out y' = sy_out y" "sy_wait_world y' = sy_wait_world y"
    by (auto simp: y' f)
qed

lemma ProcessImu_waits:
  assumes "ProcessImu E y = Inr y'" "need_init (sy_imu y)"
  shows "sy_undistort y' = sy_undistort y"
proof -
  obtain pts lm s p z where i: "ImuProcess_Process (en_libm (re_lio E)) (meas (sy_mapper y)) (sy_state y) (sy_undistort y) (sy_imu y) = Inr (pts, lm, s, p)"
    and z: "z = y\<lparr>sy_undistort := pts, sy_mapper := (sy_mapper y)\<lparr>meas := lm, imu_need_init := need_init p\<rparr>, sy_state := s, sy_imu := p\<rparr>
      \<or> z = GravityAlignment E (y\<lparr>sy_undistort := pts, sy_mapper := (sy_mapper y)\<lparr>meas := lm, imu_need_init := need_init p\<rparr>, sy_state := s, sy_imu := p\<rparr>)"
    and y': "y' = z\<lparr>sy_propagat := sy_state z, sy_lio := (sy_lio z)\<lparr>lio_state := sy_state z\<rparr>\<rparr>"
    using assms(1) by (rule ProcessImu_cases)
  have "pts = sy_undistort y" using i assms(2) by (auto simp: ImuProcess_Process_def bindR_eq_Inr Let_def split: if_split_asm)
  then show ?thesis using z by (elim disjE; simp add: y')
qed

lemma HandleVIO_fields:
  assumes "HandleVIO E y = Inr y'"
  shows "sy_mapper y' = sy_mapper y" "sy_imu y' = sy_imu y" "sy_cfg y' = sy_cfg y"
  using assms by (auto simp: HandleVIO_def bindR_eq_Inr split: if_splits)

lemma estimation_fields:
  assumes "StateEstimationAndMapping E y = Inr y'"
  shows "sy_mapper y' = sy_mapper y" "sy_imu y' = sy_imu y" "sy_cfg y' = sy_cfg y"
proof -
  obtain y1 where 1: "HandleLIO E y = Inr y1" using assms by (auto simp: StateEstimationAndMapping_def bindR_eq_Inr)
  have f: "sy_mapper y1 = sy_mapper y" "sy_imu y1 = sy_imu y" "sy_cfg y1 = sy_cfg y"
    using 1 HandleLIO_fields[OF 1] by (cases "sy_undistort y = []"; simp add: HandleLIO_empty)+
  have "(if rc_img_en (sy_cfg y1) then HandleVIO E (y1\<lparr>sy_propagat := sy_state y1\<rparr>) else Inr (y1\<lparr>sy_propagat := sy_state y1\<rparr>)) = Inr y'"
    using assms 1 by (simp add: StateEstimationAndMapping_def Let_def)
  then show "sy_mapper y' = sy_mapper y" "sy_imu y' = sy_imu y" "sy_cfg y' = sy_cfg y"
    using f HandleVIO_fields[of E "y1\<lparr>sy_propagat := sy_state y1\<rparr>" y'] by (auto split: if_split_asm)
qed

text \<open>
  C37 copies_agree: after a turn of the loop that processes a group without images, the
  mapper's state, the copy of the voxel map and the predicted state are the same.
\<close>

theorem copies_agree:
  assumes "SyncPackages (sy_mapper y) = Inr (True, m)" "Run_once E y = Inr y'" "\<not> rc_img_en (sy_cfg y)"
  shows "lio_state (sy_lio y') = sy_state y' \<and> sy_propagat y' = sy_state y'"
proof -
  obtain y1 where 1: "ProcessImu E (y\<lparr>sy_mapper := HandleFirstFrame m\<rparr>) = Inr y1" "StateEstimationAndMapping E y1 = Inr y'"
    using assms(1,2) by (auto simp: Run_once_def bindR_eq_Inr)
  note p = ProcessImu_fields[OF 1(1)]
  obtain y2 where 2: "HandleLIO E y1 = Inr y2" using 1(2) by (auto simp: StateEstimationAndMapping_def bindR_eq_Inr)
  have a: "lio_state (sy_lio y2) = sy_state y2" "sy_cfg y2 = sy_cfg y1"
    using 2 p HandleLIO_fields[OF 2] by (cases "sy_undistort y1 = []"; simp add: HandleLIO_empty)+
  have "y' = y2\<lparr>sy_propagat := sy_state y2\<rparr>" using 1(2) 2 a p(3) assms(3) by (simp add: StateEstimationAndMapping_def Let_def)
  then show ?thesis using a by simp
qed

text \<open>
  C38 nothing_before_init: as long as gravity is being estimated no scan reaches the map and
  nothing is put out.
\<close>

theorem nothing_before_init:
  assumes "Run_once E y = Inr y'" "need_init (sy_imu y)" "sy_undistort y = []" "sy_wait_world y = []"
  shows "lio_map (sy_lio y') = lio_map (sy_lio y) \<and> sy_out y' = sy_out y \<and> sy_undistort y' = [] \<and> sy_wait_world y' = []"
proof -
  obtain go m where s: "SyncPackages (sy_mapper y) = Inr (go, m)" using assms(1) by (auto simp: Run_once_def bindR_eq_Inr)
  show ?thesis
  proof (cases go)
    case False then show ?thesis using assms s by (auto simp: Run_once_def)
  next
    case True
    obtain y1 where 1: "ProcessImu E (y\<lparr>sy_mapper := HandleFirstFrame m\<rparr>) = Inr y1" "StateEstimationAndMapping E y1 = Inr y'"
      using assms(1) s True by (auto simp: Run_once_def bindR_eq_Inr)
    have u: "sy_undistort y1 = []" using ProcessImu_waits[OF 1(1)] assms(2,3) by simp
    note p = ProcessImu_fields[OF 1(1)]
    have "y' = y1\<lparr>sy_propagat := sy_state y1\<rparr>"
      using 1(2) HandleLIO_empty[OF u] p(8) assms(4) by (auto simp: StateEstimationAndMapping_def HandleVIO_def Let_def split: if_split_asm)
    then show ?thesis using p(6,7,8) u assms(4) by simp
  qed
qed

section \<open>Witnesses\<close>

text \<open>Settings, libraries and a mapper for the witnesses.\<close>

definition plain_run :: run_config where
  "plain_run = \<lparr>rc_camera_config = [], rc_driver_fix = False, rc_img_en = False, rc_lidar_en = True,
     rc_vio = \<lparr>vc_normal_en = False, vc_inverse_composition_en = False, vc_max_iterations = 0, vc_img_point_cov = 0, vc_raycast_en = False,
       vc_grid_size = 0, vc_patch_pyrimid_level = 0, vc_patch_size = 0, vc_outlier_threshold = 0, vc_Pcl = [], vc_Rcl = []\<rparr>,
     rc_exposure_en = False, rc_inv_expo_cov = 0, rc_exposure_time = 0, rc_img_offset = 0, rc_imu_offset = 0, rc_imu_prop = True,
     rc_gravity_align = True, rc_pitch_deg = 0, rc_map_odom_tf = False, rc_gyr_cov = 1, rc_acc_cov = 1, rc_imu_frames = 30, rc_gravity_est = True,
     rc_bias_est = True, rc_leaf_surf = 1, rc_hilti = False, rc_pcd_interval = 1, rc_pcd_save = True, rc_leaf_pcd = 1, rc_extrin_T = [0, 0, 0],
     rc_extrin_R = [1, 0, 0, 0, 1, 0, 0, 0, 1], rc_blind_rgb = 0, rc_pub_scan_num = 1, rc_pub_effect = False, rc_dense_map = True\<rparr>"

definition plain_run_env :: "nat run_env" where
  "plain_run_env = \<lparr>re_lio = identity_env triangle_libm diagonal_solver, re_order = (\<lambda>m. []), re_downsample = (\<lambda>l c. c),
     re_downsample_rgb = (\<lambda>l c. c), re_from_two = (\<lambda>v w. ((4 / 5, - (3 / 5), 0), (0, 0, 1), (- (3 / 5), - (4 / 5), 0))),
     re_quat = (\<lambda>R. (1, 0, 0, 0)), re_rpy = (\<lambda>v. (1, 0, 0, 0)), re_visual = (\<lambda>i pvs m p s. Inr s), re_paint = (\<lambda>p. None)\<rparr>"

definition plain_system :: "nat system" where
  "plain_system = new_system plain_run_env 3 (0, (0, 0, 0)) plain_run still_pre (plain_config 1) (0, 0, 0) m3_id (ImuProcess 0 0)"

definition loaded_system :: "nat system" where
  "loaded_system = plain_system\<lparr>sy_mapper := loaded ONLY_LIO still_pre\<rparr>"

text \<open>A rotation from one vector to another: half a turn about the line between them.\<close>

fun half_turn :: "vec \<Rightarrow> mat3" where
  "half_turn (x, y, z) = (let n = x * x + y * y + z * z in
     ((2 * x * x / n - 1, 2 * x * y / n, 2 * x * z / n), (2 * x * y / n, 2 * y * y / n - 1, 2 * y * z / n), (2 * x * z / n, 2 * y * z / n, 2 * z * z / n - 1)))"

lemma half_turn_rotation:
  assumes "v \<noteq> (0, 0, 0)" shows "rotation (half_turn v)"
proof -
  obtain x y z where v: "v = (x, y, z)" by (cases v)
  define n where "n = x * x + y * y + z * z"
  have "n \<noteq> 0" using assms vdot_zero_iff[of v] by (simp add: v n_def)
  define i where "i = 1 / n"
  have h: "i * (x * x + y * y + z * z) = 1" using \<open>n \<noteq> 0\<close> by (simp add: i_def n_def)
  have e: "half_turn v = ((2 * x * x * i - 1, 2 * x * y * i, 2 * x * z * i), (2 * x * y * i, 2 * y * y * i - 1, 2 * y * z * i),
      (2 * x * z * i, 2 * y * z * i, 2 * z * z * i - 1))"
    by (simp add: v n_def[symmetric] i_def)
  show ?thesis unfolding rotation_def e
    by (simp add: m3_id_def) (intro conjI; use h in algebra)
qed

lemma half_turn_vec:
  assumes "v \<noteq> (0, 0, 0)" shows "m3_vec (half_turn v) a = vsub (vscale (2 * vdot v a / vdot v v) v) a"
proof -
  obtain x y z where v: "v = (x, y, z)" by (cases v)
  obtain p q r where a: "a = (p, q, r)" by (cases a)
  define n where "n = x * x + y * y + z * z"
  have "n \<noteq> 0" using assms vdot_zero_iff[of v] by (simp add: v n_def)
  have h: "half_turn v = ((2 * x * x / n - 1, 2 * x * y / n, 2 * x * z / n), (2 * x * y / n, 2 * y * y / n - 1, 2 * y * z / n),
      (2 * x * z / n, 2 * y * z / n, 2 * z * z / n - 1))" "vdot v v = n"
    by (simp_all add: v n_def Let_def)
  show ?thesis unfolding h using \<open>n \<noteq> 0\<close> by (simp add: v a field_simps)
qed

text \<open>The root of a square.\<close>

definition nat_root :: "nat \<Rightarrow> nat" where
  "nat_root n = last (filter (\<lambda>i. i * i \<le> n) [0..<Suc n])"

lemma nat_root_square: "nat_root (i * i) = i"
proof -
  have "i \<le> i * i" by (cases i) simp_all
  then obtain d where "i * i = i + d" using le_Suc_ex by blast
  then have s: "[0..<Suc (i * i)] = [0..<Suc i] @ [Suc i..<Suc (i * i)]" using upt_add_eq_append[of 0 "Suc i" d] by simp
  have "filter (\<lambda>j. j * j \<le> i * i) [0..<Suc i] = [0..<Suc i]" by (rule filter_True) (auto simp: less_Suc_eq_le mult_le_mono)
  moreover have "filter (\<lambda>j. j * j \<le> i * i) [Suc i..<Suc (i * i)] = []"
    by (rule filter_False) (auto simp: Suc_le_eq not_le intro!: mult_strict_mono)
  ultimately show ?thesis unfolding nat_root_def s by simp
qed

definition rat_root :: "rat \<Rightarrow> rat" where
  "rat_root q = (case quotient_of q of (a, b) \<Rightarrow> of_nat (nat_root (nat a)) / of_nat (nat_root (nat b)))"

lemma rat_root_square:
  assumes "0 < k" shows "rat_root (k * k) = k"
proof -
  obtain a b where q: "quotient_of k = (a, b)" by (cases "quotient_of k")
  have b: "0 < b" and c: "coprime a b" and k: "k = of_int a / of_int b"
    using quotient_of_denom_pos[OF q] quotient_of_coprime[OF q] quotient_of_div[OF q] by auto
  have a: "0 < a" using assms b k by (simp add: zero_less_divide_iff)
  have "k * k = Fract (a * a) (b * b)" unfolding k by (simp add: Fract_of_int_quotient)
  moreover have "coprime (a * a) (b * b)" using c by simp
  ultimately have "quotient_of (k * k) = (a * a, b * b)" using b by (simp add: quotient_of_Fract normalize_stable)
  moreover have "nat (a * a) = nat a * nat a" "nat (b * b) = nat b * nat b" using a b by (simp_all add: nat_mult_distrib)
  ultimately show ?thesis using a b unfolding rat_root_def k by (simp add: nat_root_square)
qed

fun across :: "vec \<Rightarrow> vec" where
  "across (x, y, z) = (if x = 0 \<and> y = 0 then (1, 0, 0) else (- y, x, 0))"

definition turn_onto :: "vec \<Rightarrow> vec \<Rightarrow> mat3" where
  "turn_onto a b = (let n = vadd a (vscale (rat_root (vdot a a / vdot b b)) b) in half_turn (if n = (0, 0, 0) then across a else n))"

lemma turn_onto_turns: "from_two_vectors turn_onto"
  unfolding from_two_vectors_def
proof (intro allI impI)
  fix a b :: vec and k :: rat
  assume h: "a \<noteq> (0, 0, 0) \<and> b \<noteq> (0, 0, 0) \<and> 0 < k \<and> vdot a a = k * k * vdot b b"
  have r: "rat_root (vdot a a / vdot b b) = k" using h vdot_zero_iff[of b] rat_root_square[of k] by simp
  define c where "c = vscale k b"
  have c: "vdot c c = vdot a a" using h unfolding c_def by (cases b) (simp add: algebra_simps)
  obtain p q s where a: "a = (p, q, s)" by (cases a)
  obtain x y z where cc: "c = (x, y, z)" by (cases c)
  show "rotation (turn_onto a b) \<and> m3_vec (turn_onto a b) a = vscale k b"
  proof (cases "vadd a c = (0, 0, 0)")
    case True
    have ac: "c = vscale (- 1) a" using True by (simp add: a cc eq_neg_iff_add_eq_0 add.commute)
    have n: "across a \<noteq> (0, 0, 0)" "vdot (across a) a = 0" using h by (auto simp: a)
    have "m3_vec (half_turn (across a)) a = c" unfolding half_turn_vec[OF n(1)] n(2) ac by (simp add: a)
    then show ?thesis using True half_turn_rotation[OF n(1)] unfolding turn_onto_def r c_def[symmetric] by simp
  next
    case False
    have "vdot (vadd a c) (vadd a c) = 2 * vdot (vadd a c) a" using c by (simp add: a cc algebra_simps)
    then have "2 * vdot (vadd a c) a / vdot (vadd a c) (vadd a c) = 1" using False vdot_zero_iff[of "vadd a c"] by simp
    then have "m3_vec (half_turn (vadd a c)) a = c" unfolding half_turn_vec[OF False] by (simp add: a cc)
    then show ?thesis using False half_turn_rotation[OF False] unfolding turn_onto_def r c_def[symmetric] by simp
  qed
qed

lemma gravity_down_witness:
  "gravity (sy_state (GravityAlignment (plain_run_env\<lparr>re_from_two := turn_onto\<rparr>) (plain_system\<lparr>sy_state := StatesGroup\<lparr>gravity := (3, 4, 0)\<rparr>,
      sy_imu := (ImuProcess 0 0)\<lparr>need_init := False\<rparr>\<rparr>))) = (0, 0, - 5)"
proof -
  let ?y = "plain_system\<lparr>sy_state := StatesGroup\<lparr>gravity := (3, 4, 0)\<rparr>, sy_imu := (ImuProcess 0 0)\<lparr>need_init := False\<rparr>\<rparr>"
  have h: "\<not> need_init (sy_imu ?y)" "\<not> sy_aligned ?y" "rotation (rot_end (sy_state ?y))"
    "from_two_vectors (re_from_two (plain_run_env\<lparr>re_from_two := turn_onto\<rparr>))" "(0 :: rat) < 5" "5 * 5 = vdot (gravity (sy_state ?y)) (gravity (sy_state ?y))"
    by (simp_all add: plain_system_def new_system_def StatesGroup_def rotation_id turn_onto_turns)
  show ?thesis using gravity_down[OF h refl refl] by blast
qed

lemma path_recent_witness:
  "sy_path (fold (\<lambda>(s, q) y. PublishPath (y\<lparr>sy_state := s, sy_geo_quat := q\<rparr>)) [(StatesGroup, (1, 0, 0, 0)), (StatesGroup\<lparr>pos_end := (1, 0, 0)\<rparr>, (1, 0, 0, 0))] plain_system)
    = [((0, 0, 0), (1, 0, 0, 0)), ((1, 0, 0), (1, 0, 0, 0))]"
  by (subst path_recent) (simp_all add: plain_system_def new_system_def StatesGroup_def)


lemma loaded_turn:
  "\<exists>m y'. SyncPackages (sy_mapper loaded_system) = Inr (True, m) \<and> Run_once plain_run_env loaded_system = Inr y'"
proof -
  obtain m where s: "SyncPackages (sy_mapper loaded_system) = Inr (True, m)"
    and g: "measures (meas (HandleFirstFrame m)) = [MeasureGroup\<lparr>lio_time := 109 / 100, mg_imu := [sample_at 1040000000]\<rparr>]"
    by (simp add: SyncPackages_def loaded_system_def loaded_def new_mapper_def sync_lio_def first_update_def push_lidar_def front_of_def pop_front_def
      LidarMeasureGroup_def point_at_def Let_def sample_at_def toSec_def HandleFirstFrame_def)
  let ?z = "loaded_system\<lparr>sy_mapper := HandleFirstFrame m\<rparr>"
  have f: "need_init (sy_imu ?z)" "sy_undistort ?z = []" "sy_imu ?z = imu_settings plain_run (0, 0, 0) m3_id (ImuProcess 0 0)"
    "rc_gravity_align (sy_cfg ?z)" "en_libm (re_lio plain_run_env) = triangle_libm" "sy_aligned ?z = False"
    by (simp_all add: loaded_system_def plain_system_def new_system_def imu_settings_def ImuProcess_def plain_run_def Let_def plain_run_env_def identity_env_def
      SetImuInitFrameNum_def SetAccBiasCov_def SetGyrBiasCov_def SetInvExpoCov_def SetAccCovScale_def SetGyrCovScale_def SetExtrinsic_def
      DisableGravityEst_def DisableBiasEst_def DisableExposureEst_def)
  obtain r where "ImuProcess_Process triangle_libm (meas (HandleFirstFrame m)) (sy_state ?z) [] (sy_imu ?z) = Inr r"
    by (simp add: ImuProcess_Process_def g f(3) imu_settings_def ImuProcess_def plain_run_def Let_def MeasureGroup_def ImuInit_def first_means_def mean_step_def
      SetImuInitFrameNum_def SetAccBiasCov_def SetGyrBiasCov_def SetInvExpoCov_def SetAccCovScale_def SetGyrCovScale_def SetExtrinsic_def
      DisableGravityEst_def DisableBiasEst_def DisableExposureEst_def ImuProcess_Reset_def sample_at_def norm3_def triangle_libm_def)
  then obtain y1 where 1: "ProcessImu plain_run_env ?z = Inr y1" using f(5) by (cases r) (simp add: ProcessImu_def f(2) Let_def)
  have "sy_undistort y1 = []" "\<not> rc_img_en (sy_cfg y1)"
    using ProcessImu_waits[OF 1 f(1)] f(2) ProcessImu_fields(3)[OF 1]
    by (simp_all add: loaded_system_def plain_system_def new_system_def plain_run_def)
  then have "\<exists>y'. StateEstimationAndMapping plain_run_env y1 = Inr y'" by (simp add: StateEstimationAndMapping_def HandleLIO_empty Let_def)
  then show ?thesis using s 1 by (simp add: Run_once_def)
qed

lemma copies_agree_witness:
  "\<exists>y'. Run_once plain_run_env loaded_system = Inr y' \<and> lio_state (sy_lio y') = sy_state y'"
proof -
  obtain m y' where y': "SyncPackages (sy_mapper loaded_system) = Inr (True, m)" "Run_once plain_run_env loaded_system = Inr y'" using loaded_turn by blast
  have "\<not> rc_img_en (sy_cfg loaded_system)" by (simp add: loaded_system_def plain_system_def new_system_def plain_run_def)
  from copies_agree[OF y' this] y'(2) show ?thesis by blast
qed

lemma nothing_before_init_witness:
  "\<exists>y'. Run_once plain_run_env loaded_system = Inr y' \<and> sy_out y' = []"
proof -
  obtain y' where y': "Run_once plain_run_env loaded_system = Inr y'" using loaded_turn by blast
  have "need_init (sy_imu loaded_system)" "sy_undistort loaded_system = []" "sy_wait_world loaded_system = []" "sy_out loaded_system = []"
    by (simp_all add: loaded_system_def plain_system_def new_system_def imu_settings_def ImuProcess_def plain_run_def Let_def
      SetImuInitFrameNum_def SetAccBiasCov_def SetGyrBiasCov_def SetInvExpoCov_def SetAccCovScale_def SetGyrCovScale_def SetExtrinsic_def
      DisableGravityEst_def DisableBiasEst_def DisableExposureEst_def)
  with nothing_before_init[OF y'] y' show ?thesis by simp
qed

end
