(* ===== verification/Mapper_System.thy ===== *)
theory Mapper_System
  imports Mapper_Run
begin

text \<open>
  The mapper as a whole (edge/src/FAST-LIVO2/src/LIVMapper.cpp): what every callback, tick
  and turn of the loop keeps of its buffers, from the constructor on, and the odometry
  at the rate of the inertial sensor.
\<close>


section \<open>The samples kept for the odometry\<close>

text \<open>
  The samples since the filter's state are in the order of their stamps, none is
  later than the last one taken, and the newest is the last of them.
\<close>

definition prop_ok :: "'i mapper \<Rightarrow> bool" where
  "prop_ok m = (sorted (map im_stamp (prop_imu_buffer m)) \<and> (\<forall>i \<in> set (prop_imu_buffer m). toSec (im_stamp i) \<le> last_timestamp_imu m)
     \<and> (prop_imu_buffer m \<noteq> [] \<longrightarrow> newest_imu m = Some (last (prop_imu_buffer m)) \<and> \<not> imu_need_init m)
     \<and> (ros_driver_fix_en m \<and> \<not> offset_latched m \<longrightarrow> prop_imu_buffer m = []))"

text \<open>What that depends on.\<close>

definition prop_part :: "'i mapper \<Rightarrow> imu list \<times> imu option \<times> rat \<times> bool \<times> bool \<times> bool" where
  "prop_part m = (prop_imu_buffer m, newest_imu m, last_timestamp_imu m, ros_driver_fix_en m, offset_latched m, imu_need_init m)"

lemma prop_ok_part: "prop_part m' = prop_part m \<Longrightarrow> prop_ok m' = prop_ok m"
  by (simp add: prop_part_def prop_ok_def)

lemma scans_part: "prop_part (m\<lparr>pre := s\<rparr>) = prop_part m" "prop_part (loop_back t m) = prop_part m" "prop_part (push_scan t pl m) = prop_part m"
  "trim_scans m = Inr m' \<Longrightarrow> prop_part m' = prop_part m"
  by (auto simp: prop_part_def loop_back_def push_scan_def trim_scans_def Let_def split: if_splits)

lemma scan_part: "PointCloud2Cbk S st qs m = Inr m' \<Longrightarrow> prop_part m' = prop_part m"
  by (erule PointCloud2Cbk_cases) (simp_all only: scans_part)

lemma livox_part: "LivoxCbk S st k ps m = Inr m' \<Longrightarrow> prop_part m' = prop_part m"
  by (erule LivoxCbk_cases) (simp_all only: scans_part)

lemma image_part: "ImageCbk conv st msg m = Inr m' \<Longrightarrow> prop_part m' = prop_part m"
  by (erule ImageCbk_cases) (simp_all add: prop_part_def)

lemma first_part: "prop_part (HandleFirstFrame m) = prop_part m"
  by (simp add: HandleFirstFrame_def prop_part_def)

lemma updated_part: "prop_part (updated m) = prop_part m"
  by (simp add: updated_def prop_part_def)

lemma push_lidar_part: "push_lidar m = Inr (go, m') \<Longrightarrow> prop_part m' = prop_part m"
  by (erule push_lidar_cases) (simp_all add: prop_part_def)

lemma sync_part:
  assumes "SyncPackages m = Inr (go, m')"
  shows "prop_part m' = prop_part m"
proof -
  consider "m' = m" | "sync_lio m = Inr (go, m')" | "sync_livo m = Inr (go, m')"
    using assms unfolding SyncPackages_def by (auto split: if_splits slam_mode.splits)
  then show ?thesis
  proof cases
    case 2
    then show ?thesis
      by (cases rule: sync_lio_cases) (auto dest!: push_lidar_part simp: updated_part, simp_all add: prop_part_def updated_def)
  next
    case 3
    then show ?thesis
    proof (cases rule: sync_livo_cases)
      case (group c)
      then have "prop_part m' = prop_part (updated m)" by (auto simp: cut_group_def Let_def bindR_eq_Inr prop_part_def)
      then show ?thesis by (simp add: updated_part)
    qed (simp_all add: prop_part_def updated_def)
  qed simp
qed

lemma push_imu_prop:
  assumes "prop_ok m" "toStamp t = Inr n" "ros_driver_fix_en m \<longrightarrow> offset_latched m"
  shows "prop_ok (push_imu t (i\<lparr>im_stamp := n\<rparr>) m)"
proof (cases "0 < last_timestamp_imu m \<and> t < last_timestamp_imu m")
  case True then show ?thesis using assms(1) by (simp add: push_imu_def)
next
  case False
  have le: "x \<le> n" "toSec x \<le> t" if "toSec x \<le> last_timestamp_imu m" for x
  proof -
    have "0 \<le> toSec x" by (simp add: toSec_def)
    then show x: "toSec x \<le> t" using that False toStamp_eq[OF assms(2)] by linarith
    then have "(of_nat x :: rat) \<le> t * 10 ^ 9" by (simp add: toSec_def field_simps)
    then have "(of_nat x :: rat) < of_nat (Suc n)" using toStamp_eq[OF assms(2)] by simp
    then show "x \<le> n" unfolding of_nat_less_iff by simp
  qed
  have o: "\<forall>x \<in> set (prop_imu_buffer m). im_stamp x \<le> n \<and> toSec (im_stamp x) \<le> t" "toSec n \<le> t"
    using assms(1) le toStamp_toSec_le[OF assms(2)] by (simp_all add: prop_ok_def)
  define b where "b = (if imu_need_init m then prop_imu_buffer m else prop_imu_buffer m @ [i\<lparr>im_stamp := n\<rparr>])"
  have e: "push_imu t (i\<lparr>im_stamp := n\<rparr>) m = (let m1 = m\<lparr>last_timestamp_imu := t, imu_buffer := imu_buffer m @ [i\<lparr>im_stamp := n\<rparr>]\<rparr> in
      if imu_prop_enable m then m1\<lparr>prop_imu_buffer := b, newest_imu := Some (i\<lparr>im_stamp := n\<rparr>), new_imu := True\<rparr> else m1)"
    unfolding push_imu_def b_def[symmetric] using False by (simp only: if_False)
  have b: "sorted (map im_stamp b)" "\<forall>x \<in> set b. toSec (im_stamp x) \<le> t" "b \<noteq> [] \<Longrightarrow> last b = i\<lparr>im_stamp := n\<rparr> \<and> \<not> imu_need_init m"
    using assms(1) o by (auto simp: b_def prop_ok_def sorted_append)
  show ?thesis
  proof (cases "imu_prop_enable m")
    case True then show ?thesis using b assms(3) unfolding e by (auto simp: prop_ok_def Let_def)
  next
    case False then show ?thesis using assms(1) o unfolding e by (auto simp: prop_ok_def Let_def)
  qed
qed

lemma latch_prop: "prop_ok m \<Longrightarrow> ros_driver_fix_en m \<Longrightarrow> prop_ok (latch t m)"
  by (auto simp: latch_def prop_ok_def)

lemma sample_prop:
  assumes "prop_ok m" "ImuCbk i m = Inr m'"
  shows "prop_ok m'"
proof (cases "last_timestamp_lidar m < 0")
  case True then show ?thesis using assms by (simp add: ImuCbk_def)
next
  case False
  obtain n where "toStamp (toSec (im_stamp i) - imu_time_offset m) = Inr n"
    using assms(2) False by (auto simp: ImuCbk_def bindR_eq_Inr)
  then have e: "Inr m' = (let t = toSec n; m1 = (if ros_driver_fix_en m then latch t m else m);
         t' = (if ros_driver_fix_en m then t + latched_offset m1 else t) in
     if ros_driver_fix_en m \<and> \<not> offset_latched m1 then Inr m1
     else bindR (toStamp t') (\<lambda>n'. Inr (push_imu t' (i\<lparr>im_stamp := n'\<rparr>) m1)))"
    using assms(2) False by (simp add: ImuCbk_def)
  define m1 where "m1 = (if ros_driver_fix_en m then latch (toSec n) m else m)"
  define t' where "t' = (if ros_driver_fix_en m then toSec n + latched_offset m1 else toSec n)"
  have e: "Inr m' = (if ros_driver_fix_en m \<and> \<not> offset_latched m1 then Inr m1
     else bindR (toStamp t') (\<lambda>n'. Inr (push_imu t' (i\<lparr>im_stamp := n'\<rparr>) m1)))"
    using e unfolding Let_def m1_def[symmetric] t'_def[symmetric] .
  have "ros_driver_fix_en (latch t m) = ros_driver_fix_en m" for t by (simp add: latch_def)
  then have m1: "prop_ok m1" "ros_driver_fix_en m1 = ros_driver_fix_en m"
    using assms(1) latch_prop[OF assms(1)] by (simp_all add: m1_def)
  consider "m' = m1" | n' where "toStamp t' = Inr n'" "m' = push_imu t' (i\<lparr>im_stamp := n'\<rparr>) m1" "\<not> (ros_driver_fix_en m \<and> \<not> offset_latched m1)"
    using e[symmetric] by (auto simp: bindR_eq_Inr split: if_splits)
  then show ?thesis
  proof cases
    case 2 then show ?thesis using push_imu_prop[OF m1(1)] m1(2) by auto
  qed (use m1 in simp)
qed

section \<open>The invariant of the program\<close>

definition system_ok :: "'i system \<Rightarrow> bool" where
  "system_ok y = (buffers_ok (sy_mapper y) \<and> prop_ok (sy_mapper y) \<and> imu_need_init (sy_mapper y) = need_init (sy_imu y))"

lemma init_once:
  assumes "ImuProcess_Process L lm s pts p = Inr (pts', lm', s', p')" "\<not> need_init p"
  shows "\<not> need_init p'"
proof -
  have u: "UndistortPcl L lm s p = Inr (pts', lm', s', p')" "measures lm \<noteq> []" using assms by (auto simp: ImuProcess_Process_def split: if_splits)
  show ?thesis using u assms(2) unfolding UndistortPcl_def Let_def
    by (simp only: if_False bindR_eq_Inr, elim exE conjE, cases "pcl_proc_cur lm = []") (simp_all only: if_True if_False sum.inject prod.inject, auto)
qed

lemma last_dropWhile: "dropWhile P xs \<noteq> [] \<Longrightarrow> last (dropWhile P xs) = last xs"
  by (induction xs) (auto split: if_splits)

lemma sorted_dropWhile_stamp: "sorted (map im_stamp xs) \<Longrightarrow> sorted (map im_stamp (dropWhile P xs))"
  by (induction xs) auto

lemma prop_ok_drop:
  assumes "prop_ok m"
  shows "prop_ok (m\<lparr>prop_imu_buffer := dropWhile P (prop_imu_buffer m)\<rparr>)" "prop_ok (m\<lparr>new_imu := b\<rparr>)"
  using assms set_dropWhileD[of _ P "prop_imu_buffer m"] last_dropWhile[of P "prop_imu_buffer m"] sorted_dropWhile_stamp[of "prop_imu_buffer m" P]
  by (auto simp: prop_ok_def)

lemma buffers_ok_prop: "buffers_ok (m\<lparr>prop_imu_buffer := b\<rparr>) = buffers_ok m" "buffers_ok (m\<lparr>new_imu := c\<rparr>) = buffers_ok m"
  by (simp_all add: buffers_ok_def)

lemma prop_state_mapper:
  assumes "prop_state E y = Inr y'"
  shows "sy_mapper y' = (if sy_ekf_update y then (sy_mapper y)\<lparr>prop_imu_buffer := dropWhile (\<lambda>i. toSec (im_stamp i) < sy_ekf_time y) (prop_imu_buffer (sy_mapper y))\<rparr>
      else sy_mapper y)" "sy_imu y' = sy_imu y"
proof -
  have "(\<exists>s t. y' = y\<lparr>sy_imu_prop := s, sy_last_t := t, sy_ekf_update := False, sy_mapper := (sy_mapper y)\<lparr>prop_imu_buffer :=
      dropWhile (\<lambda>i. toSec (im_stamp i) < sy_ekf_time y) (prop_imu_buffer (sy_mapper y))\<rparr>\<rparr>)" if "sy_ekf_update y"
    using assms that unfolding prop_state_def Let_def by (simp only: if_True bindR_eq_Inr) (auto simp: eq_commute[of _ y'])
  moreover have "(\<exists>s t. y' = y\<lparr>sy_imu_prop := s, sy_last_t := t\<rparr>)" if "\<not> sy_ekf_update y"
    using assms that unfolding prop_state_def Let_def by (simp only: if_False bindR_eq_Inr) (auto simp: eq_commute[of _ y'])
  ultimately show "sy_mapper y' = (if sy_ekf_update y then (sy_mapper y)\<lparr>prop_imu_buffer := dropWhile (\<lambda>i. toSec (im_stamp i) < sy_ekf_time y) (prop_imu_buffer (sy_mapper y))\<rparr>
      else sy_mapper y)" "sy_imu y' = sy_imu y" by (cases "sy_ekf_update y"; force)+
qed

lemma timer_branches:
  "(if a then Inr y else if b then bindR r (\<lambda>v. Inr (f v)) else Inr z) = Inr x \<Longrightarrow> x = y \<or> x = z \<or> (\<exists>v. r = Inr v \<and> x = f v)"
  by (cases r) (auto split: if_splits)

lemma timer_system:
  assumes "system_ok y" "ImuPropCallback E y = Inr y'"
  shows "system_ok y'"
proof -
  define y1 where "y1 = y\<lparr>sy_mapper := (sy_mapper y)\<lparr>new_imu := False\<rparr>\<rparr>"
  have 1: "system_ok y1" using assms(1) prop_ok_drop(2) by (auto simp: system_ok_def y1_def buffers_ok_prop)
  consider "y' = y" | "y' = y1" | y2 where "prop_state E y1 = Inr y2" "y' = publish_prop E y2"
    using timer_branches[OF assms(2)[unfolded ImuPropCallback_def Let_def y1_def[symmetric]]] by auto
  then show ?thesis
  proof cases
    case 3
    have "system_ok y2" using 1 prop_state_mapper[OF 3(1)] prop_ok_drop(1)[of "sy_mapper y1" "\<lambda>i. toSec (im_stamp i) < sy_ekf_time y1"]
      by (simp add: system_ok_def buffers_ok_prop)
    then show ?thesis unfolding 3(2) by (simp add: system_ok_def publish_prop_def Let_def put_def)
  qed (use 1 assms(1) in simp_all)
qed

lemma turn_system:
  assumes "system_ok y" "Run_once E y = Inr y'"
  shows "system_ok y'"
proof -
  obtain go m where s: "SyncPackages (sy_mapper y) = Inr (go, m)" using assms(2) by (auto simp: Run_once_def bindR_eq_Inr)
  have m: "buffers_ok m" "prop_ok m" "imu_need_init m = need_init (sy_imu y)"
    using assms(1) SyncPackages_buffers[OF _ s] prop_ok_part[OF sync_part[OF s]] sync_part[OF s] by (auto simp: system_ok_def prop_part_def)
  show ?thesis
  proof (cases go)
    case False then show ?thesis using assms s m by (auto simp: Run_once_def system_ok_def)
  next
    case True
    let ?z = "y\<lparr>sy_mapper := HandleFirstFrame m\<rparr>"
    obtain y1 where 1: "ProcessImu E ?z = Inr y1" "StateEstimationAndMapping E y1 = Inr y'"
      using assms(2) s True by (auto simp: Run_once_def bindR_eq_Inr)
    obtain u b where u: "sy_mapper y1 = (HandleFirstFrame m)\<lparr>meas := u, imu_need_init := b\<rparr>" using ProcessImu_fields(4)[OF 1(1)] by auto
    have h: "prop_ok (HandleFirstFrame m)" "imu_need_init (HandleFirstFrame m) = imu_need_init m" "buffers_ok (HandleFirstFrame m)"
      using m prop_ok_part[OF first_part] first_part[of m] by (auto simp: prop_part_def buffers_ok_meas)
    have n: "\<not> imu_need_init m \<Longrightarrow> \<not> b"
    proof -
      assume "\<not> imu_need_init m"
      then have a: "\<not> need_init (sy_imu ?z)" using m(3) by simp
      obtain pts lm s p z where i: "ImuProcess_Process (en_libm (re_lio E)) (meas (sy_mapper ?z)) (sy_state ?z) (sy_undistort ?z) (sy_imu ?z) = Inr (pts, lm, s, p)"
        and z: "z = ?z\<lparr>sy_undistort := pts, sy_mapper := (sy_mapper ?z)\<lparr>meas := lm, imu_need_init := need_init p\<rparr>, sy_state := s, sy_imu := p\<rparr>
          \<or> z = GravityAlignment E (?z\<lparr>sy_undistort := pts, sy_mapper := (sy_mapper ?z)\<lparr>meas := lm, imu_need_init := need_init p\<rparr>, sy_state := s, sy_imu := p\<rparr>)"
        and y1: "y1 = z\<lparr>sy_propagat := sy_state z, sy_lio := (sy_lio z)\<lparr>lio_state := sy_state z\<rparr>\<rparr>"
        using 1(1) by (rule ProcessImu_cases)
      have "imu_need_init (sy_mapper y1) = need_init p" using z by (elim disjE; simp add: y1)
      then show "\<not> b" using init_once[OF i a] u by simp
    qed
    have "prop_ok (sy_mapper y1)" using h n unfolding u by (auto simp: prop_ok_def)
    moreover have "buffers_ok (sy_mapper y1)" using h(3) unfolding u buffers_ok_meas .
    ultimately show ?thesis
      using estimation_fields[OF 1(2)] ProcessImu_fields(5)[OF 1(1)] by (simp add: system_ok_def)
  qed
qed

lemma sample_init: "imu_need_init (latch t m) = imu_need_init m" "imu_need_init (push_imu t i m) = imu_need_init m"
  by (simp_all add: latch_def push_imu_def Let_def)

lemma system_kept: "system_step E S conv y y' \<Longrightarrow> system_ok y \<Longrightarrow> system_ok y'"
proof (induction rule: system_step.induct)
  case (scan st qs y m) then show ?case using scan_step[OF _ scan(1)] scan_part[OF scan(1)] prop_ok_part[OF scan_part[OF scan(1)]] by (auto simp: system_ok_def prop_part_def)
next
  case (livox st k ps y m) then show ?case using livox_step[OF _ livox(1)] livox_part[OF livox(1)] prop_ok_part[OF livox_part[OF livox(1)]] by (auto simp: system_ok_def prop_part_def)
next
  case (sample i y m)
  have "imu_need_init m = imu_need_init (sy_mapper y)" using sample(1) by (cases rule: ImuCbk_cases) (auto simp: sample_init)
  then show ?case using sample(2) sample_step[OF _ sample(1)] sample_prop[OF _ sample(1)] by (simp add: system_ok_def)
next
  case (image st msg y m) then show ?case using image_step[OF _ image(1)] image_part[OF image(1)] prop_ok_part[OF image_part[OF image(1)]] by (auto simp: system_ok_def prop_part_def)
qed (use timer_system turn_system in blast)+

lemma imu_settings_init: "need_init (imu_settings c t R p) = need_init p"
  by (simp add: imu_settings_def Let_def SetImuInitFrameNum_def SetAccBiasCov_def SetGyrBiasCov_def SetInvExpoCov_def SetAccCovScale_def SetGyrCovScale_def
    SetExtrinsic_def DisableGravityEst_def DisableBiasEst_def DisableExposureEst_def)

lemma new_system_ok: "need_init p0 \<Longrightarrow> system_ok (new_system E m_pi unset c s v t R p0)"
  by (simp add: system_ok_def new_system_def start_mapper_def new_mapper_def buffers_ok_def prop_ok_def imu_settings_init)

text \<open>
  C2 system_buffers: from the constructor on, whatever messages, ticks of the timer and
  turns of the loop come in whatever order, the buffers stay consistent and in order,
  the samples kept for the odometry are in order with the newest as the last, and what
  the callbacks see of the initialisation agrees with it.
\<close>

theorem system_buffers:
  assumes "LIVMapper E load m_pi unset given s0 (ImuProcess a b) = Inr y0" "(system_step E S conv)\<^sup>*\<^sup>* y0 y"
  shows "buffers_ok (sy_mapper y) \<and> prop_ok (sy_mapper y) \<and> imu_need_init (sy_mapper y) = need_init (sy_imu y)"
proof -
  obtain c s v t R where "y0 = new_system E m_pi unset c s v t R (ImuProcess a b)"
    using assms(1) unfolding LIVMapper_def by (auto simp: bindR_eq_Inr simp del: vec_from_array.simps)
  moreover have "need_init (ImuProcess a b)" by (simp add: ImuProcess_def)
  ultimately have "system_ok y0" using new_system_ok by blast
  with assms(2) have "system_ok y" by (induction rule: rtranclp_induct) (use system_kept in blast)+
  then show ?thesis by (simp add: system_ok_def)
qed

lemma system_buffers_witness:
  "\<exists>y0 y. LIVMapper plain_run_env (\<lambda>f. Inr ()) 3 (0, (0, 0, 0)) mid360 still_pre (ImuProcess 0 0) = Inr y0 \<and> ImuPropCallback plain_run_env y0 = Inr y \<and> prop_ok (sy_mapper y)"
proof -
  obtain c s v t R where c: "configure mid360 still_pre = Inr (c, s, v)" "vec_from_array (rc_extrin_T c) = Inr t" "mat_from_array (rc_extrin_R c) = Inr R"
    using configure_mid360[of still_pre] by blast
  let ?y = "new_system plain_run_env 3 (0, (0, 0, 0)) c s v t R (ImuProcess 0 0)"
  have l: "LIVMapper plain_run_env (\<lambda>f. Inr ()) 3 (0, (0, 0, 0)) mid360 still_pre (ImuProcess 0 0) = Inr ?y"
    using c by (simp add: LIVMapper_def)
  have t: "ImuPropCallback plain_run_env ?y = Inr ?y"
    by (simp add: ImuPropCallback_def new_system_def imu_settings_init ImuProcess_def)
  have "(system_step plain_run_env S conv)\<^sup>*\<^sup>* ?y ?y" for S and conv :: "unit \<Rightarrow> nat res"
    by (rule r_into_rtranclp) (rule system_step.timer[OF t])
  from system_buffers[OF l this] l t show ?thesis by blast
qed

section \<open>Odometry at the rate of the inertial sensor\<close>

lemma foldR_prop_time:
  "foldR (prop_to L p ekf) xs (s, t0) = Inr (s', t) \<Longrightarrow> t = (if xs = [] then t0 else toSec (im_stamp (last xs)) - ekf)"
proof (induction xs arbitrary: s t0)
  case (Cons x xs)
  then obtain st1 where 1: "prop_to L p ekf x (s, t0) = Inr st1" "foldR (prop_to L p ekf) xs st1 = Inr (s', t)"
    by (auto simp: bindR_eq_Inr)
  then obtain s1 where "st1 = (s1, toSec (im_stamp x) - ekf)" by (auto simp: prop_to_def Let_def bindR_eq_Inr)
  then have "foldR (prop_to L p ekf) xs (s1, toSec (im_stamp x) - ekf) = Inr (s', t)" using 1(2) by simp
  from Cons.IH[OF this] show ?case by simp
qed simp

text \<open>Only a mean norm of zero makes the step fail, and then it is a division by zero.\<close>

lemma prop_total:
  assumes "imu_mean_acc_norm p \<noteq> 0"
  shows "\<exists>s t. foldR (prop_to L p ekf) xs st = Inr (s, t)"
proof (induction xs arbitrary: st)
  case (Cons x xs)
  obtain st1 where "prop_to L p ekf x st = Inr st1" using assms by (cases st) (simp add: prop_to_def PropImuOnce_def Let_def)
  then show ?case using Cons by simp
qed (cases st, simp)

lemma timer_total:
  assumes "imu_mean_acc_norm (sy_imu y) \<noteq> 0"
  shows "\<exists>y'. ImuPropCallback E y = Inr y'"
proof -
  have "\<exists>y2. prop_state E z = Inr y2" if "sy_imu z = sy_imu y" for z
  proof -
    have n: "imu_mean_acc_norm (sy_imu z) \<noteq> 0" using assms that by simp
    obtain s t where 1: "foldR (prop_to (en_libm (re_lio E)) (sy_imu z) (sy_ekf_time z)) (dropWhile (\<lambda>i. toSec (im_stamp i) < sy_ekf_time z) (prop_imu_buffer (sy_mapper z)))
        (sy_ekf_state z, 0) = Inr (s, t)" using prop_total[OF n] by blast
    obtain s' t' where 2: "foldR (prop_to (en_libm (re_lio E)) (sy_imu z) (sy_ekf_time z)) [newest (sy_mapper z)] (sy_imu_prop z, sy_last_t z) = Inr (s', t')"
      using prop_total[OF n] by blast
    have 2: "prop_to (en_libm (re_lio E)) (sy_imu z) (sy_ekf_time z) (newest (sy_mapper z)) (sy_imu_prop z, sy_last_t z) = Inr (s', t')"
      using 2 by (simp add: bindR_eq_Inr)
    show ?thesis unfolding prop_state_def Let_def 1 2 by simp
  qed
  from this[of "y\<lparr>sy_mapper := (sy_mapper y)\<lparr>new_imu := False\<rparr>\<rparr>"]
  obtain y2 where "prop_state E (y\<lparr>sy_mapper := (sy_mapper y)\<lparr>new_imu := False\<rparr>\<rparr>) = Inr y2" by auto
  then show ?thesis by (simp add: ImuPropCallback_def Let_def)
qed

lemma dropWhile_sorted_filter:
  "sorted (map im_stamp xs) \<Longrightarrow> dropWhile (\<lambda>i. toSec (im_stamp i) < t) xs = filter (\<lambda>i. t \<le> toSec (im_stamp i)) xs"
proof (induction xs)
  case (Cons x xs)
  show ?case
  proof (cases "toSec (im_stamp x) < t")
    case False
    have "\<forall>i \<in> set xs. t \<le> toSec (im_stamp i)"
    proof
      fix i assume "i \<in> set xs"
      then have "toSec (im_stamp x) \<le> toSec (im_stamp i)" using Cons.prems toSec_mono by simp
      then show "t \<le> toSec (im_stamp i)" using False by linarith
    qed
    then show ?thesis using False by simp
  qed (use Cons in simp)
qed simp

text \<open>
  C10 imu_odometry_time: a tick with a new sample, while the buffer of samples is not empty,
  publishes one pose with the stamp of the newest sample.  At the first tick after
  an update of the filter the pose is the filter's state propagated through
  exactly the samples not older than it; the time it belongs to is the stamp, except that
  it is the filter's own time when all samples are older.  At the ticks between two
  updates the last pose is propagated with the newest sample alone, over the whole time
  since the last tick, whatever other samples came in between; its time is the stamp.
\<close>

theorem imu_odometry_time:
  assumes "ImuPropCallback E y = Inr y'" "buffers_ok (sy_mapper y) \<and> prop_ok (sy_mapper y) \<and> imu_need_init (sy_mapper y) = need_init (sy_imu y)"
    "\<not> need_init (sy_imu y)" "new_imu (sy_mapper y)" "sy_ekf_once y" "rc_imu_prop (sy_cfg y)" "prop_imu_buffer (sy_mapper y) \<noteq> []"
  shows "(let i = last (prop_imu_buffer (sy_mapper y)); late = filter (\<lambda>i. sy_ekf_time y \<le> toSec (im_stamp i)) (prop_imu_buffer (sy_mapper y)) in
    sy_ekf_time y + sy_last_t y' = (if sy_ekf_update y \<and> late = [] then sy_ekf_time y else toSec (im_stamp i))
    \<and> (sy_ekf_update y \<longrightarrow> foldR (prop_to (en_libm (re_lio E)) (sy_imu y) (sy_ekf_time y)) late (sy_ekf_state y, 0) = Inr (sy_imu_prop y', sy_last_t y'))
    \<and> (\<not> sy_ekf_update y \<longrightarrow> prop_to (en_libm (re_lio E)) (sy_imu y) (sy_ekf_time y) i (sy_imu_prop y, sy_last_t y) = Inr (sy_imu_prop y', sy_last_t y'))
    \<and> sy_odom_stamp y' = im_stamp i \<and> \<not> new_imu (sy_mapper y') \<and> \<not> sy_ekf_update y'
    \<and> (\<exists>q tf. sy_out y' = sy_out y @ [ImuOdometry (im_stamp i) (pos_end (sy_imu_prop y')) q (vel_end (sy_imu_prop y')), Transforms (im_stamp i) tf, Clock (im_stamp i)]))"
proof -
  let ?m = "sy_mapper y"
  define y1 where "y1 = y\<lparr>sy_mapper := ?m\<lparr>new_imu := False\<rparr>\<rparr>"
  define late where "late = filter (\<lambda>i. sy_ekf_time y \<le> toSec (im_stamp i)) (prop_imu_buffer ?m)"
  obtain y2 where 2: "prop_state E y1 = Inr y2" "y' = publish_prop E y2"
    using assms(1,3-7) by (auto simp: ImuPropCallback_def y1_def Let_def bindR_eq_Inr)
  have p: "sorted (map im_stamp (prop_imu_buffer ?m))" "newest ?m = last (prop_imu_buffer ?m)"
    using assms(2,7) by (auto simp: prop_ok_def newest_def)
  have d: "dropWhile (\<lambda>i. toSec (im_stamp i) < sy_ekf_time y) (prop_imu_buffer ?m) = late"
    unfolding late_def by (rule dropWhile_sorted_filter[OF p(1)])
  have l: "last late = last (prop_imu_buffer ?m)" if "late \<noteq> []" using last_dropWhile[of "\<lambda>i. toSec (im_stamp i) < sy_ekf_time y"] that d by metis
  have n: "newest (sy_mapper y2) = last (prop_imu_buffer ?m)" "\<not> new_imu (sy_mapper y2)"
    using prop_state_mapper(1)[OF 2(1)] p(2) by (simp_all add: y1_def newest_def)
  have o: "sy_out y2 = sy_out y" "\<not> sy_ekf_update y2" using 2(1) by (auto simp: prop_state_def Let_def bindR_eq_Inr y1_def split: if_splits)
  have t: "sy_ekf_time y + sy_last_t y2 = (if sy_ekf_update y \<and> late = [] then sy_ekf_time y else toSec (im_stamp (last (prop_imu_buffer ?m))))
      \<and> (sy_ekf_update y \<longrightarrow> foldR (prop_to (en_libm (re_lio E)) (sy_imu y) (sy_ekf_time y)) late (sy_ekf_state y, 0) = Inr (sy_imu_prop y2, sy_last_t y2))
      \<and> (\<not> sy_ekf_update y \<longrightarrow> prop_to (en_libm (re_lio E)) (sy_imu y) (sy_ekf_time y) (last (prop_imu_buffer ?m)) (sy_imu_prop y, sy_last_t y)
          = Inr (sy_imu_prop y2, sy_last_t y2))"
  proof (cases "sy_ekf_update y")
    case True
    obtain s t where f: "foldR (prop_to (en_libm (re_lio E)) (sy_imu y) (sy_ekf_time y)) late (sy_ekf_state y, 0) = Inr (s, t)"
      "sy_imu_prop y2 = s" "sy_last_t y2 = t"
      using 2(1) True by (auto simp: prop_state_def Let_def bindR_eq_Inr y1_def d)
    show ?thesis using foldR_prop_time[OF f(1)] True l f by auto
  next
    case False
    obtain s t where "prop_to (en_libm (re_lio E)) (sy_imu y) (sy_ekf_time y) (newest ?m) (sy_imu_prop y, sy_last_t y) = Inr (s, t)" "sy_last_t y2 = t" "sy_imu_prop y2 = s"
      using 2(1) False by (auto simp: prop_state_def Let_def bindR_eq_Inr y1_def newest_def)
    then show ?thesis using False p(2) by (auto simp: prop_to_def Let_def bindR_eq_Inr)
  qed
  show ?thesis using t n o unfolding Let_def late_def[symmetric] 2(2) by (simp add: publish_prop_def put_def Let_def del: split_paired_Ex)
qed

text \<open>A mapper between two scans: the filter is at 0.75 s, the samples at 0.5 s and one second.\<close>

definition propagating :: "nat system" where
  "propagating = plain_system\<lparr>sy_mapper := (new_mapper ONLY_LIO still_pre)\<lparr>prop_imu_buffer := [sample_at 500000000, sample_at 1000000000],
      newest_imu := Some (sample_at 1000000000), new_imu := True, last_timestamp_imu := 1, imu_need_init := False\<rparr>,
    sy_imu := (ImuProcess 1 0)\<lparr>need_init := False\<rparr>, sy_ekf_once := True, sy_ekf_update := True, sy_ekf_time := 3 / 4\<rparr>"

lemma imu_odometry_time_witness:
  "\<exists>y'. ImuPropCallback plain_run_env propagating = Inr y' \<and> 3 / 4 + sy_last_t y' = 1 \<and> sy_odom_stamp y' = 1000000000"
proof -
  have f: "buffers_ok (sy_mapper propagating) \<and> prop_ok (sy_mapper propagating) \<and> imu_need_init (sy_mapper propagating) = need_init (sy_imu propagating)"
    "\<not> need_init (sy_imu propagating)" "new_imu (sy_mapper propagating)" "sy_ekf_once propagating" "rc_imu_prop (sy_cfg propagating)"
    "prop_imu_buffer (sy_mapper propagating) = [sample_at 500000000, sample_at 1000000000]" "sy_ekf_time propagating = 3 / 4"
    by (simp_all add: propagating_def buffers_ok_def prop_ok_def new_mapper_def plain_system_def new_system_def plain_run_def sample_at_def toSec_def)
  have "imu_mean_acc_norm (sy_imu propagating) \<noteq> 0" by (simp add: propagating_def ImuProcess_def)
  then obtain y' where y': "ImuPropCallback plain_run_env propagating = Inr y'" using timer_total by blast
  show ?thesis using imu_odometry_time[OF y' f(1-5)] y' f(6,7) by (simp add: Let_def sample_at_def toSec_def) 
qed

end
