(* ===== verification/Visual_Image.thy ===== *)
theory Visual_Image
  imports Lio_Estimate
begin

text \<open>
  Cameras, images and patches of the visual part (edge/src/FAST-LIVO2/src/vio.cpp with
  the camera models and image functions it uses from vikit_common): projection,
  interpolation, warping of a patch from one view to another, corner scores and
  correlation.  Numbers are exact rationals, so float and double coincide; a
  division by zero is an error value.
\<close>

section \<open>Poses\<close>

text \<open>
  Sophus keeps a rotation as a unit quaternion; here it is the matrix the quaternion
  is made from.
\<close>

type_synonym se3 = "mat3 \<times> vec"

fun se3_apply :: "se3 \<Rightarrow> vec \<Rightarrow> vec" where
  "se3_apply (R, t) x = vadd (m3_vec R x) t"

fun se3_mul :: "se3 \<Rightarrow> se3 \<Rightarrow> se3" where
  "se3_mul (R, t) (S, u) = (m3_mul R S, vadd (m3_vec R u) t)"

fun se3_inverse :: "se3 \<Rightarrow> se3" where
  "se3_inverse (R, t) = (m3_T R, vscale (- 1) (m3_vec (m3_T R) t))"

section \<open>Cameras\<close>

type_synonym px = "rat \<times> rat"

fun px_add :: "px \<Rightarrow> px \<Rightarrow> px" where "px_add (a, b) (x, y) = (a + x, b + y)"
fun px_sub :: "px \<Rightarrow> px \<Rightarrow> px" where "px_sub (a, b) (x, y) = (a - x, b - y)"
fun px_scale :: "rat \<Rightarrow> px \<Rightarrow> px" where "px_scale s (x, y) = (s * x, s * y)"

text \<open>What the program calls of a camera model (vk::AbstractCamera).\<close>

record camera =
  cam_width :: int
  cam_height :: int
  cam_scale :: rat
  cam_fx :: rat
  cam_fy :: rat
  cam_cx :: rat
  cam_cy :: rat
  world2cam :: "vec \<Rightarrow> px res"
  cam2world :: "px \<Rightarrow> vec res"

definition isInFrame :: "camera \<Rightarrow> int \<times> int \<Rightarrow> int \<Rightarrow> bool" where
  "isInFrame c obs boundary = (boundary \<le> fst obs \<and> fst obs < cam_width c - boundary \<and> boundary \<le> snd obs \<and> snd obs < cam_height c - boundary)"

text \<open>The conversion of a floating-point number to int.\<close>

definition to_int :: "rat \<Rightarrow> int res" where
  "to_int r = (let i = truncate_rat r in if - (2 ^ 31) \<le> i \<and> i < 2 ^ 31 then Inr i else Inl Undefined)"

fun px_int :: "px \<Rightarrow> (int \<times> int) res" where
  "px_int (u, v) = bindR (to_int u) (\<lambda>i. bindR (to_int v) (\<lambda>j. Inr (i, j)))"

text \<open>The pinhole camera; the width and the height are truncated.\<close>

record pinhole_camera =
  ph_width :: int
  ph_height :: int
  ph_scale :: rat
  ph_fx :: rat
  ph_fy :: rat
  ph_cx :: rat
  ph_cy :: rat
  ph_distortion :: bool
  ph_d :: "rat \<times> rat \<times> rat \<times> rat \<times> rat"

definition PinholeCamera :: "rat \<Rightarrow> rat \<Rightarrow> rat \<Rightarrow> rat \<Rightarrow> rat \<Rightarrow> rat \<Rightarrow> rat \<Rightarrow> rat \<times> rat \<times> rat \<times> rat \<times> rat \<Rightarrow> pinhole_camera res" where
  "PinholeCamera width height scale fx fy cx cy d = bindR (to_int (width * scale)) (\<lambda>w. bindR (to_int (height * scale)) (\<lambda>h.
     Inr \<lparr>ph_width = w, ph_height = h, ph_scale = scale, ph_fx = fx * scale, ph_fy = fy * scale, ph_cx = cx * scale, ph_cy = cy * scale,
       ph_distortion = (1 / 10000000 < \<bar>fst d\<bar>), ph_d = d\<rparr>))"

fun project2d :: "vec \<Rightarrow> px res" where
  "project2d (x, y, z) = (if z = 0 then Inl DivByZero else Inr (x / z, y / z))"

definition normalized :: "libm \<Rightarrow> vec \<Rightarrow> vec" where
  "normalized L v = (let n = norm3 L v in if 0 < n then vscale (1 / n) v else v)"

fun pinhole_uv :: "pinhole_camera \<Rightarrow> px \<Rightarrow> px" where
  "pinhole_uv c (x, y) = (if \<not> ph_distortion c then (ph_fx c * x + ph_cx c, ph_fy c * y + ph_cy c)
     else case ph_d c of (d0, d1, d2, d3, d4) \<Rightarrow> let r2 = x * x + y * y; r4 = r2 * r2; r6 = r4 * r2; a1 = 2 * x * y; a2 = r2 + 2 * x * x; a3 = r2 + 2 * y * y;
       cdist = 1 + d0 * r2 + d1 * r4 + d4 * r6; xd = x * cdist + d2 * a1 + d3 * a2; yd = y * cdist + d2 * a3 + d3 * a1 in
       (xd * ph_fx c + ph_cx c, yd * ph_fy c + ph_cy c))"

definition pinhole_world2cam :: "pinhole_camera \<Rightarrow> vec \<Rightarrow> px res" where
  "pinhole_world2cam c v = bindR (project2d v) (\<lambda>p. Inr (pinhole_uv c p))"

text \<open>undistortPoints of OpenCV is an argument.\<close>

fun pinhole_cam2world :: "libm \<Rightarrow> (pinhole_camera \<Rightarrow> px \<Rightarrow> px) \<Rightarrow> pinhole_camera \<Rightarrow> px \<Rightarrow> vec res" where
  "pinhole_cam2world L undistortPoints c (u, v) = (if \<not> ph_distortion c
     then if ph_fx c = 0 \<or> ph_fy c = 0 then Inl DivByZero else Inr (normalized L ((u - ph_cx c) / ph_fx c, (v - ph_cy c) / ph_fy c, 1))
     else case undistortPoints c (u, v) of (x, y) \<Rightarrow> Inr (normalized L (x, y, 1)))"

definition pinhole_as_camera :: "libm \<Rightarrow> (pinhole_camera \<Rightarrow> px \<Rightarrow> px) \<Rightarrow> pinhole_camera \<Rightarrow> camera" where
  "pinhole_as_camera L undistortPoints c = \<lparr>cam_width = ph_width c, cam_height = ph_height c, cam_scale = ph_scale c, cam_fx = ph_fx c, cam_fy = ph_fy c,
     cam_cx = ph_cx c, cam_cy = ph_cy c, world2cam = pinhole_world2cam c, cam2world = pinhole_cam2world L undistortPoints c\<rparr>"

section \<open>Images\<close>

text \<open>A grey image, its rows one after the other; reading outside of it is an error.\<close>

record image =
  im_cols :: int
  im_rows :: int
  im_data :: "u8 list"

definition pixel :: "image \<Rightarrow> int \<Rightarrow> rat res" where
  "pixel img i = (if 0 \<le> i \<and> i < int (length (im_data img)) then Inr (of_nat (unat (im_data img ! nat i))) else Inl OutOfBounds)"

fun mapR :: "('a \<Rightarrow> 'b res) \<Rightarrow> 'a list \<Rightarrow> 'b list res" where
  "mapR f [] = Inr []"
| "mapR f (x # xs) = bindR (f x) (\<lambda>y. bindR (mapR f xs) (\<lambda>ys. Inr (y # ys)))"

text \<open>
  The weights of the four pixels around a place, and the pixel they start from, for
  pixels that are scale apart.
\<close>

type_synonym weights = "rat \<times> rat \<times> rat \<times> rat"

definition base :: "int \<Rightarrow> rat \<Rightarrow> int" where
  "base scale u = \<lfloor>u / of_int scale\<rfloor> * scale"

fun corner_weights :: "int \<Rightarrow> px \<Rightarrow> weights" where
  "corner_weights scale (u, v) = (let su = (u - of_int (base scale u)) / of_int scale; sv = (v - of_int (base scale v)) / of_int scale in
     ((1 - su) * (1 - sv), su * (1 - sv), (1 - su) * sv, su * sv))"

text \<open>The weighted sum of the pixels at an offset, a step to the right, below, and below to the right.\<close>

definition blend :: "image \<Rightarrow> int \<Rightarrow> int \<Rightarrow> weights \<Rightarrow> int \<Rightarrow> rat res" where
  "blend img stride scale w i = (case w of (wa, wb, wc, wd) \<Rightarrow> bindR (pixel img i) (\<lambda>a. bindR (pixel img (i + scale)) (\<lambda>b.
     bindR (pixel img (i + scale * stride)) (\<lambda>c. bindR (pixel img (i + scale * stride + scale)) (\<lambda>d.
       Inr (wa * a + wb * b + wc * c + wd * d))))))"

text \<open>The offset of pixel (x, y) of a patch around a place.\<close>

fun patch_offset :: "int \<Rightarrow> int \<Rightarrow> int \<Rightarrow> px \<Rightarrow> int \<Rightarrow> int \<Rightarrow> int" where
  "patch_offset stride half scale (u, v) x y =
     (base scale v - half * scale + x * scale) * stride + (base scale u - half * scale) + y * scale"

text \<open>The places of a patch, row by row.\<close>

definition patch_cells :: "int \<Rightarrow> (int \<times> int) list" where
  "patch_cells n = concat (map (\<lambda>x. map (\<lambda>y. (x, y)) [0..n - 1]) [0..n - 1])"

text \<open>A write of values into a buffer.\<close>

definition write_at :: "int \<Rightarrow> rat list \<Rightarrow> rat list \<Rightarrow> rat list res" where
  "write_at i vs buf = (if vs = [] then Inr buf else if 0 \<le> i \<and> i + int (length vs) \<le> int (length buf)
     then Inr (take (nat i) buf @ vs @ drop (nat i + length vs) buf) else Inl OutOfBounds)"

record patch_dims =
  patch_size :: int
  patch_size_half :: int
  patch_size_total :: int
  stride_width :: int

definition patch_values :: "patch_dims \<Rightarrow> image \<Rightarrow> px \<Rightarrow> int \<Rightarrow> rat list res" where
  "patch_values d img pc scale = mapR (\<lambda>(x, y). blend img (stride_width d) scale (corner_weights scale pc)
     (patch_offset (stride_width d) (patch_size_half d) scale pc x y)) (patch_cells (patch_size d))"

definition GetImagePatch :: "patch_dims \<Rightarrow> image \<Rightarrow> px \<Rightarrow> rat list \<Rightarrow> nat \<Rightarrow> rat list res" where
  "GetImagePatch d img pc buf level = bindR (patch_values d img pc (2 ^ level)) (\<lambda>vs. write_at (patch_size_total d * int level) vs buf)"

text \<open>vk::interpolateMat_8u.\<close>

fun interpolateMat_8u :: "image \<Rightarrow> px \<Rightarrow> rat res" where
  "interpolateMat_8u img (u, v) = (let x = \<lfloor>u\<rfloor>; y = \<lfloor>v\<rfloor>; sx = u - of_int x; sy = v - of_int y;
     w00 = (1 - sx) * (1 - sy); w01 = (1 - sx) * sy; w10 = sx * (1 - sy); w11 = 1 - w00 - w01 - w10; i = y * im_cols img + x in
     bindR (pixel img i) (\<lambda>a. bindR (pixel img (i + im_cols img)) (\<lambda>b. bindR (pixel img (i + 1)) (\<lambda>c. bindR (pixel img (i + im_cols img + 1)) (\<lambda>d.
       Inr (w00 * a + w01 * b + w10 * c + w11 * d))))))"

text \<open>vk::shiTomasiScore, a patch of eight pixels by eight.\<close>

definition shi_tomasi_sums :: "image \<Rightarrow> int \<Rightarrow> int \<Rightarrow> (rat \<times> rat \<times> rat) res" where
  "shi_tomasi_sums img u v = foldR (\<lambda>(y, x) (xx, yy, xy). let i = (v - 4 + y) * im_cols img + u - 4 + x; s = im_cols img in
     bindR (pixel img (i - 1)) (\<lambda>l. bindR (pixel img (i + 1)) (\<lambda>r. bindR (pixel img (i - s)) (\<lambda>t. bindR (pixel img (i + s)) (\<lambda>b.
       Inr (xx + (r - l) * (r - l), yy + (b - t) * (b - t), xy + (r - l) * (b - t))))))) (patch_cells 8) (0, 0, 0)"

definition shiTomasiScore :: "libm \<Rightarrow> image \<Rightarrow> int \<Rightarrow> int \<Rightarrow> rat res" where
  "shiTomasiScore L img u v = (if u - 4 < 1 \<or> im_cols img - 1 \<le> u + 4 \<or> v - 4 < 1 \<or> im_rows img - 1 \<le> v + 4 then Inr 0
     else bindR (shi_tomasi_sums img u v) (\<lambda>(xx, yy, xy). let a = xx / 128; b = yy / 128; c = xy / 128 in
       Inr (1 / 2 * (a + b - l_sqrt L ((a + b) * (a + b) - 4 * (a * b - c * c))))))"

section \<open>Projection and warping\<close>

type_synonym mat2 = "(rat \<times> rat) \<times> (rat \<times> rat)"

definition ComputeProjectionJacobian :: "rat \<Rightarrow> rat \<Rightarrow> vec \<Rightarrow> (vec \<times> vec) res" where
  "ComputeProjectionJacobian fx fy p = (case p of (x, y, z) \<Rightarrow> if z = 0 then Inl DivByZero
     else let zi = 1 / z in Inr ((fx * zi, 0, - fx * x * (zi * zi)), (0, fy * zi, - fy * y * (zi * zi))))"

fun m2_det :: "mat2 \<Rightarrow> rat" where "m2_det ((a, b), (c, d)) = a * d - b * c"
fun m2_vec :: "mat2 \<Rightarrow> px \<Rightarrow> px" where "m2_vec ((a, b), (c, d)) (x, y) = (a * x + b * y, c * x + d * y)"

fun m2_inverse :: "mat2 \<Rightarrow> mat2" where
  "m2_inverse ((a, b), (c, d)) = (let D = a * d - b * c in ((d / D, - b / D), (- c / D, a / D)))"

text \<open>The matrix with two given columns.\<close>

fun m2_cols :: "px \<Rightarrow> px \<Rightarrow> mat2" where "m2_cols (a, c) (b, d) = ((a, b), (c, d))"

text \<open>The homography of a plane with a given normal through a point, both in the reference frame.\<close>

definition homography :: "vec \<Rightarrow> vec \<Rightarrow> se3 \<Rightarrow> mat3" where
  "homography xyz_ref normal_ref T = (case snd (se3_inverse T) of (tx, ty, tz) \<Rightarrow>
     m3_mul (fst T) (m3_add (m3_scale (vdot normal_ref xyz_ref) m3_id)
       (vscale (- tx) normal_ref, vscale (- ty) normal_ref, vscale (- tz) normal_ref)))"

definition GetWarpMatrixAffineHomography :: "camera \<Rightarrow> px \<Rightarrow> vec \<Rightarrow> vec \<Rightarrow> se3 \<Rightarrow> nat \<Rightarrow> mat2 res" where
  "GetWarpMatrixAffineHomography c px_ref xyz_ref normal_ref T level = (let H = homography xyz_ref normal_ref T; k = 4 * 2 ^ level in
     bindR (cam2world c (px_add px_ref (k, 0))) (\<lambda>f_du. bindR (cam2world c (px_add px_ref (0, k))) (\<lambda>f_dv.
     bindR (world2cam c (m3_vec H xyz_ref)) (\<lambda>p. bindR (world2cam c (m3_vec H f_du)) (\<lambda>du. bindR (world2cam c (m3_vec H f_dv)) (\<lambda>dv.
       Inr (m2_cols (px_scale (1 / 4) (px_sub du p)) (px_scale (1 / 4) (px_sub dv p)))))))))"

definition GetWarpMatrixAffine :: "camera \<Rightarrow> px \<Rightarrow> vec \<Rightarrow> rat \<Rightarrow> se3 \<Rightarrow> nat \<Rightarrow> nat \<Rightarrow> int \<Rightarrow> mat2 res" where
  "GetWarpMatrixAffine c px_ref f_ref depth_ref T level pyramid half = (let xyz = vscale depth_ref f_ref; k = of_int half * 2 ^ level * 2 ^ pyramid in
     bindR (cam2world c (px_add px_ref (k, 0))) (\<lambda>du0. bindR (cam2world c (px_add px_ref (0, k))) (\<lambda>dv0.
     if component du0 2 = 0 \<or> component dv0 2 = 0 \<or> half = 0 then Inl DivByZero
     else bindR (world2cam c (se3_apply T xyz)) (\<lambda>p.
       bindR (world2cam c (se3_apply T (vscale (component xyz 2 / component du0 2) du0))) (\<lambda>du.
       bindR (world2cam c (se3_apply T (vscale (component xyz 2 / component dv0 2) dv0))) (\<lambda>dv.
         Inr (m2_cols (px_scale (1 / of_int half) (px_sub du p)) (px_scale (1 / of_int half) (px_sub dv p))))))))) "

text \<open>
  A patch of the reference image as it is seen now.  A singular matrix makes the
  first entry of the inverse 0/0 or an infinity; the first is caught.
\<close>

fun warped_value :: "mat2 \<Rightarrow> image \<Rightarrow> px \<Rightarrow> rat \<Rightarrow> int \<Rightarrow> int \<times> int \<Rightarrow> rat res" where
  "warped_value A img (u, v) step half (y, x) = (case m2_vec A (of_int (x - half) * step, of_int (y - half) * step) of (dx, dy) \<Rightarrow>
     let p = (dx + u, dy + v) in
     if fst p < 0 \<or> snd p < 0 \<or> of_int (im_cols img - 1) \<le> fst p \<or> of_int (im_rows img - 1) \<le> snd p then Inr 0
     else interpolateMat_8u img p)"

definition WarpAffine :: "patch_dims \<Rightarrow> mat2 \<Rightarrow> image \<Rightarrow> px \<Rightarrow> nat \<Rightarrow> nat \<Rightarrow> int \<Rightarrow> rat list \<Rightarrow> rat list res" where
  "WarpAffine d A_cur_ref img_ref px_ref search_level pyramid_level half buf =
     (if m2_det A_cur_ref = 0 then if snd (snd A_cur_ref) = 0 then Inr buf else Inl DivByZero
      else bindR (mapR (warped_value (m2_inverse A_cur_ref) img_ref px_ref (2 ^ search_level * 2 ^ pyramid_level) half) (patch_cells (half * 2))) (\<lambda>vs.
        write_at (patch_size_total d * int pyramid_level) vs buf))"

fun search_levels_from :: "nat \<Rightarrow> rat \<Rightarrow> nat" where
  "search_levels_from 0 D = 0"
| "search_levels_from (Suc n) D = (if 3 < D then Suc (search_levels_from n (1 / 4 * D)) else 0)"

definition GetBestSearchLevel :: "mat2 \<Rightarrow> nat \<Rightarrow> nat" where
  "GetBestSearchLevel A max_level = search_levels_from max_level (m2_det A)"

definition mean_of :: "rat list \<Rightarrow> rat" where
  "mean_of xs = sum_list xs / of_nat (length xs)"

definition spread :: "rat list \<Rightarrow> rat" where
  "spread xs = sum_list (map (\<lambda>x. (x - mean_of xs) * (x - mean_of xs)) xs)"

definition CalculateNCC :: "libm \<Rightarrow> rat list \<Rightarrow> rat list \<Rightarrow> rat res" where
  "CalculateNCC L ref cur = (if ref = [] then Inl DivByZero
     else let num = sum_list (map2 (\<lambda>a b. (a - mean_of ref) * (b - mean_of cur)) ref cur); q = l_sqrt L (spread ref * spread cur + 1 / 10 ^ 10) in
     if q = 0 then Inl DivByZero else Inr (num / q))"

text \<open>GetInterpolatedPixel of an image with three bytes for a pixel: blue, green, red.\<close>

fun GetInterpolatedPixel :: "int \<Rightarrow> image \<Rightarrow> px \<Rightarrow> (rat \<times> rat \<times> rat) res" where
  "GetInterpolatedPixel width img (u, v) = (let w = corner_weights 1 (u, v); i = (\<lfloor>v\<rfloor> * width + \<lfloor>u\<rfloor>) * 3;
     channel = (\<lambda>k. case w of (wa, wb, wc, wd) \<Rightarrow> bindR (pixel img (i + k)) (\<lambda>a. bindR (pixel img (i + k + 3)) (\<lambda>b.
       bindR (pixel img (i + k + width * 3)) (\<lambda>c. bindR (pixel img (i + k + width * 3 + 3)) (\<lambda>d. Inr (wa * a + wb * b + wc * c + wd * d)))))) in
     bindR (channel 0) (\<lambda>b. bindR (channel 1) (\<lambda>g. bindR (channel 2) (\<lambda>r. Inr (b, g, r)))))"

section \<open>Poses and projection\<close>

lemma vadd_swap: "vadd (vadd a b) c = vadd a (vadd b c)" "vadd (vscale (- 1) a) a = (0, 0, 0)" "vadd a (vscale (- 1) a) = (0, 0, 0)"
  by (cases a; cases b; cases c; simp)+

lemma m3_vec_lin: "m3_vec R (vadd a b) = vadd (m3_vec R a) (m3_vec R b)" "m3_vec R (vscale k a) = vscale k (m3_vec R a)"
  by (cases R rule: m3_T.cases; cases a; cases b; simp add: algebra_simps)+

lemma se3_inverse_apply:
  assumes "rotation (fst T)"
  shows "se3_apply (se3_inverse T) (se3_apply T x) = x" "se3_apply T (se3_apply (se3_inverse T) x) = x"
proof -
  obtain R t where T: "T = (R, t)" by (cases T)
  have r: "m3_mul R (m3_T R) = m3_id" "m3_mul (m3_T R) R = m3_id" using assms by (simp_all add: T rotation_def)
  show "se3_apply (se3_inverse T) (se3_apply T x) = x"
    by (simp add: T m3_vec_lin m3_vec_mul[symmetric] r vadd_swap)
  show "se3_apply T (se3_apply (se3_inverse T) x) = x"
    by (simp add: T m3_vec_lin m3_vec_mul[symmetric] r vadd_swap)
qed

text \<open>
  projection_roundtrip: without distortion, the direction of a pixel projects to that
  pixel, at whatever depth, and whatever the library's square root is.
\<close>

theorem projection_roundtrip:
  assumes "\<not> ph_distortion c" "pinhole_cam2world L ud c p = Inr f" "s \<noteq> 0"
  shows "pinhole_world2cam c (vscale s f) = Inr p"
proof -
  obtain u v where p: "p = (u, v)" by (cases p)
  have c: "ph_fx c \<noteq> 0" "ph_fy c \<noteq> 0" and f: "f = normalized L ((u - ph_cx c) / ph_fx c, (v - ph_cy c) / ph_fy c, 1)"
    using assms(1,2) by (auto simp: p split: if_splits)
  obtain k where k: "k \<noteq> 0" "f = vscale k ((u - ph_cx c) / ph_fx c, (v - ph_cy c) / ph_fy c, 1)"
  proof (cases "0 < norm3 L ((u - ph_cx c) / ph_fx c, (v - ph_cy c) / ph_fy c, 1)")
    case True then show thesis using that f by (simp only: normalized_def Let_def if_True) (metis less_irrefl zero_eq_1_divide_iff)
  next
    case False then show thesis using that[of 1] f by (simp add: normalized_def Let_def)
  qed
  show ?thesis using k assms(1,3) c by (simp add: pinhole_world2cam_def p)
qed

text \<open>
  jacobian_exact: the Jacobian of the projection gives the movement of the pixel for
  any movement of the point, not only a small one, up to the ratio of the two depths.
\<close>

theorem jacobian_exact:
  assumes "ComputeProjectionJacobian (ph_fx c) (ph_fy c) (x, y, z) = Inr (Ju, Jv)" "\<not> ph_distortion c" "z + dz \<noteq> 0"
    "pinhole_world2cam c (x, y, z) = Inr p" "pinhole_world2cam c (x + dx, y + dy, z + dz) = Inr q"
  shows "px_sub q p = px_scale (z / (z + dz)) (vdot Ju (dx, dy, dz), vdot Jv (dx, dy, dz))"
proof -
  have z: "z \<noteq> 0" and J: "Ju = (ph_fx c / z, 0, - ph_fx c * x * (1 / z * (1 / z)))" "Jv = (0, ph_fy c / z, - ph_fy c * y * (1 / z * (1 / z)))"
    using assms(1) by (auto simp: ComputeProjectionJacobian_def Let_def split: if_splits)
  have pq: "p = (ph_fx c * (x / z) + ph_cx c, ph_fy c * (y / z) + ph_cy c)"
    "q = (ph_fx c * ((x + dx) / (z + dz)) + ph_cx c, ph_fy c * ((y + dy) / (z + dz)) + ph_cy c)"
    using assms(2-5) z by (auto simp: pinhole_world2cam_def)
  have e: "f * ((a + da) / (z + dz)) - f * (a / z) = z / (z + dz) * (f / z * da + - f * a * (1 / z * (1 / z)) * dz)" for f a da :: rat
    using z assms(3) by (simp add: divide_simps) algebra
  show ?thesis using e[of "ph_fx c" x dx] e[of "ph_fy c" y dy] by (simp add: pq J)
qed

definition test_camera :: pinhole_camera where
  "test_camera = \<lparr>ph_width = 640, ph_height = 480, ph_scale = 1, ph_fx = 400, ph_fy = 400, ph_cx = 320, ph_cy = 240, ph_distortion = False, ph_d = (0, 0, 0, 0, 0)\<rparr>"

lemma jacobian_exact_witness:
  "px_sub (520, 855 / 2) (420, 290) = px_scale (4 / (4 + 4)) (vdot (100, 0, - 25) (3, 13 / 4, 4), vdot (0, 100, - (25 / 2)) (3, 13 / 4, 4))"
  by (rule jacobian_exact[where c = test_camera and x = 1 and y = "1 / 2"])
    (simp_all add: test_camera_def pinhole_world2cam_def ComputeProjectionJacobian_def)

lemma projection_roundtrip_witness:
  "pinhole_world2cam test_camera (vscale 3 (projr (pinhole_cam2world triangle_libm (\<lambda>c p. p) test_camera (100, 50)))) = Inr (100, 50)"
  by (rule projection_roundtrip[where L = triangle_libm and ud = "\<lambda>c p. p"]) (simp_all add: test_camera_def)

text \<open>
  C28 homography_plane: the homography takes every point of the plane to a multiple of the
  place the change of pose takes it to, and so to the same pixel.
\<close>

theorem homography_plane:
  assumes "rotation (fst T)" "vdot normal x = vdot normal xyz_ref"
  shows "m3_vec (homography xyz_ref normal T) x = vscale (vdot normal xyz_ref) (se3_apply T x)
    \<and> (vdot normal xyz_ref \<noteq> 0 \<longrightarrow> project2d (m3_vec (homography xyz_ref normal T) x) = project2d (se3_apply T x))"
proof -
  obtain R t where T: "T = (R, t)" by (cases T)
  obtain a b c where n: "normal = (a, b, c)" by (cases normal)
  obtain x1 x2 x3 where x: "x = (x1, x2, x3)" by (cases x)
  define k where "k = vdot normal xyz_ref"
  define u where "u = vscale (- 1) (m3_vec (m3_T R) t)"
  obtain u1 u2 u3 where u': "u = (u1, u2, u3)" by (cases u)
  have k: "a * x1 + b * x2 + c * x3 = k" using assms(2) by (simp add: k_def n x)
  have h: "homography xyz_ref normal T = m3_mul R (m3_add (m3_scale k m3_id) (vscale (- u1) normal, vscale (- u2) normal, vscale (- u3) normal))"
    by (simp add: homography_def T k_def[symmetric] u_def[symmetric] u')
  have "m3_vec (m3_add (m3_scale k m3_id) (vscale (- u1) normal, vscale (- u2) normal, vscale (- u3) normal)) x = vadd (vscale k x) (vscale (- k) u)"
    unfolding u' n x k[symmetric] by (simp add: m3_id_def algebra_simps)
  then have "m3_vec (homography xyz_ref normal T) x = vadd (vscale k (m3_vec R x)) (vscale (- k) (m3_vec R u))"
    unfolding h m3_vec_mul by (simp add: m3_vec_lin)
  moreover have "m3_vec R u = vscale (- 1) t"
    using assms(1) by (simp add: u_def m3_vec_lin m3_vec_mul[symmetric] rotation_def T)
  ultimately have e: "m3_vec (homography xyz_ref normal T) x = vscale k (se3_apply T x)"
    by (cases t; cases "m3_vec R x") (simp add: T algebra_simps)
  have "project2d (vscale k v) = project2d v" if "k \<noteq> 0" for v using that by (cases v) simp
  then show ?thesis using e by (simp add: k_def)
qed

lemma homography_plane_witness:
  "m3_vec (homography (0, 0, 5) (0, 0, 1) (m3_id, (1, 0, 0))) (2, 3, 5) = (15, 15, 25)"
  using homography_plane[of "(m3_id, (1, 0, 0))" "(0, 0, 1)" "(2, 3, 5)" "(0, 0, 5)"] by simp

section \<open>Levels and scores\<close>

lemma search_levels_spec:
  "search_levels_from m D \<le> m \<and> (\<forall>k < search_levels_from m D. 3 * 4 ^ k < D) \<and> (search_levels_from m D < m \<longrightarrow> D \<le> 3 * 4 ^ search_levels_from m D)"
proof (induction m arbitrary: D)
  case (Suc m)
  show ?case
  proof (cases "3 < D")
    case True
    let ?n = "search_levels_from m (1 / 4 * D)"
    note i = Suc[of "1 / 4 * D"]
    have "3 * 4 ^ k < D" if k: "k < Suc ?n" for k
    proof (cases k)
      case (Suc j) then show ?thesis using i k by (auto simp: field_simps)
    qed (use True in simp)
    moreover have "?n < m \<longrightarrow> D \<le> 3 * 4 ^ Suc ?n" using i by (auto simp: field_simps)
    ultimately show ?thesis using i True by simp
  qed simp
qed simp

text \<open>
  best_search_level: the level is the least at which the area ratio is at most three, or
  the greatest level there is.
\<close>

theorem best_search_level:
  "let n = GetBestSearchLevel A m in n \<le> m \<and> (if n < m then m2_det A \<le> 3 * 4 ^ n else True) \<and> (n = 0 \<or> 3 * 4 ^ (n - 1) < m2_det A)"
  using search_levels_spec[of m "m2_det A"] by (cases "search_levels_from m (m2_det A)") (auto simp: GetBestSearchLevel_def Let_def)

lemma psd_add:
  fixes p :: rat
  assumes "p * p \<le> a * b" "0 \<le> a" "0 \<le> b"
  shows "(x * y + p) * (x * y + p) \<le> (x * x + a) * (y * y + b)"
proof -
  have "(2 * (x * y * p)) * (2 * (x * y * p)) = 4 * (x * x * (y * y)) * (p * p)" by algebra
  also have "\<dots> \<le> 4 * (x * x * (y * y)) * (a * b)" using assms(1) by (intro mult_left_mono) auto
  also have "\<dots> \<le> (x * x * b + a * (y * y)) * (x * x * b + a * (y * y))"
  proof -
    have "0 \<le> (x * x * b - a * (y * y)) * (x * x * b - a * (y * y))" by simp
    then show ?thesis by (simp add: algebra_simps)
  qed
  finally have s: "(2 * (x * y * p)) * (2 * (x * y * p)) \<le> (x * x * b + a * (y * y)) * (x * x * b + a * (y * y))" .
  have "0 \<le> x * x * b + a * (y * y)" using assms by simp
  then have "2 * (x * y * p) \<le> x * x * b + a * (y * y)"
    using s abs_le_square_iff[of "2 * (x * y * p)" "x * x * b + a * (y * y)"] by (simp add: power2_eq_square)
  then show ?thesis using assms(1) by (simp add: algebra_simps)
qed

lemma cauchy_schwarz:
  fixes xs ys :: "rat list"
  shows "length xs = length ys \<Longrightarrow> (sum_list (map2 (*) xs ys)) * (sum_list (map2 (*) xs ys)) \<le> sum_list (map (\<lambda>x. x * x) xs) * sum_list (map (\<lambda>y. y * y) ys)"
proof (induction xs ys rule: list_induct2)
  case (Cons x xs y ys)
  have "0 \<le> sum_list (map (\<lambda>x. x * x) zs)" for zs :: "rat list" by (induction zs) simp_all
  then show ?case using psd_add[OF Cons.IH, of x y] by simp
qed simp

text \<open>
  ncc_bounded: when the square root is exact the correlation of two patches of the same
  size lies strictly between minus one and one.
\<close>

theorem ncc_bounded:
  assumes "CalculateNCC L ref cur = Inr r" "length ref = length cur" "exact_sqrt L (spread ref * spread cur + 1 / 10 ^ 10)"
  shows "\<bar>r\<bar> < 1"
proof -
  define xs ys where "xs = map (\<lambda>a. a - mean_of ref) ref" and "ys = map (\<lambda>b. b - mean_of cur) cur"
  define num q where "num = sum_list (map2 (*) xs ys)" and "q = l_sqrt L (spread ref * spread cur + 1 / 10 ^ 10)"
  have d: "spread ref = sum_list (map (\<lambda>x. x * x) xs)" "spread cur = sum_list (map (\<lambda>y. y * y) ys)"
    by (simp_all add: spread_def xs_def ys_def o_def)
  have cs: "num * num \<le> spread ref * spread cur" unfolding num_def d by (rule cauchy_schwarz) (simp add: xs_def ys_def assms(2))
  have "map2 (*) xs ys = map2 (\<lambda>a b. (a - mean_of ref) * (b - mean_of cur)) ref cur" using assms(2) unfolding xs_def ys_def
    by (intro nth_equalityI) auto
  then have e: "q \<noteq> 0" "r = num / q" using assms(1) by (auto simp: CalculateNCC_def Let_def q_def num_def split: if_splits)
  have qq: "q * q = spread ref * spread cur + 1 / 10 ^ 10" using assms(3) by (simp add: exact_sqrt_def q_def)
  have "num * num < q * q" unfolding qq using cs by (intro le_less_trans[OF cs]) simp
  then have "\<bar>num\<bar> < \<bar>q\<bar>" using abs_le_square_iff[of q num] by (auto simp: power2_eq_square not_le[symmetric])
  then show ?thesis using e by (simp add: abs_divide)
qed

lemma ncc_bounded_witness:
  "\<bar>projr (CalculateNCC (triangle_libm\<lparr>l_sqrt := \<lambda>x. 1 / 10 ^ 5\<rparr>) [4, 4] [1, 7])\<bar> < 1"
  by (rule ncc_bounded[where L = "triangle_libm\<lparr>l_sqrt := \<lambda>x. 1 / 10 ^ 5\<rparr>" and ref = "[4, 4]" and cur = "[1, 7]"])
    (simp_all add: CalculateNCC_def spread_def mean_of_def exact_sqrt_def)

section \<open>Patches\<close>

lemma mapR_all:
  "(\<And>x. x \<in> set xs \<Longrightarrow> \<exists>y. f x = Inr y \<and> P y) \<Longrightarrow> \<exists>ys. mapR f xs = Inr ys \<and> length ys = length xs \<and> (\<forall>y \<in> set ys. P y)"
proof (induction xs)
  case (Cons x xs)
  obtain y where "f x = Inr y" "P y" using Cons.prems[of x] by auto
  moreover obtain ys where "mapR f xs = Inr ys" "length ys = length xs" "\<forall>y \<in> set ys. P y" using Cons by auto
  ultimately show ?case by simp
qed simp

lemma mapR_length: "mapR f xs = Inr ys \<Longrightarrow> length ys = length xs"
  by (induction xs arbitrary: ys) (auto simp: bindR_eq_Inr)

lemma patch_cells_set: "set (patch_cells n) = {0..n - 1} \<times> {0..n - 1}"
  by (auto simp: patch_cells_def)

lemma patch_cells_length: "length (patch_cells n) = nat n * nat n"
proof -
  have "length (concat (map (\<lambda>x. map (\<lambda>y. (x, y)) [0..n - 1]) xs)) = length xs * nat n" for xs :: "int list"
    by (induction xs) simp_all
  then show ?thesis by (simp add: patch_cells_def)
qed

lemma base_bounds:
  assumes "0 < s"
  shows "of_int (base s u) \<le> u" "u < of_int (base s u + s)"
proof -
  have s: "0 < (of_int s :: rat)" using assms by simp
  show "of_int (base s u) \<le> u" using of_int_floor_le[of "u / of_int s"] s by (simp only: base_def of_int_mult pos_le_divide_eq)
  have "u / of_int s < of_int (\<lfloor>u / of_int s\<rfloor> + 1)" by linarith
  then have "u < of_int (\<lfloor>u / of_int s\<rfloor> + 1) * of_int s" using s by (simp only: pos_divide_less_eq)
  then show "u < of_int (base s u + s)" by (simp add: base_def distrib_right)
qed

definition image_ok :: "image \<Rightarrow> bool" where
  "image_ok img = (0 \<le> im_cols img \<and> 0 \<le> im_rows img \<and> length (im_data img) = nat (im_cols img * im_rows img))"

lemma pixel_inside:
  assumes "image_ok img" "0 \<le> r" "r < im_rows img" "0 \<le> c" "c < im_cols img"
  shows "\<exists>v. pixel img (r * im_cols img + c) = Inr v \<and> 0 \<le> v \<and> v \<le> 255"
proof -
  have "r * im_cols img + c < (r + 1) * im_cols img" using assms(5) by (simp add: algebra_simps)
  also have "\<dots> \<le> im_rows img * im_cols img" using assms by (intro mult_right_mono) auto
  finally have "r * im_cols img + c < int (length (im_data img))" using assms(1) by (simp add: image_ok_def mult.commute)
  moreover have "0 \<le> r * im_cols img + c" using assms by simp
  moreover have "(of_nat (unat b) :: rat) \<le> 255" for b :: u8
  proof -
    have "unat b < 2 ^ LENGTH(8)" by (rule unsigned_less)
    then have "unat b \<le> 255" by simp
    then have "(of_nat (unat b) :: rat) \<le> of_nat 255" unfolding of_nat_le_iff .
    then show ?thesis by simp
  qed
  moreover have "(0 :: rat) \<le> of_nat (unat b)" for b :: u8 by (rule of_nat_0_le_iff)
  ultimately show ?thesis unfolding pixel_def by (simp del: of_nat_unat)
qed

lemma convex_four:
  fixes w1 :: rat
  assumes "0 \<le> w1" "0 \<le> w2" "0 \<le> w3" "0 \<le> w4" "w1 + w2 + w3 + w4 = 1" "lo \<le> a" "lo \<le> b" "lo \<le> c" "lo \<le> d" "a \<le> hi" "b \<le> hi" "c \<le> hi" "d \<le> hi"
  shows "lo \<le> w1 * a + w2 * b + w3 * c + w4 * d" "w1 * a + w2 * b + w3 * c + w4 * d \<le> hi"
proof -
  have "w1 * lo + w2 * lo + w3 * lo + w4 * lo \<le> w1 * a + w2 * b + w3 * c + w4 * d" using assms by (intro add_mono mult_left_mono) auto
  moreover have "w1 * a + w2 * b + w3 * c + w4 * d \<le> w1 * hi + w2 * hi + w3 * hi + w4 * hi" using assms by (intro add_mono mult_left_mono) auto
  moreover have "w1 * k + w2 * k + w3 * k + w4 * k = k" for k using assms(5) by (simp add: distrib_right[symmetric])
  ultimately show "lo \<le> w1 * a + w2 * b + w3 * c + w4 * d" "w1 * a + w2 * b + w3 * c + w4 * d \<le> hi" by simp_all
qed

lemma corner_weights_convex:
  assumes "0 < s" "corner_weights s p = (w1, w2, w3, w4)"
  shows "0 \<le> w1" "0 \<le> w2" "0 \<le> w3" "0 \<le> w4" "w1 + w2 + w3 + w4 = 1"
proof -
  obtain u v where p: "p = (u, v)" by (cases p)
  define su sv where "su = (u - of_int (base s u)) / of_int s" and "sv = (v - of_int (base s v)) / of_int s"
  have "0 \<le> su \<and> su \<le> 1 \<and> 0 \<le> sv \<and> sv \<le> 1"
    using base_bounds[OF assms(1), of u] base_bounds[OF assms(1), of v] assms(1) by (simp add: su_def sv_def field_simps)
  moreover have "w1 = (1 - su) * (1 - sv)" "w2 = su * (1 - sv)" "w3 = (1 - su) * sv" "w4 = su * sv"
    using assms(2) by (simp_all add: p Let_def su_def sv_def)
  ultimately have "0 \<le> w1 \<and> 0 \<le> w2 \<and> 0 \<le> w3 \<and> 0 \<le> w4" "w1 + w2 + w3 + w4 = 1" by (simp, simp add: algebra_simps)
  then show "0 \<le> w1" "0 \<le> w2" "0 \<le> w3" "0 \<le> w4" "w1 + w2 + w3 + w4 = 1" by simp_all
qed

lemma blend_inside:
  assumes "image_ok img" "0 < s" "0 \<le> r" "r + s < im_rows img" "0 \<le> c" "c + s < im_cols img"
  shows "\<exists>v. blend img (im_cols img) s (corner_weights s p) (r * im_cols img + c) = Inr v \<and> 0 \<le> v \<and> v \<le> 255"
proof -
  obtain w1 w2 w3 w4 where w: "corner_weights s p = (w1, w2, w3, w4)" by (cases "corner_weights s p")
  obtain a b d e where p: "pixel img (r * im_cols img + c) = Inr a" "pixel img (r * im_cols img + (c + s)) = Inr b"
    "pixel img ((r + s) * im_cols img + c) = Inr d" "pixel img ((r + s) * im_cols img + (c + s)) = Inr e"
    and v: "0 \<le> a" "a \<le> 255" "0 \<le> b" "b \<le> 255" "0 \<le> d" "d \<le> 255" "0 \<le> e" "e \<le> 255"
    using pixel_inside[OF assms(1), of r c] pixel_inside[OF assms(1), of r "c + s"] pixel_inside[OF assms(1), of "r + s" c]
      pixel_inside[OF assms(1), of "r + s" "c + s"] assms by auto
  have "blend img (im_cols img) s (w1, w2, w3, w4) (r * im_cols img + c) = Inr (w1 * a + w2 * b + w3 * d + w4 * e)"
    using p by (simp add: blend_def algebra_simps)
  then show ?thesis unfolding w using convex_four[OF corner_weights_convex[OF assms(2) w] v(1,3,5,7,2,4,6,8)] by auto
qed

lemma to_int_bounds:
  assumes "to_int u = Inr i" "0 < i"
  shows "of_int i \<le> u" "u < of_int i + 1"
proof -
  have i: "i = truncate_rat u" using assms(1) by (simp add: to_int_def Let_def split: if_splits)
  have "\<not> u < 0"
  proof
    assume u: "u < 0"
    then have "0 \<le> \<lfloor>- u\<rfloor>" by simp
    then show False using u assms(2) i by (simp add: truncate_rat_def)
  qed
  then have "i = \<lfloor>u\<rfloor>" by (simp add: i truncate_rat_def)
  then show "of_int i \<le> u" "u < of_int i + 1" by linarith+
qed

text \<open>The pixels of a patch lie between a border of its half and one more step on each side.\<close>

lemma patch_rows:
  assumes "0 < s" "of_int ((half + 1) * s) \<le> u" "u < of_int (n - (half + 1) * s)" "0 \<le> x" "x \<le> 2 * half" "0 \<le> half"
  shows "0 \<le> base s u - half * s + x * s" "base s u - half * s + x * s + s < n"
proof -
  have "of_int ((half + 1) * s) < (of_int (base s u + s) :: rat)" using base_bounds(2)[OF assms(1), of u] assms(2) by linarith
  then have l: "(half + 1) * s < base s u + s" unfolding of_int_less_iff .
  have "(of_int (base s u) :: rat) < of_int (n - (half + 1) * s)" using base_bounds(1)[OF assms(1), of u] assms(3) by linarith
  then have h: "base s u < n - (half + 1) * s" unfolding of_int_less_iff .
  have "0 \<le> x * s" "x * s \<le> 2 * half * s" using assms by (simp_all add: mult_right_mono)
  then show "0 \<le> base s u - half * s + x * s" "base s u - half * s + x * s + s < n" using l h by (simp_all add: algebra_simps)
qed

text \<open>
  patch_inside: a patch around a place that isInFrame accepts with the border of
  InitializeVIO is read inside the image at every level of the pyramid, and its values
  are between 0 and 255.
\<close>

theorem patch_inside:
  assumes "image_ok img" "stride_width d = im_cols img" "cam_width c = im_cols img" "cam_height c = im_rows img"
    "patch_size_half d = patch_size d div 2" "0 \<le> patch_size d" "level \<le> levels"
    "px_int pc = Inr q" "isInFrame c q ((patch_size_half d + 1) * 2 ^ levels)"
  shows "\<exists>vs. patch_values d img pc (2 ^ level) = Inr vs \<and> int (length vs) = patch_size d * patch_size d \<and> (\<forall>v \<in> set vs. 0 \<le> v \<and> v \<le> 255)"
proof -
  define s half where "s = (2 ^ level :: int)" and "half = patch_size_half d"
  obtain u v where pc: "pc = (u, v)" by (cases pc)
  have s: "0 < s" and half: "0 \<le> half" "patch_size d - 1 \<le> 2 * half" using assms(5,6) by (simp_all add: s_def half_def)
  obtain i j where ij: "to_int u = Inr i" "to_int v = Inr j" "q = (i, j)" using assms(8) by (auto simp: pc bindR_eq_Inr)
  have b: "(half + 1) * s \<le> (half + 1) * 2 ^ levels" "0 < (half + 1) * s"
    using half s assms(7) by (auto simp: s_def intro!: mult_left_mono power_increasing)
  have q: "(half + 1) * s \<le> i" "i + 1 \<le> im_cols img - (half + 1) * s" "(half + 1) * s \<le> j" "j + 1 \<le> im_rows img - (half + 1) * s"
    using assms(9) b(1) unfolding isInFrame_def ij half_def[symmetric] assms(3,4) by auto
  have "0 < i" "0 < j" using q b(2) by linarith+
  note t = to_int_bounds[OF ij(1) this(1)] to_int_bounds[OF ij(2) this(2)]
  have f: "of_int ((half + 1) * s) \<le> u" "u < of_int (im_cols img - (half + 1) * s)" "of_int ((half + 1) * s) \<le> v" "v < of_int (im_rows img - (half + 1) * s)"
  proof -
    have r: "(of_int ((half + 1) * s) :: rat) \<le> of_int i" "(of_int (i + 1) :: rat) \<le> of_int (im_cols img - (half + 1) * s)"
      "(of_int ((half + 1) * s) :: rat) \<le> of_int j" "(of_int (j + 1) :: rat) \<le> of_int (im_rows img - (half + 1) * s)"
      using q unfolding of_int_le_iff by blast+
    show "of_int ((half + 1) * s) \<le> u" "u < of_int (im_cols img - (half + 1) * s)" "of_int ((half + 1) * s) \<le> v" "v < of_int (im_rows img - (half + 1) * s)"
      using r t unfolding of_int_add of_int_1 by linarith+
  qed
  have cell: "\<exists>w. (case xy of (x, y) \<Rightarrow> blend img (stride_width d) s (corner_weights s pc) (patch_offset (stride_width d) half s pc x y)) = Inr w \<and> 0 \<le> w \<and> w \<le> 255"
    if "xy \<in> set (patch_cells (patch_size d))" for xy
  proof -
    obtain x y where xy: "xy = (x, y)" "0 \<le> x" "x \<le> 2 * half" "0 \<le> y" "y \<le> 2 * half" 
    proof (cases xy)
      case (Pair x y) then show thesis using that half(2) \<open>xy \<in> _\<close> by (intro that[of x y]) (auto simp: patch_cells_set)
    qed
    have "patch_offset (im_cols img) half s pc x y = (base s v - half * s + x * s) * im_cols img + (base s u - half * s + y * s)" by (simp add: pc)
    then show ?thesis
      using blend_inside[OF assms(1) s patch_rows[OF s f(3,4) xy(2,3) half(1)] patch_rows[OF s f(1,2) xy(4,5) half(1)], of pc] by (simp add: xy(1) assms(2))
  qed
  have "\<exists>vs. mapR (\<lambda>(x, y). blend img (stride_width d) s (corner_weights s pc) (patch_offset (stride_width d) half s pc x y)) (patch_cells (patch_size d)) = Inr vs
      \<and> length vs = length (patch_cells (patch_size d)) \<and> (\<forall>w \<in> set vs. 0 \<le> w \<and> w \<le> 255)"
    by (rule mapR_all) (rule cell)
  then show ?thesis using assms(6) unfolding patch_values_def s_def half_def patch_cells_length by auto
qed

definition grey_image :: "nat \<Rightarrow> nat \<Rightarrow> image" where
  "grey_image w h = \<lparr>im_cols = int w, im_rows = int h, im_data = replicate (w * h) 128\<rparr>"

lemma grey_image_ok: "image_ok (grey_image w h)"
  by (simp add: image_ok_def grey_image_def nat_mult_distrib)

lemma patch_inside_witness:
  "\<exists>vs. patch_values \<lparr>patch_size = 8, patch_size_half = 4, patch_size_total = 64, stride_width = 640\<rparr> (grey_image 640 480) (320, 240) (2 ^ 2) = Inr vs \<and> length vs = 64"
  using patch_inside[OF grey_image_ok[of 640 480], where d = "\<lparr>patch_size = 8, patch_size_half = 4, patch_size_total = 64, stride_width = 640\<rparr>"
      and c = "pinhole_as_camera triangle_libm (\<lambda>c p. p) test_camera" and level = 2 and levels = 3 and pc = "(320, 240)" and q = "(320, 240)"]
  by (auto simp: grey_image_def pinhole_as_camera_def test_camera_def to_int_def truncate_rat_def isInFrame_def)

section \<open>Corners\<close>

lemma shi_tomasi_inside:
  assumes "image_ok img" "1 \<le> u - 4" "u + 4 < im_cols img - 1" "1 \<le> v - 4" "v + 4 < im_rows img - 1"
  shows "\<exists>xx yy xy. shi_tomasi_sums img u v = Inr (xx, yy, xy) \<and> 0 \<le> xx \<and> 0 \<le> yy \<and> xy * xy \<le> xx * yy"
proof -
  let ?f = "\<lambda>(y, x) (xx, yy, xy). let i = (v - 4 + y) * im_cols img + u - 4 + x; s = im_cols img in
     bindR (pixel img (i - 1)) (\<lambda>l. bindR (pixel img (i + 1)) (\<lambda>r. bindR (pixel img (i - s)) (\<lambda>t. bindR (pixel img (i + s)) (\<lambda>b.
       Inr (xx + (r - l) * (r - l), yy + (b - t) * (b - t), xy + (r - l) * (b - t))))))"
  have "\<exists>xx' yy' xy'. foldR ?f cs (xx, yy, xy) = Inr (xx', yy', xy') \<and> 0 \<le> xx' \<and> 0 \<le> yy' \<and> xy' * xy' \<le> xx' * yy'"
    if "set cs \<subseteq> set (patch_cells 8)" "0 \<le> xx" "0 \<le> yy" "xy * xy \<le> xx * yy" for cs xx yy xy
    using that
  proof (induction cs arbitrary: xx yy xy)
    case (Cons c cs)
    obtain y x where c: "c = (y, x)" "0 \<le> y" "y \<le> 7" "0 \<le> x" "x \<le> 7" using Cons.prems(1) by (cases c) (auto simp: patch_cells_set)
    define R C where "R = v - 4 + y" and "C = u - 4 + x"
    have b: "0 \<le> R - 1" "R + 1 < im_rows img" "0 \<le> C - 1" "C + 1 < im_cols img" using c assms by (simp_all add: R_def C_def)
    obtain l r t d where p: "pixel img (R * im_cols img + (C - 1)) = Inr l" "pixel img (R * im_cols img + (C + 1)) = Inr r"
      "pixel img ((R - 1) * im_cols img + C) = Inr t" "pixel img ((R + 1) * im_cols img + C) = Inr d"
      using pixel_inside[OF assms(1), of R "C - 1"] pixel_inside[OF assms(1), of R "C + 1"] pixel_inside[OF assms(1), of "R - 1" C]
        pixel_inside[OF assms(1), of "R + 1" C] b by auto
    have f: "?f c (xx, yy, xy) = Inr (xx + (r - l) * (r - l), yy + (d - t) * (d - t), xy + (r - l) * (d - t))"
      using p by (simp add: c(1) R_def C_def Let_def algebra_simps)
    have "(xy + (r - l) * (d - t)) * (xy + (r - l) * (d - t)) \<le> (xx + (r - l) * (r - l)) * (yy + (d - t) * (d - t))"
      using psd_add[OF Cons.prems(4,2,3), of "r - l" "d - t"] by (simp add: add.commute)
    then show ?case using Cons f by (simp add: add_nonneg_nonneg)
  qed auto
  from this[of "patch_cells 8" 0 0 0] show ?thesis by (simp add: shi_tomasi_sums_def)
qed

text \<open>
  corner_score: the corner score never reads outside the image, and with an exact square
  root it is the least eigenvalue of the gradient matrix of the patch: it is not
  negative, and in no direction does the patch change less.
\<close>

theorem corner_score:
  assumes "image_ok img"
  shows "(\<exists>s. shiTomasiScore L img u v = Inr s)
    \<and> (\<forall>s xx yy xy. shi_tomasi_sums img u v = Inr (xx, yy, xy) \<and> shiTomasiScore L img u v = Inr s \<and> s \<noteq> 0
        \<and> exact_sqrt L ((xx / 128 + yy / 128) * (xx / 128 + yy / 128) - 4 * (xx / 128 * (yy / 128) - xy / 128 * (xy / 128)))
        \<and> 0 \<le> l_sqrt L ((xx / 128 + yy / 128) * (xx / 128 + yy / 128) - 4 * (xx / 128 * (yy / 128) - xy / 128 * (xy / 128)))
      \<longrightarrow> 0 < s \<and> (\<forall>p q. s * (p * p + q * q) \<le> xx / 128 * (p * p) + 2 * (xy / 128) * (p * q) + yy / 128 * (q * q)))"
proof (cases "u - 4 < 1 \<or> im_cols img - 1 \<le> u + 4 \<or> v - 4 < 1 \<or> im_rows img - 1 \<le> v + 4")
  case True then show ?thesis by (simp add: shiTomasiScore_def)
next
  case False
  then obtain xx yy xy where s: "shi_tomasi_sums img u v = Inr (xx, yy, xy)" "0 \<le> xx" "0 \<le> yy" "xy * xy \<le> xx * yy"
    using shi_tomasi_inside[OF assms, of u v] by auto
  define a b c r where "a = xx / 128" and "b = yy / 128" and "c = xy / 128" and "r = l_sqrt L ((a + b) * (a + b) - 4 * (a * b - c * c))"
  have score: "shiTomasiScore L img u v = Inr (1 / 2 * (a + b - r))"
    using False unfolding shiTomasiScore_def s(1) a_def b_def c_def r_def by (simp only: if_False bindR_simps prod.case Let_def)
  have pos: "0 \<le> a" "0 \<le> b" "c * c \<le> a * b" using s by (simp_all add: a_def b_def c_def)
  have "0 < 1 / 2 * (a + b - r) \<and> (\<forall>p q. 1 / 2 * (a + b - r) * (p * p + q * q) \<le> a * (p * p) + 2 * c * (p * q) + b * (q * q))"
    if e: "exact_sqrt L ((a + b) * (a + b) - 4 * (a * b - c * c))" "0 \<le> r" and nz: "1 / 2 * (a + b - r) \<noteq> 0"
  proof -
    have r: "0 \<le> r" "r * r = (a + b) * (a + b) - 4 * (a * b - c * c)" using e by (simp_all add: exact_sqrt_def r_def)
    from this(2) have "r * r \<le> (a + b) * (a + b)" using pos(3) by simp
    then have "r \<le> a + b" using abs_le_square_iff[of r "a + b"] r(1) pos by (simp add: power2_eq_square)
    then have l: "0 < 1 / 2 * (a + b - r)" using nz by simp
    define A B where "A = a - 1 / 2 * (a + b - r)" and "B = b - 1 / 2 * (a + b - r)"
    have AB: "A * B = c * c" unfolding A_def B_def using r(2) by algebra
    have "(a - b) * (a - b) \<le> r * r" unfolding r(2) by (simp add: algebra_simps)
    then have "\<bar>a - b\<bar> \<le> r" using abs_le_square_iff[of "a - b" r] r(1) by (simp add: power2_eq_square)
    then have n: "0 \<le> A" "0 \<le> B" by (simp_all add: A_def B_def abs_le_iff)
    have "0 \<le> A * (p * p) + 2 * c * (p * q) + B * (q * q)" for p q
    proof (cases "A = 0")
      case True then show ?thesis using AB n by simp
    next
      case f: False
      have "A * (A * (p * p) + 2 * c * (p * q) + B * (q * q)) = (A * p + c * q) * (A * p + c * q) + (A * B - c * c) * (q * q)" by algebra
      then have "0 \<le> A * (A * (p * p) + 2 * c * (p * q) + B * (q * q))" using AB by simp
      then show ?thesis using f n by (simp add: zero_le_mult_iff)
    qed
    moreover have "A * (p * p) + 2 * c * (p * q) + B * (q * q) = a * (p * p) + 2 * c * (p * q) + b * (q * q) - 1 / 2 * (a + b - r) * (p * p + q * q)" for p q
      unfolding A_def B_def by algebra
    ultimately show ?thesis using l by (metis diff_ge_0_iff_ge)
  qed
  then have q: "exact_sqrt L ((a + b) * (a + b) - 4 * (a * b - c * c)) \<Longrightarrow> 0 \<le> r \<Longrightarrow> 1 / 2 * (a + b - r) \<noteq> 0
    \<Longrightarrow> 0 < 1 / 2 * (a + b - r) \<and> (\<forall>p q. 1 / 2 * (a + b - r) * (p * p + q * q) \<le> a * (p * p) + 2 * c * (p * q) + b * (q * q))" .
  show ?thesis
  proof (intro conjI[of "\<exists>s. _ s"] allI impI)
    fix t xx' yy' xy'
    assume h: "shi_tomasi_sums img u v = Inr (xx', yy', xy') \<and> shiTomasiScore L img u v = Inr t \<and> t \<noteq> 0
        \<and> exact_sqrt L ((xx' / 128 + yy' / 128) * (xx' / 128 + yy' / 128) - 4 * (xx' / 128 * (yy' / 128) - xy' / 128 * (xy' / 128)))
        \<and> 0 \<le> l_sqrt L ((xx' / 128 + yy' / 128) * (xx' / 128 + yy' / 128) - 4 * (xx' / 128 * (yy' / 128) - xy' / 128 * (xy' / 128)))"
    then have e: "xx' = xx" "yy' = yy" "xy' = xy" "t = 1 / 2 * (a + b - r)" by (simp_all only: s(1) score sum.inject prod.inject)
    show "0 < t \<and> (\<forall>p q. t * (p * p + q * q) \<le> xx' / 128 * (p * p) + 2 * (xy' / 128) * (p * q) + yy' / 128 * (q * q))"
      using q h unfolding e a_def[symmetric] b_def[symmetric] c_def[symmetric] r_def[symmetric] by blast
  qed (use score in blast)
qed

lemma corner_score_witness:
  "\<exists>s. shiTomasiScore triangle_libm (grey_image 640 480) 100 100 = Inr s"
  using corner_score[OF grey_image_ok[of 640 480], of triangle_libm 100 100] by blast

end
