(* ===== verification/Visual_Map.thy ===== *)
theory Visual_Map
  imports Visual_Image
begin

text \<open>
  The visual map and the manager of the visual part (edge/src/FAST-LIVO2, image_frame.h,
  image_frame.cpp, vio.h and the first part of vio.cpp): points with their features on a
  heap with free addresses, the list of voxels with its table, which is bounded by
  dropping the voxel used longest ago, the members of VIOManager, the grid over the image
  and the pose of the camera.
\<close>

section \<open>Points and their features\<close>

text \<open>
  ref_patch is left unset by the constructor, null after its feature was deleted, or the
  address of a feature.  A score of None is not a number.
\<close>

datatype feature_ref = Indeterminate | NullFeature | FeatureAt nat

record feature =
  f_id :: nat
  f_img :: image
  f_px :: px
  f_f :: vec
  f_level :: nat
  f_T :: se3
  f_patch :: "rat list"
  f_score :: "rat option"
  f_mean :: rat
  f_inv_expo :: rat

record visual_point =
  v_pos :: vec
  v_normal :: vec
  v_prev_normal :: vec
  v_cov :: mat
  v_obs :: "nat list"
  v_converged :: bool
  v_normal_init :: bool
  v_has_ref :: bool
  v_ref :: feature_ref

text \<open>The constructor, with the covariance, which it leaves unset.\<close>

definition VisualPoint :: "mat \<Rightarrow> vec \<Rightarrow> visual_point" where
  "VisualPoint unset p = \<lparr>v_pos = p, v_normal = (0, 0, 0), v_prev_normal = (0, 0, 0), v_cov = unset, v_obs = [], v_converged = False,
     v_normal_init = False, v_has_ref = False, v_ref = Indeterminate\<rparr>"

text \<open>A new feature with the image, the number of the frame and the exposure that are set after the constructor.\<close>

definition Feature :: "rat list \<Rightarrow> px \<Rightarrow> vec \<Rightarrow> se3 \<Rightarrow> nat \<Rightarrow> image \<Rightarrow> nat \<Rightarrow> rat \<Rightarrow> feature" where
  "Feature patch p f T level img i expo = \<lparr>f_id = i, f_img = img, f_px = p, f_f = f, f_level = level, f_T = T, f_patch = patch,
     f_score = Some 0, f_mean = 0, f_inv_expo = expo\<rparr>"

definition feature_pos :: "feature \<Rightarrow> vec" where
  "feature_pos f = snd (se3_inverse (f_T f))"

text \<open>
  The heap of points and features; an address that is free is not in it.  A patch
  that was allocated and never given to a feature is counted.
\<close>

record visual_store =
  vs_points :: "nat \<rightharpoonup> visual_point"
  vs_features :: "nat \<rightharpoonup> feature"
  vs_next :: nat
  vs_leaked :: nat

definition get_point :: "visual_store \<Rightarrow> nat \<Rightarrow> visual_point res" where
  "get_point S a = (case vs_points S a of None \<Rightarrow> Inl UseAfterFree | Some p \<Rightarrow> Inr p)"

definition get_feature :: "visual_store \<Rightarrow> nat \<Rightarrow> feature res" where
  "get_feature S a = (case vs_features S a of None \<Rightarrow> Inl UseAfterFree | Some f \<Rightarrow> Inr f)"

definition set_point :: "nat \<Rightarrow> visual_point \<Rightarrow> visual_store \<Rightarrow> visual_store" where
  "set_point a p S = S\<lparr>vs_points := (vs_points S)(a \<mapsto> p)\<rparr>"

definition set_feature :: "nat \<Rightarrow> feature \<Rightarrow> visual_store \<Rightarrow> visual_store" where
  "set_feature a f S = S\<lparr>vs_features := (vs_features S)(a \<mapsto> f)\<rparr>"

definition delete_feature :: "nat \<Rightarrow> visual_store \<Rightarrow> visual_store res" where
  "delete_feature a S = (case vs_features S a of None \<Rightarrow> Inl DoubleFree | Some f \<Rightarrow> Inr (S\<lparr>vs_features := (vs_features S)(a := None)\<rparr>))"

definition new_point :: "visual_point \<Rightarrow> visual_store \<Rightarrow> nat \<times> visual_store" where
  "new_point p S = (vs_next S, S\<lparr>vs_points := (vs_points S)(vs_next S \<mapsto> p), vs_next := vs_next S + 1\<rparr>)"

definition new_feature :: "feature \<Rightarrow> visual_store \<Rightarrow> nat \<times> visual_store" where
  "new_feature f S = (vs_next S, S\<lparr>vs_features := (vs_features S)(vs_next S \<mapsto> f), vs_next := vs_next S + 1\<rparr>)"

text \<open>delete of a point: its features go first.\<close>

definition delete_point :: "nat \<Rightarrow> visual_store \<Rightarrow> visual_store res" where
  "delete_point a S = (case vs_points S a of None \<Rightarrow> Inl DoubleFree
     | Some p \<Rightarrow> bindR (foldR delete_feature (v_obs p) S) (\<lambda>S'. Inr (S'\<lparr>vs_points := (vs_points S')(a := None)\<rparr>)))"

definition addFrameRef :: "nat \<Rightarrow> nat \<Rightarrow> visual_store \<Rightarrow> visual_store res" where
  "addFrameRef a f S = bindR (get_point S a) (\<lambda>p. Inr (set_point a (p\<lparr>v_obs := f # v_obs p\<rparr>) S))"

text \<open>Comparing ref_patch reads it.\<close>

definition deleteFeatureRef :: "nat \<Rightarrow> nat \<Rightarrow> visual_store \<Rightarrow> visual_store res" where
  "deleteFeatureRef a f S = bindR (get_point S a) (\<lambda>p. if v_ref p = Indeterminate then Inl Undefined
     else let p1 = (if v_ref p = FeatureAt f then p\<lparr>v_ref := NullFeature, v_has_ref := False\<rparr> else p) in
       if f \<in> set (v_obs p) then bindR (delete_feature f (set_point a (p1\<lparr>v_obs := remove1 f (v_obs p)\<rparr>) S)) Inr
       else Inr (set_point a p1 S))"

definition deleteNonRefPatchFeatures :: "nat \<Rightarrow> visual_store \<Rightarrow> visual_store res" where
  "deleteNonRefPatchFeatures a S = bindR (get_point S a) (\<lambda>p. if v_obs p \<noteq> [] \<and> v_ref p = Indeterminate then Inl Undefined
     else bindR (foldR delete_feature (filter (\<lambda>f. FeatureAt f \<noteq> v_ref p) (v_obs p)) S) (\<lambda>S'.
       Inr (set_point a (p\<lparr>v_obs := filter (\<lambda>f. FeatureAt f = v_ref p) (v_obs p)\<rparr>) S')))"

text \<open>The observation seen from most nearly the same side, if it is within 60 degrees.\<close>

definition view_angle :: "libm \<Rightarrow> visual_store \<Rightarrow> vec \<Rightarrow> vec \<Rightarrow> nat \<Rightarrow> rat res" where
  "view_angle L S framepos p f = bindR (get_feature S f) (\<lambda>x. Inr (vdot (normalized L (vsub framepos p)) (normalized L (vsub (feature_pos x) p))))"

fun closest_view :: "libm \<Rightarrow> visual_store \<Rightarrow> vec \<Rightarrow> vec \<Rightarrow> nat list \<Rightarrow> rat \<times> nat \<Rightarrow> (rat \<times> nat) res" where
  "closest_view L S framepos p [] best = Inr best"
| "closest_view L S framepos p (f # fs) best = bindR (view_angle L S framepos p f) (\<lambda>c.
     closest_view L S framepos p fs (if fst best < c then (c, f) else best))"

definition getCloseViewObs :: "libm \<Rightarrow> visual_store \<Rightarrow> visual_point \<Rightarrow> vec \<Rightarrow> nat option res" where
  "getCloseViewObs L S p framepos = (case v_obs p of [] \<Rightarrow> Inr None | f # fs \<Rightarrow>
     bindR (closest_view L S framepos (v_pos p) (f # fs) (0, f)) (\<lambda>(c, g). Inr (if c < 1 / 2 then None else Some g)))"

text \<open>The first of the least scores; the list must not be empty.\<close>

fun min_score :: "visual_store \<Rightarrow> nat list \<Rightarrow> rat option \<times> nat \<Rightarrow> nat res" where
  "min_score S [] best = Inr (snd best)"
| "min_score S (f # fs) (m, g) = bindR (get_feature S f) (\<lambda>x. min_score S fs (case f_score x of None \<Rightarrow> (m, g)
     | Some c \<Rightarrow> (case m of None \<Rightarrow> (Some c, f) | Some b \<Rightarrow> if c < b then (Some c, f) else (m, g))))"

definition findMinScoreFeature :: "visual_store \<Rightarrow> visual_point \<Rightarrow> nat res" where
  "findMinScoreFeature S p = (case v_obs p of [] \<Rightarrow> Inl Undefined | f # fs \<Rightarrow> min_score S (f # fs) (None, f))"

section \<open>The visual map\<close>

text \<open>
  The list vp_data_ with its nodes at addresses, and the table of iterators vp_map_.
  A voxel holds the addresses of its points and a count that nothing reads.
\<close>

record visual_map =
  vp_data :: "(nat \<times> loc \<times> nat list \<times> int) list"
  vp_map :: "loc \<rightharpoonup> nat"
  vp_next :: nat
  vp_lru :: int

definition voxel_points :: "nat \<Rightarrow> visual_map \<Rightarrow> nat list res" where
  "voxel_points i m = (case map_of (vp_data m) i of None \<Rightarrow> Inl UseAfterFree | Some (l, as, k) \<Rightarrow> Inr as)"

text \<open>The last voxel is dropped with its points when the list has reached lru_size_.\<close>

definition drop_last_voxel :: "visual_map \<Rightarrow> visual_store \<Rightarrow> (visual_map \<times> visual_store) res" where
  "drop_last_voxel m S = (if usize (vp_lru m) \<le> length (vp_data m)
     then case last (vp_data m) of (i, l, as, k) \<Rightarrow> bindR (foldR delete_point as S) (\<lambda>S'.
       Inr (m\<lparr>vp_map := (vp_map m)(l := None), vp_data := butlast (vp_data m)\<rparr>, S'))
     else Inr (m, S))"

definition InsertPointIntoFeatureMapLRU :: "nat \<Rightarrow> visual_map \<Rightarrow> visual_store \<Rightarrow> (visual_map \<times> visual_store) res" where
  "InsertPointIntoFeatureMapLRU a m S = bindR (get_point S a) (\<lambda>p. bindR (position (1 / 2) (v_pos p)) (\<lambda>l.
     case vp_map m l of
       Some i \<Rightarrow> (case map_of (vp_data m) i of None \<Rightarrow> Inl UseAfterFree
         | Some (l', as, k) \<Rightarrow> Inr (m\<lparr>vp_data := (i, l', as @ [a], k + 1) # filter (\<lambda>(j, e). j \<noteq> i) (vp_data m)\<rparr>, S))
     | None \<Rightarrow> drop_last_voxel (m\<lparr>vp_data := (vp_next m, l, [a], 0) # vp_data m, vp_map := (vp_map m)(l \<mapsto> vp_next m), vp_next := vp_next m + 1\<rparr>) S))"

section \<open>The manager\<close>

datatype cell_type = TYPE_MAP | TYPE_POINTCLOUD | TYPE_UNKNOWN

record sub_sparse_map =
  sm_propa_errors :: "rat list"
  sm_errors :: "rat list"
  sm_warp_patch :: "rat list list"
  sm_search_levels :: "nat list"
  sm_points :: "nat list"
  sm_inv_expo :: "rat list"
  sm_from_voxel_map :: "point_with_var list"

definition SubSparseMap :: sub_sparse_map where
  "SubSparseMap = \<lparr>sm_propa_errors = [], sm_errors = [], sm_warp_patch = [], sm_search_levels = [], sm_points = [], sm_inv_expo = [], sm_from_voxel_map = []\<rparr>"

text \<open>A frame; its number comes from a static counter.\<close>

record image_frame =
  fr_id :: nat
  fr_T :: se3
  fr_img :: image

text \<open>
  The members of VIOManager, the vectors indexed by cells of the grid first; vo_G is None
  as long as G_ has no value.  vo_frame is the new frame.
\<close>

record vio =
  vo_grid_num :: "cell_type list"
  vo_map_dist :: "rat list"
  vo_scan_value :: "rat list"
  vo_update_flag :: "bool list"
  vo_retrieve :: "nat option list"
  vo_append :: "point_with_var list"
  vo_patch_buffer :: "rat list"
  vo_sub :: sub_sparse_map
  vo_sub_feat :: "loc list"
  vo_warp_map :: "nat \<rightharpoonup> nat \<times> mat2"
  vo_G :: "mat option"
  vo_H_inv :: mat
  vo_has_cache :: bool
  vo_store :: visual_store
  vo_vp :: visual_map
  vo_frame :: image_frame
  vo_frame_counter :: nat
  vo_total :: nat
  vo_cam :: camera
  vo_Rli :: mat3
  vo_Pli :: vec
  vo_Rcl :: mat3
  vo_Pcl :: vec
  vo_Rci :: mat3
  vo_Pci :: vec
  vo_Jdp_dR :: mat3
  vo_grid_size :: int
  vo_grid_n_width :: int
  vo_grid_n_height :: int
  vo_length :: int
  vo_border_flag :: "bool list"
  vo_rays :: "vec list list"
  vo_dims :: patch_dims
  vo_pyramid :: int
  vo_warp_len :: int
  vo_border :: int
  vo_max_iterations :: int
  vo_img_point_cov :: rat
  vo_outlier :: rat
  vo_ncc_en :: bool
  vo_ncc_thre :: rat
  vo_normal_en :: bool
  vo_inverse_en :: bool
  vo_exposure_en :: bool
  vo_raycast_en :: bool

definition vo_width :: "vio \<Rightarrow> int" where
  "vo_width V = stride_width (vo_dims V)"

definition SetImuToLidarExtrinsic :: "vec \<Rightarrow> mat3 \<Rightarrow> vio \<Rightarrow> vio" where
  "SetImuToLidarExtrinsic transl rot V = V\<lparr>vo_Pli := vscale (- 1) (m3_vec (m3_T rot) transl), vo_Rli := m3_T rot\<rparr>"

text \<open>MAT_FROM_ARRAY and VEC_FROM_ARRAY index the arrays without a check.\<close>

definition SetLidarToCameraExtrinsic :: "rat list \<Rightarrow> rat list \<Rightarrow> vio \<Rightarrow> vio res" where
  "SetLidarToCameraExtrinsic R P V = (if length R < 9 \<or> length P < 3 then Inl OutOfBounds
     else Inr (V\<lparr>vo_Rcl := ((R ! 0, R ! 1, R ! 2), (R ! 3, R ! 4, R ! 5), (R ! 6, R ! 7, R ! 8)), vo_Pcl := (P ! 0, P ! 1, P ! 2)\<rparr>))"

text \<open>The sizes of the grid; the divisions are of integers.\<close>

definition grid_dims :: "int \<Rightarrow> int \<Rightarrow> int \<Rightarrow> int \<Rightarrow> (int \<times> int \<times> int) res" where
  "grid_dims grid_size n_height width height = (if 10 < grid_size then Inr (grid_size, width div grid_size, height div grid_size)
     else if n_height = 0 then Inl DivByZero
     else let g = height div n_height in if g = 0 then Inl DivByZero else Inr (g, width div g, height div g))"

text \<open>The sample points along the ray through the middle of each cell, 0.2 apart from 0.1 on.\<close>

definition ray_depths :: "rat list" where
  "ray_depths = map (\<lambda>k. 1 / 10 + of_nat k * (1 / 5)) [0..<15]"

definition ray_points :: "camera \<Rightarrow> int \<Rightarrow> int \<times> int \<Rightarrow> vec list res" where
  "ray_points c grid rc = (case rc of (row, col) \<Rightarrow>
     bindR (cam2world c (of_int (grid div 2 + col * grid), of_int (grid div 2 + row * grid))) (\<lambda>xyz.
     if component xyz 2 = 0 then Inl DivByZero else Inr (map (\<lambda>d. vscale (d / component xyz 2) xyz) ray_depths)))"

definition grid_cells :: "int \<Rightarrow> int \<Rightarrow> (int \<times> int) list" where
  "grid_cells rows cols = concat (map (\<lambda>r. map (\<lambda>c. (r, c)) [0..cols - 1]) [0..rows - 1])"

definition InitializeVIO :: "vio \<Rightarrow> vio res" where
  "InitializeVIO V = (let c = vo_cam V; w = cam_width c; h = cam_height c; Rci = m3_mul (vo_Rcl V) (vo_Rli V);
     Pci = vadd (m3_vec (vo_Rcl V) (vo_Pli V)) (vo_Pcl V); Pic = vscale (- 1) (m3_vec (m3_T Rci) Pci) in
     bindR (grid_dims (vo_grid_size V) (vo_grid_n_height V) w h) (\<lambda>(g, gw, gh).
     if gw * gh < 0 then Inl LengthError
     else bindR (if vo_raycast_en V then mapR (ray_points c g) (grid_cells gh gw) else Inr (vo_rays V)) (\<lambda>rays.
       let n = nat (gw * gh); p = patch_size (vo_dims V); total = p * p; half = p div 2 in
       Inr (V\<lparr>vo_sub := SubSparseMap, vo_Rci := Rci, vo_Pci := Pci, vo_Jdp_dR := m3_scale (- 1) (m3_mul Rci (skew Pic)),
         vo_grid_size := g, vo_grid_n_width := gw, vo_grid_n_height := gh, vo_length := gw * gh, vo_rays := rays,
         vo_border_flag := (if vo_raycast_en V then map (\<lambda>(r, k). r = 0 \<or> k = 0 \<or> r = gh - 1 \<or> k = gw - 1) (grid_cells gh gw) else vo_border_flag V),
         vo_dims := \<lparr>patch_size = p, patch_size_half = half, patch_size_total = total, stride_width = w\<rparr>,
         vo_patch_buffer := replicate (nat total) 0, vo_warp_len := total * vo_pyramid V, vo_border := (half + 1) * 2 ^ nat (vo_pyramid V),
         vo_sub_feat := [], vo_grid_num := replicate n TYPE_UNKNOWN, vo_map_dist := replicate n 0, vo_update_flag := replicate n False,
         vo_scan_value := replicate n 0\<rparr>))))"

text \<open>A point list is resized with points that have no value.\<close>

definition ResetGrid :: "point_with_var \<Rightarrow> vio \<Rightarrow> vio" where
  "ResetGrid unset V = (let n = nat (vo_length V) in V\<lparr>vo_grid_num := replicate (length (vo_grid_num V)) TYPE_UNKNOWN,
     vo_map_dist := replicate (length (vo_map_dist V)) 10000, vo_update_flag := replicate (length (vo_update_flag V)) False,
     vo_scan_value := replicate (length (vo_scan_value V)) 0, vo_retrieve := replicate n None, vo_append := replicate n unset, vo_total := 0\<rparr>)"

text \<open>The cell of the grid a place in the image falls into.\<close>

definition cell_index :: "vio \<Rightarrow> px \<Rightarrow> int res" where
  "cell_index V pc = (if vo_grid_size V = 0 then Inl DivByZero
     else bindR (to_int (snd pc / of_int (vo_grid_size V))) (\<lambda>r. bindR (to_int (fst pc / of_int (vo_grid_size V))) (\<lambda>c.
       Inr (r * vo_grid_n_width V + c))))"

definition put_cell :: "int \<Rightarrow> 'a \<Rightarrow> 'a list \<Rightarrow> 'a list res" where
  "put_cell i x xs = (if 0 \<le> i \<and> i < int (length xs) then Inr (xs[nat i := x]) else Inl OutOfBounds)"

definition at_cell :: "int \<Rightarrow> 'a list \<Rightarrow> 'a res" where
  "at_cell i xs = (if 0 \<le> i \<and> i < int (length xs) then Inr (xs ! nat i) else Inl OutOfBounds)"

text \<open>UpdateFrameState: the pose of the camera from that of the IMU.\<close>

definition camera_pose :: "vio \<Rightarrow> states_group \<Rightarrow> se3" where
  "camera_pose V s = (let R = m3_mul (vo_Rci V) (m3_T (rot_end s)) in
     (R, vadd (vscale (- 1) (m3_vec R (pos_end s))) (vo_Pci V)))"

definition UpdateFrameState :: "states_group \<Rightarrow> vio \<Rightarrow> vio" where
  "UpdateFrameState s V = V\<lparr>vo_frame := (vo_frame V)\<lparr>fr_T := camera_pose V s\<rparr>\<rparr>"

text \<open>A new frame; the size of the image must be that of the camera.\<close>

definition ImageFrame :: "image \<Rightarrow> vio \<Rightarrow> vio res" where
  "ImageFrame img V = (if im_data img = [] \<or> im_cols img \<noteq> cam_width (vo_cam V) \<or> im_rows img \<noteq> cam_height (vo_cam V) then Inl RuntimeError
     else Inr (V\<lparr>vo_frame := \<lparr>fr_id = vo_frame_counter V, fr_T = (m3_id, (0, 0, 0)), fr_img = img\<rparr>, vo_frame_counter := vo_frame_counter V + 1\<rparr>))"

lemma cell_put: "put_cell i x xs = Inr ys \<longleftrightarrow> 0 \<le> i \<and> i < int (length xs) \<and> ys = xs[nat i := x]"
  by (auto simp: put_cell_def)

lemma cell_at: "at_cell i xs = Inr y \<longleftrightarrow> 0 \<le> i \<and> i < int (length xs) \<and> y = xs ! nat i"
  by (auto simp: at_cell_def)

section \<open>An example\<close>

text \<open>A manager before its initialisation, with patches of eight pixels and four levels, and an empty map.\<close>

definition no_store :: visual_store where
  "no_store = \<lparr>vs_points = Map.empty, vs_features = Map.empty, vs_next = 0, vs_leaked = 0\<rparr>"

definition no_voxels :: visual_map where
  "no_voxels = \<lparr>vp_data = [], vp_map = Map.empty, vp_next = 0, vp_lru = 1000000\<rparr>"

definition plain_vio :: "camera \<Rightarrow> vio" where
  "plain_vio c = \<lparr>vo_grid_num = [], vo_map_dist = [], vo_scan_value = [], vo_update_flag = [], vo_retrieve = [], vo_append = [], vo_patch_buffer = [],
     vo_sub = SubSparseMap, vo_sub_feat = [], vo_warp_map = Map.empty, vo_G = None, vo_H_inv = [], vo_has_cache = False, vo_store = no_store,
     vo_vp = no_voxels, vo_frame = \<lparr>fr_id = 0, fr_T = (m3_id, (0, 0, 0)), fr_img = grey_image 0 0\<rparr>, vo_frame_counter = 0, vo_total = 0, vo_cam = c,
     vo_Rli = m3_id, vo_Pli = (0, 0, 0), vo_Rcl = m3_id, vo_Pcl = (0, 0, 0), vo_Rci = m3_id, vo_Pci = (0, 0, 0), vo_Jdp_dR = m3_id,
     vo_grid_size = 5, vo_grid_n_width = 0, vo_grid_n_height = 17, vo_length = 0, vo_border_flag = [], vo_rays = [],
     vo_dims = \<lparr>patch_size = 8, patch_size_half = 4, patch_size_total = 64, stride_width = cam_width c\<rparr>, vo_pyramid = 4, vo_warp_len = 256,
     vo_border = 80, vo_max_iterations = 5, vo_img_point_cov = 100, vo_outlier = 1000, vo_ncc_en = False, vo_ncc_thre = 0, vo_normal_en = True,
     vo_inverse_en = False, vo_exposure_en = True, vo_raycast_en = False\<rparr>"

abbreviation test_vio :: vio where
  "test_vio \<equiv> plain_vio (pinhole_as_camera triangle_libm (\<lambda>c p. p) test_camera)"

text \<open>One point in front of the camera with a darker reference patch of two pixels by two.\<close>

definition one_point_vio :: vio where
  "one_point_vio = test_vio\<lparr>vo_dims := \<lparr>patch_size = 2, patch_size_half = 1, patch_size_total = 4, stride_width = 640\<rparr>, vo_total := 1,
     vo_store := no_store\<lparr>vs_points := [0 \<mapsto> VisualPoint [] (0, 0, 2)]\<rparr>,
     vo_sub := SubSparseMap\<lparr>sm_points := [0], sm_errors := [0], sm_propa_errors := [0], sm_search_levels := [0], sm_warp_patch := [[100, 100, 100, 100]], sm_inv_expo := [1]\<rparr>\<rparr>"


lemma one_point_parts:
  "vo_dims one_point_vio = \<lparr>patch_size = 2, patch_size_half = 1, patch_size_total = 4, stride_width = 640\<rparr>" "vo_total one_point_vio = 1"
  "get_point (vo_store one_point_vio) 0 = Inr (VisualPoint [] (0, 0, 2))" "world2cam (vo_cam one_point_vio) (0, 0, 2) = Inr (320, 240)"
  "cam_fx (vo_cam one_point_vio) = 400" "cam_fy (vo_cam one_point_vio) = 400" "vo_exposure_en one_point_vio"
  "sm_points (vo_sub one_point_vio) = [0]" "sm_errors (vo_sub one_point_vio) = [0]" "sm_search_levels (vo_sub one_point_vio) = [0]"
  "sm_warp_patch (vo_sub one_point_vio) = [[100, 100, 100, 100]]" "sm_inv_expo (vo_sub one_point_vio) = [1]"
  "camera_pose one_point_vio StatesGroup = (m3_id, (0, 0, 0))"
  "v_pos (VisualPoint [] (0, 0, 2)) = (0, 0, 2)"
  by (simp_all add: one_point_vio_def plain_vio_def pinhole_as_camera_def test_camera_def get_point_def no_store_def SubSparseMap_def VisualPoint_def
      camera_pose_def StatesGroup_def m3_id_def pinhole_world2cam_def)

section \<open>The grid\<close>

lemma to_int_floor: "to_int u = Inr i \<Longrightarrow> 0 \<le> u \<Longrightarrow> i = \<lfloor>u\<rfloor>"
  by (auto simp: to_int_def Let_def truncate_rat_def split: if_splits)

lemma cell_coordinate:
  assumes "to_int u = Inr q" "to_int (u / of_int g) = Inr r" "0 < b" "b \<le> q" "q < n - b" "0 < g" "n mod g \<le> b"
  shows "0 \<le> r" "r < n div g"
proof -
  have q: "0 < q" using assms(3,4) by simp
  note u = to_int_bounds[OF assms(1) q]
  have "(0 :: rat) < of_int q" using q by simp
  then have "0 \<le> u / of_int g" using u(1) assms(6) by simp
  then have r: "r = \<lfloor>u / of_int g\<rfloor>" and "0 \<le> r" using to_int_floor[OF assms(2)] by simp_all
  then show "0 \<le> r" by simp
  have "g * (n div g) = n - n mod g" by (simp add: minus_mod_eq_mult_div)
  then have "q + 1 \<le> (n div g) * g" using assms(5,7) by (simp add: mult.commute)
  then have "(of_int (q + 1) :: rat) \<le> of_int ((n div g) * g)" unfolding of_int_le_iff .
  then have "u < of_int (n div g) * of_int g" using u(2) by simp
  then have "u / of_int g < of_int (n div g)" using assms(6) by (simp add: pos_divide_less_eq)
  then show "r < n div g" unfolding r by (simp add: floor_less_iff)
qed

lemma InitializeVIO_grid:
  assumes "InitializeVIO V = Inr V'" "0 \<le> cam_width (vo_cam V)" "0 \<le> cam_height (vo_cam V)" "0 \<le> patch_size (vo_dims V)" "0 \<le> vo_grid_n_height V"
  shows "vo_cam V' = vo_cam V" "0 < vo_grid_size V'" "vo_grid_n_width V' = cam_width (vo_cam V') div vo_grid_size V'"
    "vo_length V' = vo_grid_n_width V' * (cam_height (vo_cam V') div vo_grid_size V')" "0 < vo_border V'"
    "length (vo_grid_num V') = nat (vo_length V')" "length (vo_map_dist V') = nat (vo_length V')" "length (vo_scan_value V') = nat (vo_length V')"
proof -
  obtain g gw gh rays where d: "grid_dims (vo_grid_size V) (vo_grid_n_height V) (cam_width (vo_cam V)) (cam_height (vo_cam V)) = Inr (g, gw, gh)"
    and e: "vo_cam V' = vo_cam V \<and> vo_grid_size V' = g \<and> vo_grid_n_width V' = gw \<and> vo_length V' = gw * gh
      \<and> vo_border V' = (patch_size (vo_dims V) div 2 + 1) * 2 ^ nat (vo_pyramid V)
      \<and> vo_grid_num V' = replicate (nat (gw * gh)) TYPE_UNKNOWN \<and> vo_map_dist V' = replicate (nat (gw * gh)) 0 \<and> vo_scan_value V' = replicate (nat (gw * gh)) 0
      \<and> vo_rays V' = rays"
    using assms(1) by (auto simp: InitializeVIO_def Let_def bindR_eq_Inr split: if_splits)
  have g: "0 < g \<and> gw = cam_width (vo_cam V) div g \<and> gh = cam_height (vo_cam V) div g"
    using d assms(3,5) pos_imp_zdiv_nonneg_iff[of "vo_grid_n_height V" "cam_height (vo_cam V)"]
    by (auto simp: grid_dims_def Let_def split: if_splits)
  show "vo_cam V' = vo_cam V" "0 < vo_grid_size V'" "vo_grid_n_width V' = cam_width (vo_cam V') div vo_grid_size V'"
    "vo_length V' = vo_grid_n_width V' * (cam_height (vo_cam V') div vo_grid_size V')"
    "length (vo_grid_num V') = nat (vo_length V')" "length (vo_map_dist V') = nat (vo_length V')" "length (vo_scan_value V') = nat (vo_length V')"
    using e g by (simp_all add: mult.commute)
  show "0 < vo_border V'" using e assms(4) by simp
qed

text \<open>
  C20 grid_covers_frame: after InitializeVIO every place that isInFrame accepts falls into a
  cell of the grid, so that the vectors indexed by cells are not overrun, provided the
  border is at least what the integer divisions leave of the width and of the height.
\<close>

theorem grid_covers_frame:
  assumes "InitializeVIO V = Inr V'" "0 \<le> cam_width (vo_cam V)" "0 \<le> cam_height (vo_cam V)" "0 \<le> patch_size (vo_dims V)" "0 \<le> vo_grid_n_height V"
    "cam_width (vo_cam V) mod vo_grid_size V' \<le> vo_border V'" "cam_height (vo_cam V) mod vo_grid_size V' \<le> vo_border V'"
    "px_int pc = Inr q" "isInFrame (vo_cam V') q (vo_border V')" "cell_index V' pc = Inr i"
  shows "0 \<le> i \<and> i < int (length (vo_grid_num V')) \<and> length (vo_map_dist V') = length (vo_grid_num V') \<and> length (vo_scan_value V') = length (vo_grid_num V')"
proof -
  note I = InitializeVIO_grid[OF assms(1-5)]
  obtain u v where pc: "pc = (u, v)" by (cases pc)
  obtain a b where q: "to_int u = Inr a" "to_int v = Inr b" "q = (a, b)" using assms(8) by (auto simp: pc bindR_eq_Inr)
  obtain r c where rc: "to_int (v / of_int (vo_grid_size V')) = Inr r" "to_int (u / of_int (vo_grid_size V')) = Inr c" "i = r * vo_grid_n_width V' + c"
    using assms(10) by (auto simp: cell_index_def pc bindR_eq_Inr split: if_splits)
  have f: "vo_border V' \<le> a" "a < cam_width (vo_cam V') - vo_border V'" "vo_border V' \<le> b" "b < cam_height (vo_cam V') - vo_border V'"
    using assms(9) by (simp_all add: isInFrame_def q(3))
  note c = cell_coordinate[OF q(1) rc(2) I(5) f(1,2) I(2) assms(6)[folded I(1)]]
  note r = cell_coordinate[OF q(2) rc(1) I(5) f(3,4) I(2) assms(7)[folded I(1)]]
  let ?w = "vo_grid_n_width V'" and ?h = "cam_height (vo_cam V') div vo_grid_size V'"
  have "c < ?w" using c(2) I(3) by simp
  moreover have "r * ?w \<le> (?h - 1) * ?w" using r(2) c(1) \<open>c < ?w\<close> by (intro mult_right_mono) auto
  ultimately have "i < vo_length V'" unfolding I(4) rc(3) by (simp add: algebra_simps)
  moreover have "0 \<le> i" unfolding rc(3) using r(1) c(1) \<open>c < ?w\<close> by simp
  ultimately show ?thesis using I(6-8) by simp
qed

lemma grid_covers_frame_witness:
  "\<exists>V'. InitializeVIO test_vio = Inr V' \<and> (\<exists>i. cell_index V' (500, 300) = Inr i \<and> 0 \<le> i \<and> i < int (length (vo_grid_num V')))"
proof -
  have c: "vo_cam test_vio = pinhole_as_camera triangle_libm (\<lambda>c p. p) test_camera" "cam_width (vo_cam test_vio) = 640" "cam_height (vo_cam test_vio) = 480"
    "patch_size (vo_dims test_vio) = 8" "vo_grid_n_height test_vio = 17"
    by (simp_all add: plain_vio_def pinhole_as_camera_def test_camera_def)
  obtain V' where V': "InitializeVIO test_vio = Inr V'" and e: "vo_cam V' = vo_cam test_vio" "vo_grid_size V' = 28" "vo_grid_n_width V' = 22" "vo_border V' = 80"
    by (simp add: InitializeVIO_def Let_def plain_vio_def grid_dims_def pinhole_as_camera_def test_camera_def)
  have f: "\<lfloor>75 / 7 :: rat\<rfloor> = 10" "\<lfloor>125 / 7 :: rat\<rfloor> = 17" by (rule floor_unique; simp)+
  have i: "cell_index V' (500, 300) = Inr 237"
    by (simp add: cell_index_def e to_int_def truncate_rat_def f)
  have p: "px_int (500, 300) = Inr (500, 300)" by (simp add: to_int_def truncate_rat_def)
  have "isInFrame (vo_cam V') (500, 300) (vo_border V')" by (simp add: isInFrame_def e(1,4) c(2,3))
  from grid_covers_frame[OF V' _ _ _ _ _ _ p this i] show ?thesis using V' i by (auto simp: c(2-5) e)
qed

section \<open>Ownership of points and features\<close>

text \<open>
  Fresh addresses are free, the views of a point are live features without repetition,
  and no feature belongs to two points.
\<close>

definition store_ok :: "visual_store \<Rightarrow> bool" where
  "store_ok S = ((\<forall>a. vs_next S \<le> a \<longrightarrow> vs_points S a = None \<and> vs_features S a = None)
    \<and> (\<forall>a p. vs_points S a = Some p \<longrightarrow> distinct (v_obs p) \<and> (\<forall>f \<in> set (v_obs p). vs_features S f \<noteq> None))
    \<and> (\<forall>a b p q. vs_points S a = Some p \<longrightarrow> vs_points S b = Some q \<longrightarrow> a \<noteq> b \<longrightarrow> set (v_obs p) \<inter> set (v_obs q) = {}))"

lemma store_okD:
  assumes "store_ok S"
  shows "vs_next S \<le> a \<Longrightarrow> vs_points S a = None" "vs_next S \<le> a \<Longrightarrow> vs_features S a = None"
    "vs_points S a = Some p \<Longrightarrow> distinct (v_obs p)" "vs_points S a = Some p \<Longrightarrow> f \<in> set (v_obs p) \<Longrightarrow> vs_features S f \<noteq> None"
    "vs_points S a = Some p \<Longrightarrow> vs_points S b = Some q \<Longrightarrow> a \<noteq> b \<Longrightarrow> f \<in> set (v_obs p) \<Longrightarrow> f \<notin> set (v_obs q)"
  using assms unfolding store_ok_def by blast+

lemma delete_features:
  "distinct fs \<Longrightarrow> (\<And>f. f \<in> set fs \<Longrightarrow> vs_features S f \<noteq> None) \<Longrightarrow>
    foldR delete_feature fs S = Inr (S\<lparr>vs_features := vs_features S |` (- set fs)\<rparr>)"
proof (induction fs arbitrary: S)
  case (Cons f fs)
  obtain x where x: "vs_features S f = Some x" using Cons.prems(2)[of f] by auto
  let ?S = "S\<lparr>vs_features := (vs_features S)(f := None)\<rparr>"
  have "foldR delete_feature fs ?S = Inr (?S\<lparr>vs_features := vs_features ?S |` (- set fs)\<rparr>)"
    using Cons.prems by (intro Cons.IH) auto
  moreover have "(vs_features S)(f := None) |` (- set fs) = vs_features S |` (- set (f # fs))"
    by (auto simp: restrict_map_def fun_eq_iff)
  moreover have "delete_feature f S = Inr ?S" using x by (simp add: delete_feature_def)
  ultimately show ?case by simp
qed (simp add: restrict_map_def)

lemma delete_point_ok:
  assumes "store_ok S" "vs_points S a = Some p"
  shows "delete_point a S = Inr (S\<lparr>vs_features := vs_features S |` (- set (v_obs p)), vs_points := (vs_points S)(a := None)\<rparr>)"
    "store_ok (S\<lparr>vs_features := vs_features S |` (- set (v_obs p)), vs_points := (vs_points S)(a := None)\<rparr>)"
proof -
  note D = store_okD[OF assms(1)]
  show "delete_point a S = Inr (S\<lparr>vs_features := vs_features S |` (- set (v_obs p)), vs_points := (vs_points S)(a := None)\<rparr>)"
    using delete_features[of "v_obs p" S] D(3,4)[OF assms(2)] assms(2) by (simp add: delete_point_def)
  show "store_ok (S\<lparr>vs_features := vs_features S |` (- set (v_obs p)), vs_points := (vs_points S)(a := None)\<rparr>)"
    unfolding store_ok_def
  proof (intro conjI allI impI ballI)
    fix b q c r assume "vs_points (S\<lparr>vs_features := vs_features S |` (- set (v_obs p)), vs_points := (vs_points S)(a := None)\<rparr>) b = Some q"
      "vs_points (S\<lparr>vs_features := vs_features S |` (- set (v_obs p)), vs_points := (vs_points S)(a := None)\<rparr>) c = Some r" "b \<noteq> c"
    then have "vs_points S b = Some q" "vs_points S c = Some r" "b \<noteq> c" by (auto split: if_splits)
    then show "set (v_obs q) \<inter> set (v_obs r) = {}" using D(5) by blast
  next
    fix b q f assume b: "vs_points (S\<lparr>vs_features := vs_features S |` (- set (v_obs p)), vs_points := (vs_points S)(a := None)\<rparr>) b = Some q" and f: "f \<in> set (v_obs q)"
    then have "b \<noteq> a" "vs_points S b = Some q" by (auto split: if_splits)
    then show "vs_features (S\<lparr>vs_features := vs_features S |` (- set (v_obs p)), vs_points := (vs_points S)(a := None)\<rparr>) f \<noteq> None"
      using D(4)[of b q f] D(5)[of b q a p f] assms(2) f by (simp add: restrict_map_def)
  qed (use D(1-3) in \<open>simp_all add: restrict_map_def split: if_splits\<close>)
qed

lemma delete_points_ok:
  "store_ok S \<Longrightarrow> distinct as \<Longrightarrow> (\<And>a. a \<in> set as \<Longrightarrow> vs_points S a \<noteq> None) \<Longrightarrow>
    \<exists>S'. foldR delete_point as S = Inr S' \<and> store_ok S' \<and> vs_points S' = vs_points S |` (- set as) \<and> vs_next S' = vs_next S"
proof (induction as arbitrary: S)
  case (Cons a as)
  obtain p where p: "vs_points S a = Some p" using Cons.prems(3)[of a] by auto
  let ?S = "S\<lparr>vs_features := vs_features S |` (- set (v_obs p)), vs_points := (vs_points S)(a := None)\<rparr>"
  note d = delete_point_ok[OF Cons.prems(1) p]
  have "\<exists>S'. foldR delete_point as ?S = Inr S' \<and> store_ok S' \<and> vs_points S' = vs_points ?S |` (- set as) \<and> vs_next S' = vs_next ?S"
    using Cons.prems by (intro Cons.IH d(2)) auto
  then obtain S' where s: "foldR delete_point as ?S = Inr S'" "store_ok S'" "vs_points S' = vs_points ?S |` (- set as)" "vs_next S' = vs_next ?S" by blast
  have "vs_points S' = vs_points S |` (- set (a # as))" unfolding s(3) by (auto simp: restrict_map_def fun_eq_iff)
  then show ?case using s d(1) by (intro exI[of _ S']) simp
qed (simp add: restrict_map_def)

section \<open>The visual map as a bounded list\<close>

definition visual_keys :: "visual_map \<Rightarrow> loc list" where
  "visual_keys m = map (\<lambda>(i, l, as, k). l) (vp_data m)"

definition all_points :: "visual_map \<Rightarrow> nat list" where
  "all_points m = concat (map (\<lambda>(i, l, as, k). as) (vp_data m))"

definition vmap_ok :: "visual_map \<Rightarrow> visual_store \<Rightarrow> bool" where
  "vmap_ok m S = (store_ok S \<and> distinct (map fst (vp_data m)) \<and> (\<forall>e \<in> set (vp_data m). fst e < vp_next m) \<and> distinct (visual_keys m)
    \<and> (\<forall>l i. vp_map m l = Some i \<longleftrightarrow> (\<exists>as k. (i, l, as, k) \<in> set (vp_data m)))
    \<and> distinct (all_points m) \<and> (\<forall>a \<in> set (all_points m). vs_points S a \<noteq> None))"

lemma drop_last_ok:
  assumes "vmap_ok m S" "vp_data m \<noteq> []"
  shows "\<exists>m' S'. drop_last_voxel m S = Inr (m', S') \<and> vmap_ok m' S' \<and> vp_lru m' = vp_lru m
    \<and> visual_keys m' = (if usize (vp_lru m) \<le> length (vp_data m) then butlast (visual_keys m) else visual_keys m)
    \<and> set (all_points m') \<subseteq> set (all_points m) \<and> vs_points S' = vs_points S |` (- (set (all_points m) - set (all_points m')))"
proof (cases "usize (vp_lru m) \<le> length (vp_data m)")
  case False
  then show ?thesis using assms by (simp add: drop_last_voxel_def restrict_map_def)
next
  case True
  obtain ds i l as k where e: "vp_data m = ds @ [(i, l, as, k)]" using assms(2) by (metis append_butlast_last_id prod.exhaust)
  note ok = assms(1)[unfolded vmap_ok_def]
  have okm: "\<And>l i. vp_map m l = Some i \<longleftrightarrow> (\<exists>as k. (i, l, as, k) \<in> set (vp_data m))" using ok by blast
  define X where "X = concat (map (\<lambda>(i, l, as, k). as) ds)"
  have pts: "all_points m = X @ as" by (simp add: all_points_def e X_def)
  have keys: "visual_keys m = map (\<lambda>(i, l, as, k). l) ds @ [l]" by (simp add: visual_keys_def e)
  have "\<exists>S'. foldR delete_point as S = Inr S' \<and> store_ok S' \<and> vs_points S' = vs_points S |` (- set as) \<and> vs_next S' = vs_next S"
    using ok unfolding pts by (intro delete_points_ok) auto
  then obtain S' where S': "foldR delete_point as S = Inr S'" "store_ok S'" "vs_points S' = vs_points S |` (- set as)" by blast
  define m' where "m' = m\<lparr>vp_map := (vp_map m)(l := None), vp_data := ds\<rparr>"
  have d: "drop_last_voxel m S = Inr (m', S')" using True S'(1) by (simp add: drop_last_voxel_def e m'_def)
  have pts': "all_points m' = X" by (simp add: m'_def all_points_def X_def)
  have "set as = set (all_points m) - set (all_points m')" using ok unfolding pts pts' by auto
  then have r: "vs_points S' = vs_points S |` (- (set (all_points m) - set (all_points m')))" using S'(3) by simp
  have l: "l \<notin> (\<lambda>(i, l, as, k). l) ` set ds" using ok unfolding keys by auto
  have mp: "vp_map m' l' = Some j \<longleftrightarrow> (\<exists>as k. (j, l', as, k) \<in> set (vp_data m'))" for l' j
  proof (cases "l' = l")
    case True
    have "(j, l, bs, c) \<notin> set ds" for bs c using l by force
    then show ?thesis using True by (simp add: m'_def)
  next
    case False
    then have "vp_map m' l' = vp_map m l'" by (simp add: m'_def)
    then show ?thesis using okm[of l' j] False by (auto simp: e m'_def)
  qed
  have "vmap_ok m' S'"
    unfolding vmap_ok_def
  proof (intro conjI)
    show "\<forall>l i. vp_map m' l = Some i \<longleftrightarrow> (\<exists>as k. (i, l, as, k) \<in> set (vp_data m'))" using mp by blast
    show "distinct (visual_keys m')" using ok unfolding keys by (simp add: m'_def visual_keys_def)
    show "distinct (all_points m')" using ok unfolding pts pts' by simp
    show "\<forall>a \<in> set (all_points m'). vs_points S' a \<noteq> None" using ok S'(3) unfolding pts pts' by (auto simp: restrict_map_def)
  qed (use ok S'(2) in \<open>auto simp: m'_def e\<close>)
  moreover have "visual_keys m' = butlast (visual_keys m)" unfolding keys by (simp add: m'_def visual_keys_def)
  ultimately show ?thesis using d r True pts pts' by (intro exI[of _ m'] exI[of _ S']) (simp add: m'_def)
qed

text \<open>
  C7 visual_map_lru: putting a new point into a consistent map succeeds and leaves a
  consistent map: the voxel of the point is first, the last one is dropped when their
  number reaches lru_size_, exactly the points of a dropped voxel are freed, each once
  and with its own features, and every other point is untouched.
\<close>

theorem visual_map_lru:
  assumes "vmap_ok m S" "vs_points S a = Some p" "a \<notin> set (all_points m)" "position (1 / 2) (v_pos p) = Inr l"
  shows "\<exists>m' S'. InsertPointIntoFeatureMapLRU a m S = Inr (m', S') \<and> vmap_ok m' S'
    \<and> visual_keys m' = (if l \<in> set (visual_keys m) then l # remove1 l (visual_keys m)
        else if usize (vp_lru m) \<le> length (visual_keys m) + 1 then butlast (l # visual_keys m) else l # visual_keys m)
    \<and> (\<forall>b. vs_points S' b = (if b \<in> insert a (set (all_points m)) \<and> b \<notin> set (all_points m') then None else vs_points S b))"
proof (cases "l \<in> set (visual_keys m)")
  case True
  note ok = assms(1)[unfolded vmap_ok_def]
  have okm: "\<And>l i. vp_map m l = Some i \<longleftrightarrow> (\<exists>as k. (i, l, as, k) \<in> set (vp_data m))" using ok by blast
  obtain i as k where e: "(i, l, as, k) \<in> set (vp_data m)" using True by (auto simp: visual_keys_def)
  then have mp: "vp_map m l = Some i" using okm by blast
  have mo: "map_of (vp_data m) i = Some (l, as, k)" using ok by (intro map_of_is_SomeI e) blast
  define m' where "m' = m\<lparr>vp_data := (i, l, as @ [a], k + 1) # filter (\<lambda>(j, e). j \<noteq> i) (vp_data m)\<rparr>"
  obtain xs ys where d: "vp_data m = xs @ (i, l, as, k) # ys" using e by (meson split_list)
  have "distinct (map fst (vp_data m))" using ok by blast
  then have ni: "i \<notin> fst ` set xs" "i \<notin> fst ` set ys" unfolding d by simp_all
  then have "filter (\<lambda>e. fst e \<noteq> i) xs = xs" "filter (\<lambda>e. fst e \<noteq> i) ys = ys" unfolding filter_id_conv by (metis imageI)+
  then have fl: "filter (\<lambda>(j, e). j \<noteq> i) (vp_data m) = xs @ ys" unfolding d by (simp add: case_prod_beta')
  have m': "vp_data m' = (i, l, as @ [a], k + 1) # xs @ ys" "vp_map m' = vp_map m" "vp_next m' = vp_next m" by (simp_all add: m'_def fl)
  have I: "InsertPointIntoFeatureMapLRU a m S = Inr (m', S)"
    using assms(2,4) mp mo by (simp add: InsertPointIntoFeatureMapLRU_def get_point_def m'_def)
  define X Y where "X = concat (map (\<lambda>(i, l, as, k). as) xs)" and "Y = concat (map (\<lambda>(i, l, as, k). as) ys)"
  define P Q where "P = map (\<lambda>(i, l :: loc, as :: nat list, k :: int). l) xs" and "Q = map (\<lambda>(i, l :: loc, as :: nat list, k :: int). l) ys"
  have pts: "all_points m' = as @ a # X @ Y" "all_points m = X @ as @ Y" by (simp_all add: all_points_def m' d X_def Y_def)
  have ks: "visual_keys m' = l # P @ Q" "visual_keys m = P @ l # Q" by (simp_all add: visual_keys_def m' d P_def Q_def)
  have lx: "l \<notin> set P" using ok unfolding ks by simp
  have "vmap_ok m' S"
    unfolding vmap_ok_def
  proof (intro conjI)
    show "store_ok S" using ok by blast
    show "distinct (map fst (vp_data m'))" "\<forall>e \<in> set (vp_data m'). fst e < vp_next m'" using ok unfolding m' d by auto
    show "distinct (visual_keys m')" using ok unfolding ks by auto
    show "distinct (all_points m')" using ok assms(3) unfolding pts by auto
    show "\<forall>b \<in> set (all_points m'). vs_points S b \<noteq> None" using ok assms(2) unfolding pts by auto
    show "\<forall>l' j. vp_map m' l' = Some j \<longleftrightarrow> (\<exists>as k. (j, l', as, k) \<in> set (vp_data m'))"
    proof (intro allI)
      fix l' j
      show "vp_map m' l' = Some j \<longleftrightarrow> (\<exists>as k. (j, l', as, k) \<in> set (vp_data m'))" unfolding m'(2) okm m'(1) d
        by (simp only: set_append list.set Un_iff insert_iff prod.inject) blast
    qed
  qed
  moreover have "visual_keys m' = l # remove1 l (visual_keys m)" unfolding ks using lx by (simp add: remove1_append)
  moreover have "insert a (set (all_points m)) \<subseteq> set (all_points m')" unfolding pts by auto
  ultimately show ?thesis using I True by (intro exI[of _ m'] exI[of _ S]) auto
next
  case False
  note ok = assms(1)[unfolded vmap_ok_def]
  have okm: "\<And>l i. vp_map m l = Some i \<longleftrightarrow> (\<exists>as k. (i, l, as, k) \<in> set (vp_data m))" using ok by blast
  have mp: "vp_map m l = None"
  proof (cases "vp_map m l")
    case (Some i)
    then obtain as k where "(i, l, as, k) \<in> set (vp_data m)" using okm by blast
    then have "l \<in> set (visual_keys m)" by (force simp: visual_keys_def)
    then show ?thesis using False by simp
  qed
  define m1 where "m1 = m\<lparr>vp_data := (vp_next m, l, [a], 0) # vp_data m, vp_map := (vp_map m)(l \<mapsto> vp_next m), vp_next := vp_next m + 1\<rparr>"
  have I: "InsertPointIntoFeatureMapLRU a m S = drop_last_voxel m1 S"
    using assms(2,4) mp by (simp add: InsertPointIntoFeatureMapLRU_def get_point_def m1_def)
  have parts: "visual_keys m1 = l # visual_keys m" "all_points m1 = a # all_points m" "length (vp_data m1) = length (visual_keys m) + 1" "vp_lru m1 = vp_lru m" "vp_data m1 \<noteq> []"
    by (simp_all add: m1_def visual_keys_def all_points_def)
  have fr: "vp_next m \<notin> fst ` set (vp_data m)" using ok by auto
  have "vmap_ok m1 S"
    unfolding vmap_ok_def
  proof (intro conjI)
    show "store_ok S" using ok by blast
    show "distinct (map fst (vp_data m1))" "\<forall>e \<in> set (vp_data m1). fst e < vp_next m1" using ok fr by (auto simp: m1_def)
    show "distinct (visual_keys m1)" using ok False unfolding parts by simp
    show "distinct (all_points m1)" "\<forall>b \<in> set (all_points m1). vs_points S b \<noteq> None" using ok assms(2,3) unfolding parts by auto
    show "\<forall>l' j. vp_map m1 l' = Some j \<longleftrightarrow> (\<exists>as k. (j, l', as, k) \<in> set (vp_data m1))"
    proof (intro allI)
      fix l' j
      have "(j, l, as, k) \<notin> set (vp_data m)" for as k using mp okm[of l j] by simp
      then show "vp_map m1 l' = Some j \<longleftrightarrow> (\<exists>as k. (j, l', as, k) \<in> set (vp_data m1))" using okm[of l' j] by (cases "l' = l") (auto simp: m1_def)
    qed
  qed
  from drop_last_ok[OF this parts(5)] obtain m' S' where d: "drop_last_voxel m1 S = Inr (m', S')" "vmap_ok m' S'"
    "visual_keys m' = (if usize (vp_lru m1) \<le> length (vp_data m1) then butlast (visual_keys m1) else visual_keys m1)"
    "set (all_points m') \<subseteq> set (all_points m1)" "vs_points S' = vs_points S |` (- (set (all_points m1) - set (all_points m')))" by blast
  show ?thesis using False d unfolding I parts by (intro exI[of _ m'] exI[of _ S']) (auto simp: restrict_map_def)
qed

lemma visual_map_lru_witness:
  "\<exists>m' S'. InsertPointIntoFeatureMapLRU 0 no_voxels (no_store\<lparr>vs_points := [0 \<mapsto> VisualPoint [] (0, 0, 2)], vs_next := 1\<rparr>) = Inr (m', S')
     \<and> visual_keys m' = [(0, 0, 4)]"
proof -
  let ?S = "no_store\<lparr>vs_points := [0 \<mapsto> VisualPoint [] (0, 0, 2)], vs_next := 1\<rparr>"
  have "vmap_ok no_voxels ?S"
    by (auto simp: vmap_ok_def store_ok_def no_voxels_def no_store_def visual_keys_def all_points_def VisualPoint_def)
  moreover have "position (1 / 2) (v_pos (VisualPoint [] (0, 0, 2))) = Inr (0, 0, 4)"
    by (simp add: VisualPoint_def voxel_index_def scaled_def truncate_rat_def int64_def)
  ultimately show ?thesis
    using visual_map_lru[of no_voxels ?S 0 "VisualPoint [] (0, 0, 2)" "(0, 0, 4)"]
    by (auto simp: visual_keys_def all_points_def no_voxels_def usize_def)
qed

end
