(* ===== verification/Visual_Retrieve.thy ===== *)
theory Visual_Retrieve
  imports Visual_Map
begin

text \<open>
  Choosing points of the visual map for a frame, making new ones and adding views to them
  (edge/src/FAST-LIVO2/src/vio.cpp): RetrieveFromVisualSparseMapLRU,
  GenerateVisualMapPoints, UpdateVisualMapPoints and UpdateReferencePatch.  The order in
  which a hash table is run through, and what a variable without a value holds, are
  arguments.
\<close>

section \<open>Retrieving points\<close>

text \<open>
  The libraries the visual part uses, the order of a hash table, and what a variable
  without a value happens to hold.
\<close>

record visual_env =
  ve_libm :: libm
  ve_numeric :: numeric
  ve_voxels :: voxel_config
  ve_inverse :: "mat \<Rightarrow> mat"
  ve_order :: "loc list \<Rightarrow> loc list"
  ve_junk :: rat
  ve_junk_point :: point_with_var
  ve_junk_cov :: mat

text \<open>The voxel of a place as this function computes it: rounded down, and one less below zero.\<close>

definition floor_index :: "rat \<Rightarrow> int res" where
  "floor_index c = bindR (to_int (of_int \<lfloor>c / (1 / 2)\<rfloor>)) (\<lambda>i. Inr (if i < 0 then i - 1 else i))"

fun floor_position :: "vec \<Rightarrow> loc res" where
  "floor_position (x, y, z) = bindR (floor_index x) (\<lambda>i. bindR (floor_index y) (\<lambda>j. bindR (floor_index z) (\<lambda>k. Inr (i, j, k))))"

definition w2f :: "vio \<Rightarrow> vec \<Rightarrow> vec" where
  "w2f V = se3_apply (fr_T (vo_frame V))"

definition f2w :: "vio \<Rightarrow> vec \<Rightarrow> vec" where
  "f2w V = se3_apply (se3_inverse (fr_T (vo_frame V)))"

definition w2c :: "vio \<Rightarrow> vec \<Rightarrow> px res" where
  "w2c V p = world2cam (vo_cam V) (w2f V p)"

definition frame_pos :: "vio \<Rightarrow> vec" where
  "frame_pos V = snd (se3_inverse (fr_T (vo_frame V)))"

text \<open>Where a point is seen, when it is in the frame and away from its border.\<close>

definition seen_at :: "vio \<Rightarrow> vec \<Rightarrow> px option res" where
  "seen_at V p = bindR (w2c V p) (\<lambda>pc. bindR (px_int pc) (\<lambda>q. Inr (if isInFrame (vo_cam V) q (vo_border V) then Some pc else None)))"

text \<open>The depth image: the depths written so far, and zero elsewhere.\<close>

type_synonym depths = "int \<rightharpoonup> rat"

definition in_image :: "vio \<Rightarrow> int \<Rightarrow> bool" where
  "in_image V i = (0 \<le> i \<and> i < vo_width V * cam_height (vo_cam V))"

definition note_depth :: "vio \<Rightarrow> vec \<Rightarrow> depths \<Rightarrow> depths res" where
  "note_depth V p d = (let c = w2f V p in if component c 2 \<le> 0 then Inr d
     else bindR (world2cam (vo_cam V) c) (\<lambda>pc. bindR (px_int pc) (\<lambda>(u, v).
       if \<not> isInFrame (vo_cam V) (u, v) (vo_border V) then Inr d
       else let i = vo_width V * v + u in if in_image V i then Inr (d(i \<mapsto> component c 2)) else Inl OutOfBounds)))"

definition note_point :: "vio \<Rightarrow> point_with_var \<Rightarrow> loc list \<times> depths \<Rightarrow> (loc list \<times> depths) res" where
  "note_point V pv st = (case st of (ls, d) \<Rightarrow> bindR (floor_position (point_w pv)) (\<lambda>l.
     bindR (note_depth V (point_w pv) d) (\<lambda>d'. Inr (if l \<in> set ls then ls else ls @ [l], d'))))"

text \<open>A point of the visual map against the grid: the nearest of a cell is kept.\<close>

definition see_point :: "visual_env \<Rightarrow> nat \<Rightarrow> vio \<times> bool \<Rightarrow> (vio \<times> bool) res" where
  "see_point E a st = (case st of (V, fov) \<Rightarrow> bindR (get_point (vo_store V) a) (\<lambda>p.
     if v_obs p = [] \<or> component (w2f V (v_pos p)) 2 < 0 then Inr (V, fov)
     else bindR (seen_at V (v_pos p)) (\<lambda>s. case s of None \<Rightarrow> Inr (V, fov)
       | Some pc \<Rightarrow> bindR (cell_index V pc) (\<lambda>i. bindR (put_cell i TYPE_MAP (vo_grid_num V)) (\<lambda>g. bindR (at_cell i (vo_map_dist V)) (\<lambda>d.
           let cur = norm3 (ve_libm E) (vsub (frame_pos V) (v_pos p)); V1 = V\<lparr>vo_grid_num := g\<rparr> in
           if cur \<le> d then bindR (put_cell i cur (vo_map_dist V)) (\<lambda>ds. bindR (put_cell i (Some a) (vo_retrieve V)) (\<lambda>rs.
             Inr (V1\<lparr>vo_map_dist := ds, vo_retrieve := rs\<rparr>, True)))
           else Inr (V1, True)))))))"

definition see_voxel :: "visual_env \<Rightarrow> loc \<Rightarrow> vio \<times> loc list \<Rightarrow> (vio \<times> loc list) res" where
  "see_voxel E l st = (case st of (V, del) \<Rightarrow> (case vp_map (vo_vp V) l of None \<Rightarrow> Inr (V, del)
     | Some i \<Rightarrow> bindR (voxel_points i (vo_vp V)) (\<lambda>as. bindR (foldR (see_point E) as (V, False)) (\<lambda>(V', fov).
         Inr (V', if fov then del else del @ [l])))))"

text \<open>Along the ray of an empty cell, to the first voxel of the visual map or plane of the voxel map.\<close>

definition plane_at :: "visual_env \<Rightarrow> vec \<Rightarrow> octree \<Rightarrow> voxel_plane res" where
  "plane_at E p t = (case node_at t (FindCorrespond (ve_voxels E) p t) of None \<Rightarrow> Inl NullDeref | Some n \<Rightarrow> Inr (plane n))"

fun cast_ray :: "visual_env \<Rightarrow> voxel_map \<Rightarrow> vec list \<Rightarrow> vio \<Rightarrow> vio res" where
  "cast_ray E vm [] V = Inr V"
| "cast_ray E vm (s # ss) V = (let w = f2w V s in bindR (floor_position w) (\<lambda>l.
     if l \<in> set (vo_sub_feat V) then Inr V
     else case vp_map (vo_vp V) l of
       Some i \<Rightarrow> bindR (voxel_points i (vo_vp V)) (\<lambda>as. if as = [] then cast_ray E vm ss V
         else bindR (foldR (see_point E) as (V, False)) (\<lambda>(V', fov). Inr (if fov then V'\<lparr>vo_sub_feat := vo_sub_feat V' @ [l]\<rparr> else V')))
     | None \<Rightarrow> (case vm_map vm l of None \<Rightarrow> cast_ray E vm ss V
         | Some j \<Rightarrow> bindR (node_tree j vm) (\<lambda>t. bindR (plane_at E w t) (\<lambda>pl. if is_plane pl
             then Inr (V\<lparr>vo_sub := (vo_sub V)\<lparr>sm_from_voxel_map := sm_from_voxel_map (vo_sub V)
                 @ [(ve_junk_point E)\<lparr>point_w := pl_center pl, pv_normal := pl_normal pl\<rparr>]\<rparr>\<rparr>)
             else cast_ray E vm ss V)))))"

definition raycast_cell :: "visual_env \<Rightarrow> voxel_map \<Rightarrow> nat \<Rightarrow> vio \<Rightarrow> vio res" where
  "raycast_cell E vm i V = bindR (at_cell (int i) (vo_grid_num V)) (\<lambda>g. if g = TYPE_MAP then Inr V
     else bindR (at_cell (int i) (vo_border_flag V)) (\<lambda>b. if b then Inr V
       else bindR (at_cell (int i) (vo_rays V)) (\<lambda>ray. cast_ray E vm ray V)))"

text \<open>Whether a measured depth close by differs by more than half a metre.\<close>

fun discontinuous :: "vio \<Rightarrow> depths \<Rightarrow> rat \<Rightarrow> int \<times> int \<Rightarrow> (int \<times> int) list \<Rightarrow> bool res" where
  "discontinuous V d z (u, v) [] = Inr False"
| "discontinuous V d z (u, v) ((du, dv) # cs) = (if du = 0 \<and> dv = 0 then discontinuous V d z (u, v) cs
     else let i = vo_width V * (dv + v) + du + u in if \<not> in_image V i then Inl OutOfBounds
     else case d i of None \<Rightarrow> discontinuous V d z (u, v) cs
       | Some x \<Rightarrow> if x \<noteq> 0 \<and> 1 / 2 < \<bar>z - x\<bar> then Inr True else discontinuous V d z (u, v) cs)"

definition around :: "int \<Rightarrow> (int \<times> int) list" where
  "around h = concat (map (\<lambda>u. map (\<lambda>v. (u, v)) [- h..h]) [- h..h])"

text \<open>
  The reference patch: the only one, the chosen one, or the one with the least
  photometric error against those of other frames.  With no patch of another frame
  the error is 0/0, and no comparison with it holds.
\<close>

definition patch_error :: "nat \<Rightarrow> rat list \<Rightarrow> rat list \<Rightarrow> rat res" where
  "patch_error n a b = (if length a < n \<or> length b < n then Inl OutOfBounds
     else Inr (sum_list (map2 (\<lambda>x y. (x - y) * (x - y)) (take n a) (take n b))))"

definition photometric :: "visual_store \<Rightarrow> nat \<Rightarrow> feature \<Rightarrow> nat list \<Rightarrow> (rat \<times> nat) res" where
  "photometric S n x fs = foldR (\<lambda>g (e, k). bindR (get_feature S g) (\<lambda>y. if f_id y = f_id x then Inr (e, k)
     else bindR (patch_error n (f_patch x) (f_patch y)) (\<lambda>d. Inr (e + d, k + 1)))) fs (0, 0)"

definition least_error :: "visual_store \<Rightarrow> nat \<Rightarrow> nat list \<Rightarrow> nat option res" where
  "least_error S n fs = bindR (foldR (\<lambda>f best. bindR (get_feature S f) (\<lambda>x. bindR (photometric S n x fs) (\<lambda>(e, k).
     Inr (if k = 0 then best else case best of None \<Rightarrow> Some (e / of_nat k, f)
       | Some (m, g) \<Rightarrow> if e / of_nat k < m then Some (e / of_nat k, f) else best)))) fs None) (\<lambda>b. Inr (map_option snd b))"

definition reference :: "visual_env \<Rightarrow> nat \<Rightarrow> vio \<Rightarrow> (nat option \<times> vio) res" where
  "reference E a V = bindR (get_point (vo_store V) a) (\<lambda>p. let S = vo_store V;
       take_ref = (\<lambda>f. (Some f, V\<lparr>vo_store := set_point a (p\<lparr>v_ref := FeatureAt f, v_has_ref := True\<rparr>) S\<rparr>)) in
     if \<not> vo_normal_en V then bindR (getCloseViewObs (ve_libm E) S p (frame_pos V)) (\<lambda>f. Inr (f, V))
     else if length (v_obs p) = 1 then Inr (take_ref (hd (v_obs p)))
     else if \<not> v_has_ref p then bindR (least_error S (nat (patch_size_total (vo_dims V))) (v_obs p)) (\<lambda>b.
       case b of None \<Rightarrow> Inl Undefined | Some f \<Rightarrow> Inr (take_ref f))
     else case v_ref p of FeatureAt f \<Rightarrow> Inr (Some f, V) | NullFeature \<Rightarrow> Inl NullDeref | Indeterminate \<Rightarrow> Inl Undefined)"

text \<open>The warp from the reference frame to this one, with its level; without normals it is kept for the frame.\<close>

definition warp_to_frame :: "visual_env \<Rightarrow> visual_point \<Rightarrow> feature \<Rightarrow> vio \<Rightarrow> (nat \<times> mat2 \<times> vio) res" where
  "warp_to_frame E p x V = (let T = se3_mul (fr_T (vo_frame V)) (se3_inverse (f_T x)) in
     if vo_normal_en V then bindR (GetWarpMatrixAffineHomography (vo_cam V) (f_px x) (se3_apply (f_T x) (v_pos p))
         (normalized (ve_libm E) (m3_vec (fst (f_T x)) (v_normal p))) T 0) (\<lambda>A. Inr (GetBestSearchLevel A 2, A, V))
     else case vo_warp_map V (f_id x) of Some (n, A) \<Rightarrow> Inr (n, A, V)
       | None \<Rightarrow> bindR (GetWarpMatrixAffine (vo_cam V) (f_px x) (f_f x) (norm3 (ve_libm E) (vsub (feature_pos x) (v_pos p))) T (f_level x) 0
           (patch_size_half (vo_dims V))) (\<lambda>A. let n = GetBestSearchLevel A 2 in Inr (n, A, V\<lparr>vo_warp_map := (vo_warp_map V)(f_id x \<mapsto> (n, A))\<rparr>)))"

definition warped_patches :: "vio \<Rightarrow> feature \<Rightarrow> nat \<Rightarrow> mat2 \<Rightarrow> rat list res" where
  "warped_patches V x n A = foldR (\<lambda>k buf. WarpAffine (vo_dims V) A (f_img x) (f_px x) n k (patch_size_half (vo_dims V)) buf)
     [0..<nat (vo_pyramid V)] (replicate (nat (vo_warp_len V)) 0)"

definition exposure_error :: "nat \<Rightarrow> rat \<Rightarrow> rat \<Rightarrow> rat list \<Rightarrow> rat list \<Rightarrow> rat res" where
  "exposure_error n k1 k2 a b = patch_error n (map ((*) k1) a) (map ((*) k2) b)"

text \<open>The point of a cell into the sub-map, when its patch looks the same.\<close>

definition retrieve_cell :: "visual_env \<Rightarrow> image \<Rightarrow> states_group \<Rightarrow> depths \<Rightarrow> nat \<Rightarrow> vio \<Rightarrow> vio res" where
  "retrieve_cell E img s d i V = bindR (at_cell (int i) (vo_grid_num V)) (\<lambda>g. if g \<noteq> TYPE_MAP then Inr V
     else bindR (at_cell (int i) (vo_retrieve V)) (\<lambda>r. case r of None \<Rightarrow> Inl NullDeref
     | Some a \<Rightarrow> bindR (get_point (vo_store V) a) (\<lambda>p. bindR (w2c V (v_pos p)) (\<lambda>pc. bindR (px_int pc) (\<lambda>q.
       bindR (discontinuous V d (component (w2f V (v_pos p)) 2) q (around (patch_size_half (vo_dims V)))) (\<lambda>gap.
       if gap \<or> \<not> v_normal_init p then Inr V
       else bindR (reference E a V) (\<lambda>(f, V1). case f of None \<Rightarrow> Inr V1
         | Some f \<Rightarrow> bindR (get_feature (vo_store V1) f) (\<lambda>x. bindR (warp_to_frame E p x V1) (\<lambda>(n, A, V2).
           bindR (warped_patches V2 x n A) (\<lambda>wrap. bindR (GetImagePatch (vo_dims V2) img pc (vo_patch_buffer V2) 0) (\<lambda>buf.
           let V3 = V2\<lparr>vo_patch_buffer := buf\<rparr>; total = nat (patch_size_total (vo_dims V)) in
           bindR (exposure_error total (f_inv_expo x) (inv_expo_time s) wrap buf) (\<lambda>err.
           bindR (if vo_ncc_en V then CalculateNCC (ve_libm E) (take total wrap) (take total buf) else Inr (vo_ncc_thre V)) (\<lambda>ncc.
           if ncc < vo_ncc_thre V \<or> vo_outlier V * of_nat total < err then Inr V3
           else let m = vo_sub V3 in Inr (V3\<lparr>vo_sub := m\<lparr>sm_points := sm_points m @ [a], sm_propa_errors := sm_propa_errors m @ [err],
             sm_search_levels := sm_search_levels m @ [n], sm_errors := sm_errors m @ [err], sm_warp_patch := sm_warp_patch m @ [wrap],
             sm_inv_expo := sm_inv_expo m @ [f_inv_expo x]\<rparr>\<rparr>))))))))))))))"

definition RetrieveFromVisualSparseMapLRU :: "visual_env \<Rightarrow> image \<Rightarrow> states_group \<Rightarrow> point_with_var list \<Rightarrow> voxel_map \<Rightarrow> vio \<Rightarrow> vio res" where
  "RetrieveFromVisualSparseMapLRU E img s pvs vm V = (if vp_data (vo_vp V) = [] then Inr V
     else let V0 = V\<lparr>vo_sub := SubSparseMap, vo_warp_map := (if vo_normal_en V then vo_warp_map V else Map.empty)\<rparr> in
     bindR (foldR (note_point V0) pvs ([], Map.empty)) (\<lambda>(ls, d).
     bindR (foldR (see_voxel E) (ve_order E ls) (V0\<lparr>vo_sub_feat := ls\<rparr>, [])) (\<lambda>(V1, del).
     bindR (if vo_raycast_en V then foldR (raycast_cell E vm) [0..<nat (vo_length V)] V1 else Inr V1) (\<lambda>V2.
     bindR (foldR (retrieve_cell E img s d) [0..<nat (vo_length V)] (V2\<lparr>vo_sub_feat := filter (\<lambda>l. l \<notin> set del) (vo_sub_feat V2)\<rparr>)) (\<lambda>V3.
       Inr (V3\<lparr>vo_total := length (sm_points (vo_sub V3))\<rparr>))))))"

section \<open>New points\<close>

text \<open>A point of the scan is offered to its cell: the best corner of a cell without a point of the map is kept.\<close>

definition offer_point :: "visual_env \<Rightarrow> image \<Rightarrow> point_with_var \<Rightarrow> vio \<Rightarrow> vio res" where
  "offer_point E img pv V = bindR (w2c V (point_w pv)) (\<lambda>pc. bindR (px_int pc) (\<lambda>(u, v).
     if \<not> isInFrame (vo_cam V) (u, v) (vo_border V) then Inr V
     else bindR (cell_index V pc) (\<lambda>i. bindR (at_cell i (vo_grid_num V)) (\<lambda>g. if g = TYPE_MAP then Inr V
       else bindR (shiTomasiScore (ve_libm E) img u v) (\<lambda>cur. bindR (at_cell i (vo_scan_value V)) (\<lambda>best. if cur \<le> best then Inr V
         else bindR (put_cell i cur (vo_scan_value V)) (\<lambda>sv. bindR (put_cell i pv (vo_append V)) (\<lambda>ap. bindR (put_cell i TYPE_POINTCLOUD (vo_grid_num V)) (\<lambda>gn.
           Inr (V\<lparr>vo_scan_value := sv, vo_append := ap, vo_grid_num := gn\<rparr>))))))))))"

definition append_cell :: "visual_env \<Rightarrow> image \<Rightarrow> states_group \<Rightarrow> nat \<Rightarrow> vio \<Rightarrow> vio res" where
  "append_cell E img s i V = bindR (at_cell (int i) (vo_grid_num V)) (\<lambda>g. if g \<noteq> TYPE_POINTCLOUD then Inr V
     else bindR (at_cell (int i) (vo_append V)) (\<lambda>pv. let T = fr_T (vo_frame V); L = ve_libm E; pt = point_w pv;
       cos_theta = vdot (normalized L (se3_apply T pt)) (m3_vec (fst T) (pv_normal pv)) in
     bindR (w2c V pt) (\<lambda>pc. bindR (GetImagePatch (vo_dims V) img pc (replicate (nat (patch_size_total (vo_dims V))) 0) 0) (\<lambda>patch.
     bindR (cam2world (vo_cam V) pc) (\<lambda>f. let n = (if cos_theta < 0 then vscale (- 1) (pv_normal pv) else pv_normal pv) in
       case new_feature (Feature patch pc f T 0 img (fr_id (vo_frame V)) (inv_expo_time s)) (vo_store V) of (b, S1) \<Rightarrow>
       case new_point ((VisualPoint (ve_junk_cov E) pt)\<lparr>v_obs := [b], v_cov := pv_var pv, v_normal_init := True, v_normal := n, v_prev_normal := n\<rparr>) S1 of (a, S2) \<Rightarrow>
       bindR (InsertPointIntoFeatureMapLRU a (vo_vp V) S2) (\<lambda>(m, S3). Inr (V\<lparr>vo_vp := m, vo_store := S3\<rparr>)))))))"

definition GenerateVisualMapPoints :: "visual_env \<Rightarrow> image \<Rightarrow> states_group \<Rightarrow> point_with_var list \<Rightarrow> vio \<Rightarrow> vio res" where
  "GenerateVisualMapPoints E img s pvs V = (if length pvs \<le> 10 then Inr V
     else bindR (foldR (offer_point E img) (filter (\<lambda>pv. pv_normal pv \<noteq> (0, 0, 0)) pvs @ sm_from_voxel_map (vo_sub V)) V) (\<lambda>V1.
       foldR (append_cell E img s) [0..<nat (vo_length V)] V1))"

section \<open>New views of the points\<close>

text \<open>The angle between two poses.\<close>

definition pose_angle :: "libm \<Rightarrow> mat3 \<Rightarrow> rat" where
  "pose_angle L R = (if 3 - 1 / 10 ^ 6 < m3_trace R then 0 else l_acos L (1 / 2 * (m3_trace R - 1)))"

text \<open>An observation is added when the camera has moved, turned or sees the point elsewhere.\<close>

definition worth_adding :: "libm \<Rightarrow> se3 \<Rightarrow> px \<Rightarrow> feature \<Rightarrow> bool" where
  "worth_adding L T pc last_feature = (let D = se3_mul (f_T last_feature) (se3_inverse T); e = px_sub pc (f_px last_feature) in
     1 / 2 < norm3 L (snd D) \<or> 3 / 10 < pose_angle L (fst D) \<or> 40 < l_sqrt L (fst e * fst e + snd e * snd e))"

text \<open>With thirty views the one with the least score goes; the new one is kept or its patch lost.\<close>

definition drop_worst :: "nat \<Rightarrow> visual_point \<Rightarrow> visual_store \<Rightarrow> visual_store res" where
  "drop_worst a p S = (if 30 \<le> length (v_obs p) then bindR (findMinScoreFeature S p) (\<lambda>f. deleteFeatureRef a f S) else Inr S)"

definition store_view :: "image \<Rightarrow> states_group \<Rightarrow> nat \<Rightarrow> nat \<Rightarrow> px \<Rightarrow> rat list \<Rightarrow> bool \<Rightarrow> vio \<Rightarrow> visual_store \<Rightarrow> vio res" where
  "store_view img s i a pc patch add V S = (if \<not> add then Inr (V\<lparr>vo_store := S\<lparr>vs_leaked := vs_leaked S + 1\<rparr>\<rparr>)
     else bindR (put_cell (int i) True (vo_update_flag V)) (\<lambda>uf. bindR (cam2world (vo_cam V) pc) (\<lambda>f.
       bindR (at_cell (int i) (sm_search_levels (vo_sub V))) (\<lambda>n.
         case new_feature (Feature patch pc f (fr_T (vo_frame V)) n img (fr_id (vo_frame V)) (inv_expo_time s)) S of (b, S1) \<Rightarrow>
         bindR (addFrameRef a b S1) (\<lambda>S2. Inr (V\<lparr>vo_update_flag := uf, vo_store := S2\<rparr>))))))"

definition update_visual_point :: "visual_env \<Rightarrow> image \<Rightarrow> states_group \<Rightarrow> nat \<Rightarrow> vio \<Rightarrow> vio res" where
  "update_visual_point E img s i V = bindR (at_cell (int i) (sm_points (vo_sub V))) (\<lambda>a. bindR (get_point (vo_store V) a) (\<lambda>p.
     if v_converged p then bindR (deleteNonRefPatchFeatures a (vo_store V)) (\<lambda>S. Inr (V\<lparr>vo_store := S\<rparr>))
     else bindR (w2c V (v_pos p)) (\<lambda>pc.
       bindR (GetImagePatch (vo_dims V) img pc (replicate (nat (patch_size_total (vo_dims V))) 0) 0) (\<lambda>patch.
       if v_obs p = [] then Inl Undefined
       else bindR (get_feature (vo_store V) (last (v_obs p))) (\<lambda>lf.
         bindR (drop_worst a p (vo_store V)) (\<lambda>S. store_view img s i a pc patch (worth_adding (ve_libm E) (fr_T (vo_frame V)) pc lf) V S))))))"

definition UpdateVisualMapPoints :: "visual_env \<Rightarrow> image \<Rightarrow> states_group \<Rightarrow> vio \<Rightarrow> vio res" where
  "UpdateVisualMapPoints E img s V = foldR (update_visual_point E img s) [0..<vo_total V] V"

section \<open>Normals and reference patches\<close>

text \<open>
  The normal of the plane a point lies on, and whether it has settled.  The plane's
  covariance may be spoiled, and no comparison with it holds.
\<close>

definition settle_normal :: "visual_env \<Rightarrow> voxel_plane \<Rightarrow> visual_point \<Rightarrow> visual_point" where
  "settle_normal E pl p = (let pv = (ve_junk_point E)\<lparr>point_w := v_pos p, pv_var := v_cov p\<rparr>; nm = ve_numeric E in
     if in_reach nm pl (v_pos p) \<and> (case sigma_l pl pv of None \<Rightarrow> False
         | Some v \<Rightarrow> 0 \<le> v \<and> \<bar>plane_distance pl (v_pos p)\<bar> < 3 * sqrtf nm v)
     then let n = (if vdot (v_prev_normal p) (pl_normal pl) < 0 then vscale (- 1) (pl_normal pl) else pl_normal pl) in
       p\<lparr>v_normal := n, v_prev_normal := n,
         v_converged := (if norm3 (ve_libm E) (vsub n (v_prev_normal p)) < 1 / 10000 \<and> 10 < length (v_obs p) then True else v_converged p)\<rparr>
     else p)"

text \<open>
  The correlations of a patch with those of other frames.  The corr_sums go on from one
  patch to the next; a mean that is known already is not put into the variable.
\<close>

definition cached_mean :: "visual_env \<Rightarrow> nat \<Rightarrow> nat \<Rightarrow> visual_store \<Rightarrow> (rat \<times> visual_store) res" where
  "cached_mean E n f S = bindR (get_feature S f) (\<lambda>x. if 1 / 10 ^ 6 \<le> \<bar>f_mean x\<bar> then Inr (ve_junk E, S)
     else if length (f_patch x) < n \<or> n = 0 then Inl OutOfBounds
     else let m = sum_list (take n (f_patch x)) / of_nat n in Inr (m, set_feature f (x\<lparr>f_mean := m\<rparr>) S))"

type_synonym corr_sums = "rat \<times> rat \<times> rat"

definition correlate :: "visual_env \<Rightarrow> nat \<Rightarrow> nat \<Rightarrow> rat \<Rightarrow> nat \<Rightarrow> visual_store \<times> corr_sums \<times> rat option \<times> nat \<Rightarrow> (visual_store \<times> corr_sums \<times> rat option \<times> nat) res" where
  "correlate E n f m g st = (case st of (S, (up, d1, d2), ncc, k) \<Rightarrow>
     bindR (get_feature S f) (\<lambda>x. bindR (get_feature S g) (\<lambda>y. if f_id y = f_id x then Inr st
     else if length (f_patch x) < n \<or> length (f_patch y) < n then Inl OutOfBounds
     else bindR (cached_mean E n g S) (\<lambda>(om, S').
       let a = map (\<lambda>v. v - m) (take n (f_patch x)); b = map (\<lambda>v. v - om) (take n (f_patch y));
         up' = up + sum_list (map2 (*) a b); d1' = d1 + sum_list (map2 (*) a a); d2' = d2 + sum_list (map2 (*) b b);
         q = l_sqrt (ve_libm E) (d1' * d2') in
       Inr (S', (up', d1', d2'), if q = 0 then None else map_option (\<lambda>c. c + \<bar>up' / q\<bar>) ncc, k + 1)))))"

definition score_feature :: "visual_env \<Rightarrow> nat \<Rightarrow> nat \<Rightarrow> nat \<Rightarrow> visual_store \<times> rat \<Rightarrow> (visual_store \<times> rat) res" where
  "score_feature E n a f st = (case st of (S, best) \<Rightarrow> bindR (get_point S a) (\<lambda>p. bindR (get_feature S f) (\<lambda>x.
     let L = ve_libm E; cos_angle = vdot (normalized L (se3_apply (f_T x) (v_pos p))) (m3_vec (fst (f_T x)) (v_normal p)) in
     bindR (cached_mean E n f S) (\<lambda>(m, S1). bindR (foldR (correlate E n f m) (v_obs p) (S1, (0, 0, 0), Some 0, 0)) (\<lambda>(S2, _, ncc, k).
       let score = (if k = 0 then None else map_option (\<lambda>c. c / of_nat k + cos_angle) ncc) in
       bindR (get_feature S2 f) (\<lambda>y. let S3 = set_feature f (y\<lparr>f_score := score\<rparr>) S2 in
         Inr (case score of None \<Rightarrow> (S3, best)
           | Some c \<Rightarrow> if best < c then (set_point a (p\<lparr>v_ref := FeatureAt f, v_has_ref := True\<rparr>) S3, c) else (S3, best))))))))"

definition update_reference :: "visual_env \<Rightarrow> voxel_map \<Rightarrow> nat \<Rightarrow> vio \<Rightarrow> vio res" where
  "update_reference E vm i V = bindR (at_cell (int i) (sm_points (vo_sub V))) (\<lambda>a. bindR (get_point (vo_store V) a) (\<lambda>p.
     if \<not> v_normal_init p \<or> v_converged p \<or> length (v_obs p) \<le> 5 then Inr V
     else bindR (at_cell (int i) (vo_update_flag V)) (\<lambda>flag. if \<not> flag then Inr V
     else bindR (position (1 / 2) (v_pos p)) (\<lambda>l.
       bindR (case vm_map vm l of None \<Rightarrow> Inr p
         | Some j \<Rightarrow> bindR (node_tree j vm) (\<lambda>t. bindR (plane_at E (v_pos p) t) (\<lambda>pl. Inr (if is_plane pl then settle_normal E pl p else p)))) (\<lambda>p'.
       bindR (foldR (score_feature E (nat (patch_size_total (vo_dims V))) a) (v_obs p') (set_point a p' (vo_store V), - 1000)) (\<lambda>(S, _).
         Inr (V\<lparr>vo_store := S\<rparr>)))))))"

definition UpdateReferencePatch :: "visual_env \<Rightarrow> voxel_map \<Rightarrow> vio \<Rightarrow> vio res" where
  "UpdateReferencePatch E vm V = (if vo_total V = 0 then Inr V
     else foldR (update_reference E vm) [0..<length (sm_points (vo_sub V))] V)"

section \<open>Two ways to find a voxel\<close>

text \<open>
  C27 visual_voxel_mismatch: the voxel in which a point is looked up is the one it was
  put into exactly if no coordinate is negative but for multiples of half a metre; a
  coordinate that is not is looked up one voxel farther down.
\<close>

theorem visual_voxel_mismatch:
  assumes "floor_index c = Inr i" "voxel_index (1 / 2) c = Inr j"
  shows "i = (if c < 0 \<and> of_int \<lfloor>2 * c\<rfloor> \<noteq> 2 * c then j - 1 else j)"
proof -
  have d: "c / (1 / 2) = 2 * c" by simp
  have j: "j = (if 2 * c < 0 then \<lceil>2 * c\<rceil> - 1 else \<lfloor>2 * c\<rfloor>)" using voxel_index_eq[OF assms(2)] unfolding d .
  have f: "\<lfloor>2 * c\<rfloor> < 0 \<longleftrightarrow> c < 0" by (simp add: floor_less_iff)
  have t: "truncate_rat (of_int n) = n" for n
    by (simp add: truncate_rat_def of_int_minus[symmetric] del: of_int_minus)
  have i: "i = (if \<lfloor>2 * c\<rfloor> < 0 then \<lfloor>2 * c\<rfloor> - 1 else \<lfloor>2 * c\<rfloor>)"
    using assms(1) unfolding floor_index_def d to_int_def Let_def t by (auto split: if_splits)
  have e: "\<lceil>2 * c\<rceil> = (if of_int \<lfloor>2 * c\<rfloor> = 2 * c then \<lfloor>2 * c\<rfloor> else \<lfloor>2 * c\<rfloor> + 1)" by (simp add: ceiling_altdef eq_commute)
  show ?thesis using i j f e by simp
qed

lemma visual_voxel_mismatch_witness:
  "\<lfloor>2 * (- (3 / 10) :: rat)\<rfloor> = - 1 \<and> floor_index (- (3 / 10)) = Inr (- 2) \<and> voxel_index (1 / 2) (- (3 / 10)) = Inr (- 1)"
proof -
  have f: "\<lfloor>- (3 / 5) :: rat\<rfloor> = - 1" by (rule floor_unique) simp_all
  then have a: "floor_index (- (3 / 10)) = Inr (- 2)" by (simp add: floor_index_def to_int_def truncate_rat_def)
  have g: "\<lfloor>8 / 5 :: rat\<rfloor> = 1" by (rule floor_unique) simp_all
  have b: "voxel_index (1 / 2) (- (3 / 10)) = Inr (- 1)" by (simp add: voxel_index_def scaled_def truncate_rat_def int64_def g)
  have "\<lfloor>2 * (- (3 / 10) :: rat)\<rfloor> = - 1" using f by simp
  then show ?thesis using visual_voxel_mismatch[OF a b] a b by simp
qed

section \<open>The nearest point of a cell\<close>

text \<open>The cell a point of the map is seen in, with its distance from the camera.\<close>

definition shown_at :: "visual_env \<Rightarrow> vio \<Rightarrow> nat \<Rightarrow> (int \<times> rat) option" where
  "shown_at E V a = (case get_point (vo_store V) a of Inl _ \<Rightarrow> None | Inr p \<Rightarrow>
     if v_obs p = [] \<or> component (w2f V (v_pos p)) 2 < 0 then None
     else case seen_at V (v_pos p) of Inr (Some pc) \<Rightarrow> (case cell_index V pc of Inl _ \<Rightarrow> None
       | Inr i \<Rightarrow> Some (i, norm3 (ve_libm E) (vsub (frame_pos V) (v_pos p)))) | _ \<Rightarrow> None)"

definition grid_update :: "int \<Rightarrow> rat \<Rightarrow> nat \<Rightarrow> vio \<Rightarrow> vio" where
  "grid_update i d a V = (let V1 = V\<lparr>vo_grid_num := (vo_grid_num V)[nat i := TYPE_MAP]\<rparr> in
     if d \<le> vo_map_dist V ! nat i then V1\<lparr>vo_map_dist := (vo_map_dist V)[nat i := d], vo_retrieve := (vo_retrieve V)[nat i := Some a]\<rparr> else V1)"

lemma see_point_shown:
  assumes "see_point E a (V, fov) = Inr (V', fov')"
  shows "case shown_at E V a of None \<Rightarrow> V' = V | Some (i, d) \<Rightarrow> 0 \<le> i \<and> i < int (length (vo_grid_num V)) \<and> i < int (length (vo_map_dist V))
    \<and> (d \<le> vo_map_dist V ! nat i \<longrightarrow> i < int (length (vo_retrieve V))) \<and> V' = grid_update i d a V"
proof (cases "get_point (vo_store V) a")
  case (Inl e)
  then show ?thesis using assms by (simp add: see_point_def)
next
  case (Inr p)
  show ?thesis
  proof (cases "v_obs p = [] \<or> component (w2f V (v_pos p)) 2 < 0")
    case True
    then show ?thesis using assms Inr by (simp add: see_point_def shown_at_def)
  next
    case False
    let ?d = "norm3 (ve_libm E) (vsub (frame_pos V) (v_pos p))"
    obtain s where s: "seen_at V (v_pos p) = Inr s"
      using assms Inr False by (cases "seen_at V (v_pos p)") (simp_all add: see_point_def)
    show ?thesis
    proof (cases s)
      case None
      then show ?thesis using assms Inr False s by (simp add: see_point_def shown_at_def)
    next
      case (Some pc)
      obtain i where i: "cell_index V pc = Inr i"
        using assms Inr False s Some by (cases "cell_index V pc") (simp_all add: see_point_def)
      have sh: "shown_at E V a = Some (i, ?d)" using Inr False s Some i by (simp add: shown_at_def)
      have m: "bindR (put_cell i TYPE_MAP (vo_grid_num V)) (\<lambda>g. bindR (at_cell i (vo_map_dist V)) (\<lambda>d.
           if ?d \<le> d then bindR (put_cell i ?d (vo_map_dist V)) (\<lambda>ds. bindR (put_cell i (Some a) (vo_retrieve V)) (\<lambda>rs.
             Inr (V\<lparr>vo_grid_num := g, vo_map_dist := ds, vo_retrieve := rs\<rparr>, True)))
           else Inr (V\<lparr>vo_grid_num := g\<rparr>, True))) = Inr (V', fov')"
        using assms Inr False s Some i by (simp add: see_point_def Let_def)
      show ?thesis
      proof (cases "?d \<le> vo_map_dist V ! nat i")
        case True
        then show ?thesis using m unfolding sh by (auto simp: bindR_eq_Inr cell_put cell_at grid_update_def Let_def)
      next
        case False
        then show ?thesis using m unfolding sh by (auto simp: bindR_eq_Inr cell_put cell_at grid_update_def Let_def)
      qed
    qed
  qed
qed

lemma grid_update_view: "w2f (grid_update i d a V) = w2f V" "seen_at (grid_update i d a V) = seen_at V"
  "cell_index (grid_update i d a V) = cell_index V" "frame_pos (grid_update i d a V) = frame_pos V" "vo_store (grid_update i d a V) = vo_store V"
  by (simp_all add: fun_eq_iff grid_update_def Let_def w2f_def seen_at_def w2c_def cell_index_def frame_pos_def)

lemma grid_update_same:
  "shown_at E (grid_update i d a V) b = shown_at E V b" "length (vo_grid_num (grid_update i d a V)) = length (vo_grid_num V)"
  "length (vo_map_dist (grid_update i d a V)) = length (vo_map_dist V)" "length (vo_retrieve (grid_update i d a V)) = length (vo_retrieve V)"
  unfolding shown_at_def grid_update_view by (simp_all add: grid_update_def Let_def)

text \<open>What holds of every cell after some points were seen.\<close>

definition cells_hold :: "visual_env \<Rightarrow> vio \<Rightarrow> nat list \<Rightarrow> vio \<Rightarrow> bool" where
  "cells_hold E V as V' = (\<forall>i < length (vo_map_dist V).
     (if \<exists>a \<in> set as. \<exists>d. shown_at E V a = Some (int i, d) then vo_grid_num V' ! i = TYPE_MAP else vo_grid_num V' ! i = vo_grid_num V ! i)
     \<and> (\<forall>a \<in> set as. \<forall>d. shown_at E V a = Some (int i, d) \<longrightarrow> vo_map_dist V' ! i \<le> d)
     \<and> ((vo_retrieve V' ! i = vo_retrieve V ! i \<and> vo_map_dist V' ! i = vo_map_dist V ! i)
       \<or> (\<exists>a \<in> set as. vo_retrieve V' ! i = Some a \<and> shown_at E V a = Some (int i, vo_map_dist V' ! i) \<and> vo_map_dist V' ! i \<le> vo_map_dist V ! i)))"

lemma cells_hold_snoc:
  assumes "cells_hold E V as V1" "see_point E a (V1, fov) = Inr (V2, fov')" "\<And>b. shown_at E V1 b = shown_at E V b"
    "length (vo_grid_num V1) = length (vo_map_dist V)" "length (vo_map_dist V1) = length (vo_map_dist V)"
    "length (vo_retrieve V1) = length (vo_map_dist V)"
  shows "cells_hold E V (as @ [a]) V2 \<and> (\<forall>b. shown_at E V2 b = shown_at E V b)
    \<and> length (vo_grid_num V2) = length (vo_map_dist V) \<and> length (vo_map_dist V2) = length (vo_map_dist V) \<and> length (vo_retrieve V2) = length (vo_map_dist V)"
proof (cases "shown_at E V a")
  case None
  then have "V2 = V1" using see_point_shown[OF assms(2)] assms(3) by simp
  then show ?thesis using assms None unfolding cells_hold_def by (auto split: if_splits)
next
  case (Some id)
  obtain i d where id: "id = (i, d)" by (cases id)
  have s: "shown_at E V a = Some (i, d)" using Some id by simp
  then have e: "0 \<le> i" "i < int (length (vo_map_dist V))" "V2 = grid_update i d a V1"
    using see_point_shown[OF assms(2)] assms(3,4) by auto
  have o: "i = int k \<longleftrightarrow> k = nat i" for k using e(1) by auto
  have "cells_hold E V (as @ [a]) V2"
    unfolding cells_hold_def
  proof (intro allI impI)
    fix k assume k: "k < length (vo_map_dist V)"
    note old = assms(1)[unfolded cells_hold_def, rule_format, OF k]
    show "(if \<exists>b \<in> set (as @ [a]). \<exists>d. shown_at E V b = Some (int k, d) then vo_grid_num V2 ! k = TYPE_MAP else vo_grid_num V2 ! k = vo_grid_num V ! k)
     \<and> (\<forall>b \<in> set (as @ [a]). \<forall>d. shown_at E V b = Some (int k, d) \<longrightarrow> vo_map_dist V2 ! k \<le> d)
     \<and> ((vo_retrieve V2 ! k = vo_retrieve V ! k \<and> vo_map_dist V2 ! k = vo_map_dist V ! k)
       \<or> (\<exists>b \<in> set (as @ [a]). vo_retrieve V2 ! k = Some b \<and> shown_at E V b = Some (int k, vo_map_dist V2 ! k) \<and> vo_map_dist V2 ! k \<le> vo_map_dist V ! k))"
    proof (cases "k = nat i")
      case False
      then have "vo_grid_num V2 ! k = vo_grid_num V1 ! k" "vo_map_dist V2 ! k = vo_map_dist V1 ! k" "vo_retrieve V2 ! k = vo_retrieve V1 ! k"
        unfolding e(3) grid_update_def Let_def by auto
      moreover have "shown_at E V a \<noteq> Some (int k, d')" for d' using s False o by auto
      ultimately show ?thesis using old by auto
    next
      case True
      have i: "int k = i" using True e(1) by simp
      have g: "vo_grid_num V2 ! k = TYPE_MAP" using k assms(4) unfolding e(3) grid_update_def Let_def True by auto
      show ?thesis
      proof (cases "d \<le> vo_map_dist V1 ! k")
        case less: True
        then have "vo_map_dist V2 ! k = d" "vo_retrieve V2 ! k = Some a" using k assms(5,6) unfolding e(3) grid_update_def Let_def True by auto
        moreover have "vo_map_dist V1 ! k \<le> vo_map_dist V ! k" using old by auto
        ultimately show ?thesis using g s old less unfolding i by fastforce
      next
        case more: False
        then have "vo_map_dist V2 ! k = vo_map_dist V1 ! k" "vo_retrieve V2 ! k = vo_retrieve V1 ! k" unfolding e(3) grid_update_def Let_def True by auto
        then show ?thesis using g s old more unfolding i by auto
      qed
    qed
  qed
  then show ?thesis using assms(3-6) by (simp add: e(3) grid_update_same)
qed

lemma see_points_hold:
  assumes "foldR (see_point E) bs (V1, fov) = Inr (V2, fov')" "cells_hold E V as V1" "\<And>b. shown_at E V1 b = shown_at E V b"
    "length (vo_grid_num V1) = length (vo_map_dist V)" "length (vo_map_dist V1) = length (vo_map_dist V)" "length (vo_retrieve V1) = length (vo_map_dist V)"
  shows "cells_hold E V (as @ bs) V2 \<and> (\<forall>b. shown_at E V2 b = shown_at E V b)
    \<and> length (vo_grid_num V2) = length (vo_map_dist V) \<and> length (vo_map_dist V2) = length (vo_map_dist V) \<and> length (vo_retrieve V2) = length (vo_map_dist V)"
  using assms
proof (induction bs arbitrary: V1 fov as)
  case (Cons b bs)
  obtain W f where W: "see_point E b (V1, fov) = Inr (W, f)" "foldR (see_point E) bs (W, f) = Inr (V2, fov')"
    using Cons.prems(1) by (auto simp: bindR_eq_Inr)
  show ?case using Cons.IH[OF W(2), of "as @ [b]"] cells_hold_snoc[OF Cons.prems(2) W(1) Cons.prems(3-6)] by simp
qed simp

lemma see_point_voxels: "see_point E a (V, fov) = Inr (V', fov') \<Longrightarrow> vo_vp V' = vo_vp V"
  using see_point_shown[of E a V fov V' fov'] by (auto simp: grid_update_def Let_def split: option.splits)

lemma see_points_voxels: "foldR (see_point E) bs (V, fov) = Inr (V', fov') \<Longrightarrow> vo_vp V' = vo_vp V"
proof (induction bs arbitrary: V fov)
  case (Cons b bs)
  then obtain W f where W: "see_point E b (V, fov) = Inr (W, f)" "foldR (see_point E) bs (W, f) = Inr (V', fov')" by (auto simp: bindR_eq_Inr)
  show ?case using Cons.IH[OF W(2)] see_point_voxels[OF W(1)] by simp
qed simp

text \<open>The points of the map in a voxel.\<close>

definition points_in :: "visual_map \<Rightarrow> loc \<Rightarrow> nat list" where
  "points_in m l = (case vp_map m l of None \<Rightarrow> [] | Some i \<Rightarrow> (case voxel_points i m of Inl _ \<Rightarrow> [] | Inr as \<Rightarrow> as))"

lemma see_voxels_hold:
  assumes "foldR (see_voxel E) ls (V1, del) = Inr (V2, del')" "cells_hold E V as V1" "\<And>b. shown_at E V1 b = shown_at E V b" "vo_vp V1 = vo_vp V"
    "length (vo_grid_num V1) = length (vo_map_dist V)" "length (vo_map_dist V1) = length (vo_map_dist V)" "length (vo_retrieve V1) = length (vo_map_dist V)"
  shows "cells_hold E V (as @ concat (map (points_in (vo_vp V)) ls)) V2"
  using assms
proof (induction ls arbitrary: V1 del as)
  case (Cons l ls)
  obtain W d where W: "see_voxel E l (V1, del) = Inr (W, d)" "foldR (see_voxel E) ls (W, d) = Inr (V2, del')"
    using Cons.prems(1) by (auto simp: bindR_eq_Inr)
  have "cells_hold E V (as @ points_in (vo_vp V) l) W \<and> (\<forall>b. shown_at E W b = shown_at E V b) \<and> vo_vp W = vo_vp V \<and> length (vo_grid_num W) = length (vo_map_dist V)
    \<and> length (vo_map_dist W) = length (vo_map_dist V) \<and> length (vo_retrieve W) = length (vo_map_dist V)"
  proof (cases "vp_map (vo_vp V1) l")
    case None
    then have "W = V1" using W(1) by (simp add: see_voxel_def)
    then show ?thesis using Cons.prems None by (simp add: points_in_def)
  next
    case (Some i)
    then obtain bs f where bs: "voxel_points i (vo_vp V1) = Inr bs" "foldR (see_point E) bs (V1, False) = Inr (W, f)"
      using W(1) by (auto simp: see_voxel_def bindR_eq_Inr split: if_splits)
    show ?thesis
      using see_points_hold[OF bs(2) Cons.prems(2,3,5-7)] see_points_voxels[OF bs(2)] Some bs(1) Cons.prems(4) by (simp add: points_in_def)
  qed
  then show ?case using Cons.IH[OF W(2), of "as @ points_in (vo_vp V) l"] by simp
qed simp

text \<open>
  C6 nearest_point_kept: after the voxels in view were gone through, in whatever order, a cell of
  the grid is marked exactly if a point of the map is seen in it, and it then holds the
  nearest of these points - if one is within the 10000 the grid starts with.  Otherwise a
  marked cell holds the null pointer it started with.
\<close>

theorem nearest_point_kept:
  assumes "foldR (see_voxel E) ls (ResetGrid u W, []) = Inr (V', del)" "length (vo_grid_num W) = nat (vo_length W)" "length (vo_map_dist W) = nat (vo_length W)"
    "i < nat (vo_length W)" "seen = {(a, d). a \<in> set (concat (map (points_in (vo_vp W)) ls)) \<and> shown_at E (ResetGrid u W) a = Some (int i, d)}"
  shows "(vo_grid_num V' ! i = TYPE_MAP \<longleftrightarrow> seen \<noteq> {}) \<and> (case vo_retrieve V' ! i of
      None \<Rightarrow> \<forall>(a, d) \<in> seen. 10000 \<le> d
    | Some a \<Rightarrow> \<exists>d. (a, d) \<in> seen \<and> d \<le> 10000 \<and> (\<forall>(b, e) \<in> seen. d \<le> e))"
proof -
  define V where "V = ResetGrid u W"
  have n: "length (vo_grid_num V) = nat (vo_length W)" "length (vo_map_dist V) = nat (vo_length W)" "length (vo_retrieve V) = nat (vo_length W)" "vo_vp V = vo_vp W"
    and z: "vo_grid_num V ! i = TYPE_UNKNOWN" "vo_map_dist V ! i = 10000" "vo_retrieve V ! i = None"
    using assms(2-4) by (simp_all add: V_def ResetGrid_def Let_def)
  have "cells_hold E V [] V" by (simp add: cells_hold_def)
  define cs where "cs = concat (map (points_in (vo_vp W)) ls)"
  from see_voxels_hold[OF assms(1)[folded V_def] \<open>cells_hold E V [] V\<close>] have "cells_hold E V cs V'" by (simp add: n cs_def)
  from this[unfolded cells_hold_def, rule_format, of i] assms(4)
  have h: "if \<exists>a \<in> set cs. \<exists>d. shown_at E V a = Some (int i, d) then vo_grid_num V' ! i = TYPE_MAP else vo_grid_num V' ! i = TYPE_UNKNOWN"
    "\<And>a d. a \<in> set cs \<Longrightarrow> shown_at E V a = Some (int i, d) \<Longrightarrow> vo_map_dist V' ! i \<le> d"
    "(vo_retrieve V' ! i = None \<and> vo_map_dist V' ! i = 10000)
      \<or> (\<exists>a \<in> set cs. vo_retrieve V' ! i = Some a \<and> shown_at E V a = Some (int i, vo_map_dist V' ! i) \<and> vo_map_dist V' ! i \<le> 10000)"
    unfolding n z by blast+
  have s: "(a, d) \<in> seen \<longleftrightarrow> a \<in> set cs \<and> shown_at E V a = Some (int i, d)" for a d
    unfolding assms(5) cs_def V_def by simp
  have "(\<exists>a \<in> set cs. \<exists>d. shown_at E V a = Some (int i, d)) \<longleftrightarrow> seen \<noteq> {}" using s by fast
  then have "vo_grid_num V' ! i = TYPE_MAP \<longleftrightarrow> seen \<noteq> {}" using h(1) by (cases "seen = {}") simp_all
  moreover have "case vo_retrieve V' ! i of None \<Rightarrow> \<forall>(a, d) \<in> seen. 10000 \<le> d
    | Some a \<Rightarrow> \<exists>d. (a, d) \<in> seen \<and> d \<le> 10000 \<and> (\<forall>(b, e) \<in> seen. d \<le> e)"
    using h(3)
  proof
    assume r: "vo_retrieve V' ! i = None \<and> vo_map_dist V' ! i = 10000"
    then have "10000 \<le> d" if "(a, d) \<in> seen" for a d using h(2)[of a d] that s by simp
    then show ?thesis using r by auto
  next
    assume "\<exists>a \<in> set cs. vo_retrieve V' ! i = Some a \<and> shown_at E V a = Some (int i, vo_map_dist V' ! i) \<and> vo_map_dist V' ! i \<le> 10000"
    then obtain a where a: "vo_retrieve V' ! i = Some a" "(a, vo_map_dist V' ! i) \<in> seen" "vo_map_dist V' ! i \<le> 10000" using s by blast
    moreover have "vo_map_dist V' ! i \<le> e" if "(b, e) \<in> seen" for b e using h(2)[of b e] that s by simp
    ultimately show ?thesis by auto
  qed
  ultimately show ?thesis ..
qed

text \<open>The libraries of the witnesses, and a grid of one cell with one point of the map in view.\<close>

definition test_env :: visual_env where
  "test_env = \<lparr>ve_libm = triangle_libm, ve_numeric = diagonal_solver, ve_voxels = voxels (plain_config 5), ve_inverse = (\<lambda>M. diagonal 19 (\<lambda>i. 1)),
     ve_order = (\<lambda>ls. ls), ve_junk = 0, ve_junk_point = pointWithVar, ve_junk_cov = []\<rparr>"

definition one_cell_vio :: vio where
  "one_cell_vio = one_point_vio\<lparr>vo_length := 1, vo_grid_num := [TYPE_UNKNOWN], vo_map_dist := [0], vo_scan_value := [0], vo_grid_size := 1000,
     vo_grid_n_width := 1, vo_store := no_store\<lparr>vs_points := [0 \<mapsto> (VisualPoint [] (0, 0, 2))\<lparr>v_obs := [1]\<rparr>]\<rparr>,
     vo_vp := no_voxels\<lparr>vp_data := [(0, (0, 0, 4), [0], 0)], vp_map := [(0, 0, 4) \<mapsto> 0]\<rparr>\<rparr>"

lemma one_cell_parts:
  "vp_map (vo_vp (ResetGrid u one_cell_vio)) (0, 0, 4) = Some 0" "voxel_points 0 (vo_vp (ResetGrid u one_cell_vio)) = Inr [0]"
  "get_point (vo_store (ResetGrid u one_cell_vio)) 0 = Inr ((VisualPoint [] (0, 0, 2))\<lparr>v_obs := [1]\<rparr>)" "w2f (ResetGrid u one_cell_vio) (0, 0, 2) = (0, 0, 2)"
  "seen_at (ResetGrid u one_cell_vio) (0, 0, 2) = Inr (Some (320, 240))" "cell_index (ResetGrid u one_cell_vio) (320, 240) = Inr 0"
  "vo_grid_num (ResetGrid u one_cell_vio) = [TYPE_UNKNOWN]" "vo_map_dist (ResetGrid u one_cell_vio) = [10000]" "vo_retrieve (ResetGrid u one_cell_vio) = [None]"
proof -
  have f: "\<lfloor>6 / 25 :: rat\<rfloor> = 0" "\<lfloor>8 / 25 :: rat\<rfloor> = 0" by (rule floor_unique; simp)+
  show "vp_map (vo_vp (ResetGrid u one_cell_vio)) (0, 0, 4) = Some 0" "voxel_points 0 (vo_vp (ResetGrid u one_cell_vio)) = Inr [0]"
    "get_point (vo_store (ResetGrid u one_cell_vio)) 0 = Inr ((VisualPoint [] (0, 0, 2))\<lparr>v_obs := [1]\<rparr>)" "w2f (ResetGrid u one_cell_vio) (0, 0, 2) = (0, 0, 2)"
    "seen_at (ResetGrid u one_cell_vio) (0, 0, 2) = Inr (Some (320, 240))" "cell_index (ResetGrid u one_cell_vio) (320, 240) = Inr 0"
    "vo_grid_num (ResetGrid u one_cell_vio) = [TYPE_UNKNOWN]" "vo_map_dist (ResetGrid u one_cell_vio) = [10000]" "vo_retrieve (ResetGrid u one_cell_vio) = [None]"
    by (simp_all add: f ResetGrid_def one_cell_vio_def one_point_vio_def plain_vio_def voxel_points_def no_voxels_def get_point_def no_store_def w2f_def m3_id_def
      seen_at_def w2c_def pinhole_as_camera_def pinhole_world2cam_def test_camera_def to_int_def truncate_rat_def isInFrame_def cell_index_def)
qed

lemma nearest_point_kept_witness:
  "\<exists>V' del. foldR (see_voxel test_env) [(0, 0, 4)] (ResetGrid pointWithVar one_cell_vio, []) = Inr (V', del) \<and> vo_grid_num V' ! 0 = TYPE_MAP"
proof -
  let ?V = "ResetGrid pointWithVar one_cell_vio"
  have v: "v_pos (VisualPoint [] (0, 0, 2)) = (0, 0, 2)" by (simp add: VisualPoint_def)
  have "\<exists>V' f. see_point test_env 0 (?V, False) = Inr (V', f)"
    by (auto simp: see_point_def one_cell_parts v put_cell_def at_cell_def Let_def)
  then obtain V' f where p: "see_point test_env 0 (?V, False) = Inr (V', f)" by blast
  then obtain del where r: "foldR (see_voxel test_env) [(0, 0, 4)] (?V, []) = Inr (V', del)"
    by (simp add: see_voxel_def one_cell_parts)
  have s: "shown_at test_env ?V 0 = Some (int 0, norm3 triangle_libm (vsub (frame_pos ?V) (0, 0, 2)))"
    by (simp add: shown_at_def one_cell_parts v test_env_def)
  have m: "points_in (vo_vp one_cell_vio) (0, 0, 4) = [0]" by (simp add: points_in_def one_cell_vio_def no_voxels_def voxel_points_def)
  have l: "length (vo_grid_num one_cell_vio) = nat (vo_length one_cell_vio)" "length (vo_map_dist one_cell_vio) = nat (vo_length one_cell_vio)" "0 < nat (vo_length one_cell_vio)"
    by (simp_all add: one_cell_vio_def)
  from nearest_point_kept[OF r l refl] have "vo_grid_num V' ! 0 = TYPE_MAP" using m s by auto
  then show ?thesis using r by blast
qed

section \<open>The views of a point\<close>

definition views_ok :: "visual_store \<Rightarrow> bool" where
  "views_ok S = (store_ok S \<and> (\<forall>a p. vs_points S a = Some p \<longrightarrow> length (v_obs p) \<le> 30))"

lemma views_okI:
  assumes "\<And>a. vs_next S \<le> a \<Longrightarrow> vs_points S a = None \<and> vs_features S a = None"
    "\<And>a p. vs_points S a = Some p \<Longrightarrow> distinct (v_obs p) \<and> length (v_obs p) \<le> 30"
    "\<And>a p f. vs_points S a = Some p \<Longrightarrow> f \<in> set (v_obs p) \<Longrightarrow> vs_features S f \<noteq> None"
    "\<And>a b p q f. vs_points S a = Some p \<Longrightarrow> vs_points S b = Some q \<Longrightarrow> a \<noteq> b \<Longrightarrow> f \<in> set (v_obs p) \<Longrightarrow> f \<notin> set (v_obs q)"
  shows "views_ok S"
  unfolding views_ok_def store_ok_def using assms by blast

text \<open>Views taken away from one point, and their features from the heap.\<close>

lemma views_removed:
  assumes "views_ok S" "vs_points S a = Some p" "set (v_obs q) \<subseteq> set (v_obs p)" "distinct (v_obs q)" "length (v_obs q) \<le> length (v_obs p)"
    "vs_points S' = (vs_points S)(a \<mapsto> q)" "\<And>f. f \<notin> set (v_obs p) - set (v_obs q) \<Longrightarrow> vs_features S' f = vs_features S f"
    "\<And>f. vs_features S f = None \<Longrightarrow> vs_features S' f = None" "vs_next S' = vs_next S"
  shows "views_ok S'"
proof -
  have ok: "store_ok S" and l: "\<And>b r. vs_points S b = Some r \<Longrightarrow> length (v_obs r) \<le> 30" using assms(1) unfolding views_ok_def by blast+
  note D = store_okD[OF ok]
  have pt: "\<exists>r'. vs_points S b = Some r' \<and> set (v_obs r) \<subseteq> set (v_obs r') \<and> length (v_obs r) \<le> length (v_obs r') \<and> distinct (v_obs r) \<and> (b \<noteq> a \<longrightarrow> r = r') \<and> (b = a \<longrightarrow> r = q)"
    if "vs_points S' b = Some r" for b r
    using that assms(2-6) D(3)[of b r] by (cases "b = a") auto
  show ?thesis
  proof (rule views_okI)
    fix b assume "vs_next S' \<le> b"
    then show "vs_points S' b = None \<and> vs_features S' b = None" using D(1,2)[of b] assms(2,6,8,9) by auto
  next
    fix b r assume "vs_points S' b = Some r"
    then show "distinct (v_obs r) \<and> length (v_obs r) \<le> 30" using pt l by fastforce
  next
    fix b r f assume r: "vs_points S' b = Some r" and f: "f \<in> set (v_obs r)"
    obtain r' where r': "vs_points S b = Some r'" "f \<in> set (v_obs r')" "b = a \<Longrightarrow> r = q" using pt[OF r] f by blast
    have "f \<notin> set (v_obs p) - set (v_obs q)" using f r' D(5)[OF r'(1) assms(2) _ r'(2)] by (cases "b = a") auto
    then show "vs_features S' f \<noteq> None" using assms(7) D(4)[OF r'(1,2)] by simp
  next
    fix b c r t f assume "vs_points S' b = Some r" "vs_points S' c = Some t" "b \<noteq> c" "f \<in> set (v_obs r)"
    then show "f \<notin> set (v_obs t)" using pt[of b r] pt[of c t] D(5) by blast
  qed
qed

lemma min_score_in: "min_score S fs (m, g) = Inr f \<Longrightarrow> f = g \<or> f \<in> set fs"
proof (induction fs arbitrary: m g)
  case (Cons a fs)
  from Cons.prems obtain x where "get_feature S a = Inr x" and x: "min_score S fs (case f_score x of None \<Rightarrow> (m, g)
     | Some c \<Rightarrow> (case m of None \<Rightarrow> (Some c, a) | Some b \<Rightarrow> if c < b then (Some c, a) else (m, g))) = Inr f"
    by (auto simp only: min_score.simps bindR_eq_Inr)
  obtain m' g' where e: "(case f_score x of None \<Rightarrow> (m, g)
     | Some c \<Rightarrow> (case m of None \<Rightarrow> (Some c, a) | Some b \<Rightarrow> if c < b then (Some c, a) else (m, g))) = (m', g')" by (rule prod.exhaust)
  then have "g' = g \<or> g' = a" by (auto split: option.splits if_splits)
  then show ?case using Cons.IH[of m' g'] x unfolding e by auto
qed simp

lemma findMin_in: "findMinScoreFeature S p = Inr f \<Longrightarrow> f \<in> set (v_obs p)"
  using min_score_in[of S "v_obs p" None "hd (v_obs p)" f] by (cases "v_obs p") (auto simp: findMinScoreFeature_def)

lemma deleteFeatureRef_views:
  assumes "deleteFeatureRef a f S = Inr S'" "views_ok S" "vs_points S a = Some p" "f \<in> set (v_obs p)"
  shows "views_ok S' \<and> dom (vs_points S') = dom (vs_points S) \<and> (\<exists>q. vs_points S' a = Some q \<and> length (v_obs q) = length (v_obs p) - 1)"
proof -
  have ok: "store_ok S" using assms(2) by (simp add: views_ok_def)
  have d: "distinct (v_obs p)" using store_okD(3)[OF ok assms(3)] .
  define p1 where "p1 = (if v_ref p = FeatureAt f then p\<lparr>v_ref := NullFeature, v_has_ref := False\<rparr> else p)\<lparr>v_obs := remove1 f (v_obs p)\<rparr>"
  have e: "vs_points S' = (vs_points S)(a \<mapsto> p1)" "vs_features S' = (vs_features S)(f := None)" "vs_next S' = vs_next S"
    using assms(1,3,4) by (auto simp: deleteFeatureRef_def get_point_def Let_def delete_feature_def set_point_def bindR_eq_Inr p1_def split: if_splits option.splits)
  have o: "v_obs p1 = remove1 f (v_obs p)" by (simp add: p1_def)
  have "views_ok S'"
    by (rule views_removed[OF assms(2,3), of p1]) (use assms(4) d in \<open>auto simp: o e length_remove1\<close>)
  then show ?thesis using assms(3,4) by (auto simp: e o length_remove1)
qed

lemma deleteNonRef_views:
  assumes "deleteNonRefPatchFeatures a S = Inr S'" "views_ok S" "vs_points S a = Some p"
  shows "views_ok S' \<and> dom (vs_points S') = dom (vs_points S)"
proof -
  have ok: "store_ok S" using assms(2) by (simp add: views_ok_def)
  note D = store_okD[OF ok]
  define gone where "gone = filter (\<lambda>f. FeatureAt f \<noteq> v_ref p) (v_obs p)"
  define p1 where "p1 = p\<lparr>v_obs := filter (\<lambda>f. FeatureAt f = v_ref p) (v_obs p)\<rparr>"
  have "foldR delete_feature gone S = Inr (S\<lparr>vs_features := vs_features S |` (- set gone)\<rparr>)"
    using D(3,4)[OF assms(3)] by (intro delete_features) (auto simp: gone_def)
  then have "S' = set_point a p1 (S\<lparr>vs_features := vs_features S |` (- set gone)\<rparr>)"
    using assms(1,3) by (auto simp: deleteNonRefPatchFeatures_def get_point_def gone_def p1_def split: if_splits)
  then have e: "vs_points S' = (vs_points S)(a \<mapsto> p1)" "vs_features S' = vs_features S |` (- set gone)" "vs_next S' = vs_next S"
    by (simp_all add: set_point_def)
  have "views_ok S'"
    by (rule views_removed[OF assms(2,3), of p1]) (use D(3)[OF assms(3)] in \<open>auto simp: p1_def e gone_def restrict_map_def\<close>)
  then show ?thesis using assms(3) by (auto simp: e)
qed

lemma add_view:
  assumes "views_ok S" "vs_points S a = Some p" "length (v_obs p) < 30" "new_feature x S = (b, S1)" "addFrameRef a b S1 = Inr S2"
  shows "views_ok S2 \<and> dom (vs_points S2) = dom (vs_points S)"
proof -
  have ok: "store_ok S" and l: "\<And>b r. vs_points S b = Some r \<Longrightarrow> length (v_obs r) \<le> 30" using assms(1) unfolding views_ok_def by blast+
  note D = store_okD[OF ok]
  have e: "vs_points S2 = (vs_points S)(a \<mapsto> p\<lparr>v_obs := b # v_obs p\<rparr>)" "vs_features S2 = (vs_features S)(b \<mapsto> x)" "vs_next S2 = Suc b" "b = vs_next S"
    using assms(2,4,5) by (auto simp: new_feature_def addFrameRef_def get_point_def set_point_def)
  have fr: "b \<notin> set (v_obs r)" if "vs_points S c = Some r" for c r using D(4)[OF that] D(2)[of b] e(4) by blast
  have an: "a \<noteq> c" if "vs_next S \<le> c" for c using D(1)[OF that] assms(2) by auto
  have "views_ok S2"
  proof (rule views_okI)
    fix c assume "vs_next S2 \<le> c"
    then show "vs_points S2 c = None \<and> vs_features S2 c = None" using D(1,2)[of c] an[of c] e by auto
  next
    fix c r assume "vs_points S2 c = Some r"
    then show "distinct (v_obs r) \<and> length (v_obs r) \<le> 30" using D(3)[of c] D(3)[OF assms(2)] l[of c] assms(3) fr[OF assms(2)] by (auto simp: e(1) split: if_splits)
  next
    fix c r f assume "vs_points S2 c = Some r" "f \<in> set (v_obs r)"
    then show "vs_features S2 f \<noteq> None" using D(4)[of c r f] D(4)[OF assms(2), of f] by (auto simp: e(1,2) split: if_splits)
  next
    fix c d r t f assume "vs_points S2 c = Some r" "vs_points S2 d = Some t" "c \<noteq> d" "f \<in> set (v_obs r)"
    then show "f \<notin> set (v_obs t)" using D(5)[of c _ d _ f] fr[of c] fr[of d] assms(2) by (auto simp: e(1) split: if_splits)
  qed
  then show ?thesis using assms(2) by (auto simp: e(1))
qed

lemma views_leaked: "views_ok (S\<lparr>vs_leaked := n\<rparr>) = views_ok S"
  by (simp add: views_ok_def store_ok_def)

lemma update_point_views:
  assumes "update_visual_point E img s i V = Inr V'" "views_ok (vo_store V)"
  shows "views_ok (vo_store V') \<and> dom (vs_points (vo_store V')) = dom (vs_points (vo_store V)) \<and> vo_sub V' = vo_sub V"
proof -
  obtain a p where a: "at_cell (int i) (sm_points (vo_sub V)) = Inr a" "get_point (vo_store V) a = Inr p"
    using assms(1) by (auto simp: update_visual_point_def bindR_eq_Inr)
  have p: "vs_points (vo_store V) a = Some p" using a(2) by (auto simp: get_point_def split: option.splits)
  have l: "length (v_obs p) \<le> 30" using assms(2) p by (auto simp: views_ok_def)
  show ?thesis
  proof (cases "v_converged p")
    case True
    then obtain S where "deleteNonRefPatchFeatures a (vo_store V) = Inr S" "V' = V\<lparr>vo_store := S\<rparr>"
      using assms(1) a by (auto simp: update_visual_point_def bindR_eq_Inr)
    then show ?thesis using deleteNonRef_views[OF _ assms(2) p] by simp
  next
    case False
    obtain S pc patch add where h: "drop_worst a p (vo_store V) = Inr S" "store_view img s i a pc patch add V S = Inr V'"
      using assms(1) a False by (auto simp: update_visual_point_def bindR_eq_Inr split: if_splits)
    have S: "views_ok S \<and> dom (vs_points S) = dom (vs_points (vo_store V)) \<and> (\<exists>q. vs_points S a = Some q \<and> length (v_obs q) < 30)"
    proof (cases "30 \<le> length (v_obs p)")
      case True
      then obtain f where "findMinScoreFeature (vo_store V) p = Inr f" "deleteFeatureRef a f (vo_store V) = Inr S" using h(1) by (auto simp: drop_worst_def bindR_eq_Inr)
      then show ?thesis using deleteFeatureRef_views[OF _ assms(2) p] findMin_in l True by fastforce
    next
      case False
      then show ?thesis using h(1) assms(2) p by (auto simp: drop_worst_def)
    qed
    then obtain q where q: "vs_points S a = Some q" "length (v_obs q) < 30" by blast
    show ?thesis
    proof (cases add)
      case False
      then have "V' = V\<lparr>vo_store := S\<lparr>vs_leaked := vs_leaked S + 1\<rparr>\<rparr>" using h(2) by (simp add: store_view_def)
      then show ?thesis using S by (simp add: views_leaked)
    next
      case True
      then obtain x uf S2 where "addFrameRef a (fst (new_feature x S)) (snd (new_feature x S)) = Inr S2" "V' = V\<lparr>vo_update_flag := uf, vo_store := S2\<rparr>"
        using h(2) by (auto simp: store_view_def case_prod_beta' bindR_eq_Inr)
      then show ?thesis using add_view[OF _ q prod.collapse[symmetric]] S by simp
    qed
  qed
qed


text \<open>
  C13 views_bounded: adding views to the points of the frame keeps the points and their
  features consistent - no feature is shared, freed twice or left behind in a list - and
  no point ever has more than thirty views.
\<close>

theorem views_bounded:
  assumes "UpdateVisualMapPoints E img s V = Inr V'" "views_ok (vo_store V)"
  shows "views_ok (vo_store V') \<and> dom (vs_points (vo_store V')) = dom (vs_points (vo_store V)) \<and> vo_sub V' = vo_sub V"
proof -
  have "foldR (update_visual_point E img s) is V = Inr V' \<Longrightarrow> views_ok (vo_store V) \<Longrightarrow>
      views_ok (vo_store V') \<and> dom (vs_points (vo_store V')) = dom (vs_points (vo_store V)) \<and> vo_sub V' = vo_sub V" for "is"
  proof (induction "is" arbitrary: V)
    case (Cons i "is")
    obtain W where W: "update_visual_point E img s i V = Inr W" "foldR (update_visual_point E img s) is W = Inr V'"
      using Cons.prems(1) by (auto simp: bindR_eq_Inr)
    show ?case using update_point_views[OF W(1) Cons.prems(2)] Cons.IH[OF W(2)] by simp
  qed simp
  then show ?thesis using assms by (simp add: UpdateVisualMapPoints_def)
qed


lemma views_bounded_witness:
  "\<exists>V'. UpdateVisualMapPoints test_env (grey_image 640 480) StatesGroup (one_point_vio\<lparr>vo_store := \<lparr>vs_points = [0 \<mapsto> (VisualPoint [] (0, 0, 2))\<lparr>v_converged := True,
        v_obs := [1], v_ref := NullFeature\<rparr>], vs_features = [1 \<mapsto> Feature [] (0, 0) (0, 0, 1) (m3_id, (0, 0, 0)) 0 (grey_image 640 480) 0 1], vs_next = 2, vs_leaked = 0\<rparr>\<rparr>) = Inr V'
     \<and> views_ok (vo_store V') \<and> vs_features (vo_store V') 1 = None"
proof -
  let ?S = "\<lparr>vs_points = [0 \<mapsto> (VisualPoint [] (0, 0, 2))\<lparr>v_converged := True, v_obs := [1], v_ref := NullFeature\<rparr>],
    vs_features = [1 \<mapsto> Feature [] (0, 0) (0, 0, 1) (m3_id, (0, 0, 0)) 0 (grey_image 640 480) 0 1], vs_next = 2, vs_leaked = 0\<rparr>"
  have ok: "views_ok (vo_store (one_point_vio\<lparr>vo_store := ?S\<rparr>))" by (auto simp: views_ok_def store_ok_def split: if_splits)
  obtain V' where u: "UpdateVisualMapPoints test_env (grey_image 640 480) StatesGroup (one_point_vio\<lparr>vo_store := ?S\<rparr>) = Inr V'"
    and f: "vs_features (vo_store V') 1 = None"
    by (simp add: UpdateVisualMapPoints_def one_point_parts update_visual_point_def at_cell_def get_point_def deleteNonRefPatchFeatures_def delete_feature_def set_point_def)
  then show ?thesis using views_bounded[OF u ok] by blast
qed

end
