(* ===== verification/Visual_Update.thy ===== *)
theory Visual_Update
  imports Visual_Retrieve
begin

text \<open>
  The update of the state from the image (edge/src/FAST-LIVO2/src/vio.cpp): the
  measurements and their Jacobians (UpdateState), the inverse formulation
  (PrecomputeReferencePatches, UpdateStateInverse), the iterations over the levels
  (ComputeJacobianAndUpdateEKF) and the work on a frame (ProcessFrame).
\<close>

section \<open>The first columns\<close>

definition columns :: "nat \<Rightarrow> mat \<Rightarrow> mat" where
  "columns n M = map (take n) M"

text \<open>A gain that is zero but in its first columns.\<close>

definition gain_columns :: "nat \<Rightarrow> mat \<Rightarrow> mat \<Rightarrow> mat" where
  "gain_columns n K H = map (\<lambda>r. r @ replicate (19 - n) 0) (mat_mul (columns n K) H)"

section \<open>The measurements of a sweep\<close>

text \<open>
  The rows of H_sub with the entries of z, which keep their values from the sweep before
  where nothing is written; the errors of the patches; the error of the sweep and the
  number of its measurements.
\<close>

record sweep =
  sw_rows :: "(rat list \<times> rat) list"
  sw_errors :: "rat list"
  sw_error :: rat
  sw_n :: nat

text \<open>A row vector times a matrix.\<close>

definition row_mul :: "vec \<Rightarrow> mat3 \<Rightarrow> vec" where
  "row_mul r M = m3_vec (m3_T M) r"

text \<open>The slopes of the image at an offset, from the blended values one step away on each side.\<close>

definition gradient :: "image \<Rightarrow> int \<Rightarrow> int \<Rightarrow> weights \<Rightarrow> int \<Rightarrow> px res" where
  "gradient img stride scale w i = bindR (blend img stride scale w (i + scale)) (\<lambda>r. bindR (blend img stride scale w (i - scale)) (\<lambda>l.
     bindR (blend img stride scale w (i + scale * stride)) (\<lambda>b. bindR (blend img stride scale w (i - scale * stride)) (\<lambda>t.
       Inr ((r - l) / 2, (b - t) / 2)))))"

definition image_row :: "px \<Rightarrow> vec \<times> vec \<Rightarrow> vec" where
  "image_row g J = vadd (vscale (fst g) (fst J)) (vscale (snd g) (snd J))"

text \<open>The Jacobian of a measurement; the seventh entry is only written when the exposure is estimated.\<close>

definition photo_row :: "vio \<Rightarrow> states_group \<Rightarrow> vec \<Rightarrow> vec \<Rightarrow> rat list" where
  "photo_row V s pf r = vlist (vsub (row_mul (row_mul r (skew pf)) (vo_Rci V)) (row_mul r (vo_Jdp_dR V)))
     @ vlist (vscale (- 1) (row_mul r (m3_mul (vo_Rci V) (m3_T (rot_end s)))))"

definition row_at :: "vio \<Rightarrow> nat \<Rightarrow> int \<times> int \<Rightarrow> int" where
  "row_at V i xy = int i * patch_size_total (vo_dims V) + fst xy * patch_size (vo_dims V) + snd xy"

definition set_row :: "bool \<Rightarrow> int \<Rightarrow> rat list \<Rightarrow> rat \<Rightarrow> rat \<Rightarrow> (rat list \<times> rat) list \<Rightarrow> (rat list \<times> rat) list res" where
  "set_row expo k h cur z rows = bindR (at_cell k rows) (\<lambda>(old, _). put_cell k (h @ (if expo then [cur] else drop 6 old), z) rows)"

text \<open>
  A pixel of a patch.  The error of the patch so far is added to that of the sweep for
  every pixel.
\<close>

definition measure_pixel :: "vio \<Rightarrow> states_group \<Rightarrow> image \<Rightarrow> nat \<Rightarrow> nat \<Rightarrow> vec \<Rightarrow> px \<Rightarrow> int \<Rightarrow> vec \<times> vec \<Rightarrow> rat list \<Rightarrow> rat
    \<Rightarrow> int \<times> int \<Rightarrow> rat \<times> sweep \<Rightarrow> (rat \<times> sweep) res" where
  "measure_pixel V s img level i pf pc scale J P expo xy st = (case st of (pe, sw) \<Rightarrow>
     let d = vo_dims V; w = corner_weights scale pc; i0 = patch_offset (stride_width d) (patch_size_half d) scale pc (fst xy) (snd xy) in
     bindR (blend img (stride_width d) scale w i0) (\<lambda>cur.
     bindR (at_cell (patch_size_total d * int level + fst xy * patch_size d + snd xy) P) (\<lambda>ref.
     let res = inv_expo_time s * cur - expo * ref; pe' = pe + res * res in
     bindR (put_cell (int i) pe' (sw_errors sw)) (\<lambda>es.
     bindR (gradient img (stride_width d) scale w i0) (\<lambda>g. let r = vscale (inv_expo_time s / of_int scale) (image_row g J) in
     bindR (set_row (vo_exposure_en V) (row_at V i xy) (photo_row V s pf r) cur res (sw_rows sw)) (\<lambda>rows.
       Inr (pe', sw\<lparr>sw_rows := rows, sw_errors := es, sw_error := sw_error sw + pe', sw_n := sw_n sw + 1\<rparr>)))))))"

text \<open>Whether a place is so close to the border that the patch and its slopes are not read.\<close>

definition near_border :: "vio \<Rightarrow> image \<Rightarrow> int \<Rightarrow> px \<Rightarrow> bool" where
  "near_border V img scale pc = (let m = patch_size_half (vo_dims V) * scale + scale in
     fst pc < of_int m \<or> of_int (im_cols img - m) < fst pc \<or> snd pc < of_int m \<or> of_int (im_rows img - m) < snd pc)"

definition measure_point :: "vio \<Rightarrow> states_group \<Rightarrow> image \<Rightarrow> nat \<Rightarrow> nat \<Rightarrow> sweep \<Rightarrow> sweep res" where
  "measure_point V s img level i sw = bindR (at_cell (int i) (sm_search_levels (vo_sub V))) (\<lambda>n.
     bindR (at_cell (int i) (sm_points (vo_sub V))) (\<lambda>a. bindR (get_point (vo_store V) a) (\<lambda>p.
     let scale = 2 ^ (level + n); pf = se3_apply (camera_pose V s) (v_pos p) in
     bindR (world2cam (vo_cam V) pf) (\<lambda>pc. if near_border V img scale pc then Inr sw
     else bindR (ComputeProjectionJacobian (cam_fx (vo_cam V)) (cam_fy (vo_cam V)) pf) (\<lambda>J.
       bindR (at_cell (int i) (sm_warp_patch (vo_sub V))) (\<lambda>P. bindR (at_cell (int i) (sm_inv_expo (vo_sub V))) (\<lambda>expo.
       bindR (foldR (measure_pixel V s img level i pf pc scale J P expo) (patch_cells (patch_size (vo_dims V))) (0, sw)) (\<lambda>(_, sw'). Inr sw'))))))))"

definition sweep_start :: "vio \<Rightarrow> (rat list \<times> rat) list \<Rightarrow> sweep" where
  "sweep_start V rows = \<lparr>sw_rows = rows, sw_errors = sm_errors (vo_sub V), sw_error = 0, sw_n = 0\<rparr>"

definition forward_sweep :: "image \<Rightarrow> nat \<Rightarrow> states_group \<Rightarrow> vio \<Rightarrow> (rat list \<times> rat) list \<Rightarrow> (sweep \<times> vio) res" where
  "forward_sweep img level s V rows = bindR (foldR (measure_point V s img level) [0..<vo_total V] (sweep_start V rows)) (\<lambda>sw. Inr (sw, V))"

section \<open>The inverse formulation\<close>

text \<open>The reference feature is read before the point is compared with null.\<close>

definition ref_feature :: "visual_store \<Rightarrow> visual_point \<Rightarrow> feature res" where
  "ref_feature S p = (case v_ref p of FeatureAt f \<Rightarrow> get_feature S f | NullFeature \<Rightarrow> Inl NullDeref | Indeterminate \<Rightarrow> Inl Undefined)"

definition reference_row :: "feature \<Rightarrow> visual_point \<Rightarrow> vec \<Rightarrow> rat list" where
  "reference_row x p r = (let q = row_mul r (fst (f_T x)) in vlist (row_mul q (skew (v_pos p))) @ vlist (vscale (- 1) q))"

definition reference_rows :: "visual_env \<Rightarrow> nat \<Rightarrow> vio \<Rightarrow> nat \<Rightarrow> mat \<Rightarrow> mat res" where
  "reference_rows E level V i H = bindR (at_cell (int i) (sm_points (vo_sub V))) (\<lambda>a. bindR (get_point (vo_store V) a) (\<lambda>p.
     bindR (ref_feature (vo_store V) p) (\<lambda>x. let scale = 2 ^ level; d = vo_dims V; pf = vscale (norm3 (ve_libm E) (vsub (v_pos p) (feature_pos x))) (f_f x) in
     bindR (ComputeProjectionJacobian (cam_fx (vo_cam V)) (cam_fy (vo_cam V)) pf) (\<lambda>J.
     foldR (\<lambda>xy H. bindR (gradient (f_img x) (stride_width d) scale (corner_weights scale (f_px x))
         (patch_offset (stride_width d) (patch_size_half d) scale (f_px x) (fst xy) (snd xy))) (\<lambda>g.
       put_cell (row_at V i xy) (reference_row x p (vscale (1 / of_int scale) (image_row g J))) H)) (patch_cells (patch_size d)) H))))"

definition PrecomputeReferencePatches :: "visual_env \<Rightarrow> nat \<Rightarrow> vio \<Rightarrow> vio res" where
  "PrecomputeReferencePatches E level V = (if vo_total V = 0 then Inr V
     else bindR (foldR (reference_rows E level V) [0..<vo_total V]
         (replicate (nat (int (vo_total V) * patch_size_total (vo_dims V))) (replicate 6 0))) (\<lambda>H.
       Inr (V\<lparr>vo_H_inv := H, vo_has_cache := True\<rparr>)))"

text \<open>A row of the reference patch carried over to the state; a block of three columns of H_sub_inv_.\<close>

definition inverse_row :: "states_group \<Rightarrow> rat list \<Rightarrow> rat list" where
  "inverse_row s h = (let t = row_mul (block3 3 h) (rot_end s) in
     vlist (vadd (row_mul (block3 0 h) (rot_end s)) (row_mul (row_mul (block3 3 h) (skew (pos_end s))) (rot_end s))) @ vlist t)"

definition inverse_pixel :: "vio \<Rightarrow> states_group \<Rightarrow> image \<Rightarrow> nat \<Rightarrow> nat \<Rightarrow> px \<Rightarrow> int \<Rightarrow> rat list \<Rightarrow> int \<times> int \<Rightarrow> rat \<times> sweep \<Rightarrow> (rat \<times> sweep) res" where
  "inverse_pixel V s img level i pc scale P xy st = (case st of (pe, sw) \<Rightarrow> let d = vo_dims V in
     bindR (blend img (stride_width d) scale (corner_weights scale pc)
       (patch_offset (stride_width d) (patch_size_half d) scale pc (fst xy) (snd xy))) (\<lambda>cur.
     bindR (at_cell (patch_size_total d * int level + fst xy * patch_size d + snd xy) P) (\<lambda>ref.
     bindR (at_cell (row_at V i xy) (vo_H_inv V)) (\<lambda>h. let res = cur - ref in
     bindR (put_cell (row_at V i xy) (inverse_row s h, res) (sw_rows sw)) (\<lambda>rows.
       Inr (pe + res * res, sw\<lparr>sw_rows := rows, sw_n := sw_n sw + 1\<rparr>))))))"

definition inverse_point :: "vio \<Rightarrow> states_group \<Rightarrow> image \<Rightarrow> nat \<Rightarrow> nat \<Rightarrow> sweep \<Rightarrow> sweep res" where
  "inverse_point V s img level i sw = bindR (at_cell (int i) (sm_points (vo_sub V))) (\<lambda>a. bindR (get_point (vo_store V) a) (\<lambda>p.
     bindR (world2cam (vo_cam V) (se3_apply (camera_pose V s) (v_pos p))) (\<lambda>pc.
     bindR (at_cell (int i) (sm_warp_patch (vo_sub V))) (\<lambda>P.
     bindR (foldR (inverse_pixel V s img level i pc (2 ^ level) P) (patch_cells (patch_size (vo_dims V))) (0, sw)) (\<lambda>(pe, sw').
     bindR (put_cell (int i) pe (sw_errors sw')) (\<lambda>es. Inr (sw'\<lparr>sw_errors := es, sw_error := sw_error sw' + pe\<rparr>)))))))"

definition inverse_sweep :: "visual_env \<Rightarrow> image \<Rightarrow> nat \<Rightarrow> states_group \<Rightarrow> vio \<Rightarrow> (rat list \<times> rat) list \<Rightarrow> (sweep \<times> vio) res" where
  "inverse_sweep E img level s V rows = bindR (if vo_has_cache V then Inr V else PrecomputeReferencePatches E level V) (\<lambda>V'.
     bindR (foldR (inverse_point V' s img level) [0..<vo_total V'] (sweep_start V' rows)) (\<lambda>sw. Inr (sw, V')))"

section \<open>The update of the state\<close>

text \<open>H^T H and H^T z over the first n columns, and the correction with the gain.\<close>

definition visual_gram :: "nat \<Rightarrow> (rat list \<times> rat) list \<Rightarrow> mat" where
  "visual_gram n rows = map (\<lambda>j. map (\<lambda>k. sum_list (map (\<lambda>(h, z). h ! j * h ! k) rows)) [0..<n]) [0..<n]"

definition visual_weighted :: "nat \<Rightarrow> (rat list \<times> rat) list \<Rightarrow> rat list" where
  "visual_weighted n rows = map (\<lambda>j. sum_list (map (\<lambda>(h, z). h ! j * z) rows)) [0..<n]"

definition visual_step :: "visual_env \<Rightarrow> nat \<Rightarrow> rat \<Rightarrow> states_group \<Rightarrow> (rat list \<times> rat) list \<Rightarrow> states_group \<Rightarrow> rat list \<times> mat" where
  "visual_step E n c prop rows s = (let H = visual_gram n rows;
     K = ve_inverse E (mat_add (set_block 0 0 H (zeros 19)) (ve_inverse E (mat_scale (1 / c) (cov s))));
     G = gain_columns n K H; d = states_minus (ve_libm E) prop s in
     (map2 (-) (map2 (+) (mat_vec (columns n K) (map uminus (visual_weighted n rows))) d) (mat_vec (columns n G) (take n d)), G))"

text \<open>
  The iterations of a level; the error of a sweep without measurements is 0/0, and the
  comparison with it fails.  An error that grew takes the state before the last
  correction back.
\<close>

fun visual_iterations :: "visual_env \<Rightarrow> (states_group \<Rightarrow> vio \<Rightarrow> (rat list \<times> rat) list \<Rightarrow> (sweep \<times> vio) res) \<Rightarrow> nat \<Rightarrow> states_group \<Rightarrow> nat
    \<Rightarrow> rat option \<Rightarrow> states_group \<Rightarrow> (rat list \<times> rat) list \<Rightarrow> states_group \<times> vio \<Rightarrow> (states_group \<times> vio) res" where
  "visual_iterations E sweep n prop 0 best old rows sV = Inr sV"
| "visual_iterations E sweep n prop (Suc k) best old rows (s, V) = bindR (sweep s V rows) (\<lambda>(sw, V').
     let V1 = V'\<lparr>vo_sub := (vo_sub V')\<lparr>sm_errors := sw_errors sw\<rparr>\<rparr>; err = sw_error sw / of_nat (sw_n sw) in
     if sw_n sw = 0 \<or> (case best of None \<Rightarrow> False | Some b \<Rightarrow> b < err) then Inr (old, V1)
     else if vo_img_point_cov V1 = 0 then Inl DivByZero
     else case visual_step E n (vo_img_point_cov V1) prop (sw_rows sw) s of (dx, G) \<Rightarrow>
       let L = ve_libm E; s' = states_plus L s dx; V2 = V1\<lparr>vo_G := Some G\<rparr> in
       if norm3 L (block3 0 dx) * (573 / 10) < 1 / 1000 \<and> norm3 L (block3 3 dx) * 100 < 1 / 1000 then Inr (s', V2)
       else visual_iterations E sweep n prop k (Some err) s (sw_rows sw) (s', V2))"

definition no_rows :: "vio \<Rightarrow> nat \<Rightarrow> (rat list \<times> rat) list" where
  "no_rows V n = replicate (nat (int (vo_total V) * patch_size_total (vo_dims V))) (replicate n 0, 0)"

definition UpdateState :: "visual_env \<Rightarrow> image \<Rightarrow> states_group \<Rightarrow> nat \<Rightarrow> states_group \<times> vio \<Rightarrow> (states_group \<times> vio) res" where
  "UpdateState E img prop level sV = (if vo_total (snd sV) = 0 then Inr sV
     else visual_iterations E (forward_sweep img level) 7 prop (nat (vo_max_iterations (snd sV))) None (fst sV) (no_rows (snd sV) 7) sV)"

definition UpdateStateInverse :: "visual_env \<Rightarrow> image \<Rightarrow> states_group \<Rightarrow> nat \<Rightarrow> states_group \<times> vio \<Rightarrow> (states_group \<times> vio) res" where
  "UpdateStateInverse E img prop level sV = (if vo_total (snd sV) = 0 then Inr sV
     else visual_iterations E (inverse_sweep E img level) 6 prop (nat (vo_max_iterations (snd sV))) None (fst sV) (no_rows (snd sV) 6) sV)"

definition update_level :: "visual_env \<Rightarrow> image \<Rightarrow> states_group \<Rightarrow> nat \<Rightarrow> states_group \<times> vio \<Rightarrow> (states_group \<times> vio) res" where
  "update_level E img prop level sV = (case sV of (s, V) \<Rightarrow>
     if vo_inverse_en V then UpdateStateInverse E img prop level (s, V\<lparr>vo_has_cache := False\<rparr>) else UpdateState E img prop level (s, V))"

text \<open>The levels from the coarsest; the covariance shrinks with the gain of the last correction, made in this frame or before.\<close>

definition ComputeJacobianAndUpdateEKF :: "visual_env \<Rightarrow> image \<Rightarrow> states_group \<Rightarrow> states_group \<times> vio \<Rightarrow> (states_group \<times> vio) res" where
  "ComputeJacobianAndUpdateEKF E img prop sV = (if vo_total (snd sV) = 0 then Inr sV
     else bindR (foldR (update_level E img prop) (rev [0..<nat (vo_pyramid (snd sV))]) sV) (\<lambda>(s, V).
       case vo_G V of None \<Rightarrow> Inl Undefined
       | Some G \<Rightarrow> let s' = s\<lparr>cov := mat_add (cov s) (mat_scale (- 1) (mat_mul G (cov s)))\<rparr> in Inr (s', UpdateFrameState s' V)))"

section \<open>A frame\<close>

text \<open>Drawing the points reads them.\<close>

definition PlotTrackedPoints :: "vio \<Rightarrow> vio res" where
  "PlotTrackedPoints V = foldR (\<lambda>a V. bindR (get_point (vo_store V) a) (\<lambda>p. bindR (w2c V (v_pos p)) (\<lambda>pc. Inr V))) (sm_points (vo_sub V)) V"

text \<open>
  The image comes with its channels; resizing it and turning it grey are OpenCV's, and
  a frame must be grey in the end.  The
  state before the frame is that of the filter, and prop the one predicted.
\<close>

definition ProcessFrame :: "visual_env \<Rightarrow> (image \<Rightarrow> image) \<Rightarrow> (image \<Rightarrow> image) \<Rightarrow> nat \<Rightarrow> image \<Rightarrow> states_group \<Rightarrow> point_with_var list \<Rightarrow> voxel_map
    \<Rightarrow> states_group \<times> vio \<Rightarrow> (states_group \<times> vio) res" where
  "ProcessFrame E resize gray channels img prop pvs vm sV = (case sV of (s, V) \<Rightarrow>
     let img1 = (if cam_width (vo_cam V) \<noteq> im_cols img \<or> cam_height (vo_cam V) \<noteq> im_rows img then resize img else img);
       img2 = (if channels = 3 then gray img1 else img1) in
     if channels \<noteq> 1 \<and> channels \<noteq> 3 then Inl RuntimeError
     else bindR (ImageFrame img2 V) (\<lambda>V1.
     bindR (RetrieveFromVisualSparseMapLRU E img2 s pvs vm (ResetGrid (ve_junk_point E) (UpdateFrameState s V1))) (\<lambda>V2.
     bindR (ComputeJacobianAndUpdateEKF E img2 prop (s, V2)) (\<lambda>(s', V3).
     bindR (GenerateVisualMapPoints E img2 s' pvs V3) (\<lambda>V4.
     bindR (PlotTrackedPoints V4) (\<lambda>V5.
     bindR (UpdateVisualMapPoints E img2 s' V5) (\<lambda>V6.
     bindR (UpdateReferencePatch E vm V6) (\<lambda>V7. Inr (s', V7)))))))))"

section \<open>What a sweep reads\<close>

lemma sweep_rows:
  assumes "0 < s" "of_int (half * s + s) \<le> u" "u < of_int (n - (half * s + s))" "0 \<le> x" "x < 2 * half"
  shows "s \<le> base s u - half * s + x * s" "base s u - half * s + x * s + s + s < n"
proof -
  have "of_int (half * s + s) < (of_int (base s u + s) :: rat)" using base_bounds(2)[OF assms(1), of u] assms(2) by linarith
  then have "half * s + s < base s u + s" unfolding of_int_less_iff .
  then have "(half + 1) * s < (\<lfloor>u / of_int s\<rfloor> + 1) * s" by (simp add: base_def algebra_simps)
  then have "half + 1 \<le> \<lfloor>u / of_int s\<rfloor>" using assms(1) by (simp add: mult_less_cancel_right)
  then have "(half + 1) * s \<le> \<lfloor>u / of_int s\<rfloor> * s" using assms(1) by (simp add: mult_right_mono)
  then have l: "half * s + s \<le> base s u" by (simp add: base_def distrib_right)
  have "(of_int (base s u) :: rat) < of_int (n - (half * s + s))" using base_bounds(1)[OF assms(1), of u] assms(3) by linarith
  then have h: "base s u < n - (half * s + s)" unfolding of_int_less_iff .
  have "0 \<le> x * s" "(x + 1) * s \<le> 2 * half * s" using assms by (simp_all add: mult_right_mono)
  then show "s \<le> base s u - half * s + x * s" "base s u - half * s + x * s + s + s < n" using l h by (simp_all add: algebra_simps)
qed

lemma gradient_inside:
  assumes "image_ok img" "0 < s" "s \<le> r" "r + s + s < im_rows img" "s \<le> c" "c + s + s < im_cols img"
  shows "\<exists>gu gv. gradient img (im_cols img) s (corner_weights s p) (r * im_cols img + c) = Inr (gu, gv)
    \<and> \<bar>gu\<bar> \<le> 255 / 2 \<and> \<bar>gv\<bar> \<le> 255 / 2"
proof -
  let ?b = "\<lambda>i. blend img (im_cols img) s (corner_weights s p) i" and ?i = "r * im_cols img + c"
  have e: "?i + s = r * im_cols img + (c + s)" "?i - s = r * im_cols img + (c - s)"
    "?i + s * im_cols img = (r + s) * im_cols img + c" "?i - s * im_cols img = (r - s) * im_cols img + c" by (simp_all add: algebra_simps)
  obtain a b d f where v: "?b (?i + s) = Inr a" "?b (?i - s) = Inr b" "?b (?i + s * im_cols img) = Inr d" "?b (?i - s * im_cols img) = Inr f"
    and i: "0 \<le> a" "a \<le> 255" "0 \<le> b" "b \<le> 255" "0 \<le> d" "d \<le> 255" "0 \<le> f" "f \<le> 255"
    unfolding e
    using blend_inside[OF assms(1,2), of r "c + s" p] blend_inside[OF assms(1,2), of r "c - s" p]
      blend_inside[OF assms(1,2), of "r + s" c p] blend_inside[OF assms(1,2), of "r - s" c p] assms by auto
  have "gradient img (im_cols img) s (corner_weights s p) ?i = Inr ((a - b) / 2, (d - f) / 2)" unfolding gradient_def v by simp
  moreover have "\<bar>(a - b) / 2\<bar> \<le> 255 / 2" "\<bar>(d - f) / 2\<bar> \<le> 255 / 2" using i by (simp_all add: abs_le_iff)
  ultimately show ?thesis by blast
qed

text \<open>
  C19 sweep_inside: at a place that passes the margin test of UpdateState and is not
  exactly on its far edges, every pixel of the patch and every pixel of its slopes is
  read inside the image, at every scale; the values are grey values and the slopes at
  most half their range.
\<close>

theorem sweep_inside:
  assumes "image_ok img" "stride_width (vo_dims V) = im_cols img" "patch_size (vo_dims V) = 2 * patch_size_half (vo_dims V)" "0 < s"
    "\<not> near_border V img s (u, v)" "u \<noteq> of_int (im_cols img - (patch_size_half (vo_dims V) * s + s))"
    "v \<noteq> of_int (im_rows img - (patch_size_half (vo_dims V) * s + s))" "xy \<in> set (patch_cells (patch_size (vo_dims V)))"
    "i = patch_offset (stride_width (vo_dims V)) (patch_size_half (vo_dims V)) s (u, v) (fst xy) (snd xy)"
  shows "\<exists>cur gu gv. blend img (stride_width (vo_dims V)) s (corner_weights s (u, v)) i = Inr cur
    \<and> gradient img (stride_width (vo_dims V)) s (corner_weights s (u, v)) i = Inr (gu, gv)
    \<and> 0 \<le> cur \<and> cur \<le> 255 \<and> \<bar>gu\<bar> \<le> 255 / 2 \<and> \<bar>gv\<bar> \<le> 255 / 2"
proof -
  define half where "half = patch_size_half (vo_dims V)"
  obtain x y where p: "xy = (x, y)" by (cases xy)
  then have xy: "xy = (x, y)" "0 \<le> x" "x < 2 * half" "0 \<le> y" "y < 2 * half"
    using assms(8) unfolding assms(3) by (simp_all add: patch_cells_set half_def)
  have n: "of_int (half * s + s) \<le> u" "u < of_int (im_cols img - (half * s + s))" "of_int (half * s + s) \<le> v" "v < of_int (im_rows img - (half * s + s))"
    using assms(5-7) unfolding near_border_def Let_def half_def by auto
  define r c where "r = base s v - half * s + x * s" and "c = base s u - half * s + y * s"
  have r: "s \<le> r" "r + s + s < im_rows img" unfolding r_def by (rule sweep_rows[OF assms(4) n(3,4) xy(2,3)])+
  have c: "s \<le> c" "c + s + s < im_cols img" unfolding c_def by (rule sweep_rows[OF assms(4) n(1,2) xy(4,5)])+
  have i: "i = r * im_cols img + c" unfolding assms(9) by (simp add: assms(2) xy(1) half_def[symmetric] r_def c_def)
  show ?thesis
    using blend_inside[OF assms(1,4), of r c "(u, v)"] gradient_inside[OF assms(1,4) r c, of "(u, v)"] r c assms(4)
    unfolding assms(2) i by fastforce
qed

lemma sweep_inside_witness:
  "\<exists>cur g. blend (grey_image 640 480) 640 4 (corner_weights 4 (320, 240)) (patch_offset 640 4 4 (320, 240) 7 7) = Inr cur
     \<and> gradient (grey_image 640 480) 640 4 (corner_weights 4 (320, 240)) (patch_offset 640 4 4 (320, 240) 7 7) = Inr g"
proof -
  have d: "stride_width (vo_dims test_vio) = 640" "patch_size (vo_dims test_vio) = 8" "patch_size_half (vo_dims test_vio) = 4"
    "im_cols (grey_image 640 480) = 640" "im_rows (grey_image 640 480) = 480"
    by (simp_all add: plain_vio_def pinhole_as_camera_def test_camera_def grey_image_def)
  have n: "\<not> near_border test_vio (grey_image 640 480) 4 (320, 240)" by (simp add: near_border_def d)
  show ?thesis
    using sweep_inside[OF grey_image_ok[of 640 480], of test_vio 4 320 240 "(7, 7)"] n by (auto simp: d patch_cells_set)
qed

text \<open>
  margin_overrun: the test lets a place on its lower edge pass, and there the last row of
  the patch has the slopes read below the image.
\<close>

theorem margin_overrun:
  assumes "image_ok img" "stride_width (vo_dims V) = im_cols img" "patch_size (vo_dims V) = 2 * patch_size_half (vo_dims V)"
    "0 < patch_size_half (vo_dims V)" "0 < s" "v = of_int (k * s)" "k * s = im_rows img - (patch_size_half (vo_dims V) * s + s)"
    "\<not> near_border V img s (u, v)"
    "i = patch_offset (stride_width (vo_dims V)) (patch_size_half (vo_dims V)) s (u, v) (patch_size (vo_dims V) - 1) 0"
  shows "isOk (gradient img (stride_width (vo_dims V)) s (corner_weights s (u, v)) i) = False"
proof -
  define half where "half = patch_size_half (vo_dims V)"
  have "of_int (half * s + s) \<le> u" using assms(8) unfolding near_border_def Let_def half_def by auto
  then have "of_int (half * s) < (of_int (base s u) :: rat)" using base_bounds(2)[OF assms(5), of u] unfolding of_int_add by linarith
  then have c: "half * s < base s u" unfolding of_int_less_iff .
  have b: "base s v = k * s" using assms(5) by (simp add: base_def assms(6))
  define c0 where "c0 = base s u - half * s"
  have i: "i + s * im_cols img = (im_rows img - s) * im_cols img + c0"
    unfolding assms(9) by (simp add: assms(2,3) b assms(7) half_def[symmetric] c0_def algebra_simps)
  have len: "int (length (im_data img)) = im_rows img * im_cols img" using assms(1) by (simp add: image_ok_def mult.commute)
  have "int (length (im_data img)) \<le> i + s * im_cols img + s * im_cols img" unfolding i len using c by (simp add: c0_def algebra_simps)
  then have "pixel img (i + s * im_cols img + s * im_cols img) = Inl OutOfBounds" by (simp add: pixel_def)
  then have "blend img (im_cols img) s (corner_weights s (u, v)) (i + s * im_cols img) \<noteq> Inr w" for w
    by (auto simp: blend_def bindR_eq_Inr split: prod.splits)
  then show ?thesis unfolding gradient_def assms(2) isOk_iff by (auto simp: bindR_eq_Inr)
qed


lemma margin_overrun_witness:
  "isOk (gradient (grey_image 640 480) 640 4 (corner_weights 4 (320, 460)) (patch_offset 640 4 4 (320, 460) 7 0)) = False"
proof -
  have d: "stride_width (vo_dims test_vio) = 640" "patch_size (vo_dims test_vio) = 8" "patch_size_half (vo_dims test_vio) = 4"
    "im_cols (grey_image 640 480) = 640" "im_rows (grey_image 640 480) = 480"
    by (simp_all add: plain_vio_def pinhole_as_camera_def test_camera_def grey_image_def)
  have n: "\<not> near_border test_vio (grey_image 640 480) 4 (320, 460)" by (simp add: near_border_def d)
  show ?thesis
    using margin_overrun[OF grey_image_ok[of 640 480], of test_vio 4 460 115 320] n by (simp add: d)
qed

section \<open>The error of a sweep\<close>

definition later_weight :: "rat list \<Rightarrow> rat" where
  "later_weight rs = (\<Sum>k < length rs. of_nat (length rs - k) * (rs ! k * rs ! k))"

lemma later_weight_Cons: "later_weight (r # rs) = of_nat (length rs + 1) * (r * r) + later_weight rs"
  unfolding later_weight_def by (simp add: sum.lessThan_Suc_shift del: sum.lessThan_Suc)

lemma set_row_Inr: "set_row expo k h cur z rows = Inr rows' \<Longrightarrow> \<exists>h'. 0 \<le> k \<and> k < int (length rows) \<and> rows' = rows[nat k := (h', z)]"
  by (auto simp: set_row_def bindR_eq_Inr cell_put split: prod.splits)

lemma pixel_step:
  assumes "measure_pixel V s img level i pf pc scale J P expo xy (pe, sw) = Inr (pe', sw')"
  obtains r h where "pe' = pe + r * r" "sw_error sw' = sw_error sw + pe'" "sw_n sw' = sw_n sw + 1" "0 \<le> row_at V i xy"
    "row_at V i xy < int (length (sw_rows sw))" "sw_rows sw' = (sw_rows sw)[nat (row_at V i xy) := (h, r)]"
    "i < length (sw_errors sw)" "sw_errors sw' = (sw_errors sw)[i := pe']"
proof -
  obtain cur ref es g rows where e: "put_cell (int i) (pe + (inv_expo_time s * cur - expo * ref) * (inv_expo_time s * cur - expo * ref)) (sw_errors sw) = Inr es"
    "set_row (vo_exposure_en V) (row_at V i xy) (photo_row V s pf (vscale (inv_expo_time s / of_int scale) (image_row g J))) cur
      (inv_expo_time s * cur - expo * ref) (sw_rows sw) = Inr rows"
    "pe' = pe + (inv_expo_time s * cur - expo * ref) * (inv_expo_time s * cur - expo * ref)"
    "sw' = sw\<lparr>sw_rows := rows, sw_errors := es, sw_error := sw_error sw + pe', sw_n := sw_n sw + 1\<rparr>"
    using assms unfolding measure_pixel_def Let_def prod.case bindR_eq_Inr by blast
  from set_row_Inr[OF e(2)] obtain h where "0 \<le> row_at V i xy" "row_at V i xy < int (length (sw_rows sw))"
    "rows = (sw_rows sw)[nat (row_at V i xy) := (h, inv_expo_time s * cur - expo * ref)]" by blast
  then show thesis using e(1,3,4) by (intro that[of "inv_expo_time s * cur - expo * ref" h]) (simp_all add: cell_put)
qed

lemma pixels_error:
  assumes "foldR (measure_pixel V s img level i pf pc scale J P expo) xs (pe, sw) = Inr (pe', sw')" "distinct (map (row_at V i) xs)"
  shows "\<exists>rs. length rs = length xs \<and> (\<forall>k < length xs. snd (sw_rows sw' ! nat (row_at V i (xs ! k))) = rs ! k)
    \<and> (\<forall>j. (\<forall>xy \<in> set xs. j \<noteq> nat (row_at V i xy)) \<longrightarrow> sw_rows sw' ! j = sw_rows sw ! j)
    \<and> pe' = pe + sum_list (map (\<lambda>r. r * r) rs) \<and> sw_error sw' = sw_error sw + of_nat (length xs) * pe + later_weight rs
    \<and> sw_n sw' = sw_n sw + length xs \<and> (if xs = [] then sw_errors sw' = sw_errors sw else sw_errors sw' = (sw_errors sw)[i := pe'] \<and> i < length (sw_errors sw))"
  using assms
proof (induction xs arbitrary: pe sw)
  case Nil
  then show ?case by (simp add: later_weight_def)
next
  case (Cons xy xs)
  obtain pe1 sw1 where m: "measure_pixel V s img level i pf pc scale J P expo xy (pe, sw) = Inr (pe1, sw1)"
    and f: "foldR (measure_pixel V s img level i pf pc scale J P expo) xs (pe1, sw1) = Inr (pe', sw')"
    using Cons.prems(1) by (auto simp: bindR_eq_Inr)
  from pixel_step[OF m] obtain r h where e: "pe1 = pe + r * r" "sw_error sw1 = sw_error sw + pe1" "sw_n sw1 = sw_n sw + 1" "0 \<le> row_at V i xy"
    "row_at V i xy < int (length (sw_rows sw))" "sw_rows sw1 = (sw_rows sw)[nat (row_at V i xy) := (h, r)]"
    "i < length (sw_errors sw)" "sw_errors sw1 = (sw_errors sw)[i := pe1]" .
  have "distinct (map (row_at V i) xs)" using Cons.prems(2) by simp
  from Cons.IH[OF f this] obtain rs where rs: "length rs = length xs" "\<And>k. k < length xs \<Longrightarrow> snd (sw_rows sw' ! nat (row_at V i (xs ! k))) = rs ! k"
    "\<And>j. (\<forall>xy \<in> set xs. j \<noteq> nat (row_at V i xy)) \<Longrightarrow> sw_rows sw' ! j = sw_rows sw1 ! j"
    "pe' = pe1 + sum_list (map (\<lambda>r. r * r) rs)" "sw_error sw' = sw_error sw1 + of_nat (length xs) * pe1 + later_weight rs"
    "sw_n sw' = sw_n sw1 + length xs" "if xs = [] then sw_errors sw' = sw_errors sw1 else sw_errors sw' = (sw_errors sw1)[i := pe'] \<and> i < length (sw_errors sw1)"
    by blast
  have row: "0 \<le> row_at V i z" if "z \<in> set xs" for z
  proof -
    have "foldR (measure_pixel V s img level i pf pc scale J P expo) zs (pe2, sw2) = Inr q \<Longrightarrow> z \<in> set zs \<Longrightarrow> 0 \<le> row_at V i z" for zs pe2 sw2 q
    proof (induction zs arbitrary: pe2 sw2)
      case (Cons a zs)
      then obtain b where "measure_pixel V s img level i pf pc scale J P expo a (pe2, sw2) = Inr b"
        "foldR (measure_pixel V s img level i pf pc scale J P expo) zs b = Inr q" by (auto simp: bindR_eq_Inr)
      then show ?case using Cons pixel_step[of V s img level i pf pc scale J P expo a pe2 sw2 "fst b" "snd b"] by (cases b) auto
    qed simp
    then show ?thesis using f that by blast
  qed
  have ne: "nat (row_at V i xy) \<noteq> nat (row_at V i z)" if "z \<in> set xs" for z
    using Cons.prems(2) that row[OF that] e(4) by (auto simp: image_iff)
  have "sw_rows sw' ! nat (row_at V i xy) = (h, r)" using rs(3)[of "nat (row_at V i xy)"] ne e(4-6) by auto
  then have k: "snd (sw_rows sw' ! nat (row_at V i ((xy # xs) ! k))) = (r # rs) ! k" if "k < length (xy # xs)" for k
    using that rs(2) by (cases k) auto
  have o: "sw_rows sw' ! j = sw_rows sw ! j" if "\<forall>z \<in> set (xy # xs). j \<noteq> nat (row_at V i z)" for j
    using rs(3)[of j] that e(6) by auto
  show ?case
    by (rule exI[of _ "r # rs"]) (use rs(1,4-7) e k o in \<open>auto simp: later_weight_Cons algebra_simps split: if_splits\<close>)
qed

lemma rows_distinct:
  assumes "patch_size_total (vo_dims V) = patch_size (vo_dims V) * patch_size (vo_dims V)"
  shows "distinct (map (row_at V i) (patch_cells (patch_size (vo_dims V))))"
proof -
  let ?n = "patch_size (vo_dims V)"
  have "inj_on (row_at V i) (set (patch_cells ?n))"
  proof (rule inj_onI)
    fix a b assume a: "a \<in> set (patch_cells ?n)" and b: "b \<in> set (patch_cells ?n)" and e: "row_at V i a = row_at V i b"
    obtain x y z w where ab: "a = (x, y)" "b = (z, w)" by (cases a; cases b)
    have r: "0 \<le> y" "y < ?n" "0 \<le> w" "w < ?n" using a b by (auto simp: ab patch_cells_set)
    have s: "x * ?n + y = z * ?n + w" using e by (simp add: ab row_at_def)
    then have "(x * ?n + y) div ?n = (z * ?n + w) div ?n" by simp
    then have "x = z" using r by simp
    then show "a = b" using s by (simp add: ab)
  qed
  moreover have "distinct (patch_cells ?n)"
    unfolding patch_cells_def by (intro distinct_concat) (auto simp: distinct_map intro!: inj_onI)
  ultimately show ?thesis by (simp add: distinct_map)
qed

text \<open>
  C21 errors_counted_again: a point that is measured adds more to the error of the sweep than the
  squares of its residuals: the square of a pixel counts once for itself and once for
  every later pixel of the patch, because the running sum is added for every pixel.
  The error kept for the patch is the plain sum.
\<close>

theorem errors_counted_again:
  assumes "measure_point V s img level i sw = Inr sw'" "patch_size_total (vo_dims V) = patch_size (vo_dims V) * patch_size (vo_dims V)"
    "0 < patch_size (vo_dims V)" "n = length (patch_cells (patch_size (vo_dims V)))"
    "rs = map (\<lambda>k. snd (sw_rows sw' ! nat (row_at V i (patch_cells (patch_size (vo_dims V)) ! k)))) [0..<n]"
  shows "sw' = sw \<or> (sw_error sw' = sw_error sw + (\<Sum>k < n. of_nat (n - k) * (rs ! k * rs ! k))
    \<and> sw_errors sw' ! i = (\<Sum>k < n. rs ! k * rs ! k) \<and> sw_n sw' = sw_n sw + n)"
proof (cases "sw' = sw")
  case False
  let ?cs = "patch_cells (patch_size (vo_dims V))"
  obtain pf pc scale where "(if near_border V img scale pc then Inr sw
     else bindR (ComputeProjectionJacobian (cam_fx (vo_cam V)) (cam_fy (vo_cam V)) pf) (\<lambda>J.
       bindR (at_cell (int i) (sm_warp_patch (vo_sub V))) (\<lambda>P. bindR (at_cell (int i) (sm_inv_expo (vo_sub V))) (\<lambda>expo.
       bindR (foldR (measure_pixel V s img level i pf pc scale J P expo) ?cs (0, sw)) (\<lambda>(_, sw'). Inr sw'))))) = Inr sw'"
    using assms(1) unfolding measure_point_def Let_def bindR_eq_Inr by blast
  then obtain J P expo q where "foldR (measure_pixel V s img level i pf pc scale J P expo) ?cs (0, sw) = Inr q" "snd q = sw'"
    using False by (auto simp: bindR_eq_Inr split: if_splits)
  then obtain pe where f: "foldR (measure_pixel V s img level i pf pc scale J P expo) ?cs (0, sw) = Inr (pe, sw')" by (cases q) auto
  from pixels_error[OF f rows_distinct[OF assms(2)]] obtain qs where q: "length qs = n" "\<And>k. k < n \<Longrightarrow> snd (sw_rows sw' ! nat (row_at V i (?cs ! k))) = qs ! k"
    "pe = sum_list (map (\<lambda>r. r * r) qs)" "sw_error sw' = sw_error sw + later_weight qs" "sw_n sw' = sw_n sw + n"
    "if ?cs = [] then sw_errors sw' = sw_errors sw else sw_errors sw' = (sw_errors sw)[i := pe] \<and> i < length (sw_errors sw)"
    unfolding assms(4) by auto
  have qs: "rs = qs" unfolding assms(5) using q(1,2) by (intro nth_equalityI) simp_all
  have "0 < n" using assms(3) unfolding assms(4) patch_cells_length by simp
  then have "?cs \<noteq> []" unfolding assms(4) by auto
  then have "sw_errors sw' ! i = pe" using q(6) by simp
  moreover have "pe = (\<Sum>k < n. rs ! k * rs ! k)" unfolding qs q(3) using q(1) by (simp add: sum_list_sum_nth atLeast0LessThan)
  ultimately show ?thesis using q(1,4,5) by (simp add: qs later_weight_def)
qed simp

lemma grey_pixel: "0 \<le> i \<Longrightarrow> i < int w * int h \<Longrightarrow> pixel (grey_image w h) i = Inr 128"
  by (simp add: pixel_def grey_image_def nat_less_iff)

lemma one_point_sweep: "row_at one_point_vio 0 xy = fst xy * 2 + snd xy" "near_border one_point_vio (grey_image 640 480) 1 (320, 240) = False"
  by (simp_all add: near_border_def grey_image_def row_at_def one_point_parts)

lemma errors_counted_again_witness:
  "\<exists>sw'. measure_point one_point_vio StatesGroup (grey_image 640 480) 0 0 (sweep_start one_point_vio (no_rows one_point_vio 7)) = Inr sw'
     \<and> sw_error sw' = 7840 \<and> sw_errors sw' ! 0 = 3136"
proof -
  have c: "patch_cells 2 = [(0, 0), (0, 1), (1, 0), (1, 1)]" by (simp add: patch_cells_def upto_rec1)
  have w: "corner_weights 1 (320, 240) = (1, 0, 0, 0)" "base 1 320 = 320" "base 1 240 = 240" by (simp_all add: base_def)
  have u: "[0..<4] = [0, 1, 2, 3]" by (simp add: upt_rec)
  have e: "inv_expo_time StatesGroup = 1" by (simp add: StatesGroup_def)
  obtain sw' where m: "measure_point one_point_vio StatesGroup (grey_image 640 480) 0 0 (sweep_start one_point_vio (no_rows one_point_vio 7)) = Inr sw'"
    and r: "map (\<lambda>k. snd (sw_rows sw' ! nat (row_at one_point_vio 0 (patch_cells 2 ! k)))) [0..<4] = [28, 28, 28, 28]" "sw_n sw' = 4"
    by (simp add: u measure_point_def one_point_parts one_point_sweep m3_id_def at_cell_def ComputeProjectionJacobian_def Let_def c measure_pixel_def w blend_def gradient_def
        grey_pixel put_cell_def set_row_def sweep_start_def no_rows_def e numeral_2_eq_2)
  have d: "patch_size (vo_dims one_point_vio) = 2" "patch_size_total (vo_dims one_point_vio) = 4" by (simp_all add: one_point_parts)
  have "sw' \<noteq> sweep_start one_point_vio (no_rows one_point_vio 7)" using r(2) by (auto simp: sweep_start_def)
  then show ?thesis using errors_counted_again[OF m, of 4] m r(1) unfolding d c
    by (simp add: sweep_start_def lessThan_nat_numeral lessThan_Suc u)
qed

section \<open>The correction from the image\<close>

lemma visual_gram_dim: "dim n n (visual_gram n rows)" "length (visual_weighted n rows) = n"
  by (auto simp: dim_def visual_gram_def visual_weighted_def)

text \<open>
  C12 visual_normal_equations: the correction from the image solves the normal equations of the
  weighted least squares it stands for: with H^T H and the inverse of the covariance over
  the variance of a grey value on the left, it is - H^T z and that inverse times the
  distance to the predicted state on the right - if the library's inverse is one at these
  matrices.
\<close>

theorem visual_normal_equations:
  assumes "visual_step E n c prop rows s = (dx, G)" "0 < n" "n \<le> 19" "dim 19 19 (cov s)" "\<And>M. dim 19 19 M \<Longrightarrow> dim 19 19 (ve_inverse E M)"
    "is_inverse (mat_add (set_block 0 0 (visual_gram n rows) (zeros 19)) (ve_inverse E (mat_scale (1 / c) (cov s))))
       (ve_inverse E (mat_add (set_block 0 0 (visual_gram n rows) (zeros 19)) (ve_inverse E (mat_scale (1 / c) (cov s)))))" "i < 19"
  shows "(\<Sum>j < 19. mat_add (set_block 0 0 (visual_gram n rows) (zeros 19)) (ve_inverse E (mat_scale (1 / c) (cov s))) ! i ! j * dx ! j)
    = (if i < n then - (\<Sum>(h, z) \<leftarrow> rows. h ! i * z) else 0)
      + (\<Sum>j < 19. ve_inverse E (mat_scale (1 / c) (cov s)) ! i ! j * states_minus (ve_libm E) prop s ! j)"
proof -
  define A where "A = mat_add (set_block 0 0 (visual_gram n rows) (zeros 19)) (ve_inverse E (mat_scale (1 / c) (cov s)))"
  define K where "K = ve_inverse E A"
  have "dim 19 19 (mat_scale (1 / c) (cov s))" using assms(4) by (auto simp: dim_def mat_scale_def)
  then have P: "dim 19 19 (ve_inverse E (mat_scale (1 / c) (cov s)))" by (rule assms(5))
  have "dim 19 19 A" unfolding A_def by (intro mat_add_dim(1) P set_block_dim zeros_dim(1))
  then have K: "dim 19 19 K" unfolding K_def by (rule assms(5))
  have inv: "(\<Sum>j < 19. A ! i ! j * K ! j ! k) = (if i = k then 1 else 0)" if "k < 19" for k
    using assms(6,7) that unfolding is_inverse_def A_def[symmetric] K_def by blast
  have w: "length (map uminus (visual_weighted n rows)) = n" by (simp add: visual_gram_dim(2))
  have e: "dx = map2 (-) (map2 (+) (mat_vec (map (take n) K) (map uminus (visual_weighted n rows))) (states_minus (ve_libm E) prop s))
      (mat_vec (map (take n) (gain_columns n K (visual_gram n rows))) (take n (states_minus (ve_libm E) prop s)))"
    using assms(1)[symmetric] by (simp add: visual_step_def Let_def A_def K_def columns_def)
  have g: "gain_columns n K (visual_gram n rows) = map (\<lambda>r. r @ replicate (19 - n) 0) (mat_mul (map (take n) K) (visual_gram n rows))"
    by (simp add: gain_columns_def columns_def)
  have "map uminus (visual_weighted n rows) ! i = - (\<Sum>(h, z) \<leftarrow> rows. h ! i * z)" if "i < n"
    using that by (simp add: visual_weighted_def)
  then show ?thesis
    using correction_solves[OF K visual_gram_dim(1) P assms(2,3,7) A_def inv states_minus_length w g e] unfolding A_def[symmetric]
    by (cases "i < n") simp_all
qed

lemma visual_normal_equations_witness:
  "(\<Sum>j < 19. mat_add (set_block 0 0 (visual_gram 7 [(replicate 7 0, 5)]) (zeros 19)) (diagonal 19 (\<lambda>i. 1)) ! 6 ! j
      * fst (visual_step test_env 7 100 StatesGroup [(replicate 7 0, 5)] (StatesGroup\<lparr>cov := diagonal 19 (\<lambda>i. 1)\<rparr>)) ! j)
    = (\<Sum>j < 19. diagonal 19 (\<lambda>i. 1) ! 6 ! j * states_minus triangle_libm StatesGroup (StatesGroup\<lparr>cov := diagonal 19 (\<lambda>i. 1)\<rparr>) ! j)"
proof -
  let ?s = "StatesGroup\<lparr>cov := diagonal 19 (\<lambda>i. 1)\<rparr>" and ?rows = "[(replicate 7 0, 5)] :: (rat list \<times> rat) list"
  have v: "ve_inverse test_env M = diagonal 19 (\<lambda>i. 1)" "ve_libm test_env = triangle_libm" for M by (simp_all add: test_env_def)
  have inv: "is_inverse (mat_add (set_block 0 0 (visual_gram 7 ?rows) (zeros 19)) (diagonal 19 (\<lambda>i. 1))) (diagonal 19 (\<lambda>i. 1))"
    by (rule identity_inverse[OF visual_gram_dim(1)]) (simp_all add: visual_gram_def)
  have d: "dim 19 19 (cov ?s)" by (simp add: diagonal_dim(1))
  have "dim 19 19 (ve_inverse test_env M)" for M unfolding v by (rule diagonal_dim(1))
  from visual_normal_equations[of test_env 7 100 StatesGroup ?rows ?s, OF prod.collapse[symmetric] _ _ d this, of 6] inv
  show ?thesis unfolding v by simp
qed

end
