(* ===== verification/Pcd_Relocalize.thy ===== *)
theory Pcd_Relocalize
  imports So3_States Voxel_Map "HOL-Library.Product_Lexorder" "HOL-Library.List_Lexorder" "HOL-Library.Char_ord"
begin

text \<open>
  Finding the vehicle in a recorded map (edge/src/pcd_relocalize): the node
  that collects scans and registers them with the map (pcd_relocalizer.cpp).  The
  registration libraries
  TEASER++ and small_gicp, the grid filter of PCL and the files are arguments, with the
  settings that are only passed on to them.  Numbers are exact rationals, a
  callback is one step, each reading of the clock in it is an argument, and a rotation
  is taken for the quaternion made of it.
\<close>

section \<open>The state\<close>

type_synonym iso = "mat3 \<times> vec"

record transform =
  tr_stamp :: nat
  tr_frame :: string
  tr_child :: string
  tr_translation :: vec
  tr_rotation :: "rat \<times> rat \<times> rat \<times> rat"

record gicp_result =
  gr_converged :: bool
  gr_inliers :: nat
  gr_T :: iso

record reloc_env =
  rv_libm :: libm
  rv_pi :: rat
  rv_quat :: "mat3 \<Rightarrow> rat \<times> rat \<times> rat \<times> rat"
  rv_grid :: "rat \<Rightarrow> vec list \<Rightarrow> vec list"
  rv_teaser :: "vec list \<Rightarrow> vec list \<Rightarrow> iso option"
  rv_align :: "vec list \<Rightarrow> vec list \<Rightarrow> iso \<Rightarrow> gicp_result"

record reloc_config =
  map_pcd_path :: string
  tf_parent_frame :: string
  tf_child_frame :: string
  voxel_leaf :: rat
  accumulate_duration :: rat
  accumulate_warmup_skip_s :: rat
  yaw_hypothesis_step_deg :: rat
  auto_relocalize :: bool

datatype published = LiveCloud string "vec list" | AlignedCloud nat string "vec list" | StaticTf transform | DynamicTf transform | RelocStatus bool

text \<open>Null pointers are None; the service and the timer exist once they are created.\<close>

record relocalizer =
  ref_cloud :: "vec list option"
  accumulated_cloud :: "vec list option"
  accumulation_start :: nat
  accumulating :: bool
  accum_warmup_done :: bool
  accum_warmup_clock_started :: bool
  accum_warmup_t0 :: nat
  map_loaded :: bool
  relocalized :: bool
  last_map_to_odom :: transform
  tf_cache :: "((string \<times> string) \<times> transform) list"
  relocalize_srv :: bool
  tf_republish_timer :: bool
  published_log :: "published list"

definition send :: "published list \<Rightarrow> relocalizer \<Rightarrow> relocalizer" where
  "send os p = p\<lparr>published_log := published_log p @ os\<rparr>"

text \<open>The difference of two readings in seconds.\<close>

definition seconds :: "nat \<Rightarrow> nat \<Rightarrow> rat" where
  "seconds a b = of_int (int a - int b) / 10 ^ 9"

section \<open>Registration\<close>

definition globalRegistration :: "reloc_env \<Rightarrow> vec list \<Rightarrow> vec list \<Rightarrow> iso" where
  "globalRegistration E source target = (case rv_teaser E source target of Some T \<Rightarrow> T | None \<Rightarrow> (m3_id, (0, 0, 0)))"

text \<open>Seven angles about the vertical; minus 135 degrees is not among the usual ones.\<close>

definition yaw_hypotheses :: "rat \<Rightarrow> rat list" where
  "yaw_hypotheses step = (if 0 < step \<and> 1 / 10 ^ 6 < \<bar>step - 45\<bar>
     then [0, step, - step, 2 * step, - 2 * step, 3 * step, - 3 * step] else [0, 90, - 90, 180, 45, - 45, 135])"

definition about_z :: "libm \<Rightarrow> rat \<Rightarrow> mat3" where
  "about_z L a = ((l_cos L a, - l_sin L a, 0), (l_sin L a, l_cos L a, 0), (0, 0, 1))"

definition yaw_guess :: "reloc_env \<Rightarrow> iso \<Rightarrow> rat \<Rightarrow> iso" where
  "yaw_guess E T yaw = (m3_mul (about_z (rv_libm E) (yaw * (rv_pi E / 180))) (fst T), snd T)"

text \<open>The result held so far: its inliers, whether it converged, and the transform.\<close>

definition better :: "gicp_result \<Rightarrow> nat \<times> bool \<times> iso \<Rightarrow> nat \<times> bool \<times> iso" where
  "better r b = (case b of (n, c, T) \<Rightarrow>
     if gr_converged r \<and> (\<not> c \<or> n < gr_inliers r) then (gr_inliers r, True, gr_T r)
     else if \<not> c \<and> n < gr_inliers r then (gr_inliers r, c, gr_T r) else b)"

definition icpRefine :: "reloc_env \<Rightarrow> reloc_config \<Rightarrow> vec list \<Rightarrow> vec list \<Rightarrow> iso \<Rightarrow> iso" where
  "icpRefine E c source target T0 = snd (snd (fold (\<lambda>yaw. better (rv_align E target source (yaw_guess E T0 yaw)))
     (yaw_hypotheses (yaw_hypothesis_step_deg c)) (0, False, T0)))"

fun yaw_of :: "libm \<Rightarrow> mat3 \<Rightarrow> rat" where
  "yaw_of L ((a, b, e), (d, f, g), r) = l_atan2 L d a"

fun flat :: "vec \<Rightarrow> vec" where
  "flat (x, y, z) = (x, y, 0)"

definition projectToSE2 :: "libm \<Rightarrow> iso \<Rightarrow> iso" where
  "projectToSE2 L T = (about_z L (yaw_of L (fst T)), flat (snd T))"

definition publishMapToOdom :: "reloc_env \<Rightarrow> reloc_config \<Rightarrow> nat \<Rightarrow> iso \<Rightarrow> relocalizer \<Rightarrow> relocalizer" where
  "publishMapToOdom E c now T p = (let t = \<lparr>tr_stamp = now, tr_frame = tf_parent_frame c, tr_child = tf_child_frame c,
       tr_translation = snd T, tr_rotation = rv_quat E (fst T)\<rparr> in
     (send [StaticTf t, DynamicTf t] (p\<lparr>last_map_to_odom := t, relocalized := True\<rparr>))\<lparr>tf_republish_timer := True\<rparr>)"

definition publishAlignedCloud :: "reloc_config \<Rightarrow> nat \<Rightarrow> vec list \<Rightarrow> iso \<Rightarrow> relocalizer \<Rightarrow> relocalizer" where
  "publishAlignedCloud c now source T = send [AlignedCloud now (tf_parent_frame c) (map (\<lambda>v. vadd (m3_vec (fst T) v) (snd T)) source)]"

definition runRelocalization :: "reloc_env \<Rightarrow> reloc_config \<Rightarrow> nat \<times> nat \<Rightarrow> vec list \<Rightarrow> relocalizer \<Rightarrow> relocalizer res" where
  "runRelocalization E c ts cloud p = (let source = rv_grid E (voxel_leaf c) cloud in
     if length source < 50 then Inr p
     else case ref_cloud p of None \<Rightarrow> Inl NullDeref
     | Some target \<Rightarrow>
         let T = projectToSE2 (rv_libm E) (icpRefine E c source target (globalRegistration E source target)) in
         Inr (send [RelocStatus True] (publishAlignedCloud c (snd ts) source T (publishMapToOdom E c (fst ts) T p))))"

section \<open>Callbacks\<close>

definition startAccumulation :: "reloc_config \<Rightarrow> relocalizer \<Rightarrow> relocalizer" where
  "startAccumulation c p = (if accumulating p then p
     else p\<lparr>accumulated_cloud := Some [], accum_warmup_done := (accumulate_warmup_skip_s c \<le> 0),
       accum_warmup_clock_started := False, accumulating := True\<rparr>)"

definition triggerCallback :: "reloc_config \<Rightarrow> relocalizer \<Rightarrow> bool \<times> relocalizer" where
  "triggerCallback c p = (if \<not> map_loaded p then (False, p) else if accumulating p then (False, p)
     else (True, startAccumulation c p))"

text \<open>The time of the warm-up, true when it is over.\<close>

definition warmup :: "reloc_config \<Rightarrow> nat \<Rightarrow> nat \<Rightarrow> relocalizer \<Rightarrow> bool \<times> relocalizer" where
  "warmup c t0 now p = (if accum_warmup_done p then (True, p)
     else let p1 = (if accum_warmup_clock_started p then p else p\<lparr>accum_warmup_clock_started := True, accum_warmup_t0 := t0\<rparr>) in
       if seconds now (accum_warmup_t0 p1) < accumulate_warmup_skip_s c then (False, p1)
       else (True, p1\<lparr>accum_warmup_done := True\<rparr>))"

text \<open>
  The readings of the clock: at the start of the warm-up, in its test, at the start of
  the accumulation, in its test, and in the two messages at the end.
\<close>

record cloud_times =
  ct_warm_start :: nat
  ct_warm :: nat
  ct_start :: nat
  ct_now :: nat
  ct_publish :: "nat \<times> nat"

definition cloudCallback :: "reloc_env \<Rightarrow> reloc_config \<Rightarrow> cloud_times \<Rightarrow> vec list \<Rightarrow> relocalizer \<Rightarrow> relocalizer res" where
  "cloudCallback E c ts cloud p0 = (let p = send [LiveCloud (tf_child_frame c) cloud] p0 in
     if \<not> accumulating p then Inr p
     else let (warm, p1) = warmup c (ct_warm_start ts) (ct_warm ts) p in
       if \<not> warm then Inr p1
       else case accumulated_cloud p1 of None \<Rightarrow> Inl NullDeref
       | Some acc \<Rightarrow> let p2 = (if acc = [] then p1\<lparr>accumulation_start := ct_start ts\<rparr> else p1)\<lparr>accumulated_cloud := Some (acc @ cloud)\<rparr> in
           if seconds (ct_now ts) (accumulation_start p2) < accumulate_duration c then Inr p2
           else runRelocalization E c (ct_publish ts) (acc @ cloud) (p2\<lparr>accumulated_cloud := Some [], accumulating := False\<rparr>))"

text \<open>std::map: the entries are in the order of their keys.\<close>

fun cache_put :: "string \<times> string \<Rightarrow> transform \<Rightarrow> ((string \<times> string) \<times> transform) list \<Rightarrow> ((string \<times> string) \<times> transform) list" where
  "cache_put k t [] = [(k, t)]"
| "cache_put k t ((k', t') # xs) = (if k = k' then (k, t) # xs else if k < k' then (k, t) # (k', t') # xs else (k', t') # cache_put k t xs)"

definition tf_callback :: "reloc_config \<Rightarrow> transform list \<Rightarrow> relocalizer \<Rightarrow> relocalizer" where
  "tf_callback c ts p = p\<lparr>tf_cache := fold (\<lambda>t m. if tr_frame t = tf_parent_frame c \<and> tr_child t = tf_child_frame c then m
     else cache_put (tr_frame t, tr_child t) t m) ts (tf_cache p)\<rparr>"

definition tfRepublishCallback :: "nat \<Rightarrow> relocalizer \<Rightarrow> relocalizer" where
  "tfRepublishCallback now p = (if \<not> relocalized p then p
     else let t = (last_map_to_odom p)\<lparr>tr_stamp := now\<rparr>; m = map (\<lambda>(k, t). (k, t\<lparr>tr_stamp := now\<rparr>)) (tf_cache p) in
       send (map DynamicTf (t # map snd m)) (p\<lparr>last_map_to_odom := t, tf_cache := m\<rparr>))"

section \<open>Construction\<close>

definition loadReferenceMap :: "reloc_env \<Rightarrow> reloc_config \<Rightarrow> vec list option \<Rightarrow> relocalizer \<Rightarrow> bool \<times> relocalizer" where
  "loadReferenceMap E c file p = (if map_pcd_path c = [] then (False, p)
     else case file of None \<Rightarrow> (False, p)
     | Some raw \<Rightarrow> (True, p\<lparr>ref_cloud := Some (rv_grid E (voxel_leaf c) raw), map_loaded := True\<rparr>))"

definition no_transform :: transform where
  "no_transform = \<lparr>tr_stamp = 0, tr_frame = [], tr_child = [], tr_translation = (0, 0, 0), tr_rotation = (1, 0, 0, 0)\<rparr>"

definition publishIdentityTf :: "reloc_config \<Rightarrow> nat \<Rightarrow> relocalizer \<Rightarrow> relocalizer" where
  "publishIdentityTf c now = send [StaticTf (no_transform\<lparr>tr_stamp := now, tr_frame := tf_parent_frame c, tr_child := tf_child_frame c\<rparr>)]"

definition PcdRelocalizer :: "reloc_env \<Rightarrow> reloc_config \<Rightarrow> nat \<Rightarrow> vec list option \<Rightarrow> relocalizer" where
  "PcdRelocalizer E c now file = (let p0 = \<lparr>ref_cloud = None, accumulated_cloud = None, accumulation_start = 0, accumulating = False,
       accum_warmup_done = True, accum_warmup_clock_started = False, accum_warmup_t0 = 0, map_loaded = False, relocalized = False,
       last_map_to_odom = no_transform, tf_cache = [], relocalize_srv = False, tf_republish_timer = False, published_log = [RelocStatus False]\<rparr>;
     (ok, p) = loadReferenceMap E c file (publishIdentityTf c now p0) in
     if \<not> ok then p
     else let p1 = p\<lparr>relocalize_srv := True\<rparr> in if auto_relocalize c then startAccumulation c p1 else p1)"

text \<open>A callback; the service answers and the timer runs only once they exist.\<close>

inductive reloc_step :: "reloc_env \<Rightarrow> reloc_config \<Rightarrow> relocalizer \<Rightarrow> relocalizer \<Rightarrow> bool" for E c where
  cloud: "cloudCallback E c ts pts p = Inr p' \<Longrightarrow> reloc_step E c p p'"
| trigger: "relocalize_srv p \<Longrightarrow> reloc_step E c p (snd (triggerCallback c p))"
| transforms: "reloc_step E c p (tf_callback c ts p)"
| republish: "tf_republish_timer p \<Longrightarrow> reloc_step E c p (tfRepublishCallback now p)"

section \<open>No null pointer is used\<close>

definition cache_ok :: "reloc_config \<Rightarrow> ((string \<times> string) \<times> transform) list \<Rightarrow> bool" where
  "cache_ok c m = (sorted_wrt (<) (map fst m) \<and> (tf_parent_frame c, tf_child_frame c) \<notin> fst ` set m
     \<and> (\<forall>(k, t) \<in> set m. k = (tr_frame t, tr_child t)))"

definition reloc_ok :: "reloc_config \<Rightarrow> relocalizer \<Rightarrow> bool" where
  "reloc_ok c p = ((map_loaded p \<longleftrightarrow> ref_cloud p \<noteq> None) \<and> relocalize_srv p = map_loaded p
     \<and> (accumulating p \<longrightarrow> map_loaded p \<and> accumulated_cloud p \<noteq> None)
     \<and> (\<not> accumulating p \<longrightarrow> accumulated_cloud p \<in> {None, Some []})
     \<and> tf_republish_timer p = relocalized p \<and> (relocalized p \<longrightarrow> map_loaded p) \<and> cache_ok c (tf_cache p)
     \<and> (relocalized p \<longrightarrow> RelocStatus True \<in> set (published_log p)
          \<and> tr_frame (last_map_to_odom p) = tf_parent_frame c \<and> tr_child (last_map_to_odom p) = tf_child_frame c
          \<and> component (tr_translation (last_map_to_odom p)) 2 = 0))"

lemma cache_put_keys: "fst ` set (cache_put k t m) = insert k (fst ` set m)"
  by (induction k t m rule: cache_put.induct) auto

lemma cache_put_set: "x \<in> set (cache_put k t m) \<Longrightarrow> x = (k, t) \<or> x \<in> set m"
  by (induction k t m rule: cache_put.induct) (auto split: if_splits)

lemma cache_put_sorted: "sorted_wrt (<) (map fst m) \<Longrightarrow> sorted_wrt (<) (map fst (cache_put k t m))"
proof (induction k t m rule: cache_put.induct)
  case (2 k t k' t' xs)
  have "\<forall>x \<in> fst ` set (cache_put k t xs). k' < x" if "\<not> k < k'" "k \<noteq> k'"
    using 2(2) that unfolding cache_put_keys by auto
  then show ?case using 2 by auto
qed simp

lemma cache_put_ok: "cache_ok c m \<Longrightarrow> (tr_frame t, tr_child t) \<noteq> (tf_parent_frame c, tf_child_frame c)
    \<Longrightarrow> cache_ok c (cache_put (tr_frame t, tr_child t) t m)"
  unfolding cache_ok_def cache_put_keys using cache_put_sorted cache_put_set by fastforce

lemma tf_callback_ok: "reloc_ok c p \<Longrightarrow> reloc_ok c (tf_callback c ts p)"
proof -
  let ?f = "\<lambda>t m. if tr_frame t = tf_parent_frame c \<and> tr_child t = tf_child_frame c then m else cache_put (tr_frame t, tr_child t) t m"
  have "cache_ok c m \<Longrightarrow> cache_ok c (fold ?f ts m)" for m
    by (induction ts arbitrary: m) (simp_all add: cache_put_ok)
  then show "reloc_ok c p \<Longrightarrow> reloc_ok c (tf_callback c ts p)" by (auto simp: reloc_ok_def tf_callback_def)
qed

lemma republish_ok: "reloc_ok c p \<Longrightarrow> reloc_ok c (tfRepublishCallback now p)"
proof -
  have k: "map fst (map (\<lambda>(k, t). (k, t\<lparr>tr_stamp := now\<rparr>)) m) = map fst m" for m :: "((string \<times> string) \<times> transform) list" by (induction m) auto
  have "cache_ok c m \<Longrightarrow> cache_ok c (map (\<lambda>(k, t). (k, t\<lparr>tr_stamp := now\<rparr>)) m)" for m
    unfolding cache_ok_def k set_map[symmetric] by (auto simp: image_iff)
  then show "reloc_ok c p \<Longrightarrow> reloc_ok c (tfRepublishCallback now p)"
    by (auto simp: reloc_ok_def tfRepublishCallback_def send_def Let_def)
qed

lemma trigger_ok: "reloc_ok c p \<Longrightarrow> reloc_ok c (snd (triggerCallback c p))"
  by (auto simp: reloc_ok_def triggerCallback_def startAccumulation_def)

lemma warmup_fields:
  "warmup c t0 now p = (w, p') \<Longrightarrow> p' = p\<lparr>accum_warmup_done := accum_warmup_done p', accum_warmup_clock_started := accum_warmup_clock_started p',
     accum_warmup_t0 := accum_warmup_t0 p'\<rparr>"
  by (auto simp: warmup_def Let_def split: if_splits)

lemma component_flat: "component (flat v) 2 = 0"
  by (cases v) simp

lemma reloc_run_ok:
  assumes "reloc_ok c p" "map_loaded p"
  shows "\<exists>p'. runRelocalization E c ts cloud p = Inr p' \<and> reloc_ok c p'"
proof -
  obtain target where "ref_cloud p = Some target" using assms by (auto simp: reloc_ok_def)
  then show ?thesis using assms
    by (simp add: runRelocalization_def Let_def publishAlignedCloud_def publishMapToOdom_def send_def reloc_ok_def projectToSE2_def component_flat)
qed

lemma cloud_ok:
  assumes "reloc_ok c p"
  shows "\<exists>p'. cloudCallback E c ts cloud p = Inr p' \<and> reloc_ok c p'"
proof -
  define p0 where "p0 = send [LiveCloud (tf_child_frame c) cloud] p"
  have 0: "reloc_ok c p0" "accumulating p0 = accumulating p" using assms by (auto simp: p0_def send_def reloc_ok_def)
  obtain w p1 where w: "warmup c (ct_warm_start ts) (ct_warm ts) p0 = (w, p1)" by fastforce
  obtain x y z where p1: "p1 = p0\<lparr>accum_warmup_done := x, accum_warmup_clock_started := y, accum_warmup_t0 := z\<rparr>"
    using warmup_fields[OF w] by blast
  have 1: "reloc_ok c p1" using 0(1) unfolding p1 by (auto simp: reloc_ok_def)
  show ?thesis
  proof (cases "accumulating p \<and> w")
    case True
    have a: "accumulating p1" "map_loaded p1" using True 0 unfolding p1 by (auto simp: reloc_ok_def)
    then obtain acc where acc: "accumulated_cloud p1 = Some acc" using 1 by (auto simp: reloc_ok_def)
    define p2 where "p2 = (if acc = [] then p1\<lparr>accumulation_start := ct_start ts\<rparr> else p1)\<lparr>accumulated_cloud := Some (acc @ cloud)\<rparr>"
    have 2: "reloc_ok c p2" using 1 a by (auto simp: p2_def reloc_ok_def)
    have m: "map_loaded p2" using a(2) by (simp add: p2_def)
    have 3: "reloc_ok c (p2\<lparr>accumulated_cloud := Some [], accumulating := False\<rparr>)" "map_loaded p2"
      using 2 m by (auto simp: reloc_ok_def)
    have "cloudCallback E c ts cloud p = (if seconds (ct_now ts) (accumulation_start p2) < accumulate_duration c then Inr p2
        else runRelocalization E c (ct_publish ts) (acc @ cloud) (p2\<lparr>accumulated_cloud := Some [], accumulating := False\<rparr>))"
      using True 0(2) by (simp only: cloudCallback_def Let_def p0_def[symmetric] w prod.case acc option.case p2_def[symmetric] simp_thms if_True if_False)
    then show ?thesis using 2 reloc_run_ok[OF 3(1), of E "ct_publish ts" "acc @ cloud"] 3(2) by simp
  next
    case False
    have "cloudCallback E c ts cloud p = Inr (if accumulating p then p1 else p0)"
      using False 0(2) unfolding cloudCallback_def Let_def p0_def[symmetric] w by auto
    then show ?thesis using 0 1 by simp
  qed
qed

text \<open>
  reloc_safe: whatever callbacks come, in any order and at any time, from the
  constructor on, with a map or without: no cloud makes the node fail (no null cloud is
  used), clouds are collected only while there is a map, the transform kept was
  made by a relocalisation that was announced and keeps the vehicle on the ground, and
  the other transforms are kept once each in the order of their frames, without
  one from the map's frame to the odometry's.
\<close>

theorem reloc_safe:
  assumes "(reloc_step E c)\<^sup>*\<^sup>* (PcdRelocalizer E c now file) p"
  shows "reloc_ok c p \<and> (\<exists>p'. cloudCallback E c ts cloud p = Inr p')"
proof -
  have "reloc_ok c (PcdRelocalizer E c now file)"
    by (auto simp: PcdRelocalizer_def Let_def reloc_ok_def loadReferenceMap_def publishIdentityTf_def send_def startAccumulation_def cache_ok_def split: option.splits)
  then have "reloc_ok c p"
    using assms
  proof (induction rule: rtranclp_induct[consumes 1, OF assms])
    case (2 y z)
    then have y: "reloc_ok c y" by blast
    show ?case using 2(2)
    proof (cases rule: reloc_step.cases)
      case (cloud ts pts) then show ?thesis using cloud_ok[OF y, of E ts pts] by auto
    next
      case trigger then show ?thesis using trigger_ok[OF y] by simp
    next
      case (transforms ts) then show ?thesis using tf_callback_ok[OF y] by simp
    next
      case (republish now) then show ?thesis using republish_ok[OF y] by simp
    qed
  qed simp
  then show ?thesis using cloud_ok by blast
qed

text \<open>Settings and libraries for the examples: the registration finds what it is asked.\<close>

definition plain_reloc :: reloc_config where
  "plain_reloc = \<lparr>map_pcd_path = ''map.pcd'', tf_parent_frame = ''map'', tf_child_frame = ''odom'', voxel_leaf = 1 / 2,
     accumulate_duration = 3, accumulate_warmup_skip_s = 0, yaw_hypothesis_step_deg = 45, auto_relocalize = True\<rparr>"

definition plain_reloc_env :: reloc_env where
  "plain_reloc_env = \<lparr>rv_libm = triangle_libm, rv_pi = 3, rv_quat = (\<lambda>R. (1, 0, 0, 0)), rv_grid = (\<lambda>l ps. ps), rv_teaser = (\<lambda>s t. None),
     rv_align = (\<lambda>t s T. \<lparr>gr_converged = True, gr_inliers = length s, gr_T = T\<rparr>)\<rparr>"

lemma reloc_safe_witness:
  "\<exists>p'. cloudCallback plain_reloc_env plain_reloc \<lparr>ct_warm_start = 0, ct_warm = 0, ct_start = 0, ct_now = 5000000000, ct_publish = (0, 0)\<rparr>
     [(1, 2, 3)] (PcdRelocalizer plain_reloc_env plain_reloc 0 (Some [(0, 0, 0)])) = Inr p'"
  using reloc_safe[of plain_reloc_env plain_reloc 0 "Some [(0, 0, 0)]" "PcdRelocalizer plain_reloc_env plain_reloc 0 (Some [(0, 0, 0)])"] by blast

section \<open>Collecting\<close>

text \<open>
  scans_collected: as long as the time has not run out, every cloud is passed on and put
  behind those before it, so the registration gets the points of all clouds since
  the warm-up, in order.
\<close>

theorem scans_collected:
  assumes "foldR (\<lambda>(ts, cloud). cloudCallback E c ts cloud) xs p = Inr p'" "accumulating p'"
    "accumulating p" "accum_warmup_done p" "accumulated_cloud p = Some acc"
  shows "accumulated_cloud p' = Some (acc @ concat (map snd xs))
    \<and> published_log p' = published_log p @ map (\<lambda>(ts, cloud). LiveCloud (tf_child_frame c) cloud) xs"
  using assms(1,3-5)
proof (induction xs arbitrary: p acc)
  case (Cons x xs)
  obtain ts cloud where x: "x = (ts, cloud)" by (cases x)
  obtain p1 where 1: "cloudCallback E c ts cloud p = Inr p1" "foldR (\<lambda>(ts, cloud). cloudCallback E c ts cloud) xs p1 = Inr p'"
    using Cons.prems(1) by (auto simp: x bindR_eq_Inr)
  have idle: "\<not> accumulating q' \<Longrightarrow> foldR (\<lambda>(ts, cloud). cloudCallback E c ts cloud) ys q' = Inr q'' \<Longrightarrow> \<not> accumulating q''" for q' q'' ys
  proof (induction ys arbitrary: q')
    case (Cons y ys)
    obtain t cl where y: "y = (t, cl)" by (cases y)
    have "cloudCallback E c t cl q' = Inr (send [LiveCloud (tf_child_frame c) cl] q')" using Cons.prems(1) by (simp add: cloudCallback_def send_def Let_def)
    then show ?case using Cons.IH[of "send [LiveCloud (tf_child_frame c) cl] q'"] Cons.prems by (simp add: y send_def)
  qed simp
  have a: "accumulating p1" using idle[OF _ 1(2)] assms(2) by blast
  define p2 where "p2 = (if acc = [] then (send [LiveCloud (tf_child_frame c) cloud] p)\<lparr>accumulation_start := ct_start ts\<rparr>
      else send [LiveCloud (tf_child_frame c) cloud] p)\<lparr>accumulated_cloud := Some (acc @ cloud)\<rparr>"
  have e: "cloudCallback E c ts cloud p = (if seconds (ct_now ts) (accumulation_start p2) < accumulate_duration c then Inr p2
      else runRelocalization E c (ct_publish ts) (acc @ cloud) (p2\<lparr>accumulated_cloud := Some [], accumulating := False\<rparr>))"
    using Cons.prems(2-4) unfolding cloudCallback_def p2_def by (simp add: send_def warmup_def Let_def)
  have r: "runRelocalization E c t pts q = Inr q' \<Longrightarrow> accumulating q' = accumulating q" for t pts q q'
    by (auto simp: runRelocalization_def Let_def publishAlignedCloud_def publishMapToOdom_def send_def split: if_splits option.splits)
  have p1: "p1 = p2" using 1(1) a r unfolding e by (auto split: if_splits)
  have f: "accumulating p2" "accum_warmup_done p2" "accumulated_cloud p2 = Some (acc @ cloud)"
    "published_log p2 = published_log p @ [LiveCloud (tf_child_frame c) cloud]"
    using Cons.prems(2,3) by (simp_all add: p2_def send_def)
  show ?case using Cons.IH[OF 1(2)[unfolded p1] f(1-3)] f(4) by (simp add: x)
qed simp

section \<open>Choosing among the hypotheses\<close>

definition results :: "reloc_env \<Rightarrow> reloc_config \<Rightarrow> vec list \<Rightarrow> vec list \<Rightarrow> iso \<Rightarrow> gicp_result list" where
  "results E c source target T0 = map (\<lambda>yaw. rv_align E target source (yaw_guess E T0 yaw)) (yaw_hypotheses (yaw_hypothesis_step_deg c))"

definition icp_chosen :: "gicp_result list \<Rightarrow> iso \<Rightarrow> nat \<times> bool \<times> iso \<Rightarrow> bool" where
  "icp_chosen rs T0 b = (case b of (n, k, T) \<Rightarrow> (k \<longleftrightarrow> (\<exists>r \<in> set rs. gr_converged r))
     \<and> (\<forall>r \<in> set rs. (k \<longrightarrow> gr_converged r) \<longrightarrow> gr_inliers r \<le> n)
     \<and> ((\<exists>r \<in> set rs. gr_T r = T \<and> gr_inliers r = n \<and> gr_converged r = k) \<or> (\<not> k \<and> n = 0 \<and> T = T0)))"

lemma better_chosen: "icp_chosen rs T0 (fold better rs (0, False, T0))"
proof (induction rs rule: rev_induct)
  case (snoc r rs)
  obtain n k T where b: "fold better rs (0, False, T0) = (n, k, T)" by (cases "fold better rs (0, False, T0)")
  have I: "icp_chosen rs T0 (n, k, T)" using snoc b by simp
  show ?case
  proof (cases "gr_converged r \<and> (\<not> k \<or> n < gr_inliers r)")
    case True
    then have "fold better (rs @ [r]) (0, False, T0) = (gr_inliers r, True, gr_T r)" by (simp add: b better_def)
    then show ?thesis using I True by (auto simp: icp_chosen_def)
  next
    case False
    then have e: "fold better (rs @ [r]) (0, False, T0) = (if \<not> k \<and> n < gr_inliers r then (gr_inliers r, k, gr_T r) else (n, k, T))"
      by (auto simp: b better_def)
    show ?thesis
    proof (cases "\<not> k \<and> n < gr_inliers r")
      case True then show ?thesis using I False unfolding e by (force simp: icp_chosen_def)
    next
      case f: False then show ?thesis using I False unfolding e if_not_P[OF f] by (fastforce simp: icp_chosen_def)
    qed
  qed
qed (simp add: icp_chosen_def)

text \<open>
  icp_choice: of the seven hypotheses the result is that of a registration that
  converged, if one did, with the most inliers among those; if none did, one with the
  most inliers, or the first guess when there are no inliers at all.
\<close>

theorem icp_choice:
  assumes "rs = results E c source target T0" "T = icpRefine E c source target T0"
  shows "(if \<exists>r \<in> set rs. gr_converged r
      then \<exists>r \<in> set rs. gr_converged r \<and> gr_T r = T \<and> (\<forall>r' \<in> set rs. gr_converged r' \<longrightarrow> gr_inliers r' \<le> gr_inliers r)
      else (\<exists>r \<in> set rs. gr_T r = T \<and> (\<forall>r' \<in> set rs. gr_inliers r' \<le> gr_inliers r)) \<or> ((\<forall>r \<in> set rs. gr_inliers r = 0) \<and> T = T0))
    \<and> length rs = 7"
proof -
  obtain n k where b: "fold better rs (0, False, T0) = (n, k, T)"
    using assms by (cases "fold better rs (0, False, T0)") (simp add: icpRefine_def results_def fold_map comp_def)
  have "icp_chosen rs T0 (n, k, T)" using better_chosen[of rs T0] b by simp
  moreover have "length rs = 7" by (simp add: assms(1) results_def yaw_hypotheses_def)
  ultimately show ?thesis by (auto simp: icp_chosen_def)
qed

lemma icp_choice_witness:
  "\<exists>r \<in> set (results plain_reloc_env plain_reloc [(1, 2, 3)] [] (m3_id, (0, 0, 0))). gr_T r = icpRefine plain_reloc_env plain_reloc [(1, 2, 3)] [] (m3_id, (0, 0, 0))"
proof -
  have "\<exists>r \<in> set (results plain_reloc_env plain_reloc [(1, 2, 3)] [] (m3_id, (0, 0, 0))). gr_converged r"
    by (simp add: results_def plain_reloc_env_def yaw_hypotheses_def plain_reloc_def)
  then show ?thesis using icp_choice[OF refl refl, of plain_reloc_env plain_reloc "[(1, 2, 3)]" "[]" "(m3_id, (0, 0, 0))"] by auto
qed

section \<open>The projection\<close>

lemma about_z_rotation: "on_circle L a \<Longrightarrow> rotation (about_z L a)"
proof -
  assume "on_circle L a"
  then have "l_cos L a * l_cos L a + l_sin L a * l_sin L a = 1" by (simp add: on_circle_def)
  then show ?thesis by (simp add: about_z_def rotation_def m3_id_def algebra_simps)
qed

text \<open>
  se2_projection: the projection is a rotation about the vertical with a shift along the
  ground, keeps the shift along the ground, and leaves such a transform as it is.
\<close>

theorem se2_projection:
  assumes "on_circle L (yaw_of L (fst T))"
  shows "rotation (fst (projectToSE2 L T)) \<and> m3_vec (fst (projectToSE2 L T)) (0, 0, 1) = (0, 0, 1) \<and> component (snd (projectToSE2 L T)) 2 = 0
    \<and> component (snd (projectToSE2 L T)) 0 = component (snd T) 0 \<and> component (snd (projectToSE2 L T)) 1 = component (snd T) 1
    \<and> (l_atan2 L (l_sin L a) (l_cos L a) = a \<longrightarrow> projectToSE2 L (about_z L a, flat v) = (about_z L a, flat v))"
  using about_z_rotation[OF assms] by (cases "snd T"; cases v) (auto simp: projectToSE2_def about_z_def)

end
