(* ===== verification/Pcd_Map.thy ===== *)
theory Pcd_Map
  imports Voxel_Octree
begin

text \<open>
  The image of a recorded map for the planner (main of
  edge/src/pcd_relocalize/src/pcd_to_map.cpp): points within a height are counted
  in the cells of a grid, and a cell with enough of them is black.  The command line
  and the files are left out; numbers are exact rationals, so that every coordinate is
  finite, and the counts do not wrap.  Integers out of the range of int are undefined.
\<close>

record map_args =
  resolution :: rat
  min_height :: rat
  max_height :: rat
  occupied_thresh_count :: int

text \<open>A double converted to int.\<close>

definition c_int :: "rat \<Rightarrow> int res" where
  "c_int x = (let t = (if 0 \<le> x then \<lfloor>x\<rfloor> else - \<lfloor>- x\<rfloor>) in if - (2 ^ 31) \<le> t \<and> t < 2 ^ 31 then Inr t else Inl Undefined)"

definition kept_points :: "map_args \<Rightarrow> vec list \<Rightarrow> (rat \<times> rat) list" where
  "kept_points a cloud = map (\<lambda>(x, y, z). (x, y)) (filter (\<lambda>(x, y, z). \<not> (z < min_height a \<or> max_height a < z)) cloud)"

text \<open>The corner of the grid and its size, with a margin of five cells.\<close>

definition grid_origin :: "map_args \<Rightarrow> (rat \<times> rat) list \<Rightarrow> rat \<times> rat" where
  "grid_origin a ps = (Min (set (map fst ps)) - resolution a * 5, Min (set (map snd ps)) - resolution a * 5)"

definition grid_size :: "map_args \<Rightarrow> (rat \<times> rat) list \<Rightarrow> (int \<times> int) res" where
  "grid_size a ps = (case grid_origin a ps of (xmin, ymin) \<Rightarrow>
     if resolution a = 0 then Inl Undefined
     else bindR (c_int (of_int \<lceil>(Max (set (map fst ps)) + resolution a * 5 - xmin) / resolution a\<rceil>)) (\<lambda>w.
       bindR (c_int (of_int \<lceil>(Max (set (map snd ps)) + resolution a * 5 - ymin) / resolution a\<rceil>)) (\<lambda>h. Inr (w, h))))"

text \<open>std::clamp is undefined when the bounds are the wrong way round.\<close>

definition clamp :: "int \<Rightarrow> int \<Rightarrow> int \<Rightarrow> int res" where
  "clamp v lo hi = (if hi < lo then Inl Undefined else Inr (if v < lo then lo else if hi < v then hi else v))"

definition cell_of :: "map_args \<Rightarrow> rat \<times> rat \<Rightarrow> int \<times> int \<Rightarrow> rat \<times> rat \<Rightarrow> (int \<times> int) res" where
  "cell_of a orig dims p = bindR (c_int ((fst p - fst orig) / resolution a)) (\<lambda>col.
     bindR (c_int ((snd p - snd orig) / resolution a)) (\<lambda>row.
     bindR (clamp col 0 (fst dims - 1)) (\<lambda>col. bindR (clamp row 0 (snd dims - 1)) (\<lambda>row. Inr (row, col)))))"

definition hit :: "int \<Rightarrow> int \<times> int \<Rightarrow> int list \<Rightarrow> int list res" where
  "hit width rc grid = (let i = fst rc * width + snd rc in
     if 0 \<le> i \<and> nat i < length grid then Inr (grid[nat i := grid ! nat i + 1]) else Inl OutOfBounds)"

fun count_hits :: "map_args \<Rightarrow> rat \<times> rat \<Rightarrow> int \<times> int \<Rightarrow> (rat \<times> rat) list \<Rightarrow> int list \<Rightarrow> int list res" where
  "count_hits a orig dims [] grid = Inr grid"
| "count_hits a orig dims (p # ps) grid = bindR (cell_of a orig dims p) (\<lambda>rc.
     bindR (hit (fst dims) rc grid) (\<lambda>grid'. count_hits a orig dims ps grid'))"

text \<open>The rows of the image from the top, which is the row of the greatest y.\<close>

definition cell_pixel :: "map_args \<Rightarrow> int \<Rightarrow> nat" where
  "cell_pixel a hits = (if occupied_thresh_count a \<le> hits then 0 else 254)"

definition image_rows :: "map_args \<Rightarrow> int \<times> int \<Rightarrow> int list \<Rightarrow> nat list list" where
  "image_rows a dims grid = map (\<lambda>r. map (\<lambda>c. cell_pixel a (grid ! (r * nat (fst dims) + c))) [0..<nat (fst dims)]) (rev [0..<nat (snd dims)])"

definition rasterise :: "map_args \<Rightarrow> vec list \<Rightarrow> (nat list list \<times> rat \<times> rat) option res" where
  "rasterise a cloud = (let ps = kept_points a cloud; orig = grid_origin a ps in
     if ps = [] then Inr None
     else bindR (grid_size a ps) (\<lambda>dims.
       if \<not> (- (2 ^ 31) \<le> fst dims * snd dims \<and> fst dims * snd dims < 2 ^ 31) then Inl Undefined
       else if fst dims * snd dims < 0 then Inl LengthError
       else bindR (count_hits a orig dims ps (replicate (nat (fst dims * snd dims)) 0)) (\<lambda>grid.
         Inr (Some (image_rows a dims grid, orig)))))"

section \<open>The image is that of the points\<close>

text \<open>The points in a cell.\<close>

definition in_cell :: "map_args \<Rightarrow> rat \<times> rat \<Rightarrow> nat \<Rightarrow> nat \<Rightarrow> rat \<times> rat \<Rightarrow> bool" where
  "in_cell a orig r c p = (fst orig + of_nat c * resolution a \<le> fst p \<and> fst p < fst orig + of_nat (Suc c) * resolution a
     \<and> snd orig + of_nat r * resolution a \<le> snd p \<and> snd p < snd orig + of_nat (Suc r) * resolution a)"

lemma c_int_floor:
  assumes "0 \<le> x" "\<lfloor>x\<rfloor> < 2 ^ 31" shows "c_int x = Inr \<lfloor>x\<rfloor>"
proof -
  obtain k where k: "k = \<lfloor>x\<rfloor>" "0 \<le> k" using assms(1) by simp
  show ?thesis using assms k(2) unfolding c_int_def Let_def k(1)[symmetric] by simp
qed

lemma c_int_of_int: "c_int (of_int k) = Inr t \<Longrightarrow> t = k"
  by (cases "0 \<le> k") (auto simp: c_int_def Let_def split: if_splits)

lemma floor_cell:
  assumes "0 < r" "lo \<le> (x :: rat)"
  shows "\<lfloor>(x - lo) / r\<rfloor> = int c \<longleftrightarrow> lo + of_nat c * r \<le> x \<and> x < lo + of_nat (Suc c) * r"
proof -
  have "\<lfloor>(x - lo) / r\<rfloor> = int c \<longleftrightarrow> of_nat c \<le> (x - lo) / r \<and> (x - lo) / r < of_nat c + 1"
    by (metis floor_eq_iff of_int_of_nat_eq)
  also have "\<dots> \<longleftrightarrow> of_nat c * r \<le> x - lo \<and> x - lo < (of_nat c + 1) * r"
    using assms(1) by (simp add: pos_le_divide_eq pos_divide_less_eq)
  finally show ?thesis by (auto simp: algebra_simps)
qed

text \<open>With a positive resolution a point is never moved by the clamping.\<close>

lemma inside_range:
  assumes "0 < r" "lo \<le> (x :: rat)" "x + r \<le> hi" "w = \<lceil>(hi - lo) / r\<rceil>"
  shows "0 \<le> \<lfloor>(x - lo) / r\<rfloor>" "\<lfloor>(x - lo) / r\<rfloor> < w"
proof -
  show "0 \<le> \<lfloor>(x - lo) / r\<rfloor>" using assms(1,2) by simp
  have "of_int \<lfloor>(x - lo) / r\<rfloor> \<le> (x - lo) / r" by simp
  also have "\<dots> \<le> (hi - r - lo) / r" using assms(1,3) by (intro divide_right_mono) auto
  also have "\<dots> = (hi - lo) / r - 1" using assms(1) by (simp add: field_simps)
  also have "\<dots> < of_int w" using assms(4) by linarith
  finally show "\<lfloor>(x - lo) / r\<rfloor> < w" by simp
qed

lemma cell_of_inside:
  assumes "0 < resolution a" "fst orig \<le> fst p" "snd orig \<le> snd p" "\<lfloor>(fst p - fst orig) / resolution a\<rfloor> < fst dims"
    "\<lfloor>(snd p - snd orig) / resolution a\<rfloor> < snd dims" "fst dims < 2 ^ 31" "snd dims < 2 ^ 31"
  shows "cell_of a orig dims p = Inr (\<lfloor>(snd p - snd orig) / resolution a\<rfloor>, \<lfloor>(fst p - fst orig) / resolution a\<rfloor>)"
proof -
  have n: "0 \<le> (fst p - fst orig) / resolution a" "0 \<le> (snd p - snd orig) / resolution a" using assms(1-3) by simp_all
  obtain k l where kl: "k = \<lfloor>(fst p - fst orig) / resolution a\<rfloor>" "l = \<lfloor>(snd p - snd orig) / resolution a\<rfloor>" by simp
  have f: "0 \<le> k" "0 \<le> l" using n by (simp_all add: kl)
  have "c_int ((fst p - fst orig) / resolution a) = Inr \<lfloor>(fst p - fst orig) / resolution a\<rfloor>"
    "c_int ((snd p - snd orig) / resolution a) = Inr \<lfloor>(snd p - snd orig) / resolution a\<rfloor>"
    using n assms(4-7) by (intro c_int_floor; simp only: order.strict_trans)+
  then show ?thesis using f assms(4,5) unfolding cell_of_def clamp_def kl[symmetric] by simp
qed

text \<open>The cell of a grid of rows at an index, and the count of the points in it.\<close>

lemma index_unique:
  assumes "0 \<le> c" "c < (w :: int)" "0 \<le> c'" "c' < w" "r * w + c = r' * w + c'"
  shows "r = r' \<and> c = c'"
proof -
  have w: "w \<noteq> 0" using assms(1,2) by simp
  have "(r * w + c) div w = r" "(r' * w + c') div w = r'" using assms(1-4) w by (simp_all add: div_pos_pos_trivial)
  then have "r = r'" using assms(5) by simp
  then show ?thesis using assms(5) by simp
qed

lemma count_hits_count:
  assumes "0 < w" "0 < h" "length grid = nat (w * h)"
    "\<And>p. p \<in> set ps \<Longrightarrow> cell_of a orig (w, h) p = Inr (fr p, fc p) \<and> 0 \<le> fr p \<and> fr p < h \<and> 0 \<le> fc p \<and> fc p < w"
  shows "\<exists>grid'. count_hits a orig (w, h) ps grid = Inr grid' \<and> length grid' = length grid
    \<and> (\<forall>r c. 0 \<le> r \<longrightarrow> r < h \<longrightarrow> 0 \<le> c \<longrightarrow> c < w \<longrightarrow> grid' ! nat (r * w + c)
        = grid ! nat (r * w + c) + int (length (filter (\<lambda>p. fr p = r \<and> fc p = c) ps)))"
  using assms(3,4)
proof (induction ps arbitrary: grid)
  case (Cons p ps)
  have c: "cell_of a orig (w, h) p = Inr (fr p, fc p)" "0 \<le> fr p" "fr p < h" "0 \<le> fc p" "fc p < w" using Cons.prems(2)[of p] by auto
  let ?i = "fr p * w + fc p"
  have ir: "0 \<le> r * w + k \<and> r * w + k < w * h" if "0 \<le> r" "r < h" "0 \<le> k" "k < w" for r k
  proof -
    have "r * w + k < r * w + w" using that by simp
    also have "\<dots> = (r + 1) * w" by (simp add: algebra_simps)
    also have "\<dots> \<le> h * w" using that assms(1) by (intro mult_right_mono) auto
    finally show ?thesis using that assms(1) by (simp add: mult.commute)
  qed
  have i: "0 \<le> ?i" "nat ?i < length grid" using ir[OF c(2-5)] Cons.prems(1) by simp_all
  define g where "g = grid[nat ?i := grid ! nat ?i + 1]"
  have "hit w (fr p, fc p) grid = Inr g" using i by (simp add: hit_def g_def Let_def)
  then have e: "count_hits a orig (w, h) (p # ps) grid = count_hits a orig (w, h) ps g" using c(1) by simp
  have "length g = nat (w * h)" using Cons.prems(1) by (simp add: g_def)
  from Cons.IH[OF this] Cons.prems(2) obtain grid' where g': "count_hits a orig (w, h) ps g = Inr grid'" "length grid' = length g"
    "\<forall>r c. 0 \<le> r \<longrightarrow> r < h \<longrightarrow> 0 \<le> c \<longrightarrow> c < w \<longrightarrow> grid' ! nat (r * w + c) = g ! nat (r * w + c) + int (length (filter (\<lambda>p. fr p = r \<and> fc p = c) ps))"
    by auto
  have k: "g ! nat (r * w + k) = grid ! nat (r * w + k) + (if fr p = r \<and> fc p = k then 1 else 0)"
    if "0 \<le> r" "r < h" "0 \<le> k" "k < w" for r k
  proof (cases "fr p = r \<and> fc p = k")
    case True then show ?thesis using i by (simp add: g_def)
  next
    case False
    have "nat ?i \<noteq> nat (r * w + k)" using False index_unique[OF c(4,5) that(3,4), of "fr p" r] i(1) ir[OF that] by (auto simp: eq_nat_nat_iff)
    then show ?thesis using False by (auto simp: g_def)
  qed
  show ?case using g' k unfolding e by (auto simp: g_def)
qed simp

text \<open>
  raster_exact: with a positive resolution, whenever the tool makes an image, its
  pixel in column c and row r from the bottom is black exactly if the cell there, a
  square of the resolution counted from the corner the tool writes down, holds at
  least the required number of the points within the height.  No point is lost: each lies
  in a cell of the grid, none is moved by the clamping.
\<close>

theorem raster_exact:
  assumes "rasterise a cloud = Inr (Some (rows, orig))" "0 < resolution a" "ps = kept_points a cloud"
  shows "\<exists>w h. length rows = h \<and> (\<forall>row \<in> set rows. length row = w)
    \<and> (\<forall>r c. r < h \<longrightarrow> c < w \<longrightarrow> rows ! (h - 1 - r) ! c
        = (if occupied_thresh_count a \<le> int (length (filter (in_cell a orig r c) ps)) then 0 else 254))
    \<and> (\<forall>p \<in> set ps. \<exists>r c. r < h \<and> c < w \<and> in_cell a orig r c p)"
proof -
  obtain w h grid where ne: "ps \<noteq> []" and o: "orig = grid_origin a ps" and s: "grid_size a ps = Inr (w, h)" and p: "0 \<le> w * h"
    and g: "count_hits a orig (w, h) ps (replicate (nat (w * h)) 0) = Inr grid" "rows = image_rows a (w, h) grid"
    using assms(1,3) unfolding rasterise_def Let_def by (auto simp: bindR_eq_Inr split: if_splits)
  define res where "res = resolution a"
  define hx hy where "hx = Max (set (map fst ps)) + res * 5" and "hy = Max (set (map snd ps)) + res * 5"
  obtain ox oy where ox: "orig = (ox, oy)" by (cases orig)
  have lo: "ox = Min (set (map fst ps)) - res * 5" "oy = Min (set (map snd ps)) - res * 5"
    using o ox by (simp_all add: grid_origin_def res_def)
  obtain w' h' where "c_int (of_int \<lceil>(hx - ox) / res\<rceil>) = Inr w'" "c_int (of_int \<lceil>(hy - oy) / res\<rceil>) = Inr h'" "w = w'" "h = h'"
    using s ox o assms(2) unfolding grid_size_def by (auto simp: bindR_eq_Inr hx_def hy_def res_def)
  then have i: "c_int (of_int \<lceil>(hx - ox) / res\<rceil>) = Inr w" "c_int (of_int \<lceil>(hy - oy) / res\<rceil>) = Inr h" by simp_all
  have wh: "w = \<lceil>(hx - ox) / res\<rceil>" "h = \<lceil>(hy - oy) / res\<rceil>" using c_int_of_int i by blast+
  have b: "w < 2 ^ 31" "h < 2 ^ 31" using i unfolding wh[symmetric] c_int_def Let_def by (auto split: if_splits)
  define fr fc where "fr = (\<lambda>p :: rat \<times> rat. \<lfloor>(snd p - oy) / res\<rfloor>)" and "fc = (\<lambda>p :: rat \<times> rat. \<lfloor>(fst p - ox) / res\<rfloor>)"
  have r0: "0 < res" using assms(2) by (simp add: res_def)
  have q: "ox \<le> fst p \<and> oy \<le> snd p \<and> fst p + res \<le> hx \<and> snd p + res \<le> hy" if "p \<in> set ps" for p
  proof -
    have m: "Min (set (map fst ps)) \<le> fst p" "fst p \<le> Max (set (map fst ps))" "Min (set (map snd ps)) \<le> snd p" "snd p \<le> Max (set (map snd ps))"
      using that by auto
    then show ?thesis using r0 unfolding lo hx_def hy_def by (intro conjI) (auto simp: algebra_simps intro: add_increasing2 order_trans)
  qed
  have cells: "cell_of a orig (w, h) p = Inr (fr p, fc p) \<and> 0 \<le> fr p \<and> fr p < h \<and> 0 \<le> fc p \<and> fc p < w" if "p \<in> set ps" for p
  proof -
    note x = inside_range[OF r0, of ox "fst p" hx w] and y = inside_range[OF r0, of oy "snd p" hy h]
    have n: "0 \<le> fc p" "fc p < w" "0 \<le> fr p" "fr p < h" using q[OF that] x y wh by (auto simp: fr_def fc_def)
    then show ?thesis using cell_of_inside[of a orig p "(w, h)"] assms(2) q[OF that] b unfolding ox by (simp add: fr_def fc_def res_def)
  qed
  have pos: "0 < w" "0 < h" using cells[of "hd ps"] ne by auto
  obtain grid' where "count_hits a orig (w, h) ps (replicate (nat (w * h)) 0) = Inr grid'" "length grid' = nat (w * h)"
    and cnt: "\<forall>r c. 0 \<le> r \<longrightarrow> r < h \<longrightarrow> 0 \<le> c \<longrightarrow> c < w \<longrightarrow> grid' ! nat (r * w + c)
        = replicate (nat (w * h)) 0 ! nat (r * w + c) + int (length (filter (\<lambda>p. fr p = r \<and> fc p = c) ps))"
    using count_hits_count[OF pos _ cells, of "replicate (nat (w * h)) 0" ps] by auto
  then have grid': "grid' = grid" using g(1) by simp
  have ic: "in_cell a orig r c p = (fr p = int r \<and> fc p = int c)" if "p \<in> set ps" for r c p
    using floor_cell[OF r0, of ox "fst p" c] floor_cell[OF r0, of oy "snd p" r] q[OF that]
    unfolding in_cell_def fr_def fc_def ox res_def[symmetric] by auto
  have pix: "rows ! (nat h - 1 - r) ! c = (if occupied_thresh_count a \<le> int (length (filter (in_cell a orig r c) ps)) then 0 else 254)"
    if "r < nat h" "c < nat w" for r c
  proof -
    have bound: "int r * w + int c < w * h"
    proof -
      have "int r * w + int c < int r * w + w" using that(2) by simp
      also have "\<dots> = (int r + 1) * w" by (simp add: algebra_simps)
      also have "\<dots> \<le> h * w" using that(1) pos by (intro mult_right_mono) auto
      finally show ?thesis by (simp add: mult.commute)
    qed
    have e: "nat (int r * w + int c) = r * nat w + c" using pos by (simp add: nat_add_distrib nat_mult_distrib)
    have "0 \<le> int r * w + int c" using pos by simp
    then have "grid ! (r * nat w + c) = int (length (filter (\<lambda>p. fr p = int r \<and> fc p = int c) ps))"
      using cnt[unfolded grid', rule_format, of "int r" "int c"] that bound unfolding e[symmetric] by (simp add: nat_less_iff)
    moreover have "filter (\<lambda>p. fr p = int r \<and> fc p = int c) ps = filter (in_cell a orig r c) ps" by (rule filter_cong) (simp_all add: ic)
    ultimately have v: "grid ! (r * nat w + c) = int (length (filter (in_cell a orig r c) ps))" by simp
    have "rows ! (nat h - 1 - r) = map (\<lambda>c. cell_pixel a (grid ! (r * nat w + c))) [0..<nat w]"
      using that(1) unfolding g(2) image_rows_def by (simp add: rev_nth)
    then show ?thesis using that(2) v by (simp add: cell_pixel_def)
  qed
  show ?thesis
  proof (rule exI[of _ "nat w"], rule exI[of _ "nat h"], intro conjI allI ballI impI)
    show "length rows = nat h" by (simp add: g(2) image_rows_def)
    fix row assume "row \<in> set rows" then show "length row = nat w" by (auto simp: g(2) image_rows_def)
  next
    fix r c assume "r < nat h" "c < nat w"
    then show "rows ! (nat h - 1 - r) ! c = (if occupied_thresh_count a \<le> int (length (filter (in_cell a orig r c) ps)) then 0 else 254)" by (rule pix)
  next
    fix p assume p: "p \<in> set ps"
    then show "\<exists>r c. r < nat h \<and> c < nat w \<and> in_cell a orig r c p"
      using cells[OF p] ic[OF p, of "nat (fr p)" "nat (fc p)"] by (intro exI[of _ "nat (fr p)"] exI[of _ "nat (fc p)"]) auto
  qed
qed

lemma raster_exact_witness:
  "\<exists>rows orig. rasterise \<lparr>resolution = 1, min_height = 0, max_height = 2, occupied_thresh_count = 1\<rparr> [(0, 0, 1), (1, 1, 3)] = Inr (Some (rows, orig))
    \<and> rows ! (length rows - 1 - 5) ! 5 = 0"
proof -
  let ?a = "\<lparr>resolution = 1, min_height = 0, max_height = 2, occupied_thresh_count = 1\<rparr>"
  have k: "kept_points ?a [(0, 0, 1), (1, 1, 3)] = [(0, 0)]" by (simp add: kept_points_def)
  have c: "(5 :: rat) = of_nat 5" by simp
  have d: "grid_size ?a [(0, 0)] = Inr (10, 10)" "grid_origin ?a [(0, 0)] = (- 5, - 5)"
    by (simp_all add: grid_size_def grid_origin_def c_int_def Let_def)
  have "\<exists>g. count_hits ?a (- 5, - 5) (10, 10) [(0, 0)] (replicate 100 0) = Inr g"
    by (simp add: cell_of_def c_int_def clamp_def hit_def Let_def)
  then obtain rows where r: "rasterise ?a [(0, 0, 1), (1, 1, 3)] = Inr (Some (rows, (- 5, - 5)))"
    unfolding rasterise_def Let_def k d by auto
  have pos: "0 < resolution ?a" by simp
  obtain w h where s: "length rows = h"
    "\<forall>r c. r < h \<longrightarrow> c < w \<longrightarrow> rows ! (h - 1 - r) ! c
      = (if occupied_thresh_count ?a \<le> int (length (filter (in_cell ?a (- 5, - 5) r c) [(0, 0)])) then 0 else 254)"
    "\<forall>p \<in> set [(0, 0)]. \<exists>r c. r < h \<and> c < w \<and> in_cell ?a (- 5, - 5) r c p"
    using raster_exact[OF r pos refl] unfolding k by (elim exE conjE) (rule that)
  obtain r c where rc: "r < h" "c < w" "in_cell ?a (- 5, - 5) r c (0, 0)" using s(3) by auto
  then have e: "(of_nat r :: rat) = of_nat 5 \<and> (of_nat c :: rat) = of_nat 5"
  proof -
    have "(of_nat r :: rat) \<le> of_nat 5" "(of_nat 5 :: rat) < of_nat (Suc r)" "(of_nat c :: rat) \<le> of_nat 5" "(of_nat 5 :: rat) < of_nat (Suc c)"
      using rc(3) by (simp_all add: in_cell_def)
    then show ?thesis unfolding of_nat_le_iff of_nat_less_iff of_nat_eq_iff by simp
  qed
  then have "r = 5" "c = 5" unfolding of_nat_eq_iff by simp_all
  then show ?thesis using r s(1) s(2)[rule_format, of 5 5] rc by (intro exI[of _ rows] exI[of _ "(- 5, - 5)"]) simp
qed

end
