(* ===== verification/Scout_Messenger.thy ===== *)
theory Scout_Messenger
  imports Agx_Robots
begin

text \<open>
  The node of the robot's base (edge/src/scout_ros2/scout_base): ScoutMessenger, which
  turns messages into commands of the SDK and the state of the robot into messages
  (scout_messenger.hpp), and ScoutBaseRos, which chooses the robot and runs the loop
  (scout_base_ros.cpp).  Arithmetic is that of double; sine, cosine and the quaternion of
  a yaw angle are arguments, and so are the variables the code reads unset.
\<close>

section \<open>The messages\<close>

record twist =
  tw_linear_x :: fp
  tw_linear_y :: fp
  tw_angular_z :: fp

record light_request =
  cmd_ctrl_allowed :: bool
  front_mode :: u8
  front_custom_value :: u8
  rear_mode :: u8
  rear_custom_value :: u8

record actuator_status =
  as_motor_id :: u8
  as_rpm :: u16
  as_current :: fp
  as_pulse_count :: u32
  as_driver_voltage :: fp
  as_driver_temperature :: fp
  as_motor_temperature :: u8
  as_driver_state :: u8

record scout_status =
  st_stamp :: nat
  st_linear :: fp
  st_angular :: fp
  st_vehicle_state :: u8
  st_control_mode :: u8
  st_error_code :: u16
  st_battery_voltage :: fp
  st_actuators :: "actuator_status list"
  st_light_enabled :: bool
  st_front :: "u8 \<times> u8"
  st_rear :: "u8 \<times> u8"

type_synonym yaw_quat = "fp \<times> fp \<times> fp \<times> fp"

datatype scout_out = Status scout_status | BaseTransform nat string string "fp \<times> fp" yaw_quat
  | WheelOdometry nat string string "fp \<times> fp" yaw_quat "fp \<times> fp \<times> fp"

record scout_env =
  sv_cos :: "fp \<Rightarrow> fp"
  sv_sin :: "fp \<Rightarrow> fp"
  sv_quat :: "fp \<Rightarrow> yaw_quat"

section \<open>ScoutMessenger\<close>

text \<open>is_omni is the template argument; init_run is the static variable of PublishStateToROS.\<close>

record messenger =
  ms_omni :: bool
  ms_scout :: robot_object
  ms_odom_frame :: string
  ms_base_frame :: string
  ms_simulated :: bool
  ms_publish_tf :: bool
  ms_twist :: twist
  position_x :: fp
  position_y :: fp
  theta :: fp
  ms_last_time :: nat
  ms_current_time :: nat
  init_run :: bool
  ms_out :: "scout_out list"

definition SetScoutMotionCommand :: "stack_memory \<Rightarrow> bool \<Rightarrow> twist \<Rightarrow> robot_object \<Rightarrow> robot_object res" where
  "SetScoutMotionCommand mem omni msg base =
     (if omni then ScoutMiniOmniRobot_SetMotionCommand mem (tw_linear_x msg) (tw_angular_z msg) (tw_linear_y msg) base
      else ScoutRobot_SetMotionCommand mem (tw_linear_x msg) (tw_angular_z msg) base)"

definition TwistCmdCallback :: "stack_memory \<Rightarrow> twist \<Rightarrow> messenger \<Rightarrow> messenger res" where
  "TwistCmdCallback mem msg m = (if \<not> ms_simulated m
     then bindR (SetScoutMotionCommand mem (ms_omni m) msg (ms_scout m)) (\<lambda>b. Inr (m\<lparr>ms_scout := b\<rparr>))
     else Inr (m\<lparr>ms_twist := msg\<rparr>))"

text \<open>The mode and the value sent for the front light; unset is what the two variables held.\<close>

definition front_command :: "u32 \<times> u8 \<Rightarrow> light_request \<Rightarrow> u32 \<times> u8" where
  "front_command unset msg = (if front_mode msg = 0 then (CONST_OFF, snd unset)
     else if front_mode msg = 1 then (CONST_ON, snd unset)
     else if front_mode msg = 2 then (BREATH, snd unset)
     else if front_mode msg = 3 then (CUSTOM, front_custom_value msg)
     else unset)"

definition LightCmdCallback :: "stack_memory \<Rightarrow> u32 \<times> u8 \<Rightarrow> light_operation \<times> light_operation \<Rightarrow> light_request \<Rightarrow> messenger \<Rightarrow> messenger res" where
  "LightCmdCallback mem unset stale msg m = (if ms_simulated m then Inr m
     else if cmd_ctrl_allowed msg
     then bindR (ScoutRobot_SetLightCommand mem (fst (front_command unset msg)) (snd (front_command unset msg)) CONST_ON 0 (ms_scout m)) (\<lambda>b. Inr (m\<lparr>ms_scout := b\<rparr>))
     else bindR (ScoutRobot_DisableLightControl mem stale (ms_scout m)) (\<lambda>b. Inr (m\<lparr>ms_scout := b\<rparr>)))"

text \<open>The getters of the robot, after the dynamic cast.\<close>

definition scout_states :: "robot_core_state \<Rightarrow> robot_actuator_state \<Rightarrow> robot_object \<Rightarrow> (robot_core_state \<times> robot_actuator_state) res" where
  "scout_states stale stale_a ob = (case robot_ptr ob of None \<Rightarrow> Inl Undefined
     | Some k \<Rightarrow> if ScoutInterface \<in> set (interfaces_of k)
         then Inr (ScoutBase_GetRobotState stale (robot_base ob), ScoutBase_GetActuatorState stale_a (robot_base ob)) else Inl NullDeref)"

definition motor_status :: "robot_actuator_state \<Rightarrow> nat \<Rightarrow> actuator_status res" where
  "motor_status a i = bindR (fp_to_signed (ls_motor_temp (ras_ls a ! i))) (\<lambda>t. Inr
     \<lparr>as_motor_id = of_nat i, as_rpm = hs_rpm (ras_hs a ! i), as_current = hs_current (ras_hs a ! i), as_pulse_count = pulse_count (ras_hs a ! i),
      as_driver_voltage = driver_voltage (ras_ls a ! i), as_driver_temperature = ls_driver_temp (ras_ls a ! i), as_motor_temperature = t,
      as_driver_state = driver_state (ras_ls a ! i)\<rparr>)"

definition light_pair :: "light_operation \<Rightarrow> u8 \<times> u8" where
  "light_pair l = (ucast (mode l), custom_value l)"

definition status_of :: "nat \<Rightarrow> robot_core_state \<Rightarrow> robot_actuator_state \<Rightarrow> scout_status res" where
  "status_of now s a = bindR (motor_status a 0) (\<lambda>m0. bindR (motor_status a 1) (\<lambda>m1. bindR (motor_status a 2) (\<lambda>m2. bindR (motor_status a 3) (\<lambda>m3.
     Inr \<lparr>st_stamp = now, st_linear = linear_velocity (rcs_motion s), st_angular = angular_velocity (rcs_motion s),
       st_vehicle_state = ucast (vehicle_state (rcs_system s)), st_control_mode = ucast (control_mode (rcs_system s)),
       st_error_code = error_code (rcs_system s), st_battery_voltage = battery_voltage (rcs_system s), st_actuators = [m0, m1, m2, m3],
       st_light_enabled = enable_cmd_ctrl (rcs_light s), st_front = light_pair (front_light (rcs_light s)), st_rear = light_pair (rear_light (rcs_light s))\<rparr>))))"

definition PublishOdometryToROS :: "scout_env \<Rightarrow> motion_state_message \<Rightarrow> fp \<Rightarrow> messenger \<Rightarrow> messenger" where
  "PublishOdometryToROS E msg dt m = (let v = linear_velocity msg; w = angular_velocity msg;
       lat = (if ms_omni m then lateral_velocity msg else Fin 0);
       d_x = fp_mul f64 (fp_mul f64 v (sv_cos E (theta m))) dt;
       d_y = fp_mul f64 (fp_add f64 (fp_mul f64 v (sv_sin E (theta m))) lat) dt;
       m1 = m\<lparr>position_x := fp_add f64 (position_x m) d_x, position_y := fp_add f64 (position_y m) d_y,
              theta := fp_add f64 (theta m) (fp_mul f64 w dt)\<rparr>;
       q = sv_quat E (theta m1); p = (position_x m1, position_y m1) in
     m1\<lparr>ms_out := ms_out m1
       @ (if ms_publish_tf m1 then [BaseTransform (ms_current_time m1) (ms_odom_frame m1) (ms_base_frame m1) p q] else [])
       @ [WheelOdometry (ms_current_time m1) (ms_odom_frame m1) (ms_base_frame m1) p q (v, lat, w)]\<rparr>)"

text \<open>The seconds between two readings of the clock, as a double.\<close>

definition seconds_between :: "nat \<Rightarrow> nat \<Rightarrow> fp" where
  "seconds_between later earlier = fp_div f64 (f64 (of_int (int later - int earlier))) (Fin (10 ^ 9))"

definition PublishStateToROS :: "scout_env \<Rightarrow> robot_core_state \<Rightarrow> robot_actuator_state \<Rightarrow> nat \<Rightarrow> messenger \<Rightarrow> messenger res" where
  "PublishStateToROS E stale stale_a now m0 = (let m = m0\<lparr>ms_current_time := now\<rparr> in
     if init_run m then Inr (m\<lparr>ms_last_time := now, init_run := False\<rparr>)
     else bindR (scout_states stale stale_a (ms_scout m)) (\<lambda>(s, a). bindR (status_of now s a) (\<lambda>st.
       Inr ((PublishOdometryToROS E (rcs_motion s) (seconds_between now (ms_last_time m)) (m\<lparr>ms_out := ms_out m @ [Status st]\<rparr>))\<lparr>ms_last_time := now\<rparr>))))"

section \<open>ScoutBaseRos\<close>

record scout_params =
  port_name :: string
  odom_frame :: string
  base_frame :: string
  is_scout_mini :: bool
  is_omni_wheel :: bool
  auto_reconnect :: bool
  publish_odom_tf :: bool
  simulated_robot :: bool

text \<open>The robot for the detected protocol; port_ok says whether the detector's port opened.\<close>

definition Initialize :: "scout_params \<Rightarrow> bool \<Rightarrow> protocol_version \<Rightarrow> agx_robot \<Rightarrow> bool \<times> (bool \<times> robot_object) option" where
  "Initialize c port_ok proto b = (if \<not> port_ok \<or> proto = UNKONWN then (False, None)
     else (True, Some (if \<not> is_omni_wheel c then (False, ScoutRobot proto (is_scout_mini c) b) else (True, ScoutMiniOmniRobot proto b))))"

fun contains :: "string \<Rightarrow> string \<Rightarrow> bool" where
  "contains w [] = (w = [])"
| "contains w (x # xs) = (take (length w) (x # xs) = w \<or> contains w xs)"

definition ScoutMessenger :: "scout_params \<Rightarrow> bool \<Rightarrow> robot_object \<Rightarrow> messenger" where
  "ScoutMessenger c omni ob = \<lparr>ms_omni = omni, ms_scout = ob, ms_odom_frame = odom_frame c, ms_base_frame = base_frame c, ms_simulated = simulated_robot c,
     ms_publish_tf = publish_odom_tf c, ms_twist = \<lparr>tw_linear_x = Fin 0, tw_linear_y = Fin 0, tw_angular_z = Fin 0\<rparr>, position_x = Fin 0, position_y = Fin 0,
     theta = Fin 0, ms_last_time = 0, ms_current_time = 0, init_run = True, ms_out = []\<rparr>"

text \<open>Up to the loop: None where Run returns without entering it.\<close>

definition Run_start :: "scout_params \<Rightarrow> stack_memory \<Rightarrow> int \<Rightarrow> bool \<Rightarrow> bool \<Rightarrow> bool \<times> robot_object \<Rightarrow> messenger option res" where
  "Run_start c mem fd ioctl_ok bind_ok r = (case r of (omni, ob) \<Rightarrow>
     if \<not> contains ''can'' (port_name c) then Inr None
     else case robot_ptr ob of None \<Rightarrow> Inl Undefined
     | Some k \<Rightarrow> bindR (ConnectPort (port_name c) fd ioctl_ok bind_ok (robot_base ob)) (\<lambda>(ok, b).
         if \<not> ok then Inr None
         else bindR (ScoutRobot_EnableCommandedMode mem (ob\<lparr>robot_base := b\<rparr>)) (\<lambda>ob'. Inr (Some (ScoutMessenger c omni ob')))))"

text \<open>A turn of the loop before its callbacks; only the robots without omni wheels are enabled again.\<close>

definition Run_turn :: "scout_params \<Rightarrow> scout_env \<Rightarrow> stack_memory \<Rightarrow> robot_core_state \<Rightarrow> robot_actuator_state \<Rightarrow> nat \<Rightarrow> messenger \<Rightarrow> messenger res" where
  "Run_turn c E mem stale stale_a now m0 = bindR (PublishStateToROS E stale stale_a now m0) (\<lambda>m.
     if ms_omni m then Inr m
     else bindR (scout_states stale stale_a (ms_scout m)) (\<lambda>(s, a).
       if auto_reconnect c \<and> control_mode (rcs_system s) = CONTROL_MODE_STANDBY
       then bindR (ScoutRobot_EnableCommandedMode mem (ms_scout m)) (\<lambda>ob. Inr (m\<lparr>ms_scout := ob\<rparr>)) else Inr m))"

section \<open>What the node does\<close>

lemma scout_robot_kinds:
  "proto \<noteq> UNKONWN \<Longrightarrow> robot_base (ScoutRobot proto mini b) = b \<and> (\<exists>k. robot_ptr (ScoutRobot proto mini b) = Some k \<and> version_of k = proto \<and> ScoutInterface \<in> set (interfaces_of k))"
  "proto \<noteq> UNKONWN \<Longrightarrow> robot_base (ScoutMiniOmniRobot proto b) = b \<and> (\<exists>k. robot_ptr (ScoutMiniOmniRobot proto b) = Some k \<and> version_of k = proto
     \<and> ScoutInterface \<in> set (interfaces_of k) \<and> ScoutOmniInterface \<in> set (interfaces_of k))"
  subgoal by (cases proto) (auto simp: ScoutRobot_def interfaces_of_def version_of_def)
  subgoal by (cases proto) (auto simp: ScoutMiniOmniRobot_def ScoutRobot_def Let_def interfaces_of_def version_of_def)
  done

text \<open>
  initialised_robot: the node starts exactly when the port opened and a protocol was
  detected, and then the robot it holds is one: none of the calls through its pointer is
  undefined for want of an object.
\<close>

theorem initialised_robot:
  assumes "Initialize c port_ok proto b = (ok, r)"
  shows "(ok \<longleftrightarrow> port_ok \<and> proto \<noteq> UNKONWN) \<and> (ok \<longleftrightarrow> r \<noteq> None)
    \<and> (\<forall>omni ob. r = Some (omni, ob) \<longrightarrow> omni = is_omni_wheel c \<and> robot_base ob = b
        \<and> (\<exists>k. robot_ptr ob = Some k \<and> version_of k = proto \<and> ScoutInterface \<in> set (interfaces_of k)
              \<and> (omni \<longrightarrow> ScoutOmniInterface \<in> set (interfaces_of k))))"
proof (cases "port_ok \<and> proto \<noteq> UNKONWN")
  case False then show ?thesis using assms by (auto simp: Initialize_def)
next
  case True
  then have r: "ok" "r = Some (if \<not> is_omni_wheel c then (False, ScoutRobot proto (is_scout_mini c) b) else (True, ScoutMiniOmniRobot proto b))"
    using assms by (auto simp: Initialize_def)
  show ?thesis
  proof (cases "is_omni_wheel c")
    case omni: True
    then show ?thesis using True r scout_robot_kinds(2)[of proto b] by simp
  next
    case False
    then show ?thesis using True r scout_robot_kinds(1)[of proto "is_scout_mini c" b] by simp
  qed
qed

lemma initialised_robot_witness:
  "\<exists>k. robot_ptr (snd (the (snd (Initialize \<lparr>port_name = ''can1'', odom_frame = ''odom'', base_frame = ''base_link'', is_scout_mini = True, is_omni_wheel = False,
     auto_reconnect = True, publish_odom_tf = True, simulated_robot = False\<rparr> True AGX_V2 (zero_robot None))))) = Some k \<and> version_of k = AGX_V2"
proof -
  let ?c = "\<lparr>port_name = ''can1'', odom_frame = ''odom'', base_frame = ''base_link'', is_scout_mini = True, is_omni_wheel = False,
     auto_reconnect = True, publish_odom_tf = True, simulated_robot = False\<rparr>"
  obtain x where x: "Initialize ?c True AGX_V2 (zero_robot None) = (True, Some x)" by (simp add: Initialize_def)
  obtain o1 ob where "x = (o1, ob)" by (cases x)
  then show ?thesis using initialised_robot[OF x] x by auto
qed

text \<open>
  lights_front_only: a light message never asks for anything of the rear light: the
  command it leads to depends on the front mode and value alone, and with a mode that is not
  one of the four on what two variables happened to hold.
\<close>

theorem lights_front_only:
  assumes "front_mode l = front_mode l'" "front_custom_value l = front_custom_value l'" "cmd_ctrl_allowed l = cmd_ctrl_allowed l'"
  shows "LightCmdCallback mem unset stale l m = LightCmdCallback mem unset stale l' m
    \<and> (3 < front_mode l \<longrightarrow> front_command unset l = unset) \<and> (front_mode l \<noteq> 3 \<longrightarrow> snd (front_command unset l) = snd unset)"
proof -
  have f: "front_command unset l = front_command unset l'" using assms by (simp add: front_command_def)
  then have "LightCmdCallback mem unset stale l m = LightCmdCallback mem unset stale l' m"
    using assms(3) by (simp add: LightCmdCallback_def)
  moreover have "3 < front_mode l \<longrightarrow> front_mode l \<noteq> 0 \<and> front_mode l \<noteq> 1 \<and> front_mode l \<noteq> 2 \<and> front_mode l \<noteq> 3"
    by (auto simp: word_less_nat_alt)
  ultimately show ?thesis by (simp add: front_command_def)
qed

text \<open>
  odometry_sideways: the wheel odometry adds the sideways velocity of an omni robot to
  the second coordinate of the world whatever its heading: two motions that differ
  only in it lead to the same first coordinate and heading.
\<close>

theorem odometry_sideways:
  assumes "linear_velocity a = linear_velocity b" "angular_velocity a = angular_velocity b"
  shows "position_x (PublishOdometryToROS E a dt m) = position_x (PublishOdometryToROS E b dt m)
    \<and> theta (PublishOdometryToROS E a dt m) = theta (PublishOdometryToROS E b dt m)
    \<and> (\<not> ms_omni m \<longrightarrow> PublishOdometryToROS E a dt m = PublishOdometryToROS E b dt m)"
  using assms by (simp add: PublishOdometryToROS_def Let_def)

text \<open>
  A run of the node: turns of the loop and, between them, callbacks in any order.
\<close>

datatype node_event = Turn nat | Twist twist | Light "u32 \<times> u8" "light_operation \<times> light_operation" light_request

fun node_run :: "scout_params \<Rightarrow> scout_env \<Rightarrow> stack_memory \<Rightarrow> robot_core_state \<Rightarrow> robot_actuator_state \<Rightarrow> node_event list \<Rightarrow> messenger \<Rightarrow> messenger res" where
  "node_run c E mem s a [] m = Inr m"
| "node_run c E mem s a (e # es) m = bindR (case e of Turn now \<Rightarrow> Run_turn c E mem s a now m
     | Twist tw \<Rightarrow> TwistCmdCallback mem tw m | Light unset stale l \<Rightarrow> LightCmdCallback mem unset stale l m) (node_run c E mem s a es)"

definition turn_times :: "node_event list \<Rightarrow> nat list" where
  "turn_times es = concat (map (\<lambda>e. case e of Turn now \<Rightarrow> [now] | _ \<Rightarrow> []) es)"

definition status_stamps :: "messenger \<Rightarrow> nat list" where
  "status_stamps m = concat (map (\<lambda>x. case x of Status st \<Rightarrow> [st_stamp st] | _ \<Rightarrow> []) (ms_out m))"

definition odometry_stamps :: "messenger \<Rightarrow> nat list" where
  "odometry_stamps m = concat (map (\<lambda>x. case x of WheelOdometry t _ _ _ _ _ \<Rightarrow> [t] | _ \<Rightarrow> []) (ms_out m))"

lemma callback_keeps:
  "TwistCmdCallback mem tw m = Inr m' \<Longrightarrow> ms_out m' = ms_out m \<and> init_run m' = init_run m"
  "LightCmdCallback mem unset stale l m = Inr m' \<Longrightarrow> ms_out m' = ms_out m \<and> init_run m' = init_run m"
  by (auto simp: TwistCmdCallback_def LightCmdCallback_def bindR_def split: if_splits sum.splits)

lemma odometry_out:
  "init_run (PublishOdometryToROS E v dt m) = init_run m \<and> (\<exists>tf od. ms_out (PublishOdometryToROS E v dt m) = ms_out m @ tf @ [od]
     \<and> (\<forall>x\<in>set tf. \<exists>f b p q. x = BaseTransform (ms_current_time m) f b p q) \<and> (\<exists>f b p q v. od = WheelOdometry (ms_current_time m) f b p q v))"
  by (cases "sv_quat E (fp_add f64 (theta m) (fp_mul f64 (angular_velocity v) dt))") (auto simp: PublishOdometryToROS_def Let_def)

lemma status_stamp: "status_of now s a = Inr st \<Longrightarrow> st_stamp st = now"
  by (auto simp: status_of_def bindR_def split: sum.splits)

lemma concat_none: "(\<forall>x\<in>set xs. f x = []) \<Longrightarrow> concat (map f xs) = []"
  by (induction xs) auto

lemma published_state:
  assumes "PublishStateToROS E s a now m = Inr m'"
  shows "\<not> init_run m' \<and> status_stamps m' = status_stamps m @ (if init_run m then [] else [now])
    \<and> odometry_stamps m' = odometry_stamps m @ (if init_run m then [] else [now])"
proof (cases "init_run m")
  case True then show ?thesis using assms by (auto simp: PublishStateToROS_def status_stamps_def odometry_stamps_def)
next
  case False
  obtain s' a' st where st: "status_of now s' a' = Inr st"
    and m': "m' = (PublishOdometryToROS E (rcs_motion s') (seconds_between now (ms_last_time m)) (m\<lparr>ms_current_time := now, ms_out := ms_out m @ [Status st]\<rparr>))\<lparr>ms_last_time := now\<rparr>"
    using assms False by (auto simp: PublishStateToROS_def Let_def bindR_def split: sum.splits prod.splits)
  obtain tf od where o: "ms_out m' = (ms_out m @ [Status st]) @ tf @ [od]" "\<forall>x\<in>set tf. \<exists>f b p q. x = BaseTransform now f b p q"
    "\<exists>f b p q v. od = WheelOdometry now f b p q v" "init_run m' = init_run m"
    using odometry_out[of E "rcs_motion s'" "seconds_between now (ms_last_time m)" "m\<lparr>ms_current_time := now, ms_out := ms_out m @ [Status st]\<rparr>"]
    unfolding m' by auto
  have "concat (map (\<lambda>x. case x of Status st \<Rightarrow> [st_stamp st] | _ \<Rightarrow> []) tf) = []" by (rule concat_none) (use o(2) in auto)
  moreover have "concat (map (\<lambda>x. case x of WheelOdometry t _ _ _ _ _ \<Rightarrow> [t] | _ \<Rightarrow> []) tf) = []" by (rule concat_none) (use o(2) in auto)
  ultimately show ?thesis using o False status_stamp[OF st] by (auto simp: status_stamps_def odometry_stamps_def)
qed

lemma published_turn:
  assumes "Run_turn c E mem s a now m = Inr m'"
  shows "\<not> init_run m' \<and> status_stamps m' = status_stamps m @ (if init_run m then [] else [now])
    \<and> odometry_stamps m' = odometry_stamps m @ (if init_run m then [] else [now])"
proof -
  obtain m1 where p: "PublishStateToROS E s a now m = Inr m1" and "ms_out m' = ms_out m1" "init_run m' = init_run m1"
    using assms by (auto simp: Run_turn_def bindR_def split: sum.splits prod.splits if_splits)
  then show ?thesis using published_state[OF p] by (simp add: status_stamps_def odometry_stamps_def)
qed

lemma node_run_stamps:
  "node_run c E mem s a es m = Inr m' \<Longrightarrow> status_stamps m' = status_stamps m @ (if init_run m then tl (turn_times es) else turn_times es)
     \<and> odometry_stamps m' = odometry_stamps m @ (if init_run m then tl (turn_times es) else turn_times es)"
proof (induction es arbitrary: m)
  case Nil then show ?case by (simp add: turn_times_def)
next
  case (Cons e es)
  obtain m1 where s: "(case e of Turn now \<Rightarrow> Run_turn c E mem s a now m
     | Twist tw \<Rightarrow> TwistCmdCallback mem tw m | Light unset stale l \<Rightarrow> LightCmdCallback mem unset stale l m) = Inr m1"
    and r: "node_run c E mem s a es m1 = Inr m'"
    using Cons.prems by (auto simp: bindR_def split: sum.splits)
  show ?case
  proof (cases e)
    case (Turn now)
    then show ?thesis using published_turn[of c E mem s a now m m1] s Cons.IH[OF r] by (auto simp: turn_times_def)
  next
    case (Twist tw)
    then show ?thesis using callback_keeps(1)[of mem tw m m1] s Cons.IH[OF r] by (simp add: turn_times_def status_stamps_def odometry_stamps_def)
  next
    case (Light u st l)
    then show ?thesis using callback_keeps(2)[of mem u st l m m1] s Cons.IH[OF r] by (simp add: turn_times_def status_stamps_def odometry_stamps_def)
  qed
qed

text \<open>
  status_each_turn: whatever callbacks arrive between the turns of the loop, a node just
  constructed publishes one status and one odometry per turn, stamped with the time of
  the turn and in order, except in the first turn, which publishes nothing.
\<close>

theorem status_each_turn:
  assumes "node_run c E mem s a es (ScoutMessenger c' omni ob) = Inr m"
  shows "status_stamps m = tl (turn_times es) \<and> odometry_stamps m = tl (turn_times es)"
  using node_run_stamps[OF assms] by (simp add: ScoutMessenger_def status_stamps_def odometry_stamps_def)

end
