(* ===== verification/Spec2Isabelle.thy ===== *)
theory Spec2Isabelle
  imports Async_Serial Agx_Robots Livox_Wakeup Livox_Pub Mapper_System Visual_Update Pcd_Relocalize Pcd_Map
    Scout_Messenger
begin

text \<open>
  The software on the vehicle of the fleet: its C++ programs under edge/src.

  \<^bold>\<open>The parts and how they interact\<close>

  The vehicle is a robot on wheels with a lidar, an inertial sensor and a
  camera.  Three programs make it up.  (1) The robot SDK, ugv_sdk, speaks the CAN
  and serial protocols of the base: commands become frames, frames become messages
  that update the state of the robot.  (2) The lidar driver, livox_ros_driver2,
  takes packets from the network, queues them per device and publishes them as
  clouds; one thread stores packets and wakes another that publishes.  (3) The mapper,
  FAST-LIVO2, buffers clouds, inertial samples and images, cuts them into groups,
  propagates a filter through the samples of a group, corrects the scan for the motion,
  matches it with planes kept in a map of octrees, updates the filter from the
  matches and from patches of the image, and publishes the pose and the cloud.

  \<^bold>\<open>Theories and sources\<close>

  Shared: Prelude (errors, results, words, lists), Floats (IEEE numbers), Ring_Index
  (ring buffers with free-running indices, the locale of a FIFO queue).

  ugv_sdk: Ring_Buffer (ring_buffer.hpp), Async_Serial (async_serial.cpp),
  Agx_Messages (agilex_message.h), Agx_Protocol_V2 (agilex_msg_parser_v2.c),
  Agx_Protocol_V1 (agilex_msg_parser_v1.c and the parser class), Agx_Base
  (async_can.cpp, agilex_base.hpp), Agx_Robots (the robot classes, the objects users
  hold, the protocol detector).

  livox_ros_driver2: Livox_Queue (ldq.cpp, lidar_imu_data_queue.cpp, semaphore.cpp),
  Livox_Lds (cache_index.cpp, lds.cpp), Livox_Lddc and Livox_Wakeup (lddc.cpp, alone and
  with its two threads interleaved), Livox_Callback (parse_livox_lidar_cfg.cpp,
  lds_lidar.cpp, livox_lidar_callback.cpp), Livox_Pub (pub_handler.cpp,
  lidar_common_callback.cpp).

  FAST-LIVO2: Lidar_Preprocess (preprocess.cpp), Mapper_Sync (the callbacks and
  SyncPackages of LIVMapper.cpp), So3_States (so3_math.h, StatesGroup), Imu_Processing
  (IMU_Processing.cpp), Voxel_Octree, Voxel_Map and Lio_Estimate (voxel_map.cpp: trees,
  table, estimate), Mapper_Config (ReadParameters, loadVoxelConfig), Mapper_Run (the rest
  of LIVMapper.cpp), Mapper_System (its buffers over every interleaving, the odometry at
  the rate of the samples), Visual_Image (the camera and the image functions of vio.cpp and
  vikit_common), Visual_Map (image_frame.cpp and the map of vio.cpp), Visual_Retrieve
  (choosing, making and extending visual points), Visual_Update (the update from the
  image and ProcessFrame).

  Around them: Scout_Messenger (the ROS node of the robot's base), Pcd_Relocalize (the node
  that finds the vehicle in a recorded map, pcd_relocalizer.cpp) and Pcd_Map (the tool
  that turns such a map into an image, pcd_to_map.cpp).

  A definition has the name of the function it models, or the name of the step where
  a long function is split; a class is a record of its members, an enumeration a
  datatype; a method takes the record and returns it changed.

  \<^bold>\<open>What the lemmas show\<close>

  Each theory proves an invariant of its state and that every operation keeps it, then
  what the operations do.  Two queues are instances of one locale of FIFO queues;
  the base class of the robots is a locale over its parser, interpreted for both
  protocols; the least-recently-used maps of planes and of visual points are proved
  against a list in the order of use.  The serial port, the configuration of a device, the
  wake-up of the publishing thread and the mapper are step relations with
  invariants over every interleaving.  The corrections of the filter are shown to solve
  the normal equations of their least-squares problems; the octree to keep every point
  in its octant and to find it again; cutting a group to lose no point and to move none in
  space or time.  The node of the base publishes one status per turn; the relocaliser
  uses no cloud it does not have, whatever callbacks come; the image of a map is black
  exactly in the cells with enough points.  Where the code does not do what it means to, the theorem states what
  it does.

  \<^bold>\<open>How C++ is modelled\<close>

  A failure is a value: cpp_error names undefined behaviour, an access out of bounds,
  a division by zero and the exceptions, and an operation that can fail returns
  cpp_error + 'a.  The integers of the drivers and protocols are words of their width, their
  float and double values are those of Floats.  In the mapper numbers are exact rationals:
  rounding is left aside, so is the rounding of the times at which cut_scans divides a
  scan, and a float and a double of the same value coincide.  There plane_variance is
  None where the code divides by zero and goes on with a NaN or an infinity, and a norm of
  zero in the inertial processing is an error.  Time stamps are natural numbers of
  nanoseconds.  Memory the code reads without having set it is an argument (junk,
  stale, unset), so is a clock and the order in which a hash table is run through.
  Visual points and features live on a heap of addresses; a freed address is None, and using
  or freeing it again is an error.  Rigid motions (SE3) are a matrix and a vector.

  Code outside src is an argument of the definitions that use it: the eigenvalue solver,
  the inverse of a matrix, the rotation from one vector to another and the C library
  (sine, cosine, arc cosine, square root), the grid filter of PCL, the message conversions
  of OpenCV, the registration libraries TEASER++ and small_gicp, the asio and SDK calls.  What a theorem needs of them is a hypothesis on the
  argument, as the libraries document it: that the square root is exact and sine
  and cosine lie on the circle at the arguments at hand, that the inverse is one,
  that FromTwoVectors sends the line of one vector to that of the other.  Each
  such theorem has an example at which the hypotheses hold.

  Callbacks, ticks and turns of the mapper are atomic steps, as the mutexes of the code make
  them; the data races between its threads (imu_need_init_ for one) are not modelled.
  The threads of the lidar driver are interleaved in finer steps, which are seen in
  program order.

  Loops are recursion on what they consume, so all functions are total; the loops that
  wait for something (the polling of the detector, the publishing thread) are step relations
  or take the rounds as a list.  Fuel is used nowhere in the estimates: the iterations of
  the filter count down from the configured number, the octrees recurse on the layers
  left, and what would not end is proved so (Livox_Wakeup: poll_never_ends).

  Simplifications inside modelled functions: DetectProtocolVersion takes the frames that
  arrive between its last test and its final reads as an argument, and the theorem about
  its verdict is for none; publish_step leaves out the exit request, the message
  format is that of the point clouds and the node is connected; leafnum is one function where
  voxel_map.cpp has three equal copies of the text; update_points leaves the reset of the
  counter of the parent node to its callers, which do reset it; the sizes of containers
  are unbounded.

  \<^bold>\<open>Not modelled\<close>

  Log files, console output, markers and drawings, the files for Colmap, and the code
  under #if 0; the ROS 1 build of the driver; the nodes that only set up topics and
  threads (main.cpp, driver_node.cpp, livox_ros_driver2.cpp, relocalize_node.cpp); the camera
  models of vikit_common that are not configured, its image alignment and homography
  estimation, which vio.cpp does not call, and Sophus beyond the product, inverse
  and action of SE3; rapidjson; the samples, tests and Python bindings of the SDK; the
  arguments and files of the map tool and main of the relocaliser; the Python and web code of fleet_streamer, eastworld_bringup, host and
  shared.  The visual step and the colours of points are arguments of the mapper's
  loop: the visual part is modelled by itself in the Visual theories.
\<close>

end
